(* ===== verification/Prelude.thy ===== *)
theory Prelude
  imports Complex_Main "HOL-Library.Sublist" "HOL-Library.Multiset"
begin

text \<open>
  Shared vocabulary of the development: Python's insertion-ordered dictionaries
  (\<open>dict\<close> and \<open>collections.OrderedDict\<close>) as association lists with distinct keys, the
  eviction loop every bounded cache of the program uses, results of fallible code as
  sums, and two interfaces stated as locales: a bounded recency map and a transition
  system with an invariant. Floating point times are \<open>real\<close> (rounding is not modelled),
  Python integers are \<open>int\<close>, identifiers are \<open>string\<close> (code points below 256) and
  human text is a list of code points (\<open>utext\<close>).
\<close>

named_theorems od_simps "lookup laws of the ordered dictionary operations"
named_theorems od_inv "well-formedness of the ordered dictionary operations"

type_synonym utext = "nat list"
type_synonym instant = real
type_synonym ('k, 'v) odict = "('k \<times> 'v) list"

section \<open>Ordered dictionaries\<close>

abbreviation od_keys :: "('k, 'v) odict \<Rightarrow> 'k list" where
  "od_keys d \<equiv> map fst d"

abbreviation od_get :: "('k, 'v) odict \<Rightarrow> 'k \<Rightarrow> 'v option" where
  "od_get d k \<equiv> map_of d k"

definition od_wf :: "('k, 'v) odict \<Rightarrow> bool" where
  "od_wf d \<longleftrightarrow> distinct (od_keys d)"

text \<open>\<open>d[k] = v\<close>: an existing key keeps its position, a new one goes last.\<close>

fun od_set :: "'k \<Rightarrow> 'v \<Rightarrow> ('k, 'v) odict \<Rightarrow> ('k, 'v) odict" where
  "od_set k v [] = [(k, v)]"
| "od_set k v ((k', v') # d) = (if k' = k then (k, v) # d else (k', v') # od_set k v d)"

text \<open>\<open>d.pop(k, None)\<close>.\<close>

definition od_pop :: "'k \<Rightarrow> ('k, 'v) odict \<Rightarrow> ('k, 'v) odict" where
  "od_pop k d = filter (\<lambda>p. fst p \<noteq> k) d"

text \<open>\<open>d.move_to_end(k)\<close>, used by the program on present keys only.\<close>

definition od_move_to_end :: "'k \<Rightarrow> ('k, 'v) odict \<Rightarrow> ('k, 'v) odict" where
  "od_move_to_end k d = (case od_get d k of None \<Rightarrow> d | Some v \<Rightarrow> od_pop k d @ [(k, v)])"

text \<open>\<open>while len(d) > cap: d.popitem(last=False)\<close>.\<close>

fun od_trim :: "nat \<Rightarrow> ('k, 'v) odict \<Rightarrow> ('k, 'v) odict" where
  "od_trim cap [] = []"
| "od_trim cap (p # d) = (if cap < length (p # d) then od_trim cap d else p # d)"

text \<open>\<open>d[k] = v; d.move_to_end(k)\<close>: the recency update of the bounded caches.\<close>

definition od_touch :: "'k \<Rightarrow> 'v \<Rightarrow> ('k, 'v) odict \<Rightarrow> ('k, 'v) odict" where
  "od_touch k v d = od_move_to_end k (od_set k v d)"

lemma od_trim_drop: "od_trim cap d = drop (length d - cap) d"
  by (induction cap d rule: od_trim.induct) (auto simp: Suc_diff_le)

lemma length_od_trim [simp]: "length (od_trim cap d) = min cap (length d)"
  by (simp add: od_trim_drop)

lemma od_trim_le [simp]: "length d \<le> cap \<Longrightarrow> od_trim cap d = d"
  by (simp add: od_trim_drop)

lemma od_get_set [od_simps]: "od_get (od_set k v d) j = (if j = k then Some v else od_get d j)"
  by (induction k v d rule: od_set.induct) auto

lemma keys_od_set [od_simps]: "fst ` set (od_set k v d) = insert k (fst ` set d)"
  by (induction k v d rule: od_set.induct) auto

lemma od_set_new: "k \<notin> set (od_keys d) \<Longrightarrow> od_set k v d = d @ [(k, v)]"
  by (induction k v d rule: od_set.induct) auto

lemma od_keys_set_present: "k \<in> set (od_keys d) \<Longrightarrow> od_keys (od_set k v d) = od_keys d"
  by (induction k v d rule: od_set.induct) auto

lemma length_od_set: "length (od_set k v d) = (if k \<in> set (od_keys d) then length d else Suc (length d))"
  by (induction k v d rule: od_set.induct) auto

lemma od_get_pop [od_simps]: "od_get (od_pop k d) j = (if j = k then None else od_get d j)"
  by (induction d) (auto simp: od_pop_def)

lemma keys_od_pop [od_simps]: "fst ` set (od_pop k d) = fst ` set d - {k}"
  by (auto simp: od_pop_def)

lemma od_pop_idle: "k \<notin> set (od_keys d) \<Longrightarrow> od_pop k d = d"
  by (force simp: od_pop_def filter_id_conv)

lemma od_mem: "k \<in> fst ` set d \<longleftrightarrow> (\<exists>v. od_get d k = Some v)"
  using map_of_eq_None_iff [of d k] by (cases "od_get d k") auto

lemma od_get_move [od_simps]: "od_get (od_move_to_end k d) j = od_get d j"
  by (auto simp: od_move_to_end_def od_get_pop map_add_def split: option.splits)

lemma keys_od_move [od_simps]: "fst ` set (od_move_to_end k d) = fst ` set d"
proof -
  have "x \<in> fst ` set (od_move_to_end k d) \<longleftrightarrow> x \<in> fst ` set d" for x
    using map_of_eq_None_iff [of "od_move_to_end k d" x] map_of_eq_None_iff [of d x]
    by (simp add: od_get_move)
  then show ?thesis by blast
qed

lemma od_get_touch [od_simps]: "od_get (od_touch k v d) j = (if j = k then Some v else od_get d j)"
  by (simp add: od_touch_def od_simps)

lemma keys_od_touch [od_simps]: "fst ` set (od_touch k v d) = insert k (fst ` set d)"
  by (simp add: od_touch_def od_simps)

lemma od_wf_Nil [od_inv, simp]: "od_wf []"
  by (simp add: od_wf_def)

lemma od_wf_set [od_inv]: "od_wf d \<Longrightarrow> od_wf (od_set k v d)"
proof (cases "k \<in> set (od_keys d)")
  case True
  then show "od_wf d \<Longrightarrow> ?thesis" by (simp add: od_wf_def od_keys_set_present)
next
  case False
  then show "od_wf d \<Longrightarrow> ?thesis" by (simp add: od_wf_def od_set_new)
qed

lemma od_wf_pop [od_inv]: "od_wf d \<Longrightarrow> od_wf (od_pop k d)"
  by (simp add: od_wf_def od_pop_def distinct_map_filter)

lemma od_wf_move [od_inv]: "od_wf d \<Longrightarrow> od_wf (od_move_to_end k d)"
  by (auto simp: od_move_to_end_def od_wf_def od_pop_def distinct_map_filter split: option.splits)

lemma od_wf_touch [od_inv]: "od_wf d \<Longrightarrow> od_wf (od_touch k v d)"
  by (simp add: od_touch_def od_inv)

lemma od_wf_drop [od_inv]: "od_wf d \<Longrightarrow> od_wf (drop n d)"
  by (simp add: od_wf_def drop_map [symmetric] del: drop_map)

lemma od_wf_trim [od_inv]: "od_wf d \<Longrightarrow> od_wf (od_trim cap d)"
  by (simp add: od_trim_drop od_inv)

lemma od_touch_last: "od_touch k v d = od_pop k d @ [(k, v)]"
proof -
  have "od_pop k (od_set k v d) = od_pop k d"
    by (induction k v d rule: od_set.induct) (auto simp: od_pop_def)
  then show ?thesis by (simp add: od_touch_def od_move_to_end_def od_simps)
qed

lemma length_od_pop_le: "length (od_pop k d) \<le> length d"
  by (simp add: od_pop_def)

lemma length_od_touch: "length (od_touch k v d) \<le> Suc (length d)"
  by (simp add: od_touch_last length_od_pop_le)

lemma od_trim_last: "0 < cap \<Longrightarrow> od_trim cap (d @ [p]) = od_trim (cap - 1) d @ [p]"
  by (auto simp: od_trim_drop Suc_diff_le)

lemma od_trim_subset: "set (od_trim cap d) \<subseteq> set d"
  by (simp add: od_trim_drop set_drop_subset)

lemma od_get_subset: "od_wf d \<Longrightarrow> set e \<subseteq> set d \<Longrightarrow> od_get e k = Some v \<Longrightarrow> od_get d k = Some v"
  by (metis map_of_SomeD map_of_is_SomeI od_wf_def subsetD)

lemma od_get_trim_Some: "od_wf d \<Longrightarrow> od_get (od_trim cap d) k = Some v \<Longrightarrow> od_get d k = Some v"
  by (erule od_get_subset [OF _ od_trim_subset])

text \<open>\<open>d.setdefault(f(x), []).append(x)\<close> for each \<open>x\<close>: the groups in order of first occurrence.\<close>

definition od_append :: "'k \<Rightarrow> 'a \<Rightarrow> ('k, 'a list) odict \<Rightarrow> ('k, 'a list) odict" where
  "od_append k x d = od_set k ((case od_get d k of None \<Rightarrow> [] | Some l \<Rightarrow> l) @ [x]) d"

definition od_group :: "('a \<Rightarrow> 'k) \<Rightarrow> 'a list \<Rightarrow> ('k, 'a list) odict" where
  "od_group f xs = fold (\<lambda>x. od_append (f x) x) xs []"

lemma od_group_snoc: "od_group f (xs @ [x]) = od_append (f x) x (od_group f xs)"
  by (simp add: od_group_def)

lemma od_group_Nil [simp]: "od_group f [] = []"
  by (simp add: od_group_def)

lemma od_group_wf [od_inv]: "od_wf (od_group f xs)"
  by (induction xs rule: rev_induct) (simp_all add: od_group_snoc od_append_def od_inv)

lemma od_group_get:
  "od_get (od_group f xs) k = (if filter (\<lambda>x. f x = k) xs = [] then None else Some (filter (\<lambda>x. f x = k) xs))"
  by (induction xs rule: rev_induct) (auto simp: od_group_snoc od_append_def od_get_set)

lemma od_group_sound: "(k, l) \<in> set (od_group f xs) \<Longrightarrow> x \<in> set l \<Longrightarrow> f x = k"
  using od_group_wf [of f xs] od_group_get [of f xs k] by (auto simp: od_wf_def split: if_splits)

lemma mset_od_append: "od_wf d \<Longrightarrow> mset (concat (map snd (od_append k x d))) = add_mset x (mset (concat (map snd d)))"
proof (induction d)
  case (Cons p d)
  obtain a b where p: "p = (a, b)" by (cases p)
  show ?case
  proof (cases "a = k")
    case False
    then have "od_append k x (p # d) = p # od_append k x d" by (simp add: od_append_def p)
    then show ?thesis using Cons by (simp add: od_wf_def p)
  qed (simp add: od_append_def p)
qed (simp add: od_append_def)

lemma mset_od_group: "mset (concat (map snd (od_group f xs))) = mset xs"
  by (induction xs rule: rev_induct) (simp_all add: od_group_snoc mset_od_append od_group_wf)

section \<open>Results of fallible code\<close>

text \<open>\<open>Inl e\<close> is a raised exception, \<open>Inr x\<close> a normal return.\<close>

type_synonym ('e, 'a) result = "'e + 'a"

definition ok :: "('e, 'a) result \<Rightarrow> bool" where
  "ok r \<longleftrightarrow> (case r of Inl _ \<Rightarrow> False | Inr _ \<Rightarrow> True)"

lemma ok_simps [simp]: "ok (Inr x)" "\<not> ok (Inl e)"
  by (simp_all add: ok_def)

section \<open>Bounded recency maps\<close>

text \<open>
  The contract the echo caches, the watcher's message cache and the moderator's join
  table share: \<open>put\<close> makes its key the newest entry, never exceeds the capacity and
  never changes the value of a surviving key.
\<close>

locale recency_map =
  fixes put :: "'k \<Rightarrow> 'v \<Rightarrow> 's \<Rightarrow> 's"
    and entries :: "'s \<Rightarrow> ('k, 'v) odict"
    and cap :: "'s \<Rightarrow> nat"
  assumes put_wf: "od_wf (entries s) \<Longrightarrow> od_wf (entries (put k v s))"
    and put_cap: "cap (put k v s) = cap s"
    and put_bound: "length (entries (put k v s)) \<le> cap s"
    and put_new: "0 < cap s \<Longrightarrow> od_get (entries (put k v s)) k = Some v"
    and put_old: "od_wf (entries s) \<Longrightarrow> j \<noteq> k \<Longrightarrow> od_get (entries (put k v s)) j = Some w \<Longrightarrow>
      od_get (entries s) j = Some w"
    and put_room: "od_wf (entries s) \<Longrightarrow> length (entries s) < cap s \<Longrightarrow> j \<noteq> k \<Longrightarrow>
      od_get (entries (put k v s)) j = od_get (entries s) j"
begin

definition puts :: "('k \<times> 'v) list \<Rightarrow> 's \<Rightarrow> 's" where
  "puts kvs s = fold (\<lambda>(k, v). put k v) kvs s"

lemma puts_wf: "od_wf (entries s) \<Longrightarrow> od_wf (entries (puts kvs s))"
  unfolding puts_def by (induction kvs arbitrary: s) (auto simp: put_wf)

lemma puts_cap: "cap (puts kvs s) = cap s"
  unfolding puts_def by (induction kvs arbitrary: s) (auto simp: put_cap)

lemma puts_bound: "length (entries s) \<le> cap s \<Longrightarrow> length (entries (puts kvs s)) \<le> cap s"
  unfolding puts_def
proof (induction kvs arbitrary: s)
  case Nil
  then show ?case by simp
next
  case (Cons p kvs)
  obtain k v where p: "p = (k, v)" by (cases p)
  show ?case
    using Cons.IH [of "put k v s"] put_bound [of k v s] by (simp add: p put_cap)
qed

lemma puts_sound:
  assumes "od_wf (entries s)" and "od_get (entries (puts kvs s)) k = Some v"
  shows "(k, v) \<in> set kvs \<or> od_get (entries s) k = Some v"
  using assms
proof (induction kvs arbitrary: s)
  case Nil
  then show ?case by (simp add: puts_def)
next
  case (Cons p kvs)
  obtain j w where p: "p = (j, w)" by (cases p)
  have step: "puts (p # kvs) s = puts kvs (put j w s)" by (simp add: puts_def p)
  have "(k, v) \<in> set kvs \<or> od_get (entries (put j w s)) k = Some v"
    using Cons.IH [of "put j w s"] Cons.prems put_wf by (simp add: step)
  then show ?case
  proof
    assume "(k, v) \<in> set kvs" then show ?thesis by simp
  next
    assume get: "od_get (entries (put j w s)) k = Some v"
    show ?thesis
    proof (cases "k = j")
      case False
      then show ?thesis using put_old [OF Cons.prems(1) False get] by blast
    next
      case True
      have "entries (put j w s) \<noteq> []" using get by auto
      then have "0 < cap s" using put_bound [of j w s] by (cases "cap s") auto
      then show ?thesis using put_new [of s j w] get True p by auto
    qed
  qed
qed

end

section \<open>Transition systems with an invariant\<close>

text \<open>
  Interleaved components (cache, login, coordinator, worker) are step relations; one
  law, that a step keeps the invariant, gives it for every reachable state.
\<close>

locale inv_system =
  fixes stp :: "'s \<Rightarrow> 's \<Rightarrow> bool" and invar :: "'s \<Rightarrow> bool"
  assumes step_keeps: "invar s \<Longrightarrow> stp s t \<Longrightarrow> invar t"
begin

lemma reach_keeps: "stp\<^sup>*\<^sup>* s t \<Longrightarrow> invar s \<Longrightarrow> invar t"
  by (induction rule: rtranclp_induct) (auto intro: step_keeps)

lemma reach_implies: "stp\<^sup>*\<^sup>* s t \<Longrightarrow> invar s \<Longrightarrow> (\<And>u. invar u \<Longrightarrow> P u) \<Longrightarrow> P t"
  using reach_keeps by blast

end

end
