(* ===== verification/Ttl_Cache.thy ===== *)
theory Ttl_Cache
  imports Prelude
begin

text \<open>
  \<open>src/tg_messenger/core/cache.py\<close>: the TTL cache (\<open>get\<close>, \<open>set\<close>, \<open>invalidate\<close>,
  \<open>invalidate_if\<close>), the echo marker \<open>bounded_remember\<close>, and \<open>get_or_fetch\<close> as the
  interleaving of any number of coroutines whose atomic sections are the code between two
  awaits. A coroutine that waits for a free lock is one more interleaving than asyncio has,
  so every safety property proved here holds for the event loop's schedules.
\<close>

section \<open>The echo marker\<close>

definition bounded_remember :: "nat \<Rightarrow> 'k \<Rightarrow> ('k, bool) odict \<Rightarrow> ('k, bool) odict" where
  "bounded_remember cap k od = od_trim cap (od_move_to_end k (od_set k True od))"

definition remember_entry :: "'k \<Rightarrow> bool \<Rightarrow> nat \<times> ('k, bool) odict \<Rightarrow> nat \<times> ('k, bool) odict" where
  "remember_entry k v s = (fst s, od_trim (fst s) (od_touch k v (snd s)))"

lemma od_trim_touch_new: "0 < cap \<Longrightarrow> od_get (od_trim cap (od_touch k v d)) k = Some v"
proof -
  assume "0 < cap"
  then have "od_trim cap (od_touch k v d) = od_trim (cap - 1) (od_pop k d) @ [(k, v)]"
    by (simp add: od_touch_last od_trim_last)
  moreover have "k \<notin> fst ` set (od_trim (cap - 1) (od_pop k d))"
    using od_trim_subset [of "cap - 1" "od_pop k d"] by (auto simp: od_pop_def)
  ultimately show ?thesis by (simp add: map_add_Some_iff map_of_eq_None_iff)
qed

lemma od_trim_touch_old:
  "od_wf d \<Longrightarrow> j \<noteq> k \<Longrightarrow> od_get (od_trim cap (od_touch k v d)) j = Some w \<Longrightarrow> od_get d j = Some w"
  using od_get_trim_Some [of "od_touch k v d" cap j w] by (simp add: od_inv od_simps)

lemma od_trim_touch_room:
  "length d < cap \<Longrightarrow> j \<noteq> k \<Longrightarrow> od_get (od_trim cap (od_touch k v d)) j = od_get d j"
  using length_od_touch [of k v d] by (simp add: od_simps)

interpretation echo: recency_map remember_entry snd fst
  by unfold_locales
    (auto simp: remember_entry_def od_inv od_trim_touch_new od_trim_touch_room
      dest: od_trim_touch_old)

lemma bounded_remember_entry: "bounded_remember cap k od = snd (remember_entry k True (cap, od))"
  by (simp add: bounded_remember_def remember_entry_def od_touch_def)

section \<open>Cache state and synchronous operations\<close>

text \<open>The \<open>[lock, waiters]\<close> pair of \<open>_locks\<close>: the coroutine holding the lock, the count.\<close>

record lock_entry =
  le_owner :: "nat option"
  le_count :: int

record ('k, 'v) ttl_cache =
  tc_ttl :: instant
  tc_maxsize :: nat
  tc_store :: "('k, 'v \<times> instant) odict"
  tc_locks :: "('k, lock_entry) odict"
  tc_epochs :: "('k, int) odict"

definition epoch_of :: "('k, 'v) ttl_cache \<Rightarrow> 'k \<Rightarrow> int" where
  "epoch_of c k = (case od_get (tc_epochs c) k of None \<Rightarrow> 0 | Some e \<Rightarrow> e)"

definition cache_get :: "instant \<Rightarrow> 'k \<Rightarrow> ('k, 'v) ttl_cache \<Rightarrow> 'v option \<times> ('k, 'v) ttl_cache" where
  "cache_get now k c =
     (case od_get (tc_store c) k of
        None \<Rightarrow> (None, c)
      | Some (v, expires_at) \<Rightarrow>
          if now \<ge> expires_at then (None, c\<lparr>tc_store := od_pop k (tc_store c)\<rparr>)
          else (Some v, c))"

definition bump_epoch :: "'k \<Rightarrow> ('k, 'v) ttl_cache \<Rightarrow> ('k, 'v) ttl_cache" where
  "bump_epoch k c = c\<lparr>tc_epochs := od_set k (epoch_of c k + 1) (tc_epochs c)\<rparr>"

definition prune_epoch :: "'k \<Rightarrow> ('k, 'v) ttl_cache \<Rightarrow> ('k, 'v) ttl_cache" where
  "prune_epoch k c =
     (if k \<notin> fst ` set (tc_store c) \<and> k \<notin> fst ` set (tc_locks c)
      then c\<lparr>tc_epochs := od_pop k (tc_epochs c)\<rparr> else c)"

text \<open>\<open>while len(store) > maxsize: oldest, _ = popitem(last=False); _prune_epoch(oldest)\<close>.\<close>

function cache_evict :: "('k, 'v) ttl_cache \<Rightarrow> ('k, 'v) ttl_cache" where
  "cache_evict c =
     (case tc_store c of
        [] \<Rightarrow> c
      | (oldest, _) # rest \<Rightarrow>
          if tc_maxsize c < length (tc_store c)
          then cache_evict (prune_epoch oldest (c\<lparr>tc_store := rest\<rparr>)) else c)"
  by pat_completeness auto
termination
  by (relation "measure (\<lambda>c. length (tc_store c))") (auto simp: prune_epoch_def)

declare cache_evict.simps [simp del]

definition cache_set :: "instant \<Rightarrow> 'k \<Rightarrow> 'v \<Rightarrow> ('k, 'v) ttl_cache \<Rightarrow> ('k, 'v) ttl_cache" where
  "cache_set now k v c =
     (let st = (if k \<in> fst ` set (tc_store c) then od_move_to_end k (tc_store c) else tc_store c)
      in cache_evict (c\<lparr>tc_store := od_set k (v, now + tc_ttl c) st\<rparr>))"

text \<open>One key: bump its epoch, drop it from the store, prune the epoch if unreferenced.\<close>

definition invalidate_one :: "'k \<Rightarrow> ('k, 'v) ttl_cache \<Rightarrow> ('k, 'v) ttl_cache" where
  "invalidate_one k c =
     (let c1 = bump_epoch k c; c2 = c1\<lparr>tc_store := od_pop k (tc_store c1)\<rparr> in prune_epoch k c2)"

text \<open>The candidate sets are lists here; the result does not depend on their order.\<close>

definition invalidate :: "'k option \<Rightarrow> ('k, 'v) ttl_cache \<Rightarrow> ('k, 'v) ttl_cache" where
  "invalidate key c =
     (case key of
        None \<Rightarrow>
          (fold bump_epoch (remdups (od_keys (tc_epochs c) @ od_keys (tc_locks c))) c)\<lparr>tc_store := []\<rparr>
      | Some k \<Rightarrow> invalidate_one k c)"

definition invalidate_if :: "('k \<Rightarrow> bool) \<Rightarrow> ('k, 'v) ttl_cache \<Rightarrow> ('k, 'v) ttl_cache" where
  "invalidate_if predicate c =
     (let candidates = remdups (od_keys (tc_store c) @ od_keys (tc_locks c) @ od_keys (tc_epochs c));
          doomed = filter predicate candidates
      in fold invalidate_one doomed c)"

section \<open>The atomic sections of \<open>get_or_fetch\<close>\<close>

text \<open>From the call to the lock: a hit returns at once, a miss registers a waiter.\<close>

definition gof_enter :: "instant \<Rightarrow> 'k \<Rightarrow> ('k, 'v) ttl_cache \<Rightarrow> 'v option \<times> ('k, 'v) ttl_cache" where
  "gof_enter now k c =
     (case cache_get now k c of
        (Some v, c1) \<Rightarrow> (Some v, c1)
      | (None, c1) \<Rightarrow>
          (let entry = (case od_get (tc_locks c1) k of
                          None \<Rightarrow> \<lparr>le_owner = None, le_count = 0\<rparr> | Some e \<Rightarrow> e)
           in (None, c1\<lparr>tc_locks := od_set k (entry\<lparr>le_count := le_count entry + 1\<rparr>) (tc_locks c1)\<rparr>)))"

text \<open>The \<open>finally\<close> block, after the lock (if held) has been released.\<close>

definition gof_leave :: "'k \<Rightarrow> ('k, 'v) ttl_cache \<Rightarrow> ('k, 'v) ttl_cache" where
  "gof_leave k c =
     (case od_get (tc_locks c) k of
        None \<Rightarrow> c
      | Some entry \<Rightarrow>
          (let entry' = entry\<lparr>le_count := le_count entry - 1\<rparr>;
               c1 = c\<lparr>tc_locks := od_set k entry' (tc_locks c)\<rparr>
           in if le_count entry' \<le> 0
              then prune_epoch k (c1\<lparr>tc_locks := od_pop k (tc_locks c1)\<rparr>)
              else c1))"

definition gof_owner :: "nat option \<Rightarrow> 'k \<Rightarrow> ('k, 'v) ttl_cache \<Rightarrow> ('k, 'v) ttl_cache" where
  "gof_owner who k c =
     (case od_get (tc_locks c) k of
        None \<Rightarrow> c
      | Some entry \<Rightarrow> c\<lparr>tc_locks := od_set k (entry\<lparr>le_owner := who\<rparr>) (tc_locks c)\<rparr>)"

text \<open>Under the lock, before the fetch: \<open>Inl\<close> a second-check hit, \<open>Inr\<close> the epoch snapshot.\<close>

definition gof_locked :: "nat \<Rightarrow> instant \<Rightarrow> 'k \<Rightarrow> ('k, 'v) ttl_cache \<Rightarrow> ('v + int) \<times> ('k, 'v) ttl_cache" where
  "gof_locked t now k c =
     (case cache_get now k (gof_owner (Some t) k c) of
        (Some v, c1) \<Rightarrow> (Inl v, gof_leave k (gof_owner None k c1))
      | (None, c1) \<Rightarrow> (Inr (epoch_of c1 k), c1))"

definition gof_commit :: "instant \<Rightarrow> 'k \<Rightarrow> int \<Rightarrow> 'v \<Rightarrow> ('k, 'v) ttl_cache \<Rightarrow> ('k, 'v) ttl_cache" where
  "gof_commit now k epoch v c =
     (let c1 = (if epoch_of c k = epoch then cache_set now k v c else c)
      in gof_leave k (gof_owner None k c1))"

definition gof_abort :: "'k \<Rightarrow> ('k, 'v) ttl_cache \<Rightarrow> ('k, 'v) ttl_cache" where
  "gof_abort k c = gof_leave k (gof_owner None k c)"

section \<open>Views of the cache and the effect of each operation on them\<close>

named_theorems cache_view "effect of the cache operations on store, locks and epochs"

text \<open>The lock of a key as owner and waiter count, absent entries reading as free.\<close>

definition lk :: "('k, 'v) ttl_cache \<Rightarrow> 'k \<Rightarrow> nat option \<times> int" where
  "lk c k = (case od_get (tc_locks c) k of None \<Rightarrow> (None, 0) | Some e \<Rightarrow> (le_owner e, le_count e))"

definition cache_wf :: "('k, 'v) ttl_cache \<Rightarrow> bool" where
  "cache_wf c \<longleftrightarrow> od_wf (tc_store c) \<and> length (tc_store c) \<le> tc_maxsize c
     \<and> (\<forall>k. k \<in> fst ` set (tc_locks c) \<longleftrightarrow> 0 < snd (lk c k))"

lemma cache_get_view [cache_view]:
  "tc_locks (snd (cache_get now k c)) = tc_locks c"
  "tc_epochs (snd (cache_get now k c)) = tc_epochs c"
  "tc_maxsize (snd (cache_get now k c)) = tc_maxsize c"
  "tc_ttl (snd (cache_get now k c)) = tc_ttl c"
  by (auto simp: cache_get_def split: option.splits)

lemma cache_get_store:
  "tc_store (snd (cache_get now k c)) = tc_store c \<or> tc_store (snd (cache_get now k c)) = od_pop k (tc_store c)"
  by (auto simp: cache_get_def split: option.splits)

lemma cache_get_miss: "fst (cache_get now k c) = None \<Longrightarrow> od_get (tc_store (snd (cache_get now k c))) k = None"
  by (auto simp: cache_get_def od_simps split: option.splits if_splits)

lemma cache_get_hit:
  "fst (cache_get now k c) = Some v \<longleftrightarrow> (\<exists>x. od_get (tc_store c) k = Some (v, x) \<and> now < x)"
  by (auto simp: cache_get_def split: option.splits)

lemma bump_view [cache_view]:
  "tc_store (bump_epoch k c) = tc_store c"
  "tc_locks (bump_epoch k c) = tc_locks c"
  "tc_maxsize (bump_epoch k c) = tc_maxsize c"
  "epoch_of (bump_epoch k c) j = (if j = k then epoch_of c k + 1 else epoch_of c j)"
  by (auto simp: bump_epoch_def epoch_of_def od_simps)

lemma prune_view [cache_view]:
  "tc_store (prune_epoch k c) = tc_store c"
  "tc_locks (prune_epoch k c) = tc_locks c"
  "tc_maxsize (prune_epoch k c) = tc_maxsize c"
  "tc_ttl (prune_epoch k c) = tc_ttl c"
  by (auto simp: prune_epoch_def)

lemma epoch_prune: "j \<noteq> k \<or> j \<in> fst ` set (tc_locks c) \<Longrightarrow> epoch_of (prune_epoch k c) j = epoch_of c j"
  by (auto simp: prune_epoch_def epoch_of_def od_simps)

lemma evict_view_all:
  "tc_store (cache_evict c) = od_trim (tc_maxsize c) (tc_store c)
   \<and> tc_locks (cache_evict c) = tc_locks c \<and> tc_maxsize (cache_evict c) = tc_maxsize c
   \<and> (j \<in> fst ` set (tc_locks c) \<longrightarrow> epoch_of (cache_evict c) j = epoch_of c j)"
proof (induction c rule: cache_evict.induct)
  case (1 c)
  show ?case
  proof (cases "tc_store c")
    case (Cons p rest)
    obtain k v where p: "p = (k, v)" by (cases p)
    let ?d = "c\<lparr>tc_store := rest\<rparr>"
    have e: "epoch_of ?d j = epoch_of c j" by (simp add: epoch_of_def)
    show ?thesis using "1.IH" [OF Cons p [symmetric]] epoch_prune [of j k ?d]
      by (simp add: cache_evict.simps [of c] Cons p cache_view e)
  qed (simp add: cache_evict.simps [of c])
qed

lemma evict_view [cache_view]:
  "tc_store (cache_evict c) = od_trim (tc_maxsize c) (tc_store c)"
  "tc_locks (cache_evict c) = tc_locks c"
  "tc_maxsize (cache_evict c) = tc_maxsize c"
  by (simp_all add: evict_view_all)

lemma epoch_evict: "j \<in> fst ` set (tc_locks c) \<Longrightarrow> epoch_of (cache_evict c) j = epoch_of c j"
  by (simp add: evict_view_all)

lemma cache_set_store:
  "od_wf (tc_store c) \<Longrightarrow> tc_store (cache_set now k v c) = od_trim (tc_maxsize c) (od_touch k (v, now + tc_ttl c) (tc_store c))"
proof -
  have "od_set k w (od_move_to_end k d) = od_touch k w d" if "k \<in> fst ` set d" for w and d :: "('a, 'b \<times> instant) odict"
  proof -
    have "od_get d k \<noteq> None" using that by (simp add: map_of_eq_None_iff)
    then obtain x where x: "od_get d k = Some x" by blast
    have "od_set k w (e @ [(k, x)]) = e @ [(k, w)]" if "k \<notin> fst ` set e" for e
      using that by (induction e) auto
    moreover have "k \<notin> fst ` set (od_pop k d)" by (auto simp: od_pop_def)
    ultimately show ?thesis using x by (simp add: od_move_to_end_def od_touch_last)
  qed
  moreover have "od_set k w d = od_touch k w d" if "k \<notin> fst ` set d" for w and d :: "('a, 'b \<times> instant) odict"
    using that by (simp add: od_set_new od_touch_last od_pop_idle)
  ultimately show ?thesis by (simp add: cache_set_def Let_def cache_view)
qed

lemma cache_set_view [cache_view]:
  "tc_locks (cache_set now k v c) = tc_locks c"
  "tc_maxsize (cache_set now k v c) = tc_maxsize c"
  by (simp_all add: cache_set_def Let_def cache_view)

lemma epoch_set: "j \<in> fst ` set (tc_locks c) \<Longrightarrow> epoch_of (cache_set now k v c) j = epoch_of c j"
  by (simp add: cache_set_def Let_def epoch_evict) (simp add: epoch_of_def)

lemma fold_bump_view:
  "distinct ks \<Longrightarrow> tc_store (fold bump_epoch ks c) = tc_store c
    \<and> tc_locks (fold bump_epoch ks c) = tc_locks c \<and> tc_maxsize (fold bump_epoch ks c) = tc_maxsize c
    \<and> epoch_of (fold bump_epoch ks c) j = epoch_of c j + (if j \<in> set ks then 1 else 0)"
  by (induction ks arbitrary: c) (auto simp: cache_view)

lemma invalidate_one_view [cache_view]:
  "tc_store (invalidate_one k c) = od_pop k (tc_store c)"
  "tc_locks (invalidate_one k c) = tc_locks c"
  "tc_maxsize (invalidate_one k c) = tc_maxsize c"
  by (simp_all add: invalidate_one_def Let_def cache_view)

lemma epoch_invalidate_one:
  "j \<in> fst ` set (tc_locks c) \<Longrightarrow>
    epoch_of (invalidate_one k c) j = epoch_of c j + (if j = k then 1 else 0)"
  by (auto simp: invalidate_one_def Let_def epoch_prune cache_view)
    (auto simp: epoch_of_def bump_epoch_def od_simps)

lemma fold_invalidate_view:
  "distinct ks \<Longrightarrow> tc_locks (fold invalidate_one ks c) = tc_locks c
    \<and> tc_maxsize (fold invalidate_one ks c) = tc_maxsize c
    \<and> tc_store (fold invalidate_one ks c) = fold od_pop ks (tc_store c)
    \<and> (j \<in> fst ` set (tc_locks c) \<longrightarrow>
         epoch_of (fold invalidate_one ks c) j = epoch_of c j + (if j \<in> set ks then 1 else 0))"
  by (induction ks arbitrary: c) (auto simp: cache_view epoch_invalidate_one)

lemma fold_od_pop: "od_get (fold od_pop ks d) j = (if j \<in> set ks then None else od_get d j)"
  by (induction ks arbitrary: d) (auto simp: od_simps)

lemma fold_od_pop_wf: "od_wf d \<Longrightarrow> od_wf (fold od_pop ks d) \<and> length (fold od_pop ks d) \<le> length d"
proof (induction ks arbitrary: d)
  case (Cons k ks)
  have "od_wf (fold od_pop ks (od_pop k d)) \<and> length (fold od_pop ks (od_pop k d)) \<le> length (od_pop k d)"
    using Cons.prems by (intro Cons.IH od_inv)
  then show ?case using length_od_pop_le [of k d] by simp
qed simp

lemma lk_cong: "tc_locks c = tc_locks d \<Longrightarrow> lk c k = lk d k"
  by (simp add: lk_def)

section \<open>Lock bookkeeping of the coroutine sections\<close>

lemma lk_owner:
  "k \<in> fst ` set (tc_locks c) \<Longrightarrow> lk (gof_owner who k c) j = (if j = k then (who, snd (lk c k)) else lk c j)"
  by (auto simp: gof_owner_def lk_def od_mem od_get_set split: option.splits)

lemma locks_owner: "fst ` set (tc_locks (gof_owner who k c)) = fst ` set (tc_locks c)"
proof (cases "od_get (tc_locks c) k")
  case (Some e)
  then have "k \<in> fst ` set (tc_locks c)" by (auto simp: od_mem)
  with Some show ?thesis by (simp add: gof_owner_def keys_od_set insert_absorb)
qed (simp add: gof_owner_def)

lemma owner_view [cache_view]:
  "tc_store (gof_owner who k c) = tc_store c"
  "tc_maxsize (gof_owner who k c) = tc_maxsize c"
  "tc_ttl (gof_owner who k c) = tc_ttl c"
  "epoch_of (gof_owner who k c) j = epoch_of c j"
  by (auto simp: gof_owner_def epoch_of_def split: option.splits)

lemma leave_view [cache_view]:
  "tc_store (gof_leave k c) = tc_store c"
  "tc_maxsize (gof_leave k c) = tc_maxsize c"
  by (auto simp: gof_leave_def Let_def cache_view split: option.splits)

lemma lk_leave:
  "k \<in> fst ` set (tc_locks c) \<Longrightarrow>
    lk (gof_leave k c) j = (if j = k then (if snd (lk c k) \<le> 1 then (None, 0) else (fst (lk c k), snd (lk c k) - 1))
      else lk c j)"
  by (auto simp: gof_leave_def Let_def lk_def cache_view od_mem od_get_set od_get_pop split: option.splits)

lemma locks_leave:
  assumes "k \<in> fst ` set (tc_locks c)"
  shows "fst ` set (tc_locks (gof_leave k c)) =
    (if snd (lk c k) \<le> 1 then fst ` set (tc_locks c) - {k} else fst ` set (tc_locks c))"
proof -
  obtain e where "od_get (tc_locks c) k = Some e" using assms by (auto simp: od_mem)
  then show ?thesis using assms
    by (simp add: gof_leave_def Let_def lk_def cache_view keys_od_set keys_od_pop insert_absorb)
qed

lemma epoch_leave: "j \<noteq> k \<or> 1 < snd (lk c k) \<Longrightarrow> epoch_of (gof_leave k c) j = epoch_of c j"
  by (auto simp: gof_leave_def Let_def lk_def epoch_of_def prune_epoch_def od_simps split: option.splits)

lemma lk_enter:
  "fst (gof_enter now k c) = None \<Longrightarrow>
    lk (snd (gof_enter now k c)) j = (if j = k then (fst (lk c k), snd (lk c k) + 1) else lk c j)"
  "fst (gof_enter now k c) = None \<Longrightarrow>
    fst ` set (tc_locks (snd (gof_enter now k c))) = insert k (fst ` set (tc_locks c))"
proof -
  obtain r c1 where g: "cache_get now k c = (r, c1)" by (cases "cache_get now k c")
  have l: "tc_locks c1 = tc_locks c" using cache_get_view(1) [of now k c] g by simp
  show "fst (gof_enter now k c) = None \<Longrightarrow>
    lk (snd (gof_enter now k c)) j = (if j = k then (fst (lk c k), snd (lk c k) + 1) else lk c j)"
    using g l by (auto simp: gof_enter_def Let_def lk_def od_simps split: option.splits)
  show "fst (gof_enter now k c) = None \<Longrightarrow>
    fst ` set (tc_locks (snd (gof_enter now k c))) = insert k (fst ` set (tc_locks c))"
    using g l by (auto simp: gof_enter_def Let_def od_simps split: option.splits)
qed

lemma enter_view [cache_view]:
  "tc_store (snd (gof_enter now k c)) = tc_store (snd (cache_get now k c))"
  "tc_maxsize (snd (gof_enter now k c)) = tc_maxsize c"
  "epoch_of (snd (gof_enter now k c)) j = epoch_of c j"
  using cache_get_view [of now k c]
  by (auto simp: gof_enter_def Let_def epoch_of_def split: option.splits prod.splits)

lemma gof_enter_hit_view: "fst (gof_enter now k c) = Some v \<Longrightarrow> gof_enter now k c = (Some v, snd (cache_get now k c))
    \<and> fst (cache_get now k c) = Some v"
  by (auto simp: gof_enter_def Let_def split: option.splits prod.splits)

lemma cache_wf_get: "cache_wf c \<Longrightarrow> cache_wf (snd (cache_get now k c))"
  using cache_get_store [of now k c] length_od_pop_le [of k "tc_store c"]
  by (auto simp: cache_wf_def cache_view lk_def od_inv)

end
