(* ===== verification/Single_Flight.thy ===== *)
theory Single_Flight
  imports Ttl_Cache
begin

text \<open>
  Any number of coroutines inside \<open>TTLCache.get_or_fetch\<close>, with the synchronous
  operations of \<open>src/tg_messenger/core/cache.py\<close> running between their atomic sections. The
  ghost counters \<open>gs_inval\<close> (invalidations of a key so far) and \<open>gs_snap\<close> (that number
  when a coroutine took its epoch snapshot) say what the epochs are for.
\<close>

datatype ('k, 'v) gof_pc =
    GIdle
  | GWait 'k
  | GFetch 'k int
  | GDone "'v option"

record ('k, 'v) gof_sys =
  gs_cache :: "('k, 'v) ttl_cache"
  gs_task :: "nat \<Rightarrow> ('k, 'v) gof_pc"
  gs_inval :: "'k \<Rightarrow> nat"
  gs_snap :: "nat \<Rightarrow> nat"

fun pc_key :: "('k, 'v) gof_pc \<Rightarrow> 'k option" where
  "pc_key (GWait k) = Some k"
| "pc_key (GFetch k e) = Some k"
| "pc_key GIdle = None"
| "pc_key (GDone r) = None"

definition inside :: "('k, 'v) gof_sys \<Rightarrow> 'k \<Rightarrow> nat set" where
  "inside s k = {t. pc_key (gs_task s t) = Some k}"

definition set_pc :: "nat \<Rightarrow> ('k, 'v) gof_pc \<Rightarrow> ('k, 'v) ttl_cache \<Rightarrow> ('k, 'v) gof_sys \<Rightarrow> ('k, 'v) gof_sys" where
  "set_pc t pc c s = s\<lparr>gs_cache := c, gs_task := (gs_task s)(t := pc)\<rparr>"

definition lock_free :: "('k, 'v) ttl_cache \<Rightarrow> 'k \<Rightarrow> bool" where
  "lock_free c k \<longleftrightarrow> fst (lk c k) = None"

inductive gof_step :: "('k, 'v) gof_sys \<Rightarrow> ('k, 'v) gof_sys \<Rightarrow> bool" where
  enter_hit: "gs_task s t = GIdle \<Longrightarrow> gof_enter now k (gs_cache s) = (Some v, c) \<Longrightarrow>
     gof_step s (set_pc t (GDone (Some v)) c s)"
| enter_miss: "gs_task s t = GIdle \<Longrightarrow> gof_enter now k (gs_cache s) = (None, c) \<Longrightarrow>
     gof_step s (set_pc t (GWait k) c s)"
| locked_hit: "gs_task s t = GWait k \<Longrightarrow> lock_free (gs_cache s) k \<Longrightarrow>
     gof_locked t now k (gs_cache s) = (Inl v, c) \<Longrightarrow>
     gof_step s (set_pc t (GDone (Some v)) c s)"
| locked_miss: "gs_task s t = GWait k \<Longrightarrow> lock_free (gs_cache s) k \<Longrightarrow>
     gof_locked t now k (gs_cache s) = (Inr e, c) \<Longrightarrow>
     gof_step s ((set_pc t (GFetch k e) c s)\<lparr>gs_snap := (gs_snap s)(t := gs_inval s k)\<rparr>)"
| fetched: "gs_task s t = GFetch k e \<Longrightarrow>
     gof_step s (set_pc t (GDone (Some v)) (gof_commit now k e v (gs_cache s)) s)"
| failed: "gs_task s t = GFetch k e \<Longrightarrow>
     gof_step s (set_pc t (GDone None) (gof_abort k (gs_cache s)) s)"
| cancelled: "gs_task s t = GWait k \<Longrightarrow>
     gof_step s (set_pc t (GDone None) (gof_leave k (gs_cache s)) s)"
| read: "gof_step s (s\<lparr>gs_cache := snd (cache_get now k (gs_cache s))\<rparr>)"
| inval: "gof_step s (s\<lparr>gs_cache := invalidate (Some k) (gs_cache s),
     gs_inval := (gs_inval s)(k := Suc (gs_inval s k))\<rparr>)"
| inval_all: "gof_step s (s\<lparr>gs_cache := invalidate None (gs_cache s),
     gs_inval := (\<lambda>k. Suc (gs_inval s k))\<rparr>)"
| inval_if: "gof_step s (s\<lparr>gs_cache := invalidate_if p (gs_cache s),
     gs_inval := (\<lambda>k. if p k then Suc (gs_inval s k) else gs_inval s k)\<rparr>)"

inductive_cases gof_stepE: "gof_step s s'"

definition gof_init :: "instant \<Rightarrow> nat \<Rightarrow> ('k, 'v) gof_sys" where
  "gof_init ttl m = \<lparr>gs_cache = \<lparr>tc_ttl = ttl, tc_maxsize = m, tc_store = [], tc_locks = [], tc_epochs = []\<rparr>,
     gs_task = (\<lambda>_. GIdle), gs_inval = (\<lambda>_. 0), gs_snap = (\<lambda>_. 0)\<rparr>"

section \<open>The invariant\<close>

text \<open>
  The waiter count of a key is the number of coroutines inside it; its lock is held by the
  one that fetches; a fetching coroutine's key is not stored, and its epoch has moved by
  exactly the number of invalidations since the snapshot (pruning cannot reset it, because
  the key is in the lock table).
\<close>

definition counts_ok :: "('k, 'v) gof_sys \<Rightarrow> bool" where
  "counts_ok s \<longleftrightarrow> (\<forall>k. finite (inside s k) \<and> snd (lk (gs_cache s) k) = int (card (inside s k)))"

definition owners_ok :: "('k, 'v) gof_sys \<Rightarrow> bool" where
  "owners_ok s \<longleftrightarrow> (\<forall>k t. fst (lk (gs_cache s) k) = Some t \<longleftrightarrow> (\<exists>e. gs_task s t = GFetch k e))"

definition snaps_ok :: "('k, 'v) gof_sys \<Rightarrow> bool" where
  "snaps_ok s \<longleftrightarrow> (\<forall>t k e. gs_task s t = GFetch k e \<longrightarrow>
     epoch_of (gs_cache s) k - e = int (gs_inval s k) - int (gs_snap s t)
     \<and> od_get (tc_store (gs_cache s)) k = None)"

definition gof_inv :: "('k, 'v) gof_sys \<Rightarrow> bool" where
  "gof_inv s \<longleftrightarrow> cache_wf (gs_cache s) \<and> counts_ok s \<and> owners_ok s \<and> snaps_ok s"

lemma gof_inv_init: "gof_inv (gof_init ttl m)"
  by (simp add: gof_inv_def gof_init_def cache_wf_def counts_ok_def owners_ok_def snaps_ok_def
      inside_def lk_def)

lemma inside_set_pc:
  "inside (set_pc t pc c s) k =
    (if pc_key pc = Some k then insert t (inside s k) else inside s k - {t})"
  by (auto simp: inside_def set_pc_def)

lemma inside_member: "gof_inv s \<Longrightarrow> t \<in> inside s k \<Longrightarrow>
    k \<in> fst ` set (tc_locks (gs_cache s)) \<and> 0 < snd (lk (gs_cache s) k)"
  by (auto simp: gof_inv_def cache_wf_def counts_ok_def card_gt_0_iff)

lemma other_inside: "gof_inv s \<Longrightarrow> t \<in> inside s k \<Longrightarrow> t' \<in> inside s k \<Longrightarrow> t \<noteq> t' \<Longrightarrow>
    1 < snd (lk (gs_cache s) k)"
proof -
  assume i: "gof_inv s" and t: "t \<in> inside s k" and t': "t' \<in> inside s k" and n: "t \<noteq> t'"
  have "finite (inside s k)" using i by (simp add: gof_inv_def counts_ok_def)
  then have "card {t, t'} \<le> card (inside s k)" using t t' by (intro card_mono) auto
  then show ?thesis using i n by (simp add: gof_inv_def counts_ok_def)
qed

text \<open>Steps that leave tasks and locks alone.\<close>

lemma quiet_step:
  assumes inv: "gof_inv s" and locks: "tc_locks c = tc_locks (gs_cache s)"
    and wf: "od_wf (tc_store c)" "length (tc_store c) \<le> tc_maxsize c"
    and ep: "\<And>t k e. gs_task s t = GFetch k e \<Longrightarrow>
      epoch_of c k - epoch_of (gs_cache s) k = int (n k) - int (gs_inval s k)"
    and st: "\<And>k. od_get (tc_store (gs_cache s)) k = None \<Longrightarrow> od_get (tc_store c) k = None"
  shows "gof_inv (s\<lparr>gs_cache := c, gs_inval := n\<rparr>)"
proof -
  let ?s = "s\<lparr>gs_cache := c, gs_inval := n\<rparr>"
  have ins: "inside ?s k = inside s k" for k by (simp add: inside_def)
  have lk: "lk c k = lk (gs_cache s) k" for k using locks by (rule lk_cong)
  have "snaps_ok ?s" unfolding snaps_ok_def
  proof (intro allI impI)
    fix t k e assume "gs_task ?s t = GFetch k e"
    then have f: "gs_task s t = GFetch k e" by simp
    then have "epoch_of (gs_cache s) k - e = int (gs_inval s k) - int (gs_snap s t)
      \<and> od_get (tc_store (gs_cache s)) k = None"
      using inv by (simp add: gof_inv_def snaps_ok_def)
    then show "epoch_of (gs_cache ?s) k - e = int (gs_inval ?s k) - int (gs_snap ?s t)
      \<and> od_get (tc_store (gs_cache ?s)) k = None"
      using ep [OF f] st [of k] by simp
  qed
  then show ?thesis using inv wf
    by (simp add: gof_inv_def cache_wf_def counts_ok_def owners_ok_def ins lk locks)
qed

text \<open>Steps of one coroutine, with the new lock view and the epochs of the others' keys.\<close>

lemma task_step:
  assumes inv: "gof_inv s" and wf: "cache_wf c"
    and cnt: "\<And>j. snd (lk c j) = int (card (inside (set_pc t pc c s) j))"
    and own: "\<And>j. fst (lk c j) = (if \<exists>e. pc = GFetch j e then Some t
        else if fst (lk (gs_cache s) j) = Some t then None else fst (lk (gs_cache s) j))"
    and free: "\<And>j e. pc = GFetch j e \<Longrightarrow> fst (lk (gs_cache s) j) = None"
    and ep: "\<And>t' j e. t' \<noteq> t \<Longrightarrow> gs_task s t' = GFetch j e \<Longrightarrow>
        epoch_of c j = epoch_of (gs_cache s) j \<and> od_get (tc_store c) j = None"
    and self: "\<And>j e. pc = GFetch j e \<Longrightarrow>
        epoch_of c j - e = int (gs_inval s j) - int (sn t) \<and> od_get (tc_store c) j = None"
    and sn: "\<And>t'. t' \<noteq> t \<Longrightarrow> sn t' = gs_snap s t'"
  shows "gof_inv ((set_pc t pc c s)\<lparr>gs_snap := sn\<rparr>)"
proof -
  let ?s = "(set_pc t pc c s)\<lparr>gs_snap := sn\<rparr>"
  have ins: "inside ?s j = inside (set_pc t pc c s) j" for j by (simp add: inside_def)
  have cs: "gs_cache ?s = c" and tk: "gs_task ?s = (gs_task s)(t := pc)" by (simp_all add: set_pc_def)
  have fin: "finite (inside (set_pc t pc c s) j)" for j
    using inv by (simp add: inside_set_pc gof_inv_def counts_ok_def)
  have o: "fst (lk (gs_cache s) j) = Some t' \<longleftrightarrow> (\<exists>e. gs_task s t' = GFetch j e)" for j t'
    using inv by (simp add: gof_inv_def owners_ok_def)
  have "owners_ok ?s" unfolding owners_ok_def
  proof (intro allI)
    fix j t'
    show "fst (lk (gs_cache ?s) j) = Some t' \<longleftrightarrow> (\<exists>e. gs_task ?s t' = GFetch j e)"
    proof (cases "t' = t")
      case True
      then show ?thesis unfolding cs tk own using o by auto
    next
      case False
      then have "(\<exists>e. gs_task ?s t' = GFetch j e) \<longleftrightarrow> fst (lk (gs_cache s) j) = Some t'"
        using o [of j t'] tk by simp
      moreover have "fst (lk c j) = Some t' \<longleftrightarrow> fst (lk (gs_cache s) j) = Some t'"
        using own [of j] free [of j] False by auto
      ultimately show ?thesis by (simp add: cs)
    qed
  qed
  moreover have "snaps_ok ?s" unfolding snaps_ok_def cs tk
  proof (intro allI impI)
    fix t' j e assume g: "((gs_task s)(t := pc)) t' = GFetch j e"
    show "epoch_of c j - e = int (gs_inval ?s j) - int (gs_snap ?s t') \<and> od_get (tc_store c) j = None"
    proof (cases "t' = t")
      case True
      then show ?thesis using g self [of j e] by (simp add: set_pc_def)
    next
      case False
      then have f: "gs_task s t' = GFetch j e" using g by simp
      have "epoch_of (gs_cache s) j - e = int (gs_inval s j) - int (gs_snap s t')"
        using inv f by (simp add: gof_inv_def snaps_ok_def)
      then show ?thesis using ep [OF False f] sn [OF False] by (simp add: set_pc_def)
    qed
  qed
  ultimately show ?thesis using wf cnt fin by (simp add: gof_inv_def counts_ok_def cs ins)
qed

section \<open>Every step keeps the invariant\<close>

lemma get_quiet: "od_wf (tc_store c) \<Longrightarrow> length (tc_store c) \<le> m \<Longrightarrow>
    od_wf (tc_store (snd (cache_get now k c))) \<and> length (tc_store (snd (cache_get now k c))) \<le> m
    \<and> (od_get (tc_store c) j = None \<longrightarrow> od_get (tc_store (snd (cache_get now k c))) j = None)"
  using cache_get_store [of now k c] length_od_pop_le [of k "tc_store c"]
  by (auto simp: od_inv od_simps)

lemma epoch_get [cache_view]: "epoch_of (snd (cache_get now k c)) j = epoch_of c j"
  by (simp add: epoch_of_def cache_view)

lemma fetching_locked: "gof_inv s \<Longrightarrow> gs_task s t = GFetch k e \<Longrightarrow>
    k \<in> fst ` set (tc_locks (gs_cache s)) \<and> fst (lk (gs_cache s) k) = Some t \<and> t \<in> inside s k"
  using inside_member [of s t k] by (auto simp: gof_inv_def owners_ok_def inside_def)

lemma inv_wf: "gof_inv s \<Longrightarrow> od_wf (tc_store (gs_cache s)) \<and> length (tc_store (gs_cache s)) \<le> tc_maxsize (gs_cache s)"
  by (simp add: gof_inv_def cache_wf_def)

lemma keep_read: "gof_inv s \<Longrightarrow> gof_inv (s\<lparr>gs_cache := snd (cache_get now k (gs_cache s))\<rparr>)"
proof -
  assume i: "gof_inv s"
  have "gof_inv (s\<lparr>gs_cache := snd (cache_get now k (gs_cache s)), gs_inval := gs_inval s\<rparr>)"
    using get_quiet [of "gs_cache s" "tc_maxsize (gs_cache s)" now k] inv_wf [OF i]
    by (intro quiet_step [OF i]) (auto simp: cache_view)
  then show ?thesis by simp
qed

lemma keep_inval: "gof_inv s \<Longrightarrow> gof_inv (s\<lparr>gs_cache := invalidate (Some k) (gs_cache s),
     gs_inval := (gs_inval s)(k := Suc (gs_inval s k))\<rparr>)"
proof -
  assume i: "gof_inv s"
  show ?thesis using inv_wf [OF i] length_od_pop_le [of k "tc_store (gs_cache s)"] fetching_locked [OF i]
    by (intro quiet_step [OF i]) (auto simp: invalidate_def cache_view od_inv od_simps epoch_invalidate_one)
qed

lemma keep_inval_all: "gof_inv s \<Longrightarrow> gof_inv (s\<lparr>gs_cache := invalidate None (gs_cache s),
     gs_inval := (\<lambda>k. Suc (gs_inval s k))\<rparr>)"
proof -
  assume i: "gof_inv s"
  let ?ks = "remdups (od_keys (tc_epochs (gs_cache s)) @ od_keys (tc_locks (gs_cache s)))"
  have v: "tc_locks (fold bump_epoch ?ks (gs_cache s)) = tc_locks (gs_cache s)"
    "tc_maxsize (fold bump_epoch ?ks (gs_cache s)) = tc_maxsize (gs_cache s)"
    using fold_bump_view [of ?ks "gs_cache s" undefined] by simp_all
  have e: "epoch_of (fold bump_epoch ?ks (gs_cache s)) j =
      epoch_of (gs_cache s) j + (if j \<in> set ?ks then 1 else 0)" for j
    using fold_bump_view [of ?ks "gs_cache s" j] by simp
  have e2: "epoch_of (invalidate None (gs_cache s)) j = epoch_of (fold bump_epoch ?ks (gs_cache s)) j" for j
    by (simp add: invalidate_def epoch_of_def)
  show ?thesis using fetching_locked [OF i]
    by (intro quiet_step [OF i]) (auto simp: e2 e, auto simp: invalidate_def v)
qed

lemma keep_inval_if: "gof_inv s \<Longrightarrow> gof_inv (s\<lparr>gs_cache := invalidate_if p (gs_cache s),
     gs_inval := (\<lambda>k. if p k then Suc (gs_inval s k) else gs_inval s k)\<rparr>)"
proof -
  assume i: "gof_inv s"
  let ?c = "gs_cache s"
  let ?ks = "filter p (remdups (od_keys (tc_store ?c) @ od_keys (tc_locks ?c) @ od_keys (tc_epochs ?c)))"
  have d: "invalidate_if p ?c = fold invalidate_one ?ks ?c" by (simp add: invalidate_if_def Let_def)
  have v: "tc_locks (fold invalidate_one ?ks ?c) = tc_locks ?c"
    "tc_maxsize (fold invalidate_one ?ks ?c) = tc_maxsize ?c"
    "tc_store (fold invalidate_one ?ks ?c) = fold od_pop ?ks (tc_store ?c)"
    "j \<in> fst ` set (tc_locks ?c) \<Longrightarrow> epoch_of (fold invalidate_one ?ks ?c) j =
      epoch_of ?c j + (if j \<in> set ?ks then 1 else 0)" for j
    using fold_invalidate_view [of ?ks ?c j] by (simp_all add: distinct_filter)
  have len: "od_wf (fold od_pop ?ks (tc_store ?c)) \<and> length (fold od_pop ?ks (tc_store ?c)) \<le> tc_maxsize ?c"
    using fold_od_pop_wf [of "tc_store ?c" ?ks] inv_wf [OF i] by linarith
  show ?thesis unfolding d
    using len fetching_locked [OF i]
    by (intro quiet_step [OF i]) (auto simp: v fold_od_pop)
qed

lemma inside_key: "t \<in> inside s k \<Longrightarrow> t \<in> inside s j \<longleftrightarrow> j = k"
  by (auto simp: inside_def)

lemma owner_inside: "gof_inv s \<Longrightarrow> fst (lk (gs_cache s) k) = Some t \<Longrightarrow> t \<in> inside s k"
  by (auto simp: gof_inv_def owners_ok_def inside_def)

lemma no_snap_change: "gof_inv ((set_pc t pc c s)\<lparr>gs_snap := gs_snap s\<rparr>) = gof_inv (set_pc t pc c s)"
  by (simp add: set_pc_def)

text \<open>A coroutine leaves: its key's owner (if it was this one) is cleared, the count drops.\<close>

lemma leave_step:
  assumes inv: "gof_inv s" and t: "t \<in> inside s k"
    and lk0: "\<And>j. lk c0 j = (if j = k then (if fst (lk (gs_cache s) k) = Some t then None
        else fst (lk (gs_cache s) k), snd (lk (gs_cache s) k)) else lk (gs_cache s) j)"
    and keys: "fst ` set (tc_locks c0) = fst ` set (tc_locks (gs_cache s))"
    and wf: "od_wf (tc_store c0)" "length (tc_store c0) \<le> tc_maxsize c0"
    and ep: "\<And>j. j \<in> fst ` set (tc_locks (gs_cache s)) \<Longrightarrow> epoch_of c0 j = epoch_of (gs_cache s) j"
    and st: "\<And>t' j e. t' \<noteq> t \<Longrightarrow> gs_task s t' = GFetch j e \<Longrightarrow> od_get (tc_store c0) j = None"
  shows "gof_inv (set_pc t (GDone r) (gof_leave k c0) s)"
proof -
  let ?c = "gof_leave k c0"
  let ?n = "snd (lk (gs_cache s) k)"
  have k: "k \<in> fst ` set (tc_locks c0)" and pos: "0 < ?n" using inside_member [OF inv t] keys by auto
  have keyiff: "j \<in> fst ` set (tc_locks (gs_cache s)) \<longleftrightarrow> 0 < snd (lk (gs_cache s) j)" for j
    using inv by (simp add: gof_inv_def cache_wf_def)
  have cnt: "finite (inside s j)" "snd (lk (gs_cache s) j) = int (card (inside s j))" for j
    using inv by (simp_all add: gof_inv_def counts_ok_def)
  have wfc: "cache_wf ?c"
    using wf k pos keyiff by (auto simp: cache_wf_def cache_view lk_leave lk0 locks_leave keys split: if_splits)
  have "gof_inv ((set_pc t (GDone r) ?c s)\<lparr>gs_snap := gs_snap s\<rparr>)"
  proof (rule task_step [OF inv wfc])
    fix j
    have "card (inside s k - {t}) = card (inside s k) - 1" and "0 < card (inside s k)"
      using t cnt by (auto simp: card_gt_0_iff)
    then show "snd (lk ?c j) = int (card (inside (set_pc t (GDone r) ?c s) j))"
      using cnt(2) [of j] cnt(2) [of k] inside_key [OF t, of j]
      by (cases "j = k") (auto simp: lk_leave [OF k] lk0 inside_set_pc)
    show "fst (lk ?c j) = (if \<exists>e. GDone r = GFetch j e then Some t
        else if fst (lk (gs_cache s) j) = Some t then None else fst (lk (gs_cache s) j))"
    proof (cases "j = k")
      case True
      show ?thesis
      proof (cases "?n \<le> 1 \<and> fst (lk (gs_cache s) k) \<noteq> None \<and> fst (lk (gs_cache s) k) \<noteq> Some t")
        case bad: True
        then obtain t' where "fst (lk (gs_cache s) k) = Some t'" "t' \<noteq> t" by auto
        then have "1 < ?n" using other_inside [OF inv t owner_inside [OF inv]] by blast
        with bad show ?thesis by simp
      next
        case False
        then show ?thesis using True by (auto simp: lk_leave [OF k] lk0)
      qed
    next
      case False
      then have "fst (lk (gs_cache s) j) \<noteq> Some t"
        using owner_inside [OF inv, of j t] inside_key [OF t, of j] by auto
      then show ?thesis using False by (simp add: lk_leave [OF k] lk0)
    qed
  next
    fix t' j e assume ne: "t' \<noteq> t" and f: "gs_task s t' = GFetch j e"
    have "t' \<in> inside s j" using f by (simp add: inside_def)
    then have "j \<noteq> k \<or> 1 < snd (lk c0 k)"
      using other_inside [OF inv t, of t'] ne by (auto simp: lk0)
    then show "epoch_of ?c j = epoch_of (gs_cache s) j \<and> od_get (tc_store ?c) j = None"
      using ep [of j] fetching_locked [OF inv f] st [OF ne f] by (simp add: epoch_leave cache_view)
  qed auto
  then show ?thesis by (simp only: no_snap_change)
qed

lemma keep_enter_hit:
  assumes inv: "gof_inv s" and "gs_task s t = GIdle" and "gof_enter now k (gs_cache s) = (Some v, c)"
  shows "gof_inv (set_pc t (GDone (Some v)) c s)"
proof -
  have c: "c = snd (cache_get now k (gs_cache s))" using gof_enter_hit_view [of now k "gs_cache s" v] assms(3) by simp
  have out: "t \<notin> inside s j" for j using assms(2) by (simp add: inside_def)
  have lk: "lk c j = lk (gs_cache s) j" for j by (rule lk_cong) (simp add: c cache_view)
  have "gof_inv ((set_pc t (GDone (Some v)) c s)\<lparr>gs_snap := gs_snap s\<rparr>)"
  proof (rule task_step [OF inv])
    show "cache_wf c" using inv by (simp add: c cache_wf_get gof_inv_def)
    fix j
    show "snd (lk c j) = int (card (inside (set_pc t (GDone (Some v)) c s) j))"
      using inv out by (simp add: lk inside_set_pc gof_inv_def counts_ok_def)
    show "fst (lk c j) = (if \<exists>e. GDone (Some v) = GFetch j e then Some t
        else if fst (lk (gs_cache s) j) = Some t then None else fst (lk (gs_cache s) j))"
      using owner_inside [OF inv, of j t] out by (auto simp: lk)
  next
    fix t' j e assume "gs_task s t' = GFetch j e"
    then have "od_get (tc_store (gs_cache s)) j = None" using inv by (auto simp: gof_inv_def snaps_ok_def)
    then show "epoch_of c j = epoch_of (gs_cache s) j \<and> od_get (tc_store c) j = None"
      using get_quiet [of "gs_cache s" "tc_maxsize (gs_cache s)" now k j] inv_wf [OF inv]
      by (simp add: c cache_view)
  qed auto
  then show ?thesis by (simp only: no_snap_change)
qed

lemma keep_enter_miss:
  assumes inv: "gof_inv s" and "gs_task s t = GIdle" and en: "gof_enter now k (gs_cache s) = (None, c)"
  shows "gof_inv (set_pc t (GWait k) c s)"
proof -
  have out: "t \<notin> inside s j" for j using assms(2) by (simp add: inside_def)
  have lk: "lk c j = (if j = k then (fst (lk (gs_cache s) k), snd (lk (gs_cache s) k) + 1) else lk (gs_cache s) j)" for j
    using lk_enter(1) [of now k "gs_cache s" j] en by simp
  have keys: "fst ` set (tc_locks c) = insert k (fst ` set (tc_locks (gs_cache s)))"
    using lk_enter(2) [of now k "gs_cache s"] en by simp
  have st: "tc_store c = tc_store (snd (cache_get now k (gs_cache s)))"
    and mx: "tc_maxsize c = tc_maxsize (gs_cache s)" and ep: "epoch_of c j = epoch_of (gs_cache s) j" for j
    using enter_view [of now k "gs_cache s"] en by simp_all
  have g: "od_wf (tc_store c) \<and> length (tc_store c) \<le> tc_maxsize c \<and>
      (od_get (tc_store (gs_cache s)) j = None \<longrightarrow> od_get (tc_store c) j = None)" for j
    using get_quiet [of "gs_cache s" "tc_maxsize (gs_cache s)" now k j] inv_wf [OF inv] by (simp add: st mx)
  have cnt: "finite (inside s j)" "snd (lk (gs_cache s) j) = int (card (inside s j))" for j
    using inv by (simp_all add: gof_inv_def counts_ok_def)
  have "gof_inv ((set_pc t (GWait k) c s)\<lparr>gs_snap := gs_snap s\<rparr>)"
  proof (rule task_step [OF inv])
    show "cache_wf c" using inv g cnt by (auto simp: cache_wf_def keys lk gof_inv_def)
    fix j
    show "snd (lk c j) = int (card (inside (set_pc t (GWait k) c s) j))"
      using cnt out by (simp add: lk inside_set_pc)
    show "fst (lk c j) = (if \<exists>e. GWait k = GFetch j e then Some t
        else if fst (lk (gs_cache s) j) = Some t then None else fst (lk (gs_cache s) j))"
      using owner_inside [OF inv, of j t] out by (auto simp: lk)
  next
    fix t' j e assume "gs_task s t' = GFetch j e"
    then show "epoch_of c j = epoch_of (gs_cache s) j \<and> od_get (tc_store c) j = None"
      using inv g by (auto simp: ep gof_inv_def snaps_ok_def)
  qed auto
  then show ?thesis by (simp only: no_snap_change)
qed


lemma waiting_inside: "gs_task s t = GWait k \<Longrightarrow> t \<in> inside s k"
  by (simp add: inside_def)

lemma fetching_inside: "gs_task s t = GFetch k e \<Longrightarrow> t \<in> inside s k"
  by (simp add: inside_def)

lemma not_owner_waiting: "gof_inv s \<Longrightarrow> gs_task s t = GWait k \<Longrightarrow> fst (lk (gs_cache s) j) \<noteq> Some t"
  by (auto simp: gof_inv_def owners_ok_def)

lemma others_unstored: "gof_inv s \<Longrightarrow> gs_task s t' = GFetch j e \<Longrightarrow> od_get (tc_store (gs_cache s)) j = None"
  by (auto simp: gof_inv_def snaps_ok_def)

lemma keep_cancelled:
  assumes inv: "gof_inv s" and "gs_task s t = GWait k"
  shows "gof_inv (set_pc t (GDone r) (gof_leave k (gs_cache s)) s)"
  using inv_wf [OF inv] not_owner_waiting [OF assms, of k] others_unstored [OF inv]
  by (intro leave_step [OF inv waiting_inside [OF assms(2)]]) auto

lemma keep_failed:
  assumes inv: "gof_inv s" and f: "gs_task s t = GFetch k e"
  shows "gof_inv (set_pc t (GDone r) (gof_abort k (gs_cache s)) s)"
  unfolding gof_abort_def
  using inv_wf [OF inv] fetching_locked [OF inv f] others_unstored [OF inv]
  by (intro leave_step [OF inv fetching_inside [OF f]]) (auto simp: lk_owner locks_owner cache_view)

lemma keep_locked_hit:
  assumes inv: "gof_inv s" and w: "gs_task s t = GWait k" and lf: "lock_free (gs_cache s) k"
    and g: "gof_locked t now k (gs_cache s) = (Inl v, c)"
  shows "gof_inv (set_pc t (GDone (Some v)) c s)"
proof -
  let ?c1 = "snd (cache_get now k (gof_owner (Some t) k (gs_cache s)))"
  have c: "c = gof_leave k (gof_owner None k ?c1)"
    using g by (auto simp: gof_locked_def split: option.splits prod.splits)
  have kin: "k \<in> fst ` set (tc_locks (gs_cache s))" using inside_member [OF inv waiting_inside [OF w]] by simp
  have l1: "lk ?c1 j = lk (gof_owner (Some t) k (gs_cache s)) j" for j by (rule lk_cong) (simp add: cache_view)
  have keys: "fst ` set (tc_locks ?c1) = fst ` set (tc_locks (gs_cache s))" by (simp add: cache_view locks_owner)
  have q: "od_wf (tc_store ?c1) \<and> length (tc_store ?c1) \<le> tc_maxsize (gs_cache s)
      \<and> (od_get (tc_store (gs_cache s)) j = None \<longrightarrow> od_get (tc_store ?c1) j = None)" for j
    using get_quiet [of "gof_owner (Some t) k (gs_cache s)" "tc_maxsize (gs_cache s)" now k j] inv_wf [OF inv]
    by (simp add: cache_view)
  show ?thesis unfolding c
    using q others_unstored [OF inv] lf kin
    by (intro leave_step [OF inv waiting_inside [OF w]])
      (auto simp: lk_owner keys l1 locks_owner cache_view lock_free_def)
qed

lemma keep_locked_miss:
  assumes inv: "gof_inv s" and w: "gs_task s t = GWait k" and lf: "lock_free (gs_cache s) k"
    and g: "gof_locked t now k (gs_cache s) = (Inr e, c)"
  shows "gof_inv ((set_pc t (GFetch k e) c s)\<lparr>gs_snap := (gs_snap s)(t := gs_inval s k)\<rparr>)"
proof -
  let ?c0 = "gof_owner (Some t) k (gs_cache s)"
  have miss: "fst (cache_get now k ?c0) = None" and c: "c = snd (cache_get now k ?c0)"
    and e: "e = epoch_of (snd (cache_get now k ?c0)) k"
    using g by (auto simp: gof_locked_def split: option.splits prod.splits)
  have kin: "k \<in> fst ` set (tc_locks (gs_cache s))" using inside_member [OF inv waiting_inside [OF w]] by simp
  have l1: "lk c j = (if j = k then (Some t, snd (lk (gs_cache s) k)) else lk (gs_cache s) j)" for j
    using lk_cong [of c ?c0 j] lk_owner [OF kin, of "Some t" j] by (simp add: c cache_view)
  have keys: "fst ` set (tc_locks c) = fst ` set (tc_locks (gs_cache s))" by (simp add: c cache_view locks_owner)
  have q: "od_wf (tc_store c) \<and> length (tc_store c) \<le> tc_maxsize c
      \<and> (od_get (tc_store (gs_cache s)) j = None \<longrightarrow> od_get (tc_store c) j = None)" for j
    using get_quiet [of ?c0 "tc_maxsize (gs_cache s)" now k j] inv_wf [OF inv] by (simp add: c cache_view)
  have ep: "epoch_of c j = epoch_of (gs_cache s) j" for j by (simp add: c cache_view)
  have none: "od_get (tc_store c) k = None" using cache_get_miss [OF miss] by (simp add: c)
  have cnt: "finite (inside s j)" "snd (lk (gs_cache s) j) = int (card (inside s j))" for j
    using inv by (simp_all add: gof_inv_def counts_ok_def)
  have ins: "inside (set_pc t (GFetch k e) c s) j = inside s j" for j
    using waiting_inside [OF w] inside_key [OF waiting_inside [OF w], of j] by (auto simp: inside_set_pc)
  show ?thesis
  proof (rule task_step [OF inv])
    show "cache_wf c" using inv q by (auto simp: cache_wf_def keys l1 gof_inv_def)
    fix j
    show "snd (lk c j) = int (card (inside (set_pc t (GFetch k e) c s) j))" by (simp add: ins l1 cnt)
    show "fst (lk c j) = (if \<exists>e'. GFetch k e = GFetch j e' then Some t
        else if fst (lk (gs_cache s) j) = Some t then None else fst (lk (gs_cache s) j))"
      using not_owner_waiting [OF inv w, of j] by (auto simp: l1)
  next
    fix j e' assume "GFetch k e = GFetch j e'"
    then have j: "j = k" "e' = e" by simp_all
    then show "fst (lk (gs_cache s) j) = None" using lf by (simp add: lock_free_def)
    show "epoch_of c j - e' = int (gs_inval s j) - int (((gs_snap s)(t := gs_inval s k)) t)
        \<and> od_get (tc_store c) j = None"
      using none by (simp add: j e c cache_view)
  next
    fix t' j e' assume "t' \<noteq> t" and f: "gs_task s t' = GFetch j e'"
    then show "epoch_of c j = epoch_of (gs_cache s) j \<and> od_get (tc_store c) j = None"
      using others_unstored [OF inv f] q by (simp add: ep)
  qed auto
qed


lemma cache_set_wf: "od_wf (tc_store c) \<Longrightarrow> od_wf (tc_store (cache_set now k v c)) \<and>
    length (tc_store (cache_set now k v c)) \<le> tc_maxsize c"
  by (simp add: cache_set_store od_inv od_trim_drop)

lemma cache_set_unstored: "od_wf (tc_store c) \<Longrightarrow> od_get (tc_store c) j = None \<Longrightarrow> j \<noteq> k \<Longrightarrow>
    od_get (tc_store (cache_set now k v c)) j = None"
  using od_trim_touch_old [of "tc_store c" j k "tc_maxsize c"]
  by (cases "od_get (tc_store (cache_set now k v c)) j") (auto simp: cache_set_store)

lemma keep_fetched:
  assumes inv: "gof_inv s" and f: "gs_task s t = GFetch k e"
  shows "gof_inv (set_pc t (GDone r) (gof_commit now k e v (gs_cache s)) s)"
proof -
  let ?c = "gs_cache s"
  let ?c1 = "if epoch_of ?c k = e then cache_set now k v ?c else ?c"
  have d: "gof_commit now k e v ?c = gof_leave k (gof_owner None k ?c1)" by (simp add: gof_commit_def Let_def)
  have kin: "k \<in> fst ` set (tc_locks ?c1)" and l: "tc_locks ?c1 = tc_locks ?c"
    using fetching_locked [OF inv f] by (simp_all add: cache_view)
  have l1: "lk ?c1 j = lk ?c j" for j by (rule lk_cong [OF l])
  have mx: "tc_maxsize ?c1 = tc_maxsize ?c" by (simp add: cache_view)
  have q: "od_wf (tc_store ?c1) \<and> length (tc_store ?c1) \<le> tc_maxsize ?c"
    using cache_set_wf [of ?c now k v] inv_wf [OF inv] by simp
  have own: "fst (lk ?c k) = Some t" using fetching_locked [OF inv f] by simp
  show ?thesis unfolding d
  proof (rule leave_step [OF inv fetching_inside [OF f]])
    fix j
    show "lk (gof_owner None k ?c1) j = (if j = k then (if fst (lk ?c k) = Some t then None
        else fst (lk ?c k), snd (lk ?c k)) else lk ?c j)"
      using own by (simp only: lk_owner [OF kin] l1) simp
    show "fst ` set (tc_locks (gof_owner None k ?c1)) = fst ` set (tc_locks ?c)" by (simp only: locks_owner l)
    show "od_wf (tc_store (gof_owner None k ?c1))"
      "length (tc_store (gof_owner None k ?c1)) \<le> tc_maxsize (gof_owner None k ?c1)"
      using q by (simp_all only: cache_view(13-18) owner_view mx)
    show "epoch_of (gof_owner None k ?c1) j = epoch_of ?c j" if "j \<in> fst ` set (tc_locks ?c)"
      using that by (simp add: owner_view epoch_set)
  next
    fix t' j e' assume ne: "t' \<noteq> t" and f': "gs_task s t' = GFetch j e'"
    have "j \<noteq> k" using fetching_locked [OF inv f] fetching_locked [OF inv f'] ne by auto
    then show "od_get (tc_store (gof_owner None k ?c1)) j = None"
      using others_unstored [OF inv f'] cache_set_unstored [of ?c j k now v] inv_wf [OF inv]
      by (simp add: owner_view)
  qed
qed

lemma gof_step_keeps: "gof_inv s \<Longrightarrow> gof_step s s' \<Longrightarrow> gof_inv s'"
  by (erule gof_stepE)
    (simp_all add: keep_enter_hit keep_enter_miss keep_locked_hit keep_locked_miss keep_fetched
      keep_failed keep_cancelled keep_read keep_inval keep_inval_all keep_inval_if)

interpretation flight: inv_system gof_step gof_inv
  by unfold_locales (rule gof_step_keeps)

lemma gof_reach: "gof_step\<^sup>*\<^sup>* (gof_init ttl m) s \<Longrightarrow> gof_inv s"
  by (rule flight.reach_keeps [OF _ gof_inv_init])

lemma commit_store: "tc_store (gof_commit now k e v c) =
    (if epoch_of c k = e then tc_store (cache_set now k v c) else tc_store c)"
  by (simp add: gof_commit_def Let_def cache_view)

lemma cache_set_stored: "od_wf (tc_store c) \<Longrightarrow> 0 < tc_maxsize c \<Longrightarrow>
    od_get (tc_store (cache_set now k v c)) k = Some (v, now + tc_ttl c)"
  by (simp add: cache_set_store od_trim_touch_new)

section \<open>A concrete run\<close>

text \<open>
  Two coroutines miss the same key, the first takes the lock and fetches, and an
  invalidation of the key arrives while it does.
\<close>

definition run0 :: "(nat, nat) gof_sys" where "run0 = gof_init 5 2"
definition run1 :: "(nat, nat) gof_sys" where
  "run1 = set_pc 0 (GWait 7) (snd (gof_enter 0 7 (gs_cache run0))) run0"
definition run2 :: "(nat, nat) gof_sys" where
  "run2 = set_pc 1 (GWait 7) (snd (gof_enter 0 7 (gs_cache run1))) run1"
definition run3 :: "(nat, nat) gof_sys" where
  "run3 = (set_pc 0 (GFetch 7 0) (snd (gof_locked 0 0 7 (gs_cache run2))) run2)
     \<lparr>gs_snap := (gs_snap run2)(0 := gs_inval run2 7)\<rparr>"
definition run4 :: "(nat, nat) gof_sys" where
  "run4 = run3\<lparr>gs_cache := invalidate (Some 7) (gs_cache run3),
     gs_inval := (gs_inval run3)(7 := Suc (gs_inval run3 7))\<rparr>"

lemmas run_defs = run0_def run1_def run2_def run3_def run4_def gof_init_def set_pc_def
  gof_enter_def gof_locked_def cache_get_def gof_owner_def Let_def epoch_of_def invalidate_def
  invalidate_one_def bump_epoch_def prune_epoch_def od_pop_def

lemma run_reached: "gof_step\<^sup>*\<^sup>* run0 run4"
proof -
  have "gof_enter 0 7 (gs_cache run0) = (None, snd (gof_enter 0 7 (gs_cache run0)))"
    by (simp add: run_defs)
  then have "gof_step run0 run1" unfolding run1_def
    by (intro gof_step.enter_miss) (simp_all add: run0_def gof_init_def)
  moreover have "gof_enter 0 7 (gs_cache run1) = (None, snd (gof_enter 0 7 (gs_cache run1)))"
    by (simp add: run_defs)
  then have "gof_step run1 run2" unfolding run2_def
    by (intro gof_step.enter_miss) (simp_all add: run1_def run0_def gof_init_def set_pc_def)
  moreover have "gof_locked 0 0 7 (gs_cache run2) = (Inr 0, snd (gof_locked 0 0 7 (gs_cache run2)))"
    and "lock_free (gs_cache run2) 7"
    by (simp_all add: run_defs lock_free_def lk_def)
  then have "gof_step run2 run3" unfolding run3_def
    by (intro gof_step.locked_miss) (simp_all add: run_defs)
  moreover have "gof_step run3 run4" unfolding run4_def by (rule gof_step.inval)
  ultimately show ?thesis by (meson rtranclp.rtrancl_into_rtrancl rtranclp.rtrancl_refl)
qed

lemma run4_state:
  "gs_task run4 0 = GFetch 7 0" "gs_task run4 1 = GWait 7" "tc_maxsize (gs_cache run4) = 2"
  "gs_inval run4 7 = 1" "gs_snap run4 0 = 0"
  by (simp_all add: run_defs)

section \<open>Properties\<close>

text \<open>
  C1: At most one coroutine fetches a key at a time, whatever the interleaving of reads,
  invalidations, cancellations and failures: concurrent misses of a key are one upstream call.
\<close>

theorem single_flight:
  assumes "gof_step\<^sup>*\<^sup>* (gof_init ttl m) s"
    and "gs_task s t = GFetch k e" and "gs_task s t' = GFetch k e'"
  shows "t = t'"
proof -
  have "gof_inv s" by (rule gof_reach [OF assms(1)])
  then show ?thesis using fetching_locked [OF _ assms(2)] fetching_locked [OF _ assms(3)] by auto
qed

lemma single_flight_witness: "(\<forall>t'. (\<exists>e. gs_task run4 t' = GFetch 7 e) \<longleftrightarrow> t' = 0) \<and> gs_task run4 1 = GWait 7"
  using single_flight [OF run_reached [unfolded run0_def] run4_state(1)] run4_state(1, 2) by blast

text \<open>
  C4: A finished fetch stores its value exactly when no invalidation hit its key while it
  ran; a value that an invalidation overtook is returned but never cached.
\<close>

theorem stale_fetch_never_cached:
  assumes "gof_step\<^sup>*\<^sup>* (gof_init ttl m) s" and "gs_task s t = GFetch k e"
    and "0 < tc_maxsize (gs_cache s)"
  shows "od_get (tc_store (gof_commit now k e v (gs_cache s))) k =
    (if gs_inval s k = gs_snap s t then Some (v, now + tc_ttl (gs_cache s)) else None)"
proof -
  have inv: "gof_inv s" by (rule gof_reach [OF assms(1)])
  then have "epoch_of (gs_cache s) k - e = int (gs_inval s k) - int (gs_snap s t)"
    "od_get (tc_store (gs_cache s)) k = None"
    using assms(2) by (auto simp: gof_inv_def snaps_ok_def)
  then show ?thesis using cache_set_stored [of "gs_cache s" now k v] inv_wf [OF inv] assms(3)
    by (auto simp: commit_store)
qed

lemma stale_fetch_never_cached_witness:
  "od_get (tc_store (gof_commit 3 7 0 (42::nat) (gs_cache run4))) 7 = None \<and> gs_inval run4 7 = 1"
  using stale_fetch_never_cached [OF run_reached [unfolded run0_def] run4_state(1), of 3 42] run4_state by simp

text \<open>
  The cache never holds more than \<open>maxsize\<close> entries and never an entry twice, and once
  no coroutine is inside \<open>get_or_fetch\<close> for a key its lock entry is gone: locks do not leak,
  on success, failure or cancellation.
\<close>

theorem cache_bounded_no_lock_leak:
  assumes "gof_step\<^sup>*\<^sup>* (gof_init ttl m) s"
  shows "length (tc_store (gs_cache s)) \<le> tc_maxsize (gs_cache s) \<and> od_wf (tc_store (gs_cache s))
    \<and> (k \<in> set (od_keys (tc_locks (gs_cache s))) \<longleftrightarrow> (\<exists>t. pc_key (gs_task s t) = Some k))"
proof -
  have i: "gof_inv s" by (rule gof_reach [OF assms])
  then have "k \<in> fst ` set (tc_locks (gs_cache s)) \<longleftrightarrow> inside s k \<noteq> {}"
    by (auto simp: gof_inv_def cache_wf_def counts_ok_def card_gt_0_iff)
  then show ?thesis using inv_wf [OF i] by (auto simp: inside_def)
qed

lemma cache_bounded_no_lock_leak_witness:
  "length (tc_store (gs_cache run4)) \<le> 2 \<and> 7 \<in> set (od_keys (tc_locks (gs_cache run4)))"
proof -
  have "pc_key (gs_task run4 1) = Some 7" by (simp only: run4_state pc_key.simps)
  then show ?thesis
    using cache_bounded_no_lock_leak [OF run_reached [unfolded run0_def], of 7] run4_state(3) by auto
qed

end
