(* ===== verification/Py_Str.thy ===== *)
theory Py_Str
  imports Prelude
begin

text \<open>
  The Python \<open>str\<close> operations the program uses, on lists: stripping, splitting and joining
  are polymorphic, so they serve identifiers (\<open>string\<close>, exact for code points below 256)
  and human text (\<open>utext\<close>, all code points). The case and digit tables are Python's for
  Latin-1; in particular \<open>isdigit\<close> accepts the superscripts \<open>int()\<close> rejects.
\<close>

named_theorems str_simps "laws of the string operations"

section \<open>Characters\<close>

abbreviation code_of :: "char \<Rightarrow> nat" where
  "code_of c \<equiv> of_char c"

text \<open>An identifier as text, and Python's \<open>str.isspace\<close> on any code point.\<close>

definition u :: "string \<Rightarrow> utext" where
  "u s = map code_of s"

definition space_cp :: "nat \<Rightarrow> bool" where
  "space_cp n \<longleftrightarrow> 9 \<le> n \<and> n \<le> 13 \<or> 28 \<le> n \<and> n \<le> 32 \<or> n = 133 \<or> n = 160 \<or> n = 5760
     \<or> 8192 \<le> n \<and> n \<le> 8202 \<or> n = 8232 \<or> n = 8233 \<or> n = 8239 \<or> n = 8287 \<or> n = 12288"

definition is_space :: "char \<Rightarrow> bool" where
  "is_space c \<longleftrightarrow> space_cp (code_of c)"

definition is_dec :: "char \<Rightarrow> bool" where
  "is_dec c \<longleftrightarrow> 48 \<le> code_of c \<and> code_of c \<le> 57"

definition is_digit_py :: "char \<Rightarrow> bool" where
  "is_digit_py c \<longleftrightarrow> is_dec c \<or> code_of c = 178 \<or> code_of c = 179 \<or> code_of c = 185"

definition lower_char :: "char \<Rightarrow> char" where
  "lower_char c = (let n = code_of c in
     if 65 \<le> n \<and> n \<le> 90 \<or> 192 \<le> n \<and> n \<le> 222 \<and> n \<noteq> 215 then char_of (n + 32) else c)"

definition lower :: "string \<Rightarrow> string" where
  "lower s = map lower_char s"

text \<open>\<open>str.casefold\<close>: lower case, and sharp s (223) unfolds to two letters.\<close>

definition casefold :: "string \<Rightarrow> string" where
  "casefold s = concat (map (\<lambda>c. if code_of c = 223 then ''ss'' else [lower_char c]) s)"

section \<open>Stripping\<close>

definition lstrip_by :: "('a \<Rightarrow> bool) \<Rightarrow> 'a list \<Rightarrow> 'a list" where
  "lstrip_by p s = dropWhile p s"

definition rstrip_by :: "('a \<Rightarrow> bool) \<Rightarrow> 'a list \<Rightarrow> 'a list" where
  "rstrip_by p s = rev (dropWhile p (rev s))"

definition strip_by :: "('a \<Rightarrow> bool) \<Rightarrow> 'a list \<Rightarrow> 'a list" where
  "strip_by p s = rstrip_by p (lstrip_by p s)"

abbreviation strip :: "string \<Rightarrow> string" where
  "strip s \<equiv> strip_by is_space s"

abbreviation ustrip :: "utext \<Rightarrow> utext" where
  "ustrip s \<equiv> strip_by space_cp s"

text \<open>A string is stripped when neither end satisfies the predicate.\<close>

definition trimmed :: "('a \<Rightarrow> bool) \<Rightarrow> 'a list \<Rightarrow> bool" where
  "trimmed p s \<longleftrightarrow> s = [] \<or> \<not> p (hd s) \<and> \<not> p (last s)"

lemma hd_dropWhile_not: "dropWhile p s \<noteq> [] \<Longrightarrow> \<not> p (hd (dropWhile p s))"
  by (rule hd_dropWhile)

lemma last_dropWhile: "dropWhile p s \<noteq> [] \<Longrightarrow> last (dropWhile p s) = last s"
  by (metis append_is_Nil_conv last_appendR takeWhile_dropWhile_id)

lemma hd_rev_dropWhile: "rev (dropWhile p (rev s)) \<noteq> [] \<Longrightarrow> hd (rev (dropWhile p (rev s))) = hd s"
  by (metis hd_rev last_dropWhile last_rev rev_is_Nil_conv)

lemma trimmed_strip [str_simps]: "trimmed p (strip_by p s)"
proof (cases "strip_by p s = []")
  case False
  let ?l = "dropWhile p s"
  have ne: "rev (dropWhile p (rev ?l)) \<noteq> []"
    using False by (simp add: strip_by_def rstrip_by_def lstrip_by_def)
  have l: "?l \<noteq> []" using ne by (cases "?l = []") simp_all
  have "hd (strip_by p s) = hd ?l"
    using ne hd_rev_dropWhile [of p ?l] by (simp add: strip_by_def rstrip_by_def lstrip_by_def)
  moreover have "\<not> p (hd ?l)" using l by (rule hd_dropWhile)
  moreover have "last (strip_by p s) = hd (dropWhile p (rev ?l))"
    using ne by (simp add: strip_by_def rstrip_by_def lstrip_by_def last_rev)
  moreover have "\<not> p (hd (dropWhile p (rev ?l)))" using ne hd_dropWhile [of p "rev ?l"] by simp
  ultimately show ?thesis by (simp add: trimmed_def)
qed (simp add: trimmed_def)

lemma strip_trimmed [str_simps]: "trimmed p s \<Longrightarrow> strip_by p s = s"
proof (cases s)
  case (Cons a t)
  assume "trimmed p s"
  then have a: "\<not> p a" and l: "\<not> p (last s)" using Cons by (auto simp: trimmed_def)
  have 1: "dropWhile p s = s" using a Cons by simp
  have "\<not> p (hd (rev s))" using l by (simp add: hd_rev)
  then have "dropWhile p (rev s) = rev s" using dropWhile_eq_self_iff by blast
  with 1 show ?thesis by (simp add: strip_by_def rstrip_by_def lstrip_by_def)
qed (simp add: strip_by_def rstrip_by_def lstrip_by_def)

lemma strip_idem [str_simps]: "strip_by p (strip_by p s) = strip_by p s"
  by (rule strip_trimmed [OF trimmed_strip])

lemma strip_Nil [simp]: "strip_by p [] = []"
  by (simp add: strip_by_def rstrip_by_def lstrip_by_def)

lemma set_dropWhile_sub: "set (dropWhile p s) \<subseteq> set s"
  by (induction s) auto

lemma set_strip: "set (strip_by p s) \<subseteq> set s"
  using set_dropWhile_sub [of p "rev (dropWhile p s)"] set_dropWhile_sub [of p s]
  by (auto simp: strip_by_def rstrip_by_def lstrip_by_def)

lemma strip_by_none: "(\<And>c. c \<in> set s \<Longrightarrow> \<not> p c) \<Longrightarrow> strip_by p s = s"
  by (rule strip_trimmed) (auto simp: trimmed_def)

section \<open>Splitting and joining\<close>

text \<open>\<open>str.split()\<close>: maximal runs of non-space characters.\<close>

fun words_acc :: "('a \<Rightarrow> bool) \<Rightarrow> 'a list \<Rightarrow> 'a list \<Rightarrow> 'a list list" where
  "words_acc p acc [] = (if acc = [] then [] else [rev acc])"
| "words_acc p acc (c # s) =
     (if p c then (if acc = [] then words_acc p [] s else rev acc # words_acc p [] s)
      else words_acc p (c # acc) s)"

definition words_by :: "('a \<Rightarrow> bool) \<Rightarrow> 'a list \<Rightarrow> 'a list list" where
  "words_by p s = words_acc p [] s"

abbreviation split_ws :: "string \<Rightarrow> string list" where
  "split_ws s \<equiv> words_by is_space s"

text \<open>\<open>str.split(sep)\<close> with a one-character separator: empty pieces are kept.\<close>

fun split_acc :: "'a \<Rightarrow> 'a list \<Rightarrow> 'a list \<Rightarrow> 'a list list" where
  "split_acc sep acc [] = [rev acc]"
| "split_acc sep acc (c # s) =
     (if c = sep then rev acc # split_acc sep [] s else split_acc sep (c # acc) s)"

definition split_on :: "'a \<Rightarrow> 'a list \<Rightarrow> 'a list list" where
  "split_on sep s = split_acc sep [] s"

text \<open>\<open>sep.join(parts)\<close>.\<close>

fun join :: "'a list \<Rightarrow> 'a list list \<Rightarrow> 'a list" where
  "join sep [] = []"
| "join sep [x] = x"
| "join sep (x # xs) = x @ sep @ join sep xs"

lemma words_acc_sound:
  "w \<in> set (words_acc p acc s) \<Longrightarrow> list_all (\<lambda>c. \<not> p c) acc \<Longrightarrow>
    w \<noteq> [] \<and> list_all (\<lambda>c. \<not> p c) w"
proof (induction s arbitrary: acc)
  case Nil
  then show ?case by (cases "acc = []") auto
next
  case (Cons c s)
  show ?case
  proof (cases "p c")
    case True
    have "w = rev acc \<and> acc \<noteq> [] \<or> w \<in> set (words_acc p [] s)"
      using Cons.prems(1) True by (simp split: if_splits)
    then show ?thesis
    proof
      assume "w = rev acc \<and> acc \<noteq> []"
      then show ?thesis using Cons.prems(2) by simp
    next
      assume "w \<in> set (words_acc p [] s)"
      then show ?thesis by (rule Cons.IH) simp
    qed
  next
    case False
    then have "w \<in> set (words_acc p (c # acc) s)" using Cons.prems(1) by simp
    then show ?thesis by (rule Cons.IH) (simp add: False Cons.prems(2))
  qed
qed

lemma words_sound: "w \<in> set (words_by p s) \<Longrightarrow> w \<noteq> [] \<and> (\<forall>c\<in>set w. \<not> p c)"
  using words_acc_sound [of w p "[]" s] by (simp add: words_by_def list_all_iff)

lemma words_acc_word:
  "(\<And>c. c \<in> set w \<Longrightarrow> \<not> p c) \<Longrightarrow> words_acc p acc (w @ s) = words_acc p (rev w @ acc) s"
  by (induction w arbitrary: acc) auto

lemma words_word:
  assumes "w \<noteq> []" and "\<And>c. c \<in> set w \<Longrightarrow> \<not> p c"
  shows "words_by p w = [w]"
  using assms words_acc_word [of w p "[]" "[]"] by (simp add: words_by_def)

lemma words_join:
  assumes "\<forall>w\<in>set ws. w \<noteq> [] \<and> (\<forall>c\<in>set w. \<not> p c)" and "p sp"
  shows "words_by p (join [sp] ws) = ws"
  using assms(1)
proof (induction "[sp]" ws rule: join.induct)
  case 1
  then show ?case by (simp add: words_by_def)
next
  case (2 x)
  then have "x \<noteq> [] \<and> (\<forall>c\<in>set x. \<not> p c)" by simp
  then show ?case using words_word [of x p] by simp
next
  case (3 x y xs)
  have x: "x \<noteq> []" "\<And>c. c \<in> set x \<Longrightarrow> \<not> p c" using "3.prems" by auto
  have "words_acc p [] (x @ sp # join [sp] (y # xs)) = x # words_acc p [] (join [sp] (y # xs))"
    using words_acc_word [of x p "[]" "sp # join [sp] (y # xs)"] x(2) x(1) assms(2) by simp
  with 3 show ?case by (simp add: words_by_def)
qed

lemma split_acc_plain: "sep \<notin> set s \<Longrightarrow> split_acc sep acc s = [rev acc @ s]"
  by (induction sep acc s rule: split_acc.induct) auto

lemma split_acc_app: "sep \<notin> set s \<Longrightarrow> split_acc sep acc (s @ sep # t) = (rev acc @ s) # split_acc sep [] t"
  by (induction s arbitrary: acc) auto

lemma split_join:
  "ws \<noteq> [] \<Longrightarrow> \<forall>w\<in>set ws. sep \<notin> set w \<Longrightarrow> split_on sep (join [sep] ws) = ws"
proof (induction "[sep]" ws rule: join.induct)
  case (2 x)
  then show ?case by (simp add: split_on_def split_acc_plain)
next
  case (3 x y xs)
  then have "sep \<notin> set x" and "split_on sep (join [sep] (y # xs)) = y # xs" by auto
  then show ?case by (simp add: split_on_def split_acc_app)
qed simp

lemma split_acc_sound: "w \<in> set (split_acc sep acc s) \<Longrightarrow> sep \<notin> set acc \<Longrightarrow> sep \<notin> set w"
  by (induction sep acc s rule: split_acc.induct) (auto split: if_splits)

lemma split_sound: "w \<in> set (split_on sep s) \<Longrightarrow> sep \<notin> set w"
  unfolding split_on_def by (erule split_acc_sound) simp

lemma split_nonempty: "split_on sep s \<noteq> []"
proof -
  have "split_acc sep acc s \<noteq> []" for acc by (induction s arbitrary: acc) auto
  then show ?thesis by (simp add: split_on_def)
qed

text \<open>\<open>s.partition(sep)\<close>, None when the separator is absent.\<close>

fun partition_at :: "'a \<Rightarrow> 'a list \<Rightarrow> ('a list \<times> 'a list) option" where
  "partition_at sep [] = None"
| "partition_at sep (c # s) =
     (if c = sep then Some ([], s)
      else map_option (\<lambda>(a, b). (c # a, b)) (partition_at sep s))"

lemma partition_at_app: "sep \<notin> set a \<Longrightarrow> partition_at sep (a @ sep # b) = Some (a, b)"
  by (induction a) auto

lemma partition_at_Some: "partition_at sep s = Some (a, b) \<Longrightarrow> s = a @ sep # b \<and> sep \<notin> set a"
  by (induction sep s arbitrary: a rule: partition_at.induct) (auto split: if_splits)

lemma partition_at_None: "partition_at sep s = None \<longleftrightarrow> sep \<notin> set s"
  by (induction sep s rule: partition_at.induct) auto

section \<open>Integers as text\<close>

fun digits_nat :: "nat \<Rightarrow> string" where
  "digits_nat n = (if n < 10 then [char_of (48 + n)] else digits_nat (n div 10) @ [char_of (48 + n mod 10)])"

declare digits_nat.simps [simp del]

text \<open>\<open>str(i)\<close> of a Python integer.\<close>

definition str_int :: "int \<Rightarrow> string" where
  "str_int i = (if i < 0 then CHR ''-'' # digits_nat (nat (- i)) else digits_nat (nat i))"

definition dec_value :: "string \<Rightarrow> nat" where
  "dec_value s = foldl (\<lambda>n c. 10 * n + (code_of c - 48)) 0 s"

text \<open>Digits with single underscores between them, as \<open>int()\<close> accepts.\<close>

fun dec_shape :: "string \<Rightarrow> bool" where
  "dec_shape [] = False"
| "dec_shape [c] = is_dec c"
| "dec_shape (c # d # s) =
     (is_dec c \<and> (if d = CHR ''_'' then dec_shape s else dec_shape (d # s)))"

definition parse_int :: "string \<Rightarrow> int option" where
  "parse_int s = (let t = strip s;
       (sg, body) = (case t of c # r \<Rightarrow> if c = CHR ''-'' then (-1, r)
                                         else if c = CHR ''+'' then (1, r) else (1, t)
                     | [] \<Rightarrow> (1, t))
     in if dec_shape body then Some (sg * int (dec_value (filter is_dec body))) else None)"

lemma code_digit: "(n::nat) < 10 \<Longrightarrow> code_of (char_of (48 + n) :: char) = 48 + n"
  by (simp add: of_char_of)

lemma is_dec_digit: "(n::nat) < 10 \<Longrightarrow> is_dec (char_of (48 + n))"
  by (simp add: is_dec_def code_digit)

lemma digits_nat_dec: "list_all is_dec (digits_nat n) \<and> digits_nat n \<noteq> []"
proof (induction n rule: digits_nat.induct)
  case (1 n)
  show ?case
  proof (cases "n < 10")
    case True
    then show ?thesis by (simp add: digits_nat.simps [of n] is_dec_digit)
  next
    case False
    with 1 show ?thesis by (simp add: digits_nat.simps [of n] is_dec_digit)
  qed
qed

lemma dec_value_digits: "dec_value (digits_nat n) = n"
proof (induction n rule: digits_nat.induct)
  case (1 n)
  show ?case
  proof (cases "n < 10")
    case True
    then show ?thesis by (subst digits_nat.simps) (simp add: dec_value_def code_digit)
  next
    case False
    with 1 have "dec_value (digits_nat (n div 10)) = n div 10" by simp
    with False show ?thesis
      by (subst digits_nat.simps) (simp add: dec_value_def code_digit)
  qed
qed

lemma dec_shape_all: "s \<noteq> [] \<Longrightarrow> list_all is_dec s \<Longrightarrow> dec_shape s"
  by (induction s rule: dec_shape.induct) (auto simp: is_dec_def)

lemma is_dec_not_space: "is_dec c \<Longrightarrow> \<not> is_space c"
  by (auto simp: is_dec_def is_space_def space_cp_def)

lemma filter_dec: "list_all is_dec s \<Longrightarrow> filter is_dec s = s"
  by (induction s) auto

lemma parse_str_int [str_simps]: "parse_int (str_int i) = Some i"
proof -
  have dig: "list_all is_dec (digits_nat n)" "digits_nat n \<noteq> []" for n using digits_nat_dec by auto
  have ns: "strip (digits_nat n) = digits_nat n" for n
    by (rule strip_by_none) (use dig [of n] is_dec_not_space in \<open>auto simp: list_all_iff\<close>)
  have nm: "strip (CHR ''-'' # digits_nat n) = CHR ''-'' # digits_nat n" for n
    by (rule strip_by_none)
      (use dig [of n] is_dec_not_space in \<open>auto simp: list_all_iff is_space_def space_cp_def\<close>)
  have hd: "digits_nat n = c # r \<Longrightarrow> c \<noteq> CHR ''-'' \<and> c \<noteq> CHR ''+''" for n c r
    using dig [of n] by (auto simp: is_dec_def)
  show ?thesis
  proof (cases "i < 0")
    case True
    then show ?thesis using dig [of "nat (- i)"]
      by (simp add: parse_int_def str_int_def nm dec_shape_all filter_dec dec_value_digits)
  next
    case False
    obtain c r where cr: "digits_nat (nat i) = c # r" using dig [of "nat i"] by (cases "digits_nat (nat i)") auto
    then have "c \<noteq> CHR ''-'' \<and> c \<noteq> CHR ''+''" by (rule hd)
    then show ?thesis using False dig [of "nat i"] cr dec_value_digits [of "nat i"]
      by (simp add: parse_int_def str_int_def ns [of "nat i", unfolded cr] dec_shape_all filter_dec)
  qed
qed

lemma str_int_inj [str_simps]: "str_int i = str_int j \<longleftrightarrow> i = j"
  using parse_str_int by (metis option.inject)

end
