(* ===== verification/Names_Langs.thy ===== *)
theory Names_Langs
  imports Py_Str
begin

text \<open>
  \<open>src/tg_messenger/core/names.py\<close> and \<open>core/languages.py\<close>: profile names that become file
  names, and the supported-language policy of the translation features.
\<close>

section \<open>Profile names\<close>

definition safe_char :: "char \<Rightarrow> bool" where
  "safe_char c \<longleftrightarrow> (let n = code_of c in 65 \<le> n \<and> n \<le> 90 \<or> 97 \<le> n \<and> n \<le> 122 \<or> is_dec c
     \<or> c = CHR ''_'' \<or> c = CHR ''.'' \<or> c = CHR ''-'')"

text \<open>\<open>_SAFE.sub("_", name)\<close>: each maximal run of other characters becomes one underscore.\<close>

function sub_unsafe :: "string \<Rightarrow> string" where
  "sub_unsafe [] = []"
| "sub_unsafe (c # s) = (if safe_char c then c # sub_unsafe s
     else CHR ''_'' # sub_unsafe (dropWhile (\<lambda>d. \<not> safe_char d) s))"
  by pat_completeness auto
termination
  by (relation "measure length") (auto simp: le_imp_less_Suc length_dropWhile_le)

definition edge_char :: "char \<Rightarrow> bool" where
  "edge_char c \<longleftrightarrow> c = CHR ''.'' \<or> c = CHR ''_''"

definition sanitize_profile_name :: "string \<Rightarrow> string" where
  "sanitize_profile_name name =
     (let s = strip_by edge_char (sub_unsafe name) in if s = [] then ''default'' else s)"

definition is_safe_profile_name :: "string \<Rightarrow> bool" where
  "is_safe_profile_name name \<longleftrightarrow> name \<noteq> [] \<and> sanitize_profile_name name = name"

lemma sub_unsafe_safe: "list_all safe_char (sub_unsafe s)"
proof (induction s rule: sub_unsafe.induct)
  case (2 c s)
  have "safe_char (CHR ''_'')" by (simp add: safe_char_def)
  with 2 show ?case by simp
qed simp

lemma sub_unsafe_id: "list_all safe_char s \<Longrightarrow> sub_unsafe s = s"
  by (induction s rule: sub_unsafe.induct) auto

lemma sanitize_cases:
  "list_all safe_char (sanitize_profile_name s) \<and> sanitize_profile_name s \<noteq> []
    \<and> trimmed edge_char (sanitize_profile_name s)"
proof -
  have "list_all safe_char (strip_by edge_char (sub_unsafe s))"
    using sub_unsafe_safe [of s] set_strip [of edge_char "sub_unsafe s"] by (auto simp: list_all_iff)
  moreover have "list_all safe_char ''default'' \<and> trimmed edge_char ''default''"
    by (simp add: safe_char_def is_dec_def trimmed_def edge_char_def)
  ultimately show ?thesis
    using trimmed_strip [of edge_char "sub_unsafe s"] by (simp add: sanitize_profile_name_def Let_def)
qed

lemma sanitize_fix: "list_all safe_char s \<Longrightarrow> s \<noteq> [] \<Longrightarrow> trimmed edge_char s \<Longrightarrow> sanitize_profile_name s = s"
  by (simp add: sanitize_profile_name_def sub_unsafe_id strip_trimmed)

text \<open>
  Whatever the user typed, the profile's file name is non-empty, contains no path
  separator, is neither \<open>.\<close> nor \<open>..\<close>, and is a fixed point; and \<open>is_safe_profile_name\<close>
  accepts exactly the names made of safe characters with no dot or underscore at an end, so
  two different accepted names never share a session file.
\<close>

theorem profile_names_safe:
  "is_safe_profile_name (sanitize_profile_name n) \<and> CHR ''/'' \<notin> set (sanitize_profile_name n)
   \<and> sanitize_profile_name n \<notin> {[], ''.'', ''..''}
   \<and> (is_safe_profile_name m \<longleftrightarrow> m \<noteq> [] \<and> list_all safe_char m \<and> trimmed edge_char m)"
proof -
  have s: "list_all safe_char (sanitize_profile_name k) \<and> sanitize_profile_name k \<noteq> []
    \<and> trimmed edge_char (sanitize_profile_name k)" for k by (rule sanitize_cases)
  have "sanitize_profile_name (sanitize_profile_name n) = sanitize_profile_name n"
    using s [of n] by (intro sanitize_fix) simp_all
  moreover have "\<not> safe_char (CHR ''/'')" by (simp add: safe_char_def is_dec_def)
  then have "CHR ''/'' \<notin> set (sanitize_profile_name n)" using s [of n] by (auto simp: list_all_iff)
  moreover have "\<not> trimmed edge_char ''.''" "\<not> trimmed edge_char ''..''"
    by (simp_all add: trimmed_def edge_char_def)
  then have "sanitize_profile_name n \<notin> {[], ''.'', ''..''}" using s [of n] by auto
  moreover have "is_safe_profile_name m \<longleftrightarrow> m \<noteq> [] \<and> list_all safe_char m \<and> trimmed edge_char m"
    using s [of m] sanitize_fix [of m] by (auto simp: is_safe_profile_name_def)
  ultimately show ?thesis using s [of n] by (simp add: is_safe_profile_name_def)
qed

section \<open>Language codes\<close>

definition supported_langs :: "string list" where
  "supported_langs = [''ru'', ''en'', ''es'', ''uk'', ''ja'', ''zh'', ''ko'', ''ar'', ''he'', ''el'', ''th'']"

definition clean_supported_lang_code :: "string option \<Rightarrow> string option" where
  "clean_supported_lang_code code =
     (case code of None \<Rightarrow> None
      | Some c \<Rightarrow> (let lang = lower (strip c) in if lang \<in> set supported_langs then Some lang else None))"

definition validate_supported_lang_code :: "string \<Rightarrow> (string, string) result" where
  "validate_supported_lang_code code =
     (case clean_supported_lang_code (Some code) of
        None \<Rightarrow> Inl ''invalid language code'' | Some lang \<Rightarrow> Inr lang)"

text \<open>The loop of \<open>parse_lang_codes\<close>; \<open>Inl raw\<close> is the \<open>ValueError\<close> naming the bad token.\<close>

fun parse_langs_loop :: "string list \<Rightarrow> string list \<Rightarrow> (string, string list) result" where
  "parse_langs_loop out [] = Inr out"
| "parse_langs_loop out (raw # toks) =
     (case clean_supported_lang_code (Some raw) of
        None \<Rightarrow> Inl raw
      | Some lang \<Rightarrow> parse_langs_loop (if lang \<in> set out then out else out @ [lang]) toks)"

definition lang_tokens :: "string \<Rightarrow> string list" where
  "lang_tokens value = split_ws (map (\<lambda>c. if c = CHR '','' then CHR '' '' else c) value)"

definition parse_lang_codes :: "string option \<Rightarrow> (string, string list) result" where
  "parse_lang_codes value =
     (case value of None \<Rightarrow> Inr [] | Some v \<Rightarrow> if v = [] then Inr [] else parse_langs_loop [] (lang_tokens v))"

lemma clean_supported: "clean_supported_lang_code (Some c) = Some l \<Longrightarrow> l \<in> set supported_langs"
  by (auto simp: clean_supported_lang_code_def Let_def split: if_splits)

lemma parse_langs_loop_ok:
  "parse_langs_loop out toks = Inr r \<Longrightarrow> distinct out \<Longrightarrow>
    distinct r \<and> (\<exists>new. r = out @ new) \<and> set r = set out \<union> {l. \<exists>t\<in>set toks. clean_supported_lang_code (Some t) = Some l}"
proof (induction toks arbitrary: out)
  case (Cons raw toks)
  obtain lang where l: "clean_supported_lang_code (Some raw) = Some lang"
    using Cons.prems(1) by (auto split: option.splits)
  let ?o = "if lang \<in> set out then out else out @ [lang]"
  have "distinct r \<and> (\<exists>new. r = ?o @ new) \<and> set r = set ?o \<union> {l. \<exists>t\<in>set toks. clean_supported_lang_code (Some t) = Some l}"
    using Cons.prems l by (intro Cons.IH) auto
  then show ?case using l by (auto split: if_splits)
qed simp

lemma parse_langs_loop_bad:
  "parse_langs_loop out toks = Inl t \<longleftrightarrow>
    (\<exists>pre post. toks = pre @ t # post \<and> clean_supported_lang_code (Some t) = None
      \<and> list_all (\<lambda>x. clean_supported_lang_code (Some x) \<noteq> None) pre)"
proof (induction toks arbitrary: out)
  case Nil
  then show ?case by simp
next
  case (Cons raw toks)
  show ?case
  proof (cases "clean_supported_lang_code (Some raw)")
    case None
    then show ?thesis by (auto simp: Cons_eq_append_conv)
  next
    case (Some l)
    let ?P = "\<lambda>xs pre post. xs = pre @ t # post \<and> clean_supported_lang_code (Some t) = None
      \<and> list_all (\<lambda>x. clean_supported_lang_code (Some x) \<noteq> None) pre"
    have "?P toks pre post \<Longrightarrow> ?P (raw # toks) (raw # pre) post" for pre post using Some by simp
    moreover have "?P (raw # toks) pre post \<Longrightarrow> ?P toks (tl pre) post" for pre post
      using Some by (cases pre) auto
    ultimately have "(\<exists>pre post. ?P (raw # toks) pre post) \<longleftrightarrow> (\<exists>pre post. ?P toks pre post)"
      by (intro iffI) (elim exE, intro exI, assumption)+
    then show ?thesis using Some Cons.IH by simp
  qed
qed

definition lower_letter :: "char \<Rightarrow> bool" where
  "lower_letter c \<longleftrightarrow> 97 \<le> code_of c \<and> code_of c \<le> 122"

lemma lower_word: "list_all lower_letter l \<Longrightarrow> lower (strip l) = l"
proof -
  assume l: "list_all lower_letter l"
  then have "strip l = l"
    by (intro strip_by_none) (auto simp: list_all_iff lower_letter_def is_space_def space_cp_def)
  moreover have "lower l = l" using l
    by (auto simp: lower_def lower_char_def list_all_iff lower_letter_def intro!: map_idI)
  ultimately show ?thesis by simp
qed

lemma supported_letters: "list_all (list_all lower_letter) supported_langs"
  by (simp add: supported_langs_def lower_letter_def)

lemma clean_of_supported: "l \<in> set supported_langs \<Longrightarrow> clean_supported_lang_code (Some l) = Some l"
  using supported_letters lower_word [of l]
  by (simp add: clean_supported_lang_code_def list_all_iff)

lemma parse_langs_loop_supported:
  "set ls \<subseteq> set supported_langs \<Longrightarrow> distinct (out @ ls) \<Longrightarrow> parse_langs_loop out ls = Inr (out @ ls)"
  by (induction ls arbitrary: out) (auto simp: clean_of_supported)

lemma supported_no_space: "l \<in> set supported_langs \<Longrightarrow> l \<noteq> [] \<and> (\<forall>c\<in>set l. \<not> is_space c \<and> c \<noteq> CHR '','')"
proof -
  have "list_all (\<lambda>w. w \<noteq> [] \<and> CHR '','' \<notin> set w) supported_langs" by (simp add: supported_langs_def)
  moreover have "lower_letter c \<Longrightarrow> \<not> is_space c" for c
    by (auto simp: lower_letter_def is_space_def space_cp_def)
  ultimately show "l \<in> set supported_langs \<Longrightarrow> ?thesis"
    using supported_letters by (auto simp: list_all_iff)
qed

text \<open>
  An accepted language list is duplicate-free, within the supported codes and is the set
  of its cleaned tokens; a rejection names the first unsupported token.
\<close>

theorem parse_lang_codes_correct:
  "case parse_lang_codes (Some v) of
     Inr r \<Rightarrow> distinct r \<and> set r \<subseteq> set supported_langs
       \<and> set r = {l. \<exists>t. t \<in> set (lang_tokens v) \<and> clean_supported_lang_code (Some t) = Some l}
   | Inl t \<Rightarrow> \<exists>pre post. lang_tokens v = pre @ t # post \<and> clean_supported_lang_code (Some t) = None
       \<and> list_all (\<lambda>x. clean_supported_lang_code (Some x) \<noteq> None) pre"
proof (cases "v = []")
  case True
  then show ?thesis by (simp add: parse_lang_codes_def lang_tokens_def words_by_def)
next
  case False
  then have p: "parse_lang_codes (Some v) = parse_langs_loop [] (lang_tokens v)"
    by (simp add: parse_lang_codes_def)
  show ?thesis
  proof (cases "parse_langs_loop [] (lang_tokens v)")
    case (Inl t)
    then show ?thesis using parse_langs_loop_bad [of "[]" "lang_tokens v" t] by (simp add: p)
  next
    case (Inr r)
    have "distinct r \<and> set r = {l. \<exists>t\<in>set (lang_tokens v). clean_supported_lang_code (Some t) = Some l}"
      using parse_langs_loop_ok [OF Inr] by simp
    then show ?thesis using clean_supported by (auto simp: p Inr)
  qed
qed

text \<open>
  Round trip: a list of distinct supported codes, joined with commas or spaces, parses
  back to itself.
\<close>

theorem parse_lang_codes_roundtrip:
  assumes "distinct ls" and "set ls \<subseteq> set supported_langs" and "sep \<in> {CHR '','', CHR '' ''}"
  shows "parse_lang_codes (Some (join [sep] ls)) = Inr ls"
proof -
  let ?f = "\<lambda>c. if c = CHR '','' then CHR '' '' else c"
  have "map ?f (join [sep] ls) = join [CHR '' ''] (map (map ?f) ls)"
    using assms(3) by (induction "[sep]" ls rule: join.induct) auto
  moreover have "map (map ?f) ls = ls"
    using assms(2) supported_no_space by (intro map_idI) (auto intro!: map_idI)
  moreover have "\<forall>w\<in>set ls. w \<noteq> [] \<and> (\<forall>c\<in>set w. \<not> is_space c)"
    using assms(2) supported_no_space by blast
  then have "words_by is_space (join [CHR '' ''] ls) = ls"
    by (rule words_join) (simp add: is_space_def space_cp_def)
  ultimately have t: "lang_tokens (join [sep] ls) = ls" by (simp add: lang_tokens_def)
  have "parse_langs_loop [] ls = Inr ls"
    using parse_langs_loop_supported [of ls "[]"] assms by simp
  then show ?thesis using t by (auto simp: parse_lang_codes_def lang_tokens_def words_by_def)
qed

lemma parse_lang_codes_roundtrip_witness: "parse_lang_codes (Some ''uk,en'') = Inr [''uk'', ''en'']"
  using parse_lang_codes_roundtrip [of "[''uk'', ''en'']" "CHR '',''"] by (simp add: supported_langs_def)

end
