(* ===== verification/Models.thy ===== *)
theory Models
  imports Py_Str
begin

text \<open>
  \<open>src/tg_messenger/core/models.py\<close> (the domain records and the two text renderers),
  \<open>core/search.py\<close> (the local dialog filter) and \<open>core/events.py\<close> (the event bus).
  Dates are seconds (\<open>instant\<close>), message bodies are code point lists, names and titles are
  Latin-1 strings.
\<close>

section \<open>Domain records\<close>

datatype media_kind = Photo | Voice | Document | OtherMedia
datatype dialog_kind = Dm | Group | Channel | Bot

record user =
  us_id :: int
  us_first_name :: "string option"
  us_last_name :: "string option"
  us_username :: "string option"

record media_ref =
  mr_kind :: media_kind
  mr_file_name :: "string option"
  mr_size :: "int option"
  mr_mime_type :: "string option"
  mr_downloadable :: bool

record dialog =
  dg_id :: int
  dg_title :: string
  dg_kind :: dialog_kind
  dg_username :: "string option"
  dg_unread :: int
  dg_last_message_at :: "instant option"
  dg_last_text :: "utext option"
  dg_is_contact :: "bool option"
  dg_archived :: bool
  dg_lang_code :: "string option"
  dg_can_send :: bool

record message =
  ms_id :: int
  ms_dialog_id :: int
  ms_sender_id :: int
  ms_out :: bool
  ms_date :: instant
  ms_text :: "utext option"
  ms_media :: "media_ref option"
  ms_reply_to_id :: "int option"
  ms_is_forward :: bool
  ms_translated_text :: "utext option"
  ms_sender :: "user option"

record incoming_event =
  ie_dialog_id :: int
  ie_message :: message
  ie_album_id :: "int option"

record outgoing_event =
  oe_dialog_id :: int
  oe_message :: message

record messages_deleted_event =
  de_chat_id :: "int option"
  de_message_ids :: "int list"

datatype chat_action_kind = Join | Leave | Kick | TitleChange | Pin | PhotoChange | OtherAction

record chat_action_event =
  ca_dialog_id :: int
  ca_kind :: chat_action_kind
  ca_user :: "user option"
  ca_actor :: "user option"
  ca_raw_text :: "utext option"

text \<open>Truthiness of an optional string: present and non-empty.\<close>

definition truthy :: "'a list option \<Rightarrow> bool" where
  "truthy t \<longleftrightarrow> t \<noteq> None \<and> t \<noteq> Some []"

definition or_default :: "'a list option \<Rightarrow> 'a list \<Rightarrow> 'a list" where
  "or_default t d = (case t of None \<Rightarrow> d | Some s \<Rightarrow> if s = [] then d else s)"

section \<open>Rendering a message\<close>

definition line_prefix :: "message \<Rightarrow> utext" where
  "line_prefix m = [if ms_out m then 8594 else 8592] @ u '' ['' @ u (str_int (ms_id m)) @ u ''] ''"

definition message_body :: "message \<Rightarrow> utext" where
  "message_body m = or_default (ms_text m) (u ''<media>'')"

definition message_line :: "message \<Rightarrow> utext" where
  "message_line m =
     (let prefix = line_prefix m; body = message_body m
      in if 10 \<notin> set body then prefix @ body
         else (let indent = replicate (length prefix) 32; parts = split_on 10 body
               in join [10] ((prefix @ hd parts) # map (\<lambda>line. indent @ line) (tl parts))))"

definition format_author :: "message \<Rightarrow> string" where
  "format_author m =
     join '' '' (str_int (ms_sender_id m) #
       (case ms_sender m of None \<Rightarrow> []
        | Some s \<Rightarrow>
            (case us_username s of None \<Rightarrow> [] | Some un \<Rightarrow> if un = [] then [] else [CHR ''@'' # un])
            @ (let name = join '' '' (filter (\<lambda>p. p \<noteq> [])
                    ((case us_first_name s of None \<Rightarrow> [] | Some f \<Rightarrow> [f])
                     @ (case us_last_name s of None \<Rightarrow> [] | Some l \<Rightarrow> [l])))
               in if name = [] then [] else [name])))"

lemma u_app [str_simps]: "u (s @ t) = u s @ u t"
  by (simp add: u_def)

lemma set_digits_nat: "c \<in> set (digits_nat n) \<Longrightarrow> is_dec c"
  using digits_nat_dec [of n] by (simp add: list_all_iff)

lemma no_newline_int: "10 \<notin> set (u (str_int i))"
proof -
  have "code_of c \<noteq> 10" if "c \<in> set (str_int i)" for c
    using that set_digits_nat [of c "nat i"] set_digits_nat [of c "nat (- i)"]
    by (auto simp: str_int_def is_dec_def split: if_splits)
  then show ?thesis by (force simp: u_def)
qed

lemma no_newline_prefix: "10 \<notin> set (line_prefix m)"
  using no_newline_int [of "ms_id m"] by (simp add: line_prefix_def) (simp add: u_def)

lemma split_on_plain: "sep \<notin> set s \<Longrightarrow> split_on sep s = [s]"
  by (simp add: split_on_def split_acc_plain)

text \<open>
  Rendering keeps the message's lines one for one: the first carries the arrow and id
  prefix, every later one is indented by exactly the width of that prefix, so no line of a
  body can be mistaken for another message.
\<close>

theorem message_line_lines:
  "split_on 10 (message_line m) =
    (case split_on 10 (message_body m) of
       [] \<Rightarrow> []
     | head # rest \<Rightarrow> (line_prefix m @ head) # map (\<lambda>l. replicate (length (line_prefix m)) 32 @ l) rest)"
proof (cases "10 \<in> set (message_body m)")
  case False
  then show ?thesis using no_newline_prefix [of m] by (simp add: message_line_def Let_def split_on_plain)
next
  case True
  obtain h t where ht: "split_on 10 (message_body m) = h # t"
    using split_nonempty [of 10 "message_body m"] by (cases "split_on 10 (message_body m)") auto
  have parts: "10 \<notin> set w" if "w \<in> set (h # t)" for w
    using split_sound [of w 10 "message_body m"] that by (simp add: ht)
  let ?ls = "(line_prefix m @ h) # map (\<lambda>l. replicate (length (line_prefix m)) 32 @ l) t"
  have "\<forall>w\<in>set ?ls. 10 \<notin> set w" using parts no_newline_prefix [of m] by auto
  then have "split_on 10 (join [10] ?ls) = ?ls" by (intro split_join) auto
  then show ?thesis using True ht by (simp add: message_line_def Let_def)
qed

section \<open>The dialog filter\<close>

definition contains :: "'a list \<Rightarrow> 'a list \<Rightarrow> bool" where
  "contains needle hay \<longleftrightarrow> list_ex (\<lambda>n. prefix needle (drop n hay)) [0..<Suc (length hay)]"

definition is_int_text :: "string \<Rightarrow> bool" where
  "is_int_text raw \<longleftrightarrow> (let d = lstrip_by (\<lambda>c. c = CHR ''-'') raw in d \<noteq> [] \<and> list_all is_digit_py d)"

definition dialog_matches :: "dialog \<Rightarrow> string \<Rightarrow> bool" where
  "dialog_matches d query =
     (let q = casefold query; raw = strip query in
      contains q (casefold (dg_title d))
      \<or> (case dg_username d of None \<Rightarrow> False
         | Some un \<Rightarrow> un \<noteq> [] \<and>
             (let needle = (if prefix ''@'' q then drop 1 q else q)
              in needle \<noteq> [] \<and> prefix needle (casefold un)))
      \<or> (is_int_text raw \<and> (raw = str_int (dg_id d) \<or> raw = str_int \<bar>dg_id d\<bar>)))"

definition filter_dialogs :: "dialog list \<Rightarrow> string \<Rightarrow> dialog list" where
  "filter_dialogs dialogs query =
     (let q = strip query in if q = [] then dialogs else filter (\<lambda>d. dialog_matches d q) dialogs)"

definition can_send_in :: "dialog list \<Rightarrow> int \<Rightarrow> bool" where
  "can_send_in dialogs dialog_id =
     (case List.find (\<lambda>d. dg_id d = dialog_id) dialogs of None \<Rightarrow> True | Some d \<Rightarrow> dg_can_send d)"

lemma contains_infix: "contains q s \<longleftrightarrow> (\<exists>a b. s = a @ q @ b)"
proof
  assume "contains q s"
  then obtain n where "prefix q (drop n s)" by (auto simp: contains_def list_ex_iff)
  then obtain b where "drop n s = q @ b" by (auto simp: prefix_def)
  then have "s = take n s @ q @ b" using append_take_drop_id [of n s] by metis
  then show "\<exists>a b. s = a @ q @ b" by blast
next
  assume "\<exists>a b. s = a @ q @ b"
  then obtain a b where s: "s = a @ q @ b" by blast
  then have "prefix q (drop (length a) s)" by simp
  moreover have "length a \<in> set [0..<Suc (length s)]" using s by simp
  ultimately show "contains q s" unfolding contains_def list_ex_iff by (rule bexI)
qed

lemma str_int_text: "is_int_text (str_int i)"
proof -
  have d: "list_all is_dec (digits_nat n)" "digits_nat n \<noteq> []" for n using digits_nat_dec by auto
  have l: "dropWhile (\<lambda>c. c = CHR ''-'') (digits_nat n) = digits_nat n" for n
    using d [of n] by (cases "digits_nat n") (auto simp: is_dec_def)
  have g: "list_all is_digit_py (digits_nat n)" for n
    using d(1) [of n] by (simp add: list_all_iff is_digit_py_def)
  have nd: "\<not> is_dec (CHR ''-'')" by (simp add: is_dec_def)
  have x: "\<exists>c\<in>set (digits_nat n). c \<noteq> CHR ''-''" for n
    using d [of n] nd hd_in_set [of "digits_nat n"] unfolding list_all_iff by metis
  show ?thesis by (simp add: is_int_text_def str_int_def lstrip_by_def l Let_def g x)
qed

lemma str_int_strip: "strip (str_int i) = str_int i"
proof -
  have "\<not> is_space c" if "c \<in> set (str_int i)" for c
    using that set_digits_nat [of c "nat i"] set_digits_nat [of c "nat (- i)"] is_dec_not_space [of c]
    by (auto simp: str_int_def is_space_def space_cp_def split: if_splits)
  then show ?thesis by (intro strip_by_none)
qed

lemma str_int_ne: "str_int i \<noteq> []"
  using digits_nat_dec by (simp add: str_int_def)

text \<open>
  The dialog filter only narrows the list, in order; a blank query keeps everything, and
  a dialog is always found by its id, as printed or without the sign.
\<close>

theorem filter_dialogs_correct:
  "subseq (filter_dialogs ds q) ds \<and> (strip q = [] \<longrightarrow> filter_dialogs ds q = ds)
   \<and> (d \<in> set ds \<longrightarrow> d \<in> set (filter_dialogs ds (str_int (dg_id d)))
       \<and> d \<in> set (filter_dialogs ds (str_int \<bar>dg_id d\<bar>)))"
proof -
  have m: "dialog_matches d (str_int i)" if "i = dg_id d \<or> i = \<bar>dg_id d\<bar>" for i
    using that str_int_text [of i] by (auto simp: dialog_matches_def Let_def str_int_strip)
  show ?thesis
    using m [of "dg_id d"] m [of "\<bar>dg_id d\<bar>"]
    by (auto simp: filter_dialogs_def Let_def str_int_strip str_int_ne)
qed

definition sample_dialog :: dialog where
  "sample_dialog = \<lparr>dg_id = -17, dg_title = ''Ops'', dg_kind = Group, dg_username = None, dg_unread = 0,
     dg_last_message_at = None, dg_last_text = None, dg_is_contact = None, dg_archived = False,
     dg_lang_code = None, dg_can_send = False\<rparr>"

lemma filter_dialogs_correct_witness:
  "sample_dialog \<in> set (filter_dialogs [sample_dialog] (str_int (-17)))
   \<and> sample_dialog \<in> set (filter_dialogs [sample_dialog] (str_int 17))
   \<and> filter_dialogs [sample_dialog] '' '' = [sample_dialog]"
proof -
  have "strip '' '' = []" by (simp add: strip_by_def lstrip_by_def rstrip_by_def is_space_def space_cp_def)
  then show ?thesis
    using filter_dialogs_correct [of "[sample_dialog]" "'' ''" sample_dialog] by (simp add: sample_dialog_def)
qed

text \<open>Posting is denied only by a dialog of the list that says so; an unknown one is writable.\<close>

lemma can_send_in_spec:
  "\<not> can_send_in ds i \<longleftrightarrow> (\<exists>pre d post. ds = pre @ d # post \<and> dg_id d = i \<and> \<not> dg_can_send d
     \<and> list_all (\<lambda>e. dg_id e \<noteq> i) pre)"
proof (induction ds)
  case (Cons e ds)
  show ?case
  proof (cases "dg_id e = i")
    case True
    have "pre = [] \<and> d = e" if "e # ds = pre @ d # post" "list_all (\<lambda>e. dg_id e \<noteq> i) pre" for pre d post
      using that True by (cases pre) auto
    moreover have "e # ds = [] @ e # ds \<and> list_all (\<lambda>e. dg_id e \<noteq> i) []" by simp
    ultimately have "(\<exists>pre d post. e # ds = pre @ d # post \<and> dg_id d = i \<and> \<not> dg_can_send d
      \<and> list_all (\<lambda>e. dg_id e \<noteq> i) pre) \<longleftrightarrow> \<not> dg_can_send e" using True by metis
    then show ?thesis using True by (simp add: can_send_in_def)
  next
    case False
    let ?P = "\<lambda>xs pre d post. xs = pre @ d # post \<and> dg_id d = i \<and> \<not> dg_can_send d
      \<and> list_all (\<lambda>e. dg_id e \<noteq> i) pre"
    have "?P ds pre d post \<Longrightarrow> ?P (e # ds) (e # pre) d post" for pre d post using False by simp
    moreover have "?P (e # ds) pre d post \<Longrightarrow> ?P ds (tl pre) d post" for pre d post
      using False by (cases pre) auto
    ultimately have "(\<exists>pre d post. ?P (e # ds) pre d post) \<longleftrightarrow> (\<exists>pre d post. ?P ds pre d post)"
      by (intro iffI) (elim exE, intro exI, assumption)+
    then show ?thesis using Cons False by (simp add: can_send_in_def)
  qed
qed (simp add: can_send_in_def)

end
