(* ===== verification/Event_Bus.thy ===== *)
theory Event_Bus
  imports Prelude
begin

text \<open>
  \<open>src/tg_messenger/core/events.py\<close>: the fan-out of events to bounded subscriber queues, and
  its runs as a step relation with, per subscriber, the ghost history of the events published
  since it registered and of those it has taken.
\<close>

record 'e bus =
  eb_maxsize :: int
  eb_subs :: "(nat, 'e list) odict"

definition subscriber_count :: "'e bus \<Rightarrow> nat" where
  "subscriber_count b = length (eb_subs b)"

text \<open>\<open>asyncio.Queue.full()\<close>: a non-positive maxsize means unbounded.\<close>

definition queue_full :: "int \<Rightarrow> 'e list \<Rightarrow> bool" where
  "queue_full maxsize q \<longleftrightarrow> 0 < maxsize \<and> maxsize \<le> int (length q)"

definition bus_register :: "nat \<Rightarrow> 'e bus \<Rightarrow> 'e bus" where
  "bus_register i b = b\<lparr>eb_subs := od_set i [] (eb_subs b)\<rparr>"

definition bus_unregister :: "nat \<Rightarrow> 'e bus \<Rightarrow> 'e bus" where
  "bus_unregister i b = b\<lparr>eb_subs := od_pop i (eb_subs b)\<rparr>"

text \<open>One subscriber's share of \<open>publish\<close>: drop the oldest when full, then append.\<close>

definition publish_one :: "int \<Rightarrow> 'e \<Rightarrow> 'e list \<Rightarrow> 'e list" where
  "publish_one maxsize ev q = (if queue_full maxsize q then tl q else q) @ [ev]"

definition publish :: "'e \<Rightarrow> 'e bus \<Rightarrow> 'e bus" where
  "publish ev b = b\<lparr>eb_subs := map (\<lambda>(i, q). (i, publish_one (eb_maxsize b) ev q)) (eb_subs b)\<rparr>"

text \<open>One resumption of \<open>subscribe\<close>'s loop: the head of a non-empty queue.\<close>

definition bus_take :: "nat \<Rightarrow> 'e bus \<Rightarrow> ('e \<times> 'e bus) option" where
  "bus_take i b =
     (case od_get (eb_subs b) i of
        None \<Rightarrow> None
      | Some [] \<Rightarrow> None
      | Some (e # q) \<Rightarrow> Some (e, b\<lparr>eb_subs := od_set i q (eb_subs b)\<rparr>))"

record 'e bus_run =
  br_bus :: "'e bus"
  br_seen :: "nat \<Rightarrow> 'e list"
  br_got :: "nat \<Rightarrow> 'e list"

inductive bus_step :: "'e bus_run \<Rightarrow> 'e bus_run \<Rightarrow> bool" where
  subscribe: "i \<notin> set (od_keys (eb_subs (br_bus r))) \<Longrightarrow>
    bus_step r (r\<lparr>br_bus := bus_register i (br_bus r), br_seen := (br_seen r)(i := []), br_got := (br_got r)(i := [])\<rparr>)"
| unsubscribe: "bus_step r (r\<lparr>br_bus := bus_unregister i (br_bus r)\<rparr>)"
| publish: "bus_step r (r\<lparr>br_bus := publish ev (br_bus r), br_seen := (\<lambda>i. br_seen r i @ [ev])\<rparr>)"
| take: "bus_take i (br_bus r) = Some (ev, b) \<Longrightarrow>
    bus_step r (r\<lparr>br_bus := b, br_got := (br_got r)(i := br_got r i @ [ev])\<rparr>)"

inductive_cases bus_stepE: "bus_step r r'"

definition bus_start :: "int \<Rightarrow> 'e bus_run" where
  "bus_start m = \<lparr>br_bus = \<lparr>eb_maxsize = m, eb_subs = []\<rparr>, br_seen = (\<lambda>_. []), br_got = (\<lambda>_. [])\<rparr>"

text \<open>What a subscriber may rely on: its queue is the newest part of what was published to
  it, and what it took plus what waits is a subsequence of it.\<close>

definition sub_ok :: "int \<Rightarrow> 'e list \<Rightarrow> 'e list \<Rightarrow> 'e list \<Rightarrow> bool" where
  "sub_ok m q seen got \<longleftrightarrow> suffix q seen \<and> subseq (got @ q) seen \<and> (0 < m \<longrightarrow> int (length q) \<le> m)
     \<and> (m \<le> 0 \<longrightarrow> got @ q = seen)"

definition bus_inv :: "'e bus_run \<Rightarrow> bool" where
  "bus_inv r \<longleftrightarrow> (\<forall>i q. od_get (eb_subs (br_bus r)) i = Some q \<longrightarrow>
     sub_ok (eb_maxsize (br_bus r)) q (br_seen r i) (br_got r i))"

lemma publish_one_length: "0 < m \<Longrightarrow> int (length q) \<le> m \<Longrightarrow> int (length (publish_one m e q)) \<le> m"
  by (auto simp: publish_one_def queue_full_def of_nat_diff)

lemma suffix_tl_trans: "suffix q s \<Longrightarrow> suffix (tl q) s"
  using suffix_tl suffix_order.trans by blast

lemma sub_ok_publish: "sub_ok m q seen got \<Longrightarrow> sub_ok m (publish_one m e q) (seen @ [e]) got"
proof -
  assume ok: "sub_ok m q seen got"
  let ?q = "if queue_full m q then tl q else q"
  have "suffix ?q seen" using ok suffix_tl_trans [of q seen] by (simp add: sub_ok_def)
  moreover have "subseq (got @ ?q) (got @ q)"
    using suffix_imp_subseq [OF suffix_tl, of q] by (auto intro: subseq_order.order_refl list_emb_append_mono)
  then have "subseq (got @ ?q) seen" using ok subseq_order.trans unfolding sub_ok_def by blast
  then have "subseq ((got @ ?q) @ [e]) (seen @ [e])" by (simp only: subseq_append)
  moreover have "m \<le> 0 \<Longrightarrow> \<not> queue_full m q" by (simp add: queue_full_def)
  ultimately show ?thesis using ok publish_one_length [of m q e]
    by (auto simp: sub_ok_def publish_one_def)
qed

lemma od_get_publish: "od_get (eb_subs (publish ev b)) i = map_option (publish_one (eb_maxsize b) ev) (od_get (eb_subs b) i)"
proof -
  have "map_of (map (\<lambda>(i, q). (i, f q)) d) i = map_option f (map_of d i)" for d :: "(nat \<times> 'a list) list" and f
    by (induction d) auto
  then show ?thesis by (simp add: publish_def)
qed

lemma bus_step_keeps: "bus_inv r \<Longrightarrow> bus_step r r' \<Longrightarrow> bus_inv r'"
proof (erule bus_stepE)
  fix i assume "bus_inv r" and "r' = r\<lparr>br_bus := bus_register i (br_bus r), br_seen := (br_seen r)(i := []), br_got := (br_got r)(i := [])\<rparr>"
  then show "bus_inv r'" by (auto simp: bus_inv_def bus_register_def od_simps sub_ok_def)
next
  fix i assume "bus_inv r" and "r' = r\<lparr>br_bus := bus_unregister i (br_bus r)\<rparr>"
  then show "bus_inv r'" by (auto simp: bus_inv_def bus_unregister_def od_simps)
next
  fix ev assume "bus_inv r" and "r' = r\<lparr>br_bus := publish ev (br_bus r), br_seen := (\<lambda>i. br_seen r i @ [ev])\<rparr>"
  moreover have "eb_maxsize (publish ev (br_bus r)) = eb_maxsize (br_bus r)" by (simp add: publish_def)
  ultimately show "bus_inv r'" by (auto simp: bus_inv_def od_get_publish sub_ok_publish)
next
  fix i ev b assume inv: "bus_inv r" and r': "r' = r\<lparr>br_bus := b, br_got := (br_got r)(i := br_got r i @ [ev])\<rparr>"
    and t: "bus_take i (br_bus r) = Some (ev, b)"
  obtain q where q: "od_get (eb_subs (br_bus r)) i = Some (ev # q)" and b: "b = br_bus r\<lparr>eb_subs := od_set i q (eb_subs (br_bus r))\<rparr>"
    using t by (auto simp: bus_take_def split: option.splits list.splits)
  have "sub_ok (eb_maxsize (br_bus r)) (ev # q) (br_seen r i) (br_got r i)" using inv q by (simp add: bus_inv_def)
  then have "sub_ok (eb_maxsize (br_bus r)) q (br_seen r i) (br_got r i @ [ev])"
    by (auto simp: sub_ok_def dest: suffix_ConsD)
  then show "bus_inv r'" using inv by (auto simp: bus_inv_def r' b od_simps)
qed

interpretation bus: inv_system bus_step bus_inv
  by unfold_locales (rule bus_step_keeps)

text \<open>
  C7: In every run, a subscriber's queue holds the newest events published since it
  registered, within the bus's bound; what it received followed by what waits is a
  subsequence of them, in order, without duplicates or replay, and on an unbounded bus it
  is all of them.
\<close>

theorem bus_delivery:
  assumes "bus_step\<^sup>*\<^sup>* (bus_start m) r" and "od_get (eb_subs (br_bus r)) i = Some q"
  shows "suffix q (br_seen r i) \<and> subseq (br_got r i @ q) (br_seen r i)
    \<and> (0 < eb_maxsize (br_bus r) \<longrightarrow> int (length q) \<le> eb_maxsize (br_bus r))
    \<and> (eb_maxsize (br_bus r) \<le> 0 \<longrightarrow> br_got r i @ q = br_seen r i)"
proof -
  have "bus_inv (bus_start m :: 'a bus_run)" by (simp add: bus_inv_def bus_start_def)
  then have "bus_inv r" by (rule bus.reach_keeps [OF assms(1)])
  then show ?thesis using assms(2) by (simp add: bus_inv_def sub_ok_def)
qed

lemma bus_delivery_witness:
  "\<exists>r. bus_step\<^sup>*\<^sup>* (bus_start 1) r \<and> od_get (eb_subs (br_bus r)) 0 = Some [Suc 0]
     \<and> br_seen r 0 = [0, Suc 0] \<and> subseq (br_got r 0 @ [Suc 0]) (br_seen r 0)"
proof -
  let ?r0 = "bus_start 1 :: nat bus_run"
  let ?r1 = "?r0\<lparr>br_bus := bus_register 0 (br_bus ?r0), br_seen := (br_seen ?r0)(0 := []), br_got := (br_got ?r0)(0 := [])\<rparr>"
  let ?r2 = "?r1\<lparr>br_bus := publish 0 (br_bus ?r1), br_seen := (\<lambda>i. br_seen ?r1 i @ [0])\<rparr>"
  let ?r3 = "?r2\<lparr>br_bus := publish (Suc 0) (br_bus ?r2), br_seen := (\<lambda>i. br_seen ?r2 i @ [Suc 0])\<rparr>"
  have "bus_step ?r0 ?r1" by (rule bus_step.subscribe) (simp add: bus_start_def)
  moreover have "bus_step ?r1 ?r2" by (rule bus_step.publish)
  moreover have "bus_step ?r2 ?r3" by (rule bus_step.publish)
  ultimately have "bus_step\<^sup>*\<^sup>* ?r0 ?r3" by (meson rtranclp.rtrancl_into_rtrancl rtranclp.rtrancl_refl)
  moreover have q: "od_get (eb_subs (br_bus ?r3)) 0 = Some [Suc 0]"
    by (simp add: bus_start_def bus_register_def publish_def publish_one_def queue_full_def)
  moreover have "br_seen ?r3 0 = [0, Suc 0]" by (simp add: bus_start_def)
  ultimately show ?thesis using bus_delivery [of 1 ?r3 0 "[Suc 0]"] by blast
qed

end
