(* ===== verification/Storage.thy ===== *)
theory Storage
  imports Prelude
begin

text \<open>
  \<open>src/tg_messenger/core/storage.py\<close>: the SQLite wrapper. The database file is the schema the
  consumers' statements build (an abstract \<open>'d\<close>, changed by the parameter \<open>exec\<close>: SQLite is
  not code of the program), the migration table, \<open>PRAGMA user_version\<close> and the \<open>kv\<close> table.
  The statement ids are a parameter \<open>mid\<close> (SHA-256). \<open>_run_locked\<close> is the reaction to the
  sequence of cancellations and the worker's outcome.
\<close>

section \<open>The database and its migrations\<close>

record 'd sqlite =
  sq_data :: 'd
  sq_applied :: "(string, string) odict"
  sq_version :: nat
  sq_kv :: "(string, string) odict"

record 'd storage =
  so_disk :: "'d sqlite"
  so_conn :: bool
  so_migrations :: "string list"

datatype storage_error = NotConnected | SqlError | Cancelled nat

definition register_migrations :: "string list \<Rightarrow> 'd storage \<Rightarrow> 'd storage" where
  "register_migrations statements s = s\<lparr>so_migrations := so_migrations s @ statements\<rparr>"

text \<open>The collection loop: unapplied statements, each id once, in registration order.\<close>

fun pending_loop :: "(string \<Rightarrow> string) \<Rightarrow> string set \<Rightarrow> string list \<Rightarrow> (string \<times> string) list" where
  "pending_loop mid seen [] = []"
| "pending_loop mid seen (statement # rest) =
     (if mid statement \<in> seen then pending_loop mid seen rest
      else (mid statement, statement) # pending_loop mid (insert (mid statement) seen) rest)"

text \<open>One pending migration: the statement, then its row; a duplicate id violates the key.\<close>

definition apply_one :: "(string \<Rightarrow> 'd \<Rightarrow> 'd option) \<Rightarrow> string \<times> string \<Rightarrow> 'd sqlite \<Rightarrow> 'd sqlite option" where
  "apply_one exec p db =
     (case exec (snd p) (sq_data db) of
        None \<Rightarrow> None
      | Some d \<Rightarrow> if fst p \<in> set (od_keys (sq_applied db)) then None
                  else Some (db\<lparr>sq_data := d, sq_applied := sq_applied db @ [p]\<rparr>))"

fun apply_batch :: "(string \<Rightarrow> 'd \<Rightarrow> 'd option) \<Rightarrow> (string \<times> string) list \<Rightarrow> 'd sqlite \<Rightarrow> 'd sqlite option" where
  "apply_batch exec [] db = Some db"
| "apply_batch exec (p # ps) db =
     (case apply_one exec p db of None \<Rightarrow> None | Some db' \<Rightarrow> apply_batch exec ps db')"

text \<open>\<open>_migrate_sync\<close>: the transaction commits as a whole or leaves the database as it was.\<close>

definition migrate :: "(string \<Rightarrow> string) \<Rightarrow> (string \<Rightarrow> 'd \<Rightarrow> 'd option) \<Rightarrow> string list \<Rightarrow> 'd sqlite
    \<Rightarrow> (storage_error, unit) result \<times> 'd sqlite" where
  "migrate mid exec statements db =
     (let applied = set (od_keys (sq_applied db)); pending = pending_loop mid applied statements
      in if pending = [] then (Inr (), db)
         else (case apply_batch exec pending db of
                 None \<Rightarrow> (Inl SqlError, db)
               | Some db' \<Rightarrow> (Inr (), db'\<lparr>sq_version := card (applied \<union> mid ` set statements)\<rparr>)))"

lemma pending_keys:
  "set (map fst (pending_loop mid seen ss)) = mid ` set ss - seen
   \<and> distinct (map fst (pending_loop mid seen ss))"
  by (induction mid seen ss rule: pending_loop.induct) auto

lemma pending_all_seen: "mid ` set ss \<subseteq> seen \<Longrightarrow> pending_loop mid seen ss = []"
  by (induction mid seen ss rule: pending_loop.induct) auto

lemma pending_subseq: "subseq (map snd (pending_loop mid seen ss)) ss"
  by (induction mid seen ss rule: pending_loop.induct) auto

lemma apply_batch_applied:
  "apply_batch exec ps db = Some db' \<Longrightarrow> sq_applied db' = sq_applied db @ ps
     \<and> sq_version db' = sq_version db \<and> sq_kv db' = sq_kv db"
proof (induction ps arbitrary: db)
  case (Cons p ps)
  obtain d1 where d1: "apply_one exec p db = Some d1" and r: "apply_batch exec ps d1 = Some db'"
    using Cons.prems by (auto split: option.splits)
  have "sq_applied d1 = sq_applied db @ [p] \<and> sq_version d1 = sq_version db \<and> sq_kv d1 = sq_kv db"
    using d1 by (auto simp: apply_one_def split: option.splits if_splits)
  then show ?case using Cons.IH [OF r] by simp
qed simp

text \<open>What the consumers' statements do to the data, when every one of them succeeds.\<close>

fun run_statements :: "(string \<Rightarrow> 'd \<Rightarrow> 'd option) \<Rightarrow> string list \<Rightarrow> 'd \<Rightarrow> 'd option" where
  "run_statements exec [] d = Some d"
| "run_statements exec (st # sts) d = (case exec st d of None \<Rightarrow> None | Some d' \<Rightarrow> run_statements exec sts d')"

lemma apply_batch_data:
  assumes "distinct (map fst ps)" and "set (map fst ps) \<inter> set (od_keys (sq_applied db)) = {}"
  shows "map_option sq_data (apply_batch exec ps db) = run_statements exec (map snd ps) (sq_data db)"
  using assms
proof (induction ps arbitrary: db)
  case (Cons p ps)
  show ?case
  proof (cases "exec (snd p) (sq_data db)")
    case (Some d)
    let ?db = "db\<lparr>sq_data := d, sq_applied := sq_applied db @ [p]\<rparr>"
    have "apply_one exec p db = Some ?db" using Cons.prems Some by (auto simp: apply_one_def)
    then show ?thesis using Cons.prems Some Cons.IH [of ?db] by auto
  qed (simp add: apply_one_def)
qed simp



text \<open>
  Reconnecting is idempotent: after a successful migration run a second one does nothing,
  and the statements of consumers registered later are exactly what a later run adds.
\<close>

theorem migrate_idempotent:
  assumes "od_wf (sq_applied db)" and "fst (migrate mid exec ss db) = Inr ()"
  shows "migrate mid exec ss (snd (migrate mid exec ss db)) = (Inr (), snd (migrate mid exec ss db))
    \<and> pending_loop mid (set (od_keys (sq_applied (snd (migrate mid exec ss db))))) (ss @ later)
      = pending_loop mid (set (od_keys (sq_applied db)) \<union> mid ` set ss) later"
proof -
  obtain db' where m: "migrate mid exec ss db = (Inr (), db')" using assms(2) by (cases "migrate mid exec ss db") auto
  have k: "set (od_keys (sq_applied db')) = set (od_keys (sq_applied db)) \<union> mid ` set ss"
  proof -
    let ?K = "set (od_keys (sq_applied db))"
    show ?thesis
    proof (cases "pending_loop mid ?K ss = []")
      case True
      then have "db' = db" using m by (simp add: migrate_def Let_def)
      moreover have "mid ` set ss \<subseteq> ?K" using pending_keys [of mid ?K ss] True by auto
      ultimately show ?thesis by auto
    next
      case False
      then obtain d where d: "apply_batch exec (pending_loop mid ?K ss) db = Some d"
        and "sq_applied db' = sq_applied d"
        using m by (auto simp: migrate_def Let_def split: option.splits)
      then show ?thesis using apply_batch_applied [OF d] pending_keys [of mid ?K ss] by auto
    qed
  qed
  have skip: "pending_loop mid K (xs @ ys) = pending_loop mid K ys" if "mid ` set xs \<subseteq> K" for K xs ys
    using that by (induction mid K xs rule: pending_loop.induct) auto
  have "pending_loop mid (set (od_keys (sq_applied db'))) ss = []"
    unfolding k by (rule pending_all_seen) simp
  then have "migrate mid exec ss db' = (Inr (), db')" by (simp add: migrate_def Let_def)
  moreover have "pending_loop mid (set (od_keys (sq_applied db'))) (ss @ later)
      = pending_loop mid (set (od_keys (sq_applied db)) \<union> mid ` set ss) later"
    unfolding k by (rule skip) simp
  ultimately show ?thesis by (simp add: m)
qed

lemma migrate_idempotent_witness:
  "let db = \<lparr>sq_data = [], sq_applied = [], sq_version = 0, sq_kv = []\<rparr>;
       exec = (\<lambda>st d. Some (d @ [st])); m = migrate id exec [''a'', ''b''] db
   in migrate id exec [''a'', ''b''] (snd m) = (Inr (), snd m) \<and> sq_data (snd m) = [''a'', ''b'']"
proof -
  let ?db = "\<lparr>sq_data = [], sq_applied = [], sq_version = 0, sq_kv = []\<rparr>"
  let ?e = "\<lambda>st d. Some (d @ [st])"
  have "fst (migrate id ?e [''a'', ''b''] ?db) = Inr ()" and d: "sq_data (snd (migrate id ?e [''a'', ''b''] ?db)) = [''a'', ''b'']"
    by (simp_all add: migrate_def Let_def apply_one_def)
  moreover have "od_wf (sq_applied ?db)" by simp
  ultimately show ?thesis using migrate_idempotent [of ?db id ?e "[''a'', ''b'']"] by (simp add: Let_def)
qed

section \<open>The deferred cancellation of \<open>_run_locked\<close>\<close>

text \<open>What the awaiting coroutine sees: a cancellation (with its identity) or the worker's end.\<close>

datatype 'r worker_event = CancelReq nat | WorkerOk 'r | WorkerRaise storage_error

text \<open>None: still waiting (the lock stays held); the events after the worker's end are unread.\<close>

fun run_locked :: "nat option \<Rightarrow> 'r worker_event list \<Rightarrow> (storage_error, 'r) result option" where
  "run_locked cancelled [] = None"
| "run_locked cancelled (CancelReq c # evs) = run_locked (Some c) evs"
| "run_locked cancelled (WorkerOk r # evs) =
     Some (case cancelled of None \<Rightarrow> Inr r | Some c \<Rightarrow> Inl (Cancelled c))"
| "run_locked cancelled (WorkerRaise e # evs) =
     Some (case cancelled of None \<Rightarrow> Inl e | Some c \<Rightarrow> Inl (Cancelled c))"

definition worker_ended :: "'r worker_event list \<Rightarrow> bool" where
  "worker_ended evs \<longleftrightarrow> list_ex (\<lambda>e. case e of CancelReq _ \<Rightarrow> False | _ \<Rightarrow> True) evs"

lemma run_locked_cancels:
  "run_locked c (map CancelReq cs @ evs) = run_locked (if cs = [] then c else Some (last cs)) evs"
  by (induction cs arbitrary: c) auto

text \<open>
  The coroutine, and with it the connection lock, is released only when the worker has
  ended, never at a cancellation; the cancellation is then delivered (the last one), whatever
  the worker returned or raised; with no cancellation the worker's outcome is the result.
\<close>

theorem run_locked_defers:
  "(run_locked None evs \<noteq> None \<longleftrightarrow> worker_ended evs)
   \<and> run_locked None (map CancelReq cs @ WorkerOk r # rest) = Some (if cs = [] then Inr r else Inl (Cancelled (last cs)))
   \<and> run_locked None (map CancelReq cs @ WorkerRaise e # rest) = Some (if cs = [] then Inl e else Inl (Cancelled (last cs)))"
proof -
  have "run_locked c evs \<noteq> None \<longleftrightarrow> worker_ended evs" for c
    by (induction c evs rule: run_locked.induct) (auto simp: worker_ended_def)
  then show ?thesis by (simp add: run_locked_cancels)
qed

section \<open>Connection lifecycle\<close>

definition storage_close :: "'d storage \<Rightarrow> 'd storage" where
  "storage_close s = s\<lparr>so_conn := False\<rparr>"

text \<open>\<open>connect\<close>: open and migrate on the worker; any failure or cancellation closes again.
  The events are those of the worker's await; \<open>ok_open\<close> says whether SQLite opened the file.\<close>

definition storage_connect :: "(string \<Rightarrow> string) \<Rightarrow> (string \<Rightarrow> 'd \<Rightarrow> 'd option) \<Rightarrow> bool \<Rightarrow> nat list
    \<Rightarrow> 'd storage \<Rightarrow> (storage_error, unit) result \<times> 'd storage" where
  "storage_connect mid exec ok_open cancels s =
     (if so_conn s then (Inr (), s)
      else (let (r, s1) = (if \<not> ok_open then (Inl SqlError, s)
                  else (case migrate mid exec (so_migrations s) (so_disk s) of
                          (r, db) \<Rightarrow> (r, s\<lparr>so_disk := db, so_conn := True\<rparr>)));
                ev = (case r of Inr x \<Rightarrow> WorkerOk x | Inl e \<Rightarrow> WorkerRaise e)
            in case run_locked None (map CancelReq cancels @ [ev]) of
                 Some (Inr _) \<Rightarrow> (Inr (), s1)
               | Some (Inl e) \<Rightarrow> (Inl e, storage_close s1)
               | None \<Rightarrow> (Inl SqlError, storage_close s1)))"

definition with_conn :: "('d sqlite \<Rightarrow> (storage_error, 'r) result \<times> 'd sqlite) \<Rightarrow> 'd storage
    \<Rightarrow> (storage_error, 'r) result \<times> 'd storage" where
  "with_conn f s = (if so_conn s then (case f (so_disk s) of (r, db) \<Rightarrow> (r, s\<lparr>so_disk := db\<rparr>))
                    else (Inl NotConnected, s))"

definition set_value :: "('v \<Rightarrow> string) \<Rightarrow> string \<Rightarrow> 'v \<Rightarrow> 'd storage \<Rightarrow> (storage_error, unit) result \<times> 'd storage" where
  "set_value dumps key v = with_conn (\<lambda>db. (Inr (), db\<lparr>sq_kv := od_set key (dumps v) (sq_kv db)\<rparr>))"

definition get_value :: "(string \<Rightarrow> 'v) \<Rightarrow> string \<Rightarrow> 'd storage \<Rightarrow> (storage_error, 'v option) result \<times> 'd storage" where
  "get_value loads key = with_conn (\<lambda>db. (Inr (map_option loads (od_get (sq_kv db) key)), db))"

text \<open>
  \<open>connect\<close> succeeds exactly when the storage is connected afterwards; when it raises
  (bad file, failing migration, cancellation) the connection is closed again, and only a
  cancellation can leave committed migrations behind.
\<close>

theorem connect_outcome:
  "(case storage_connect mid exec ok_open cs s of (r, s') \<Rightarrow>
     (ok r \<longleftrightarrow> so_conn s') \<and> so_migrations s' = so_migrations s
     \<and> (so_disk s' = so_disk s \<or> so_disk s' = snd (migrate mid exec (so_migrations s) (so_disk s)))
     \<and> (r = Inl SqlError \<longrightarrow> so_disk s' = so_disk s))"
proof (cases "so_conn s")
  case True
  then show ?thesis by (simp add: storage_connect_def)
next
  case nc: False
  show ?thesis
  proof (cases "ok_open")
    case False
    then show ?thesis using nc
      by (cases "cs = []") (simp_all add: storage_connect_def run_locked_cancels storage_close_def)
  next
    case True
    obtain r db where m: "migrate mid exec (so_migrations s) (so_disk s) = (r, db)" by fastforce
    have e: "r = Inl e \<Longrightarrow> e = SqlError \<and> db = so_disk s" for e
      using m by (auto simp: migrate_def Let_def split: if_splits option.splits)
    show ?thesis
    proof (cases r)
      case (Inl e)
      then have "e = SqlError \<and> db = so_disk s" using e by simp
      then show ?thesis using nc True Inl
        by (cases "cs = []") (simp_all add: storage_connect_def m run_locked_cancels storage_close_def)
    next
      case (Inr x)
      then show ?thesis using nc True
        by (cases "cs = []") (simp_all add: storage_connect_def m run_locked_cancels storage_close_def)
    qed
  qed
qed

definition broken_storage :: "nat storage" where
  "broken_storage = \<lparr>so_disk = \<lparr>sq_data = 0, sq_applied = [], sq_version = 0, sq_kv = []\<rparr>, so_conn = False, so_migrations = [''x'']\<rparr>"

theorem connect_outcome_witness:
  "\<not> so_conn (snd (storage_connect id (\<lambda>_ _. None) True [] broken_storage))
   \<and> so_disk (snd (storage_connect id (\<lambda>_ _. None) True [] broken_storage)) = so_disk broken_storage"
proof -
  have "fst (storage_connect id (\<lambda>_ _. None) True [] broken_storage) = Inl SqlError"
    by (simp add: storage_connect_def broken_storage_def migrate_def Let_def apply_one_def)
  then show ?thesis
    using connect_outcome [where mid = id and exec = "\<lambda>_ _. None" and ok_open = True and cs = "[]" and s = broken_storage] by (auto split: prod.splits)
qed

text \<open>The key value contract the settings modules rely on.\<close>

locale kv_store =
  fixes put :: "string \<Rightarrow> 'v \<Rightarrow> 's \<Rightarrow> 's" and get :: "string \<Rightarrow> 's \<Rightarrow> 'v option" and ready :: "'s \<Rightarrow> bool"
  assumes get_put: "ready s \<Longrightarrow> get j (put k v s) = (if j = k then Some v else get j s)"
    and put_ready: "ready (put k v s) = ready s"
begin

definition put_all :: "(string \<times> 'v) list \<Rightarrow> 's \<Rightarrow> 's" where
  "put_all kvs s = fold (\<lambda>(k, v). put k v) kvs s"

lemma put_all_ready: "ready (put_all kvs s) = ready s"
  unfolding put_all_def
proof (induction kvs arbitrary: s)
  case (Cons p kvs)
  obtain j w where p: "p = (j, w)" by (cases p)
  show ?case using Cons.IH [of "put j w s"] by (simp add: p put_ready)
qed simp

lemma get_put_all: "ready s \<Longrightarrow> get k (put_all kvs s) = (case map_of (rev kvs) k of None \<Rightarrow> get k s | Some v \<Rightarrow> Some v)"
  unfolding put_all_def
proof (induction kvs arbitrary: s)
  case (Cons p kvs)
  obtain j w where p: "p = (j, w)" by (cases p)
  have "get k (fold (\<lambda>(k, v). put k v) kvs (put j w s)) =
      (case map_of (rev kvs) k of None \<Rightarrow> get k (put j w s) | Some v \<Rightarrow> Some v)"
    using Cons.prems by (intro Cons.IH) (simp add: put_ready)
  then show ?case using Cons.prems by (auto simp: p get_put map_add_def split: option.splits)
qed simp

end

definition kv_put :: "string \<Rightarrow> string \<Rightarrow> 'd storage \<Rightarrow> 'd storage" where
  "kv_put k v s = snd (set_value id k v s)"

definition kv_get :: "string \<Rightarrow> 'd storage \<Rightarrow> string option" where
  "kv_get k s = (case fst (get_value id k s) of Inr v \<Rightarrow> v | Inl _ \<Rightarrow> None)"

interpretation kv: kv_store kv_put kv_get so_conn
  by unfold_locales
    (auto simp: kv_put_def kv_get_def set_value_def get_value_def with_conn_def od_simps split: option.splits)

text \<open>
  Key value round trip: after any sequence of \<open>set_value\<close> calls on a connected storage,
  \<open>get_value\<close> returns the last value written under the key, decoded, or what was there.
\<close>

theorem kv_last_write_wins:
  assumes "so_conn s" and "\<forall>v. loads (dumps v) = v"
  shows "fst (get_value loads k (fold (\<lambda>(k, v) s. snd (set_value dumps k v s)) kvs s)) =
    Inr (case map_of (rev kvs) k of None \<Rightarrow> map_option loads (od_get (sq_kv (so_disk s)) k) | Some v \<Rightarrow> Some v)"
proof -
  let ?kvs = "map (\<lambda>(k, v). (k, dumps v)) kvs"
  have f: "fold (\<lambda>(k, v) s. snd (set_value dumps k v s)) kvs t = kv.put_all ?kvs t" for t
    by (induction kvs arbitrary: t) (auto simp: kv.put_all_def kv_put_def set_value_def)
  have m: "map_of (rev ?kvs) k = map_option dumps (map_of (rev kvs) k)"
    by (induction kvs) (auto simp: map_add_def split: option.splits)
  have c: "so_conn (kv.put_all ?kvs s)" using assms(1) by (simp add: kv.put_all_ready)
  have "fst (get_value loads k (kv.put_all ?kvs s)) = Inr (map_option loads (kv_get k (kv.put_all ?kvs s)))"
    using c by (simp add: get_value_def kv_get_def with_conn_def option.map_id)
  moreover have "kv_get k s = od_get (sq_kv (so_disk s)) k"
    using assms(1) by (simp add: kv_get_def get_value_def with_conn_def option.map_id)
  moreover have "kv_get k (kv.put_all ?kvs s) =
      (case map_of (rev kvs) k of None \<Rightarrow> kv_get k s | Some v \<Rightarrow> Some (dumps v))"
    using kv.get_put_all [OF assms(1), of k ?kvs] by (simp add: m split: option.split)
  ultimately show ?thesis using assms(2) f [of s] by (simp split: option.split)
qed

lemma kv_last_write_wins_witness:
  "fst (get_value id ''tone'' (snd (set_value id ''tone'' ''warm'' (snd (set_value id ''tone'' ''dry''
     \<lparr>so_disk = \<lparr>sq_data = (), sq_applied = [], sq_version = 0, sq_kv = []\<rparr>, so_conn = True, so_migrations = []\<rparr>)))))
   = Inr (Some ''warm'')"
  using kv_last_write_wins [of "\<lparr>so_disk = \<lparr>sq_data = (), sq_applied = [], sq_version = 0, sq_kv = []\<rparr>,
     so_conn = True, so_migrations = []\<rparr>" id id "''tone''" "[(''tone'', ''dry''), (''tone'', ''warm'')]"]
  by simp

end
