(* ===== verification/Message_Store.thy ===== *)
theory Message_Store
  imports Models "HOL-Library.Multiset"
begin

text \<open>
  \<open>src/tg_messenger/core/message_store.py\<close>: the persistent message cache. The two tables are
  ordered dictionaries keyed by their primary keys and each SQL statement is the operation it
  performs on them (columns that hold JSON or ISO text hold the value they encode). The
  Telegram client's two history calls are parameters; \<open>None\<close> is a call that raised. A
  \<open>history\<close> call reads the clock as one instant.
\<close>

section \<open>State\<close>

record msg_row =
  rw_sender_id :: int
  rw_out :: bool
  rw_date :: instant
  rw_text :: "utext option"
  rw_media :: "media_ref option"
  rw_reply_to_id :: "int option"
  rw_is_forward :: bool
  rw_translated_text :: "utext option"
  rw_translated_lang :: "string option"
  rw_username :: "string option"
  rw_first_name :: "string option"
  rw_last_name :: "string option"

record msg_store =
  mt_rows :: "(int \<times> int, msg_row) odict"
  mt_sync :: "(int, int \<times> int) odict"
  mt_ttl :: instant
  mt_locks :: "(int, bool) odict"
  mt_last :: "(int, instant) odict"

type_synonym since_call = "int \<Rightarrow> int \<Rightarrow> int \<Rightarrow> message list option"

definition peer_state_max :: nat where "peer_state_max = 1000"

definition channel_id_threshold :: int where "channel_id_threshold = - 1000000000000"

definition is_channel_or_megagroup_id :: "int \<Rightarrow> bool" where
  "is_channel_or_megagroup_id peer \<longleftrightarrow> peer \<le> channel_id_threshold"

section \<open>Rows\<close>

definition coalesce :: "'a option \<Rightarrow> 'a option \<Rightarrow> 'a option" where
  "coalesce a b = (case a of None \<Rightarrow> b | Some x \<Rightarrow> Some x)"

text \<open>The \<open>VALUES\<close> of the insert.\<close>

definition new_row :: "message \<Rightarrow> utext option \<Rightarrow> string option \<Rightarrow> msg_row" where
  "new_row m translated lang =
     \<lparr>rw_sender_id = ms_sender_id m, rw_out = ms_out m, rw_date = ms_date m, rw_text = ms_text m,
      rw_media = ms_media m, rw_reply_to_id = ms_reply_to_id m, rw_is_forward = ms_is_forward m,
      rw_translated_text = translated, rw_translated_lang = lang,
      rw_username = (case ms_sender m of None \<Rightarrow> None | Some s \<Rightarrow> us_username s),
      rw_first_name = (case ms_sender m of None \<Rightarrow> None | Some s \<Rightarrow> us_first_name s),
      rw_last_name = (case ms_sender m of None \<Rightarrow> None | Some s \<Rightarrow> us_last_name s)\<rparr>"

text \<open>The author columns of the \<open>ON CONFLICT\<close> clause keep a resolved value.\<close>

definition merge_author :: "msg_row \<Rightarrow> msg_row \<Rightarrow> msg_row" where
  "merge_author old new = new\<lparr>rw_username := coalesce (rw_username new) (rw_username old),
     rw_first_name := coalesce (rw_first_name new) (rw_first_name old),
     rw_last_name := coalesce (rw_last_name new) (rw_last_name old)\<rparr>"

definition merge_row :: "bool \<Rightarrow> msg_row \<Rightarrow> msg_row \<Rightarrow> msg_row" where
  "merge_row preserve old new =
     (let r = merge_author old new
      in if preserve \<and> rw_text old = rw_text new
         then r\<lparr>rw_translated_text := coalesce (rw_translated_text old) (rw_translated_text new),
                rw_translated_lang := coalesce (rw_translated_lang old) (rw_translated_lang new)\<rparr>
         else r)"

definition upsert_row :: "bool \<Rightarrow> int \<times> int \<Rightarrow> msg_row \<Rightarrow> (int \<times> int, msg_row) odict \<Rightarrow> (int \<times> int, msg_row) odict" where
  "upsert_row preserve key new rows =
     od_set key (case od_get rows key of None \<Rightarrow> new | Some old \<Rightarrow> merge_row preserve old new) rows"

definition upsert_message :: "utext option \<Rightarrow> string option \<Rightarrow> bool \<Rightarrow> message \<Rightarrow> msg_store \<Rightarrow> msg_store" where
  "upsert_message translated_text translated_lang preserve m st =
     (let text = (case translated_text of Some t \<Rightarrow> Some t | None \<Rightarrow> ms_translated_text m)
      in st\<lparr>mt_rows := upsert_row preserve (ms_dialog_id m, ms_id m) (new_row m text translated_lang) (mt_rows st)\<rparr>)"

abbreviation upsert_plain :: "message \<Rightarrow> msg_store \<Rightarrow> msg_store" where
  "upsert_plain \<equiv> upsert_message None None True"

definition row_to_message :: "(int \<times> int) \<times> msg_row \<Rightarrow> message" where
  "row_to_message p = (let (d, i) = fst p; r = snd p in
     \<lparr>ms_id = i, ms_dialog_id = d, ms_sender_id = rw_sender_id r, ms_out = rw_out r, ms_date = rw_date r,
      ms_text = rw_text r, ms_media = rw_media r, ms_reply_to_id = rw_reply_to_id r,
      ms_is_forward = rw_is_forward r, ms_translated_text = rw_translated_text r,
      ms_sender = (if rw_username r = None \<and> rw_first_name r = None \<and> rw_last_name r = None then None
        else Some \<lparr>us_id = rw_sender_id r, us_first_name = rw_first_name r,
          us_last_name = rw_last_name r, us_username = rw_username r\<rparr>)\<rparr>)"

section \<open>Statements on the tables\<close>

definition sync_row :: "int \<Rightarrow> msg_store \<Rightarrow> (int \<times> int) option" where
  "sync_row peer st = od_get (mt_sync st) peer"

definition set_sync_row :: "int \<Rightarrow> int \<Rightarrow> int \<Rightarrow> msg_store \<Rightarrow> msg_store" where
  "set_sync_row peer low high st = st\<lparr>mt_sync := od_set peer (low, high) (mt_sync st)\<rparr>"

text \<open>\<open>WHERE dialog_id = ? AND id >= lo AND id <= hi\<close> and its half-open variant.\<close>

definition rows_where :: "int \<Rightarrow> (int \<Rightarrow> bool) \<Rightarrow> msg_store \<Rightarrow> ((int \<times> int) \<times> msg_row) list" where
  "rows_where peer p st = filter (\<lambda>e. fst (fst e) = peer \<and> p (snd (fst e))) (mt_rows st)"

definition window_count :: "int \<Rightarrow> int \<Rightarrow> int \<Rightarrow> msg_store \<Rightarrow> int" where
  "window_count peer low high st = int (length (rows_where peer (\<lambda>i. low \<le> i \<and> i \<le> high) st))"

definition limit_rows :: "int \<Rightarrow> 'a list \<Rightarrow> 'a list" where
  "limit_rows n xs = (if n < 0 then xs else take (nat n) xs)"

text \<open>\<open>ORDER BY id DESC LIMIT n\<close>, reversed and decoded.\<close>

definition load_rows :: "int \<Rightarrow> (int \<Rightarrow> bool) \<Rightarrow> int \<Rightarrow> msg_store \<Rightarrow> message list" where
  "load_rows peer p limit st =
     map row_to_message (rev (limit_rows limit (rev (sort_key (\<lambda>e. snd (fst e)) (rows_where peer p st)))))"

definition load_window :: "int \<Rightarrow> int \<Rightarrow> msg_store \<Rightarrow> message list" where
  "load_window peer limit st =
     (case sync_row peer st of
        None \<Rightarrow> []
      | Some (low, high) \<Rightarrow> load_rows peer (\<lambda>i. low \<le> i \<and> i \<le> high) limit st)"

definition load_before :: "int \<Rightarrow> int \<Rightarrow> int \<Rightarrow> int \<Rightarrow> msg_store \<Rightarrow> message list" where
  "load_before peer limit offset_id low st = load_rows peer (\<lambda>i. low \<le> i \<and> i < offset_id) limit st"

definition delete_rows :: "(int \<times> int \<Rightarrow> bool) \<Rightarrow> msg_store \<Rightarrow> msg_store" where
  "delete_rows p st = st\<lparr>mt_rows := filter (\<lambda>e. \<not> p (fst e)) (mt_rows st)\<rparr>"

definition prune_window :: "int \<Rightarrow> int \<Rightarrow> int \<Rightarrow> int list \<Rightarrow> msg_store \<Rightarrow> msg_store" where
  "prune_window peer low high ids =
     delete_rows (\<lambda>(d, i). d = peer \<and> low \<le> i \<and> i \<le> high \<and> i \<notin> set ids)"

definition replace_window :: "int \<Rightarrow> message list \<Rightarrow> int \<Rightarrow> msg_store \<Rightarrow> msg_store" where
  "replace_window peer fetched limit st =
     (if fetched = [] then set_sync_row peer 0 0 (delete_rows (\<lambda>k. fst k = peer) st)
      else (let st1 = fold upsert_plain fetched st; ids = map ms_id fetched;
                low = (if int (length fetched) < limit then 0 else Min (set ids)); high = Max (set ids)
            in set_sync_row peer low high (prune_window peer low high ids st1)))"

section \<open>Peer locks and sync stamps\<close>

function evict_locks :: "nat \<Rightarrow> nat \<Rightarrow> (int, bool) odict \<Rightarrow> (int, instant) odict
    \<Rightarrow> (int, bool) odict \<times> (int, instant) odict" where
  "evict_locks cap checked locks lst =
     (case locks of
        [] \<Rightarrow> (locks, lst)
      | (old_peer, locked) # rest \<Rightarrow>
          if cap < length locks \<and> checked < length locks
          then (if locked then evict_locks cap (Suc checked) (rest @ [(old_peer, locked)]) lst
                else evict_locks cap 0 rest (od_pop old_peer lst))
          else (locks, lst))"
  by pat_completeness auto
termination
  by (relation "measures [\<lambda>(cap, checked, locks, lst). length locks,
      \<lambda>(cap, checked, locks, lst). length locks - checked]") auto

declare evict_locks.simps [simp del]

function evict_last :: "instant \<Rightarrow> nat \<Rightarrow> (int, bool) odict \<Rightarrow> (int, instant) odict
    \<Rightarrow> (int, bool) odict \<times> (int, instant) odict" where
  "evict_last now cap locks lst =
     (case lst of
        [] \<Rightarrow> (locks, lst)
      | (old_peer, t) # rest \<Rightarrow>
          if cap < length lst
          then (case od_get locks old_peer of
                  None \<Rightarrow> evict_last now cap locks rest
                | Some True \<Rightarrow> (locks, od_touch old_peer now rest)
                | Some False \<Rightarrow> evict_last now cap (od_pop old_peer locks) rest)
          else (locks, lst))"
  by pat_completeness auto
termination
  by (relation "measure (\<lambda>(now, cap, locks, lst). length lst)") auto

declare evict_last.simps [simp del]

definition evict_idle_peer_state :: "instant \<Rightarrow> msg_store \<Rightarrow> msg_store" where
  "evict_idle_peer_state now st =
     (case evict_locks peer_state_max 0 (mt_locks st) (mt_last st) of
        (locks, lst) \<Rightarrow> (case evict_last now peer_state_max locks lst of
           (locks', lst') \<Rightarrow> st\<lparr>mt_locks := locks', mt_last := lst'\<rparr>))"

definition peer_lock :: "instant \<Rightarrow> int \<Rightarrow> msg_store \<Rightarrow> msg_store" where
  "peer_lock now peer st =
     (let locks = (case od_get (mt_locks st) peer of None \<Rightarrow> od_set peer False (mt_locks st) | Some _ \<Rightarrow> mt_locks st)
      in evict_idle_peer_state now (st\<lparr>mt_locks := od_move_to_end peer locks\<rparr>))"

definition remember_sync :: "instant \<Rightarrow> int \<Rightarrow> msg_store \<Rightarrow> msg_store" where
  "remember_sync now peer st = evict_idle_peer_state now (st\<lparr>mt_last := od_touch peer now (mt_last st)\<rparr>)"

definition set_locked :: "bool \<Rightarrow> int \<Rightarrow> msg_store \<Rightarrow> msg_store" where
  "set_locked b peer st =
     (case od_get (mt_locks st) peer of None \<Rightarrow> st | Some _ \<Rightarrow> st\<lparr>mt_locks := od_set peer b (mt_locks st)\<rparr>)"

section \<open>Synchronisation\<close>

definition sync_full_window :: "since_call \<Rightarrow> instant \<Rightarrow> int \<Rightarrow> int \<Rightarrow> msg_store \<Rightarrow> msg_store option" where
  "sync_full_window history_since now peer limit st =
     (case history_since peer 0 limit of
        None \<Rightarrow> None
      | Some fetched \<Rightarrow> Some (remember_sync now peer (replace_window peer fetched limit st)))"

definition sync_history :: "since_call \<Rightarrow> instant \<Rightarrow> int \<Rightarrow> int \<Rightarrow> (int \<times> int) option \<Rightarrow> msg_store \<Rightarrow> msg_store option" where
  "sync_history history_since now peer limit row st =
     (let high_id = (case row of None \<Rightarrow> 0 | Some (_, high) \<Rightarrow> high)
      in case history_since peer high_id limit of
           None \<Rightarrow> None
         | Some fetched \<Rightarrow>
             if fetched \<noteq> [] then
               (if row = None \<or> limit \<le> int (length fetched)
                then Some (remember_sync now peer (replace_window peer fetched limit st))
                else sync_full_window history_since now peer limit st)
             else if row = None
             then Some (remember_sync now peer (replace_window peer fetched limit st))
             else sync_full_window history_since now peer limit st)"

text \<open>The locked part of \<open>history\<close>; \<open>False\<close> is an exception, with what was written before it.\<close>

definition synced :: "msg_store \<Rightarrow> msg_store option \<Rightarrow> bool \<times> msg_store" where
  "synced st r = (case r of None \<Rightarrow> (False, st) | Some st' \<Rightarrow> (True, st'))"

definition history_locked :: "since_call \<Rightarrow> instant \<Rightarrow> int \<Rightarrow> int \<Rightarrow> msg_store \<Rightarrow> bool \<times> msg_store" where
  "history_locked history_since now peer limit st =
     (let refill = (case sync_row peer st of
                      None \<Rightarrow> (True, st)
                    | Some (low, high) \<Rightarrow>
                        if 0 < low \<and> window_count peer low high st < limit
                        then synced st (sync_full_window history_since now peer limit st) else (True, st))
      in if \<not> fst refill then refill
         else (let st1 = snd refill; row = sync_row peer st1
               in case (row, od_get (mt_last st1) peer) of
                    (Some _, Some stamp) \<Rightarrow>
                      if mt_ttl st1 \<le> now - stamp then synced st1 (sync_history history_since now peer limit row st1)
                      else (True, st1)
                  | _ \<Rightarrow> synced st1 (sync_history history_since now peer limit row st1)))"

definition history_before :: "since_call \<Rightarrow> int \<Rightarrow> int \<Rightarrow> int \<Rightarrow> msg_store \<Rightarrow> (message list \<times> msg_store) option" where
  "history_before client_history peer limit offset_id st =
     (let (low, high, in_window) = (case sync_row peer st of None \<Rightarrow> (0, 0, False)
             | Some (low, high) \<Rightarrow> (low, high, low \<le> offset_id \<and> offset_id \<le> high));
          cached = load_before peer limit offset_id low st
      in if in_window \<and> (low = 0 \<or> limit \<le> int (length cached)) then Some (cached, st)
         else (case client_history peer limit offset_id of
                 None \<Rightarrow> None
               | Some fetched \<Rightarrow>
                   (let st1 = fold upsert_plain fetched st;
                        new_low = (if int (length fetched) < limit then 0 else Min (set (map ms_id fetched)))
                    in Some (fetched, if in_window \<and> new_low < low then set_sync_row peer new_low high st1 else st1))))"

text \<open>The lock is held around the synchronisation and released on every exit; the window is
  loaded after it.\<close>

definition store_history :: "since_call \<Rightarrow> since_call \<Rightarrow> instant \<Rightarrow> int \<Rightarrow> int \<Rightarrow> int \<Rightarrow> msg_store
    \<Rightarrow> message list option \<times> msg_store" where
  "store_history history_since client_history now peer limit offset_id st =
     (let st1 = set_locked True peer (peer_lock now peer st)
      in if 0 < offset_id
         then (case history_before client_history peer limit offset_id st1 of
                 None \<Rightarrow> (None, set_locked False peer st1)
               | Some (ms, st2) \<Rightarrow> (Some ms, set_locked False peer st2))
         else (case history_locked history_since now peer limit st1 of
                 (done, st2) \<Rightarrow> (let st3 = set_locked False peer st2
                   in (if done then Some (load_window peer limit st3) else None, st3))))"

section \<open>Live events and translations\<close>

definition ingest :: "instant \<Rightarrow> message \<Rightarrow> msg_store \<Rightarrow> msg_store" where
  "ingest now m st = upsert_plain m (peer_lock now (ms_dialog_id m) st)"

definition apply_deletion :: "messages_deleted_event \<Rightarrow> msg_store \<Rightarrow> msg_store" where
  "apply_deletion ev st =
     (let ids = de_message_ids ev
      in if ids = [] then st
         else (case de_chat_id ev of
                 Some chat \<Rightarrow> delete_rows (\<lambda>(d, i). d = chat \<and> i \<in> set ids) st
               | None \<Rightarrow>
                   (let hits = filter (\<lambda>k. snd k \<in> set ids) (od_keys (mt_rows st))
                    in fold (\<lambda>k s. if is_channel_or_megagroup_id (fst k) then s else delete_rows (\<lambda>j. j = k) s) hits st)))"

definition record_outgoing :: "instant \<Rightarrow> int \<Rightarrow> message \<Rightarrow> utext \<Rightarrow> string \<Rightarrow> msg_store \<Rightarrow> msg_store" where
  "record_outgoing now dialog_id m source_text source_lang st =
     upsert_message (Some source_text) (Some source_lang) False (m\<lparr>ms_dialog_id := dialog_id\<rparr>)
       (peer_lock now dialog_id st)"

definition upsert_message_for_translation :: "message \<Rightarrow> msg_store \<Rightarrow> msg_store" where
  "upsert_message_for_translation m st =
     (let key = (ms_dialog_id m, ms_id m); new = new_row m None None
      in st\<lparr>mt_rows := od_set key
           (case od_get (mt_rows st) key of
              None \<Rightarrow> new
            | Some old \<Rightarrow> (merge_author old new)
                \<lparr>rw_translated_text := (if rw_text old = rw_text new then rw_translated_text old else None),
                 rw_translated_lang := (if rw_text old = rw_text new then rw_translated_lang old else None)\<rparr>)
           (mt_rows st)\<rparr>)"

definition set_message_translation :: "int \<Rightarrow> int \<Rightarrow> string \<Rightarrow> utext option \<Rightarrow> msg_store \<Rightarrow> msg_store" where
  "set_message_translation dialog_id message_id lang t st =
     (case od_get (mt_rows st) (dialog_id, message_id) of
        None \<Rightarrow> st
      | Some r \<Rightarrow> st\<lparr>mt_rows := od_set (dialog_id, message_id)
          (r\<lparr>rw_translated_text := t, rw_translated_lang := Some lang\<rparr>) (mt_rows st)\<rparr>)"

definition clear_all_translations :: "msg_store \<Rightarrow> msg_store" where
  "clear_all_translations st =
     st\<lparr>mt_rows := map (\<lambda>(k, r). (k, r\<lparr>rw_translated_text := None, rw_translated_lang := None\<rparr>)) (mt_rows st)\<rparr>"

definition get_message_translation :: "int \<Rightarrow> int \<Rightarrow> string \<Rightarrow> utext option \<Rightarrow> msg_store
    \<Rightarrow> (utext option \<times> string) option" where
  "get_message_translation dialog_id message_id lang source_text st =
     (case od_get (mt_rows st) (dialog_id, message_id) of
        None \<Rightarrow> None
      | Some r \<Rightarrow>
          if rw_translated_lang r \<noteq> Some lang \<or> (source_text \<noteq> None \<and> rw_text r \<noteq> source_text) then None
          else Some (rw_translated_text r, lang))"


section \<open>Peer state never touches the tables, and a held lock survives\<close>

named_theorems store_view "effect of the store operations on its tables"

lemma idle_view [store_view]:
  "mt_rows (evict_idle_peer_state now st) = mt_rows st"
  "mt_sync (evict_idle_peer_state now st) = mt_sync st"
  "mt_ttl (evict_idle_peer_state now st) = mt_ttl st"
  by (simp_all add: evict_idle_peer_state_def split: prod.splits)

lemma peer_view [store_view]:
  "mt_rows (peer_lock now p st) = mt_rows st"
  "mt_sync (peer_lock now p st) = mt_sync st"
  "mt_rows (remember_sync now p st) = mt_rows st"
  "mt_sync (remember_sync now p st) = mt_sync st"
  "mt_rows (set_locked b p st) = mt_rows st"
  "mt_sync (set_locked b p st) = mt_sync st"
  "mt_ttl (peer_lock now p st) = mt_ttl st"
  "mt_ttl (remember_sync now p st) = mt_ttl st"
  by (simp_all add: peer_lock_def remember_sync_def set_locked_def Let_def idle_view split: option.split)

lemma evict_locks_held:
  "od_wf locks \<Longrightarrow> od_get locks p = Some True \<Longrightarrow>
    od_wf (fst (evict_locks cap n locks lst)) \<and> od_get (fst (evict_locks cap n locks lst)) p = Some True"
proof (induction cap n locks lst rule: evict_locks.induct)
  case (1 cap n locks lst)
  obtain q b rest where l: "locks = (q, b) # rest" using "1.prems"(2) by (cases locks) auto
  note unf = evict_locks.simps [of cap n "(q, b) # rest" lst, simplified]
  have wf: "od_wf rest" "q \<notin> fst ` set rest" "od_wf (rest @ [(q, b)])"
    using "1.prems"(1) by (auto simp: l od_wf_def)
  have none: "od_get rest q = None" using wf(2) by (simp add: map_of_eq_None_iff)
  show ?case
  proof (cases "cap < length locks \<and> n < length locks")
    case False
    then show ?thesis using "1.prems" by (auto simp: l unf)
  next
    case True
    show ?thesis
    proof (cases b)
      case held: True
      have "od_get (rest @ [(q, b)]) p = Some True"
        using "1.prems"(2) none by (auto simp: l held map_add_def split: option.splits if_splits)
      then show ?thesis using "1.IH"(1) [OF l refl True held wf(3)] True held
        by (simp add: l evict_locks.simps [of cap n "(q, True) # rest" lst])
    next
      case idle: False
      have "od_get rest p = Some True" using "1.prems"(2) idle by (auto simp: l split: if_splits)
      then show ?thesis using "1.IH"(2) [OF l refl True idle wf(1)] True idle
        by (simp add: l evict_locks.simps [of cap n "(q, False) # rest" lst])
    qed
  qed
qed

lemma evict_last_held:
  "od_wf locks \<Longrightarrow> od_get locks p = Some True \<Longrightarrow> od_get (fst (evict_last now cap locks lst)) p = Some True"
proof (induction now cap locks lst rule: evict_last.induct)
  case (1 now cap locks lst)
  show ?case
  proof (cases lst)
    case Nil
    then show ?thesis using "1.prems" by (simp add: evict_last.simps)
  next
    case (Cons e rest)
    obtain q t where e: "e = (q, t)" by (cases e)
    note unf = evict_last.simps [of now cap locks "(q, t) # rest", simplified]
    show ?thesis
    proof (cases "cap < length lst")
      case False
      then show ?thesis using "1.prems" by (simp add: Cons e unf)
    next
      case True
      show ?thesis
      proof (cases "od_get locks q")
        case None
        then show ?thesis using "1.IH"(1) [OF Cons e [symmetric] True None] "1.prems" True
          by (simp add: Cons e unf)
      next
        case (Some b)
        have "\<not> b \<Longrightarrow> p \<noteq> q" using "1.prems"(2) Some by auto
        then show ?thesis using "1.IH"(2) [OF Cons e [symmetric] True Some] "1.prems" True Some
          by (cases b) (simp_all add: Cons e unf od_inv od_simps)
      qed
    qed
  qed
qed

lemma evict_keeps_held:
  "od_wf (mt_locks st) \<Longrightarrow> od_get (mt_locks st) p = Some True \<Longrightarrow>
    od_get (mt_locks (evict_idle_peer_state now st)) p = Some True"
  using evict_locks_held [of "mt_locks st" p peer_state_max 0 "mt_last st"]
    evict_last_held [of "fst (evict_locks peer_state_max 0 (mt_locks st) (mt_last st))" p]
  by (simp add: evict_idle_peer_state_def split: prod.splits) (metis fst_conv)

end
