(* ===== verification/Message_Sync.thy ===== *)
theory Message_Sync
  imports Message_Store
begin

text \<open>
  What the message store promises: a synchronised window is the server's newest page, windows
  have no holes under any interleaving of server changes, live events and history calls, and
  a page of older messages misses nothing. The server is the ascending list of a dialog's
  messages; the client's calls return its newest messages above, or below, an id.
\<close>

section \<open>Queries as sorted lists of ids\<close>

definition newest :: "int \<Rightarrow> 'a list \<Rightarrow> 'a list" where
  "newest n xs = rev (limit_rows n (rev xs))"

definition stored :: "int \<Rightarrow> msg_store \<Rightarrow> int set" where
  "stored peer st = {i. (peer, i) \<in> fst ` set (mt_rows st)}"

lemma newest_nonneg: "0 \<le> n \<Longrightarrow> newest n xs = drop (length xs - nat n) xs"
  by (simp add: newest_def limit_rows_def rev_take)

lemma newest_map: "newest n (map f xs) = map f (newest n xs)"
  by (simp add: newest_def limit_rows_def rev_map take_map)

lemma newest_Nil [simp]: "newest n [] = []"
  by (auto simp: newest_def limit_rows_def)

lemma newest_all: "int (length xs) \<le> n \<Longrightarrow> newest n xs = xs"
  by (auto simp: newest_def limit_rows_def)

lemma newest_length: "0 \<le> n \<Longrightarrow> int (length (newest n xs)) = min n (int (length xs))"
  by (simp add: newest_def limit_rows_def)

lemma newest_suffix: "\<exists>pre. xs = pre @ newest n xs"
proof (cases "n < 0")
  case False
  then show ?thesis using append_take_drop_id [of "length xs - nat n" xs] by (metis newest_nonneg not_less)
qed (simp add: newest_def limit_rows_def)

lemma set_newest: "set (newest n xs) \<subseteq> set xs"
  using newest_suffix [of xs n] by (metis Un_upper2 set_append)

lemma load_rows_newest:
  "load_rows peer p limit st = newest limit (map row_to_message (sort_key (\<lambda>e. snd (fst e)) (rows_where peer p st)))"
  by (simp add: load_rows_def newest_map) (simp add: newest_def)

lemma rows_where_keys: "fst ` set (rows_where peer p st) = {(peer, i) | i. i \<in> stored peer st \<and> p i}"
  by (force simp: rows_where_def stored_def)

lemma sort_key_ids:
  assumes "distinct (map f xs)"
  shows "map f (sort_key f xs) = sorted_list_of_set (f ` set xs)"
proof -
  have "map f (sort_key f xs) = sort (map f xs)"
    by (rule properties_for_sort [symmetric]) (simp_all only: mset_map mset_sort sorted_sort_key)
  also have "\<dots> = sorted_list_of_set (set (map f xs))"
    using assms by (simp only: sorted_list_of_set_sort_remdups distinct_remdups_id)
  finally show ?thesis by simp
qed

lemma ids_where:
  assumes "od_wf (mt_rows st)"
  shows "map (\<lambda>e. snd (fst e)) (sort_key (\<lambda>e. snd (fst e)) (rows_where peer p st))
    = sorted_list_of_set {i \<in> stored peer st. p i}"
proof -
  let ?rs = "rows_where peer p st"
  have d: "distinct (map fst ?rs)" using assms by (simp add: rows_where_def od_wf_def distinct_map_filter)
  have "inj_on snd (set (map fst ?rs))" by (auto simp: rows_where_def inj_on_def)
  then have "distinct (map snd (map fst ?rs))" using d by (simp only: distinct_map)
  then have "distinct (map (\<lambda>e. snd (fst e)) ?rs)" by (simp add: comp_def)
  moreover have "(\<lambda>e. snd (fst e)) ` set ?rs = {i \<in> stored peer st. p i}"
    by (force simp: rows_where_def stored_def)
  ultimately show ?thesis using sort_key_ids by metis
qed

lemma load_ids:
  "od_wf (mt_rows st) \<Longrightarrow> map ms_id (load_rows peer p limit st) = newest limit (sorted_list_of_set {i \<in> stored peer st. p i})"
proof -
  assume wf: "od_wf (mt_rows st)"
  have "ms_id \<circ> row_to_message = (\<lambda>e. snd (fst e))"
    by (rule ext) (simp add: row_to_message_def Let_def split: prod.split)
  then show ?thesis using ids_where [OF wf, of peer p]
    by (simp add: load_rows_newest newest_map [symmetric])
qed

lemma load_elem:
  assumes "od_wf (mt_rows st)" and "m \<in> set (load_rows peer p limit st)"
  shows "\<exists>r. od_get (mt_rows st) (peer, ms_id m) = Some r \<and> m = row_to_message ((peer, ms_id m), r) \<and> p (ms_id m)"
proof -
  obtain e where e: "e \<in> set (rows_where peer p st)" and m: "m = row_to_message e"
    using assms(2) set_newest unfolding load_rows_newest by fastforce
  obtain d i r where e3: "e = ((d, i), r)" by (cases e) auto
  have "d = peer" "p i" "((d, i), r) \<in> set (mt_rows st)" using e by (auto simp: rows_where_def e3)
  moreover have "ms_id m = i" by (simp add: m e3 row_to_message_def)
  ultimately show ?thesis using assms(1) m by (auto simp: e3 od_wf_def)
qed

text \<open>A message without the parts the store enriches on its own.\<close>

definition core_of :: "message \<Rightarrow> message" where
  "core_of m = m\<lparr>ms_translated_text := None, ms_sender := None\<rparr>"

lemma same_ids_same_core:
  assumes "map ms_id xs = map ms_id ys" and "distinct (map ms_id ys)"
    and "\<And>x y. x \<in> set xs \<Longrightarrow> y \<in> set ys \<Longrightarrow> ms_id x = ms_id y \<Longrightarrow> core_of x = core_of y"
  shows "map core_of xs = map core_of ys"
proof (rule nth_equalityI)
  show "length (map core_of xs) = length (map core_of ys)" using assms(1) map_eq_imp_length_eq by auto
  fix n assume "n < length (map core_of xs)"
  then have n: "n < length xs" "n < length ys" using assms(1) map_eq_imp_length_eq by force+
  then have "ms_id (xs ! n) = ms_id (ys ! n)" using assms(1) by (metis nth_map)
  then show "map core_of xs ! n = map core_of ys ! n" using assms(3) n by simp
qed

section \<open>Effect of the writes on the stored ids\<close>

lemma upsert_view [store_view]:
  "mt_sync (upsert_message t l b m st) = mt_sync st"
  "mt_ttl (upsert_message t l b m st) = mt_ttl st"
  "mt_locks (upsert_message t l b m st) = mt_locks st"
  "mt_last (upsert_message t l b m st) = mt_last st"
  by (simp_all add: upsert_message_def Let_def)

lemma delete_view [store_view]:
  "mt_sync (delete_rows p st) = mt_sync st"
  "mt_ttl (delete_rows p st) = mt_ttl st"
  by (simp_all add: delete_rows_def)

lemma stored_upsert: "stored peer (upsert_message t l b m st) =
    (if ms_dialog_id m = peer then insert (ms_id m) (stored peer st) else stored peer st)"
  by (auto simp: stored_def upsert_message_def Let_def upsert_row_def od_simps)

lemma wf_upsert: "od_wf (mt_rows st) \<Longrightarrow> od_wf (mt_rows (upsert_message t l b m st))"
  by (simp add: upsert_message_def Let_def upsert_row_def od_inv)

lemma upserts_view:
  "mt_sync (fold upsert_plain ms st) = mt_sync st"
  "mt_ttl (fold upsert_plain ms st) = mt_ttl st"
  "od_wf (mt_rows st) \<Longrightarrow> od_wf (mt_rows (fold upsert_plain ms st))"
  by (induction ms arbitrary: st) (simp_all add: store_view wf_upsert)

lemma stored_upserts: "stored peer (fold upsert_plain ms st) =
    stored peer st \<union> {ms_id m | m. m \<in> set ms \<and> ms_dialog_id m = peer}"
  by (induction ms arbitrary: st) (auto simp: stored_upsert)

text \<open>An upserted message is read back with its content.\<close>

lemma read_upsert: "od_get (mt_rows (upsert_plain m st)) (ms_dialog_id m, ms_id m) = Some r \<Longrightarrow>
    core_of (row_to_message ((ms_dialog_id m, ms_id m), r)) = core_of m"
  by (auto simp: upsert_message_def Let_def upsert_row_def od_simps merge_row_def merge_author_def
      new_row_def row_to_message_def core_of_def split: option.splits)

lemma get_upsert_other: "(d, i) \<noteq> (ms_dialog_id m, ms_id m) \<Longrightarrow>
    od_get (mt_rows (upsert_message t l b m st)) (d, i) = od_get (mt_rows st) (d, i)"
  by (auto simp: upsert_message_def Let_def upsert_row_def od_simps)

lemma get_upserts_other: "\<forall>m\<in>set ms. (d, i) \<noteq> (ms_dialog_id m, ms_id m) \<Longrightarrow>
    od_get (mt_rows (fold upsert_plain ms st)) (d, i) = od_get (mt_rows st) (d, i)"
  by (induction ms arbitrary: st) (auto simp: get_upsert_other)

lemma read_upserts:
  assumes "m \<in> set ms" and "distinct (map ms_id ms)" and "\<forall>m\<in>set ms. ms_dialog_id m = peer"
    and "od_get (mt_rows (fold upsert_plain ms st)) (peer, ms_id m) = Some r"
  shows "core_of (row_to_message ((peer, ms_id m), r)) = core_of m"
  using assms
proof (induction ms arbitrary: st)
  case (Cons x ms)
  show ?case
  proof (cases "m = x")
    case True
    then have "\<forall>y\<in>set ms. (peer, ms_id m) \<noteq> (ms_dialog_id y, ms_id y)" using Cons.prems(2) by force
    then have "od_get (mt_rows (upsert_plain x st)) (peer, ms_id x) = Some r"
      using Cons.prems(4) True get_upserts_other [of ms peer "ms_id m" "upsert_plain x st"] by simp
    then show ?thesis using read_upsert [of x st r] Cons.prems(3) True by simp
  next
    case False
    then show ?thesis using Cons.prems Cons.IH [of "upsert_plain x st"] by auto
  qed
qed simp

lemma stored_delete: "stored peer (delete_rows p st) = {i \<in> stored peer st. \<not> p (peer, i)}"
  by (force simp: stored_def delete_rows_def)

lemma wf_delete: "od_wf (mt_rows st) \<Longrightarrow> od_wf (mt_rows (delete_rows p st))"
  by (simp add: delete_rows_def od_wf_def distinct_map_filter)

lemma get_delete: "\<not> p k \<Longrightarrow> od_get (mt_rows (delete_rows p st)) k = od_get (mt_rows st) k"
proof -
  have "\<not> p k \<Longrightarrow> map_of (filter (\<lambda>e. \<not> p (fst e)) d) k = map_of d k" for d :: "(int \<times> int, msg_row) odict"
    by (induction d) auto
  then show "\<not> p k \<Longrightarrow> ?thesis" by (simp add: delete_rows_def)
qed

section \<open>Replacing the window\<close>

definition page_ok :: "int \<Rightarrow> message list \<Rightarrow> bool" where
  "page_ok peer ms \<longleftrightarrow> sorted_wrt (<) (map ms_id ms) \<and> (\<forall>m\<in>set ms. ms_dialog_id m = peer \<and> 0 < ms_id m)"

lemma page_ok_ids: "page_ok peer ms \<Longrightarrow> distinct (map ms_id ms) \<and> sorted_list_of_set (ms_id ` set ms) = map ms_id ms"
proof -
  assume "page_ok peer ms"
  then have s: "sorted_wrt (<) (map ms_id ms)" by (simp add: page_ok_def)
  then have "distinct (map ms_id ms) \<and> sorted (map ms_id ms)" using strict_sorted_iff by blast
  then show ?thesis using sorted_list_of_set.idem_if_sorted_distinct [of "map ms_id ms"] by simp
qed

lemma replace_view:
  "od_wf (mt_rows st) \<Longrightarrow> od_wf (mt_rows (replace_window peer ms limit st))"
  "mt_ttl (replace_window peer ms limit st) = mt_ttl st"
  by (simp_all add: replace_window_def Let_def set_sync_row_def prune_window_def store_view upserts_view wf_delete)

lemma replace_sync: "mt_sync (replace_window peer ms limit st) = od_set peer
    (if ms = [] then (0, 0)
     else (if int (length ms) < limit then 0 else Min (ms_id ` set ms), Max (ms_id ` set ms))) (mt_sync st)"
  by (simp add: replace_window_def Let_def set_sync_row_def prune_window_def store_view upserts_view)

lemma replace_load:
  assumes wf: "od_wf (mt_rows st)" and ok: "page_ok peer ms"
    and rows: "mt_rows st' = mt_rows (replace_window peer ms limit st)"
    and syn: "mt_sync st' = mt_sync (replace_window peer ms limit st)"
    and len: "0 \<le> limit" "int (length ms) \<le> limit"
  shows "map core_of (load_window peer limit st') = map core_of ms"
proof (cases "ms = []")
  case True
  have "stored peer st' = {}" using rows True
    by (auto simp: replace_window_def set_sync_row_def delete_rows_def stored_def)
  moreover have "sync_row peer st' = Some (0, 0)" by (simp add: sync_row_def syn replace_sync True od_simps)
  moreover have "od_wf (mt_rows st')" using replace_view(1) [OF wf] by (simp add: rows)
  ultimately show ?thesis using load_ids [of st' peer "\<lambda>i. 0 \<le> i \<and> i \<le> 0" limit] True
    by (simp add: load_window_def)
next
  case False
  let ?lo = "if int (length ms) < limit then 0 else Min (ms_id ` set ms)" and ?hi = "Max (ms_id ` set ms)"
  let ?st1 = "fold upsert_plain ms st"
  have row: "sync_row peer st' = Some (?lo, ?hi)" using False by (simp add: sync_row_def syn replace_sync od_simps)
  have wf': "od_wf (mt_rows st')" using replace_view(1) [OF wf] by (simp add: rows)
  have r: "mt_rows st' = mt_rows (prune_window peer ?lo ?hi (map ms_id ms) ?st1)"
    using False by (simp add: rows replace_window_def Let_def set_sync_row_def)
  have ids: "ms_id ` set ms \<subseteq> {i. ?lo \<le> i \<and> i \<le> ?hi}"
    using ok by (auto simp: page_ok_def less_imp_le)
  have "stored peer st' = {i \<in> stored peer ?st1. \<not> (?lo \<le> i \<and> i \<le> ?hi \<and> i \<notin> set (map ms_id ms))}"
    using r stored_delete [of peer "\<lambda>(d, i). d = peer \<and> ?lo \<le> i \<and> i \<le> ?hi \<and> i \<notin> set (map ms_id ms)" ?st1]
    by (simp add: stored_def prune_window_def)
  moreover have "ms_id ` set ms \<subseteq> stored peer ?st1" using ok by (auto simp: stored_upserts page_ok_def)
  ultimately have win: "{i \<in> stored peer st'. ?lo \<le> i \<and> i \<le> ?hi} = ms_id ` set ms" using ids by auto
  have load: "load_window peer limit st' = load_rows peer (\<lambda>i. ?lo \<le> i \<and> i \<le> ?hi) limit st'"
    by (simp add: load_window_def row)
  have "map ms_id (load_window peer limit st') = newest limit (map ms_id ms)"
    using load_ids [OF wf', of peer "\<lambda>i. ?lo \<le> i \<and> i \<le> ?hi" limit] page_ok_ids [OF ok] win by (simp only: load)
  then have idseq: "map ms_id (load_window peer limit st') = map ms_id ms" using len by (simp add: newest_all)
  show ?thesis
  proof (rule same_ids_same_core [OF idseq])
    show "distinct (map ms_id ms)" using page_ok_ids [OF ok] by simp
    fix x y assume x: "x \<in> set (load_window peer limit st')" and y: "y \<in> set ms" and e: "ms_id x = ms_id y"
    obtain rw where g: "od_get (mt_rows st') (peer, ms_id x) = Some rw" and xr: "x = row_to_message ((peer, ms_id x), rw)"
      using load_elem [OF wf' x [unfolded load]] by auto
    have "od_get (mt_rows st') (peer, ms_id x) = od_get (mt_rows ?st1) (peer, ms_id x)"
      unfolding r prune_window_def using y e by (intro get_delete) auto
    then have "core_of (row_to_message ((peer, ms_id y), rw)) = core_of y"
      using g e y ok page_ok_ids [OF ok] by (intro read_upserts [of y ms peer st rw]) (auto simp: page_ok_def)
    then show "core_of x = core_of y" using xr e by simp
  qed
qed


section \<open>A synchronisation brings the newest page\<close>

text \<open>The documented behaviour of the client's calls on a server that holds still.\<close>

definition since_serves :: "(int \<Rightarrow> message list) \<Rightarrow> since_call \<Rightarrow> bool" where
  "since_serves srv history_since \<longleftrightarrow> (\<forall>peer min_id limit. 0 \<le> limit \<longrightarrow>
     history_since peer min_id limit = Some (newest limit (filter (\<lambda>m. min_id < ms_id m) (srv peer))))"

definition before_serves :: "(int \<Rightarrow> message list) \<Rightarrow> since_call \<Rightarrow> bool" where
  "before_serves srv client_history \<longleftrightarrow> (\<forall>peer limit offset_id. 0 \<le> limit \<longrightarrow> 0 < offset_id \<longrightarrow>
     client_history peer limit offset_id = Some (newest limit (filter (\<lambda>m. ms_id m < offset_id) (srv peer))))"

lemma filter_above_suffix:
  "sorted_wrt (<) (map ms_id ms) \<Longrightarrow> \<exists>pre. ms = pre @ filter (\<lambda>m. h < ms_id m) ms"
proof (induction ms)
  case (Cons m ms)
  show ?case
  proof (cases "h < ms_id m")
    case True
    then have "filter (\<lambda>m. h < ms_id m) ms = ms" using Cons.prems by (auto simp: filter_id_conv)
    then show ?thesis using True by simp
  next
    case False
    obtain pre where "ms = pre @ filter (\<lambda>m. h < ms_id m) ms" using Cons by auto
    then have "m # ms = (m # pre) @ filter (\<lambda>m. h < ms_id m) (m # ms)" using False by simp
    then show ?thesis by blast
  qed
qed simp

lemma newest_append: "n \<le> int (length xs) \<Longrightarrow> 0 \<le> n \<Longrightarrow> newest n (pre @ xs) = newest n xs"
  by (simp add: newest_nonneg)

lemma newest_above:
  assumes "sorted_wrt (<) (map ms_id ms)" and "0 \<le> n"
    and "n \<le> int (length (newest n (filter (\<lambda>m. h < ms_id m) ms)))"
  shows "newest n (filter (\<lambda>m. h < ms_id m) ms) = newest n ms"
proof -
  obtain pre where pre: "ms = pre @ filter (\<lambda>m. h < ms_id m) ms" using filter_above_suffix [OF assms(1)] by blast
  have "n \<le> int (length (filter (\<lambda>m. h < ms_id m) ms))" using assms(2,3) by (simp add: newest_length)
  then show ?thesis using newest_append [OF _ assms(2)] pre by metis
qed

lemma page_ok_newest: "page_ok peer ms \<Longrightarrow> page_ok peer (newest n ms)"
proof -
  assume ok: "page_ok peer ms"
  obtain pre where "ms = pre @ newest n ms" using newest_suffix by blast
  then have "map ms_id ms = map ms_id pre @ map ms_id (newest n ms)" by (metis map_append)
  then have "sorted_wrt (<) (map ms_id (newest n ms))" using ok by (simp add: page_ok_def sorted_wrt_append)
  then show ?thesis using ok set_newest [of n ms] by (auto simp: page_ok_def)
qed

definition synced_page :: "message list \<Rightarrow> int \<Rightarrow> int \<Rightarrow> msg_store \<Rightarrow> bool" where
  "synced_page ms peer limit st \<longleftrightarrow> od_wf (mt_rows st)
     \<and> map core_of (load_window peer limit st) = map core_of (newest limit ms)"

lemma load_window_cong: "mt_rows s = mt_rows t \<Longrightarrow> mt_sync s = mt_sync t \<Longrightarrow> load_window peer limit s = load_window peer limit t"
proof -
  assume "mt_rows s = mt_rows t" and y: "mt_sync s = mt_sync t"
  then have "load_rows peer p limit s = load_rows peer p limit t" for p by (simp add: load_rows_def rows_where_def)
  then show ?thesis by (simp add: load_window_def sync_row_def y split: option.split)
qed

lemma synced_page_cong: "mt_rows s = mt_rows t \<Longrightarrow> mt_sync s = mt_sync t \<Longrightarrow> synced_page ms peer limit s = synced_page ms peer limit t"
  using load_window_cong [of s t peer limit] by (simp add: synced_page_def)

lemma synced_by_replace:
  assumes "od_wf (mt_rows st)" and "page_ok peer ms" and "0 \<le> limit"
  shows "synced_page ms peer limit (remember_sync now peer (replace_window peer (newest limit ms) limit st))"
proof -
  let ?st = "replace_window peer (newest limit ms) limit st"
  have "map core_of (load_window peer limit ?st) = map core_of (newest limit ms)"
    using assms newest_length [of limit ms] by (intro replace_load [of st]) (simp_all add: page_ok_newest)
  then have "synced_page ms peer limit ?st" using replace_view(1) [OF assms(1)] by (simp add: synced_page_def)
  then show ?thesis by (subst synced_page_cong [of _ ?st]) (simp_all add: peer_view)
qed

lemma full_window_syncs:
  assumes "od_wf (mt_rows st)" and "page_ok peer (srv peer)" and "0 \<le> limit" and "since_serves srv since"
  shows "\<exists>st'. sync_full_window since now peer limit st = Some st' \<and> synced_page (srv peer) peer limit st'"
proof -
  have "filter (\<lambda>m. 0 < ms_id m) (srv peer) = srv peer" using assms(2) by (simp add: page_ok_def filter_id_conv)
  then have "since peer 0 limit = Some (newest limit (srv peer))" using assms(3,4) by (simp add: since_serves_def)
  then show ?thesis using synced_by_replace [OF assms(1,2,3)] by (simp add: sync_full_window_def)
qed

lemma sync_history_syncs:
  assumes wf: "od_wf (mt_rows st)" and ok: "page_ok peer (srv peer)" and lim: "0 < limit" and serves: "since_serves srv since"
  shows "\<exists>st'. sync_history since now peer limit row st = Some st' \<and> synced_page (srv peer) peer limit st'"
proof -
  let ?h = "case row of None \<Rightarrow> 0 | Some (_, high) \<Rightarrow> high"
  let ?f = "newest limit (filter (\<lambda>m. ?h < ms_id m) (srv peer))"
  have f: "since peer ?h limit = Some ?f" using serves lim by (simp add: since_serves_def)
  have full: "\<exists>st'. sync_full_window since now peer limit st = Some st' \<and> synced_page (srv peer) peer limit st'"
    using full_window_syncs wf ok lim serves by (metis less_imp_le)
  have direct: "synced_page (srv peer) peer limit (remember_sync now peer (replace_window peer ?f limit st))"
    if "row = None \<or> limit \<le> int (length ?f)"
  proof -
    have "?f = newest limit (srv peer)"
    proof (cases "row = None")
      case True
      then have "filter (\<lambda>m. ?h < ms_id m) (srv peer) = srv peer" using ok by (simp add: page_ok_def filter_id_conv)
      then show ?thesis by simp
    next
      case False
      then have "limit \<le> int (length ?f)" using that by blast
      moreover have "sorted_wrt (<) (map ms_id (srv peer))" using ok by (simp add: page_ok_def)
      ultimately show ?thesis using lim by (intro newest_above) simp_all
    qed
    then show ?thesis using synced_by_replace [OF wf ok, of limit now] lim by simp
  qed
  have lpos: "?f = [] \<Longrightarrow> \<not> limit \<le> int (length ?f)" using lim by simp
  show ?thesis
  proof (cases "row = None \<or> limit \<le> int (length ?f)")
    case True
    then have "sync_history since now peer limit row st = Some (remember_sync now peer (replace_window peer ?f limit st))"
      using lpos by (auto simp: sync_history_def Let_def f)
    then show ?thesis using direct [OF True] by blast
  next
    case False
    then have "sync_history since now peer limit row st = sync_full_window since now peer limit st"
      by (auto simp: sync_history_def Let_def f)
    then show ?thesis using full by simp
  qed
qed

definition stale_at :: "instant \<Rightarrow> int \<Rightarrow> msg_store \<Rightarrow> bool" where
  "stale_at now peer st \<longleftrightarrow> sync_row peer st = None
     \<or> (case od_get (mt_last st) peer of None \<Rightarrow> True | Some stamp \<Rightarrow> mt_ttl st \<le> now - stamp)"

lemma full_window_wf: "od_wf (mt_rows st) \<Longrightarrow> sync_full_window since now peer limit st = Some st' \<Longrightarrow> od_wf (mt_rows st')"
  by (auto simp: sync_full_window_def peer_view replace_view split: option.splits)

lemma history_locked_syncs:
  assumes wf: "od_wf (mt_rows st)" and ok: "page_ok peer (srv peer)" and lim: "0 < limit"
    and serves: "since_serves srv since" and stale: "stale_at now peer st"
  shows "fst (history_locked since now peer limit st)
    \<and> synced_page (srv peer) peer limit (snd (history_locked since now peer limit st))"
proof -
  note sh = sync_history_syncs [OF _ ok lim serves]
  obtain fw where fw: "sync_full_window since now peer limit st = Some fw" "synced_page (srv peer) peer limit fw"
    using full_window_syncs [where srv = srv, OF wf ok _ serves] lim by (metis less_imp_le)
  have fwwf: "od_wf (mt_rows fw)" using fw(2) by (simp add: synced_page_def)
  show ?thesis
  proof (cases "\<exists>low high. sync_row peer st = Some (low, high) \<and> 0 < low \<and> window_count peer low high st < limit")
    case True
    obtain a b where sync: "sync_history since now peer limit (sync_row peer fw) fw = Some a" "synced_page (srv peer) peer limit a"
      using sh [OF fwwf] by blast
    show ?thesis using True fw sync
      by (auto simp: history_locked_def synced_def Let_def split: option.splits)
  next
    case False
    obtain a where sync: "sync_history since now peer limit (sync_row peer st) st = Some a" "synced_page (srv peer) peer limit a"
      using sh [OF wf] by blast
    have "(case sync_row peer st of None \<Rightarrow> (True, st)
        | Some (low, high) \<Rightarrow> if 0 < low \<and> window_count peer low high st < limit
            then synced st (sync_full_window since now peer limit st) else (True, st)) = (True, st)"
      using False by (auto split: option.splits)
    then show ?thesis using stale sync
      by (auto simp: history_locked_def Let_def stale_at_def synced_def split: option.splits)
  qed
qed

text \<open>
  C3: A history call that synchronises (no window yet, no stamp, or the stamp older than the
  TTL) returns exactly the server's newest \<open>limit\<close> messages, oldest first, whatever the cache
  held before: no stale, missing, duplicated or deleted message survives.
\<close>

theorem history_returns_newest:
  assumes "od_wf (mt_rows st)" and "page_ok peer (srv peer)" and "0 < limit" and "since_serves srv since"
    and "stale_at now peer (set_locked True peer (peer_lock now peer st))"
  shows "map_option (map core_of) (fst (store_history since before now peer limit 0 st))
    = Some (map core_of (newest limit (srv peer)))"
proof -
  let ?st = "set_locked True peer (peer_lock now peer st)"
  obtain b st2 where h: "history_locked since now peer limit ?st = (b, st2)" by fastforce
  have "od_wf (mt_rows ?st)" using assms(1) by (simp add: peer_view)
  then have "b \<and> synced_page (srv peer) peer limit st2"
    using history_locked_syncs [OF _ assms(2,3,4,5)] h by force
  moreover have "load_window peer limit (set_locked False peer st2) = load_window peer limit st2"
    by (rule load_window_cong) (simp_all add: peer_view)
  ultimately show ?thesis by (simp add: store_history_def Let_def h synced_page_def)
qed


section \<open>Windows have no holes\<close>

text \<open>
  The world: what the server holds per dialog, the highest id it ever used there, and the
  store. The calls of a history step answer for the server of that moment, or raise.
\<close>

record world =
  wd_srv :: "int \<Rightarrow> message list"
  wd_tp :: "int \<Rightarrow> int"
  wd_store :: msg_store

definition since_safe :: "(int \<Rightarrow> message list) \<Rightarrow> since_call \<Rightarrow> bool" where
  "since_safe srv f \<longleftrightarrow> (\<forall>peer min_id limit r. 0 \<le> limit \<longrightarrow> f peer min_id limit = Some r \<longrightarrow>
     r = newest limit (filter (\<lambda>m. min_id < ms_id m) (srv peer)))"

definition before_safe :: "(int \<Rightarrow> message list) \<Rightarrow> since_call \<Rightarrow> bool" where
  "before_safe srv f \<longleftrightarrow> (\<forall>peer limit offset_id r. 0 \<le> limit \<longrightarrow> 0 < offset_id \<longrightarrow> f peer limit offset_id = Some r \<longrightarrow>
     r = newest limit (filter (\<lambda>m. ms_id m < offset_id) (srv peer)))"

text \<open>A deletion event names ids that are gone: in its chat, or in every dialog that is not a
  channel (message ids are global there).\<close>

definition deletion_true :: "(int \<Rightarrow> message list) \<Rightarrow> messages_deleted_event \<Rightarrow> bool" where
  "deletion_true srv ev \<longleftrightarrow> (\<forall>peer m. m \<in> set (srv peer) \<longrightarrow> ms_id m \<in> set (de_message_ids ev) \<longrightarrow>
     (case de_chat_id ev of Some c \<Rightarrow> c \<noteq> peer | None \<Rightarrow> is_channel_or_megagroup_id peer))"

inductive world_step :: "world \<Rightarrow> world \<Rightarrow> bool" where
  server_new: "ms_dialog_id m = peer \<Longrightarrow> wd_tp w peer < ms_id m \<Longrightarrow>
    world_step w (w\<lparr>wd_srv := (wd_srv w)(peer := wd_srv w peer @ [m]), wd_tp := (wd_tp w)(peer := ms_id m)\<rparr>)"
| server_delete: "world_step w (w\<lparr>wd_srv := (wd_srv w)(peer := filter keep (wd_srv w peer))\<rparr>)"
| server_edit: "world_step w (w\<lparr>wd_srv := (wd_srv w)(peer := map (\<lambda>m. m\<lparr>ms_text := f m\<rparr>) (wd_srv w peer))\<rparr>)"
| read_history: "since_safe (wd_srv w) since \<Longrightarrow> before_safe (wd_srv w) before \<Longrightarrow> 0 \<le> limit \<Longrightarrow>
    world_step w (w\<lparr>wd_store := snd (store_history since before now peer limit offset_id (wd_store w))\<rparr>)"
| live: "world_step w (w\<lparr>wd_store := ingest now m (wd_store w)\<rparr>)"
| outgoing: "world_step w (w\<lparr>wd_store := record_outgoing now peer m src lang (wd_store w)\<rparr>)"
| deleted: "deletion_true (wd_srv w) ev \<Longrightarrow> world_step w (w\<lparr>wd_store := apply_deletion ev (wd_store w)\<rparr>)"
| translate_row: "world_step w (w\<lparr>wd_store := upsert_message_for_translation m (wd_store w)\<rparr>)"
| translated: "world_step w (w\<lparr>wd_store := set_message_translation peer i lang t (wd_store w)\<rparr>)"
| policy_change: "world_step w (w\<lparr>wd_store := clear_all_translations (wd_store w)\<rparr>)"

inductive_cases world_stepE: "world_step w w'"

definition window_complete :: "message list \<Rightarrow> int \<Rightarrow> int \<Rightarrow> int \<Rightarrow> msg_store \<Rightarrow> bool" where
  "window_complete ms peer low high st \<longleftrightarrow>
     (\<forall>m\<in>set ms. low \<le> ms_id m \<longrightarrow> ms_id m \<le> high \<longrightarrow> ms_id m \<in> stored peer st)"

definition windows_ok :: "(int \<Rightarrow> message list) \<Rightarrow> (int \<Rightarrow> int) \<Rightarrow> msg_store \<Rightarrow> bool" where
  "windows_ok srv tp st \<longleftrightarrow> od_wf (mt_rows st) \<and>
     (\<forall>peer low high. sync_row peer st = Some (low, high) \<longrightarrow>
        0 \<le> low \<and> high \<le> tp peer \<and> window_complete (srv peer) peer low high st)"

definition server_ok :: "(int \<Rightarrow> message list) \<Rightarrow> (int \<Rightarrow> int) \<Rightarrow> bool" where
  "server_ok srv tp \<longleftrightarrow> (\<forall>peer. page_ok peer (srv peer) \<and> 0 \<le> tp peer \<and> (\<forall>m\<in>set (srv peer). ms_id m \<le> tp peer))"

definition world_inv :: "world \<Rightarrow> bool" where
  "world_inv w \<longleftrightarrow> server_ok (wd_srv w) (wd_tp w) \<and> windows_ok (wd_srv w) (wd_tp w) (wd_store w)"

lemma windows_cong: "mt_rows s = mt_rows t \<Longrightarrow> mt_sync s = mt_sync t \<Longrightarrow> windows_ok srv tp s = windows_ok srv tp t"
  by (simp add: windows_ok_def window_complete_def sync_row_def stored_def)

lemma windows_peer_view [store_view]:
  "windows_ok srv tp (peer_lock now p st) = windows_ok srv tp st"
  "windows_ok srv tp (remember_sync now p st) = windows_ok srv tp st"
  "windows_ok srv tp (set_locked b p st) = windows_ok srv tp st"
  by (rule windows_cong; simp add: peer_view)+

lemma windows_grow:
  assumes "windows_ok srv tp st" and "od_wf (mt_rows st')" and "mt_sync st' = mt_sync st"
    and "\<And>peer m. m \<in> set (srv peer) \<Longrightarrow> ms_id m \<in> stored peer st \<Longrightarrow> ms_id m \<in> stored peer st'"
  shows "windows_ok srv tp st'"
  using assms by (auto simp: windows_ok_def window_complete_def sync_row_def)

lemma windows_upsert: "windows_ok srv tp st \<Longrightarrow> windows_ok srv tp (upsert_message t l b m st)"
  by (rule windows_grow) (auto simp: wf_upsert store_view stored_upsert windows_ok_def)

lemma windows_upserts: "windows_ok srv tp st \<Longrightarrow> windows_ok srv tp (fold upsert_plain ms st)"
  by (induction ms arbitrary: st) (simp_all add: windows_upsert)

lemma windows_delete:
  assumes "windows_ok srv tp st" and "\<And>peer m. m \<in> set (srv peer) \<Longrightarrow> \<not> p (peer, ms_id m)"
  shows "windows_ok srv tp (delete_rows p st)"
  using assms(1) by (rule windows_grow) (use assms in \<open>auto simp: wf_delete store_view stored_delete windows_ok_def\<close>)

lemma windows_set_sync:
  assumes "windows_ok srv tp st" and "0 \<le> low" and "high \<le> tp peer" and "window_complete (srv peer) peer low high st"
  shows "windows_ok srv tp (set_sync_row peer low high st)"
  using assms by (auto simp: windows_ok_def window_complete_def sync_row_def set_sync_row_def od_simps stored_def)

lemma page_split:
  assumes ok: "page_ok peer ms" and m: "m \<in> set ms" and lo: "newest n ms \<noteq> []" "Min (ms_id ` set (newest n ms)) \<le> ms_id m"
  shows "m \<in> set (newest n ms)"
proof -
  obtain pre where pre: "ms = pre @ newest n ms" using newest_suffix by blast
  have "map ms_id ms = map ms_id pre @ map ms_id (newest n ms)" using pre by (metis map_append)
  then have lt: "\<forall>x\<in>set pre. \<forall>y\<in>set (newest n ms). ms_id x < ms_id y"
    using ok by (simp add: page_ok_def sorted_wrt_append)
  have "\<exists>y\<in>set (newest n ms). ms_id y = Min (ms_id ` set (newest n ms))"
  proof -
    have "Min (ms_id ` set (newest n ms)) \<in> ms_id ` set (newest n ms)" using lo(1) by (intro Min_in) auto
    then show ?thesis by (metis imageE)
  qed
  then have "m \<notin> set pre" using lt lo(2) by force
  moreover have "m \<in> set pre \<union> set (newest n ms)" using m pre by (metis set_append)
  ultimately show ?thesis by simp
qed

lemma windows_replace:
  assumes w: "windows_ok srv tp st" and s: "server_ok srv tp" and lim: "0 \<le> limit"
  shows "windows_ok srv tp (replace_window peer (newest limit (srv peer)) limit st)"
proof -
  let ?f = "newest limit (srv peer)"
  have ok: "page_ok peer (srv peer)" and tp: "0 \<le> tp peer" "\<forall>m\<in>set (srv peer). ms_id m \<le> tp peer"
    using s by (simp_all add: server_ok_def)
  have okf: "page_ok peer ?f" by (rule page_ok_newest [OF ok])
  show ?thesis
  proof (cases "?f = []")
    case True
    have pos: "\<forall>m\<in>set (srv peer). 0 < ms_id m" using ok by (simp add: page_ok_def)
    have "windows_ok (srv(peer := [])) tp (delete_rows (\<lambda>k. fst k = peer) st)"
    proof (rule windows_delete)
      show "windows_ok (srv(peer := [])) tp st" using w by (auto simp: windows_ok_def window_complete_def)
    qed (auto split: if_splits)
    then have "windows_ok srv tp (set_sync_row peer 0 0 (delete_rows (\<lambda>k. fst k = peer) st))"
      using pos tp by (auto simp: windows_ok_def window_complete_def sync_row_def set_sync_row_def od_simps stored_def split: if_splits)
    then show ?thesis using True by (simp add: replace_window_def)
  next
    case False
    let ?lo = "if int (length ?f) < limit then 0 else Min (ms_id ` set ?f)" and ?hi = "Max (ms_id ` set ?f)"
    let ?st1 = "fold upsert_plain ?f st"
    let ?st2 = "prune_window peer ?lo ?hi (map ms_id ?f) ?st1"
    have inwin: "m \<in> set ?f" if "m \<in> set (srv peer)" "?lo \<le> ms_id m" for m
    proof (cases "int (length ?f) < limit")
      case True
      then have "int (length (srv peer)) \<le> limit" using newest_length [OF lim, of "srv peer"] by linarith
      then have "?f = srv peer" by (rule newest_all)
      then show ?thesis using that(1) by (simp only:)
    next
      case False
      then have "Min (ms_id ` set ?f) \<le> ms_id m" using that(2) by (simp only: if_False)
      then show ?thesis by (rule page_split [OF ok that(1) \<open>?f \<noteq> []\<close>])
    qed
    have "windows_ok srv tp ?st1" by (rule windows_upserts [OF w])
    then have w2: "windows_ok srv tp ?st2" unfolding prune_window_def
    proof (rule windows_delete)
      fix p m assume m: "m \<in> set (srv p)"
      have "m \<in> set ?f" if "p = peer" "?lo \<le> ms_id m" using inwin [OF _ that(2)] m that(1) by blast
      then show "\<not> (case (p, ms_id m) of (d, i) \<Rightarrow> d = peer \<and> ?lo \<le> i \<and> i \<le> ?hi \<and> i \<notin> set (map ms_id ?f))"
        unfolding prod.case set_map by blast
    qed
    have "window_complete (srv peer) peer ?lo ?hi ?st2"
      unfolding window_complete_def
    proof (intro ballI impI)
      fix m assume "m \<in> set (srv peer)" and "?lo \<le> ms_id m"
      then have "m \<in> set ?f" by (rule inwin)
      then show "ms_id m \<in> stored peer ?st2"
        using okf by (auto simp: prune_window_def stored_delete stored_upserts page_ok_def)
    qed
    moreover have "?hi \<le> tp peer" using tp(2) set_newest [of limit "srv peer"] False by auto
    moreover have "0 \<le> ?lo" using okf False by (auto simp: page_ok_def less_imp_le)
    ultimately have "windows_ok srv tp (set_sync_row peer ?lo ?hi ?st2)" using w2 by (intro windows_set_sync)
    then show ?thesis using False by (simp only: replace_window_def Let_def set_map if_False)
  qed
qed

lemma since_safe_page:
  assumes "since_safe srv since" and "0 \<le> limit" and "since peer h limit = Some f" and "page_ok peer (srv peer)"
    and "h = 0 \<or> limit \<le> int (length f)"
  shows "f = newest limit (srv peer)"
proof -
  have f: "f = newest limit (filter (\<lambda>m. h < ms_id m) (srv peer))" using assms(1-3) by (simp add: since_safe_def)
  show ?thesis
  proof (cases "limit \<le> int (length f)")
    case True
    then show ?thesis unfolding f using assms(2,4) by (intro newest_above) (simp_all add: f page_ok_def)
  next
    case False
    then have "h = 0" using assms(5) by blast
    then have "filter (\<lambda>m. h < ms_id m) (srv peer) = srv peer" using assms(4) by (simp add: page_ok_def filter_id_conv)
    then show ?thesis by (simp only: f)
  qed
qed

lemma windows_full:
  assumes "windows_ok srv tp st" and "server_ok srv tp" and "0 \<le> limit" and "since_safe srv since"
    and "sync_full_window since now peer limit st = Some st'"
  shows "windows_ok srv tp st'"
proof -
  obtain f where f: "since peer 0 limit = Some f" and st': "st' = remember_sync now peer (replace_window peer f limit st)"
    using assms(5) by (auto simp: sync_full_window_def split: option.splits)
  have "f = newest limit (srv peer)"
    using since_safe_page [OF assms(4,3) f] assms(2) by (simp add: server_ok_def)
  then show ?thesis using windows_replace [OF assms(1,2,3)] by (simp add: st' store_view)
qed

lemma windows_sync:
  assumes w: "windows_ok srv tp st" and s: "server_ok srv tp" and l: "0 \<le> limit" and safe: "since_safe srv since"
    and r: "sync_history since now peer limit row st = Some st'"
  shows "windows_ok srv tp st'"
proof -
  let ?h = "case row of None \<Rightarrow> 0 | Some (_, high) \<Rightarrow> high"
  obtain f where f: "since peer ?h limit = Some f" using r by (auto simp: sync_history_def Let_def split: option.splits)
  show ?thesis
  proof (cases "row = None \<or> f \<noteq> [] \<and> limit \<le> int (length f)")
    case True
    then have "st' = remember_sync now peer (replace_window peer f limit st)"
      using r f by (auto simp: sync_history_def Let_def split: if_splits)
    moreover have "f = newest limit (srv peer)"
      using s l safe f True by (intro since_safe_page [OF safe l f]) (auto simp: server_ok_def)
    ultimately show ?thesis using windows_replace [OF w s l] by (simp add: store_view)
  next
    case False
    then have "sync_full_window since now peer limit st = Some st'"
      using r f by (auto simp: sync_history_def Let_def split: if_splits)
    then show ?thesis by (rule windows_full [OF w s l safe])
  qed
qed

lemma windows_synced: "windows_ok srv tp st \<Longrightarrow> (\<And>st'. r = Some st' \<Longrightarrow> windows_ok srv tp st') \<Longrightarrow>
    windows_ok srv tp (snd (synced st r))"
  by (cases r) (auto simp: synced_def)

lemma windows_locked:
  assumes w: "windows_ok srv tp st" and s: "server_ok srv tp" and l: "0 \<le> limit" and safe: "since_safe srv since"
  shows "windows_ok srv tp (snd (history_locked since now peer limit st))"
proof -
  define refill where "refill = (case sync_row peer st of None \<Rightarrow> (True, st)
    | Some (low, high) \<Rightarrow> if 0 < low \<and> window_count peer low high st < limit
        then synced st (sync_full_window since now peer limit st) else (True, st))"
  have wr: "windows_ok srv tp (snd refill)"
    using w windows_synced [OF w] windows_full [OF w s l safe]
    by (auto simp: refill_def split: option.splits)
  have "windows_ok srv tp (snd (synced (snd refill) (sync_history since now peer limit row (snd refill))))" for row
    using windows_synced [OF wr] windows_sync [OF wr s l safe] by blast
  then show ?thesis using wr
    by (auto simp: history_locked_def refill_def [symmetric] Let_def split: option.splits)
qed

lemma page_ok_filter: "page_ok peer ms \<Longrightarrow> page_ok peer (filter p ms)"
  by (simp add: page_ok_def sorted_wrt_map sorted_wrt_filter)

lemma windows_before:
  assumes w: "windows_ok srv tp st" and s: "server_ok srv tp" and l: "0 \<le> limit" and o: "0 < offset_id"
    and safe: "before_safe srv before" and r: "history_before before peer limit offset_id st = Some (ms, st')"
  shows "windows_ok srv tp st'"
proof -
  obtain low high inw where t: "(case sync_row peer st of None \<Rightarrow> (0, 0, False)
      | Some (low, high) \<Rightarrow> (low, high, low \<le> offset_id \<and> offset_id \<le> high)) = (low, high, inw)"
    by (rule prod_cases3)
  show ?thesis
  proof (cases "inw \<and> (low = 0 \<or> limit \<le> int (length (load_before peer limit offset_id low st)))")
    case True
    then show ?thesis using r w by (simp add: history_before_def t)
  next
    case nc: False
    obtain f where f: "before peer limit offset_id = Some f" using r nc by (auto simp: history_before_def t split: option.splits)
    let ?st1 = "fold upsert_plain f st"
    let ?nl = "if int (length f) < limit then 0 else Min (set (map ms_id f))"
    have st': "st' = (if inw \<and> ?nl < low then set_sync_row peer ?nl high ?st1 else ?st1)"
      using r nc f by (auto simp: history_before_def t Let_def split: if_splits)
    have w1: "windows_ok srv tp ?st1" by (rule windows_upserts [OF w])
    show ?thesis
    proof (cases "inw \<and> ?nl < low")
      case False
      then show ?thesis using w1 by (simp only: st' if_False)
    next
      case True
      have row: "sync_row peer st = Some (low, high)" and in1: "low \<le> offset_id" using t True by (auto split: option.splits)
      let ?old = "filter (\<lambda>m. ms_id m < offset_id) (srv peer)"
      have fe: "f = newest limit ?old" using safe l o f by (simp add: before_safe_def)
      have ok: "page_ok peer (srv peer)" using s by (simp add: server_ok_def)
      then have oko: "page_ok peer ?old" by (rule page_ok_filter)
      have okf: "page_ok peer f" unfolding fe by (rule page_ok_newest [OF oko])
      have lpos: "0 < limit"
        using nc True l by (cases "limit = 0") auto
      have inf: "m \<in> set f" if m: "m \<in> set ?old" "?nl \<le> ms_id m" for m
      proof (cases "int (length f) < limit")
        case True
        then have "int (length ?old) \<le> limit" using newest_length [OF l, of ?old] by (simp add: fe)
        then have "f = ?old" unfolding fe by (rule newest_all)
        then show ?thesis using m(1) by (simp only:)
      next
        case False
        then have ne: "newest limit ?old \<noteq> []" using lpos by (auto simp: fe)
        have "Min (ms_id ` set (newest limit ?old)) \<le> ms_id m" using m(2) False by (simp only: if_False fe set_map)
        then show ?thesis unfolding fe by (rule page_split [OF oko m(1) ne])
      qed
      have "window_complete (srv peer) peer ?nl high ?st1"
        unfolding window_complete_def
      proof (intro ballI impI)
        fix m assume m: "m \<in> set (srv peer)" "?nl \<le> ms_id m" "ms_id m \<le> high"
        show "ms_id m \<in> stored peer ?st1"
        proof (cases "ms_id m < offset_id")
          case True
          then have "m \<in> set f" using m by (intro inf) simp_all
          then show ?thesis using okf by (auto simp: stored_upserts page_ok_def)
        next
          case False
          then have "ms_id m \<in> stored peer st"
            using w row m in1 by (auto simp: windows_ok_def window_complete_def)
          then show ?thesis by (simp add: stored_upserts)
        qed
      qed
      moreover have "0 \<le> ?nl"
      proof (cases "int (length f) < limit")
        case False
        then have "f \<noteq> []" using lpos by auto
        then show ?thesis using okf False by (auto simp: page_ok_def less_imp_le)
      qed simp
      moreover have "high \<le> tp peer" using w row by (auto simp: windows_ok_def)
      ultimately have "windows_ok srv tp (set_sync_row peer ?nl high ?st1)" using w1 by (intro windows_set_sync)
      then show ?thesis unfolding st' if_P [OF True] .
    qed
  qed
qed


lemma windows_history:
  assumes w: "windows_ok srv tp st" and s: "server_ok srv tp" and l: "0 \<le> limit"
    and safe: "since_safe srv since" "before_safe srv before"
  shows "windows_ok srv tp (snd (store_history since before now peer limit offset_id st))"
proof -
  let ?st = "set_locked True peer (peer_lock now peer st)"
  have w1: "windows_ok srv tp ?st" using w by (simp add: store_view)
  show ?thesis
  proof (cases "0 < offset_id")
    case True
    then show ?thesis using windows_before [OF w1 s l True safe(2)] w1
      by (auto simp: store_history_def Let_def store_view split: option.splits)
  next
    case False
    obtain b st2 where h: "history_locked since now peer limit ?st = (b, st2)" by fastforce
    have "windows_ok srv tp st2" using windows_locked [OF w1 s l safe(1), of now peer] by (simp add: h)
    then show ?thesis using False by (simp add: store_history_def Let_def store_view h)
  qed
qed

lemma windows_deletion:
  assumes w: "windows_ok srv tp st" and t: "deletion_true srv ev"
  shows "windows_ok srv tp (apply_deletion ev st)"
proof (cases "de_message_ids ev = []")
  case True
  then show ?thesis using w by (simp add: apply_deletion_def)
next
  case False
  show ?thesis
  proof (cases "de_chat_id ev")
    case (Some c)
    have "windows_ok srv tp (delete_rows (\<lambda>(d, i). d = c \<and> i \<in> set (de_message_ids ev)) st)"
      using t Some by (intro windows_delete [OF w]) (auto simp: deletion_true_def)
    then show ?thesis using False Some by (simp add: apply_deletion_def Let_def)
  next
    case None
    let ?g = "\<lambda>k s. if is_channel_or_megagroup_id (fst k) then s else delete_rows (\<lambda>j. j = k) s"
    have "windows_ok srv tp (fold ?g ks st)" if "windows_ok srv tp st" "\<forall>k\<in>set ks. snd k \<in> set (de_message_ids ev)" for ks st
      using that
    proof (induction ks arbitrary: st)
      case (Cons k ks)
      have "windows_ok srv tp (?g k st)"
        using Cons.prems t None windows_delete [of srv tp st "\<lambda>j. j = k"]
        by (fastforce simp: deletion_true_def)
      then show ?case using Cons by simp
    qed simp
    then show ?thesis using False None w by (simp add: apply_deletion_def Let_def)
  qed
qed

lemma windows_row_update:
  assumes "windows_ok srv tp st"
  shows "windows_ok srv tp (st\<lparr>mt_rows := od_set k r (mt_rows st)\<rparr>)"
  using assms by (rule windows_grow) (use assms in \<open>auto simp: windows_ok_def od_inv stored_def od_simps\<close>)

lemma windows_translations:
  "windows_ok srv tp st \<Longrightarrow> windows_ok srv tp (upsert_message_for_translation m st)"
  "windows_ok srv tp st \<Longrightarrow> windows_ok srv tp (set_message_translation peer i lang t st)"
  "windows_ok srv tp st \<Longrightarrow> windows_ok srv tp (clear_all_translations st)"
proof -
  assume w: "windows_ok srv tp st"
  show "windows_ok srv tp (upsert_message_for_translation m st)"
    using windows_row_update [OF w] by (simp add: upsert_message_for_translation_def Let_def)
  show "windows_ok srv tp (set_message_translation peer i lang t st)"
    using windows_row_update [OF w] w by (simp add: set_message_translation_def split: option.split)
  have k: "od_keys (map (\<lambda>(k, r). (k, f r)) d) = od_keys d" for d :: "(int \<times> int, msg_row) odict" and f
    by (induction d) auto
  have ck: "od_keys (mt_rows (clear_all_translations st)) = od_keys (mt_rows st)"
  proof -
    have "mt_rows (clear_all_translations st) =
        map (\<lambda>(k, r). (k, r\<lparr>rw_translated_text := None, rw_translated_lang := None\<rparr>)) (mt_rows st)"
      by (simp add: clear_all_translations_def)
    then show ?thesis using k [of "\<lambda>r. r\<lparr>rw_translated_text := None, rw_translated_lang := None\<rparr>" "mt_rows st"]
      by (simp only:)
  qed
  then have "stored p (clear_all_translations st) = stored p st" for p
    unfolding stored_def set_map [symmetric] by (simp only:)
  moreover have "od_wf (mt_rows (clear_all_translations st))"
    using w ck unfolding windows_ok_def od_wf_def by metis
  ultimately show "windows_ok srv tp (clear_all_translations st)"
    by (intro windows_grow [OF w]) (simp_all add: clear_all_translations_def)
qed

lemma world_server_new:
  assumes "world_inv w" and "ms_dialog_id m = peer" and "wd_tp w peer < ms_id m"
  shows "world_inv (w\<lparr>wd_srv := (wd_srv w)(peer := wd_srv w peer @ [m]), wd_tp := (wd_tp w)(peer := ms_id m)\<rparr>)"
proof -
  have s: "server_ok (wd_srv w) (wd_tp w)" and w: "windows_ok (wd_srv w) (wd_tp w) (wd_store w)"
    using assms(1) by (simp_all add: world_inv_def)
  have "server_ok ((wd_srv w)(peer := wd_srv w peer @ [m])) ((wd_tp w)(peer := ms_id m))"
    unfolding server_ok_def
  proof (intro allI)
    fix p
    have sp: "page_ok p (wd_srv w p) \<and> 0 \<le> wd_tp w p \<and> (\<forall>m\<in>set (wd_srv w p). ms_id m \<le> wd_tp w p)"
      using s by (simp add: server_ok_def)
    show "page_ok p (((wd_srv w)(peer := wd_srv w peer @ [m])) p) \<and> 0 \<le> ((wd_tp w)(peer := ms_id m)) p
      \<and> (\<forall>x\<in>set (((wd_srv w)(peer := wd_srv w peer @ [m])) p). ms_id x \<le> ((wd_tp w)(peer := ms_id m)) p)"
    proof (cases "p = peer")
      case True
      have lt: "ms_id x < ms_id m" if "x \<in> set (wd_srv w peer)" for x
        using sp that True assms(3) by (meson le_less_trans)
      have "page_ok peer (wd_srv w peer @ [m])"
        using sp lt True assms(2,3) by (auto simp: page_ok_def sorted_wrt_append)
      then show ?thesis using sp lt True assms(3) by (auto simp: less_imp_le)
    qed (simp add: sp)
  qed
  moreover have "windows_ok ((wd_srv w)(peer := wd_srv w peer @ [m])) ((wd_tp w)(peer := ms_id m)) (wd_store w)"
    using w assms(3) by (fastforce simp: windows_ok_def window_complete_def)
  ultimately show ?thesis by (simp add: world_inv_def)
qed

lemma world_server_shrink:
  assumes "world_inv w" and "page_ok peer ms" and "ms_id ` set ms \<subseteq> ms_id ` set (wd_srv w peer)"
  shows "world_inv (w\<lparr>wd_srv := (wd_srv w)(peer := ms)\<rparr>)"
proof -
  have s: "server_ok (wd_srv w) (wd_tp w)" and w: "windows_ok (wd_srv w) (wd_tp w) (wd_store w)"
    using assms(1) by (simp_all add: world_inv_def)
  have ex: "\<exists>n\<in>set (wd_srv w peer). ms_id n = ms_id m" if "m \<in> set ms" for m using that assms(3) by force
  have "server_ok ((wd_srv w)(peer := ms)) (wd_tp w)"
    unfolding server_ok_def
  proof (intro allI conjI)
    fix p
    show "page_ok p (((wd_srv w)(peer := ms)) p)" "0 \<le> wd_tp w p"
      using s assms(2) by (simp_all add: server_ok_def)
    have "ms_id m \<le> wd_tp w peer" if "m \<in> set ms" for m
    proof -
      obtain n where "n \<in> set (wd_srv w peer)" "ms_id n = ms_id m" using ex [OF \<open>m \<in> set ms\<close>] by blast
      then show ?thesis using s by (metis server_ok_def)
    qed
    then show "\<forall>m\<in>set (((wd_srv w)(peer := ms)) p). ms_id m \<le> wd_tp w p"
      using s by (simp add: server_ok_def)
  qed
  moreover have "windows_ok ((wd_srv w)(peer := ms)) (wd_tp w) (wd_store w)"
    unfolding windows_ok_def
  proof (intro allI impI conjI)
    show "od_wf (mt_rows (wd_store w))" using w by (simp add: windows_ok_def)
    fix p low high assume row: "sync_row p (wd_store w) = Some (low, high)"
    then show "0 \<le> low" "high \<le> wd_tp w p" using w by (auto simp: windows_ok_def)
    have "window_complete (wd_srv w p) p low high (wd_store w)" using w row by (simp add: windows_ok_def)
    moreover have "ms_id m \<in> stored peer (wd_store w)"
      if wc: "window_complete (wd_srv w peer) peer low high (wd_store w)" and m: "m \<in> set ms"
        and b: "low \<le> ms_id m" "ms_id m \<le> high" for m
    proof -
      obtain n where "n \<in> set (wd_srv w peer)" "ms_id n = ms_id m" using ex [OF m] by blast
      then show ?thesis using wc b by (metis window_complete_def)
    qed
    ultimately show "window_complete (((wd_srv w)(peer := ms)) p) p low high (wd_store w)"
      by (auto simp: window_complete_def)
  qed
  ultimately show ?thesis by (simp add: world_inv_def)
qed

lemma world_step_keeps: "world_inv w \<Longrightarrow> world_step w w' \<Longrightarrow> world_inv w'"
proof (erule world_stepE)
  fix m assume "world_inv w" "wd_tp w (ms_dialog_id m) < ms_id m"
    "w' = w\<lparr>wd_srv := (wd_srv w)(ms_dialog_id m := wd_srv w (ms_dialog_id m) @ [m]),
      wd_tp := (wd_tp w)(ms_dialog_id m := ms_id m)\<rparr>"
  then show "world_inv w'" using world_server_new [of w m "ms_dialog_id m"] by simp
next
  fix peer keep assume "world_inv w" and w': "w' = w\<lparr>wd_srv := (wd_srv w)(peer := filter keep (wd_srv w peer))\<rparr>"
  then show "world_inv w'" unfolding w'
    by (intro world_server_shrink page_ok_filter) (auto simp: world_inv_def server_ok_def)
next
  fix peer f assume i: "world_inv w" and w': "w' = w\<lparr>wd_srv := (wd_srv w)(peer := map (\<lambda>m. m\<lparr>ms_text := f m\<rparr>) (wd_srv w peer))\<rparr>"
  have "page_ok peer (map (\<lambda>m. m\<lparr>ms_text := f m\<rparr>) (wd_srv w peer))"
    using i by (auto simp: world_inv_def server_ok_def page_ok_def sorted_wrt_map)
  then show "world_inv w'" unfolding w' by (intro world_server_shrink [OF i]) force+
next
  fix since before limit now peer offset_id
  assume "world_inv w" "since_safe (wd_srv w) since" "before_safe (wd_srv w) before" "0 \<le> limit"
    and w': "w' = w\<lparr>wd_store := snd (store_history since before now peer limit offset_id (wd_store w))\<rparr>"
  then show "world_inv w'" unfolding w' by (simp add: world_inv_def windows_history)
next
  fix now m assume "world_inv w" and w': "w' = w\<lparr>wd_store := ingest now m (wd_store w)\<rparr>"
  then show "world_inv w'" unfolding w' by (simp add: world_inv_def ingest_def windows_upsert store_view)
next
  fix now peer m src lang assume "world_inv w" and w': "w' = w\<lparr>wd_store := record_outgoing now peer m src lang (wd_store w)\<rparr>"
  then show "world_inv w'" unfolding w' by (simp add: world_inv_def record_outgoing_def windows_upsert store_view)
next
  fix ev assume "world_inv w" "deletion_true (wd_srv w) ev" and w': "w' = w\<lparr>wd_store := apply_deletion ev (wd_store w)\<rparr>"
  then show "world_inv w'" unfolding w' by (simp add: world_inv_def windows_deletion)
next
  fix m assume "world_inv w" and w': "w' = w\<lparr>wd_store := upsert_message_for_translation m (wd_store w)\<rparr>"
  then show "world_inv w'" unfolding w' by (simp add: world_inv_def windows_translations)
next
  fix peer i lang t assume "world_inv w" and w': "w' = w\<lparr>wd_store := set_message_translation peer i lang t (wd_store w)\<rparr>"
  then show "world_inv w'" unfolding w' by (simp add: world_inv_def windows_translations)
next
  assume "world_inv w" and w': "w' = w\<lparr>wd_store := clear_all_translations (wd_store w)\<rparr>"
  then show "world_inv w'" unfolding w' by (simp add: world_inv_def windows_translations)
qed

interpretation windows: inv_system world_step world_inv
  by unfold_locales (rule world_step_keeps)

definition empty_store :: "instant \<Rightarrow> msg_store" where
  "empty_store ttl = \<lparr>mt_rows = [], mt_sync = [], mt_ttl = ttl, mt_locks = [], mt_last = []\<rparr>"

lemma world_reach:
  assumes "server_ok srv tp" and "world_step\<^sup>*\<^sup>* \<lparr>wd_srv = srv, wd_tp = tp, wd_store = empty_store ttl\<rparr> w"
  shows "world_inv w"
  by (rule windows.reach_keeps [OF assms(2)])
    (simp add: world_inv_def assms(1) windows_ok_def empty_store_def sync_row_def)



lemma newest_sorted_tail:
  assumes s: "sorted_wrt (<) xs" and i: "i \<in> set xs" and h: "newest n xs \<noteq> []" "hd (newest n xs) \<le> (i::int)"
  shows "i \<in> set (newest n xs)"
proof -
  obtain pre where pre: "xs = pre @ newest n xs" using newest_suffix by blast
  then have "sorted_wrt (<) (pre @ newest n xs)" using s by simp
  then have "\<forall>x\<in>set pre. x < hd (newest n xs)" using h(1) by (simp add: sorted_wrt_append)
  then have "i \<notin> set pre" using h(2) by auto
  moreover have "i \<in> set pre \<union> set (newest n xs)" using i pre by (metis set_append)
  ultimately show ?thesis by simp
qed

lemma older_fetched:
  assumes f: "f = newest n (filter (\<lambda>m. ms_id m < offset_id) ms)" and ok: "page_ok peer ms" and n: "0 \<le> n"
  shows "sorted_wrt (<) (map ms_id f) \<and> int (length f) \<le> n \<and> (\<forall>x\<in>set f. ms_id x < offset_id)
    \<and> (\<forall>m\<in>set ms. ms_id m < offset_id \<longrightarrow> (int (length f) < n \<or> ms_id (hd f) \<le> ms_id m \<and> f \<noteq> []) \<longrightarrow> ms_id m \<in> ms_id ` set f)"
proof -
  let ?old = "filter (\<lambda>m. ms_id m < offset_id) ms"
  have oko: "page_ok peer ?old" by (rule page_ok_filter [OF ok])
  have s: "sorted_wrt (<) (map ms_id ?old)" and sf: "sorted_wrt (<) (map ms_id f)"
    using oko page_ok_newest [OF oko, of n] unfolding f by (simp_all add: page_ok_def)
  have len: "int (length f) \<le> n" using newest_length [OF n, of ?old] by (simp add: f)
  have mf: "map ms_id f = newest n (map ms_id ?old)" by (simp add: f newest_map)
  have "ms_id m \<in> ms_id ` set f"
    if m: "m \<in> set ms" "ms_id m < offset_id" and c: "int (length f) < n \<or> ms_id (hd f) \<le> ms_id m \<and> f \<noteq> []" for m
    using c
  proof
    assume "int (length f) < n"
    then have "int (length ?old) \<le> n" using newest_length [OF n, of ?old] by (simp add: f)
    then have fo: "f = ?old" unfolding f by (rule newest_all)
    have "m \<in> set ?old" using m by simp
    then show ?thesis unfolding fo by (rule imageI)
  next
    assume h: "ms_id (hd f) \<le> ms_id m \<and> f \<noteq> []"
    have "ms_id m \<in> set (newest n (map ms_id ?old))"
      using h m by (intro newest_sorted_tail [OF s]) (auto simp: mf [symmetric] hd_map)
    then show ?thesis by (simp add: mf [symmetric])
  qed
  then show ?thesis using sf len set_newest [of n ?old] by (auto simp: f)
qed

lemma older_cached:
  assumes wf: "od_wf (mt_rows st)" and wc: "window_complete srvl peer low high st" and ok: "page_ok peer srvl"
    and off: "offset_id \<le> high" and l: "0 \<le> limit" and ms: "ms = load_before peer limit offset_id low st"
    and enough: "low = 0 \<or> limit \<le> int (length ms)"
  shows "sorted_wrt (<) (map ms_id ms) \<and> int (length ms) \<le> limit \<and> (\<forall>x\<in>set ms. ms_id x < offset_id)
    \<and> (\<forall>m\<in>set srvl. ms_id m < offset_id \<longrightarrow> (int (length ms) < limit \<or> ms_id (hd ms) \<le> ms_id m \<and> ms \<noteq> []) \<longrightarrow> ms_id m \<in> ms_id ` set ms)"
proof -
  let ?S = "{i \<in> stored peer st. low \<le> i \<and> i < offset_id}"
  have fin: "finite ?S" by (rule finite_subset [of _ "snd ` fst ` set (mt_rows st)"]) (force simp: stored_def, simp)
  have ids: "map ms_id ms = newest limit (sorted_list_of_set ?S)"
    using load_ids [OF wf, of peer "\<lambda>i. low \<le> i \<and> i < offset_id" limit] by (simp add: ms load_before_def)
  have ss: "sorted_wrt (<) (sorted_list_of_set ?S)" by (rule strict_sorted_list_of_set)
  obtain pre where pre: "sorted_list_of_set ?S = pre @ map ms_id ms" using newest_suffix ids by metis
  have sm: "sorted_wrt (<) (map ms_id ms)" using ss unfolding pre by (simp add: sorted_wrt_append)
  have "length (map ms_id ms) = length (newest limit (sorted_list_of_set ?S))" by (rule arg_cong [OF ids])
  then have lenS: "int (length ms) = min limit (int (length (sorted_list_of_set ?S)))"
    using newest_length [OF l, of "sorted_list_of_set ?S"] by (simp only: length_map)
  then have len: "int (length ms) \<le> limit" by linarith
  have below: "\<forall>x\<in>set ms. low \<le> ms_id x \<and> ms_id x < offset_id"
  proof -
    have "set (newest limit (sorted_list_of_set ?S)) \<subseteq> ?S"
      using set_newest [of limit "sorted_list_of_set ?S"] unfolding set_sorted_list_of_set [OF fin] .
    then have "ms_id ` set ms \<subseteq> ?S" unfolding ids [symmetric] set_map .
    then have "ms_id x \<in> ?S" if "x \<in> set ms" for x using that by (rule subsetD [OF _ imageI])
    then show ?thesis by (intro ballI) (auto dest!: meta_spec)
  qed
  have "ms_id m \<in> ms_id ` set ms"
    if m: "m \<in> set srvl" "ms_id m < offset_id" and c: "int (length ms) < limit \<or> ms_id (hd ms) \<le> ms_id m \<and> ms \<noteq> []" for m
  proof -
    have "low \<le> ms_id m"
    proof (cases "int (length ms) < limit")
      case True
      then have "low = 0" using enough by auto
      then show ?thesis using m(1) ok by (auto simp: page_ok_def less_imp_le)
    next
      case False
      then have "hd ms \<in> set ms" "ms_id (hd ms) \<le> ms_id m" using c by auto
      moreover have "low \<le> ms_id (hd ms)" using below calculation(1) by blast
      ultimately show ?thesis by linarith
    qed
    then have inS: "ms_id m \<in> ?S"
      using wc m off by (auto simp: window_complete_def)
    then have inL: "ms_id m \<in> set (sorted_list_of_set ?S)" using fin by simp
    have "ms_id m \<in> set (newest limit (sorted_list_of_set ?S))"
      using c
    proof
      assume "int (length ms) < limit"
      then have "int (length (sorted_list_of_set ?S)) \<le> limit" using lenS by linarith
      then show ?thesis using inL by (simp only: newest_all)
    next
      assume h: "ms_id (hd ms) \<le> ms_id m \<and> ms \<noteq> []"
      then show ?thesis by (intro newest_sorted_tail [OF ss inL]) (auto simp: ids [symmetric] hd_map)
    qed
    then show ?thesis by (simp add: ids [symmetric])
  qed
  then show ?thesis using sm len below by blast
qed



section \<open>A concrete dialog\<close>

definition demo_msg :: "int \<Rightarrow> int \<Rightarrow> message" where
  "demo_msg peer i = \<lparr>ms_id = i, ms_dialog_id = peer, ms_sender_id = 7, ms_out = False, ms_date = 0,
     ms_text = Some [104, 105], ms_media = None, ms_reply_to_id = None, ms_is_forward = False,
     ms_translated_text = None, ms_sender = None\<rparr>"

definition demo_server :: "int list \<Rightarrow> int \<Rightarrow> message list" where
  "demo_server ids peer = (if peer = 5 then map (demo_msg 5) ids else [])"

definition demo_since :: "int list \<Rightarrow> since_call" where
  "demo_since ids peer min_id limit = Some (newest limit (filter (\<lambda>m. min_id < ms_id m) (demo_server ids peer)))"

definition demo_before :: "int list \<Rightarrow> since_call" where
  "demo_before ids peer limit offset_id = Some (newest limit (filter (\<lambda>m. ms_id m < offset_id) (demo_server ids peer)))"

definition demo_history :: "int list \<Rightarrow> instant \<Rightarrow> int \<Rightarrow> msg_store \<Rightarrow> message list option \<times> msg_store" where
  "demo_history ids now offset_id = store_history (demo_since ids) (demo_before ids) now 5 2 offset_id"

lemma demo_serves:
  "since_serves (demo_server ids) (demo_since ids)" "since_safe (demo_server ids) (demo_since ids)"
  "before_safe (demo_server ids) (demo_before ids)"
  by (simp_all add: since_serves_def since_safe_def before_safe_def demo_since_def demo_before_def)

lemma demo_page: "sorted_wrt (<) ids \<Longrightarrow> \<forall>i\<in>set ids. 0 < i \<Longrightarrow> page_ok p (demo_server ids p)"
  by (auto simp: page_ok_def demo_server_def demo_msg_def comp_def)

lemma demo_server_ok: "server_ok (demo_server [1, 2, 3]) (\<lambda>_. 3)"
  using demo_page [of "[1, 2, 3]"] by (auto simp: server_ok_def demo_server_def demo_msg_def)

lemma history_returns_newest_witness:
  "map_option (map core_of) (fst (demo_history [1, 2, 3] 0 0 (empty_store 15)))
    = Some (map core_of (map (demo_msg 5) [2, 3]))"
proof -
  have "map_option (map core_of) (fst (demo_history [1, 2, 3] 0 0 (empty_store 15)))
    = Some (map core_of (newest 2 (demo_server [1, 2, 3] 5)))"
    unfolding demo_history_def
    by (rule history_returns_newest)
      (simp_all add: demo_serves demo_page stale_at_def sync_row_def store_view empty_store_def)
  then show ?thesis by (simp add: demo_server_def newest_def limit_rows_def)
qed

lemma demo_first_sync:
  "mt_sync (snd (demo_history [1, 2, 3] 0 0 (empty_store 15))) = [(5, 2, 3)]"
  "od_keys (mt_rows (snd (demo_history [1, 2, 3] 0 0 (empty_store 15)))) = [(5, 2), (5, 3)]"
  by code_simp+

lemma demo_step: "world_step\<^sup>*\<^sup>* \<lparr>wd_srv = demo_server [1, 2, 3], wd_tp = (\<lambda>_. 3), wd_store = empty_store 15\<rparr>
    \<lparr>wd_srv = demo_server [1, 2, 3], wd_tp = (\<lambda>_. 3), wd_store = snd (demo_history [1, 2, 3] 0 0 (empty_store 15))\<rparr>"
proof (rule r_into_rtranclp)
  let ?w = "\<lparr>wd_srv = demo_server [1, 2, 3], wd_tp = (\<lambda>_. 3), wd_store = empty_store 15\<rparr>"
  have "world_step ?w (?w\<lparr>wd_store := snd (store_history (demo_since [1, 2, 3]) (demo_before [1, 2, 3]) 0 5 2 0 (wd_store ?w))\<rparr>)"
    by (rule world_step.read_history) (simp_all add: demo_serves)
  then show "world_step ?w \<lparr>wd_srv = demo_server [1, 2, 3], wd_tp = (\<lambda>_. 3),
      wd_store = snd (demo_history [1, 2, 3] 0 0 (empty_store 15))\<rparr>"
    by (simp add: demo_history_def)
qed



text \<open>
  The low-edge absorption of \<open>_history_before\<close> does not prune: a row left below the window,
  whose message the server has deleted meanwhile, is back in the window after a page of older
  messages was fetched, and the same page read again from the cache contains it.
\<close>

theorem backfill_resurrects_deleted_row:
  "let st1 = snd (demo_history [1, 2, 3] 0 0 (empty_store 15));
       st2 = snd (demo_history [1, 3, 4, 5] 100 0 st1);
       (page1, st3) = demo_history [1, 3, 4, 5] 100 4 st2;
       page2 = fst (demo_history [1, 3, 4, 5] 100 4 st3)
   in map_option (map ms_id) page1 = Some [1, 3] \<and> map_option (map ms_id) page2 = Some [2, 3]"
  by code_simp

end
