(* ===== verification/Files.thy ===== *)
theory Files
  imports Py_Str
begin

text \<open>
  The file system as the program uses it: a directory of named files, changed by single
  operations between which the process can die. The write-temp-then-replace idiom of
  \<open>core/dotenv.py\<close>, \<open>core/auth.py\<close> (\<open>SessionStore\<close>) and \<open>interop/worker.py\<close>
  (\<open>ReportQueue._save\<close>) is a list of such operations, so that a crash is a prefix of it.
\<close>

type_synonym files = "(string, string) odict"

datatype fs_op =
    FCreate string
  | FAppend string char
  | FSync string
  | FReplace string string
  | FUnlink string
  | FSyncDir

definition fs_exec :: "fs_op \<Rightarrow> files \<Rightarrow> files" where
  "fs_exec op fs =
     (case op of
        FCreate n \<Rightarrow> od_set n [] fs
      | FAppend n c \<Rightarrow> (case od_get fs n of None \<Rightarrow> fs | Some s \<Rightarrow> od_set n (s @ [c]) fs)
      | FSync n \<Rightarrow> fs
      | FReplace a b \<Rightarrow> (case od_get fs a of None \<Rightarrow> fs | Some s \<Rightarrow> od_set b s (od_pop a fs))
      | FUnlink n \<Rightarrow> od_pop n fs
      | FSyncDir \<Rightarrow> fs)"

definition fs_run :: "fs_op list \<Rightarrow> files \<Rightarrow> files" where
  "fs_run ops fs = fold fs_exec ops fs"

text \<open>Create a temporary file, write it, sync it, rename it over the target.\<close>

definition replace_prog :: "string \<Rightarrow> string \<Rightarrow> string \<Rightarrow> fs_op list" where
  "replace_prog tmp path content =
     [FCreate tmp] @ map (FAppend tmp) content @ [FSync tmp, FReplace tmp path, FSyncDir]"

text \<open>The process dies after \<open>k\<close> operations.\<close>

definition crash_after :: "nat \<Rightarrow> fs_op list \<Rightarrow> files \<Rightarrow> files" where
  "crash_after k ops fs = fs_run (take k ops) fs"

text \<open>An operation raises after \<open>k\<close> others and the handler removes the temporary file.\<close>

definition abort_after :: "nat \<Rightarrow> string \<Rightarrow> fs_op list \<Rightarrow> files \<Rightarrow> files" where
  "abort_after k tmp ops fs = fs_exec (FUnlink tmp) (crash_after k ops fs)"

named_theorems fs_simps "effect of file operations"

lemma fs_run_simps [fs_simps]:
  "fs_run [] fs = fs" "fs_run (op # ops) fs = fs_run ops (fs_exec op fs)"
  "fs_run (xs @ ys) fs = fs_run ys (fs_run xs fs)"
  by (simp_all add: fs_run_def)

lemma fs_exec_get [fs_simps]:
  "od_get (fs_exec (FCreate n) fs) m = (if m = n then Some [] else od_get fs m)"
  "od_get (fs_exec (FAppend n c) fs) m = (if m = n then map_option (\<lambda>s. s @ [c]) (od_get fs n) else od_get fs m)"
  "od_get (fs_exec (FSync n) fs) m = od_get fs m"
  "od_get (fs_exec FSyncDir fs) m = od_get fs m"
  "od_get (fs_exec (FUnlink n) fs) m = (if m = n then None else od_get fs m)"
  "od_get (fs_exec (FReplace a b) fs) m =
     (if od_get fs a = None then od_get fs m else if m = b then od_get fs a else if m = a then None else od_get fs m)"
  by (auto simp: fs_exec_def od_simps split: option.splits)

lemma append_run: "od_get (fs_run (map (FAppend tmp) s) fs) m =
    (if m = tmp then map_option (\<lambda>t. t @ s) (od_get fs tmp) else od_get fs m)"
  by (induction s arbitrary: fs) (auto simp: fs_simps option.map_comp comp_def option.map_id0 option.map_ident)

lemma crash_cases: "k \<le> n \<or> (\<exists>j. k = Suc n + j)" for k n :: nat
  by presburger

lemma replace_done: "tmp \<noteq> path \<Longrightarrow> od_get (fs_run (replace_prog tmp path content) fs) m =
    (if m = path then Some content else if m = tmp then None else od_get fs m)"
  by (simp add: replace_prog_def fs_simps append_run)

text \<open>Before the rename only the temporary file differs; afterwards everything is done.\<close>

lemma replace_prefix:
  assumes "tmp \<noteq> path"
  shows "(k \<le> Suc (Suc (length content)) \<longrightarrow> (\<forall>m. m \<noteq> tmp \<longrightarrow> od_get (crash_after k (replace_prog tmp path content) fs) m = od_get fs m))
    \<and> (Suc (Suc (length content)) < k \<longrightarrow> (\<forall>m. od_get (crash_after k (replace_prog tmp path content) fs) m =
         (if m = path then Some content else if m = tmp then None else od_get fs m)))"
proof (intro conjI impI allI)
  fix m assume k: "k \<le> Suc (Suc (length content))" and m: "m \<noteq> tmp"
  let ?pre = "[FCreate tmp] @ map (FAppend tmp) content @ [FSync tmp]"
  have e: "replace_prog tmp path content = ?pre @ [FReplace tmp path, FSyncDir]" by (simp add: replace_prog_def)
  have "k - length ?pre = 0" using k by simp
  then have t: "take k (replace_prog tmp path content) = take k ?pre"
    unfolding e take_append by (simp only: take0 append_Nil2)
  have "od_get (fs_run ops fs) m = od_get fs m" if "set ops \<subseteq> set ?pre" for ops
    using that
  proof (induction ops rule: rev_induct)
    case (snoc op ops)
    have "op = FCreate tmp \<or> op = FSync tmp \<or> (\<exists>c. op = FAppend tmp c)" using snoc.prems by auto
    then show ?case using snoc m by (auto simp: fs_simps)
  qed (simp add: fs_simps)
  then show "od_get (crash_after k (replace_prog tmp path content) fs) m = od_get fs m"
    unfolding crash_after_def t using set_take_subset by metis
next
  fix m assume k: "Suc (Suc (length content)) < k"
  have len: "length (replace_prog tmp path content) = Suc (Suc (Suc (Suc (length content))))" by (simp add: replace_prog_def)
  show "od_get (crash_after k (replace_prog tmp path content) fs) m =
      (if m = path then Some content else if m = tmp then None else od_get fs m)"
  proof (cases "k = Suc (Suc (Suc (length content)))")
    case True
    have "replace_prog tmp path content = ([FCreate tmp] @ map (FAppend tmp) content @ [FSync tmp, FReplace tmp path]) @ [FSyncDir]"
      by (simp add: replace_prog_def)
    then have "take k (replace_prog tmp path content) = [FCreate tmp] @ map (FAppend tmp) content @ [FSync tmp, FReplace tmp path]"
      using True by simp
    then show ?thesis using assms by (simp add: crash_after_def fs_simps append_run)
  next
    case False
    then have "take k (replace_prog tmp path content) = replace_prog tmp path content" using k len by simp
    then show ?thesis using replace_done [OF assms] by (simp add: crash_after_def)
  qed
qed

text \<open>The contract of a crash-safe writer, and what its callers rely on.\<close>

locale safe_writer =
  fixes crash :: "nat \<Rightarrow> string \<Rightarrow> files \<Rightarrow> files" and target :: string and scratch :: string
  assumes old_or_new: "od_get (crash k s fs) target = od_get fs target \<or> od_get (crash k s fs) target = Some s"
    and others_kept: "m \<noteq> target \<Longrightarrow> m \<noteq> scratch \<Longrightarrow> od_get (crash k s fs) m = od_get fs m"
begin

text \<open>After any number of interrupted writes the target holds the original or one of them.\<close>

lemma crashes_sound:
  "od_get (fold (\<lambda>(k, s). crash k s) ws fs) target \<in> insert (od_get fs target) (Some ` snd ` set ws)"
proof (induction ws arbitrary: fs)
  case (Cons w ws)
  obtain k s where w: "w = (k, s)" by (cases w)
  have "od_get (fold (\<lambda>(k, s). crash k s) ws (crash k s fs)) target
      \<in> insert (od_get (crash k s fs) target) (Some ` snd ` set ws)" by (rule Cons.IH)
  then show ?case using old_or_new [of k s fs] by (auto simp: w)
qed simp

lemma crashes_others: "m \<noteq> target \<Longrightarrow> m \<noteq> scratch \<Longrightarrow>
    od_get (fold (\<lambda>(k, s). crash k s) ws fs) m = od_get fs m"
  by (induction ws arbitrary: fs) (auto simp: others_kept)

end

lemma replace_crash_target: "tmp \<noteq> path \<Longrightarrow>
    od_get (crash_after k (replace_prog tmp path s) fs) path \<in> {od_get fs path, Some s}"
  using replace_prefix [of tmp path k s fs] by (cases "k \<le> Suc (Suc (length s))") auto

lemma replace_crash_other: "tmp \<noteq> path \<Longrightarrow> m \<noteq> path \<Longrightarrow> m \<noteq> tmp \<Longrightarrow>
    od_get (crash_after k (replace_prog tmp path s) fs) m = od_get fs m"
  using replace_prefix [of tmp path k s fs] by (cases "k \<le> Suc (Suc (length s))") auto

lemma abort_target: "tmp \<noteq> path \<Longrightarrow>
    od_get (abort_after k tmp (replace_prog tmp path s) fs) path \<in> {od_get fs path, Some s}
    \<and> od_get (abort_after k tmp (replace_prog tmp path s) fs) tmp = None"
  using replace_crash_target [of tmp path k s fs] by (simp add: abort_after_def fs_simps)

end
