(* ===== verification/Config_Files.thy ===== *)
theory Config_Files
  imports Files "HOL-Library.List_Lexorder" "HOL-Library.Char_ord"
begin

text \<open>
  \<open>src/tg_messenger/core/dotenv.py\<close> (the merge writer of \<open>~/.tg/.env\<close>), \<open>core/paths.py\<close> (the
  home root and its frozen fallback) and \<open>cli/parsers.py\<close> (id lists and \<open>HH:MM\<close>). Text is
  Latin-1; the environment, the directory listing and \<open>expanduser(expandvars(...))\<close> are
  arguments; local time is seconds since a local midnight.
\<close>

section \<open>Lines and pairs\<close>

definition is_linebreak :: "char \<Rightarrow> bool" where
  "is_linebreak c \<longleftrightarrow> (let n = code_of c in 10 \<le> n \<and> n \<le> 13 \<or> 28 \<le> n \<and> n \<le> 30 \<or> n = 133)"

text \<open>\<open>str.splitlines()\<close>, with the carriage return and line feed pair as one break.\<close>

fun splitlines_acc :: "string \<Rightarrow> string \<Rightarrow> string list" where
  "splitlines_acc acc [] = (if acc = [] then [] else [rev acc])"
| "splitlines_acc acc [c] = (if is_linebreak c then [rev acc] else [rev (c # acc)])"
| "splitlines_acc acc (c # d # s) =
     (if is_linebreak c
      then (if code_of c = 13 \<and> code_of d = 10 then rev acc # splitlines_acc [] s
            else rev acc # splitlines_acc [] (d # s))
      else splitlines_acc (c # acc) (d # s))"

definition splitlines :: "string \<Rightarrow> string list" where
  "splitlines s = splitlines_acc [] s"

definition is_quote :: "char \<Rightarrow> bool" where
  "is_quote c \<longleftrightarrow> code_of c = 39 \<or> code_of c = 34"

definition clean_value :: "string \<Rightarrow> string" where
  "clean_value v = strip_by is_quote (strip v)"

definition parse_dotenv_line :: "string \<Rightarrow> (string \<times> string) option" where
  "parse_dotenv_line raw =
     (let line = strip raw in
      if line = [] \<or> hd line = CHR ''#'' then None
      else (case partition_at (CHR ''='') line of
              None \<Rightarrow> None
            | Some (k, v) \<Rightarrow> (let key = strip k in if key = [] then None else Some (key, clean_value v))))"

fun pairs_of_lines :: "string list \<Rightarrow> (string, string) odict \<Rightarrow> (string, string) odict" where
  "pairs_of_lines [] pairs = pairs"
| "pairs_of_lines (l # ls) pairs =
     (case parse_dotenv_line l of None \<Rightarrow> pairs_of_lines ls pairs
      | Some (k, v) \<Rightarrow> pairs_of_lines ls (od_set k v pairs))"

text \<open>\<open>_parse_dotenv_lines\<close> (and the CLI's identical \<open>_parse_dotenv\<close>): a missing file is empty.\<close>

definition parse_dotenv :: "string option \<Rightarrow> (string, string) odict" where
  "parse_dotenv content = (case content of None \<Rightarrow> [] | Some s \<Rightarrow> pairs_of_lines (splitlines s) [])"

definition serialize_env :: "(string, string) odict \<Rightarrow> string" where
  "serialize_env d = join [CHR 0x0A] (map (\<lambda>(k, v). k @ ''='' @ v) (sort_key fst d)) @ [CHR 0x0A]"

definition merge_env :: "(string, string) odict \<Rightarrow> (string, string) odict \<Rightarrow> (string, string) odict" where
  "merge_env old updates = fold (\<lambda>(k, v). od_set k v) updates old"

definition env_tmp :: "string \<Rightarrow> string \<Rightarrow> string" where
  "env_tmp pid name = ''.'' @ name @ ''.'' @ pid @ ''.tmp''"

text \<open>The operations \<open>write_env_values\<close> performs on the directory of the file.\<close>

definition write_env_ops :: "string \<Rightarrow> string \<Rightarrow> (string, string) odict \<Rightarrow> files \<Rightarrow> fs_op list" where
  "write_env_ops pid name updates fs =
     replace_prog (env_tmp pid name) name (serialize_env (merge_env (parse_dotenv (od_get fs name)) updates))"

definition write_env_values :: "string \<Rightarrow> string \<Rightarrow> (string, string) odict \<Rightarrow> files \<Rightarrow> files" where
  "write_env_values pid name updates fs = fs_run (write_env_ops pid name updates fs) fs"

lemma env_tmp_other: "env_tmp pid name \<noteq> name"
proof
  assume "env_tmp pid name = name"
  then have "length (env_tmp pid name) = length name" by simp
  then show False by (simp add: env_tmp_def)
qed

interpretation env_file: safe_writer "\<lambda>k s. crash_after k (replace_prog (env_tmp pid name) name s)" name "env_tmp pid name"
  for pid name
  by unfold_locales
    (use replace_crash_target [OF env_tmp_other] replace_crash_other [OF env_tmp_other] in \<open>auto\<close>)

section \<open>Reading back what was written\<close>

definition plain_key :: "string \<Rightarrow> bool" where
  "plain_key k \<longleftrightarrow> k \<noteq> [] \<and> trimmed is_space k \<and> CHR ''='' \<notin> set k \<and> hd k \<noteq> CHR ''#'' \<and> \<not> list_ex is_linebreak k"

definition plain_value :: "string \<Rightarrow> bool" where
  "plain_value v \<longleftrightarrow> \<not> list_ex is_linebreak v"

lemma linebreak_space: "is_linebreak c \<Longrightarrow> is_space c"
  by (auto simp: is_linebreak_def is_space_def space_cp_def Let_def)

lemma splitlines_no_break: "l \<in> set (splitlines_acc acc s) \<Longrightarrow> \<not> list_ex is_linebreak acc \<Longrightarrow> \<not> list_ex is_linebreak l"
  by (induction acc s rule: splitlines_acc.induct) (auto split: if_splits)

lemma splitlines_line: "\<not> list_ex is_linebreak l \<Longrightarrow> splitlines_acc acc (l @ CHR 0x0A # s) = (rev acc @ l) # splitlines_acc [] s"
proof (induction l arbitrary: acc)
  case Nil
  have "is_linebreak (CHR 0x0A)" by (simp add: is_linebreak_def)
  then show ?case by (cases s) simp_all
next
  case (Cons c l)
  then have "splitlines_acc acc ((c # l) @ CHR 0x0A # s) = splitlines_acc (c # acc) (l @ CHR 0x0A # s)"
    by (cases "l @ CHR 0x0A # s") auto
  then show ?case using Cons by simp
qed

lemma splitlines_join:
  "ls \<noteq> [] \<Longrightarrow> \<forall>l\<in>set ls. \<not> list_ex is_linebreak l \<Longrightarrow> splitlines (join [CHR 0x0A] ls @ [CHR 0x0A]) = ls"
proof (induction "[CHR 0x0A]" ls rule: join.induct)
  case (2 x)
  then show ?case using splitlines_line [of x "[]" "[]"] by (simp add: splitlines_def)
next
  case (3 x y xs)
  then show ?case using splitlines_line [of x "[]" "join [CHR 0x0A] (y # xs) @ [CHR 0x0A]"] by (simp add: splitlines_def)
qed simp

lemma strip_app_left: "x \<noteq> [] \<Longrightarrow> \<not> p (hd x) \<Longrightarrow> \<not> p c \<Longrightarrow> strip_by p (x @ c # v) = x @ c # rstrip_by p v"
proof -
  assume x: "x \<noteq> []" "\<not> p (hd x)" and c: "\<not> p c"
  have "dropWhile p (x @ c # v) = x @ c # v" using x by (cases x) auto
  moreover have "dropWhile p (rev v @ c # rev x) = dropWhile p (rev v) @ c # rev x"
    using c by (induction "rev v") (simp_all add: dropWhile_append3 dropWhile_append)
  ultimately show ?thesis by (simp add: strip_by_def lstrip_by_def rstrip_by_def)
qed

lemma trimmed_rstrip: "trimmed p s \<Longrightarrow> rev (dropWhile p (rev s)) = s"
  by (cases s rule: rev_cases) (auto simp: trimmed_def)

lemma rstrip_ws: "strip_by p (rstrip_by p v) = strip_by p v"
proof -
  have a: "dropWhile p (rev (dropWhile p (rev (dropWhile p v)))) = dropWhile p (rev (dropWhile p (rev v)))" for v :: "'a list"
  proof (cases "dropWhile p v = []")
    case True
    then have all: "\<forall>x\<in>set v. p x" by (simp add: dropWhile_eq_Nil_conv)
    then show ?thesis by (simp add: dropWhile_eq_Nil_conv [THEN iffD2] dropWhile_append2)
  next
    case False
    have "trimmed p (strip_by p v)" by (rule trimmed_strip)
    then have 1: "dropWhile p (strip_by p v) = strip_by p v"
      by (auto simp: trimmed_def dropWhile_eq_self_iff)
    obtain pre where pre: "v = pre @ dropWhile p v" "\<forall>x\<in>set pre. p x"
      by (metis takeWhile_dropWhile_id set_takeWhileD)
    have ne: "dropWhile p (rev (dropWhile p v)) \<noteq> []"
      using False hd_dropWhile [of p v] by (metis dropWhile_eq_Nil_conv hd_in_set set_rev)
    have "rev v = rev (dropWhile p v) @ rev pre" using pre(1) by (metis rev_append)
    then have "dropWhile p (rev v) = dropWhile p (rev (dropWhile p v)) @ rev pre"
      using ne by (metis dropWhile_append1 dropWhile_eq_Nil_conv)
    then have "rev (dropWhile p (rev v)) = pre @ rev (dropWhile p (rev (dropWhile p v)))" by simp
    then have "dropWhile p (rev (dropWhile p (rev v))) = dropWhile p (rev (dropWhile p (rev (dropWhile p v))))"
      using pre(2) by (simp add: dropWhile_append2)
    then show ?thesis by simp
  qed
  have "dropWhile p (rstrip_by p v) = dropWhile p (strip_by p v)"
    using a [of v] by (simp add: strip_by_def lstrip_by_def rstrip_by_def)
  also have "\<dots> = strip_by p v"
    using trimmed_strip [of p v] by (auto simp: trimmed_def dropWhile_eq_self_iff)
  finally have "strip_by p (rstrip_by p v) = rev (dropWhile p (rev (strip_by p v)))"
    by (simp add: strip_by_def [of p "rstrip_by p v"] lstrip_by_def rstrip_by_def [of p "strip_by p v"])
  also have "\<dots> = strip_by p v" by (rule trimmed_rstrip [OF trimmed_strip])
  finally show ?thesis .
qed

lemma parse_serialized_line:
  assumes "plain_key k"
  shows "parse_dotenv_line (k @ ''='' @ v) = Some (k, clean_value v)"
proof -
  have k: "k \<noteq> []" "\<not> is_space (hd k)" "CHR ''='' \<notin> set k" "hd k \<noteq> CHR ''#''" and t: "trimmed is_space k"
    using assms by (auto simp: plain_key_def trimmed_def)
  have "\<not> is_space (CHR ''='')" by (simp add: is_space_def space_cp_def)
  then have s: "strip (k @ CHR ''='' # v) = k @ CHR ''='' # rstrip_by is_space v"
    using k by (intro strip_app_left)
  have "hd (k @ CHR ''='' # rstrip_by is_space v) = hd k" using k(1) by simp
  then show ?thesis using k t partition_at_app [of "CHR ''=''" k "rstrip_by is_space v"]
    by (simp add: parse_dotenv_line_def Let_def s strip_trimmed clean_value_def rstrip_ws)
qed

lemma pairs_of_serialized:
  "\<forall>(k, v)\<in>set d. plain_key k \<Longrightarrow>
    pairs_of_lines (map (\<lambda>(k, v). k @ ''='' @ v) d) acc = fold (\<lambda>(k, v). od_set k (clean_value v)) d acc"
  by (induction d arbitrary: acc) (auto simp: parse_serialized_line simp del: append_Cons append_Nil split: prod.splits)

lemma fold_set_get: "od_get (fold (\<lambda>(k, v). od_set k (f v)) d acc) j =
    (case map_of (rev d) j of None \<Rightarrow> od_get acc j | Some v \<Rightarrow> Some (f v))"
  by (induction d arbitrary: acc) (auto simp: od_simps map_add_def split: option.splits)

lemma map_of_perm: "distinct (map fst d) \<Longrightarrow> set e = set d \<Longrightarrow> distinct (map fst e) \<Longrightarrow> map_of e j = map_of d j"
proof -
  assume d: "distinct (map fst d)" "set e = set d" "distinct (map fst e)"
  have "map_of e j = Some v \<longleftrightarrow> map_of d j = Some v" for v using d by simp
  then show ?thesis by (cases "map_of d j"; cases "map_of e j") auto
qed

lemma od_wf_pairs: "od_wf acc \<Longrightarrow> od_wf (pairs_of_lines ls acc)"
  by (induction ls arbitrary: acc) (auto simp: od_inv split: option.split)

lemma od_wf_parse: "od_wf (parse_dotenv c)"
  by (simp add: parse_dotenv_def od_wf_pairs split: option.split)

lemma od_wf_merge: "od_wf old \<Longrightarrow> od_wf (merge_env old updates)"
  unfolding merge_env_def by (induction updates arbitrary: old) (auto simp: od_inv)

lemma merge_get: "od_get (merge_env old updates) k = (case map_of (rev updates) k of None \<Rightarrow> od_get old k | Some v \<Rightarrow> Some v)"
  unfolding merge_env_def using fold_set_get [of "\<lambda>v. v" updates old k] by simp

text \<open>Keys and values that come out of a file are fit to be written again.\<close>

lemma parsed_line_plain:
  assumes "parse_dotenv_line l = Some (k, v)" and "\<not> list_ex is_linebreak l"
  shows "plain_key k \<and> plain_value v"
proof -
  let ?line = "strip l"
  obtain a b where p: "partition_at (CHR ''='') ?line = Some (a, b)" and k: "k = strip a" and v: "v = clean_value b"
    and ne: "?line \<noteq> []" "hd ?line \<noteq> CHR ''#''" "strip a \<noteq> []"
    using assms(1) by (auto simp: parse_dotenv_line_def Let_def split: if_splits option.splits)
  have line: "?line = a @ CHR ''='' # b" and noeq: "CHR ''='' \<notin> set a" using partition_at_Some [OF p] by simp_all
  have nb: "\<not> list_ex is_linebreak s" if "set s \<subseteq> set l" for s using assms(2) that by (auto simp: list_ex_iff)
  have sub: "set a \<subseteq> set l" "set b \<subseteq> set l" using set_strip [of is_space l] by (auto simp: line)
  have an: "a \<noteq> []" using ne(3) by auto
  have "\<not> is_space (hd ?line)" using trimmed_strip [of is_space l] ne(1) by (auto simp: trimmed_def)
  then have "\<not> is_space (hd a)" using an by (simp add: line)
  then have "dropWhile is_space a = a" by (simp add: dropWhile_eq_self_iff)
  then have "strip a = rev (dropWhile is_space (rev a))" by (simp add: strip_by_def lstrip_by_def rstrip_by_def)
  then have hd: "hd (strip a) = hd a" using hd_rev_dropWhile [of is_space a] ne(3) by simp
  have "hd (strip a) \<noteq> CHR ''#''" using ne(2) an by (simp add: hd line)
  moreover have "\<not> list_ex is_linebreak (strip a)" using nb set_strip [of is_space a] sub by blast
  moreover have "CHR ''='' \<notin> set (strip a)" using noeq set_strip [of is_space a] by blast
  moreover have "set (clean_value b) \<subseteq> set b"
    unfolding clean_value_def using set_strip [of is_quote "strip b"] set_strip [of is_space b] by blast
  then have "\<not> list_ex is_linebreak (clean_value b)" using nb sub by blast
  ultimately show ?thesis using ne(3) trimmed_strip [of is_space a] by (simp add: plain_key_def plain_value_def k v)
qed

lemma parse_plain: "(k, v) \<in> set (parse_dotenv c) \<Longrightarrow> plain_key k \<and> plain_value v"
proof -
  have set_od_set: "p \<in> set (od_set a b d) \<Longrightarrow> p = (a, b) \<or> p \<in> set d" for p a b and d :: "(string, string) odict"
    by (induction a b d rule: od_set.induct) (auto split: if_splits)
  have gen: "\<forall>(k, v)\<in>set acc. plain_key k \<and> plain_value v \<Longrightarrow> \<forall>l\<in>set ls. \<not> list_ex is_linebreak l \<Longrightarrow>
      \<forall>(k, v)\<in>set (pairs_of_lines ls acc). plain_key k \<and> plain_value v" for ls acc
  proof (induction ls arbitrary: acc)
    case (Cons l ls)
    show ?case
    proof (cases "parse_dotenv_line l")
      case (Some p)
      obtain a b where p: "p = (a, b)" by (cases p)
      have "\<forall>(k, v)\<in>set (od_set a b acc). plain_key k \<and> plain_value v"
        using Cons.prems parsed_line_plain [of l a b] Some p set_od_set [of _ a b acc] by fastforce
      then show ?thesis using Cons Some p by simp
    qed (use Cons in simp)
  qed simp
  have ls: "\<forall>l\<in>set ls. \<not> list_ex is_linebreak l \<Longrightarrow> \<forall>(k, v)\<in>set (pairs_of_lines ls []). plain_key k \<and> plain_value v" for ls
    using gen [of "[]" ls] by simp
  have "\<forall>(k, v)\<in>set (pairs_of_lines (splitlines t) []). plain_key k \<and> plain_value v" for t
    by (rule ls) (use splitlines_no_break [of _ "[]" t] in \<open>simp add: splitlines_def\<close>)
  then show "(k, v) \<in> set (parse_dotenv c) \<Longrightarrow> plain_key k \<and> plain_value v"
    by (auto simp: parse_dotenv_def split: option.splits)
qed

lemma serialize_parse:
  assumes wf: "od_wf d" and plain: "\<forall>(k, v)\<in>set d. plain_key k \<and> plain_value v"
  shows "od_get (parse_dotenv (Some (serialize_env d))) k = map_option clean_value (od_get d k)"
proof (cases "d = []")
  case True
  have "is_linebreak (CHR 0x0A)" by (simp add: is_linebreak_def)
  then show ?thesis using True by (simp add: parse_dotenv_def serialize_env_def splitlines_def parse_dotenv_line_def)
next
  case False
  let ?s = "sort_key fst d"
  let ?ls = "map (\<lambda>(k, v). k @ ''='' @ v) ?s"
  have "\<not> is_linebreak (CHR ''='')" by (simp add: is_linebreak_def)
  then have "\<forall>l\<in>set ?ls. \<not> list_ex is_linebreak l" using plain by (auto simp: plain_key_def plain_value_def)
  moreover have "?ls \<noteq> []" using False by (metis length_0_conv length_map length_sort)
  ultimately have "splitlines (serialize_env d) = ?ls" unfolding serialize_env_def by (intro splitlines_join)
  then have "parse_dotenv (Some (serialize_env d)) = fold (\<lambda>(k, v). od_set k (clean_value v)) ?s []"
    using pairs_of_serialized [of ?s "[]"] plain by (auto simp: parse_dotenv_def)
  moreover have "distinct (map fst ?s)" using wf by (simp add: od_wf_def distinct_map)
  then have "map_of (rev ?s) k = map_of d k"
    using wf by (intro map_of_perm) (simp_all add: od_wf_def rev_map [symmetric])
  ultimately show ?thesis using fold_set_get [of clean_value ?s "[]" k] by (simp split: option.split)
qed

text \<open>
  Saving credentials merges: read back, every updated key has its new value and every
  other key the value it had, up to the quotes and outer blanks the parser strips; and if the
  process dies at any point of the write, the file is the old one or the complete new one.
\<close>

theorem write_env_merges:
  assumes "\<forall>(k, v)\<in>set updates. plain_key k \<and> plain_value v"
  shows "od_get (parse_dotenv (od_get (write_env_values pid name updates fs) name)) k =
      map_option clean_value (case map_of (rev updates) k of None \<Rightarrow> od_get (parse_dotenv (od_get fs name)) k | Some v \<Rightarrow> Some v)
    \<and> od_get (crash_after n (write_env_ops pid name updates fs) fs) name
        \<in> {od_get fs name, od_get (write_env_values pid name updates fs) name}"
proof -
  let ?m = "merge_env (parse_dotenv (od_get fs name)) updates"
  have w: "od_get (write_env_values pid name updates fs) name = Some (serialize_env ?m)"
    by (simp add: write_env_values_def write_env_ops_def replace_done [OF env_tmp_other])
  have wf: "od_wf ?m" by (rule od_wf_merge [OF od_wf_parse])
  have "plain_key j \<and> plain_value v" if "(j, v) \<in> set ?m" for j v
  proof -
    have "od_get ?m j = Some v" using that wf by (simp add: od_wf_def)
    then have "(j, v) \<in> set (rev updates) \<or> (j, v) \<in> set (parse_dotenv (od_get fs name))"
      by (auto simp: merge_get dest: map_of_SomeD split: option.splits)
    then show ?thesis using assms parse_plain by auto
  qed
  then have "od_get (parse_dotenv (Some (serialize_env ?m))) k = map_option clean_value (od_get ?m k)"
    by (intro serialize_parse [OF wf]) auto
  moreover have "od_get (crash_after n (write_env_ops pid name updates fs) fs) name
      \<in> {od_get fs name, Some (serialize_env ?m)}"
    unfolding write_env_ops_def using env_file.old_or_new by blast
  ultimately show ?thesis by (simp add: w merge_get)
qed


lemma write_env_merges_witness:
  "od_get (parse_dotenv (od_get (write_env_values ''7'' ''env'' [(''A'', ''2'')] [(''env'', serialize_env [(''B'', ''x'')])]) ''env'')) ''B'' = Some ''x''"
proof -
  have c: "clean_value ''x'' = ''x''" "clean_value ''2'' = ''2''"
    by (simp_all add: clean_value_def strip_by_def lstrip_by_def rstrip_by_def is_space_def space_cp_def is_quote_def)
  have p: "plain_key ''A'' \<and> plain_value ''2'' \<and> plain_key ''B'' \<and> plain_value ''x''"
    by (simp add: plain_key_def plain_value_def trimmed_def is_space_def space_cp_def is_linebreak_def)
  have "od_get (parse_dotenv (Some (serialize_env [(''B'', ''x'')]))) ''B'' = Some ''x''"
    using serialize_parse [of "[(''B'', ''x'')]" "''B''"] p c by (simp add: od_wf_def)
  then show ?thesis
    using write_env_merges [of "[(''A'', ''2'')]" "''7''" "''env''" "[(''env'', serialize_env [(''B'', ''x'')])]" "''B''" 0] p c
    by simp
qed

section \<open>The home root\<close>

text \<open>What \<open>is_dir\<close> and \<open>iterdir\<close> find at a path; an unreadable directory raises \<open>OSError\<close>.\<close>

datatype dir_state = NoDir | Entries "string list" | Unreadable

record home_env =
  he_raw :: "string option"
  he_default :: dir_state
  he_legacy :: dir_state

definition non_data_names :: "string list" where "non_data_names = [''.env'']"

definition has_data :: "dir_state \<Rightarrow> bool" where
  "has_data d = (case d of NoDir \<Rightarrow> False | Unreadable \<Rightarrow> False
     | Entries ns \<Rightarrow> list_ex (\<lambda>n. n \<notin> set non_data_names) ns)"

definition is_abs :: "string \<Rightarrow> bool" where
  "is_abs p \<longleftrightarrow> p \<noteq> [] \<and> hd p = CHR ''/''"

text \<open>\<open>Inl\<close> is the \<open>ValueError\<close>, with the expanded value.\<close>

definition resolve_env_dir :: "(string \<Rightarrow> string) \<Rightarrow> string option \<Rightarrow> (string, string option) result" where
  "resolve_env_dir expand var =
     (let raw = strip (case var of None \<Rightarrow> [] | Some v \<Rightarrow> v)
      in if raw = [] then Inr None
         else if \<not> is_abs (expand raw) then Inl (expand raw) else Inr (Some (expand raw)))"

definition tg_home :: "(string \<Rightarrow> string) \<Rightarrow> string \<Rightarrow> string \<Rightarrow> home_env \<Rightarrow> string option
    \<Rightarrow> (string, string) result \<times> string option" where
  "tg_home expand default_home legacy_home env root_cache =
     (case resolve_env_dir expand (he_raw env) of
        Inl e \<Rightarrow> (Inl e, root_cache)
      | Inr (Some p) \<Rightarrow> (Inr p, root_cache)
      | Inr None \<Rightarrow>
          (case root_cache of
             Some r \<Rightarrow> (Inr r, root_cache)
           | None \<Rightarrow>
               (let r = (if \<not> has_data (he_default env) \<and> has_data (he_legacy env) then legacy_home else default_home)
                in (Inr r, Some r))))"

text \<open>A process: one call after the other, the environment and the disk changing in between.\<close>

fun tg_home_calls :: "(string \<Rightarrow> string) \<Rightarrow> string \<Rightarrow> string \<Rightarrow> home_env list \<Rightarrow> string option
    \<Rightarrow> (string, string) result list" where
  "tg_home_calls expand dh lh [] cache = []"
| "tg_home_calls expand dh lh (e # es) cache =
     (case tg_home expand dh lh e cache of (r, cache') \<Rightarrow> r # tg_home_calls expand dh lh es cache')"

definition no_override :: "home_env \<Rightarrow> bool" where
  "no_override e \<longleftrightarrow> strip (case he_raw e of None \<Rightarrow> [] | Some v \<Rightarrow> v) = []"

lemma tg_home_frozen:
  "i < length es \<Longrightarrow> no_override (es ! i) \<Longrightarrow> tg_home_calls expand dh lh es (Some r) ! i = Inr r"
proof (induction es arbitrary: i)
  case (Cons e es)
  have "snd (tg_home expand dh lh e (Some r)) = Some r"
    by (simp add: tg_home_def split: sum.split option.split)
  then obtain x where x: "tg_home expand dh lh e (Some r) = (x, Some r)" by (cases "tg_home expand dh lh e (Some r)") auto
  show ?case
  proof (cases i)
    case 0
    then have "resolve_env_dir expand (he_raw e) = Inr None"
      using Cons.prems by (simp add: no_override_def resolve_env_dir_def Let_def)
    then show ?thesis using 0 x by (simp add: tg_home_def)
  next
    case (Suc j)
    then show ?thesis using Cons x by simp
  qed
qed simp

lemma tg_home_frozen_from:
  "i < j \<Longrightarrow> j < length es \<Longrightarrow> no_override (es ! i) \<Longrightarrow> no_override (es ! j) \<Longrightarrow>
    tg_home_calls expand dh lh es cache ! i = tg_home_calls expand dh lh es cache ! j"
proof (induction es arbitrary: i j cache)
  case (Cons e es)
  obtain x c where x: "tg_home expand dh lh e cache = (x, c)" by (cases "tg_home expand dh lh e cache")
  obtain j' where j: "j = Suc j'" using Cons.prems(1) by (cases j) auto
  show ?case
  proof (cases i)
    case 0
    then have "resolve_env_dir expand (he_raw e) = Inr None"
      using Cons.prems by (simp add: no_override_def resolve_env_dir_def Let_def)
    then obtain r where "x = Inr r" "c = Some r"
      using x by (auto simp: tg_home_def Let_def split: option.splits)
    then show ?thesis using Cons.prems 0 j x tg_home_frozen [of j' es expand dh lh r] by simp
  next
    case (Suc i')
    then show ?thesis using Cons.prems Cons.IH [of i' j' c] j x by simp
  qed
qed simp

text \<open>
  The home root never splits: in a process every call without an override returns the
  root the first one chose, whatever directories appear later; that choice is the legacy root
  only when it holds data and the new root holds none but \<open>.env\<close>; an override wins, and a
  relative one raises, on every call.
\<close>

theorem tg_home_stable:
  assumes "i \<le> j" and "j < length es" and "no_override (es ! i)" and "no_override (es ! j)"
  shows "tg_home_calls expand dh lh es None ! i = tg_home_calls expand dh lh es None ! j
    \<and> (\<forall>cache. fst (tg_home expand dh lh e cache) =
        (let raw = strip (case he_raw e of None \<Rightarrow> [] | Some v \<Rightarrow> v)
         in if raw \<noteq> [] then (if is_abs (expand raw) then Inr (expand raw) else Inl (expand raw))
            else (case cache of Some r \<Rightarrow> Inr r
                  | None \<Rightarrow> Inr (if \<not> has_data (he_default e) \<and> has_data (he_legacy e) then lh else dh))))"
proof -
  have "tg_home_calls expand dh lh es None ! i = tg_home_calls expand dh lh es None ! j"
    using assms tg_home_frozen_from [of i j es expand dh lh None] by (cases "i = j") auto
  moreover have "fst (tg_home expand dh lh e cache) =
        (let raw = strip (case he_raw e of None \<Rightarrow> [] | Some v \<Rightarrow> v)
         in if raw \<noteq> [] then (if is_abs (expand raw) then Inr (expand raw) else Inl (expand raw))
            else (case cache of Some r \<Rightarrow> Inr r
                  | None \<Rightarrow> Inr (if \<not> has_data (he_default e) \<and> has_data (he_legacy e) then lh else dh)))" for cache
    by (simp add: tg_home_def resolve_env_dir_def Let_def split: option.split)
  ultimately show ?thesis by blast
qed

lemma tg_home_stable_witness:
  "let e1 = \<lparr>he_raw = None, he_default = Entries [''.env''], he_legacy = Entries [''sessions'']\<rparr>;
       e2 = \<lparr>he_raw = Some '' '', he_default = Entries [''logs''], he_legacy = NoDir\<rparr>
   in tg_home_calls id ''/h/.tg'' ''/h/.tg_messenger'' [e1, e2] None ! 1 = Inr ''/h/.tg_messenger''"
proof -
  let ?e1 = "\<lparr>he_raw = None, he_default = Entries [''.env''], he_legacy = Entries [''sessions'']\<rparr>"
  let ?e2 = "\<lparr>he_raw = Some '' '', he_default = Entries [''logs''], he_legacy = NoDir\<rparr>"
  have n: "no_override ?e1" "no_override ?e2"
    by (simp_all add: no_override_def strip_by_def lstrip_by_def rstrip_by_def is_space_def space_cp_def)
  have "tg_home_calls id ''/h/.tg'' ''/h/.tg_messenger'' [?e1, ?e2] None ! 0 = Inr ''/h/.tg_messenger''"
    by (simp add: tg_home_def resolve_env_dir_def has_data_def non_data_names_def Let_def)
  then show ?thesis
    using tg_home_stable [of 0 1 "[?e1, ?e2]" id "''/h/.tg''" "''/h/.tg_messenger''"] n by (simp add: Let_def)
qed

section \<open>Command line parsers\<close>

fun parse_id_list :: "string list \<Rightarrow> int list option" where
  "parse_id_list [] = Some []"
| "parse_id_list (p # ps) =
     (if strip p = [] then parse_id_list ps
      else (case parse_int (strip p) of None \<Rightarrow> None | Some i \<Rightarrow> map_option (\<lambda>is. i # is) (parse_id_list ps)))"

definition parse_ids :: "string \<Rightarrow> int list option" where
  "parse_ids raw = parse_id_list (split_on (CHR '','') raw)"

text \<open>\<open>None\<close> is the \<open>ClickException\<close>; seconds are counted from a local midnight.\<close>

definition parse_at :: "string \<Rightarrow> instant \<Rightarrow> instant option" where
  "parse_at at_text now =
     (case partition_at (CHR '':'') at_text of
        None \<Rightarrow> None
      | Some (h, m) \<Rightarrow>
          (case (parse_int h, parse_int m) of
             (Some hh, Some mm) \<Rightarrow>
               if hh < 0 \<or> 23 < hh \<or> mm < 0 \<or> 59 < mm then None
               else (let midnight = 86400 * of_int \<lfloor>now / 86400\<rfloor>;
                         target = midnight + of_int (3600 * hh + 60 * mm)
                     in Some (if target \<le> now then target + 86400 else target))
           | _ \<Rightarrow> None))"

text \<open>
  An accepted \<open>--at HH:MM\<close> is the next such time of day: strictly in the future, at most
  a day away, and exactly that many seconds after a local midnight.
\<close>

theorem parse_at_next:
  assumes "parse_at t now = Some target"
  shows "now < target \<and> target \<le> now + 86400
    \<and> (\<exists>h m hh mm. t = h @ '':'' @ m \<and> parse_int h = Some hh \<and> parse_int m = Some mm
        \<and> 0 \<le> hh \<and> hh \<le> 23 \<and> 0 \<le> mm \<and> mm \<le> 59
        \<and> target - of_int (3600 * hh + 60 * mm) \<in> {86400 * of_int \<lfloor>now / 86400\<rfloor>, 86400 * (of_int \<lfloor>now / 86400\<rfloor> + 1)})"
proof -
  obtain h m hh mm where p: "partition_at (CHR '':'') t = Some (h, m)" and i: "parse_int h = Some hh" "parse_int m = Some mm"
    and b: "0 \<le> hh" "hh \<le> 23" "0 \<le> mm" "mm \<le> 59"
    using assms by (auto simp: parse_at_def split: option.splits if_splits)
  let ?d = "real_of_int \<lfloor>now / 86400\<rfloor>"
  let ?s = "real_of_int (3600 * hh + 60 * mm)"
  have tg: "target = (if 86400 * ?d + ?s \<le> now then 86400 * ?d + ?s + 86400 else 86400 * ?d + ?s)"
    using assms p i b by (auto simp: parse_at_def Let_def split: if_splits)
  have q: "?d \<le> now / 86400" "now / 86400 < ?d + 1" by linarith+
  from q have d: "86400 * ?d \<le> now" "now < 86400 * ?d + 86400" by linarith+
  have s: "0 \<le> ?s" "?s \<le> 86340" using b by auto
  have "now < target \<and> target \<le> now + 86400" using tg d s by auto
  moreover have "target - ?s \<in> {86400 * ?d, 86400 * (?d + 1)}" using tg by (auto simp: algebra_simps)
  ultimately show ?thesis using partition_at_Some [OF p] i b by auto
qed

lemma parse_at_next_witness: "\<exists>target. parse_at ''07:30'' 30000 = Some target \<and> 30000 < target"
proof -
  have "parse_int ''07'' = Some 7" "parse_int ''30'' = Some 30"
    by (simp_all add: parse_int_def Let_def strip_by_def lstrip_by_def rstrip_by_def is_space_def space_cp_def is_dec_def dec_value_def)
  then obtain target where "parse_at ''07:30'' 30000 = Some target" by (simp add: parse_at_def Let_def)
  then show ?thesis using parse_at_next by blast
qed

lemma parse_ids_roundtrip: "parse_ids (join [CHR '',''] (map str_int ids)) = Some ids"
proof (cases "ids = []")
  case True
  then show ?thesis by (simp add: parse_ids_def split_on_def)
next
  case False
  have nc: "CHR '','' \<notin> set (str_int i)" for i
    using digits_nat_dec [of "nat i"] digits_nat_dec [of "nat (- i)"]
    by (auto simp: str_int_def list_all_iff is_dec_def split: if_splits)
  have ns: "c \<in> set (str_int i) \<Longrightarrow> \<not> is_space c" for i c
    using digits_nat_dec [of "nat i"] digits_nat_dec [of "nat (- i)"] is_dec_not_space [of c]
    by (auto simp: str_int_def list_all_iff is_space_def space_cp_def split: if_splits)
  have st: "strip (str_int i) = str_int i" for i using ns by (intro strip_by_none)
  have ne: "str_int i \<noteq> []" for i using digits_nat_dec by (simp add: str_int_def)
  have "parse_id_list (map str_int ids) = Some ids" by (induction ids) (simp_all add: st ne parse_str_int)
  moreover have "split_on (CHR '','') (join [CHR '',''] (map str_int ids)) = map str_int ids"
    using False nc by (intro split_join) auto
  ultimately show ?thesis by (simp add: parse_ids_def)
qed

end
