(* ===== verification/Session_Store.thy ===== *)
theory Session_Store
  imports Files Names_Langs
begin

text \<open>
  \<open>src/tg_messenger/core/auth.py\<close> (\<open>SessionStore\<close>) and \<open>core/session_cipher.py\<close>. The
  directory is a file map; the Fernet encryption and decryption under a derived key, and the
  check that a string is a Telethon session, are parameters.
\<close>

datatype session_error = EncryptedNoKey | WrongKey | InvalidSession | FileExists

record cipher =
  ci_enc :: "string \<Rightarrow> string \<Rightarrow> string"
  ci_dec2 :: "string \<Rightarrow> string \<Rightarrow> string option"
  ci_dec1 :: "string \<Rightarrow> string \<Rightarrow> string option"
  ci_valid :: "string \<Rightarrow> bool"

section \<open>The envelope\<close>

definition v2_prefix :: string where "v2_prefix = ''enc:v2:''"
definition v1_prefix :: string where "v1_prefix = ''enc:v1:''"

definition is_encrypted :: "string \<Rightarrow> bool" where
  "is_encrypted stored \<longleftrightarrow> prefix v1_prefix stored \<or> prefix v2_prefix stored"

definition encrypt_session :: "cipher \<Rightarrow> string \<Rightarrow> string \<Rightarrow> string" where
  "encrypt_session ci plaintext secret = v2_prefix @ ci_enc ci secret plaintext"

definition decrypt_session :: "cipher \<Rightarrow> string \<Rightarrow> string \<Rightarrow> (session_error, string) result" where
  "decrypt_session ci stored secret =
     (if \<not> is_encrypted stored then Inr stored
      else (case (if prefix v2_prefix stored then ci_dec2 ci secret (drop (length v2_prefix) stored)
                  else ci_dec1 ci secret (drop (length v1_prefix) stored)) of
              None \<Rightarrow> Inl WrongKey | Some p \<Rightarrow> Inr p))"

definition validate_session_string :: "cipher \<Rightarrow> string \<Rightarrow> (session_error, string) result" where
  "validate_session_string ci s = (if ci_valid ci s then Inr s else Inl InvalidSession)"

section \<open>The store\<close>

definition path_for :: "string \<Rightarrow> string" where
  "path_for name = sanitize_profile_name name @ ''.session''"

definition stored_session :: "cipher \<Rightarrow> string option \<Rightarrow> string \<Rightarrow> string" where
  "stored_session ci key s = (case key of None \<Rightarrow> s | Some k \<Rightarrow> encrypt_session ci s k)"

text \<open>\<open>mkstemp(prefix=".<name>.", suffix=".tmp")\<close> with its random middle.\<close>

definition temp_name :: "string \<Rightarrow> string \<Rightarrow> string" where
  "temp_name rnd path = ''.'' @ path @ ''.'' @ rnd @ ''.tmp''"

definition save_ops :: "cipher \<Rightarrow> string option \<Rightarrow> string \<Rightarrow> string \<Rightarrow> string \<Rightarrow> fs_op list" where
  "save_ops ci key rnd name s = replace_prog (temp_name rnd (path_for name)) (path_for name) (stored_session ci key s)"

definition save_session :: "cipher \<Rightarrow> string option \<Rightarrow> string \<Rightarrow> string \<Rightarrow> string \<Rightarrow> files \<Rightarrow> files" where
  "save_session ci key rnd name s fs = fs_run (save_ops ci key rnd name s) fs"

text \<open>\<open>links\<close> says whether the file system supports hard links; the fallback checks and
  replaces inside the store lock.\<close>

definition save_if_absent :: "bool \<Rightarrow> cipher \<Rightarrow> string option \<Rightarrow> string \<Rightarrow> string \<Rightarrow> string \<Rightarrow> files
    \<Rightarrow> (session_error, unit) result \<times> files" where
  "save_if_absent links ci key rnd name s fs =
     (let path = path_for name; tmp = temp_name rnd path; stored = stored_session ci key s;
          fs1 = fs_run ([FCreate tmp] @ map (FAppend tmp) stored @ [FSync tmp]) fs
      in if od_get fs1 path \<noteq> None then (Inl FileExists, fs_exec (FUnlink tmp) fs1)
         else if links then (Inr (), fs_exec (FUnlink tmp) (od_set path stored fs1))
         else (Inr (), fs_exec (FReplace tmp path) fs1))"

definition decrypt_if :: "cipher \<Rightarrow> string option \<Rightarrow> string \<Rightarrow> (session_error, string) result" where
  "decrypt_if ci key raw = (case key of None \<Rightarrow> Inr raw | Some k \<Rightarrow> decrypt_session ci raw k)"

definition load_session :: "cipher \<Rightarrow> string option \<Rightarrow> string \<Rightarrow> string \<Rightarrow> files
    \<Rightarrow> (session_error, string option) result \<times> files" where
  "load_session ci key rnd name fs =
     (case od_get fs (path_for name) of
        None \<Rightarrow> (Inr None, fs)
      | Some content \<Rightarrow>
          (let raw = strip content
           in if raw = [] then (Inr None, fs)
              else if is_encrypted raw \<and> key = None then (Inl EncryptedNoKey, fs)
              else (case decrypt_if ci key raw of
                      Inl e \<Rightarrow> (Inl e, fs)
                    | Inr plaintext \<Rightarrow>
                        (case validate_session_string ci plaintext of
                           Inl e \<Rightarrow> (Inl e, fs)
                         | Inr validated \<Rightarrow>
                             (Inr (Some validated),
                              if key \<noteq> None \<and> \<not> is_encrypted raw then save_session ci key rnd name validated fs else fs)))))"

definition is_valid_profile :: "cipher \<Rightarrow> string option \<Rightarrow> string \<Rightarrow> files \<Rightarrow> bool" where
  "is_valid_profile ci key name fs =
     (case od_get fs (path_for name) of
        None \<Rightarrow> False
      | Some content \<Rightarrow>
          (let raw = strip content
           in raw \<noteq> [] \<and>
              (is_encrypted raw \<and> key = None
               \<or> (case decrypt_if ci key raw of Inl e \<Rightarrow> False | Inr p \<Rightarrow> ok (validate_session_string ci p)))))"

definition delete_session :: "string \<Rightarrow> files \<Rightarrow> bool \<times> files" where
  "delete_session name fs =
     (if od_get fs (path_for name) = None then (False, fs) else (True, fs_exec (FUnlink (path_for name)) fs))"

definition profile_stem :: "string \<Rightarrow> string option" where
  "profile_stem file = (if suffix ''.session'' file
     then Some (if file = ''.session'' then file else take (length file - 8) file) else None)"

definition list_profiles :: "files \<Rightarrow> string list" where
  "list_profiles fs = List.map_filter profile_stem (od_keys fs)"

section \<open>Lemmas\<close>

lemma temp_other: "temp_name rnd path \<noteq> path"
proof
  assume "temp_name rnd path = path"
  then have "length (temp_name rnd path) = length path" by simp
  then show False by (simp add: temp_name_def)
qed

interpretation session_file: safe_writer
  "\<lambda>k s. crash_after k (replace_prog (temp_name rnd (path_for name)) (path_for name) s)"
  "path_for name" "temp_name rnd (path_for name)" for rnd name
  by unfold_locales
    (use replace_crash_target [OF temp_other] replace_crash_other [OF temp_other] in \<open>auto\<close>)

lemma path_for_inj: "path_for a = path_for b \<longleftrightarrow> sanitize_profile_name a = sanitize_profile_name b"
  by (simp add: path_for_def)

lemma path_not_temp: "path_for a \<noteq> temp_name rnd p"
proof
  assume e: "path_for a = temp_name rnd p"
  have "last (path_for a) = CHR ''n''" by (simp add: path_for_def)
  moreover have "last (temp_name rnd p) = CHR ''p''" by (simp add: temp_name_def)
  ultimately show False using e by simp
qed

lemma save_get: "od_get (save_session ci key rnd name s fs) (path_for other) =
    (if path_for other = path_for name then Some (stored_session ci key s) else od_get fs (path_for other))"
  using path_not_temp [of other rnd "path_for name"]
  by (simp add: save_session_def save_ops_def replace_done [OF temp_other])

text \<open>What is assumed of the cryptography: a token decrypts under its key and carries no
  blanks at its end (Fernet tokens are URL-safe base64).\<close>

definition cipher_ok :: "cipher \<Rightarrow> bool" where
  "cipher_ok ci \<longleftrightarrow> (\<forall>k s. ci_dec2 ci k (ci_enc ci k s) = Some s \<and> ci_enc ci k s \<noteq> [] \<and> trimmed is_space (ci_enc ci k s))"

lemma encrypted_envelope: "is_encrypted (encrypt_session ci s k)"
  by (simp add: is_encrypted_def encrypt_session_def)

lemma strip_envelope: "cipher_ok ci \<Longrightarrow> strip (encrypt_session ci s k) = encrypt_session ci s k"
proof (rule strip_trimmed)
  assume "cipher_ok ci"
  then have "ci_enc ci k s \<noteq> [] \<and> trimmed is_space (ci_enc ci k s)" by (simp add: cipher_ok_def)
  then show "trimmed is_space (encrypt_session ci s k)"
    by (auto simp: trimmed_def encrypt_session_def v2_prefix_def is_space_def space_cp_def)
qed

lemma decrypt_encrypt: "cipher_ok ci \<Longrightarrow> decrypt_session ci (encrypt_session ci s k) k = Inr s"
  by (simp add: decrypt_session_def encrypted_envelope) (simp add: encrypt_session_def cipher_ok_def)

definition plain_session :: "cipher \<Rightarrow> string \<Rightarrow> bool" where
  "plain_session ci s \<longleftrightarrow> ci_valid ci s \<and> s \<noteq> [] \<and> trimmed is_space s \<and> \<not> is_encrypted s"

text \<open>Reading a stored session back, under the key it was stored with.\<close>

lemma load_stored:
  assumes "cipher_ok ci" and "plain_session ci s" and "od_get fs (path_for name) = Some (stored_session ci key s)"
  shows "load_session ci key rnd name fs = (Inr (Some s), fs)"
proof (cases key)
  case None
  then show ?thesis using assms(2,3)
    by (simp add: load_session_def stored_session_def plain_session_def strip_trimmed Let_def decrypt_if_def validate_session_string_def)
next
  case (Some k)
  have "encrypt_session ci s k \<noteq> []" by (simp add: encrypt_session_def v2_prefix_def)
  then show ?thesis using assms Some
    by (simp add: load_session_def stored_session_def plain_session_def strip_envelope Let_def decrypt_if_def
        decrypt_encrypt validate_session_string_def encrypted_envelope)
qed

text \<open>
  A saved session is read back exactly, encrypted or not, and saving it changes no other
  profile: two profiles share a file only when their sanitised names are equal.
\<close>

theorem session_roundtrip:
  assumes "cipher_ok ci" and "plain_session ci s"
  shows "fst (load_session ci key rnd name (save_session ci key rnd' name s fs)) = Inr (Some s)
    \<and> (sanitize_profile_name other \<noteq> sanitize_profile_name name \<longrightarrow>
        od_get (save_session ci key rnd' name s fs) (path_for other) = od_get fs (path_for other))"
  using load_stored [OF assms, of "save_session ci key rnd' name s fs" name key rnd]
  by (auto simp: save_get path_for_inj)

text \<open>
  C9: Whatever the moment of a crash during \<open>save\<close>, the profile loads its old session or the
  new one, never a partial one; and if the write raises, the temporary file is gone.
\<close>

theorem session_save_crash_safe:
  "od_get (crash_after n (save_ops ci key rnd name s) fs) (path_for name)
     \<in> {od_get fs (path_for name), Some (stored_session ci key s)}
   \<and> od_get (abort_after n (temp_name rnd (path_for name)) (save_ops ci key rnd name s) fs) (path_for name)
     \<in> {od_get fs (path_for name), Some (stored_session ci key s)}
   \<and> od_get (abort_after n (temp_name rnd (path_for name)) (save_ops ci key rnd name s) fs) (temp_name rnd (path_for name)) = None"
  unfolding save_ops_def using session_file.old_or_new abort_target [OF temp_other] by blast

text \<open>
  \<open>save_if_absent\<close> never replaces a session: it succeeds exactly when the profile has no
  file, then stores the new session, and otherwise leaves every profile as it was.
\<close>

theorem save_if_absent_no_clobber:
  "(case save_if_absent links ci key rnd name s fs of
      (Inr _, fs') \<Rightarrow> od_get fs (path_for name) = None \<and> od_get fs' (path_for name) = Some (stored_session ci key s)
    | (Inl e, fs') \<Rightarrow> e = FileExists \<and> od_get fs (path_for name) \<noteq> None \<and> od_get fs' (path_for name) = od_get fs (path_for name))
   \<and> (path_for other = path_for name
      \<or> od_get (snd (save_if_absent links ci key rnd name s fs)) (path_for other) = od_get fs (path_for other))"
proof -
  let ?tmp = "temp_name rnd (path_for name)"
  let ?fs1 = "fs_run ([FCreate ?tmp] @ map (FAppend ?tmp) (stored_session ci key s) @ [FSync ?tmp]) fs"
  have g: "od_get ?fs1 m = (if m = ?tmp then Some (stored_session ci key s) else od_get fs m)" for m
    by (simp add: fs_simps append_run)
  show ?thesis using path_not_temp [of name rnd "path_for name"] path_not_temp [of other rnd "path_for name"]
    by (auto simp: save_if_absent_def Let_def g fs_exec_get od_simps simp del: append_Cons append_Nil)
qed

text \<open>
  Reading a plaintext session while a key is set rewrites it encrypted and still returns
  it; the profile is valid before and after, and a second read changes nothing.
\<close>

theorem lazy_encryption:
  assumes "cipher_ok ci" and "plain_session ci s" and "od_get fs (path_for name) = Some s"
  shows "case load_session ci (Some k) rnd name fs of (r, fs') \<Rightarrow>
      r = Inr (Some s) \<and> od_get fs' (path_for name) = Some (encrypt_session ci s k)
      \<and> load_session ci (Some k) rnd name fs' = (Inr (Some s), fs')
      \<and> is_valid_profile ci (Some k) name fs \<and> is_valid_profile ci (Some k) name fs'"
proof -
  let ?fs' = "save_session ci (Some k) rnd name s fs"
  have l: "load_session ci (Some k) rnd name fs = (Inr (Some s), ?fs')"
    using assms by (simp add: load_session_def plain_session_def strip_trimmed Let_def decrypt_if_def
        decrypt_session_def validate_session_string_def)
  have g: "od_get ?fs' (path_for name) = Some (stored_session ci (Some k) s)" by (simp add: save_get)
  have "is_valid_profile ci (Some k) name fs"
    using assms by (simp add: is_valid_profile_def plain_session_def strip_trimmed Let_def decrypt_if_def
        decrypt_session_def validate_session_string_def)
  moreover have "is_valid_profile ci (Some k) name ?fs'"
    using assms g by (simp add: is_valid_profile_def plain_session_def stored_session_def strip_envelope Let_def
        decrypt_if_def decrypt_encrypt validate_session_string_def)
      (simp add: encrypt_session_def v2_prefix_def)
  ultimately show ?thesis using l g load_stored [OF assms(1,2) g] by (simp add: stored_session_def)
qed

definition toy_cipher :: cipher where
  "toy_cipher = \<lparr>ci_enc = (\<lambda>k s. CHR ''t'' # s @ ''t''), ci_dec2 = (\<lambda>k s. Some (butlast (tl s))),
     ci_dec1 = (\<lambda>k s. None), ci_valid = (\<lambda>s. s = ''1BVts'')\<rparr>"

lemma toy_cipher_ok: "cipher_ok toy_cipher" "plain_session toy_cipher ''1BVts''"
  by (simp_all add: cipher_ok_def toy_cipher_def trimmed_def is_space_def space_cp_def plain_session_def
      is_encrypted_def v1_prefix_def v2_prefix_def)

lemma session_roundtrip_witness:
  "fst (load_session toy_cipher (Some ''k'') ''r'' ''work'' (save_session toy_cipher (Some ''k'') ''q'' ''work'' ''1BVts'' [])) = Inr (Some ''1BVts'')"
  using session_roundtrip [OF toy_cipher_ok] by blast

lemma lazy_encryption_witness:
  "fst (load_session toy_cipher (Some ''k'') ''r'' ''work'' [(path_for ''work'', ''1BVts'')]) = Inr (Some ''1BVts'')"
  using lazy_encryption [OF toy_cipher_ok, of "[(path_for ''work'', ''1BVts'')]" "''work''" "''k''" "''r''"]
  by (auto split: prod.splits)

end
