(* ===== verification/Login.thy ===== *)
theory Login
  imports Py_Str
begin

text \<open>
  \<open>src/tg_messenger/core/auth.py\<close>: \<open>LoginFlow\<close> and the wizard state machine
  \<open>LoginSession\<close>. Telegram's answers are arguments (an exception is a constructor of the
  outcome). Every call is split at its await, so a run interleaves the phone submissions of
  any number of tabs with resends; code and password submissions are one at a time.
\<close>

section \<open>Delivery and flow\<close>

datatype delivery_kind = App | Sms | Call | UnknownKind

record code_delivery =
  cd_kind :: delivery_kind
  cd_next :: "delivery_kind option"
  cd_timeout :: "int option"

text \<open>\<open>_kind_of\<close>: the first of app, sms, call occurring in the lower-cased type name.\<close>

definition kind_of :: "string \<Rightarrow> delivery_kind" where
  "kind_of type_name =
     (let name = lower type_name; has = (\<lambda>w. sublist w name)
      in if has ''app'' then App else if has ''sms'' then Sms else if has ''call'' then Call else UnknownKind)"

text \<open>The attributes of Telegram's answer that the flow reads.\<close>

record sent_code =
  sn_type :: string
  sn_next :: "string option"
  sn_hash :: "string option"
  sn_timeout :: "int option"

record login_flow =
  fl_phone :: "string option"
  fl_hash :: "string option"

definition new_flow :: login_flow where
  "new_flow = \<lparr>fl_phone = None, fl_hash = None\<rparr>"

definition bind_sent :: "sent_code \<Rightarrow> login_flow \<Rightarrow> code_delivery \<times> login_flow" where
  "bind_sent sent f =
     (\<lparr>cd_kind = kind_of (sn_type sent), cd_next = map_option kind_of (sn_next sent), cd_timeout = sn_timeout sent\<rparr>,
      f\<lparr>fl_hash := (case sn_hash sent of None \<Rightarrow> fl_hash f | Some h \<Rightarrow> if h = [] then fl_hash f else Some h)\<rparr>)"

definition flow_send_code :: "string \<Rightarrow> sent_code \<Rightarrow> login_flow \<Rightarrow> code_delivery \<times> login_flow" where
  "flow_send_code phone sent f = bind_sent sent (f\<lparr>fl_phone := Some phone\<rparr>)"

text \<open>The guards of \<open>resend_code\<close>, \<open>sign_in\<close> and \<open>check_password\<close>; \<open>False\<close> is a \<open>RuntimeError\<close>.\<close>

definition can_resend :: "login_flow \<Rightarrow> bool" where
  "can_resend f \<longleftrightarrow> fl_phone f \<noteq> None \<and> fl_hash f \<noteq> None"

definition can_sign_in :: "login_flow \<Rightarrow> bool" where
  "can_sign_in f \<longleftrightarrow> fl_phone f \<noteq> None"

section \<open>The wizard\<close>

datatype login_state = Phone | Sending | Code | Password | Done

datatype login_error = BadOrder | InvalidPhone | BannedPhone | PhoneFlood | InProgress | WaitFlood
  | CannotResend | WrongCode | ExpiredCode | WrongPassword | OtherError

record login_session =
  ls_flow :: login_flow
  ls_state :: login_state
  ls_delivery :: "code_delivery option"

datatype send_outcome = SentOk sent_code | SendInvalid | SendBanned | SendFlood | SendRaised
datatype resend_outcome = ResentOk sent_code | ResendFloodWait | ResendExpired | ResendRaised
datatype code_outcome = CodeOk | CodeNeedsPassword | CodeWrong | CodeEmpty | CodeExpired | CodeRaised
datatype password_outcome = PasswordOk | PasswordWrong | PasswordRaised

definition login_reset :: "login_session \<Rightarrow> login_session" where
  "login_reset s = (if ls_state s \<noteq> Done then s else \<lparr>ls_flow = new_flow, ls_state = Phone, ls_delivery = None\<rparr>)"

text \<open>\<open>submit_phone\<close> up to its await, and after it.\<close>

definition submit_phone_start :: "login_session \<Rightarrow> (login_error, login_session) result" where
  "submit_phone_start s = (if ls_state s \<noteq> Phone then Inl InProgress else Inr (s\<lparr>ls_state := Sending\<rparr>))"

definition submit_phone_end :: "string \<Rightarrow> send_outcome \<Rightarrow> login_session \<Rightarrow> (login_error, code_delivery) result \<times> login_session" where
  "submit_phone_end phone out s =
     (case out of
        SentOk sent \<Rightarrow> (case flow_send_code phone sent (ls_flow s) of
           (d, f) \<Rightarrow> (Inr d, s\<lparr>ls_flow := f, ls_delivery := Some d, ls_state := Code\<rparr>))
      | SendInvalid \<Rightarrow> (Inl InvalidPhone, s\<lparr>ls_state := Phone\<rparr>)
      | SendBanned \<Rightarrow> (Inl BannedPhone, s\<lparr>ls_state := Phone\<rparr>)
      | SendFlood \<Rightarrow> (Inl PhoneFlood, s\<lparr>ls_state := Phone\<rparr>)
      | SendRaised \<Rightarrow> (Inl OtherError, s\<lparr>ls_state := Phone\<rparr>))"

definition resend_start :: "login_session \<Rightarrow> (login_error, unit) result" where
  "resend_start s = (if ls_state s \<notin> {Code, Password} then Inl BadOrder
     else if \<not> can_resend (ls_flow s) then Inl BadOrder else Inr ())"

text \<open>The delivery is recorded on the session, the hash on the flow the call captured.\<close>

definition resend_end :: "bool \<Rightarrow> resend_outcome \<Rightarrow> login_session \<Rightarrow> (login_error, code_delivery) result \<times> login_session" where
  "resend_end same_flow out s =
     (case out of
        ResentOk sent \<Rightarrow> (case bind_sent sent (ls_flow s) of
           (d, f) \<Rightarrow> (Inr d, s\<lparr>ls_flow := (if same_flow then f else ls_flow s), ls_delivery := Some d\<rparr>))
      | ResendFloodWait \<Rightarrow> (Inl WaitFlood, s)
      | ResendExpired \<Rightarrow> (Inl CannotResend, s)
      | ResendRaised \<Rightarrow> (Inl OtherError, s))"

definition submit_code_start :: "login_session \<Rightarrow> (login_error, unit) result" where
  "submit_code_start s = (if ls_state s \<noteq> Code then Inl BadOrder
     else if \<not> can_sign_in (ls_flow s) then Inl BadOrder else Inr ())"

definition submit_code_end :: "code_outcome \<Rightarrow> login_session \<Rightarrow> (login_error, unit) result \<times> login_session" where
  "submit_code_end out s =
     (case out of
        CodeOk \<Rightarrow> (Inr (), s\<lparr>ls_state := Done\<rparr>)
      | CodeNeedsPassword \<Rightarrow> (Inr (), s\<lparr>ls_state := Password\<rparr>)
      | CodeWrong \<Rightarrow> (Inl WrongCode, s)
      | CodeEmpty \<Rightarrow> (Inl WrongCode, s)
      | CodeExpired \<Rightarrow> (Inl ExpiredCode, s)
      | CodeRaised \<Rightarrow> (Inl OtherError, s))"

definition submit_password_start :: "login_session \<Rightarrow> (login_error, unit) result" where
  "submit_password_start s = (if ls_state s \<noteq> Password then Inl BadOrder
     else if \<not> can_sign_in (ls_flow s) then Inl BadOrder else Inr ())"

definition submit_password_end :: "password_outcome \<Rightarrow> login_session \<Rightarrow> (login_error, unit) result \<times> login_session" where
  "submit_password_end out s =
     (case out of
        PasswordOk \<Rightarrow> (Inr (), s\<lparr>ls_state := Done\<rparr>)
      | PasswordWrong \<Rightarrow> (Inl WrongPassword, s)
      | PasswordRaised \<Rightarrow> (Inl OtherError, s))"

section \<open>Runs\<close>

text \<open>Tasks waiting at an await; \<open>lr_gen\<close> numbers the flow objects; ghosts: the phone of the
  last delivered code, and whether Telegram accepted a sign-in of the current flow.\<close>

datatype login_task = TIdle | TPhone string | TResend nat | TCode | TPassword

record login_run =
  lr_sess :: login_session
  lr_task :: "nat \<Rightarrow> login_task"
  lr_gen :: nat
  lr_sent_to :: "string option"
  lr_signed :: bool

definition signing :: "login_run \<Rightarrow> bool" where
  "signing r \<longleftrightarrow> (\<exists>t. lr_task r t = TCode \<or> lr_task r t = TPassword)"

definition goes :: "nat \<Rightarrow> login_task \<Rightarrow> login_session \<Rightarrow> login_run \<Rightarrow> login_run" where
  "goes t k s r = r\<lparr>lr_sess := s, lr_task := (lr_task r)(t := k)\<rparr>"

inductive login_step :: "login_run \<Rightarrow> login_run \<Rightarrow> bool" where
  phone: "lr_task r t = TIdle \<Longrightarrow> submit_phone_start (lr_sess r) = Inr s \<Longrightarrow> login_step r (goes t (TPhone p) s r)"
| phone_end: "lr_task r t = TPhone p \<Longrightarrow> submit_phone_end p out (lr_sess r) = (res, s) \<Longrightarrow>
    login_step r ((goes t TIdle s r)\<lparr>lr_sent_to := (if ok res then Some p else lr_sent_to r)\<rparr>)"
| resend: "lr_task r t = TIdle \<Longrightarrow> resend_start (lr_sess r) = Inr x \<Longrightarrow> login_step r (goes t (TResend (lr_gen r)) (lr_sess r) r)"
| resend_end: "lr_task r t = TResend g \<Longrightarrow> resend_end (g = lr_gen r) out (lr_sess r) = (res, s) \<Longrightarrow>
    login_step r (goes t TIdle s r)"
| code: "lr_task r t = TIdle \<Longrightarrow> \<not> signing r \<Longrightarrow> submit_code_start (lr_sess r) = Inr x \<Longrightarrow>
    login_step r (goes t TCode (lr_sess r) r)"
| code_end: "lr_task r t = TCode \<Longrightarrow> submit_code_end out (lr_sess r) = (res, s) \<Longrightarrow>
    login_step r ((goes t TIdle s r)\<lparr>lr_signed := (out = CodeOk \<or> lr_signed r)\<rparr>)"
| password: "lr_task r t = TIdle \<Longrightarrow> \<not> signing r \<Longrightarrow> submit_password_start (lr_sess r) = Inr x \<Longrightarrow>
    login_step r (goes t TPassword (lr_sess r) r)"
| password_end: "lr_task r t = TPassword \<Longrightarrow> submit_password_end out (lr_sess r) = (res, s) \<Longrightarrow>
    login_step r ((goes t TIdle s r)\<lparr>lr_signed := (out = PasswordOk \<or> lr_signed r)\<rparr>)"
| restart: "ls_state (lr_sess r) = Done \<Longrightarrow>
    login_step r (r\<lparr>lr_sess := login_reset (lr_sess r), lr_gen := Suc (lr_gen r), lr_sent_to := None, lr_signed := False\<rparr>)"

inductive_cases login_stepE: "login_step r r'"

definition login_init :: login_run where
  "login_init = \<lparr>lr_sess = \<lparr>ls_flow = new_flow, ls_state = Phone, ls_delivery = None\<rparr>,
     lr_task = (\<lambda>_. TIdle), lr_gen = 0, lr_sent_to = None, lr_signed = False\<rparr>"

definition sending_ok :: "login_run \<Rightarrow> bool" where
  "sending_ok r \<longleftrightarrow> (\<forall>t p. lr_task r t = TPhone p \<longrightarrow> ls_state (lr_sess r) = Sending)
     \<and> (\<forall>t t' p p'. lr_task r t = TPhone p \<longrightarrow> lr_task r t' = TPhone p' \<longrightarrow> t = t')
     \<and> (ls_state (lr_sess r) = Sending \<longrightarrow> (\<exists>t p. lr_task r t = TPhone p))"

definition signing_ok :: "login_run \<Rightarrow> bool" where
  "signing_ok r \<longleftrightarrow> (\<forall>t. lr_task r t = TCode \<longrightarrow> ls_state (lr_sess r) = Code)
     \<and> (\<forall>t. lr_task r t = TPassword \<longrightarrow> ls_state (lr_sess r) = Password)
     \<and> (\<forall>t t'. lr_task r t \<in> {TCode, TPassword} \<longrightarrow> lr_task r t' \<in> {TCode, TPassword} \<longrightarrow> t = t')"

definition bound_ok :: "login_run \<Rightarrow> bool" where
  "bound_ok r \<longleftrightarrow> (ls_state (lr_sess r) \<in> {Code, Password} \<longrightarrow>
       lr_sent_to r \<noteq> None \<and> fl_phone (ls_flow (lr_sess r)) = lr_sent_to r
       \<and> ls_delivery (lr_sess r) \<noteq> None)
     \<and> (ls_state (lr_sess r) = Done \<longleftrightarrow> lr_signed r)"

definition login_inv :: "login_run \<Rightarrow> bool" where
  "login_inv r \<longleftrightarrow> sending_ok r \<and> signing_ok r \<and> bound_ok r"

lemmas login_defs = login_inv_def sending_ok_def signing_ok_def bound_ok_def

lemma login_invI:
  assumes "\<And>t p. lr_task r t = TPhone p \<Longrightarrow> ls_state (lr_sess r) = Sending"
    and "\<And>t t' p p'. lr_task r t = TPhone p \<Longrightarrow> lr_task r t' = TPhone p' \<Longrightarrow> t = t'"
    and "ls_state (lr_sess r) = Sending \<Longrightarrow> \<exists>t p. lr_task r t = TPhone p"
    and "\<And>t. lr_task r t = TCode \<Longrightarrow> ls_state (lr_sess r) = Code"
    and "\<And>t. lr_task r t = TPassword \<Longrightarrow> ls_state (lr_sess r) = Password"
    and "\<And>t t'. lr_task r t \<in> {TCode, TPassword} \<Longrightarrow> lr_task r t' \<in> {TCode, TPassword} \<Longrightarrow> t = t'"
    and "ls_state (lr_sess r) \<in> {Code, Password} \<Longrightarrow> lr_sent_to r \<noteq> None
      \<and> fl_phone (ls_flow (lr_sess r)) = lr_sent_to r \<and> ls_delivery (lr_sess r) \<noteq> None"
    and "ls_state (lr_sess r) = Done \<longleftrightarrow> lr_signed r"
  shows "login_inv r"
  using assms unfolding login_defs by blast

lemma login_invD:
  assumes "login_inv r"
  shows "lr_task r t = TPhone p \<Longrightarrow> ls_state (lr_sess r) = Sending"
    and "lr_task r t = TPhone p \<Longrightarrow> lr_task r t' = TPhone p' \<Longrightarrow> t = t'"
    and "ls_state (lr_sess r) = Sending \<Longrightarrow> \<exists>t p. lr_task r t = TPhone p"
    and "lr_task r t = TCode \<Longrightarrow> ls_state (lr_sess r) = Code"
    and "lr_task r t = TPassword \<Longrightarrow> ls_state (lr_sess r) = Password"
    and "lr_task r t \<in> {TCode, TPassword} \<Longrightarrow> lr_task r t' \<in> {TCode, TPassword} \<Longrightarrow> t = t'"
    and "ls_state (lr_sess r) \<in> {Code, Password} \<Longrightarrow> lr_sent_to r \<noteq> None
      \<and> fl_phone (ls_flow (lr_sess r)) = lr_sent_to r \<and> ls_delivery (lr_sess r) \<noteq> None"
    and "ls_state (lr_sess r) = Done \<longleftrightarrow> lr_signed r"
  using assms unfolding login_defs by blast+

lemma goes_sel [simp]:
  "lr_sess (goes t k s r) = s" "lr_task (goes t k s r) = (lr_task r)(t := k)"
  "lr_sent_to (goes t k s r) = lr_sent_to r" "lr_signed (goes t k s r) = lr_signed r"
  by (simp_all add: goes_def)

lemma keep_phone:
  assumes inv: "login_inv r" and "submit_phone_start (lr_sess r) = Inr s"
  shows "login_inv (goes t (TPhone p) s r)"
proof -
  have st: "ls_state (lr_sess r) = Phone" and s: "s = (lr_sess r)\<lparr>ls_state := Sending\<rparr>"
    using assms(2) by (auto simp: submit_phone_start_def split: if_splits)
  have none: "lr_task r t' \<noteq> TPhone q" "lr_task r t' \<noteq> TCode" "lr_task r t' \<noteq> TPassword" for t' q
    using login_invD(1,4,5) [OF inv] st by (metis login_state.distinct)+
  have "\<not> lr_signed r" using login_invD(8) [OF inv] st by simp
  then show ?thesis by (intro login_invI) (auto simp: s none split: if_splits)
qed

lemma bind_phone: "fl_phone (snd (bind_sent sent f)) = fl_phone f"
  by (simp add: bind_sent_def)

lemma keep_phone_end:
  assumes inv: "login_inv r" and t: "lr_task r t = TPhone p" and e: "submit_phone_end p out (lr_sess r) = (res, s)"
  shows "login_inv ((goes t TIdle s r)\<lparr>lr_sent_to := (if ok res then Some p else lr_sent_to r)\<rparr>)"
proof -
  have st: "ls_state (lr_sess r) = Sending" by (rule login_invD(1) [OF inv t])
  have none: "t' \<noteq> t \<Longrightarrow> lr_task r t' \<noteq> TPhone q" "lr_task r t' \<noteq> TCode" "lr_task r t' \<noteq> TPassword" for t' q
    using login_invD(2) [OF inv _ t] login_invD(4,5) [OF inv] st by (metis login_state.distinct)+
  have uns: "\<not> lr_signed r" using login_invD(8) [OF inv] st by simp
  have s: "if ok res then ls_state s = Code \<and> fl_phone (ls_flow s) = Some p \<and> ls_delivery s \<noteq> None else ls_state s = Phone"
    using e by (cases out) (auto simp: submit_phone_end_def flow_send_code_def bind_sent_def)
  show ?thesis
    by (intro login_invI; use s none uns in \<open>simp split: if_splits\<close>)
qed

lemma keep_session:
  assumes inv: "login_inv r" and "lr_task r t \<in> {TIdle, TResend g0}" and "k \<in> {TIdle, TResend g}"
    and "ls_state s = ls_state (lr_sess r)" and "fl_phone (ls_flow s) = fl_phone (ls_flow (lr_sess r))"
    and "ls_delivery (lr_sess r) \<noteq> None \<Longrightarrow> ls_delivery s \<noteq> None"
  shows "login_inv (goes t k s r)"
proof (rule login_invI)
  note d = login_invD [OF inv]
  have k: "((lr_task r)(t := k)) t' \<in> {TCode, TPassword} \<union> range TPhone \<Longrightarrow> ((lr_task r)(t := k)) t' = lr_task r t'" for t'
    using assms(3) by (cases "t' = t") auto
  show "lr_task (goes t k s r) t' = TPhone p \<Longrightarrow> ls_state (lr_sess (goes t k s r)) = Sending" for t' p
    using k [of t'] d(1) [of t' p] assms(4) by simp
  show "lr_task (goes t k s r) t' = TPhone p \<Longrightarrow> lr_task (goes t k s r) t'' = TPhone p' \<Longrightarrow> t' = t''" for t' t'' p p'
    using k [of t'] k [of t''] d(2) [of t' p t'' p'] by simp
  show "ls_state (lr_sess (goes t k s r)) = Sending \<Longrightarrow> \<exists>t' p. lr_task (goes t k s r) t' = TPhone p"
  proof -
    assume "ls_state (lr_sess (goes t k s r)) = Sending"
    then obtain t' p where "lr_task r t' = TPhone p" using d(3) assms(4) by auto
    moreover from this have "t' \<noteq> t" using assms(2) by auto
    ultimately show ?thesis by (intro exI [of _ t'] exI [of _ p]) simp
  qed
  show "lr_task (goes t k s r) t' = TCode \<Longrightarrow> ls_state (lr_sess (goes t k s r)) = Code" for t'
    using k [of t'] d(4) [of t'] assms(4) by simp
  show "lr_task (goes t k s r) t' = TPassword \<Longrightarrow> ls_state (lr_sess (goes t k s r)) = Password" for t'
    using k [of t'] d(5) [of t'] assms(4) by simp
  show "lr_task (goes t k s r) t' \<in> {TCode, TPassword} \<Longrightarrow> lr_task (goes t k s r) t'' \<in> {TCode, TPassword} \<Longrightarrow> t' = t''" for t' t''
    using assms(3) d(6) [of t' t''] by (cases "t' = t"; cases "t'' = t") auto
qed (use login_invD(7,8) [OF inv] assms(4-6) in simp_all)

lemma resend_view: "resend_end b out s = (res, s') \<Longrightarrow>
    ls_state s' = ls_state s \<and> fl_phone (ls_flow s') = fl_phone (ls_flow s) \<and> (ls_delivery s \<noteq> None \<longrightarrow> ls_delivery s' \<noteq> None)"
  by (cases out) (auto simp: resend_end_def bind_sent_def)

lemma keep_resend_end: "login_inv r \<Longrightarrow> lr_task r t = TResend g \<Longrightarrow> resend_end b out (lr_sess r) = (res, s) \<Longrightarrow>
    login_inv (goes t TIdle s r)"
  using resend_view [of b out "lr_sess r" res s] by (intro keep_session) auto

text \<open>Starting and finishing the one code or password submission.\<close>

lemma keep_sign_start:
  assumes inv: "login_inv r" and "\<not> signing r"
    and st: "k = TCode \<and> ls_state (lr_sess r) = Code \<or> k = TPassword \<and> ls_state (lr_sess r) = Password"
  shows "login_inv (goes t k (lr_sess r) r)"
proof -
  have none: "lr_task r t' \<noteq> TCode" "lr_task r t' \<noteq> TPassword" for t' using assms(2) by (auto simp: signing_def)
  have np: "lr_task r t' \<noteq> TPhone q" for t' q using login_invD(1) [OF inv, of t' q] st by auto
  show ?thesis
    by (intro login_invI; use st none np login_invD(7,8) [OF inv] in \<open>auto split: if_splits\<close>)
qed

lemma keep_sign_end:
  assumes inv: "login_inv r" and t: "lr_task r t \<in> {TCode, TPassword}"
    and s: "ls_state s = ls_state (lr_sess r) \<or> ls_state s = Password" "ls_flow s = ls_flow (lr_sess r)" "ls_delivery s = ls_delivery (lr_sess r)"
  shows "login_inv ((goes t TIdle s r)\<lparr>lr_signed := lr_signed r\<rparr>)"
    and "login_inv ((goes t TIdle (s\<lparr>ls_state := Done\<rparr>) r)\<lparr>lr_signed := True\<rparr>)"
proof -
  have st: "ls_state (lr_sess r) \<in> {Code, Password}" using t login_invD(4,5) [OF inv, of t] by auto
  have none: "t' \<noteq> t \<Longrightarrow> lr_task r t' \<noteq> TCode" "t' \<noteq> t \<Longrightarrow> lr_task r t' \<noteq> TPassword" for t'
    using login_invD(6) [OF inv _ t, of t'] by auto
  have np: "lr_task r t' \<noteq> TPhone q" for t' q using login_invD(1) [OF inv, of t' q] st by auto
  have uns: "\<not> lr_signed r" using login_invD(8) [OF inv] st by auto
  show "login_inv ((goes t TIdle s r)\<lparr>lr_signed := lr_signed r\<rparr>)"
    by (intro login_invI; use st s none np uns login_invD(7) [OF inv st] in \<open>auto split: if_splits\<close>)
  show "login_inv ((goes t TIdle (s\<lparr>ls_state := Done\<rparr>) r)\<lparr>lr_signed := True\<rparr>)"
    by (intro login_invI; use none np in \<open>auto split: if_splits\<close>)
qed

lemma keep_code_end:
  assumes "login_inv r" and "lr_task r t = TCode" and "submit_code_end out (lr_sess r) = (res, s)"
  shows "login_inv ((goes t TIdle s r)\<lparr>lr_signed := (out = CodeOk \<or> lr_signed r)\<rparr>)"
  using assms keep_sign_end [OF assms(1), of t "lr_sess r"]
    keep_sign_end(1) [OF assms(1), of t "(lr_sess r)\<lparr>ls_state := Password\<rparr>"]
  by (cases out) (auto simp: submit_code_end_def)

lemma keep_password_end:
  assumes "login_inv r" and "lr_task r t = TPassword" and "submit_password_end out (lr_sess r) = (res, s)"
  shows "login_inv ((goes t TIdle s r)\<lparr>lr_signed := (out = PasswordOk \<or> lr_signed r)\<rparr>)"
  using assms keep_sign_end [OF assms(1), of t "lr_sess r"]
  by (cases out) (auto simp: submit_password_end_def)

lemma keep_restart:
  assumes inv: "login_inv r" and d: "ls_state (lr_sess r) = Done"
  shows "login_inv (r\<lparr>lr_sess := login_reset (lr_sess r), lr_gen := Suc (lr_gen r), lr_sent_to := None, lr_signed := False\<rparr>)"
proof -
  have "lr_task r t \<noteq> TPhone p" "lr_task r t \<noteq> TCode" "lr_task r t \<noteq> TPassword" for t p
    using login_invD(1,4,5) [OF inv, of t] d by (metis login_state.distinct)+
  then show ?thesis by (intro login_invI) (auto simp: login_reset_def d)
qed

lemma login_step_keeps: "login_inv r \<Longrightarrow> login_step r r' \<Longrightarrow> login_inv r'"
proof (erule login_stepE)
  fix t x assume "login_inv r" "\<not> signing r" "submit_code_start (lr_sess r) = Inr x" and r': "r' = goes t TCode (lr_sess r) r"
  then show "login_inv r'" unfolding r'
    by (intro keep_sign_start) (auto simp: submit_code_start_def split: if_splits)
next
  fix t x assume "login_inv r" "\<not> signing r" "submit_password_start (lr_sess r) = Inr x" and r': "r' = goes t TPassword (lr_sess r) r"
  then show "login_inv r'" unfolding r'
    by (intro keep_sign_start) (auto simp: submit_password_start_def split: if_splits)
next
  fix t x assume "login_inv r" "lr_task r t = TIdle" and r': "r' = goes t (TResend (lr_gen r)) (lr_sess r) r"
  then show "login_inv r'" unfolding r' by (intro keep_session) auto
qed (simp_all add: keep_phone keep_phone_end keep_resend_end keep_code_end keep_password_end keep_restart)

interpretation wizard: inv_system login_step login_inv
  by unfold_locales (rule login_step_keeps)



text \<open>
  A user-correctable error leaves the wizard where it was: a wrong or expired code, a
  wrong password, a refused resend change nothing, and any failed code request returns to the
  phone step with the flow unchanged; a step out of order is refused without effect.
\<close>

theorem login_errors_keep_state:
  "(case submit_code_end out s of (r, s') \<Rightarrow> ok r \<or> s' = s)
   \<and> (case submit_password_end pout s of (r, s') \<Rightarrow> ok r \<or> s' = s)
   \<and> (case resend_end b rout s of (r, s') \<Rightarrow> ok r \<or> s' = s)
   \<and> (case submit_phone_end p sout s of (r, s') \<Rightarrow> ok r \<or> s' = s\<lparr>ls_state := Phone\<rparr>)
   \<and> (ok (submit_phone_start s) = (ls_state s = Phone))
   \<and> (ok (submit_code_start s) = (ls_state s = Code \<and> fl_phone (ls_flow s) \<noteq> None))
   \<and> (ok (submit_password_start s) = (ls_state s = Password \<and> fl_phone (ls_flow s) \<noteq> None))"
proof (intro conjI)
  show "case submit_code_end out s of (r, s') \<Rightarrow> ok r \<or> s' = s" by (cases out) (simp_all add: submit_code_end_def)
  show "case submit_password_end pout s of (r, s') \<Rightarrow> ok r \<or> s' = s"
    by (cases pout) (simp_all add: submit_password_end_def)
  show "case resend_end b rout s of (r, s') \<Rightarrow> ok r \<or> s' = s"
    by (cases rout) (simp_all add: resend_end_def split: prod.split)
  show "case submit_phone_end p sout s of (r, s') \<Rightarrow> ok r \<or> s' = s\<lparr>ls_state := Phone\<rparr>"
    by (cases sout) (simp_all add: submit_phone_end_def split: prod.split)
qed (simp_all add: submit_phone_start_def submit_code_start_def submit_password_start_def can_sign_in_def)

end
