(* ===== verification/Interop.thy ===== *)
theory Interop
  imports Files Names_Langs
begin

text \<open>
  \<open>src/tg_messenger/interop/factory_client.py\<close> (requests, retries, error mapping) and
  \<open>interop/worker.py\<close> (the durable report queue and the poll step). Network outcomes, the
  Telegram client and the agent are arguments; a cancellation or a kill at an await is an
  outcome of its own.
\<close>

section \<open>JSON\<close>

datatype json = JNull | JBool bool | JInt int | JText utext | JStr string | JList "json list"
  | JObj "(string \<times> json) list"

fun json_get :: "string \<Rightarrow> json \<Rightarrow> json option" where
  "json_get k (JObj kvs) = map_of (rev kvs) k"
| "json_get k _ = None"

section \<open>The factory client\<close>

definition max_attempts :: nat where "max_attempts = 3"
definition backoff_base :: real where "backoff_base = 1 / 2"
definition payload_version :: int where "payload_version = 1"

datatype http_method = GET | POST

record http_request =
  rq_method :: http_method
  rq_path :: string
  rq_params :: "(string \<times> string) list"
  rq_json :: "json option"
  rq_404_none :: bool

record http_response =
  rp_status :: int
  rp_body :: "json option"

text \<open>A transport error that fires before anything is sent, another one, or a response.\<close>

datatype http_outcome = NeverSent | Ambiguous | Response http_response

text \<open>\<open>FactoryError\<close> with its optional status code.\<close>

datatype factory_error = FactoryError "int option"

definition retryable :: "http_method \<Rightarrow> http_outcome \<Rightarrow> bool" where
  "retryable m out \<longleftrightarrow> out = NeverSent \<or> m = GET"

definition handle_response :: "bool \<Rightarrow> http_response \<Rightarrow> (factory_error, json option) result" where
  "handle_response allow_404_none r =
     (if allow_404_none \<and> rp_status r = 404 then Inr None
      else if rp_status r = 401 then Inl (FactoryError (Some 401))
      else if 400 \<le> rp_status r then Inl (FactoryError (Some (rp_status r)))
      else Inr (rp_body r))"

text \<open>The attempts from number \<open>attempt\<close> on against the outcomes the network will give; the
  result comes with the outcomes met and the sleeps between them.\<close>

function request_from :: "nat \<Rightarrow> http_request \<Rightarrow> (nat \<Rightarrow> http_outcome)
    \<Rightarrow> (factory_error, json option) result \<times> http_outcome list \<times> real list" where
  "request_from attempt rq net =
     (case net attempt of
        Response r \<Rightarrow> (handle_response (rq_404_none rq) r, [net attempt], [])
      | out \<Rightarrow>
          if retryable (rq_method rq) out \<and> attempt < max_attempts
          then (case request_from (Suc attempt) rq net of
                  (res, outs, sleeps) \<Rightarrow> (res, out # outs, (backoff_base * real attempt) # sleeps))
          else (Inl (FactoryError None), [out], []))"
  by pat_completeness auto
termination
  by (relation "measure (\<lambda>(attempt, rq, net). max_attempts - attempt)") auto

declare request_from.simps [simp del]

definition factory_request :: "http_request \<Rightarrow> (nat \<Rightarrow> http_outcome)
    \<Rightarrow> (factory_error, json option) result \<times> http_outcome list \<times> real list" where
  "factory_request rq net = request_from 1 rq net"

definition search_request :: "string \<Rightarrow> string \<Rightarrow> int \<Rightarrow> string option \<Rightarrow> string option \<Rightarrow> int option \<Rightarrow> http_request" where
  "search_request identifier query limit date_from date_to topic_id =
     \<lparr>rq_method = GET, rq_path = ''/search/messages/'' @ identifier,
      rq_params = [(''query'', query), (''limit'', str_int limit)]
        @ (case date_from of None \<Rightarrow> [] | Some d \<Rightarrow> [(''date_from'', d)])
        @ (case date_to of None \<Rightarrow> [] | Some d \<Rightarrow> [(''date_to'', d)])
        @ (case topic_id of None \<Rightarrow> [] | Some t \<Rightarrow> [(''topic_id'', str_int t)]),
      rq_json = None, rq_404_none = False\<rparr>"

text \<open>\<open>fresh\<close> is the random key sent when the caller gives none (or an empty one).\<close>

definition create_task_request :: "string \<Rightarrow> string \<Rightarrow> (string \<times> json) list \<Rightarrow> string option \<Rightarrow> http_request" where
  "create_task_request fresh ty payload key =
     \<lparr>rq_method = POST, rq_path = ''/tasks'', rq_params = [],
      rq_json = Some (JObj [(''type'', JStr ty), (''payload'', JObj (payload @ [(''v'', JInt payload_version)])),
        (''idempotency_key'', JStr (case key of None \<Rightarrow> fresh | Some k \<Rightarrow> if k = [] then fresh else k))]),
      rq_404_none = False\<rparr>"

definition get_task_request :: "string \<Rightarrow> http_request" where
  "get_task_request task_id =
     \<lparr>rq_method = GET, rq_path = ''/tasks/'' @ task_id, rq_params = [], rq_json = None, rq_404_none = False\<rparr>"

definition claim_request :: "string list \<Rightarrow> http_request" where
  "claim_request types =
     \<lparr>rq_method = POST, rq_path = ''/tasks/claim'', rq_params = [(''types'', join '','' types)],
      rq_json = None, rq_404_none = True\<rparr>"

definition complete_request :: "string \<Rightarrow> json \<Rightarrow> http_request" where
  "complete_request task_id payload =
     \<lparr>rq_method = POST, rq_path = ''/tasks/'' @ task_id @ ''/complete'', rq_params = [],
      rq_json = Some (JObj [(''result_payload'', payload)]), rq_404_none = False\<rparr>"

definition fail_request :: "string \<Rightarrow> utext \<Rightarrow> http_request" where
  "fail_request task_id error =
     \<lparr>rq_method = POST, rq_path = ''/tasks/'' @ task_id @ ''/fail'', rq_params = [],
      rq_json = Some (JObj [(''error'', JText error)]), rq_404_none = False\<rparr>"

text \<open>Outcomes a server may have acted on.\<close>

definition reached :: "http_outcome \<Rightarrow> bool" where
  "reached out \<longleftrightarrow> out \<noteq> NeverSent"

definition attempts_ok :: "nat \<Rightarrow> http_request \<Rightarrow> (factory_error, json option) result \<Rightarrow> http_outcome list \<Rightarrow> real list \<Rightarrow> bool" where
  "attempts_ok attempt rq res outs sleeps \<longleftrightarrow>
     outs \<noteq> [] \<and> attempt + length outs \<le> Suc max_attempts
     \<and> sleeps = map (\<lambda>i. backoff_base * real i) [attempt..<attempt + length outs - 1]
     \<and> (\<forall>o1\<in>set (butlast outs). retryable (rq_method rq) o1 \<and> (\<forall>r. o1 \<noteq> Response r))
     \<and> res = (case last outs of Response r \<Rightarrow> handle_response (rq_404_none rq) r | _ \<Rightarrow> Inl (FactoryError None))"

lemma attempts_step:
  assumes "attempts_ok (Suc attempt) rq res outs sleeps" and "retryable (rq_method rq) o1" and "\<forall>r. o1 \<noteq> Response r"
  shows "attempts_ok attempt rq res (o1 # outs) ((backoff_base * real attempt) # sleeps)"
proof -
  have ne: "outs \<noteq> []" using assms(1) by (simp add: attempts_ok_def)
  then have "[attempt..<attempt + length outs] = attempt # [Suc attempt..<attempt + length outs]"
    by (simp add: upt_rec)
  then show ?thesis using assms ne by (simp add: attempts_ok_def)
qed

lemma request_from_shape:
  "request_from attempt rq net = (res, outs, sleeps) \<Longrightarrow> attempt \<le> max_attempts \<Longrightarrow> attempts_ok attempt rq res outs sleeps"
proof (induction attempt rq net arbitrary: res outs sleeps rule: request_from.induct)
  case (1 attempt rq net)
  show ?case
  proof (cases "\<exists>r. net attempt = Response r")
    case True
    then show ?thesis using "1.prems" by (auto simp: request_from.simps [of attempt rq net] attempts_ok_def)
  next
    case False
    show ?thesis
    proof (cases "retryable (rq_method rq) (net attempt) \<and> attempt < max_attempts")
      case nr: False
      then show ?thesis using False "1.prems"
        by (cases "net attempt") (auto simp: request_from.simps [of attempt rq net] attempts_ok_def)
    next
      case True
      obtain res' outs' sleeps' where r: "request_from (Suc attempt) rq net = (res', outs', sleeps')" by (metis prod_cases3)
      have "res = res' \<and> outs = net attempt # outs' \<and> sleeps = (backoff_base * real attempt) # sleeps'"
        using "1.prems"(1) False True r by (cases "net attempt") (simp_all add: request_from.simps [of attempt rq net])
      moreover have "attempts_ok (Suc attempt) rq res' outs' sleeps'"
      proof (cases "net attempt")
        case NeverSent
        then show ?thesis using "1.IH"(1) [OF NeverSent _ r] True by simp
      next
        case Ambiguous
        then show ?thesis using "1.IH"(2) [OF Ambiguous _ r] True by simp
      qed (use False in simp)
      ultimately show ?thesis using attempts_step True False by blast
    qed
  qed
qed

text \<open>
  A request makes at most three attempts with growing pauses; an attempt is repeated only
  after a network error that is safe to repeat, so a POST reaches the server at most once, and
  an HTTP error is never retried but raised with its status.
\<close>

theorem factory_retry_safe:
  "case factory_request rq net of (res, outs, sleeps) \<Rightarrow>
     1 \<le> length outs \<and> length outs \<le> 3
     \<and> sleeps = map (\<lambda>i. backoff_base * real i) [1..<length outs]
     \<and> (rq_method rq = POST \<longrightarrow> length (filter reached outs) \<le> 1)
     \<and> (\<forall>o1\<in>set (butlast outs). \<forall>r. o1 \<noteq> Response r)
     \<and> (case last outs of
          Response r \<Rightarrow> res = handle_response (rq_404_none rq) r
        | _ \<Rightarrow> res = Inl (FactoryError None))"
proof -
  obtain res outs sleeps where r: "factory_request rq net = (res, outs, sleeps)" by (metis prod_cases3)
  have "attempts_ok 1 rq res outs sleeps"
    using r unfolding factory_request_def by (rule request_from_shape) (simp add: max_attempts_def)
  then have ne: "outs \<noteq> []" and but: "\<forall>o1\<in>set (butlast outs). retryable (rq_method rq) o1 \<and> (\<forall>r. o1 \<noteq> Response r)"
    and len: "length outs \<le> 3" and sl: "sleeps = map (\<lambda>i. backoff_base * real i) [1..<length outs]"
    and res: "res = (case last outs of Response r \<Rightarrow> handle_response (rq_404_none rq) r | _ \<Rightarrow> Inl (FactoryError None))"
    by (simp_all add: attempts_ok_def max_attempts_def)
  have post: "length (filter reached outs) \<le> 1" if "rq_method rq = POST"
  proof -
    have "filter reached (butlast outs) = []" using but that by (auto simp: filter_empty_conv reached_def retryable_def)
    then have "filter reached outs = filter reached [last outs]"
      using ne by (metis append_butlast_last_id append_self_conv2 filter_append)
    then show ?thesis by simp
  qed
  have fin: "case last outs of Response r \<Rightarrow> res = handle_response (rq_404_none rq) r | _ \<Rightarrow> res = Inl (FactoryError None)"
    by (cases "last outs") (simp_all add: res)
  have one: "1 \<le> length outs" using ne by (cases outs) simp_all
  show ?thesis unfolding r prod.case using one len sl post but fin by blast
qed

lemma factory_retry_safe_witness:
  "factory_request (complete_request ''7'' JNull) (\<lambda>i. if i = 1 then NeverSent else Ambiguous)
    = (Inl (FactoryError None), [NeverSent, Ambiguous], [1 / 2])
   \<and> length (filter reached [NeverSent, Ambiguous]) \<le> 1"
proof -
  let ?net = "\<lambda>i::nat. if i = 1 then NeverSent else Ambiguous"
  have "factory_request (complete_request ''7'' JNull) ?net = (Inl (FactoryError None), [NeverSent, Ambiguous], [1 / 2])"
    by (simp add: factory_request_def request_from.simps retryable_def max_attempts_def backoff_base_def complete_request_def)
  then show ?thesis using factory_retry_safe [of "complete_request ''7'' JNull" ?net] by (simp add: complete_request_def)
qed

end
