(* ===== verification/Report_Worker.thy ===== *)
theory Report_Worker
  imports Interop
begin

text \<open>
  \<open>src/tg_messenger/interop/worker.py\<close>: the worker's poll step and its report queue. The
  queue's file always holds the list last saved (the save is a rename of a complete
  temporary file), so one list stands for both; a restart reloads it. The factory's answers
  to the report calls are a list consumed in order; when it is exhausted the process is gone.
\<close>

section \<open>The queue\<close>

datatype report = RComplete "json option" json | RFail "json option" utext

text \<open>What the constructor finds at its path.\<close>

datatype queue_file = QMissing | QUnreadable | QItems "report list"

definition load_queue :: "queue_file \<Rightarrow> report list" where
  "load_queue f = (case f of QItems items \<Rightarrow> items | _ \<Rightarrow> [])"

definition queue_add :: "report \<Rightarrow> report list \<Rightarrow> report list" where
  "queue_add item items = items @ [item]"

definition queue_ack :: "report list \<Rightarrow> report list" where
  "queue_ack items = tl items"

text \<open>The save: the JSON text replaces the file through a temporary one (no directory sync).\<close>

definition queue_save_ops :: "string \<Rightarrow> string \<Rightarrow> fs_op list" where
  "queue_save_ops path dumped =
     [FCreate (path @ ''.tmp'')] @ map (FAppend (path @ ''.tmp'')) dumped @ [FReplace (path @ ''.tmp'') path]"

definition legacy_reports_name :: string where "legacy_reports_name = ''interop_reports.json''"

definition reports_name :: "string \<Rightarrow> string" where
  "reports_name session = ''interop_reports-'' @ sanitize_profile_name session @ ''.json''"

text \<open>\<open>worker_reports_path\<close>: an own file wins, the shared legacy file is moved, not copied.\<close>

definition worker_reports_path :: "string \<Rightarrow> files \<Rightarrow> string \<times> files" where
  "worker_reports_path session fs =
     (let path = reports_name session
      in (path, if od_get fs path = None \<and> od_get fs legacy_reports_name \<noteq> None
                then fs_exec (FReplace legacy_reports_name path) fs else fs))"

section \<open>The poll step\<close>

datatype report_answer = Acked | Status int | Unreachable | ReportExc | Killed

text \<open>How a step ends: handled a task or not, a \<open>FactoryError\<close>, another exception, or the
  process is cancelled or killed at an await.\<close>

datatype step_end = Handled | Idle | Raised "int option" | RaisedOther | Dead

record worker =
  wk_items :: "report list"
  wk_made :: "report list"
  wk_settled :: "(report \<times> bool) list"
  wk_claims :: nat

definition settle :: "bool \<Rightarrow> worker \<Rightarrow> worker" where
  "settle acked w = (case wk_items w of
     [] \<Rightarrow> w | item # rest \<Rightarrow> w\<lparr>wk_items := queue_ack (wk_items w), wk_settled := wk_settled w @ [(item, acked)]\<rparr>)"

text \<open>\<open>_flush_reports\<close>: \<open>Handled\<close> means drained, \<open>Idle\<close> left on an unexpected error.\<close>

function flush_reports :: "report_answer list \<Rightarrow> worker \<Rightarrow> step_end \<times> report_answer list \<times> worker" where
  "flush_reports answers w =
     (if wk_items w = [] then (Handled, answers, w)
      else (case answers of
              [] \<Rightarrow> (Dead, [], w)
            | a # rest \<Rightarrow>
                (case a of
                   Acked \<Rightarrow> flush_reports rest (settle True w)
                 | Status c \<Rightarrow> if c = 409 then flush_reports rest (settle False w) else (Raised (Some c), rest, w)
                 | Unreachable \<Rightarrow> (Raised None, rest, w)
                 | ReportExc \<Rightarrow> (Idle, rest, w)
                 | Killed \<Rightarrow> (Dead, rest, w))))"
  by pat_completeness auto
termination
  by (relation "measure (\<lambda>(answers, w). length answers)") auto

declare flush_reports.simps [simp del]

text \<open>\<open>_safe_complete_task\<close> and \<open>_safe_fail_task\<close>: persist, then await the acknowledgement.\<close>

definition report_outcome :: "report \<Rightarrow> report_answer list \<Rightarrow> worker \<Rightarrow> step_end \<times> report_answer list \<times> worker" where
  "report_outcome item answers w =
     (let w1 = w\<lparr>wk_items := queue_add item (wk_items w), wk_made := wk_made w @ [item]\<rparr>
      in case answers of
           [] \<Rightarrow> (Dead, [], w1)
         | Acked # rest \<Rightarrow> (Handled, rest, settle True w1)
         | Killed # rest \<Rightarrow> (Dead, rest, w1)
         | _ # rest \<Rightarrow> (Handled, rest, w1))"

text \<open>A call into the client or the agent.\<close>

datatype 'a call = Ret 'a | Exc utext | Cancel

fun bind_call :: "'a call \<Rightarrow> ('a \<Rightarrow> 'b call) \<Rightarrow> 'b call" where
  "bind_call (Ret x) f = f x"
| "bind_call (Exc e) f = Exc e"
| "bind_call Cancel f = Cancel"

record worker_env =
  we_send_text :: "json \<Rightarrow> json \<Rightarrow> json call"
  we_agent :: "(json \<Rightarrow> json \<Rightarrow> json call) option"
  we_history :: "json \<Rightarrow> json \<Rightarrow> json \<Rightarrow> json call"
  we_dialogs :: "json \<Rightarrow> json call"
  we_repr :: "json option \<Rightarrow> utext"

definition quoted :: "string \<Rightarrow> utext" where
  "quoted s = [39] @ u s @ [39]"

definition agent_hint :: utext where
  "agent_hint = [32, 8212] @ u '' install the [agent] extra and run the worker with an agent configured''"

definition get_or :: "string \<Rightarrow> json \<Rightarrow> json \<Rightarrow> json" where
  "get_or k d p = (case json_get k p of None \<Rightarrow> d | Some v \<Rightarrow> v)"

definition exec_reply :: "worker_env \<Rightarrow> json \<Rightarrow> json call" where
  "exec_reply env payload =
     (case json_get ''peer'' payload of
        None \<Rightarrow> Exc (u ''KeyError: '' @ quoted ''peer'')
      | Some peer \<Rightarrow>
          bind_call
            (if get_or ''text'' JNull payload \<noteq> JNull then Ret (get_or ''text'' JNull payload)
             else if get_or ''prompt'' JNull payload = JNull
             then Exc (u ''ValueError: reply task needs either '' @ quoted ''text'' @ u '' or '' @ quoted ''prompt'')
             else (case we_agent env of
                     None \<Rightarrow> Exc (u ''RuntimeError: prompt-based reply requires the agent'' @ agent_hint)
                   | Some handle \<Rightarrow> handle peer (get_or ''prompt'' JNull payload)))
            (\<lambda>body. bind_call (we_send_text env peer body) (\<lambda>i. Ret (JObj [(''sent'', i)]))))"

definition exec_fetch_history :: "worker_env \<Rightarrow> json \<Rightarrow> json call" where
  "exec_fetch_history env payload =
     (case json_get ''peer'' payload of
        None \<Rightarrow> Exc (u ''KeyError: '' @ quoted ''peer'')
      | Some peer \<Rightarrow>
          bind_call (we_history env peer (get_or ''limit'' (JInt 50) payload) (get_or ''offset_id'' (JInt 0) payload))
            (\<lambda>ms. Ret (JObj [(''messages'', ms)])))"

definition exec_fetch_dialogs :: "worker_env \<Rightarrow> json \<Rightarrow> json call" where
  "exec_fetch_dialogs env payload =
     bind_call (we_dialogs env (get_or ''dm_only'' (JBool True) payload)) (\<lambda>ds. Ret (JObj [(''dialogs'', ds)]))"

text \<open>\<open>task.get("payload") or {}\<close>.\<close>

definition task_payload :: "json \<Rightarrow> json" where
  "task_payload task = (case json_get ''payload'' task of
     None \<Rightarrow> JObj [] | Some p \<Rightarrow> if p \<in> {JNull, JBool False, JInt 0, JText [], JStr [], JList []} then JObj [] else p)"

definition execute_task :: "worker_env \<Rightarrow> json \<Rightarrow> json call" where
  "execute_task env task =
     (let ty = json_get ''type'' task; payload = task_payload task
      in if ty = Some (JStr ''dm_reply'') \<or> ty = Some (JStr ''chat_answer'') then exec_reply env payload
         else if ty = Some (JStr ''fetch_history'') then exec_fetch_history env payload
         else if ty = Some (JStr ''fetch_dialogs'') then exec_fetch_dialogs env payload
         else Exc (u ''ValueError: unknown task type '' @ we_repr env ty))"

datatype claim_answer = NoTask | Task json | ClaimError "int option" | ClaimExc | ClaimKilled

definition process_once :: "worker_env \<Rightarrow> claim_answer \<Rightarrow> report_answer list \<Rightarrow> worker \<Rightarrow> step_end \<times> worker" where
  "process_once env claim answers w =
     (case flush_reports answers w of
        (Handled, rest, w1) \<Rightarrow>
          (let w2 = w1\<lparr>wk_claims := Suc (wk_claims w1)\<rparr> in
           case claim of
             NoTask \<Rightarrow> (Idle, w2)
           | ClaimError c \<Rightarrow> (Raised c, w2)
           | ClaimExc \<Rightarrow> (RaisedOther, w2)
           | ClaimKilled \<Rightarrow> (Dead, w2)
           | Task task \<Rightarrow>
               (case execute_task env task of
                  Cancel \<Rightarrow> (Dead, w2)
                | Exc e \<Rightarrow> (case report_outcome (RFail (json_get ''id'' task) e) rest w2 of (r, _, w3) \<Rightarrow> (r, w3))
                | Ret result \<Rightarrow> (case report_outcome (RComplete (json_get ''id'' task) result) rest w2 of (r, _, w3) \<Rightarrow> (r, w3))))
      | (r, _, w1) \<Rightarrow> (r, w1))"

text \<open>What \<open>run\<close> does with a step's end: go on, sleep first, or stop with the error.\<close>

datatype loop_action = Continue | SleepThenContinue | Stop "int option"

definition run_action :: "step_end \<Rightarrow> loop_action" where
  "run_action e = (case e of
     Handled \<Rightarrow> Continue | Idle \<Rightarrow> SleepThenContinue | RaisedOther \<Rightarrow> SleepThenContinue | Dead \<Rightarrow> Stop None
   | Raised c \<Rightarrow> (case c of Some n \<Rightarrow> if n < 500 then Stop c else SleepThenContinue | None \<Rightarrow> SleepThenContinue))"

text \<open>A worker's life: steps, and restarts that reload the queue from its file.\<close>

inductive worker_step :: "worker \<Rightarrow> worker \<Rightarrow> bool" where
  step: "process_once env claim answers w = (r, w') \<Longrightarrow> worker_step w w'"
| restart: "worker_step w (w\<lparr>wk_items := load_queue (QItems (wk_items w))\<rparr>)"

inductive_cases worker_stepE: "worker_step w w'"

definition worker_inv :: "worker \<Rightarrow> bool" where
  "worker_inv w \<longleftrightarrow> wk_made w = map fst (wk_settled w) @ wk_items w \<and> length (wk_items w) \<le> 1"

lemma settle_inv: "worker_inv w \<Longrightarrow> worker_inv (settle b w)"
  by (auto simp: worker_inv_def settle_def queue_ack_def split: list.splits)

lemma flush_inv: "flush_reports answers w = (r, rest, w') \<Longrightarrow> worker_inv w \<Longrightarrow>
    worker_inv w' \<and> wk_made w' = wk_made w \<and> wk_claims w' = wk_claims w \<and> (r = Handled \<longleftrightarrow> wk_items w' = [])"
proof (induction answers w arbitrary: r rest w' rule: flush_reports.induct)
  case (1 answers w)
  have sv: "wk_made (settle b w) = wk_made w" "wk_claims (settle b w) = wk_claims w" for b
    by (simp_all add: settle_def split: list.splits)
  show ?case
  proof (cases "wk_items w = []")
    case True
    then show ?thesis using "1.prems" by (simp add: flush_reports.simps [of answers w])
  next
    case items: False
    show ?thesis
    proof (cases answers)
      case Nil
      then show ?thesis using items "1.prems" by (simp add: flush_reports.simps [of "[]" w])
    next
      case (Cons a as)
      have u: "flush_reports (x # as) w = (case x of
          Acked \<Rightarrow> flush_reports as (settle True w)
        | Status c \<Rightarrow> if c = 409 then flush_reports as (settle False w) else (Raised (Some c), as, w)
        | Unreachable \<Rightarrow> (Raised None, as, w) | ReportExc \<Rightarrow> (Idle, as, w) | Killed \<Rightarrow> (Dead, as, w))" for x
        using items by (simp add: flush_reports.simps [of "x # as" w])
      show ?thesis
      proof (cases a)
        case Acked
        then have "flush_reports as (settle True w) = (r, rest, w')" using "1.prems"(1) items Cons Acked by (simp add: u)
        then show ?thesis using "1.IH"(1) [OF items Cons Acked] settle_inv [OF "1.prems"(2)] sv by simp
      next
        case (Status c)
        show ?thesis
        proof (cases "c = 409")
          case True
          then have "flush_reports as (settle False w) = (r, rest, w')" using "1.prems"(1) items Cons Status True by (simp add: u)
          then show ?thesis using "1.IH"(2) [OF items Cons Status True] settle_inv [OF "1.prems"(2)] sv by simp
        qed (use Cons Status items "1.prems" in \<open>auto simp: u\<close>)
      qed (use Cons items "1.prems" in \<open>auto simp: u\<close>)
    qed
  qed
qed

lemma report_inv: "report_outcome item answers w = (r, rest, w') \<Longrightarrow> worker_inv w \<Longrightarrow> wk_items w = [] \<Longrightarrow>
    worker_inv w' \<and> wk_made w' = wk_made w @ [item]"
  by (auto simp: report_outcome_def worker_inv_def Let_def queue_add_def queue_ack_def settle_def
      split: list.splits report_answer.splits)

lemma process_inv:
  assumes "process_once env claim answers w = (r, w')" and "worker_inv w"
  shows "worker_inv w'"
proof -
  obtain e rest w1 where f: "flush_reports answers w = (e, rest, w1)" by (metis prod_cases3)
  have i: "worker_inv w1" "e = Handled \<Longrightarrow> wk_items w1 = []" using flush_inv [OF f assms(2)] by simp_all
  let ?w2 = "w1\<lparr>wk_claims := Suc (wk_claims w1)\<rparr>"
  have i2: "worker_inv ?w2" using i(1) by (simp add: worker_inv_def)
  show ?thesis
  proof (cases e)
    case Handled
    then have n: "wk_items ?w2 = []" using i(2) by simp
    have rep: "report_outcome item rest ?w2 = (x, y, w') \<Longrightarrow> worker_inv w'" for item x y
      using report_inv [OF _ i2 n] by simp
    show ?thesis using assms(1) Handled f i2 rep
      by (auto simp: process_once_def Let_def split: claim_answer.splits call.splits prod.splits)
  qed (use assms(1) f i in \<open>auto simp: process_once_def\<close>)
qed

lemma worker_step_keeps: "worker_inv w \<Longrightarrow> worker_step w w' \<Longrightarrow> worker_inv w'"
proof (erule worker_stepE)
  fix env claim answers r assume "worker_inv w" "process_once env claim answers w = (r, w')"
  then show "worker_inv w'" using process_inv by blast
qed (simp add: load_queue_def worker_inv_def)

interpretation durable: inv_system worker_step worker_inv
  by unfold_locales (rule worker_step_keeps)

definition worker_start :: worker where
  "worker_start = \<lparr>wk_items = [], wk_made = [], wk_settled = [], wk_claims = 0\<rparr>"


definition demo_env :: worker_env where
  "demo_env = \<lparr>we_send_text = (\<lambda>p t. Ret (JInt 11)), we_agent = None, we_history = (\<lambda>p l off. Exc (u ''no'')),
     we_dialogs = (\<lambda>d. Cancel), we_repr = (\<lambda>t. [])\<rparr>"

definition demo_task :: json where
  "demo_task = JObj [(''id'', JStr ''t1''), (''type'', JStr ''dm_reply''),
     (''payload'', JObj [(''peer'', JInt 5), (''text'', JStr ''hi'')])]"

lemma demo_process: "process_once demo_env (Task demo_task) [Killed] worker_start
    = (Dead, \<lparr>wk_items = [RComplete (Some (JStr ''t1'')) (JObj [(''sent'', JInt 11)])],
        wk_made = [RComplete (Some (JStr ''t1'')) (JObj [(''sent'', JInt 11)])], wk_settled = [], wk_claims = 1\<rparr>)"
  by (simp add: process_once_def flush_reports.simps worker_start_def execute_task_def demo_task_def demo_env_def
      task_payload_def exec_reply_def get_or_def report_outcome_def queue_add_def Let_def)


text \<open>
  While a report stays unacknowledged the worker claims and executes nothing: when the
  flush does not drain the queue, the step ends without touching the factory's task queue,
  whatever the task would have been, and with the queue as the flush left it.
\<close>

theorem no_claim_while_pending:
  "case flush_reports answers w of (e, rest, w1) \<Rightarrow>
     if e = Handled then wk_claims (snd (process_once env claim answers w)) = Suc (wk_claims w1)
     else process_once env claim answers w = (e, w1) \<and> process_once env' claim' answers w = (e, w1)"
proof -
  obtain e rest w1 where f: "flush_reports answers w = (e, rest, w1)" by (metis prod_cases3)
  have rc: "wk_claims (snd (snd (report_outcome item a x))) = wk_claims x" for item a x
    by (simp add: report_outcome_def settle_def queue_add_def Let_def split: list.splits report_answer.splits)
  have "e = Handled \<Longrightarrow> wk_claims (snd (process_once env claim answers w)) = Suc (wk_claims w1)"
    using rc by (auto simp: process_once_def f Let_def split: claim_answer.splits call.splits prod.splits)
      (metis snd_conv worker.select_convs(4) worker.update_convs(4) worker.surjective)+
  moreover have "e \<noteq> Handled \<Longrightarrow> process_once en cl answers w = (e, w1)" for en cl
    by (cases e) (simp_all add: process_once_def f)
  ultimately show ?thesis by (simp add: f)
qed

end
