(* ===== verification/Moderation.thy ===== *)
theory Moderation
  imports Models "HOL-Library.List_Lexorder" "HOL-Library.Char_ord" "HOL-Library.Product_Lexorder"
begin

text \<open>
  \<open>src/tg_messenger/core/moderation.py\<close>: rules and their table, the match, the engine's
  bounded caches, and the handling of a message as the client calls it makes and the journal
  entries it writes. A user's regular expression is a parameter (\<open>re_search\<close>), as is the
  Unicode \<open>\w\<close> class; which client calls and which journal writes raise are arguments.
\<close>

section \<open>Rules\<close>

record rule_conditions =
  rc_pattern :: "utext option"
  rc_has_link :: bool
  rc_is_forward :: bool
  rc_new_member_sec :: "int option"
  rc_max_per_minute :: "int option"

record rule_actions =
  ra_delete :: bool
  ra_mute_sec :: "int option"
  ra_ban :: bool
  ra_warn_text :: "utext option"

record moderation_rule =
  mr_chat_id :: int
  mr_name :: string
  mr_enabled :: bool
  mr_conditions :: rule_conditions
  mr_actions :: rule_actions

text \<open>The validators: \<open>compiles\<close> is \<open>re.compile\<close>.\<close>

definition valid_conditions :: "(utext \<Rightarrow> bool) \<Rightarrow> rule_conditions \<Rightarrow> bool" where
  "valid_conditions compiles c \<longleftrightarrow>
     (case rc_pattern c of None \<Rightarrow> True | Some p \<Rightarrow> compiles p)
     \<and> (case rc_new_member_sec c of None \<Rightarrow> True | Some v \<Rightarrow> 0 < v)
     \<and> (case rc_max_per_minute c of None \<Rightarrow> True | Some v \<Rightarrow> 1 \<le> v)"

definition valid_actions :: "rule_actions \<Rightarrow> bool" where
  "valid_actions a \<longleftrightarrow> (case ra_mute_sec a of None \<Rightarrow> True | Some v \<Rightarrow> 30 \<le> v)"

section \<open>Links\<close>

text \<open>Case-insensitive letters: \<open>s\<close> also folds with the long s, and the ranges of the
  mention class take in the four letters that fold into ASCII.\<close>

definition same_letter :: "nat \<Rightarrow> nat \<Rightarrow> bool" where
  "same_letter pat c \<longleftrightarrow> c = pat \<or> 97 \<le> pat \<and> pat \<le> 122 \<and> c + 32 = pat \<or> pat = 115 \<and> c = 383"

definition lit_at :: "string \<Rightarrow> utext \<Rightarrow> bool" where
  "lit_at p s \<longleftrightarrow> length p \<le> length s \<and> list_all2 same_letter (u p) (take (length p) s)"

definition mention_cp :: "nat \<Rightarrow> bool" where
  "mention_cp c \<longleftrightarrow> 48 \<le> c \<and> c \<le> 57 \<or> 65 \<le> c \<and> c \<le> 90 \<or> 97 \<le> c \<and> c \<le> 122 \<or> c = 95
     \<or> c \<in> {304, 305, 383, 8490}"

text \<open>A match starting here, given the character before.\<close>

definition link_at :: "(nat \<Rightarrow> bool) \<Rightarrow> nat option \<Rightarrow> utext \<Rightarrow> bool" where
  "link_at is_word prev s \<longleftrightarrow>
     lit_at ''http://'' s \<or> lit_at ''https://'' s \<or> lit_at ''t.me/'' s \<or> lit_at ''www.'' s
     \<or> (case s of [] \<Rightarrow> False
        | c # r \<Rightarrow> c = 64 \<and> (case prev of None \<Rightarrow> True | Some p \<Rightarrow> \<not> is_word p)
            \<and> 5 \<le> length (takeWhile mention_cp r))"

fun link_search :: "(nat \<Rightarrow> bool) \<Rightarrow> nat option \<Rightarrow> utext \<Rightarrow> bool" where
  "link_search is_word prev [] = link_at is_word prev []"
| "link_search is_word prev (c # s) = (link_at is_word prev (c # s) \<or> link_search is_word (Some c) s)"

section \<open>The match\<close>

record engine_oracle =
  eo_search :: "utext \<Rightarrow> utext \<Rightarrow> bool"
  eo_is_word :: "nat \<Rightarrow> bool"

definition rule_matches :: "engine_oracle \<Rightarrow> rule_conditions \<Rightarrow> message \<Rightarrow> bool \<Rightarrow> bool \<Rightarrow> bool \<Rightarrow> bool" where
  "rule_matches eo c m is_new_member is_forward over_rate_limit =
     (let body = or_default (ms_text m) [] in
      if (case rc_pattern c of None \<Rightarrow> False | Some p \<Rightarrow> \<not> eo_search eo p body) then False
      else if rc_has_link c \<and> \<not> link_search (eo_is_word eo) None body then False
      else if rc_is_forward c \<and> \<not> is_forward then False
      else if rc_new_member_sec c \<noteq> None \<and> \<not> is_new_member then False
      else if rc_max_per_minute c \<noteq> None \<and> \<not> over_rate_limit then False
      else True)"

section \<open>The rules table\<close>

type_synonym rules_table = "(int \<times> string, moderation_rule) odict"

definition add_rule :: "moderation_rule \<Rightarrow> rules_table \<Rightarrow> rules_table" where
  "add_rule r t = od_set (mr_chat_id r, mr_name r) r t"

definition list_rules :: "int option \<Rightarrow> rules_table \<Rightarrow> moderation_rule list" where
  "list_rules chat t =
     (case chat of
        None \<Rightarrow> map snd (sort_key fst t)
      | Some c \<Rightarrow> map snd (sort_key (\<lambda>e. snd (fst e)) (filter (\<lambda>e. fst (fst e) = c) t)))"

definition remove_rule :: "int \<Rightarrow> string \<Rightarrow> rules_table \<Rightarrow> int \<times> rules_table" where
  "remove_rule chat nm t = (if (chat, nm) \<in> set (od_keys t) then 1 else 0, od_pop (chat, nm) t)"

text \<open>\<open>_load_rules_by_chat\<close>: the ordered list, grouped with \<open>setdefault(...).append\<close>.\<close>

definition group_rules :: "moderation_rule list \<Rightarrow> (int, moderation_rule list) odict" where
  "group_rules rs = od_group mr_chat_id rs"

definition load_rules_by_chat :: "rules_table \<Rightarrow> (int, moderation_rule list) odict" where
  "load_rules_by_chat t = group_rules (list_rules None t)"

record admin_rights =
  ar_delete_messages :: bool
  ar_ban_users :: bool

definition chat_rights_ok :: "admin_rights \<Rightarrow> moderation_rule list \<Rightarrow> bool" where
  "chat_rights_ok ar rules =
     (let needs_delete = list_ex (\<lambda>r. mr_enabled r \<and> ra_delete (mr_actions r)) rules;
          needs_ban = list_ex (\<lambda>r. mr_enabled r \<and> (ra_ban (mr_actions r) \<or> ra_mute_sec (mr_actions r) \<noteq> None)) rules
      in (\<not> needs_delete \<or> ar_delete_messages ar) \<and> (\<not> needs_ban \<or> ar_ban_users ar))"

definition check_admin_rights :: "(int \<Rightarrow> admin_rights) \<Rightarrow> rules_table \<Rightarrow> (int, bool) odict" where
  "check_admin_rights rights t =
     map (\<lambda>(chat, rules). (chat, chat_rights_ok (rights chat) rules)) (sort_key fst (load_rules_by_chat t))"

section \<open>The engine\<close>

record mod_engine =
  me_enforce :: bool
  me_blocked :: "int list"
  me_member_cap :: nat
  me_rate_cap :: nat
  me_joined :: "(int \<times> int, instant) odict"
  me_rate :: "(int \<times> int, instant list) odict"
  me_rules :: "(int, moderation_rule list) odict option"

definition disable_chats :: "int list \<Rightarrow> mod_engine \<Rightarrow> mod_engine" where
  "disable_chats cs e = e\<lparr>me_blocked := me_blocked e @ cs\<rparr>"

definition put_join :: "int \<times> int \<Rightarrow> instant \<Rightarrow> mod_engine \<Rightarrow> mod_engine" where
  "put_join key now e = e\<lparr>me_joined := od_trim (me_member_cap e) (od_touch key now (me_joined e))\<rparr>"

definition on_chat_action :: "instant \<Rightarrow> chat_action_event \<Rightarrow> mod_engine \<Rightarrow> mod_engine" where
  "on_chat_action now ev e =
     (if ca_kind ev \<noteq> Join then e
      else (case ca_user ev of None \<Rightarrow> e | Some us \<Rightarrow> put_join (ca_dialog_id ev, us_id us) now e))"

definition is_new_member :: "instant \<Rightarrow> int \<Rightarrow> int \<Rightarrow> int \<Rightarrow> mod_engine \<Rightarrow> bool" where
  "is_new_member now chat usr within_sec e =
     (case od_get (me_joined e) (chat, usr) of None \<Rightarrow> False | Some t \<Rightarrow> now - t \<le> of_int within_sec)"

definition rate_window_sec :: instant where "rate_window_sec = 60"

definition slide_window :: "instant \<Rightarrow> instant list \<Rightarrow> instant list" where
  "slide_window now w = dropWhile (\<lambda>t. rate_window_sec < now - t) (w @ [now])"

definition put_rate :: "int \<times> int \<Rightarrow> instant list \<Rightarrow> mod_engine \<Rightarrow> mod_engine" where
  "put_rate key w e = e\<lparr>me_rate := od_trim (me_rate_cap e) (od_touch key w (me_rate e))\<rparr>"

definition record_rate_window :: "instant \<Rightarrow> int \<Rightarrow> int \<Rightarrow> mod_engine \<Rightarrow> int \<times> mod_engine" where
  "record_rate_window now chat sender e =
     (let w = slide_window now (case od_get (me_rate e) (chat, sender) of None \<Rightarrow> [] | Some w \<Rightarrow> w)
      in (int (length w), put_rate (chat, sender) w e))"

lemma trim_touch_laws:
  fixes d :: "('k, 'v) odict"
  defines "p \<equiv> \<lambda>cap k v (d :: ('k, 'v) odict). od_trim cap (od_touch k v d)"
  shows "od_wf d \<Longrightarrow> od_wf (p cap k v d)" "length (p cap k v d) \<le> cap"
    "0 < cap \<Longrightarrow> od_get (p cap k v d) k = Some v"
    "od_wf d \<Longrightarrow> j \<noteq> k \<Longrightarrow> od_get (p cap k v d) j = Some w \<Longrightarrow> od_get d j = Some w"
    "length d < cap \<Longrightarrow> j \<noteq> k \<Longrightarrow> od_get (p cap k v d) j = od_get d j"
proof -
  show "od_wf d \<Longrightarrow> od_wf (p cap k v d)" "length (p cap k v d) \<le> cap" by (simp_all add: p_def od_inv)
  show "od_get (p cap k v d) k = Some v" if "0 < cap"
  proof -
    have "p cap k v d = od_trim (cap - 1) (od_pop k d) @ [(k, v)]"
      using that by (simp add: p_def od_touch_last od_trim_last)
    moreover have "k \<notin> fst ` set (od_trim (cap - 1) (od_pop k d))"
      using od_trim_subset [of "cap - 1" "od_pop k d"] by (auto simp: od_pop_def)
    ultimately show ?thesis by (simp add: map_add_Some_iff map_of_eq_None_iff)
  qed
  show "od_wf d \<Longrightarrow> j \<noteq> k \<Longrightarrow> od_get (p cap k v d) j = Some w \<Longrightarrow> od_get d j = Some w"
    using od_get_trim_Some [of "od_touch k v d" cap j w] by (simp add: p_def od_inv od_simps)
  show "length d < cap \<Longrightarrow> j \<noteq> k \<Longrightarrow> od_get (p cap k v d) j = od_get d j"
    using length_od_touch [of k v d] by (simp add: p_def od_simps)
qed

interpretation joins: recency_map put_join me_joined me_member_cap
  by unfold_locales
    (simp_all add: put_join_def trim_touch_laws(1,2,3,5) trim_touch_laws(4) [where d = "me_joined _"])

interpretation rates: recency_map put_rate me_rate me_rate_cap
  by unfold_locales
    (simp_all add: put_rate_def trim_touch_laws(1,2,3,5) trim_touch_laws(4) [where d = "me_rate _"])

section \<open>Acting on a message\<close>

datatype mod_call = SendWarning int utext int | MuteUser int int int | BanUser int int | DeleteMessage int int

record log_entry =
  le_chat :: int
  le_message :: int
  le_rule :: string
  le_action :: string
  le_dry_run :: bool

text \<open>One action: its name and the client call it makes.\<close>

definition rule_calls :: "moderation_rule \<Rightarrow> message \<Rightarrow> (string \<times> mod_call) list" where
  "rule_calls r m =
     (let chat = ms_dialog_id m; a = mr_actions r in
      (case ra_warn_text a of None \<Rightarrow> [] | Some t \<Rightarrow> [(''warn'', SendWarning chat t (ms_id m))])
      @ (case ra_mute_sec a of None \<Rightarrow> [] | Some s \<Rightarrow> [(''mute'', MuteUser chat (ms_sender_id m) s)])
      @ (if ra_ban a then [(''ban'', BanUser chat (ms_sender_id m))] else [])
      @ (if ra_delete a then [(''delete'', DeleteMessage chat (ms_id m))] else []))"

definition entry_of :: "moderation_rule \<Rightarrow> message \<Rightarrow> string \<Rightarrow> bool \<Rightarrow> log_entry" where
  "entry_of r m action dry =
     \<lparr>le_chat = ms_dialog_id m, le_message = ms_id m, le_rule = mr_name r, le_action = action, le_dry_run = dry\<rparr>"

text \<open>\<open>_do\<close>: the calls made and the entry journalled.\<close>

definition do_action :: "bool \<Rightarrow> (mod_call \<Rightarrow> bool) \<Rightarrow> moderation_rule \<Rightarrow> message \<Rightarrow> string \<times> mod_call \<Rightarrow> mod_call list \<times> log_entry" where
  "do_action enforce raises r m p =
     (if \<not> enforce then ([], entry_of r m (fst p) True)
      else if raises (snd p) then ([snd p], entry_of r m (fst p @ '':failed'') False)
      else ([snd p], entry_of r m (fst p) False))"

definition apply_rule :: "bool \<Rightarrow> (mod_call \<Rightarrow> bool) \<Rightarrow> (log_entry \<Rightarrow> bool) \<Rightarrow> moderation_rule \<Rightarrow> message
    \<Rightarrow> mod_call list \<times> log_entry list" where
  "apply_rule enforce raises jraises r m =
     (let ds = map (do_action enforce raises r m) (rule_calls r m)
      in (concat (map fst ds), filter (\<lambda>e. \<not> jraises e) (map snd ds)))"

definition loaded_rules :: "rules_table \<Rightarrow> mod_engine \<Rightarrow> mod_engine" where
  "loaded_rules t e = (case me_rules e of None \<Rightarrow> e\<lparr>me_rules := Some (load_rules_by_chat t)\<rparr> | Some _ \<Rightarrow> e)"

definition rules_for_chat :: "int \<Rightarrow> mod_engine \<Rightarrow> moderation_rule list" where
  "rules_for_chat chat e = (case me_rules e of None \<Rightarrow> []
     | Some d \<Rightarrow> (case od_get d chat of None \<Rightarrow> [] | Some rs \<Rightarrow> rs))"

text \<open>The count of this message for the rate rules, recorded once per message.\<close>

definition count_message :: "instant \<Rightarrow> message \<Rightarrow> mod_engine \<Rightarrow> int \<times> mod_engine" where
  "count_message now m e =
     (if list_ex (\<lambda>r. mr_enabled r \<and> rc_max_per_minute (mr_conditions r) \<noteq> None) (rules_for_chat (ms_dialog_id m) e)
      then record_rate_window now (ms_dialog_id m) (ms_sender_id m) e else (0, e))"

text \<open>\<open>clock r\<close> is the clock as read for rule \<open>r\<close>.\<close>

definition rule_fires :: "engine_oracle \<Rightarrow> (moderation_rule \<Rightarrow> instant) \<Rightarrow> message \<Rightarrow> int \<times> mod_engine \<Rightarrow> moderation_rule \<Rightarrow> bool" where
  "rule_fires eo clock m ce r =
     (mr_enabled r \<and>
      (let c = mr_conditions r;
           new = (case rc_new_member_sec c of None \<Rightarrow> False
                  | Some s \<Rightarrow> is_new_member (clock r) (ms_dialog_id m) (ms_sender_id m) s (snd ce));
           over = (case rc_max_per_minute c of None \<Rightarrow> False | Some k \<Rightarrow> k \<le> fst ce)
       in rule_matches eo c m new (ms_is_forward m) over))"

definition process_message :: "engine_oracle \<Rightarrow> (mod_call \<Rightarrow> bool) \<Rightarrow> (log_entry \<Rightarrow> bool) \<Rightarrow> rules_table \<Rightarrow> instant
    \<Rightarrow> (moderation_rule \<Rightarrow> instant) \<Rightarrow> message \<Rightarrow> mod_engine \<Rightarrow> (mod_call list \<times> log_entry list) \<times> mod_engine" where
  "process_message eo raises jraises t now clock m e =
     (if ms_dialog_id m \<in> set (me_blocked e) then (([], []), e)
      else (let e1 = loaded_rules t e; rules = rules_for_chat (ms_dialog_id m) e1; ce = count_message now m e1
            in (case List.find (rule_fires eo clock m ce) rules of
                  None \<Rightarrow> ([], [])
                | Some r \<Rightarrow> apply_rule (me_enforce e1) raises jraises r m, snd ce)))"

section \<open>Grouping and order of the rules\<close>

definition key_of :: "moderation_rule \<Rightarrow> int \<times> string" where
  "key_of r = (mr_chat_id r, mr_name r)"

definition table_wf :: "rules_table \<Rightarrow> bool" where
  "table_wf t \<longleftrightarrow> od_wf t \<and> (\<forall>e\<in>set t. fst e = key_of (snd e))"

lemma table_wf_add: "table_wf t \<Longrightarrow> table_wf (add_rule r t)"
proof -
  assume "table_wf t"
  moreover have "p \<in> set (od_set k r t) \<Longrightarrow> p = (k, r) \<or> p \<in> set t" for k p
    by (induction k r t rule: od_set.induct) (auto split: if_splits)
  ultimately show ?thesis
    unfolding table_wf_def add_rule_def by (metis key_of_def od_wf_set prod.sel)
qed

lemma table_wf_remove: "table_wf t \<Longrightarrow> table_wf (snd (remove_rule c n t))"
  by (simp add: table_wf_def remove_rule_def od_inv) (simp add: od_pop_def)

lemma group_rules_get:
  "(case od_get (group_rules rs) c of None \<Rightarrow> [] | Some l \<Rightarrow> l) = filter (\<lambda>r. mr_chat_id r = c) rs"
  by (simp add: group_rules_def od_group_get)

lemma list_rules_sorted: "table_wf t \<Longrightarrow> sorted_wrt (\<lambda>a b. key_of a \<le> key_of b) (list_rules None t)"
proof -
  assume "table_wf t"
  then have "map fst (sort_key fst t) = map (key_of \<circ> snd) (sort_key fst t)"
    by (intro map_cong) (auto simp: table_wf_def)
  then have "sorted (map key_of (list_rules None t))"
    using sorted_sort_key [of fst t] by (simp only: list_rules_def option.case map_map)
  then show ?thesis by (simp add: sorted_wrt_map)
qed

lemma list_rules_set: "set (list_rules None t) = snd ` set t"
  by (simp add: list_rules_def)

lemma loaded_chat_rules:
  assumes "table_wf t" and "me_rules e = None"
  shows "set (rules_for_chat c (loaded_rules t e)) = {r \<in> snd ` set t. mr_chat_id r = c}"
    and "sorted_wrt (\<lambda>a b. mr_name a \<le> mr_name b) (rules_for_chat c (loaded_rules t e))"
proof -
  have f: "rules_for_chat c (loaded_rules t e) = filter (\<lambda>r. mr_chat_id r = c) (list_rules None t)"
    by (simp add: rules_for_chat_def loaded_rules_def assms load_rules_by_chat_def group_rules_get)
  show "set (rules_for_chat c (loaded_rules t e)) = {r \<in> snd ` set t. mr_chat_id r = c}"
    by (auto simp: f list_rules_set)
  have "sorted_wrt (\<lambda>a b. key_of a \<le> key_of b) (rules_for_chat c (loaded_rules t e))"
    unfolding f using list_rules_sorted [OF assms(1)] by (rule sorted_wrt_filter)
  then show "sorted_wrt (\<lambda>a b. mr_name a \<le> mr_name b) (rules_for_chat c (loaded_rules t e))"
    by (rule sorted_wrt_mono_rel [rotated]) (auto simp: f key_of_def)
qed

lemma find_least:
  "sorted_wrt R xs \<Longrightarrow> (\<And>x. R x x) \<Longrightarrow> List.find P xs = Some r \<Longrightarrow>
    r \<in> set xs \<and> P r \<and> (\<forall>x\<in>set xs. P x \<longrightarrow> R r x)"
  by (induction xs) (auto split: if_splits)

section \<open>Properties\<close>

lemma apply_rule_dry: "fst (apply_rule False raises jraises r m) = []"
  "\<forall>j\<in>set (snd (apply_rule False raises jraises r m)). le_dry_run j"
  by (auto simp: apply_rule_def Let_def do_action_def entry_of_def)

lemma loaded_rules_enforce [simp]: "me_enforce (loaded_rules t e) = me_enforce e"
  by (simp add: loaded_rules_def split: option.split)

lemma process_cases:
  assumes "ms_dialog_id m \<notin> set (me_blocked e)"
  obtains (none) "fst (process_message eo raises jraises t now clock m e) = ([], [])"
      "\<forall>r\<in>set (rules_for_chat (ms_dialog_id m) (loaded_rules t e)).
         \<not> rule_fires eo clock m (count_message now m (loaded_rules t e)) r"
  | (hit) r where "fst (process_message eo raises jraises t now clock m e) = apply_rule (me_enforce e) raises jraises r m"
      "List.find (rule_fires eo clock m (count_message now m (loaded_rules t e)))
         (rules_for_chat (ms_dialog_id m) (loaded_rules t e)) = Some r"
proof (cases "List.find (rule_fires eo clock m (count_message now m (loaded_rules t e)))
         (rules_for_chat (ms_dialog_id m) (loaded_rules t e))")
  case None
  then show thesis using assms by (intro none) (simp add: process_message_def Let_def, simp add: find_None_iff)
next
  case (Some r)
  then show thesis using assms by (intro hit) (auto simp: process_message_def Let_def)
qed

text \<open>
  The engine acts only when enforcing and only in chats it may moderate: in dry run, or in
  a blocked chat, no client call is ever made, a dry-run journal entry is marked as such, and a
  blocked chat leaves no trace at all.
\<close>

theorem dry_run_makes_no_calls:
  assumes "\<not> me_enforce e \<or> ms_dialog_id m \<in> set (me_blocked e)"
    and "process_message eo raises jraises t now clock m e = ((calls, journal), e')"
  shows "calls = [] \<and> (\<forall>j\<in>set journal. le_dry_run j) \<and>
    (ms_dialog_id m \<in> set (me_blocked e) \<longrightarrow> journal = [] \<and> e' = e)"
proof (cases "ms_dialog_id m \<in> set (me_blocked e)")
  case True
  then show ?thesis using assms(2) by (simp add: process_message_def)
next
  case False
  then have n: "me_enforce e = False" using assms by simp
  from False show ?thesis
  proof (cases rule: process_cases [of m e eo raises jraises t now clock])
    case none
    then show ?thesis using assms(2) False by simp
  next
    case (hit r)
    then have "apply_rule False raises jraises r m = (calls, journal)" using assms(2) by (simp add: n)
    then show ?thesis using False apply_rule_dry [of raises jraises r m] by simp
  qed
qed


section \<open>The rate window\<close>

type_synonym message_time = "(int \<times> int) \<times> instant"

definition note_times :: "message_time list \<Rightarrow> mod_engine \<Rightarrow> mod_engine" where
  "note_times ms e = fold (\<lambda>(k, t) e. snd (record_rate_window t (fst k) (snd k) e)) ms e"

definition times_of :: "int \<times> int \<Rightarrow> message_time list \<Rightarrow> instant list" where
  "times_of k ms = map snd (filter (\<lambda>p. fst p = k) ms)"

definition rate_exact :: "message_time list \<Rightarrow> mod_engine \<Rightarrow> bool" where
  "rate_exact ms e \<longleftrightarrow> od_wf (me_rate e) \<and> fst ` set (me_rate e) \<subseteq> fst ` set ms \<and>
     (\<forall>k. case od_get (me_rate e) k of
        None \<Rightarrow> times_of k ms = []
      | Some w \<Rightarrow> w = filter (\<lambda>t. last (times_of k ms) - t \<le> rate_window_sec) (times_of k ms) \<and> times_of k ms \<noteq> [])"

lemma slide_sorted: "sorted ts \<Longrightarrow> dropWhile (\<lambda>t. d < now - t) ts = filter (\<lambda>t. now - t \<le> d) (ts :: instant list)"
proof (induction ts)
  case (Cons t ts)
  show ?case
  proof (cases "d < now - t")
    case False
    then have "\<forall>x\<in>set ts. now - x \<le> d" using Cons.prems by force
    then show ?thesis using False by (simp add: filter_id_conv)
  qed (use Cons in simp)
qed simp

lemma slide_times:
  assumes "sorted (ts @ [now])"
    and "w = (if ts = [] then [] else filter (\<lambda>t. last ts - t \<le> rate_window_sec) ts)"
  shows "slide_window now w = filter (\<lambda>t. now - t \<le> rate_window_sec) (ts @ [now])"
proof (cases "ts = []")
  case True
  then show ?thesis using assms(2) by (simp add: slide_window_def rate_window_sec_def)
next
  case False
  then have l: "last ts \<le> now" using assms(1) by (simp add: sorted_append)
  have "sorted (w @ [now])" using assms by (auto simp: sorted_append sorted_wrt_filter)
  then have "slide_window now w = filter (\<lambda>t. now - t \<le> rate_window_sec) (w @ [now])"
    unfolding slide_window_def by (rule slide_sorted)
  also have "\<dots> = filter (\<lambda>t. now - t \<le> rate_window_sec) (ts @ [now])"
    using False l by (auto simp: assms(2) intro!: filter_cong)
  finally show ?thesis .
qed

lemma times_of_snoc: "times_of k (ms @ [(j, t)]) = times_of k ms @ (if j = k then [t] else [])"
  by (simp add: times_of_def)

lemma sorted_times: "sorted (map snd ms) \<Longrightarrow> sorted (times_of k ms)"
  unfolding times_of_def by (rule sorted_filter)

lemma rate_step:
  assumes "rate_exact ms e" and "sorted (map snd (ms @ [(k, t)]))"
    and "card (fst ` set (ms @ [(k, t)])) \<le> me_rate_cap e"
  shows "rate_exact (ms @ [(k, t)]) (snd (record_rate_window t (fst k) (snd k) e))"
    and "fst (record_rate_window t (fst k) (snd k) e) =
      int (length (filter (\<lambda>s. t - s \<le> rate_window_sec) (times_of k (ms @ [(k, t)]))))"
proof -
  let ?w = "case od_get (me_rate e) k of None \<Rightarrow> [] | Some w \<Rightarrow> w" and ?ts = "times_of k ms"
  let ?n = "filter (\<lambda>s. t - s \<le> rate_window_sec) (times_of k (ms @ [(k, t)]))"
  from assms(1) have wf: "od_wf (me_rate e)" and sub: "fst ` set (me_rate e) \<subseteq> fst ` set ms"
    and ex: "\<And>j. case od_get (me_rate e) j of None \<Rightarrow> times_of j ms = []
      | Some w \<Rightarrow> w = filter (\<lambda>t. last (times_of j ms) - t \<le> rate_window_sec) (times_of j ms) \<and> times_of j ms \<noteq> []"
    unfolding rate_exact_def by auto
  have s: "sorted (?ts @ [t])" using sorted_times [OF assms(2), of k] by (simp add: times_of_snoc)
  have w: "?w = (if ?ts = [] then [] else filter (\<lambda>s. last ?ts - s \<le> rate_window_sec) ?ts)"
    using ex [of k] by (auto split: option.splits)
  have n: "slide_window t ?w = ?n" using slide_times [OF s w] by (simp add: times_of_snoc)
  have r: "record_rate_window t (fst k) (snd k) e = (int (length ?n), put_rate k ?n e)"
    using n by (simp only: record_rate_window_def Let_def prod.collapse)
  then show "fst (record_rate_window t (fst k) (snd k) e) = int (length ?n)" by simp
  have keys: "fst ` set (od_touch k ?n (me_rate e)) \<subseteq> fst ` set (ms @ [(k, t)])"
    using sub by (auto simp: od_simps)
  have "length (od_touch k ?n (me_rate e)) = card (fst ` set (od_touch k ?n (me_rate e)))"
    using distinct_card [of "od_keys (od_touch k ?n (me_rate e))"] od_wf_touch [OF wf, of k ?n]
    by (simp add: od_wf_def)
  also have "\<dots> \<le> me_rate_cap e" using card_mono [OF _ keys] assms(3) by simp
  finally have room: "me_rate (put_rate k ?n e) = od_touch k ?n (me_rate e)" by (simp add: put_rate_def)
  have "rate_exact (ms @ [(k, t)]) (put_rate k ?n e)"
    unfolding rate_exact_def room
  proof (intro conjI allI)
    fix j
    show "case od_get (od_touch k ?n (me_rate e)) j of None \<Rightarrow> times_of j (ms @ [(k, t)]) = []
      | Some w \<Rightarrow> w = filter (\<lambda>s. last (times_of j (ms @ [(k, t)])) - s \<le> rate_window_sec) (times_of j (ms @ [(k, t)]))
          \<and> times_of j (ms @ [(k, t)]) \<noteq> []"
      using ex [of j] by (cases "j = k") (auto simp: od_simps times_of_snoc split: option.splits)
  qed (use keys wf in \<open>simp_all add: od_inv\<close>)
  then show "rate_exact (ms @ [(k, t)]) (snd (record_rate_window t (fst k) (snd k) e))" by (simp add: r)
qed

lemma note_times_cap: "me_rate_cap (note_times ms e) = me_rate_cap e"
  unfolding note_times_def
  by (induction ms arbitrary: e) (auto simp: record_rate_window_def put_rate_def Let_def)

lemma note_times_exact:
  "me_rate e = [] \<Longrightarrow> sorted (map snd ms) \<Longrightarrow> card (fst ` set ms) \<le> me_rate_cap e \<Longrightarrow> rate_exact ms (note_times ms e)"
proof (induction ms rule: rev_induct)
  case Nil
  then show ?case by (simp add: rate_exact_def note_times_def times_of_def)
next
  case (snoc p ms)
  obtain k t where p: "p = (k, t)" by (cases p)
  have "card (fst ` set ms) \<le> card (fst ` set (ms @ [p]))" by (rule card_mono) auto
  with snoc have "rate_exact ms (note_times ms e)" by (simp add: sorted_append)
  from rate_step(1) [OF this, of k t] snoc.prems show ?case
    by (simp add: p note_times_def note_times_cap [unfolded note_times_def])
qed

text \<open>
  The rate condition counts exactly: as long as no more senders than the cache holds were
  seen, the count a message gets is the number of its sender's messages in that chat, itself
  included, in the trailing sixty seconds, whatever other senders did in between.
\<close>

theorem rate_window_exact:
  assumes "me_rate e = []" and "sorted (map snd (ms @ [((chat, sender), t)]))"
    and "card (fst ` set (ms @ [((chat, sender), t)])) \<le> me_rate_cap e"
  shows "fst (record_rate_window t chat sender (note_times ms e)) =
    int (length (filter (\<lambda>s. t - s \<le> 60) (times_of (chat, sender) (ms @ [((chat, sender), t)]))))"
proof -
  have "card (fst ` set ms) \<le> card (fst ` set (ms @ [((chat, sender), t)]))" by (rule card_mono) auto
  then have "rate_exact ms (note_times ms e)"
    using assms by (intro note_times_exact) (auto simp: sorted_append)
  from rate_step(2) [OF this, of "(chat, sender)" t] assms show ?thesis
    by (simp add: note_times_cap rate_window_sec_def)
qed

section \<open>Concrete runs\<close>

definition demo_rule :: "string \<Rightarrow> moderation_rule" where
  "demo_rule n = \<lparr>mr_chat_id = 7, mr_name = n, mr_enabled = True,
     mr_conditions = \<lparr>rc_pattern = None, rc_has_link = False, rc_is_forward = True, rc_new_member_sec = None, rc_max_per_minute = None\<rparr>,
     mr_actions = \<lparr>ra_delete = True, ra_mute_sec = None, ra_ban = True, ra_warn_text = None\<rparr>\<rparr>"

definition demo_engine :: mod_engine where
  "demo_engine = \<lparr>me_enforce = True, me_blocked = [], me_member_cap = 2, me_rate_cap = 2, me_joined = [], me_rate = [], me_rules = None\<rparr>"

definition demo_table :: rules_table where
  "demo_table = add_rule (demo_rule ''a'') (add_rule (demo_rule ''b'') [])"

definition demo_oracle :: engine_oracle where
  "demo_oracle = \<lparr>eo_search = \<lambda>_ _. False, eo_is_word = \<lambda>c. 97 \<le> c \<and> c \<le> 122\<rparr>"

definition demo_forward :: message where
  "demo_forward = \<lparr>ms_id = 3, ms_dialog_id = 7, ms_sender_id = 9, ms_out = False, ms_date = 0, ms_text = None,
     ms_media = None, ms_reply_to_id = None, ms_is_forward = True, ms_translated_text = None, ms_sender = None\<rparr>"

theorem dry_run_makes_no_calls_witness:
  "fst (fst (process_message demo_oracle (\<lambda>_. False) (\<lambda>_. False) demo_table 0 (\<lambda>_. 0) demo_forward
      (demo_engine\<lparr>me_enforce := False\<rparr>))) = []"
  using dry_run_makes_no_calls [of "demo_engine\<lparr>me_enforce := False\<rparr>" demo_forward demo_oracle "\<lambda>_. False" "\<lambda>_. False" demo_table 0 "\<lambda>_. 0"]
  by (cases "process_message demo_oracle (\<lambda>_. False) (\<lambda>_. False) demo_table 0 (\<lambda>_. 0) demo_forward (demo_engine\<lparr>me_enforce := False\<rparr>)")
    (auto simp: demo_engine_def)

lemma demo_rules_fire: "rule_fires demo_oracle (\<lambda>_. 0) demo_forward ce (demo_rule n)"
  by (simp add: rule_fires_def demo_rule_def rule_matches_def demo_forward_def Let_def)

lemma demo_calls: "map snd (rule_calls (demo_rule n) demo_forward) = [BanUser 7 9, DeleteMessage 7 3]"
  by (simp add: rule_calls_def demo_rule_def demo_forward_def Let_def)

lemma demo_table_set: "snd ` set demo_table = {demo_rule ''a'', demo_rule ''b''}"
  by (auto simp: demo_table_def add_rule_def demo_rule_def)


theorem rate_window_exact_witness:
  "fst (record_rate_window 70 7 9 (note_times [((7, 9), 5), ((7, 9), 20), ((7, 8), 30)] demo_engine)) = 2"
proof -
  have "fst ` set [((7, 9), 5), ((7, 9), 20), ((7, 8), 30), ((7::int, 9::int), 70::instant)] = {(7, 9), (7, 8)}"
    by auto
  then have "card (fst ` set [((7, 9), 5), ((7, 9), 20), ((7, 8), 30), ((7::int, 9::int), 70::instant)]) = 2"
    by (simp only:) simp
  then show ?thesis
    using rate_window_exact [of demo_engine "[((7, 9), 5), ((7, 9), 20), ((7, 8), 30)]" 7 9 70]
    by (simp add: demo_engine_def times_of_def)
qed

end
