(* ===== verification/Heartbeat.thy ===== *)
theory Heartbeat
  imports Prelude Py_Str
begin

text \<open>
  \<open>src/tg_messenger/core/heartbeat.py\<close>: plans and their table, the decision whether a plan is
  due, and a tick of the service over the outcomes of its calls. The local hour of a time
  stamp is a parameter (the time zone); the random draws, the dialog's tail, the text
  provider's answer and the failures of a tick are arguments. A run is a sequence of ticks.
\<close>

section \<open>Plans\<close>

record plan =
  hb_peer :: int
  hb_templates :: "utext list"
  hb_interval_hours :: real
  hb_jitter_minutes :: real
  hb_quiet_start :: "int option"
  hb_quiet_end :: "int option"
  hb_enabled :: bool
  hb_last_ping_at :: "instant option"
  hb_max_per_day :: int
  hb_pings_today :: int
  hb_day_start :: "instant option"
  hb_next_jitter_sec :: "real option"

definition day_sec :: real where "day_sec = 24 * 3600"

definition hour_ok :: "int option \<Rightarrow> bool" where
  "hour_ok v \<longleftrightarrow> (case v of None \<Rightarrow> True | Some h \<Rightarrow> 0 \<le> h \<and> h \<le> 23)"

text \<open>The field validators: a plan that passes none of them cannot be built.\<close>

definition valid_plan :: "plan \<Rightarrow> bool" where
  "valid_plan p \<longleftrightarrow> hb_templates p \<noteq> [] \<and> 0 < hb_interval_hours p \<and> 0 \<le> hb_jitter_minutes p
     \<and> 1 \<le> hb_max_per_day p \<and> hour_ok (hb_quiet_start p) \<and> hour_ok (hb_quiet_end p)"

type_synonym plan_table = "(int, plan) odict"

definition add_plan :: "plan \<Rightarrow> plan_table \<Rightarrow> plan_table" where
  "add_plan p t = od_set (hb_peer p) p t"

definition list_plans :: "bool \<Rightarrow> plan_table \<Rightarrow> plan list" where
  "list_plans enabled_only t =
     map snd (sort_key fst (filter (\<lambda>e. \<not> enabled_only \<or> hb_enabled (snd e)) t))"

definition list_enabled_plans :: "plan_table \<Rightarrow> plan list" where
  "list_enabled_plans t = list_plans True t"

definition remove_plan :: "int \<Rightarrow> plan_table \<Rightarrow> plan_table" where
  "remove_plan peer t = od_pop peer t"

section \<open>When a plan is due\<close>

definition in_quiet_window :: "int \<Rightarrow> int \<Rightarrow> int \<Rightarrow> bool" where
  "in_quiet_window local_hour start end_hour =
     (if start = end_hour then False
      else if start < end_hour then start \<le> local_hour \<and> local_hour < end_hour
      else start \<le> local_hour \<or> local_hour < end_hour)"

definition quiet_now :: "(instant \<Rightarrow> int) \<Rightarrow> plan \<Rightarrow> instant \<Rightarrow> bool" where
  "quiet_now hour_of p now = (case (hb_quiet_start p, hb_quiet_end p) of
     (Some a, Some b) \<Rightarrow> in_quiet_window (hour_of now) a b | _ \<Rightarrow> False)"

definition day_full :: "plan \<Rightarrow> instant \<Rightarrow> bool" where
  "day_full p now = (case hb_day_start p of None \<Rightarrow> False
     | Some d \<Rightarrow> now - d < day_sec \<and> hb_max_per_day p \<le> hb_pings_today p)"

definition due_at :: "plan \<Rightarrow> instant \<Rightarrow> instant" where
  "due_at p l = l + hb_interval_hours p * 3600 + (case hb_next_jitter_sec p of None \<Rightarrow> 0 | Some j \<Rightarrow> j)"

definition is_due :: "(instant \<Rightarrow> int) \<Rightarrow> plan \<Rightarrow> instant \<Rightarrow> bool" where
  "is_due hour_of p now =
     (if quiet_now hour_of p now then False
      else if day_full p now then False
      else (case hb_last_ping_at p of None \<Rightarrow> True | Some l \<Rightarrow> due_at p l \<le> now))"

section \<open>A tick\<close>

datatype tail_answer = TailRaises | TailEmpty | TailOut bool
datatype provider_answer = NoProvider | ProviderText "utext option" | ProviderRaises

text \<open>What the calls made for one plan answer; the draws lie in the range asked for.\<close>

record ping_env =
  pe_tail :: tail_answer
  pe_provider :: provider_answer
  pe_pick :: real
  pe_jitter :: real
  pe_record_ok :: bool
  pe_send_ok :: bool
  pe_journal_ok :: bool

datatype ping_event = Recorded int instant | Sent int utext | Logged int utext

definition template_of :: "ping_env \<Rightarrow> plan \<Rightarrow> utext" where
  "template_of env p =
     (let count = length (hb_templates p);
          idx = (if 1 < count then min (nat \<lfloor>pe_pick env\<rfloor>) (count - 1) else 0)
      in hb_templates p ! idx)"

definition choose_text :: "ping_env \<Rightarrow> plan \<Rightarrow> utext" where
  "choose_text env p = (case pe_provider env of
     ProviderText (Some t) \<Rightarrow> if ustrip t \<noteq> [] then t else template_of env p
   | _ \<Rightarrow> template_of env p)"

text \<open>\<open>_record_ping\<close>: the four columns of the UPDATE, from the plan as it was read.\<close>

definition recorded_row :: "real \<Rightarrow> instant \<Rightarrow> plan \<Rightarrow> plan \<Rightarrow> plan" where
  "recorded_row draw now p row =
     (let fresh = (case hb_day_start p of None \<Rightarrow> True | Some d \<Rightarrow> day_sec \<le> now - d) in
      row\<lparr>hb_last_ping_at := Some now,
          hb_pings_today := (if fresh then 1 else hb_pings_today p + 1),
          hb_day_start := (if fresh then Some now else hb_day_start p),
          hb_next_jitter_sec := (if 0 < hb_jitter_minutes p then Some draw else None)\<rparr>)"

definition update_row :: "int \<Rightarrow> (plan \<Rightarrow> plan) \<Rightarrow> plan_table \<Rightarrow> plan_table" where
  "update_row peer f t = map (\<lambda>(k, p). if k = peer then (k, f p) else (k, p)) t"

definition maybe_ping :: "(instant \<Rightarrow> int) \<Rightarrow> ping_env \<Rightarrow> instant \<Rightarrow> plan \<Rightarrow> plan_table \<Rightarrow> plan_table \<times> ping_event list" where
  "maybe_ping hour_of env now p t =
     (if \<not> is_due hour_of p now then (t, [])
      else (case pe_tail env of
         TailRaises \<Rightarrow> (t, [])
       | TailOut True \<Rightarrow> (t, [])
       | _ \<Rightarrow> (if \<not> pe_record_ok env then (t, [])
          else (let peer = hb_peer p; body = choose_text env p;
                    t' = update_row peer (recorded_row (pe_jitter env) now p) t
                in if \<not> pe_send_ok env then (t', [Recorded peer now])
                   else (t', [Recorded peer now, Sent peer body] @ (if pe_journal_ok env then [Logged peer body] else []))))))"

fun ping_plans :: "(instant \<Rightarrow> int) \<Rightarrow> (int \<Rightarrow> ping_env) \<Rightarrow> instant \<Rightarrow> plan list \<Rightarrow> plan_table \<Rightarrow> plan_table \<times> ping_event list" where
  "ping_plans hour_of env now [] t = (t, [])"
| "ping_plans hour_of env now (p # ps) t =
     (let (t1, ev1) = maybe_ping hour_of (env (hb_peer p)) now p t;
          (t2, ev2) = ping_plans hour_of env now ps t1
      in (t2, ev1 @ ev2))"

definition process_plans :: "(instant \<Rightarrow> int) \<Rightarrow> (int \<Rightarrow> ping_env) \<Rightarrow> instant \<Rightarrow> plan_table \<Rightarrow> plan_table \<times> ping_event list" where
  "process_plans hour_of env now t = ping_plans hour_of env now (list_enabled_plans t) t"

text \<open>\<open>_tick_loop\<close> over the clock's readings and the answers of each tick.\<close>

fun tick_loop :: "(instant \<Rightarrow> int) \<Rightarrow> (instant \<times> (int \<Rightarrow> ping_env)) list \<Rightarrow> plan_table \<Rightarrow> plan_table \<times> ping_event list" where
  "tick_loop hour_of [] t = (t, [])"
| "tick_loop hour_of ((now, env) # ticks) t =
     (let (t1, ev1) = process_plans hour_of env now t; (t2, ev2) = tick_loop hour_of ticks t1
      in (t2, ev1 @ ev2))"

section \<open>The table\<close>

definition plans_wf :: "plan_table \<Rightarrow> bool" where
  "plans_wf t \<longleftrightarrow> od_wf t \<and> (\<forall>e\<in>set t. fst e = hb_peer (snd e) \<and> valid_plan (snd e))"

lemma recorded_row_simps [simp]:
  "hb_peer (recorded_row d now p r) = hb_peer r" "hb_enabled (recorded_row d now p r) = hb_enabled r"
  "hb_interval_hours (recorded_row d now p r) = hb_interval_hours r"
  "hb_jitter_minutes (recorded_row d now p r) = hb_jitter_minutes r"
  "hb_max_per_day (recorded_row d now p r) = hb_max_per_day r"
  "hb_quiet_start (recorded_row d now p r) = hb_quiet_start r"
  "hb_quiet_end (recorded_row d now p r) = hb_quiet_end r"
  "hb_last_ping_at (recorded_row d now p r) = Some now"
  "valid_plan (recorded_row d now p r) = valid_plan r"
  by (simp_all add: recorded_row_def Let_def valid_plan_def)

lemma update_row_keys [simp]: "od_keys (update_row peer f t) = od_keys t"
  by (auto simp: update_row_def)

lemma update_row_get: "od_get (update_row peer f t) k = (if k = peer then map_option f (od_get t k) else od_get t k)"
  by (induction t) (auto simp: update_row_def)

lemma update_row_wf: "plans_wf t \<Longrightarrow> plans_wf (update_row peer (recorded_row d now p) t)"
  unfolding plans_wf_def od_wf_def update_row_keys by (auto simp: update_row_def split: if_splits)

lemma plans_wf_add: "plans_wf t \<Longrightarrow> valid_plan p \<Longrightarrow> plans_wf (add_plan p t)"
proof -
  assume "plans_wf t" "valid_plan p"
  moreover have "e \<in> set (od_set k p t) \<Longrightarrow> e = (k, p) \<or> e \<in> set t" for k e
    by (induction k p t rule: od_set.induct) (auto split: if_splits)
  ultimately show ?thesis
    unfolding plans_wf_def add_plan_def by (metis od_wf_set prod.sel)
qed

lemma plans_wf_remove: "plans_wf t \<Longrightarrow> plans_wf (remove_plan peer t)"
  by (simp add: plans_wf_def remove_plan_def od_inv) (simp add: od_pop_def)

lemma maybe_ping_cases:
  obtains (idle) "maybe_ping hour_of env now p t = (t, [])"
  | (ping) rest where "is_due hour_of p now" "pe_tail env \<noteq> TailOut True"
      "maybe_ping hour_of env now p t =
        (update_row (hb_peer p) (recorded_row (pe_jitter env) now p) t, Recorded (hb_peer p) now # rest)"
      "rest = [] \<or> rest = [Sent (hb_peer p) (choose_text env p)]
        \<or> rest = [Sent (hb_peer p) (choose_text env p), Logged (hb_peer p) (choose_text env p)]"
proof (cases "is_due hour_of p now \<and> pe_tail env \<noteq> TailRaises \<and> pe_tail env \<noteq> TailOut True \<and> pe_record_ok env")
  case True
  then have "maybe_ping hour_of env now p t =
      (let peer = hb_peer p; body = choose_text env p; t' = update_row peer (recorded_row (pe_jitter env) now p) t
       in if \<not> pe_send_ok env then (t', [Recorded peer now])
          else (t', [Recorded peer now, Sent peer body] @ (if pe_journal_ok env then [Logged peer body] else [])))"
    by (auto simp: maybe_ping_def split: tail_answer.split bool.split)
  then show thesis using True
    by (intro ping [of "if \<not> pe_send_ok env then [] else if pe_journal_ok env
        then [Sent (hb_peer p) (choose_text env p), Logged (hb_peer p) (choose_text env p)] else [Sent (hb_peer p) (choose_text env p)]"])
      (simp_all add: Let_def)
next
  case False
  then show thesis by (intro idle) (auto simp: maybe_ping_def split: tail_answer.split bool.split)
qed

lemma enabled_plans:
  assumes "plans_wf t"
  shows "distinct (map hb_peer (list_enabled_plans t))"
    and "p \<in> set (list_enabled_plans t) \<longleftrightarrow> od_get t (hb_peer p) = Some p \<and> hb_enabled p"
proof -
  let ?s = "sort_key fst (filter (\<lambda>e. hb_enabled (snd e)) t)"
  have "map hb_peer (list_enabled_plans t) = map fst ?s"
    using assms by (auto simp: list_enabled_plans_def list_plans_def plans_wf_def)
  moreover have "distinct (map fst ?s)"
  proof -
    have "distinct (map fst (filter (\<lambda>e. hb_enabled (snd e)) t))"
      using assms by (simp add: plans_wf_def od_wf_def distinct_map_filter)
    then show ?thesis by (simp add: distinct_map)
  qed
  ultimately show "distinct (map hb_peer (list_enabled_plans t))" by simp
  show "p \<in> set (list_enabled_plans t) \<longleftrightarrow> od_get t (hb_peer p) = Some p \<and> hb_enabled p"
  proof
    assume "p \<in> set (list_enabled_plans t)"
    then obtain k where "(k, p) \<in> set t" "hb_enabled p" by (auto simp: list_enabled_plans_def list_plans_def)
    then show "od_get t (hb_peer p) = Some p \<and> hb_enabled p" using assms by (auto simp: plans_wf_def od_wf_def)
  next
    assume "od_get t (hb_peer p) = Some p \<and> hb_enabled p"
    then have "(hb_peer p, p) \<in> set t" "hb_enabled p" by (auto dest: map_of_SomeD)
    then show "p \<in> set (list_enabled_plans t)" by (force simp: list_enabled_plans_def list_plans_def)
  qed
qed

section \<open>Runs\<close>

text \<open>One plan of a tick, as a step on the table and the events so far.\<close>

inductive hb_step :: "(instant \<Rightarrow> int) \<Rightarrow> plan_table \<times> ping_event list \<Rightarrow> plan_table \<times> ping_event list \<Rightarrow> bool" for hour_of where
  hb_plan: "od_get t (hb_peer p) = Some p \<Longrightarrow> 0 \<le> pe_jitter env \<Longrightarrow> maybe_ping hour_of env now p t = (t', ev) \<Longrightarrow>
    hb_step hour_of (t, evs) (t', evs @ ev)"

inductive_cases hb_stepE: "hb_step hour_of (t, evs) nxt"

lemma maybe_ping_other:
  "k \<noteq> hb_peer p \<Longrightarrow> od_get (fst (maybe_ping hour_of env now p t)) k = od_get t k"
  by (cases rule: maybe_ping_cases [of hour_of env now p t]) (simp_all add: update_row_get)

lemma maybe_ping_wf: "plans_wf t \<Longrightarrow> plans_wf (fst (maybe_ping hour_of env now p t))"
  by (cases rule: maybe_ping_cases [of hour_of env now p t]) (simp_all add: update_row_wf)

lemma ping_plans_steps:
  assumes "distinct (map hb_peer ps)" and "\<forall>p\<in>set ps. od_get t (hb_peer p) = Some p" and "\<And>k. 0 \<le> pe_jitter (env k)"
    and "plans_wf t" and "ping_plans hour_of env now ps t = (t', ev)"
  shows "(hb_step hour_of)\<^sup>*\<^sup>* (t, evs) (t', evs @ ev) \<and> plans_wf t'"
  using assms
proof (induction ps arbitrary: t ev evs)
  case Nil
  then show ?case by simp
next
  case (Cons p ps)
  obtain t1 ev1 where m: "maybe_ping hour_of (env (hb_peer p)) now p t = (t1, ev1)" by fastforce
  obtain t2 ev2 where r: "ping_plans hour_of env now ps t1 = (t2, ev2)" by fastforce
  have e: "t' = t2" "ev = ev1 @ ev2" using Cons.prems(5) by (auto simp: m r)
  have get: "\<forall>q\<in>set ps. od_get t1 (hb_peer q) = Some q"
  proof
    fix q assume q: "q \<in> set ps"
    then have "hb_peer q \<noteq> hb_peer p" using Cons.prems(1) by (metis image_eqI distinct.simps(2) list.simps(9) set_map)
    from maybe_ping_other [OF this, of hour_of "env (hb_peer p)" now t] Cons.prems(2) q
    show "od_get t1 (hb_peer q) = Some q" by (simp add: m)
  qed
  have wf: "plans_wf t1" using maybe_ping_wf [OF Cons.prems(4)] m by (metis fst_conv)
  have "hb_step hour_of (t, evs) (t1, evs @ ev1)"
    using Cons.prems m by (intro hb_plan) auto
  moreover have "(hb_step hour_of)\<^sup>*\<^sup>* (t1, evs @ ev1) (t', (evs @ ev1) @ ev2) \<and> plans_wf t'"
    using Cons.prems(1,3) get wf r e by (intro Cons.IH) auto
  ultimately show ?case by (auto simp: e intro: converse_rtranclp_into_rtranclp)
qed

lemma tick_loop_steps:
  assumes "\<forall>(now, env)\<in>set ticks. \<forall>k. 0 \<le> pe_jitter (env k)" and "plans_wf t" and "tick_loop hour_of ticks t = (t', ev)"
  shows "(hb_step hour_of)\<^sup>*\<^sup>* (t, evs) (t', evs @ ev)"
  using assms
proof (induction ticks arbitrary: t ev evs)
  case Nil
  then show ?case by simp
next
  case (Cons tick ticks)
  obtain now env where k: "tick = (now, env)" by (cases tick)
  obtain t1 ev1 where m: "ping_plans hour_of env now (list_enabled_plans t) t = (t1, ev1)" by fastforce
  obtain t2 ev2 where r: "tick_loop hour_of ticks t1 = (t2, ev2)" by fastforce
  have e: "t' = t2" "ev = ev1 @ ev2" using Cons.prems(3) by (auto simp: k m r process_plans_def)
  have 1: "(hb_step hour_of)\<^sup>*\<^sup>* (t, evs) (t1, evs @ ev1) \<and> plans_wf t1"
    using Cons.prems enabled_plans [OF Cons.prems(2)] m by (intro ping_plans_steps) (auto simp: k)
  have "(hb_step hour_of)\<^sup>*\<^sup>* (t1, evs @ ev1) (t', (evs @ ev1) @ ev2)"
    using Cons.prems(1) 1 r e by (intro Cons.IH) auto
  with 1 show ?case by (auto simp: e(2) intro: rtranclp_trans)
qed

section \<open>Pace\<close>

fun pings :: "int \<Rightarrow> ping_event list \<Rightarrow> instant list" where
  "pings k [] = []"
| "pings k (Recorded j t # evs) = (if j = k then t # pings k evs else pings k evs)"
| "pings k (e # evs) = pings k evs"

lemma pings_app [simp]: "pings k (xs @ ys) = pings k xs @ pings k ys"
  by (induction k xs rule: pings.induct) auto

definition count_in :: "instant \<Rightarrow> instant \<Rightarrow> instant list \<Rightarrow> nat" where
  "count_in lo hi ts = length (filter (\<lambda>t. lo \<le> t \<and> t < hi) ts)"

text \<open>The row of a peer against the times it was pinged at.\<close>

definition same_plan :: "plan \<Rightarrow> plan \<Rightarrow> bool" where
  "same_plan p q \<longleftrightarrow> hb_interval_hours p = hb_interval_hours q \<and> hb_max_per_day p = hb_max_per_day q
     \<and> hb_quiet_start p = hb_quiet_start q \<and> hb_quiet_end p = hb_quiet_end q"

definition clock_ok :: "plan \<Rightarrow> instant list \<Rightarrow> bool" where
  "clock_ok p ts \<longleftrightarrow> (case hb_next_jitter_sec p of None \<Rightarrow> True | Some j \<Rightarrow> 0 \<le> j)
     \<and> hb_last_ping_at p = (if ts = [] then None else Some (last ts))
     \<and> (hb_day_start p = None \<longleftrightarrow> ts = [])
     \<and> (\<forall>d. hb_day_start p = Some d \<longrightarrow> d \<le> last ts \<and>
          int (length (filter (\<lambda>t. d \<le> t) ts)) = hb_pings_today p \<and> hb_pings_today p \<le> hb_max_per_day p
          \<and> int (count_in (d - day_sec) d ts) \<le> hb_max_per_day p)"

definition pace_ok :: "(instant \<Rightarrow> int) \<Rightarrow> plan \<Rightarrow> instant list \<Rightarrow> bool" where
  "pace_ok hour_of p ts \<longleftrightarrow> sorted_wrt (\<lambda>a b. a + hb_interval_hours p * 3600 \<le> b) ts
     \<and> (\<forall>w. int (count_in w (w + day_sec) ts) \<le> 2 * hb_max_per_day p)
     \<and> (\<forall>t\<in>set ts. \<not> quiet_now hour_of p t)"

lemma filter_le_length: "(\<And>x. x \<in> set xs \<Longrightarrow> P x \<Longrightarrow> Q x) \<Longrightarrow> length (filter P xs) \<le> length (filter Q xs)"
  by (induction xs) (auto simp: le_SucI)

lemma count_in_snoc: "count_in lo hi (ts @ [t]) = count_in lo hi ts + (if lo \<le> t \<and> t < hi then 1 else 0)"
  by (simp add: count_in_def)

lemma count_split: "count_in lo hi ts \<le> count_in lo d ts + length (filter (\<lambda>t. d \<le> t) ts)"
  unfolding count_in_def by (induction ts) auto

text \<open>A due ping that does not open a day joins the running one; otherwise it opens one.\<close>

lemma window_bound:
  assumes co: "clock_ok p ts" and due: "is_due hour_of p now" and m: "1 \<le> hb_max_per_day p"
    and later: "\<forall>t\<in>set ts. t < now"
    and old: "\<forall>w. int (count_in w (w + day_sec) ts) \<le> 2 * hb_max_per_day p"
  shows "int (count_in w (w + day_sec) (ts @ [now])) \<le> 2 * hb_max_per_day p"
proof (cases "w \<le> now \<and> now < w + day_sec")
  case False
  then have "count_in w (w + day_sec) (ts @ [now]) = count_in w (w + day_sec) ts" by (auto simp: count_in_snoc)
  then show ?thesis using old by simp
next
  case True
  show ?thesis
  proof (cases "hb_day_start p")
    case None
    then have "ts = []" using co by (simp add: clock_ok_def)
    then show ?thesis using m by (simp add: count_in_def)
  next
    case (Some d)
    then have l: "d \<le> last ts" "ts \<noteq> []" using co by (auto simp: clock_ok_def)
    have dn: "d \<le> now" using l(1) later [rule_format, OF last_in_set [OF l(2)]] by linarith
    from Some have c: "int (length (filter (\<lambda>t. d \<le> t) ts)) = hb_pings_today p" "hb_pings_today p \<le> hb_max_per_day p"
      "int (count_in (d - day_sec) d ts) \<le> hb_max_per_day p" using co by (auto simp: clock_ok_def)
    show ?thesis
    proof (cases "now - d < day_sec")
      case in_day: True
      then have "hb_pings_today p < hb_max_per_day p"
        using due Some by (auto simp: is_due_def day_full_def split: if_splits)
      moreover have "int (count_in w d ts) \<le> hb_max_per_day p"
      proof (cases "d \<le> w")
        case True
        then have "count_in w d ts = 0" by (auto simp: count_in_def filter_empty_conv)
        then show ?thesis using m by simp
      next
        case False
        then have "count_in w d ts \<le> count_in (d - day_sec) d ts"
          using in_day \<open>w \<le> now \<and> now < w + day_sec\<close> dn
          unfolding count_in_def by (intro filter_le_length) auto
        then show ?thesis using c(3) by simp
      qed
      moreover have "count_in w (w + day_sec) ts \<le> count_in w d ts + length (filter (\<lambda>t. d \<le> t) ts)" by (rule count_split)
      ultimately show ?thesis using c True by (simp add: count_in_snoc)
    next
      case False
      then have "count_in w (w + day_sec) ts \<le> length (filter (\<lambda>t. d \<le> t) ts)"
        using True unfolding count_in_def by (intro filter_le_length) auto
      then show ?thesis using c True m by (simp add: count_in_snoc)
    qed
  qed
qed

lemma ping_clock:
  assumes co: "clock_ok p ts" and due: "is_due hour_of p now" and p: "valid_plan p" and d: "0 \<le> draw"
    and later: "\<forall>t\<in>set ts. t < now"
  shows "clock_ok (recorded_row draw now p p) (ts @ [now])"
proof (cases "hb_day_start p")
  case None
  then have "ts = []" using co by (simp add: clock_ok_def)
  then show ?thesis using None d p
    by (simp add: clock_ok_def recorded_row_def count_in_def day_sec_def valid_plan_def)
next
  case (Some e)
  then have c: "e \<le> last ts" "ts \<noteq> []" "int (length (filter (\<lambda>t. e \<le> t) ts)) = hb_pings_today p"
    "hb_pings_today p \<le> hb_max_per_day p" "int (count_in (e - day_sec) e ts) \<le> hb_max_per_day p"
    using co by (auto simp: clock_ok_def)
  have en: "e \<le> now" using c(1) later [rule_format, OF last_in_set [OF c(2)]] by linarith
  show ?thesis
  proof (cases "now - e < day_sec")
    case True
    then have "hb_pings_today p < hb_max_per_day p"
      using due Some by (auto simp: is_due_def day_full_def split: if_splits)
    then show ?thesis using Some True c en d by (simp add: clock_ok_def recorded_row_def count_in_snoc)
  next
    case False
    have "count_in (now - day_sec) now ts \<le> length (filter (\<lambda>t. e \<le> t) ts)"
      using False unfolding count_in_def by (intro filter_le_length) auto
    moreover have "filter (\<lambda>t. now \<le> t) ts = []" using later by (force simp: filter_empty_conv)
    ultimately show ?thesis using Some False c d p
      by (simp add: clock_ok_def recorded_row_def count_in_snoc valid_plan_def)
  qed
qed

text \<open>The invariant of one peer's row over a run, and its steps.\<close>

definition pace_inv :: "(instant \<Rightarrow> int) \<Rightarrow> int \<Rightarrow> plan \<Rightarrow> plan_table \<times> ping_event list \<Rightarrow> bool" where
  "pace_inv hour_of k q s \<longleftrightarrow> plans_wf (fst s) \<and>
     (\<exists>p. od_get (fst s) k = Some p \<and> same_plan p q \<and> clock_ok p (pings k (snd s)) \<and> pace_ok hour_of q (pings k (snd s)))"

lemma ping_later:
  assumes "clock_ok p ts" and "is_due hour_of p now" and "valid_plan p"
    and "sorted_wrt (\<lambda>a b. a + hb_interval_hours p * 3600 \<le> b) ts"
  shows "\<forall>t\<in>set ts. t + hb_interval_hours p * 3600 \<le> now \<and> t < now"
proof (cases ts rule: rev_cases)
  case (snoc us l)
  have i: "0 < hb_interval_hours p" using assms(3) by (simp add: valid_plan_def)
  have "l + hb_interval_hours p * 3600 \<le> due_at p l"
    using assms(1) by (auto simp: clock_ok_def due_at_def split: option.splits)
  moreover have "due_at p l \<le> now" using assms(1,2) snoc by (auto simp: clock_ok_def is_due_def split: if_splits)
  moreover have "\<forall>t\<in>set us. t + hb_interval_hours p * 3600 \<le> l" using assms(4) snoc by (simp add: sorted_wrt_append)
  ultimately show ?thesis using i snoc by force
qed simp

lemma quiet_same: "same_plan p q \<Longrightarrow> quiet_now hour_of p now = quiet_now hour_of q now"
  by (simp add: same_plan_def quiet_now_def)

lemma pace_step:
  assumes inv: "pace_inv hour_of k q s" and "hb_step hour_of s s'"
  shows "pace_inv hour_of k q s'"
  using assms(2)
proof cases
  case (hb_plan t p env now t' ev evs)
  have wf: "plans_wf t" using inv hb_plan by (simp add: pace_inv_def)
  show ?thesis
  proof (cases rule: maybe_ping_cases [of hour_of env now p t])
    case idle
    then show ?thesis using inv hb_plan by simp
  next
    case (ping rest)
    have t': "t' = update_row (hb_peer p) (recorded_row (pe_jitter env) now p) t" and ev: "ev = Recorded (hb_peer p) now # rest"
      using ping(3) hb_plan by simp_all
    have rest: "pings k rest = []" using ping(4) by auto
    have wf': "plans_wf t'" using wf by (simp add: t' update_row_wf)
    obtain r where r: "od_get t k = Some r" "same_plan r q" "clock_ok r (pings k evs)" "pace_ok hour_of q (pings k evs)"
      using inv hb_plan by (auto simp: pace_inv_def)
    show ?thesis
    proof (cases "hb_peer p = k")
      case False
      then show ?thesis using r wf' hb_plan by (auto simp: pace_inv_def ev rest t' update_row_get)
    next
      case True
      then have p: "p = r" using r(1) hb_plan by simp
      have vp: "valid_plan p" using wf hb_plan map_of_SomeD [of t k p] True by (force simp: plans_wf_def)
      let ?ts = "pings k evs"
      have sw: "sorted_wrt (\<lambda>a b. a + hb_interval_hours p * 3600 \<le> b) ?ts"
        and sp: "hb_interval_hours q = hb_interval_hours p" "hb_max_per_day q = hb_max_per_day p"
        using r by (auto simp: p pace_ok_def same_plan_def)
      have later: "\<forall>t\<in>set ?ts. t + hb_interval_hours p * 3600 \<le> now \<and> t < now"
        using ping_later [of p ?ts hour_of now] r(3) ping(1) vp sw by (simp add: p)
      have "clock_ok (recorded_row (pe_jitter env) now p p) (?ts @ [now])"
        using ping_clock [of p ?ts hour_of now "pe_jitter env"] r(3) ping(1) vp hb_plan later by (simp add: p)
      moreover have "pace_ok hour_of q (?ts @ [now])"
        unfolding pace_ok_def
      proof (intro conjI allI)
        show "sorted_wrt (\<lambda>a b. a + hb_interval_hours q * 3600 \<le> b) (?ts @ [now])"
          using sw later by (simp add: sp sorted_wrt_append)
        show "\<forall>t\<in>set (?ts @ [now]). \<not> quiet_now hour_of q t"
          using r ping(1) quiet_same [of p q hour_of now] by (auto simp: p pace_ok_def is_due_def)
        fix w
        show "int (count_in w (w + day_sec) (?ts @ [now])) \<le> 2 * hb_max_per_day q"
          unfolding sp using window_bound [of p ?ts hour_of now w] r(3,4) ping(1) vp later
          by (simp add: p pace_ok_def sp valid_plan_def)
      qed
      moreover have "same_plan (recorded_row (pe_jitter env) now p p) q" using r(2) by (simp add: p same_plan_def)
      ultimately show ?thesis using wf' True hb_plan rest
        by (simp add: pace_inv_def ev t' update_row_get)
    qed
  qed
qed

interpretation pace: inv_system "hb_step hour_of" "pace_inv hour_of k q" for hour_of k q
  by unfold_locales (rule pace_step)

text \<open>A plan that was never pinged.\<close>

definition unused_plan :: "plan \<Rightarrow> bool" where
  "unused_plan p \<longleftrightarrow> hb_last_ping_at p = None \<and> hb_day_start p = None \<and> hb_next_jitter_sec p = None"

text \<open>
  C15: The safeties of a heartbeat hold over every run, whatever the clock reads, however the
  calls fail and whatever the other plans do: two pings of a peer are at least the interval
  apart, no period of 24 hours holds more than twice the daily cap (the cap bounds a window
  that starts with a ping, so two can meet), and none falls into the quiet hours.
\<close>

theorem heartbeat_pace:
  assumes "plans_wf t" and "od_get t k = Some p" and "unused_plan p"
    and "\<forall>(now, env)\<in>set ticks. \<forall>j. 0 \<le> pe_jitter (env j)"
  shows "let ts = pings k (snd (tick_loop hour_of ticks t)) in
     sorted_wrt (\<lambda>a b. a + hb_interval_hours p * 3600 \<le> b) ts
     \<and> (\<forall>w. int (count_in w (w + day_sec) ts) \<le> 2 * hb_max_per_day p)
     \<and> (\<forall>t\<in>set ts. \<not> quiet_now hour_of p t)"
proof -
  obtain t' evs where l: "tick_loop hour_of ticks t = (t', evs)" by fastforce
  have vp: "valid_plan p" using assms(1) map_of_SomeD [OF assms(2)] by (force simp: plans_wf_def)
  have "pace_inv hour_of k p (t, [])"
    using assms(1-3) vp
    by (auto simp: pace_inv_def same_plan_def clock_ok_def pace_ok_def unused_plan_def count_in_def valid_plan_def)
  then have "pace_inv hour_of k p (t', [] @ evs)"
    using pace.reach_keeps [OF tick_loop_steps [OF assms(4,1) l, of "[]"]] by blast
  then show ?thesis by (auto simp: pace_inv_def pace_ok_def l)
qed

section \<open>Recorded before sent\<close>

fun sends :: "int \<Rightarrow> ping_event list \<Rightarrow> utext list" where
  "sends k [] = []"
| "sends k (Sent j x # evs) = (if j = k then x # sends k evs else sends k evs)"
| "sends k (e # evs) = sends k evs"

lemma sends_app [simp]: "sends k (xs @ ys) = sends k xs @ sends k ys"
  by (induction k xs rule: sends.induct) auto

definition never_ahead :: "int \<Rightarrow> ping_event list \<Rightarrow> bool" where
  "never_ahead k evs \<longleftrightarrow> (\<forall>n. length (sends k (take n evs)) \<le> length (pings k (take n evs)))"

lemma never_ahead_app: "never_ahead k xs \<Longrightarrow> never_ahead k ys \<Longrightarrow> never_ahead k (xs @ ys)"
  by (auto simp: never_ahead_def intro!: add_mono)

lemma never_ahead_ping: "never_ahead k (snd (maybe_ping hour_of env now p t))"
proof (cases rule: maybe_ping_cases [of hour_of env now p t])
  case idle
  then show ?thesis by (simp add: never_ahead_def)
next
  case (ping rest)
  have "length (sends k (take n (Recorded (hb_peer p) now # rest))) \<le> length (pings k (take n (Recorded (hb_peer p) now # rest)))" for n
    using ping(4) by (cases n; cases "n - 1"; cases "n - 2") (auto simp: take_Cons' split: if_splits)
  then show ?thesis by (simp add: never_ahead_def ping(3))
qed

lemma never_ahead_plans: "never_ahead k (snd (ping_plans hour_of env now ps t))"
proof (induction ps arbitrary: t)
  case Nil
  then show ?case by (simp add: never_ahead_def)
next
  case (Cons p ps)
  then show ?case
    using never_ahead_ping [of k hour_of "env (hb_peer p)" now p t]
    by (auto simp: Let_def split: prod.splits intro!: never_ahead_app) (metis snd_conv)
qed

text \<open>
  A ping is recorded before it is sent: at every moment of a run a peer has received at
  most as many pings as its row was charged for, so a failing write never repeats a ping and a
  failing send costs one interval instead; and while our last message is unanswered, or the
  dialog cannot be read, nothing is recorded or sent.
\<close>

theorem heartbeat_recorded_before_sent:
  "length (sends k (take n (snd (tick_loop hour_of ticks t)))) \<le> length (pings k (take n (snd (tick_loop hour_of ticks t))))
   \<and> (pe_tail env \<in> {TailRaises, TailOut True} \<or> \<not> pe_record_ok env \<longrightarrow> maybe_ping hour_of env now p t = (t, []))"
proof -
  have "never_ahead k (snd (tick_loop hour_of ticks t))"
  proof (induction ticks arbitrary: t)
    case Nil
    then show ?case by (simp add: never_ahead_def)
  next
    case (Cons tick ticks)
    obtain now env where k: "tick = (now, env)" by (cases tick)
    show ?case using Cons never_ahead_plans [of k hour_of env now "list_enabled_plans t" t]
      by (auto simp: k process_plans_def Let_def split: prod.splits intro!: never_ahead_app) (metis snd_conv)
  qed
  then show ?thesis
    by (auto simp: never_ahead_def maybe_ping_def split: tail_answer.split bool.split)
qed

section \<open>A concrete run\<close>

definition demo_plan :: plan where
  "demo_plan = \<lparr>hb_peer = 5, hb_templates = [u ''hi''], hb_interval_hours = 12, hb_jitter_minutes = 0, hb_quiet_start = Some 23,
     hb_quiet_end = Some 8, hb_enabled = True, hb_last_ping_at = None, hb_max_per_day = 2, hb_pings_today = 0,
     hb_day_start = None, hb_next_jitter_sec = None\<rparr>"

definition demo_env :: "int \<Rightarrow> ping_env" where
  "demo_env k = \<lparr>pe_tail = TailEmpty, pe_provider = NoProvider, pe_pick = 0, pe_jitter = 0, pe_record_ok = True,
     pe_send_ok = True, pe_journal_ok = True\<rparr>"

theorem heartbeat_pace_witness:
  "int (count_in 0 (0 + day_sec) (pings 5 (snd (tick_loop (\<lambda>t. 12) [(0, demo_env), (60, demo_env)] [(5, demo_plan)])))) \<le> 2 * 2"
proof -
  have p: "plans_wf [(5, demo_plan)]" "unused_plan demo_plan" and m: "hb_max_per_day demo_plan = 2"
    by (simp_all add: plans_wf_def od_wf_def valid_plan_def demo_plan_def hour_ok_def unused_plan_def)
  have "od_get [(5, demo_plan)] 5 = Some demo_plan" "\<forall>(now, env)\<in>set [(0, demo_env), (60, demo_env)]. \<forall>j. 0 \<le> pe_jitter (env j)"
    by (simp_all add: demo_env_def)
  from heartbeat_pace [OF p(1) this(1) p(2) this(2), of "\<lambda>t. 12"] show ?thesis
    unfolding Let_def m by blast
qed

theorem heartbeat_recorded_before_sent_witness:
  "maybe_ping (\<lambda>_. 12) ((demo_env 5)\<lparr>pe_tail := TailOut True\<rparr>) 0 demo_plan [(5, demo_plan)] = ([(5, demo_plan)], [])"
  using heartbeat_recorded_before_sent [of 5 0 "\<lambda>_. 12" "[]" "[(5, demo_plan)]" "(demo_env 5)\<lparr>pe_tail := TailOut True\<rparr>" 0 demo_plan]
  by simp

end
