(* ===== verification/Ghostwrite.thy ===== *)
theory Ghostwrite
  imports Models
begin

text \<open>
  \<open>src/tg_messenger/agent/ghostwrite.py\<close>: the table of enabled dialogs, the engine's caches,
  and its two handlers cut at their awaits: an incoming message is checked and charged, then
  drafted, then checked again and sent; an outgoing event is either deferred while a send to
  its dialog is in flight, recognised as the engine's own, or taken as a human stepping in.
  Clock readings, the suggester's answer and the outcome of a send are arguments.
\<close>

section \<open>The table of dialogs\<close>

record gw_row =
  gr_enabled :: bool
  gr_paused_until :: "real option"

type_synonym gw_table = "(int, gw_row) odict"

definition pause_forever :: real where "pause_forever = 10 ^ 19"

definition enable_dialog :: "int \<Rightarrow> gw_table \<Rightarrow> gw_table" where
  "enable_dialog d t = od_set d \<lparr>gr_enabled = True, gr_paused_until = None\<rparr> t"

definition disable_dialog :: "int \<Rightarrow> gw_table \<Rightarrow> gw_table" where
  "disable_dialog d t = od_set d
     (case od_get t d of None \<Rightarrow> \<lparr>gr_enabled = False, gr_paused_until = None\<rparr> | Some r \<Rightarrow> r\<lparr>gr_enabled := False\<rparr>) t"

definition list_enabled :: "gw_table \<Rightarrow> int list" where
  "list_enabled t = sort (map fst (filter (\<lambda>e. gr_enabled (snd e)) t))"

definition update_rows :: "(int \<Rightarrow> gw_row \<Rightarrow> bool) \<Rightarrow> real option \<Rightarrow> gw_table \<Rightarrow> gw_table" where
  "update_rows sel v t = map (\<lambda>(d, r). if sel d r then (d, r\<lparr>gr_paused_until := v\<rparr>) else (d, r)) t"

definition pause_dialog :: "int \<Rightarrow> real \<Rightarrow> gw_table \<Rightarrow> gw_table" where
  "pause_dialog d paused_until t = update_rows (\<lambda>k _. k = d) (Some paused_until) t"

definition resume_dialog :: "int \<Rightarrow> gw_table \<Rightarrow> gw_table" where
  "resume_dialog d t = update_rows (\<lambda>k _. k = d) None t"

definition pause_all :: "gw_table \<Rightarrow> gw_table" where
  "pause_all t = update_rows (\<lambda>_ r. gr_enabled r) (Some pause_forever) t"

definition is_active :: "gw_table \<Rightarrow> int \<Rightarrow> instant \<Rightarrow> bool" where
  "is_active t d now = (case od_get t d of
     None \<Rightarrow> False
   | Some r \<Rightarrow> if \<not> gr_enabled r then False
               else (case gr_paused_until r of None \<Rightarrow> True | Some p \<Rightarrow> p \<le> now))"

lemma update_rows_get:
  "od_get (update_rows sel v t) d = map_option (\<lambda>r. if sel d r then r\<lparr>gr_paused_until := v\<rparr> else r) (od_get t d)"
  by (induction t) (auto simp: update_rows_def)

lemma update_rows_keys [simp]: "od_keys (update_rows sel v t) = od_keys t"
  by (auto simp: update_rows_def)

section \<open>The engine\<close>

record gw_engine =
  ge_enforce :: bool
  ge_max_per_hour :: int
  ge_pause_sec :: int
  ge_own_cap :: nat
  ge_rate_cap :: nat
  ge_enabled :: "int list option"
  ge_sending :: "(int, outgoing_event list) odict"
  ge_rate :: "(int, instant list) odict"
  ge_own :: "(int \<times> int, bool) odict"

definition ensure_enabled_dialogs :: "gw_table \<Rightarrow> gw_engine \<Rightarrow> gw_engine" where
  "ensure_enabled_dialogs t e = (case ge_enabled e of None \<Rightarrow> e\<lparr>ge_enabled := Some (list_enabled t)\<rparr> | Some _ \<Rightarrow> e)"

definition is_enabled_dialog :: "gw_table \<Rightarrow> int \<Rightarrow> gw_engine \<Rightarrow> bool \<times> gw_engine" where
  "is_enabled_dialog t d e =
     (let e1 = ensure_enabled_dialogs t e; known = (case ge_enabled e1 of None \<Rightarrow> [] | Some ds \<Rightarrow> ds)
      in if d \<in> set known then (True, e1)
         else (case od_get t d of
                 None \<Rightarrow> (False, e1)
               | Some r \<Rightarrow> if gr_enabled r then (True, e1\<lparr>ge_enabled := Some (known @ [d])\<rparr>) else (False, e1)))"

definition ghost_window_sec :: real where "ghost_window_sec = 3600"

text \<open>\<open>_over_rate_limit\<close>: the attempt is recorded only under the limit.\<close>

definition put_window :: "int \<Rightarrow> instant list \<Rightarrow> gw_engine \<Rightarrow> gw_engine" where
  "put_window d w e = e\<lparr>ge_rate := od_trim (ge_rate_cap e) (od_touch d w (ge_rate e))\<rparr>"

definition live_window :: "instant \<Rightarrow> instant list \<Rightarrow> instant list" where
  "live_window now w = dropWhile (\<lambda>t. ghost_window_sec < now - t) w"

definition over_rate_limit :: "int \<Rightarrow> instant \<Rightarrow> gw_engine \<Rightarrow> bool \<times> gw_engine" where
  "over_rate_limit d now e =
     (let w = live_window now (case od_get (ge_rate e) d of None \<Rightarrow> [] | Some w \<Rightarrow> w);
          over = (ge_max_per_hour e \<le> int (length w))
      in (over, put_window d (if over then w else w @ [now]) e))"

definition remember_own :: "int \<Rightarrow> int option \<Rightarrow> gw_engine \<Rightarrow> gw_engine" where
  "remember_own d mid e = (case mid of None \<Rightarrow> e
     | Some i \<Rightarrow> e\<lparr>ge_own := od_trim (ge_own_cap e) (od_touch (d, i) True (ge_own e))\<rparr>)"

section \<open>Handlers\<close>

text \<open>The first part of \<open>process_incoming\<close>: whether the suggester is asked.\<close>

definition process_incoming :: "instant \<Rightarrow> message \<Rightarrow> gw_table \<Rightarrow> gw_engine \<Rightarrow> bool \<times> gw_engine" where
  "process_incoming now m t e =
     (if ms_out m then (False, e)
      else if \<not> is_active t (ms_dialog_id m) now then (False, e)
      else (case over_rate_limit (ms_dialog_id m) now e of (over, e') \<Rightarrow> (\<not> over, e')))"

record gw_log =
  gl_dialog :: int
  gl_message :: int
  gl_reply :: utext
  gl_dry_run :: bool

datatype dispatch = Skipped | DryRun gw_log | Sends utext

text \<open>The rest of it, and \<open>_dispatch\<close> up to the send: None is a suggester that raised.\<close>

definition dispatch_reply :: "instant \<Rightarrow> message \<Rightarrow> utext option \<Rightarrow> gw_table \<Rightarrow> gw_engine \<Rightarrow> dispatch \<times> gw_engine" where
  "dispatch_reply now m draft t e =
     (case draft of
        None \<Rightarrow> (Skipped, e)
      | Some reply \<Rightarrow>
          let d = ms_dialog_id m in
          if ustrip reply = [] then (Skipped, e)
          else if \<not> is_active t d now then (Skipped, e)
          else if \<not> ge_enforce e
          then (DryRun \<lparr>gl_dialog = d, gl_message = ms_id m, gl_reply = reply, gl_dry_run = True\<rparr>, e)
          else (Sends reply, e\<lparr>ge_sending := od_set d [] (ge_sending e)\<rparr>))"

definition pause_for_human :: "instant \<Rightarrow> outgoing_event \<Rightarrow> gw_table \<times> gw_engine \<Rightarrow> gw_table \<times> gw_engine" where
  "pause_for_human now ev s =
     (case s of (t, e) \<Rightarrow>
       (let d = oe_dialog_id ev; r = is_enabled_dialog t d e in
        if \<not> fst r then (t, snd r)
        else if \<not> is_active t d now then (t, snd r)
        else (pause_dialog d (now + of_int (ge_pause_sec e)) t, snd r)))"

fun handle_deferred_outgoing :: "instant \<Rightarrow> int option \<Rightarrow> outgoing_event list \<Rightarrow> gw_table \<times> gw_engine \<Rightarrow> gw_table \<times> gw_engine" where
  "handle_deferred_outgoing now own_id [] s = s"
| "handle_deferred_outgoing now own_id (ev # evs) s =
     handle_deferred_outgoing now own_id evs
       (if own_id = Some (ms_id (oe_message ev)) then s else pause_for_human now ev s)"

text \<open>The end of \<open>_dispatch\<close>: Some id is what \<open>send_text\<close> returned, None that it raised.\<close>

definition finish_send :: "instant \<Rightarrow> message \<Rightarrow> utext \<Rightarrow> int option \<Rightarrow> gw_table \<times> gw_engine \<Rightarrow> gw_log list \<times> gw_table \<times> gw_engine" where
  "finish_send now m reply sent s =
     (case s of (t, e) \<Rightarrow>
       (let d = ms_dialog_id m;
            pending = (case od_get (ge_sending e) d of None \<Rightarrow> [] | Some evs \<Rightarrow> evs);
            e1 = remember_own d sent e;
            e2 = e1\<lparr>ge_sending := od_pop d (ge_sending e1)\<rparr>;
            s' = handle_deferred_outgoing now sent pending (t, e2)
        in (if sent = None then [] else [\<lparr>gl_dialog = d, gl_message = ms_id m, gl_reply = reply, gl_dry_run = False\<rparr>], s')))"

definition on_outgoing :: "instant \<Rightarrow> outgoing_event \<Rightarrow> gw_table \<times> gw_engine \<Rightarrow> gw_table \<times> gw_engine" where
  "on_outgoing now ev s =
     (case s of (t, e) \<Rightarrow>
       (let d = oe_dialog_id ev; key = (d, ms_id (oe_message ev)) in
        case od_get (ge_sending e) d of
          Some pending \<Rightarrow> (t, e\<lparr>ge_sending := od_set d (pending @ [ev]) (ge_sending e)\<rparr>)
        | None \<Rightarrow> if key \<in> set (od_keys (ge_own e)) then (t, e\<lparr>ge_own := od_pop key (ge_own e)\<rparr>)
                  else pause_for_human now ev (t, e)))"

section \<open>Runs\<close>

datatype gw_pc = GIdle | GDrafting message | GSending message utext "int option"

datatype gw_edit = Enable int | Disable int | Pause int real | Resume int | PauseAll

fun apply_edit :: "gw_edit \<Rightarrow> gw_table \<Rightarrow> gw_table" where
  "apply_edit (Enable d) t = enable_dialog d t"
| "apply_edit (Disable d) t = disable_dialog d t"
| "apply_edit (Pause d p) t = pause_dialog d p t"
| "apply_edit (Resume d) t = resume_dialog d t"
| "apply_edit PauseAll t = pause_all t"

text \<open>
  The engine, the table it shares with the command line, and what happened: the slots taken,
  the replies sent (dialog, time of the check that released them, text), the journal and the
  latest reading of the clock. Messages come from the dialogs of \<open>D\<close>, edits are those of \<open>E\<close>.
\<close>

record gw_run =
  gu_table :: gw_table
  gu_engine :: gw_engine
  gu_pc :: gw_pc
  gu_now :: instant
  gu_slots :: "(int \<times> instant) list"
  gu_sends :: "(int \<times> instant \<times> utext) list"
  gu_log :: "gw_log list"

inductive gw_step :: "int set \<Rightarrow> gw_edit set \<Rightarrow> gw_run \<Rightarrow> gw_run \<Rightarrow> bool" for D E where
  gw_incoming: "gu_pc r = GIdle \<Longrightarrow> ms_dialog_id m \<in> D \<Longrightarrow> gu_now r \<le> now \<Longrightarrow> process_incoming now m (gu_table r) (gu_engine r) = (go, e) \<Longrightarrow>
    gw_step D E r (r\<lparr>gu_engine := e, gu_now := now, gu_pc := if go then GDrafting m else GIdle,
      gu_slots := gu_slots r @ (if go then [(ms_dialog_id m, now)] else [])\<rparr>)"
| gw_skip: "gu_pc r = GDrafting m \<Longrightarrow> gu_now r \<le> now \<Longrightarrow> dispatch_reply now m draft (gu_table r) (gu_engine r) = (Skipped, e) \<Longrightarrow>
    gw_step D E r (r\<lparr>gu_engine := e, gu_now := now, gu_pc := GIdle\<rparr>)"
| gw_dry: "gu_pc r = GDrafting m \<Longrightarrow> gu_now r \<le> now \<Longrightarrow> dispatch_reply now m draft (gu_table r) (gu_engine r) = (DryRun l, e) \<Longrightarrow>
    gw_step D E r (r\<lparr>gu_engine := e, gu_now := now, gu_pc := GIdle, gu_log := gu_log r @ [l]\<rparr>)"
| gw_send: "gu_pc r = GDrafting m \<Longrightarrow> gu_now r \<le> now \<Longrightarrow> dispatch_reply now m draft (gu_table r) (gu_engine r) = (Sends reply, e) \<Longrightarrow>
    gw_step D E r (r\<lparr>gu_engine := e, gu_now := now, gu_pc := GSending m reply sent,
      gu_sends := gu_sends r @ [(ms_dialog_id m, now, reply)]\<rparr>)"
| gw_sent: "gu_pc r = GSending m reply sent \<Longrightarrow> gu_now r \<le> now \<Longrightarrow>
    finish_send now m reply sent (gu_table r, gu_engine r) = (ls, t, e) \<Longrightarrow>
    gw_step D E r (r\<lparr>gu_table := t, gu_engine := e, gu_now := now, gu_pc := GIdle, gu_log := gu_log r @ ls\<rparr>)"
| gw_outgoing: "gu_now r \<le> now \<Longrightarrow> on_outgoing now ev (gu_table r, gu_engine r) = (t, e) \<Longrightarrow>
    gw_step D E r (r\<lparr>gu_table := t, gu_engine := e, gu_now := now\<rparr>)"
| gw_cli: "ed \<in> E \<Longrightarrow> gw_step D E r (r\<lparr>gu_table := apply_edit ed (gu_table r)\<rparr>)"

inductive_cases gw_stepE: "gw_step D E r s"

section \<open>What the handlers leave alone\<close>

named_theorems gw_view "effect of the handlers on the parts of the state"

lemma pause_for_human_view [gw_view]:
  "ge_rate (snd (pause_for_human now ev s)) = ge_rate (snd s)"
  "ge_max_per_hour (snd (pause_for_human now ev s)) = ge_max_per_hour (snd s)"
  "ge_rate_cap (snd (pause_for_human now ev s)) = ge_rate_cap (snd s)"
  "ge_enforce (snd (pause_for_human now ev s)) = ge_enforce (snd s)"
  "ge_pause_sec (snd (pause_for_human now ev s)) = ge_pause_sec (snd s)"
  by (auto simp: pause_for_human_def is_enabled_dialog_def ensure_enabled_dialogs_def Let_def
      split: prod.splits option.splits)

lemma deferred_view [gw_view]:
  "ge_rate (snd (handle_deferred_outgoing now o' evs s)) = ge_rate (snd s)"
  "ge_max_per_hour (snd (handle_deferred_outgoing now o' evs s)) = ge_max_per_hour (snd s)"
  "ge_rate_cap (snd (handle_deferred_outgoing now o' evs s)) = ge_rate_cap (snd s)"
  "ge_enforce (snd (handle_deferred_outgoing now o' evs s)) = ge_enforce (snd s)"
  "ge_pause_sec (snd (handle_deferred_outgoing now o' evs s)) = ge_pause_sec (snd s)"
  by (induction now o' evs s rule: handle_deferred_outgoing.induct) (simp_all add: gw_view)

lemma remember_own_view [gw_view]:
  "ge_rate (remember_own d i e) = ge_rate e" "ge_max_per_hour (remember_own d i e) = ge_max_per_hour e"
  "ge_rate_cap (remember_own d i e) = ge_rate_cap e" "ge_enforce (remember_own d i e) = ge_enforce e"
  "ge_pause_sec (remember_own d i e) = ge_pause_sec e" "ge_sending (remember_own d i e) = ge_sending e"
  by (simp_all add: remember_own_def split: option.split)

lemma on_outgoing_view [gw_view]:
  "ge_rate (snd (on_outgoing now ev s)) = ge_rate (snd s)"
  "ge_max_per_hour (snd (on_outgoing now ev s)) = ge_max_per_hour (snd s)"
  "ge_rate_cap (snd (on_outgoing now ev s)) = ge_rate_cap (snd s)"
  "ge_enforce (snd (on_outgoing now ev s)) = ge_enforce (snd s)"
  by (auto simp: on_outgoing_def Let_def gw_view split: prod.splits option.splits)

lemma finish_send_view [gw_view]:
  "ge_rate (snd (snd (finish_send now m reply o' s))) = ge_rate (snd s)"
  "ge_max_per_hour (snd (snd (finish_send now m reply o' s))) = ge_max_per_hour (snd s)"
  "ge_rate_cap (snd (snd (finish_send now m reply o' s))) = ge_rate_cap (snd s)"
  "ge_enforce (snd (snd (finish_send now m reply o' s))) = ge_enforce (snd s)"
  by (auto simp: finish_send_def Let_def gw_view split: prod.splits)

lemma dispatch_view [gw_view]:
  "ge_rate (snd (dispatch_reply now m draft t e)) = ge_rate e"
  "ge_max_per_hour (snd (dispatch_reply now m draft t e)) = ge_max_per_hour e"
  "ge_rate_cap (snd (dispatch_reply now m draft t e)) = ge_rate_cap e"
  "ge_enforce (snd (dispatch_reply now m draft t e)) = ge_enforce e"
  by (auto simp: dispatch_reply_def Let_def split: option.splits)

lemma dispatch_sends:
  assumes "dispatch_reply now m draft t e = (Sends reply, e')"
  shows "draft = Some reply \<and> ustrip reply \<noteq> [] \<and> is_active t (ms_dialog_id m) now \<and> ge_enforce e"
  using assms by (auto simp: dispatch_reply_def Let_def split: option.splits if_splits)

section \<open>The hourly cap\<close>

definition slots_of :: "int \<Rightarrow> (int \<times> instant) list \<Rightarrow> instant list" where
  "slots_of d sl = map snd (filter (\<lambda>p. fst p = d) sl)"

definition hour_count :: "instant \<Rightarrow> instant list \<Rightarrow> nat" where
  "hour_count a ts = length (filter (\<lambda>t. a \<le> t \<and> t \<le> a + ghost_window_sec) ts)"

definition window_ok :: "instant \<Rightarrow> instant list \<Rightarrow> instant list option \<Rightarrow> bool" where
  "window_ok now ts w \<longleftrightarrow> sorted ts \<and> (\<forall>t\<in>set ts. t \<le> now) \<and>
     (case w of None \<Rightarrow> ts = [] | Some v \<Rightarrow> \<exists>us. ts = us @ v \<and> (\<forall>t\<in>set us. ghost_window_sec < now - t))"

lemma slots_of_app [simp]: "slots_of d (xs @ ys) = slots_of d xs @ slots_of d ys"
  by (simp add: slots_of_def)

lemma slots_of_simps [simp]: "slots_of d [] = []" "slots_of d [(k, t)] = (if k = d then [t] else [])"
  by (simp_all add: slots_of_def)

lemma window_later: "window_ok now ts w \<Longrightarrow> now \<le> later \<Longrightarrow> window_ok later ts w"
  by (fastforce simp: window_ok_def split: option.splits)

lemma live_window_ok:
  assumes "window_ok now ts w"
  shows "window_ok now ts (Some (live_window now (case w of None \<Rightarrow> [] | Some v \<Rightarrow> v)))"
proof (cases w)
  case None
  then show ?thesis using assms by (simp add: window_ok_def live_window_def)
next
  case (Some v)
  obtain us where us: "ts = us @ v" "\<forall>t\<in>set us. ghost_window_sec < now - t"
    using assms Some by (auto simp: window_ok_def)
  let ?g = "takeWhile (\<lambda>t. ghost_window_sec < now - t) v"
  have "ts = (us @ ?g) @ live_window now v" by (simp add: us(1) live_window_def)
  moreover have "\<forall>t\<in>set (us @ ?g). ghost_window_sec < now - t"
    using us(2) by (auto dest: set_takeWhileD)
  ultimately show ?thesis using assms Some by (auto simp: window_ok_def)
qed

lemma hour_count_live:
  assumes "window_ok now ts (Some v)" and "now - ghost_window_sec \<le> a"
  shows "hour_count a ts \<le> length v"
proof -
  obtain us where us: "ts = us @ v" "\<forall>t\<in>set us. ghost_window_sec < now - t" using assms(1) by (auto simp: window_ok_def)
  have "filter (\<lambda>t. a \<le> t \<and> t \<le> a + ghost_window_sec) us = []"
    using us(2) assms(2) by (fastforce simp: filter_empty_conv)
  then show ?thesis by (simp add: hour_count_def us(1))
qed

definition cap_inv :: "int set \<Rightarrow> int \<Rightarrow> nat \<Rightarrow> gw_run \<Rightarrow> bool" where
  "cap_inv D k cap r \<longleftrightarrow> ge_max_per_hour (gu_engine r) = k \<and> ge_rate_cap (gu_engine r) = cap
     \<and> od_wf (ge_rate (gu_engine r)) \<and> fst ` set (ge_rate (gu_engine r)) \<subseteq> D
     \<and> (\<forall>d. window_ok (gu_now r) (slots_of d (gu_slots r)) (od_get (ge_rate (gu_engine r)) d)
          \<and> (\<forall>a. int (hour_count a (slots_of d (gu_slots r))) \<le> k))
     \<and> (\<forall>d. length (filter (\<lambda>s. fst s = d) (gu_sends r)) + (case gu_pc r of GDrafting m \<Rightarrow> if ms_dialog_id m = d then 1 else 0 | _ \<Rightarrow> 0)
          \<le> length (slots_of d (gu_slots r)))"

lemma put_window_room:
  assumes "od_wf (ge_rate e)" and "fst ` set (ge_rate e) \<subseteq> D" and "finite D" and "card D \<le> ge_rate_cap e" and "d \<in> D"
  shows "ge_rate (put_window d w e) = od_touch d w (ge_rate e)"
proof -
  have "length (od_touch d w (ge_rate e)) = card (fst ` set (od_touch d w (ge_rate e)))"
    using distinct_card [of "od_keys (od_touch d w (ge_rate e))"] od_wf_touch [OF assms(1), of d w] by (simp add: od_wf_def)
  also have "\<dots> \<le> card D" using assms by (intro card_mono) (auto simp: od_simps)
  finally show ?thesis using assms(4) by (simp add: put_window_def)
qed

lemma rate_slot:
  assumes inv: "cap_inv D k cap r" and D: "finite D" "card D \<le> cap" "d \<in> D" and now: "gu_now r \<le> now"
    and o: "over_rate_limit d now (gu_engine r) = (over, e)"
  shows "ge_max_per_hour e = k \<and> ge_rate_cap e = cap \<and> od_wf (ge_rate e) \<and> fst ` set (ge_rate e) \<subseteq> D
    \<and> (\<forall>j. window_ok now (slots_of j (gu_slots r @ (if over then [] else [(d, now)]))) (od_get (ge_rate e) j)
        \<and> (\<forall>a. int (hour_count a (slots_of j (gu_slots r @ (if over then [] else [(d, now)])))) \<le> k))"
proof -
  let ?e = "gu_engine r"
  define w where "w = live_window now (case od_get (ge_rate ?e) d of None \<Rightarrow> [] | Some w \<Rightarrow> w)"
  have over: "over = (k \<le> int (length w))" and e: "e = put_window d (if over then w else w @ [now]) ?e"
    using o inv by (auto simp: over_rate_limit_def Let_def w_def cap_inv_def)
  have wf: "od_wf (ge_rate ?e)" "fst ` set (ge_rate ?e) \<subseteq> D" "ge_rate_cap ?e = cap" "ge_max_per_hour ?e = k"
    using inv by (auto simp: cap_inv_def)
  have rate: "ge_rate e = od_touch d (if over then w else w @ [now]) (ge_rate ?e)"
    unfolding e using wf D by (intro put_window_room) auto
  have win: "window_ok now (slots_of j (gu_slots r)) (od_get (ge_rate ?e) j)"
    and cnt: "int (hour_count a (slots_of j (gu_slots r))) \<le> k" for j a
    using inv window_later [OF _ now] by (simp_all add: cap_inv_def)
  have wd: "window_ok now (slots_of d (gu_slots r)) (Some w)"
    unfolding w_def by (rule live_window_ok [OF win])
  have new: "window_ok now (slots_of d (gu_slots r) @ [now]) (Some (w @ [now]))"
    using wd by (auto simp: window_ok_def sorted_append)
  have cn: "int (hour_count a (slots_of d (gu_slots r) @ [now])) \<le> k" if "\<not> over" for a
  proof (cases "a \<le> now \<and> now \<le> a + ghost_window_sec")
    case True
    have "hour_count a (slots_of d (gu_slots r)) \<le> length w"
      using True by (intro hour_count_live [OF wd]) auto
    then show ?thesis using that True over by (simp add: hour_count_def)
  next
    case False
    then have "hour_count a (slots_of d (gu_slots r) @ [now]) = hour_count a (slots_of d (gu_slots r))"
      by (auto simp: hour_count_def)
    then show ?thesis using cnt [of a d] by simp
  qed
  have "window_ok now (slots_of j (gu_slots r @ (if over then [] else [(d, now)]))) (od_get (ge_rate e) j)
        \<and> (\<forall>a. int (hour_count a (slots_of j (gu_slots r @ (if over then [] else [(d, now)])))) \<le> k)" for j
    using win [of j] cnt [of _ j] wd new cn by (cases "j = d") (auto simp: rate od_simps)
  moreover have "ge_max_per_hour e = k" "ge_rate_cap e = cap" using wf by (simp_all add: e put_window_def)
  ultimately show ?thesis using wf D by (auto simp: rate od_inv od_simps)
qed

definition in_draft :: "gw_pc \<Rightarrow> int \<Rightarrow> nat" where
  "in_draft pc d = (case pc of GDrafting m \<Rightarrow> if ms_dialog_id m = d then 1 else 0 | _ \<Rightarrow> 0)"

lemma in_draft_simps [simp]:
  "in_draft GIdle d = 0" "in_draft (GSending m reply sent) d = 0" "in_draft (GDrafting m) d = (if ms_dialog_id m = d then 1 else 0)"
  by (simp_all add: in_draft_def)

lemma cap_inv_alt:
  "cap_inv D k cap r \<longleftrightarrow> ge_max_per_hour (gu_engine r) = k \<and> ge_rate_cap (gu_engine r) = cap
     \<and> od_wf (ge_rate (gu_engine r)) \<and> fst ` set (ge_rate (gu_engine r)) \<subseteq> D
     \<and> (\<forall>d. window_ok (gu_now r) (slots_of d (gu_slots r)) (od_get (ge_rate (gu_engine r)) d)
          \<and> (\<forall>a. int (hour_count a (slots_of d (gu_slots r))) \<le> k))
     \<and> (\<forall>d. length (filter (\<lambda>s. fst s = d) (gu_sends r)) + in_draft (gu_pc r) d \<le> length (slots_of d (gu_slots r)))"
  by (simp add: cap_inv_def in_draft_def)

text \<open>A step that leaves the windows and the slots alone.\<close>

lemma cap_inv_same:
  assumes "cap_inv D k cap r" and "gu_now r \<le> gu_now s" and "gu_slots s = gu_slots r"
    and "ge_rate (gu_engine s) = ge_rate (gu_engine r)" "ge_max_per_hour (gu_engine s) = ge_max_per_hour (gu_engine r)"
      "ge_rate_cap (gu_engine s) = ge_rate_cap (gu_engine r)"
    and "\<And>d. length (filter (\<lambda>s. fst s = d) (gu_sends s)) + in_draft (gu_pc s) d
        \<le> length (filter (\<lambda>s. fst s = d) (gu_sends r)) + in_draft (gu_pc r) d"
  shows "cap_inv D k cap s"
  using assms window_later [OF _ assms(2)] order_trans [OF assms(7)] unfolding cap_inv_alt by auto

lemma cap_step:
  assumes inv: "cap_inv D k cap r" and "finite D" "card D \<le> cap" and "gw_step D E r s"
  shows "cap_inv D k cap s"
  using assms(4)
proof cases
  case (gw_incoming m now go e)
  show ?thesis
  proof (cases "ms_out m \<or> \<not> is_active (gu_table r) (ms_dialog_id m) now")
    case True
    then have "go = False \<and> e = gu_engine r" using gw_incoming by (auto simp: process_incoming_def split: if_splits)
    then show ?thesis using gw_incoming by (intro cap_inv_same [OF inv]) auto
  next
    case False
    obtain over e' where o: "over_rate_limit (ms_dialog_id m) now (gu_engine r) = (over, e')" by fastforce
    then have g: "go = (\<not> over)" "e = e'" using gw_incoming False by (auto simp: process_incoming_def)
    have s: "gu_slots s = gu_slots r @ (if over then [] else [(ms_dialog_id m, now)])" "gu_engine s = e'"
      "gu_now s = now" "gu_sends s = gu_sends r" "gu_pc s = (if over then GIdle else GDrafting m)"
      using gw_incoming g by auto
    have n: "length (filter (\<lambda>s. fst s = d) (gu_sends r)) \<le> length (slots_of d (gu_slots r))" for d
      using inv le_trans [OF le_add1] unfolding cap_inv_alt by blast
    have "length (filter (\<lambda>s. fst s = d) (gu_sends s)) + in_draft (gu_pc s) d \<le> length (slots_of d (gu_slots s))" for d
      using n [of d] by (simp add: s)
    then show ?thesis
      using rate_slot [OF inv assms(2,3) gw_incoming(3,4) o] unfolding cap_inv_alt s by blast
  qed
next
  case (gw_skip m now draft e)
  then show ?thesis using dispatch_view [of now m draft "gu_table r" "gu_engine r"] by (intro cap_inv_same [OF inv]) auto
next
  case (gw_dry m now draft l e)
  then show ?thesis using dispatch_view [of now m draft "gu_table r" "gu_engine r"] by (intro cap_inv_same [OF inv]) auto
next
  case (gw_send m now draft reply e sent)
  then show ?thesis using dispatch_view [of now m draft "gu_table r" "gu_engine r"] by (intro cap_inv_same [OF inv]) auto
next
  case (gw_sent m reply sent now ls t e)
  then show ?thesis using finish_send_view [of now m reply sent "(gu_table r, gu_engine r)"] by (intro cap_inv_same [OF inv]) auto
next
  case (gw_outgoing now ev t e)
  then show ?thesis using on_outgoing_view [of now ev "(gu_table r, gu_engine r)"] by (intro cap_inv_same [OF inv]) auto
next
  case (gw_cli ed)
  then show ?thesis by (intro cap_inv_same [OF inv]) auto
qed

definition gw_init :: "gw_table \<Rightarrow> gw_engine \<Rightarrow> gw_run" where
  "gw_init t e = \<lparr>gu_table = t, gu_engine = e\<lparr>ge_rate := []\<rparr>, gu_pc = GIdle, gu_now = 0, gu_slots = [], gu_sends = [], gu_log = []\<rparr>"

definition capped :: "int set \<Rightarrow> nat \<Rightarrow> bool" where
  "capped D cap \<longleftrightarrow> finite D \<and> card D \<le> cap"

interpretation hourly: inv_system "\<lambda>r s. capped D cap \<and> gw_step D E r s" "cap_inv D k cap" for D E k cap
  by unfold_locales (auto simp: capped_def intro: cap_step)

text \<open>
  C12: The hourly cap holds in every interleaving of incoming messages, outgoing events, sends
  and edits of the table: as long as no more dialogs write than the engine keeps windows for,
  no dialog takes more than the cap of slots in any hour, and every reply uses up a slot of
  its own.
\<close>

theorem ghost_rate_capped:
  assumes "(gw_step D E)\<^sup>*\<^sup>* (gw_init t e) r" and "finite D" and "card D \<le> ge_rate_cap e" and "0 \<le> ge_max_per_hour e"
  shows "int (length (filter (\<lambda>(k, s). k = d \<and> a \<le> s \<and> s \<le> a + 3600) (gu_slots r))) \<le> ge_max_per_hour e
    \<and> length (filter (\<lambda>s. fst s = d) (gu_sends r)) \<le> length (filter (\<lambda>s. fst s = d) (gu_slots r))"
proof -
  have c: "capped D (ge_rate_cap e)" using assms(2,3) by (simp add: capped_def)
  have "cap_inv D (ge_max_per_hour e) (ge_rate_cap e) (gw_init t e)"
    using assms(4) by (simp add: cap_inv_alt gw_init_def window_ok_def hour_count_def)
  moreover have "(\<lambda>r s. capped D (ge_rate_cap e) \<and> gw_step D E r s)\<^sup>*\<^sup>* (gw_init t e) r"
    using assms(1) c by simp
  ultimately have inv: "cap_inv D (ge_max_per_hour e) (ge_rate_cap e) r" by (rule hourly.reach_keeps [rotated])
  have "length (filter (\<lambda>(k, s). k = d \<and> a \<le> s \<and> s \<le> a + 3600) sl) = hour_count a (slots_of d sl)" for sl
    by (induction sl) (auto simp: hour_count_def slots_of_def ghost_window_sec_def)
  moreover have "length (filter (\<lambda>s. fst s = d) sl) = length (slots_of d sl)" for sl by (simp add: slots_of_def)
  ultimately show ?thesis using inv unfolding cap_inv_alt by (metis add_leD1)
qed

section \<open>Pauses\<close>

definition active_rows :: "gw_table \<Rightarrow> instant \<Rightarrow> int set" where
  "active_rows t now = {d. is_active t d now}"

lemma is_active_pause: "is_active (pause_dialog d p t) j x \<longleftrightarrow>
    (if j = d then (\<exists>r. od_get t d = Some r \<and> gr_enabled r \<and> p \<le> x) else is_active t j x)"
  by (auto simp: is_active_def pause_dialog_def update_rows_get split: option.splits)

lemma pause_dialog_other: "j \<noteq> d \<Longrightarrow> od_get (pause_dialog d p t) j = od_get t j"
  by (simp add: pause_dialog_def update_rows_get option.map_ident)

lemma is_active_pause_all: "x < pause_forever \<Longrightarrow> \<not> is_active (pause_all t) d x"
  by (auto simp: is_active_def pause_all_def update_rows_get split: option.splits)

lemma enabled_dialog: "fst (is_enabled_dialog t d e) \<longleftrightarrow>
    (case ge_enabled e of None \<Rightarrow> d \<in> set (list_enabled t) | Some ds \<Rightarrow> d \<in> set ds)
    \<or> (\<exists>r. od_get t d = Some r \<and> gr_enabled r)"
  by (auto simp: is_enabled_dialog_def ensure_enabled_dialogs_def Let_def split: option.splits)

lemma active_enabled: "is_active t d now \<Longrightarrow> \<exists>r. od_get t d = Some r \<and> gr_enabled r"
  by (auto simp: is_active_def split: option.splits if_splits)

lemma pause_for_human_table:
  "fst (pause_for_human now ev (t, e)) =
     (if is_active t (oe_dialog_id ev) now then pause_dialog (oe_dialog_id ev) (now + of_int (ge_pause_sec e)) t else t)"
  using active_enabled [of t "oe_dialog_id ev" now] by (auto simp: pause_for_human_def Let_def enabled_dialog)

lemma pause_for_human_quiet:
  "is_active t (oe_dialog_id ev) now \<Longrightarrow> x < now + of_int (ge_pause_sec e) \<Longrightarrow>
    \<not> is_active (fst (pause_for_human now ev (t, e))) (oe_dialog_id ev) x"
  by (auto simp: pause_for_human_table is_active_pause)

text \<open>
  A human stepping in takes the dialog over: an outgoing message that is not the engine's
  pauses an active dialog for the configured time, touches no other dialog and never shortens
  an existing pause; an echo of a remembered reply is consumed without a pause; and while a
  send to the dialog is in flight the decision is deferred until its id is known.
\<close>

theorem human_takeover:
  "let d = oe_dialog_id ev; key = (d, ms_id (oe_message ev)); out = on_outgoing now ev (t, e) in
     (\<forall>j. j \<noteq> d \<longrightarrow> od_get (fst out) j = od_get t j)
     \<and> (case od_get (ge_sending e) d of
          Some pending \<Rightarrow> fst out = t \<and> od_get (ge_sending (snd out)) d = Some (pending @ [ev])
        | None \<Rightarrow> if key \<in> fst ` set (ge_own e) then fst out = t \<and> key \<notin> fst ` set (ge_own (snd out))
                  else if is_active t d now then \<forall>x. x < now + of_int (ge_pause_sec e) \<longrightarrow> \<not> is_active (fst out) d x
                  else fst out = t)"
  by (auto simp: on_outgoing_def Let_def od_simps pause_for_human_table is_active_pause pause_dialog_other
      split: option.split)

text \<open>The kill switch: once every enabled dialog is paused forever no reply is released.\<close>

definition halted :: "gw_run \<Rightarrow> bool" where
  "halted r \<longleftrightarrow> gu_now r < pause_forever \<longrightarrow> (\<forall>d x. x < pause_forever \<longrightarrow> \<not> is_active (gu_table r) d x)"

lemma pause_for_human_idle: "\<not> is_active (fst s) (oe_dialog_id ev) now \<Longrightarrow> fst (pause_for_human now ev s) = fst s"
  by (cases s) (simp add: pause_for_human_table)

lemma deferred_idle:
  "\<forall>d. \<not> is_active (fst s) d now \<Longrightarrow> fst (handle_deferred_outgoing now o' evs s) = fst s"
  by (induction now o' evs s rule: handle_deferred_outgoing.induct) (simp_all add: pause_for_human_idle)

lemma finish_send_idle: "\<forall>d. \<not> is_active t d now \<Longrightarrow> fst (snd (finish_send now m reply o' (t, e))) = t"
  by (simp add: finish_send_def Let_def deferred_idle)

lemma on_outgoing_idle: "\<forall>d. \<not> is_active t d now \<Longrightarrow> fst (on_outgoing now ev (t, e)) = t"
  by (simp add: on_outgoing_def Let_def pause_for_human_idle split: option.split)

lemma disable_active: "is_active (disable_dialog j t) d x \<Longrightarrow> is_active t d x"
  by (auto simp: is_active_def disable_dialog_def od_simps split: option.splits if_splits)

definition stop_edits :: "gw_edit set" where
  "stop_edits = {ed. ed = PauseAll \<or> (\<exists>d. ed = Disable d)}"

lemma halted_step:
  assumes h: "halted r" and st: "gw_step D stop_edits r s" and now: "gu_now s < pause_forever"
  shows "halted s \<and> gu_sends s = gu_sends r"
proof -
  have le: "gu_now r \<le> gu_now s" using st by cases auto
  then have quiet: "\<And>d x. x < pause_forever \<Longrightarrow> \<not> is_active (gu_table r) d x" using h now by (auto simp: halted_def)
  from st show ?thesis
  proof cases
    case (gw_send m nw draft reply e sent)
    then show ?thesis using dispatch_sends [of nw m draft "gu_table r" "gu_engine r" reply e] quiet now by auto
  next
    case (gw_sent m reply sent nw ls t e)
    then have "t = gu_table r"
      using finish_send_idle [of "gu_table r" nw m reply sent "gu_engine r"] quiet now by auto
    then show ?thesis using gw_sent quiet by (auto simp: halted_def)
  next
    case (gw_outgoing nw ev t e)
    then have "t = gu_table r" using on_outgoing_idle [of "gu_table r" nw ev "gu_engine r"] quiet now by auto
    then show ?thesis using gw_outgoing quiet by (auto simp: halted_def)
  next
    case (gw_cli ed)
    then show ?thesis using quiet disable_active [of _ "gu_table r"] is_active_pause_all [of _ "gu_table r"]
      by (auto simp: halted_def stop_edits_def simp del: not_all) blast
  qed (use quiet in \<open>auto simp: halted_def\<close>)
qed

lemma gw_now_mono: "(gw_step D E)\<^sup>*\<^sup>* r s \<Longrightarrow> gu_now r \<le> gu_now s"
  by (induction rule: rtranclp_induct) (auto elim!: gw_step.cases)

lemma halted_run:
  "(gw_step D stop_edits)\<^sup>*\<^sup>* r s \<Longrightarrow> halted r \<Longrightarrow> gu_now s < pause_forever \<Longrightarrow> halted s \<and> gu_sends s = gu_sends r"
proof (induction rule: rtranclp_induct)
  case (step y z)
  have "gu_now y \<le> gu_now z" using step(2) by (elim gw_step.cases) auto
  then show ?case using step halted_step [of y D z] by simp
qed simp

text \<open>
  The kill switch stops the engine: after \<open>pause_all\<close>, until someone resumes, enables or
  re-pauses a dialog, no reply is released in any interleaving, not even for a message that was
  being drafted when the switch was thrown, and every dialog stays paused.
\<close>

theorem pause_all_stops:
  assumes "gu_table r = pause_all t" and "(gw_step D stop_edits)\<^sup>*\<^sup>* r s" and "gu_now s < pause_forever"
  shows "gu_sends s = gu_sends r \<and> (\<forall>d. \<not> is_active (gu_table s) d (gu_now s))"
  using halted_run [OF assms(2) _ assms(3)] assms(1,3) is_active_pause_all by (simp add: halted_def)

lemma pause_keeps_quiet:
  "\<forall>x. x < now + of_int (ge_pause_sec (snd s)) \<longrightarrow> \<not> is_active (fst s) d x \<Longrightarrow>
    \<forall>x. x < now + of_int (ge_pause_sec (snd s)) \<longrightarrow> \<not> is_active (fst (pause_for_human now ev s)) d x"
  by (cases s) (simp add: pause_for_human_table is_active_pause)

lemma deferred_keeps_quiet:
  "\<forall>x. x < now + of_int (ge_pause_sec (snd s)) \<longrightarrow> \<not> is_active (fst s) d x \<Longrightarrow>
    \<forall>x. x < now + of_int (ge_pause_sec (snd s)) \<longrightarrow> \<not> is_active (fst (handle_deferred_outgoing now o' evs s)) d x"
proof (induction now o' evs s rule: handle_deferred_outgoing.induct)
  case (2 now o' ev evs s)
  show ?case
  proof (cases "o' = Some (ms_id (oe_message ev))")
    case True
    then show ?thesis using 2 by simp
  next
    case False
    then show ?thesis using "2.IH" pause_keeps_quiet [OF "2.prems", of ev] by (simp add: gw_view)
  qed
qed simp

lemma deferred_pauses:
  "is_active (fst s) d now \<Longrightarrow> ev \<in> set evs \<Longrightarrow> oe_dialog_id ev = d \<Longrightarrow> o' \<noteq> Some (ms_id (oe_message ev)) \<Longrightarrow>
    \<forall>x. x < now + of_int (ge_pause_sec (snd s)) \<longrightarrow> \<not> is_active (fst (handle_deferred_outgoing now o' evs s)) d x"
proof (induction now o' evs s rule: handle_deferred_outgoing.induct)
  case (2 now o' f evs s)
  let ?s = "if o' = Some (ms_id (oe_message f)) then s else pause_for_human now f s"
  have v: "ge_pause_sec (snd ?s) = ge_pause_sec (snd s)" by (simp add: gw_view)
  show ?case
  proof (cases "is_active (fst ?s) d now \<and> ev \<noteq> f")
    case True
    then show ?thesis using "2.IH" "2.prems" v by simp
  next
    case False
    obtain t e where s: "s = (t, e)" by (cases s)
    have "\<forall>x. x < now + of_int (ge_pause_sec (snd ?s)) \<longrightarrow> \<not> is_active (fst ?s) d x"
      using False "2.prems" by (auto simp: s pause_for_human_table is_active_pause gw_view split: if_splits)
    then show ?thesis using deferred_keeps_quiet [of now ?s d o' evs] v by simp
  qed
qed simp

text \<open>
  A late echo is taken for a human: when the echo of an earlier reply, although still in
  the cache of the engine's own messages, arrives while the next reply to the same dialog is
  being sent, the deferred decision compares it only with the id of the reply in flight, and
  the engine pauses the dialog against itself for the whole human pause.
\<close>

theorem late_echo_pauses:
  assumes "(ms_dialog_id m, ms_id (oe_message ev)) \<in> fst ` set (ge_own e)" and "oe_dialog_id ev = ms_dialog_id m"
    and "od_get (ge_sending e) (ms_dialog_id m) = Some pending" and "j \<noteq> ms_id (oe_message ev)"
    and "is_active t (ms_dialog_id m) now2" and "x < now2 + of_int (ge_pause_sec e)"
  shows "\<not> is_active (fst (snd (finish_send now2 m reply (Some j) (on_outgoing now1 ev (t, e))))) (ms_dialog_id m) x"
proof -
  have o: "on_outgoing now1 ev (t, e) = (t, e\<lparr>ge_sending := od_set (ms_dialog_id m) (pending @ [ev]) (ge_sending e)\<rparr>)"
    using assms by (simp add: on_outgoing_def Let_def)
  show ?thesis unfolding o
    using deferred_pauses [of "(t, _)" "ms_dialog_id m" now2 ev "pending @ [ev]" "Some j"] assms
    by (simp add: finish_send_def Let_def od_simps remember_own_def gw_view)
qed

section \<open>Concrete runs\<close>

definition gdemo_msg :: "int \<Rightarrow> message" where
  "gdemo_msg i = \<lparr>ms_id = i, ms_dialog_id = 5, ms_sender_id = 5, ms_out = False, ms_date = 0, ms_text = None,
     ms_media = None, ms_reply_to_id = None, ms_is_forward = False, ms_translated_text = None, ms_sender = None\<rparr>"

definition gdemo_echo :: "int \<Rightarrow> outgoing_event" where
  "gdemo_echo i = \<lparr>oe_dialog_id = 5, oe_message = (gdemo_msg i)\<lparr>ms_out := True\<rparr>\<rparr>"

definition gdemo_engine :: gw_engine where
  "gdemo_engine = \<lparr>ge_enforce = True, ge_max_per_hour = 6, ge_pause_sec = 86400, ge_own_cap = 1000, ge_rate_cap = 10000,
     ge_enabled = None, ge_sending = [], ge_rate = [], ge_own = []\<rparr>"

definition gdemo_table :: gw_table where
  "gdemo_table = enable_dialog 5 []"

text \<open>One message answered: arrival, draft and send, with the id the server gave.\<close>

definition answer :: "int \<Rightarrow> int \<Rightarrow> gw_table \<times> gw_engine \<Rightarrow> gw_table \<times> gw_engine" where
  "answer i sent s =
     (let e1 = snd (process_incoming 10 (gdemo_msg i) (fst s) (snd s));
          e2 = snd (dispatch_reply 10 (gdemo_msg i) (Some [79, 75]) (fst s) e1)
      in snd (finish_send 10 (gdemo_msg i) [79, 75] (Some sent) (fst s, e2)))"

lemma gdemo_active: "is_active gdemo_table 5 x"
  by (simp add: gdemo_table_def enable_dialog_def is_active_def)

text \<open>The second of two replies is in flight, the first is answered by the server as message 11.\<close>

definition gdemo_second :: gw_engine where
  "gdemo_second = snd (dispatch_reply 20 (gdemo_msg 2) (Some [79, 75]) gdemo_table
     (snd (process_incoming 20 (gdemo_msg 2) gdemo_table (snd (answer 1 11 (gdemo_table, gdemo_engine))))))"

lemma gdemo_second_state:
  "ge_sending gdemo_second = [(5, [])]" "ge_own gdemo_second = [((5, 11), True)]" "ge_pause_sec gdemo_second = 86400"
  by (simp_all add: gdemo_second_def answer_def process_incoming_def dispatch_reply_def finish_send_def remember_own_def
      Let_def gdemo_engine_def gdemo_msg_def gdemo_active over_rate_limit_def put_window_def od_touch_def od_move_to_end_def
      od_pop_def live_window_def strip_by_def rstrip_by_def lstrip_by_def space_cp_def ghost_window_sec_def)

theorem late_echo_pauses_witness:
  "\<not> is_active (fst (snd (finish_send 21 (gdemo_msg 2) [79, 75] (Some 12) (on_outgoing 20 (gdemo_echo 11) (gdemo_table, gdemo_second))))) 5 100"
  using late_echo_pauses [of "gdemo_msg 2" "gdemo_echo 11" gdemo_second "[]" 12 gdemo_table 21 100 "[79, 75]" 20]
  by (simp add: gdemo_second_state gdemo_active gdemo_echo_def gdemo_msg_def)

theorem human_takeover_witness:
  "\<not> is_active (fst (on_outgoing 20 (gdemo_echo 99) (gdemo_table, gdemo_engine))) 5 100"
  using human_takeover [of "gdemo_echo 99" 20 gdemo_table gdemo_engine]
  by (simp add: gdemo_engine_def gdemo_echo_def gdemo_active Let_def)

theorem pause_all_stops_witness:
  "\<not> is_active (gu_table (gw_init (pause_all gdemo_table) gdemo_engine)) 5 (gu_now (gw_init (pause_all gdemo_table) gdemo_engine))"
  using pause_all_stops [of "gw_init (pause_all gdemo_table) gdemo_engine" gdemo_table "{5}"
      "gw_init (pause_all gdemo_table) gdemo_engine"]
  by (simp add: gw_init_def pause_forever_def)

theorem ghost_rate_capped_witness:
  "int (length (filter (\<lambda>(k, s). k = 5 \<and> 0 \<le> s \<and> s \<le> 0 + 3600)
     (gu_slots ((gw_init gdemo_table gdemo_engine)\<lparr>gu_engine := snd (process_incoming 10 (gdemo_msg 1) gdemo_table (gdemo_engine\<lparr>ge_rate := []\<rparr>)),
        gu_now := 10, gu_pc := GDrafting (gdemo_msg 1), gu_slots := [(5, 10)]\<rparr>)))) \<le> 6"
proof -
  have "fst (process_incoming 10 (gdemo_msg 1) gdemo_table (gdemo_engine\<lparr>ge_rate := []\<rparr>))"
    by (simp add: process_incoming_def gdemo_active gdemo_msg_def over_rate_limit_def Let_def gdemo_engine_def live_window_def)
  then have "gw_step {5} {} (gw_init gdemo_table gdemo_engine) ((gw_init gdemo_table gdemo_engine)\<lparr>gu_engine := snd (process_incoming 10 (gdemo_msg 1) gdemo_table (gdemo_engine\<lparr>ge_rate := []\<rparr>)),
        gu_now := 10, gu_pc := GDrafting (gdemo_msg 1), gu_slots := [(5, 10)]\<rparr>)"
    using gw_incoming [of "gw_init gdemo_table gdemo_engine" "gdemo_msg 1" "{5}" 10 True
        "snd (process_incoming 10 (gdemo_msg 1) gdemo_table (gdemo_engine\<lparr>ge_rate := []\<rparr>))" "{}"]
    by (auto simp: gw_init_def gdemo_msg_def prod_eq_iff)
  then show ?thesis
    using ghost_rate_capped [of "{5}" "{}" gdemo_table gdemo_engine _ 5 0, OF r_into_rtranclp] by (simp add: gdemo_engine_def)
qed

end
