(* ===== verification/Send_Tokens.thy ===== *)
theory Send_Tokens
  imports Message_Store
begin

text \<open>
  \<open>src/tg_messenger/agent/outbound_coordinator.py\<close>: preparing translation variants, the store
  of one-use tokens, and the sending of a chosen variant cut at its await, in any interleaving
  of clients. The translator, the network send and the fresh token of \<open>secrets\<close> are arguments.
\<close>

section \<open>Tokens\<close>

record token_entry =
  te_dialog :: int
  te_owner :: string
  te_source :: utext
  te_variants :: "utext list"
  te_expires :: instant
  te_sending :: bool

type_synonym tokens = "(string, token_entry) odict"

datatype outbound_error = SelectionExpired | InProgress | WrongDialog | WrongOwner | NotAVariant

record coordinator =
  co_has_outbound :: bool
  co_ttl :: instant
  co_max :: nat
  co_tokens :: tokens

text \<open>The eviction loop of \<open>_prune\<close>: the oldest token that is not being sent, while over the limit.\<close>

fun first_idle :: "tokens \<Rightarrow> string option" where
  "first_idle [] = None"
| "first_idle ((k, e) # d) = (if te_sending e then first_idle d else Some k)"

lemma first_idle_key: "first_idle d = Some k \<Longrightarrow> k \<in> fst ` set d"
  by (induction d rule: first_idle.induct) (auto split: if_splits)

lemma pop_shorter: "k \<in> fst ` set d \<Longrightarrow> length (od_pop k d) < length d"
  unfolding od_pop_def by (metis (mono_tags, lifting) imageE length_filter_less)

function evict_tokens :: "nat \<Rightarrow> tokens \<Rightarrow> tokens" where
  "evict_tokens cap d =
     (if cap < length d then (case first_idle d of None \<Rightarrow> d | Some k \<Rightarrow> evict_tokens cap (od_pop k d)) else d)"
  by pat_completeness auto
termination
  by (relation "measure (\<lambda>(cap, d). length d)") (simp_all add: first_idle_key pop_shorter)

declare evict_tokens.simps [simp del]

definition prune_tokens :: "nat \<Rightarrow> instant \<Rightarrow> tokens \<Rightarrow> tokens" where
  "prune_tokens cap now d = evict_tokens cap (filter (\<lambda>p. \<not> (te_expires (snd p) \<le> now \<and> \<not> te_sending (snd p))) d)"

definition remember_token :: "string \<Rightarrow> instant \<Rightarrow> int \<Rightarrow> string \<Rightarrow> utext \<Rightarrow> utext list \<Rightarrow> coordinator \<Rightarrow> coordinator" where
  "remember_token token now dialog_id owner_id source_text variants c =
     (let d1 = prune_tokens (co_max c) now (co_tokens c);
          entry = \<lparr>te_dialog = dialog_id, te_owner = owner_id, te_source = source_text, te_variants = variants,
                   te_expires = now + co_ttl c, te_sending = False\<rparr>;
          d2 = od_move_to_end token (od_set token entry d1)
      in c\<lparr>co_tokens := prune_tokens (co_max c) now d2\<rparr>)"

definition mark_sending :: "instant \<Rightarrow> string \<Rightarrow> int \<Rightarrow> string \<Rightarrow> utext \<Rightarrow> coordinator
    \<Rightarrow> (outbound_error, token_entry) result \<times> coordinator" where
  "mark_sending now token dialog_id owner_id variant_text c =
     (case od_get (co_tokens c) token of
        None \<Rightarrow> (Inl SelectionExpired, c)
      | Some entry \<Rightarrow>
          if te_expires entry \<le> now then (Inl SelectionExpired, c\<lparr>co_tokens := od_pop token (co_tokens c)\<rparr>)
          else if te_sending entry then (Inl InProgress, c)
          else if te_dialog entry \<noteq> dialog_id then (Inl WrongDialog, c)
          else if te_owner entry \<noteq> owner_id then (Inl WrongOwner, c)
          else if variant_text \<notin> set (te_variants entry) then (Inl NotAVariant, c)
          else (let e = entry\<lparr>te_sending := True\<rparr> in (Inr e, c\<lparr>co_tokens := od_set token e (co_tokens c)\<rparr>)))"

definition consume_token :: "string \<Rightarrow> coordinator \<Rightarrow> coordinator" where
  "consume_token token c = c\<lparr>co_tokens := od_pop token (co_tokens c)\<rparr>"

definition restore_token :: "string \<Rightarrow> coordinator \<Rightarrow> coordinator" where
  "restore_token token c =
     (case od_get (co_tokens c) token of
        None \<Rightarrow> c | Some e \<Rightarrow> c\<lparr>co_tokens := od_set token (e\<lparr>te_sending := False\<rparr>) (co_tokens c)\<rparr>)"

section \<open>Preparing\<close>

datatype prepare_answer = PrepTimeout | PrepRaised | Prepared "string option" "utext list"
datatype prepare_status = Disabled | InvalidEmpty | NotApplicable | Ready | PrepError

record prepare_result =
  pr_status :: prepare_status
  pr_target_lang :: "string option"
  pr_variants :: "utext list"
  pr_token :: "string option"
  pr_error :: "string option"

definition status_only :: "prepare_status \<Rightarrow> string option \<Rightarrow> prepare_result" where
  "status_only st err = \<lparr>pr_status = st, pr_target_lang = None, pr_variants = [], pr_token = None, pr_error = err\<rparr>"

definition prepare :: "prepare_answer \<Rightarrow> string \<Rightarrow> instant \<Rightarrow> int \<Rightarrow> utext \<Rightarrow> string \<Rightarrow> coordinator \<Rightarrow> prepare_result \<times> coordinator" where
  "prepare answer token now dialog_id draft_text owner_id c =
     (if ustrip draft_text = [] then (status_only InvalidEmpty None, c)
      else if \<not> co_has_outbound c then (status_only Disabled None, c)
      else (case answer of
              PrepTimeout \<Rightarrow> (status_only PrepError (Some ''Translation timed out.''), c)
            | PrepRaised \<Rightarrow> (status_only PrepError (Some ''Translation failed.''), c)
            | Prepared target_lang variants \<Rightarrow>
                if target_lang = None then (status_only NotApplicable None, c)
                else (\<lparr>pr_status = Ready, pr_target_lang = target_lang, pr_variants = variants, pr_token = Some token, pr_error = None\<rparr>,
                      remember_token token now dialog_id owner_id draft_text variants c)))"

section \<open>Recording the source\<close>

text \<open>\<open>_record_source\<close>: \<open>user_lang\<close> is the answer of \<open>get_user_lang\<close> (Inl: it raised),
  \<open>writes\<close> whether the store's write goes through.\<close>

definition record_source :: "bool \<Rightarrow> (unit, string option) result \<Rightarrow> bool \<Rightarrow> instant \<Rightarrow> int \<Rightarrow> message \<Rightarrow> utext \<Rightarrow> msg_store
    \<Rightarrow> message \<times> msg_store" where
  "record_source has_store user_lang writes now dialog_id m source_text st =
     (if source_text = [] \<or> \<not> has_store then (m, st)
      else (case user_lang of
              Inr (Some lang) \<Rightarrow>
                if lang = [] \<or> \<not> writes then (m, st)
                else (m\<lparr>ms_translated_text := Some source_text\<rparr>, record_outgoing now dialog_id m source_text lang st)
            | _ \<Rightarrow> (m, st)))"

section \<open>Clients in any interleaving\<close>

text \<open>What one call of \<open>send_variant\<close> waits for, and the history: tokens issued with their
  entries, and the messages the network accepted.\<close>

datatype send_task = NoSend | SendingVariant string int utext

record coord_run =
  cu_coord :: coordinator
  cu_task :: "nat \<Rightarrow> send_task"
  cu_issued :: "(string \<times> token_entry) list"
  cu_delivered :: "(string \<times> int \<times> utext) list"

inductive coord_step :: "coord_run \<Rightarrow> coord_run \<Rightarrow> bool" where
  co_prepare: "token \<notin> fst ` set (cu_issued r) \<Longrightarrow>
    prepare answer token now dialog_id draft owner (cu_coord r) = (res, c) \<Longrightarrow>
    coord_step r (r\<lparr>cu_coord := c, cu_issued := cu_issued r @ (if pr_token res = None then []
       else [(token, \<lparr>te_dialog = dialog_id, te_owner = owner, te_source = draft, te_variants = pr_variants res,
                      te_expires = now + co_ttl (cu_coord r), te_sending = False\<rparr>)])\<rparr>)"
| co_refuse: "cu_task r i = NoSend \<Longrightarrow>
    mark_sending now token dialog_id owner body (cu_coord r) = (Inl err, c) \<Longrightarrow>
    coord_step r (r\<lparr>cu_coord := c\<rparr>)"
| co_mark: "cu_task r i = NoSend \<Longrightarrow>
    mark_sending now token dialog_id owner body (cu_coord r) = (Inr e, c) \<Longrightarrow>
    coord_step r (r\<lparr>cu_coord := c, cu_task := (cu_task r)(i := SendingVariant token dialog_id body)\<rparr>)"
| co_fail: "cu_task r i = SendingVariant token dialog_id body \<Longrightarrow>
    coord_step r (r\<lparr>cu_coord := restore_token token (cu_coord r), cu_task := (cu_task r)(i := NoSend)\<rparr>)"
| co_sent: "cu_task r i = SendingVariant token dialog_id body \<Longrightarrow>
    coord_step r (r\<lparr>cu_coord := consume_token token (cu_coord r), cu_task := (cu_task r)(i := NoSend),
      cu_delivered := cu_delivered r @ [(token, dialog_id, body)]\<rparr>)"

inductive_cases coord_stepE: "coord_step r s"

section \<open>Pruning never drops a token in flight\<close>

lemma evict_sub: "od_wf d \<Longrightarrow> od_wf (evict_tokens cap d) \<and> set (evict_tokens cap d) \<subseteq> set d"
proof (induction cap d rule: evict_tokens.induct)
  case (1 cap d)
  show ?case
  proof (cases "cap < length d \<and> first_idle d \<noteq> None")
    case True
    then obtain k where k: "first_idle d = Some k" by auto
    have "od_wf (evict_tokens cap (od_pop k d)) \<and> set (evict_tokens cap (od_pop k d)) \<subseteq> set (od_pop k d)"
      using "1.IH" [of k] True k "1.prems" by (simp add: od_inv)
    then show ?thesis using True k by (subst (1 2) evict_tokens.simps) (auto simp: od_pop_def)
  next
    case False
    then show ?thesis using "1.prems" by (subst (1 2) evict_tokens.simps) (auto split: option.split)
  qed
qed

lemma first_idle_not_sending: "od_wf d \<Longrightarrow> first_idle d = Some k \<Longrightarrow> od_get d k = Some e \<Longrightarrow> \<not> te_sending e"
  by (induction d rule: first_idle.induct) (auto simp: od_wf_def image_iff dest: first_idle_key split: if_splits)

lemma evict_keeps: "od_wf d \<Longrightarrow> od_get d k = Some e \<Longrightarrow> te_sending e \<Longrightarrow> od_get (evict_tokens cap d) k = Some e"
proof (induction cap d rule: evict_tokens.induct)
  case (1 cap d)
  show ?case
  proof (cases "cap < length d \<and> first_idle d \<noteq> None")
    case True
    then obtain j where j: "first_idle d = Some j" by auto
    have "j \<noteq> k" using first_idle_not_sending [OF "1.prems"(1) j] "1.prems" by auto
    then have "od_get (evict_tokens cap (od_pop j d)) k = Some e"
      using "1.IH" [of j] True j "1.prems" by (simp add: od_inv od_simps)
    then show ?thesis using True j by (subst evict_tokens.simps) simp
  next
    case False
    then show ?thesis using "1.prems" by (subst evict_tokens.simps) (auto split: option.split)
  qed
qed

lemma evict_bound: "length (evict_tokens cap d) \<le> cap \<or> first_idle (evict_tokens cap d) = None"
proof (induction cap d rule: evict_tokens.induct)
  case (1 cap d)
  then show ?case by (subst (1 2) evict_tokens.simps) (auto split: option.split)
qed

lemma wf_filter: "od_wf d \<Longrightarrow> od_wf (filter P d)"
  by (simp add: od_wf_def distinct_map_filter)

lemma prune_get_sub: "od_wf d \<Longrightarrow> od_get (prune_tokens cap now d) k = Some e \<Longrightarrow> od_get d k = Some e"
proof -
  assume d: "od_wf d" and g: "od_get (prune_tokens cap now d) k = Some e"
  have "set (prune_tokens cap now d) \<subseteq> set d"
    using evict_sub [OF wf_filter [OF d]] unfolding prune_tokens_def by (meson filter_is_subset order_trans)
  then show ?thesis using od_get_subset [OF d] g by blast
qed

lemma prune_keeps: "od_wf d \<Longrightarrow> od_get d k = Some e \<Longrightarrow> te_sending e \<Longrightarrow> od_get (prune_tokens cap now d) k = Some e"
  unfolding prune_tokens_def
  by (rule evict_keeps [OF wf_filter]) (auto simp: od_wf_def map_of_eq_Some_iff distinct_map_filter dest: map_of_SomeD)

lemma prune_wf: "od_wf d \<Longrightarrow> od_wf (prune_tokens cap now d)"
  unfolding prune_tokens_def using evict_sub [OF wf_filter] by blast

section \<open>The token invariant\<close>

definition same_entry :: "token_entry \<Rightarrow> token_entry \<Rightarrow> bool" where
  "same_entry e f \<longleftrightarrow> e\<lparr>te_sending := False\<rparr> = f\<lparr>te_sending := False\<rparr>"

lemma same_entry_fields:
  "same_entry e f \<Longrightarrow> te_dialog e = te_dialog f \<and> te_variants e = te_variants f \<and> te_expires e = te_expires f \<and> te_owner e = te_owner f"
  by (cases e; cases f) (simp add: same_entry_def)

text \<open>One token: its issue, the entry stored, the calls sending it and the deliveries made.\<close>

definition token_ok :: "coord_run \<Rightarrow> string \<Rightarrow> bool" where
  "token_ok r k \<longleftrightarrow>
     (\<forall>e. od_get (co_tokens (cu_coord r)) k = Some e \<longrightarrow> (\<exists>f. (k, f) \<in> set (cu_issued r) \<and> same_entry e f))
     \<and> (\<forall>i d x. cu_task r i = SendingVariant k d x \<longrightarrow>
          (\<exists>f. (k, f) \<in> set (cu_issued r) \<and> te_dialog f = d \<and> x \<in> set (te_variants f))
          \<and> (\<forall>e. od_get (co_tokens (cu_coord r)) k = Some e \<longrightarrow> te_sending e)
          \<and> k \<notin> fst ` set (cu_delivered r)
          \<and> (\<forall>j d' x'. cu_task r j = SendingVariant k d' x' \<longrightarrow> j = i))
     \<and> (k \<in> fst ` set (cu_delivered r) \<longrightarrow> od_get (co_tokens (cu_coord r)) k = None \<and> k \<in> fst ` set (cu_issued r))"

definition delivered_ok :: "coord_run \<Rightarrow> bool" where
  "delivered_ok r \<longleftrightarrow> distinct (map fst (cu_delivered r)) \<and>
     (\<forall>(k, d, x)\<in>set (cu_delivered r). \<exists>f. (k, f) \<in> set (cu_issued r) \<and> te_dialog f = d \<and> x \<in> set (te_variants f))"

definition coord_inv :: "coord_run \<Rightarrow> bool" where
  "coord_inv r \<longleftrightarrow> od_wf (co_tokens (cu_coord r)) \<and> distinct (map fst (cu_issued r)) \<and> (\<forall>k. token_ok r k) \<and> delivered_ok r"

lemma mark_sending_cases:
  obtains (missing) "od_get (co_tokens c) token = None" "mark_sending now token d own x c = (Inl SelectionExpired, c)"
  | (expired) e where "od_get (co_tokens c) token = Some e" "te_expires e \<le> now"
      "mark_sending now token d own x c = (Inl SelectionExpired, consume_token token c)"
  | (refused) e err where "od_get (co_tokens c) token = Some e" "now < te_expires e"
      "te_sending e \<or> te_dialog e \<noteq> d \<or> te_owner e \<noteq> own \<or> x \<notin> set (te_variants e)"
      "mark_sending now token d own x c = (Inl err, c)"
  | (marked) e where "od_get (co_tokens c) token = Some e" "now < te_expires e" "\<not> te_sending e" "te_dialog e = d"
      "te_owner e = own" "x \<in> set (te_variants e)"
      "mark_sending now token d own x c =
        (Inr (e\<lparr>te_sending := True\<rparr>), c\<lparr>co_tokens := od_set token (e\<lparr>te_sending := True\<rparr>) (co_tokens c)\<rparr>)"
proof (cases "od_get (co_tokens c) token")
  case None
  then show thesis by (intro missing) (simp_all add: mark_sending_def)
next
  case (Some e)
  show thesis
  proof (cases "te_expires e \<le> now")
    case True
    then show thesis using Some by (intro expired) (simp_all add: mark_sending_def consume_token_def)
  next
    case False
    consider "te_sending e" | "\<not> te_sending e" "te_dialog e \<noteq> d" | "\<not> te_sending e" "te_dialog e = d" "te_owner e \<noteq> own"
      | "\<not> te_sending e" "te_dialog e = d" "te_owner e = own" "x \<notin> set (te_variants e)"
      | "\<not> te_sending e" "te_dialog e = d" "te_owner e = own" "x \<in> set (te_variants e)" by blast
    then show thesis
    proof cases
      case 5
      then show thesis using Some False by (intro marked) (simp_all add: mark_sending_def Let_def)
    qed (rule refused [of e], use Some False in \<open>simp_all add: mark_sending_def\<close>)+
  qed
qed

text \<open>What each operation does to the tokens.\<close>

definition new_entry :: "instant \<Rightarrow> int \<Rightarrow> string \<Rightarrow> utext \<Rightarrow> utext list \<Rightarrow> coordinator \<Rightarrow> token_entry" where
  "new_entry now d own src vs c =
     \<lparr>te_dialog = d, te_owner = own, te_source = src, te_variants = vs, te_expires = now + co_ttl c, te_sending = False\<rparr>"

lemma remember_effect:
  assumes wf: "od_wf (co_tokens c)"
  shows "od_wf (co_tokens (remember_token tok now d own src vs c))"
    and "od_get (co_tokens (remember_token tok now d own src vs c)) k = Some e \<Longrightarrow>
      (if k = tok then e = new_entry now d own src vs c else od_get (co_tokens c) k = Some e)"
    and "k \<noteq> tok \<Longrightarrow> od_get (co_tokens c) k = Some e \<Longrightarrow> te_sending e \<Longrightarrow>
      od_get (co_tokens (remember_token tok now d own src vs c)) k = Some e"
proof -
  let ?d1 = "prune_tokens (co_max c) now (co_tokens c)"
  let ?d2 = "od_move_to_end tok (od_set tok (new_entry now d own src vs c) ?d1)"
  have r: "co_tokens (remember_token tok now d own src vs c) = prune_tokens (co_max c) now ?d2"
    by (simp add: remember_token_def Let_def new_entry_def)
  have w1: "od_wf ?d1" using wf by (rule prune_wf)
  have w2: "od_wf ?d2" using w1 by (simp add: od_inv)
  show "od_wf (co_tokens (remember_token tok now d own src vs c))" unfolding r using w2 by (rule prune_wf)
  show "od_get (co_tokens (remember_token tok now d own src vs c)) k = Some e \<Longrightarrow>
      (if k = tok then e = new_entry now d own src vs c else od_get (co_tokens c) k = Some e)"
    unfolding r using prune_get_sub [OF w2, of "co_max c" now k e] prune_get_sub [OF wf, of "co_max c" now k e]
    by (auto simp: od_simps)
  show "k \<noteq> tok \<Longrightarrow> od_get (co_tokens c) k = Some e \<Longrightarrow> te_sending e \<Longrightarrow>
      od_get (co_tokens (remember_token tok now d own src vs c)) k = Some e"
    unfolding r using prune_keeps [OF wf, of k e "co_max c" now] by (intro prune_keeps [OF w2]) (simp_all add: od_simps)
qed

lemma prepare_cases:
  obtains (none) st err where "prepare answer tok now d draft own c = (status_only st err, c)"
  | (ready) lang vs where "answer = Prepared (Some lang) vs" "ustrip draft \<noteq> []" "co_has_outbound c"
      "prepare answer tok now d draft own c =
         (\<lparr>pr_status = Ready, pr_target_lang = Some lang, pr_variants = vs, pr_token = Some tok, pr_error = None\<rparr>,
          remember_token tok now d own draft vs c)"
proof (cases "ustrip draft = [] \<or> \<not> co_has_outbound c")
  case True
  then show thesis
    by (intro none [of "if ustrip draft = [] then InvalidEmpty else Disabled" None]) (auto simp: prepare_def)
next
  case False
  show thesis
  proof (cases answer)
    case (Prepared lang vs)
    show thesis
    proof (cases lang)
      case None
      then show thesis using False Prepared by (intro none [of NotApplicable None]) (simp add: prepare_def)
    next
      case (Some l)
      then show thesis using False Prepared by (intro ready [of l vs]) (simp_all add: prepare_def)
    qed
  next
    case PrepTimeout
    then show thesis using False by (intro none [of PrepError "Some ''Translation timed out.''"]) (simp add: prepare_def)
  next
    case PrepRaised
    then show thesis using False by (intro none [of PrepError "Some ''Translation failed.''"]) (simp add: prepare_def)
  qed
qed

lemma token_ok_transfer:
  assumes ok: "token_ok r k"
    and tok: "\<And>e. od_get (co_tokens (cu_coord s)) k = Some e \<Longrightarrow> od_get (co_tokens (cu_coord r)) k = Some e"
    and "cu_task s = cu_task r" "cu_delivered s = cu_delivered r" "set (cu_issued r) \<subseteq> set (cu_issued s)"
  shows "token_ok s k"
proof -
  have "od_get (co_tokens (cu_coord r)) k = None \<Longrightarrow> od_get (co_tokens (cu_coord s)) k = None"
    using tok by (cases "od_get (co_tokens (cu_coord s)) k") auto
  moreover have "(k, f) \<in> set (cu_issued r) \<Longrightarrow> (k, f) \<in> set (cu_issued s)" for f using assms(5) by blast
  moreover have "k \<in> fst ` set (cu_issued r) \<Longrightarrow> k \<in> fst ` set (cu_issued s)" using assms(5) by blast
  ultimately show ?thesis using ok tok unfolding token_ok_def assms(3,4) by meson
qed

lemma issued_once: "distinct (map fst xs) \<Longrightarrow> (k, f) \<in> set xs \<Longrightarrow> (k, g) \<in> set xs \<Longrightarrow> f = g"
  by (metis map_of_eq_Some_iff option.inject)

lemma inv_prepare:
  assumes inv: "coord_inv r" and new: "token \<notin> fst ` set (cu_issued r)"
    and p: "prepare answer token now d draft own (cu_coord r) = (res, c)"
  shows "coord_inv (r\<lparr>cu_coord := c, cu_issued := cu_issued r @ (if pr_token res = None then []
       else [(token, new_entry now d own draft (pr_variants res) (cu_coord r))])\<rparr>)" (is "coord_inv ?s")
proof (cases rule: prepare_cases [of answer token now d draft own "cu_coord r"])
  case (none st err)
  then have "?s = r" using p by (simp add: status_only_def)
  then show ?thesis using inv by simp
next
  case (ready lang vs)
  have res: "pr_token res = Some token" "pr_variants res = vs" and c: "c = remember_token token now d own draft vs (cu_coord r)"
    using p ready(4) by auto
  have wf: "od_wf (co_tokens (cu_coord r))" and di: "distinct (map fst (cu_issued r))"
    and tk: "\<And>k. token_ok r k" and dl: "delivered_ok r" using inv by (auto simp: coord_inv_def)
  note eff = remember_effect [OF wf, where tok = token and now = now and d = d and own = own and src = draft and vs = vs]
  have "token_ok ?s k" for k
  proof (cases "k = token")
    case True
    have "od_get (co_tokens c) token = Some e \<Longrightarrow> e = new_entry now d own draft vs (cu_coord r)" for e
      using eff(2) [where k = token and e = e] by (simp add: c)
    moreover have "cu_task r i \<noteq> SendingVariant token d' x" for i d' x
    proof
      assume "cu_task r i = SendingVariant token d' x"
      then obtain f where "(token, f) \<in> set (cu_issued r)" using tk [of token] unfolding token_ok_def by meson
      then show False using new by (metis fst_conv image_eqI)
    qed
    moreover have "token \<notin> fst ` set (cu_delivered r)" using tk [of token] new unfolding token_ok_def by blast
    ultimately show ?thesis by (auto simp: token_ok_def True res same_entry_def)
  next
    case False
    then show ?thesis using eff(2) [where k = k] by (intro token_ok_transfer [OF tk]) (auto simp: c)
  qed
  moreover have "delivered_ok ?s" using dl unfolding delivered_ok_def by simp blast
  ultimately show ?thesis using eff(1) di new by (simp add: coord_inv_def c res)
qed

text \<open>Steps on one token leave the others alone.\<close>

lemma token_ok_other:
  assumes "token_ok r k"
    and "od_get (co_tokens (cu_coord s)) k = od_get (co_tokens (cu_coord r)) k"
    and "\<And>i d x. cu_task s i = SendingVariant k d x \<longleftrightarrow> cu_task r i = SendingVariant k d x"
    and "k \<in> fst ` set (cu_delivered s) \<longleftrightarrow> k \<in> fst ` set (cu_delivered r)" and "cu_issued s = cu_issued r"
  shows "token_ok s k"
  using assms unfolding token_ok_def by simp

lemma coord_step_inv:
  assumes inv: "coord_inv r" and "coord_step r s"
  shows "coord_inv s"
proof -
  have wf: "od_wf (co_tokens (cu_coord r))" and di: "distinct (map fst (cu_issued r))"
    and tk: "\<And>k. token_ok r k" and dl: "delivered_ok r" using inv by (auto simp: coord_inv_def)
  from assms(2) show ?thesis
  proof cases
    case (co_prepare token answer now d draft own res c)
    show ?thesis
      unfolding co_prepare(1) using inv_prepare [OF inv co_prepare(2) co_prepare(3)] unfolding new_entry_def by assumption
  next
    case (co_refuse i now token d own body err c)
    have sub: "od_get (co_tokens c) k = Some e \<Longrightarrow> od_get (co_tokens (cu_coord r)) k = Some e" for k e
      using co_refuse(3)
      by (cases rule: mark_sending_cases [of "cu_coord r" token now d own body])
        (auto simp: consume_token_def od_simps split: if_splits)
    have "od_wf (co_tokens c)" using co_refuse(3) wf
      by (cases rule: mark_sending_cases [of "cu_coord r" token now d own body]) (auto simp: consume_token_def od_inv)
    moreover have "token_ok s k" for k using sub co_refuse by (intro token_ok_transfer [OF tk]) auto
    ultimately show ?thesis using co_refuse di dl by (simp add: coord_inv_def delivered_ok_def)
  next
    case (co_mark i now token d own body e c)
    obtain e0 where e0: "od_get (co_tokens (cu_coord r)) token = Some e0" "\<not> te_sending e0" "te_dialog e0 = d"
      "body \<in> set (te_variants e0)" and c: "co_tokens c = od_set token (e0\<lparr>te_sending := True\<rparr>) (co_tokens (cu_coord r))"
      using co_mark(3) by (cases rule: mark_sending_cases [of "cu_coord r" token now d own body]) auto
    obtain f where f: "(token, f) \<in> set (cu_issued r)" "same_entry e0 f" using tk [of token] e0 by (auto simp: token_ok_def)
    have none: "cu_task r j \<noteq> SendingVariant token d' x" for j d' x
      using tk [of token] e0 unfolding token_ok_def by metis
    have nd: "token \<notin> fst ` set (cu_delivered r)" using tk [of token] e0 unfolding token_ok_def by auto
    have "token_ok s k" for k
    proof (cases "k = token")
      case True
      then show ?thesis using f e0 none nd same_entry_fields [OF f(2)]
        by (auto simp: token_ok_def co_mark c od_simps same_entry_def)
    next
      case False
      then show ?thesis using co_mark by (intro token_ok_other [OF tk]) (auto simp: c od_simps)
    qed
    then show ?thesis using co_mark di dl wf by (simp add: coord_inv_def delivered_ok_def c od_inv)
  next
    case (co_fail i token d body)
    have g: "od_get (co_tokens (restore_token token (cu_coord r))) k =
        (if k = token then map_option (\<lambda>e. e\<lparr>te_sending := False\<rparr>) (od_get (co_tokens (cu_coord r)) k)
         else od_get (co_tokens (cu_coord r)) k)" for k
      by (auto simp: restore_token_def od_simps split: option.split)
    have "token_ok s k" for k
    proof (cases "k = token")
      case True
      have "cu_task s j \<noteq> SendingVariant token d' x" for j d' x
        using tk [of token] co_fail unfolding token_ok_def by (auto split: if_splits)
      then show ?thesis using tk [of token] co_fail(1) by (auto simp: token_ok_def True g same_entry_def)
    next
      case False
      then show ?thesis using co_fail by (intro token_ok_other [OF tk]) (auto simp: g)
    qed
    moreover have "od_wf (co_tokens (restore_token token (cu_coord r)))"
      using wf by (simp add: restore_token_def od_inv split: option.split)
    ultimately show ?thesis using co_fail di dl by (simp add: coord_inv_def delivered_ok_def)
  next
    case (co_sent i token d body)
    obtain f where f: "(token, f) \<in> set (cu_issued r)" "te_dialog f = d" "body \<in> set (te_variants f)"
      and nd: "token \<notin> fst ` set (cu_delivered r)" using tk [of token] co_sent(2) unfolding token_ok_def by blast
    have "token_ok s k" for k
    proof (cases "k = token")
      case True
      have "cu_task s j \<noteq> SendingVariant token d' x" for j d' x
        using tk [of token] co_sent unfolding token_ok_def by (auto split: if_splits)
      then show ?thesis using f co_sent(1) by (force simp: token_ok_def True consume_token_def od_simps)
    next
      case False
      then show ?thesis using co_sent by (intro token_ok_other [OF tk]) (auto simp: consume_token_def od_simps)
    qed
    moreover have "delivered_ok s" using dl f nd co_sent(1) by (auto simp: delivered_ok_def)
    ultimately show ?thesis using co_sent wf di by (simp add: coord_inv_def consume_token_def od_inv)
  qed
qed

interpretation coordination: inv_system coord_step coord_inv
  by unfold_locales (rule coord_step_inv)

definition coord_init :: "coordinator \<Rightarrow> coord_run" where
  "coord_init c = \<lparr>cu_coord = c\<lparr>co_tokens := []\<rparr>, cu_task = (\<lambda>_. NoSend), cu_issued = [], cu_delivered = []\<rparr>"

lemma coord_init_inv: "coord_inv (coord_init c)"
  by (simp add: coord_inv_def coord_init_def token_ok_def delivered_ok_def)

lemma reachable_coord: "coord_step\<^sup>*\<^sup>* (coord_init c) r \<Longrightarrow> coord_inv r"
  by (rule coordination.reach_keeps [OF _ coord_init_inv])

text \<open>
  C13: A prepared token sends at most once: in every interleaving of clients preparing, marking,
  failing and retrying, no token is delivered twice and no two calls send it at the same time;
  and what is delivered is one of the variants offered for that token, to the dialog it was
  issued for.
\<close>

theorem one_send_per_token:
  assumes "coord_step\<^sup>*\<^sup>* (coord_init c) r"
  shows "distinct (map fst (cu_delivered r))
    \<and> (\<forall>k d x. (k, d, x) \<in> set (cu_delivered r) \<longrightarrow>
         (\<exists>e. (k, e) \<in> set (cu_issued r) \<and> te_dialog e = d \<and> x \<in> set (te_variants e)))
    \<and> (\<forall>i j k d x d' x'. cu_task r i = SendingVariant k d x \<longrightarrow> cu_task r j = SendingVariant k d' x' \<longrightarrow>
         i = j \<and> k \<notin> fst ` set (cu_delivered r))"
proof (intro conjI allI impI)
  note inv = reachable_coord [OF assms]
  show "distinct (map fst (cu_delivered r))" using inv by (simp add: coord_inv_def delivered_ok_def)
  show "\<exists>e. (k, e) \<in> set (cu_issued r) \<and> te_dialog e = d \<and> x \<in> set (te_variants e)"
    if "(k, d, x) \<in> set (cu_delivered r)" for k d x
    using inv that by (fastforce simp: coord_inv_def delivered_ok_def)
  fix i j k d x d' x' assume "cu_task r i = SendingVariant k d x" "cu_task r j = SendingVariant k d' x'"
  moreover have "token_ok r k" using inv by (simp add: coord_inv_def)
  ultimately show "i = j" "k \<notin> fst ` set (cu_delivered r)" unfolding token_ok_def by metis+
qed


lemma first_idle_None: "first_idle d = None \<Longrightarrow> \<forall>p\<in>set d. te_sending (snd p)"
  by (induction d rule: first_idle.induct) (auto split: if_splits)

lemma token_store_bounded:
  "length (co_tokens (remember_token tok now d own src vs c)) \<le> co_max c
   \<or> (\<forall>p\<in>set (co_tokens (remember_token tok now d own src vs c)). te_sending (snd p))"
  unfolding remember_token_def Let_def prune_tokens_def
  using evict_bound [of "co_max c"] first_idle_None by (simp del: evict_tokens.simps) blast

section \<open>Recording\<close>

text \<open>The message shown carries the source exactly when the store recorded it under it.\<close>

lemma record_source_shown:
  assumes "ms_translated_text m = None" and "record_source has lang wr now d m src st = (m', st')"
  shows "ms_translated_text m' = Some src \<longleftrightarrow> (\<exists>l. lang = Inr (Some l) \<and> l \<noteq> [] \<and> has \<and> wr \<and> src \<noteq> [] \<and> st' = record_outgoing now d m src l st)"
  using assms by (auto simp: record_source_def split: if_splits sum.splits option.splits)

section \<open>A concrete run\<close>

definition demo_coord :: coordinator where
  "demo_coord = \<lparr>co_has_outbound = True, co_ttl = 300, co_max = 200, co_tokens = []\<rparr>"

definition demo_prepared :: coordinator where
  "demo_prepared = snd (prepare (Prepared (Some ''en'') [[72], [73]]) ''t'' 0 5 [80] ''web'' demo_coord)"

lemma demo_prepared_tokens: "od_get (co_tokens demo_prepared) ''t'' =
    Some \<lparr>te_dialog = 5, te_owner = ''web'', te_source = [80], te_variants = [[72], [73]], te_expires = 300, te_sending = False\<rparr>"
  by (simp add: demo_prepared_def prepare_def demo_coord_def remember_token_def prune_tokens_def evict_tokens.simps
      od_move_to_end_def od_pop_def Let_def strip_by_def rstrip_by_def lstrip_by_def space_cp_def)


theorem one_send_per_token_witness:
  "\<exists>r. coord_step\<^sup>*\<^sup>* (coord_init demo_coord) r \<and> cu_issued r \<noteq> [] \<and> distinct (map fst (cu_delivered r))"
proof -
  obtain res c where p: "prepare (Prepared (Some ''en'') [[72], [73]]) ''t'' 0 5 [80] ''web'' (cu_coord (coord_init demo_coord)) = (res, c)"
    by fastforce
  let ?e = "(''t'', \<lparr>te_dialog = 5, te_owner = ''web'', te_source = [80], te_variants = pr_variants res,
      te_expires = 0 + co_ttl (cu_coord (coord_init demo_coord)), te_sending = False\<rparr>)"
  let ?r = "(coord_init demo_coord)\<lparr>cu_coord := c, cu_issued := cu_issued (coord_init demo_coord) @ (if pr_token res = None then [] else [?e])\<rparr>"
  have "pr_token res = Some ''t''"
    using p by (auto simp: prepare_def coord_init_def demo_coord_def strip_by_def rstrip_by_def lstrip_by_def space_cp_def)
  then have ne: "cu_issued ?r \<noteq> []" by simp
  have s: "coord_step (coord_init demo_coord) ?r"
    by (rule co_prepare [OF _ p]) (simp add: coord_init_def)
  have rt: "coord_step\<^sup>*\<^sup>* (coord_init demo_coord) ?r" using s by (rule r_into_rtranclp)
  have dd: "distinct (map fst (cu_delivered ?r))" using one_send_per_token [OF rt] by (elim conjE)
  show ?thesis by (intro exI [of _ ?r] conjI rt ne dd)
qed

end
