(* ===== verification/Watch.thy ===== *)
theory Watch
  imports Message_Store
begin

text \<open>
  \<open>src/tg_messenger/core/watch.py\<close>: the deletion watcher, its bounded caches, the match of a
  deletion against them and the notices it sends to Saved Messages. The title of a dialog,
  the formatting of a date and which sends raise are arguments.
\<close>

section \<open>The watcher\<close>

record cached_message =
  cm_dialog_id :: int
  cm_message_id :: int
  cm_text :: "utext option"
  cm_date :: instant

record watcher =
  wt_cache_size :: nat
  wt_cache :: "(int \<times> int, cached_message) odict"
  wt_titles :: "(int, utext) odict"
  wt_self_id :: int

definition remember_sent :: "outgoing_event \<Rightarrow> watcher \<Rightarrow> watcher" where
  "remember_sent ev w =
     (if oe_dialog_id ev = wt_self_id w then w
      else (let m = oe_message ev;
                entry = \<lparr>cm_dialog_id = oe_dialog_id ev, cm_message_id = ms_id m, cm_text = ms_text m, cm_date = ms_date m\<rparr>
            in w\<lparr>wt_cache := od_trim (wt_cache_size w) (od_set (oe_dialog_id ev, ms_id m) entry (wt_cache w))\<rparr>))"

text \<open>\<open>_match\<close>: pop the ids one by one, or the non-channel entries with one of the ids.\<close>

fun pop_ids :: "int \<Rightarrow> int list \<Rightarrow> (int \<times> int, cached_message) odict \<Rightarrow> cached_message list \<times> (int \<times> int, cached_message) odict" where
  "pop_ids chat [] d = ([], d)"
| "pop_ids chat (i # ids) d =
     (let (hits, d') = pop_ids chat ids (od_pop (chat, i) d)
      in (case od_get d (chat, i) of None \<Rightarrow> (hits, d') | Some e \<Rightarrow> (e # hits, d')))"

definition chatless_hit :: "int list \<Rightarrow> cached_message \<Rightarrow> bool" where
  "chatless_hit ids e \<longleftrightarrow> cm_message_id e \<in> set ids \<and> \<not> is_channel_or_megagroup_id (cm_dialog_id e)"

definition match_deleted :: "messages_deleted_event \<Rightarrow> watcher \<Rightarrow> cached_message list \<times> watcher" where
  "match_deleted ev w =
     (case de_chat_id ev of
        Some chat \<Rightarrow> (let (hits, d) = pop_ids chat (de_message_ids ev) (wt_cache w) in (hits, w\<lparr>wt_cache := d\<rparr>))
      | None \<Rightarrow> (let ids = de_message_ids ev
                 in (map snd (filter (\<lambda>p. chatless_hit ids (snd p)) (wt_cache w)),
                     w\<lparr>wt_cache := filter (\<lambda>p. \<not> chatless_hit ids (snd p)) (wt_cache w)\<rparr>)))"

definition by_dialog :: "cached_message list \<Rightarrow> (int, cached_message list) odict" where
  "by_dialog es = od_group cm_dialog_id es"

text \<open>\<open>_title\<close>; the answer is missing (a KeyError) only for an empty cache.\<close>

definition dialog_title :: "(int \<Rightarrow> utext option) \<Rightarrow> int \<Rightarrow> watcher \<Rightarrow> utext option \<times> watcher" where
  "dialog_title entity_title d w =
     (let w' = (if d \<in> set (od_keys (wt_titles w)) then w
                else (let t = (case entity_title d of Some t \<Rightarrow> t | None \<Rightarrow> u (str_int d))
                      in w\<lparr>wt_titles := od_trim (wt_cache_size w) (od_set d t (wt_titles w))\<rparr>))
      in (od_get (wt_titles w') d, w'))"

definition entry_line :: "(instant \<Rightarrow> utext) \<Rightarrow> cached_message \<Rightarrow> utext" where
  "entry_line fmt e = u ''['' @ fmt (cm_date e) @ u ''] '' @ or_default (cm_text e) (u ''<media without text>'')"

definition notify_header :: "utext \<Rightarrow> int \<Rightarrow> utext" where
  "notify_header title d = [128465] @ u '' Deleted in '' @ [8220] @ title @ [8221] @ u '' (id '' @ u (str_int d) @ u ''):''"

definition notice_text :: "(instant \<Rightarrow> utext) \<Rightarrow> utext \<Rightarrow> int \<Rightarrow> cached_message list \<Rightarrow> utext" where
  "notice_text fmt title d es = join [10] (notify_header title d # map (entry_line fmt) (sort_key cm_message_id es))"

text \<open>One notice per dialog: the text sent to Saved Messages and whether it got through (the
  echo to the terminal). A missing title ends the loop with the error.\<close>

record notice =
  nt_dialog :: int
  nt_entries :: "cached_message list"
  nt_text :: utext
  nt_sent :: bool

fun send_notices :: "(int \<Rightarrow> utext option) \<Rightarrow> (instant \<Rightarrow> utext) \<Rightarrow> (int \<Rightarrow> bool) \<Rightarrow> (int \<times> cached_message list) list \<Rightarrow> watcher
    \<Rightarrow> notice list \<times> watcher" where
  "send_notices entity_title fmt raises [] w = ([], w)"
| "send_notices entity_title fmt raises ((d, es) # rest) w =
     (case dialog_title entity_title d w of
        (None, w1) \<Rightarrow> ([], w1)
      | (Some title, w1) \<Rightarrow>
          (let n = \<lparr>nt_dialog = d, nt_entries = es, nt_text = notice_text fmt title d es, nt_sent = \<not> raises d\<rparr>;
               (ns, w2) = send_notices entity_title fmt raises rest w1
           in (n # ns, w2)))"

definition handle_deleted :: "(int \<Rightarrow> utext option) \<Rightarrow> (instant \<Rightarrow> utext) \<Rightarrow> (int \<Rightarrow> bool) \<Rightarrow> messages_deleted_event \<Rightarrow> watcher
    \<Rightarrow> notice list \<times> watcher" where
  "handle_deleted entity_title fmt raises ev w =
     (let (matched, w1) = match_deleted ev w
      in if matched = [] then ([], w1) else send_notices entity_title fmt raises (by_dialog matched) w1)"

section \<open>The match\<close>

definition watch_wf :: "watcher \<Rightarrow> bool" where
  "watch_wf w \<longleftrightarrow> od_wf (wt_cache w) \<and> length (wt_cache w) \<le> wt_cache_size w
     \<and> (\<forall>(k, e)\<in>set (wt_cache w). k = (cm_dialog_id e, cm_message_id e) \<and> cm_dialog_id e \<noteq> wt_self_id w)"

definition deletes :: "messages_deleted_event \<Rightarrow> cached_message \<Rightarrow> bool" where
  "deletes ev e \<longleftrightarrow> cm_message_id e \<in> set (de_message_ids ev) \<and>
     (case de_chat_id ev of Some c \<Rightarrow> cm_dialog_id e = c | None \<Rightarrow> \<not> is_channel_or_megagroup_id (cm_dialog_id e))"

lemma remember_wf: "watch_wf w \<Longrightarrow> watch_wf (remember_sent ev w)"
proof -
  assume w: "watch_wf w"
  let ?e = "\<lparr>cm_dialog_id = oe_dialog_id ev, cm_message_id = ms_id (oe_message ev), cm_text = ms_text (oe_message ev), cm_date = ms_date (oe_message ev)\<rparr>"
  let ?d = "od_trim (wt_cache_size w) (od_set (oe_dialog_id ev, ms_id (oe_message ev)) ?e (wt_cache w))"
  have "p \<in> set (od_set k v d) \<Longrightarrow> p = (k, v) \<or> p \<in> set d" for p :: "(int \<times> int) \<times> cached_message" and k v d
    by (induction k v d rule: od_set.induct) (auto split: if_splits)
  then have "p \<in> set ?d \<Longrightarrow> p = ((oe_dialog_id ev, ms_id (oe_message ev)), ?e) \<or> p \<in> set (wt_cache w)" for p
    using od_trim_subset by fastforce
  then have "oe_dialog_id ev \<noteq> wt_self_id w \<Longrightarrow> \<forall>(k, e)\<in>set ?d. k = (cm_dialog_id e, cm_message_id e) \<and> cm_dialog_id e \<noteq> wt_self_id w"
    using w unfolding watch_wf_def by fastforce
  then show ?thesis using w by (simp add: watch_wf_def remember_sent_def Let_def od_inv)
qed

lemma mset_pop:
  "od_wf d \<Longrightarrow> od_get d k = Some e \<Longrightarrow>
    mset (map snd (filter (\<lambda>p. fst p = k \<or> Q p) d)) = add_mset e (mset (map snd (filter Q (od_pop k d))))"
proof (induction d)
  case (Cons p d)
  obtain a b where p: "p = (a, b)" by (cases p)
  show ?case
  proof (cases "a = k")
    case True
    then have k: "k \<notin> set (od_keys d)" using Cons.prems by (auto simp: od_wf_def p)
    have "filter (\<lambda>p. fst p = k \<or> Q p) d = filter Q d" using k by (intro filter_cong) force+
    then show ?thesis using Cons.prems True k od_pop_idle [OF k] by (simp add: p) (simp add: od_pop_def)
  next
    case False
    then have IH: "mset (map snd (filter (\<lambda>p. fst p = k \<or> Q p) d)) = add_mset e (mset (map snd (filter Q (od_pop k d))))"
      using Cons by (auto simp: p od_wf_def)
    have "od_pop k ((a, b) # d) = (a, b) # od_pop k d" using False by (simp add: od_pop_def)
    then show ?thesis using False IH by (simp add: p add_mset_commute)
  qed
qed simp

lemma pop_ids_spec:
  "od_wf d \<Longrightarrow> snd (pop_ids c ids d) = filter (\<lambda>p. \<not> (fst (fst p) = c \<and> snd (fst p) \<in> set ids)) d
     \<and> mset (fst (pop_ids c ids d)) = mset (map snd (filter (\<lambda>p. fst (fst p) = c \<and> snd (fst p) \<in> set ids) d))"
proof (induction ids arbitrary: d)
  case (Cons i ids)
  let ?d = "od_pop (c, i) d"
  have IH: "snd (pop_ids c ids ?d) = filter (\<lambda>p. \<not> (fst (fst p) = c \<and> snd (fst p) \<in> set ids)) ?d"
    "mset (fst (pop_ids c ids ?d)) = mset (map snd (filter (\<lambda>p. fst (fst p) = c \<and> snd (fst p) \<in> set ids) ?d))"
    using Cons.IH [of ?d] Cons.prems by (simp_all add: od_inv)
  have pp: "pop_ids c (i # ids) d = (case od_get d (c, i) of None \<Rightarrow> pop_ids c ids ?d | Some e \<Rightarrow> (e # fst (pop_ids c ids ?d), snd (pop_ids c ids ?d)))"
    by (simp add: Let_def split: option.split prod.split)
  have f: "filter (\<lambda>p. \<not> (fst (fst p) = c \<and> snd (fst p) \<in> set (i # ids))) d =
      filter (\<lambda>p. \<not> (fst (fst p) = c \<and> snd (fst p) \<in> set ids)) ?d"
    by (auto simp: od_pop_def intro!: filter_cong)
  show ?case
  proof (cases "od_get d (c, i)")
    case None
    then have "?d = d" by (intro od_pop_idle) (simp add: map_of_eq_None_iff)
    moreover have "filter (\<lambda>p. fst (fst p) = c \<and> snd (fst p) \<in> set (i # ids)) d = filter (\<lambda>p. fst (fst p) = c \<and> snd (fst p) \<in> set ids) d"
      using None by (intro filter_cong) (force simp: map_of_eq_None_iff)+
    ultimately show ?thesis using None IH f pp by simp
  next
    case (Some e)
    have m: "mset (map snd (filter (\<lambda>p. fst (fst p) = c \<and> snd (fst p) \<in> set (i # ids)) d)) =
        add_mset e (mset (map snd (filter (\<lambda>p. fst (fst p) = c \<and> snd (fst p) \<in> set ids) ?d)))"
      using mset_pop [OF Cons.prems Some, of "\<lambda>p. fst (fst p) = c \<and> snd (fst p) \<in> set ids"]
      by (simp add: prod_eq_iff disj_commute conj_disj_distribL)
    show ?thesis using Some IH f pp m by simp
  qed
qed simp

lemma match_deleted_spec:
  assumes "watch_wf w" and "match_deleted ev w = (hits, w1)"
  shows "mset hits = mset (filter (deletes ev) (map snd (wt_cache w)))"
    and "w1 = w\<lparr>wt_cache := filter (\<lambda>p. \<not> deletes ev (snd p)) (wt_cache w)\<rparr>"
proof -
  have key: "p \<in> set (wt_cache w) \<Longrightarrow> fst p = (cm_dialog_id (snd p), cm_message_id (snd p))" for p
    using assms(1) by (auto simp: watch_wf_def)
  have wf: "od_wf (wt_cache w)" using assms(1) by (simp add: watch_wf_def)
  have "mset hits = mset (map snd (filter (\<lambda>p. deletes ev (snd p)) (wt_cache w)))
    \<and> w1 = w\<lparr>wt_cache := filter (\<lambda>p. \<not> deletes ev (snd p)) (wt_cache w)\<rparr>"
  proof (cases "de_chat_id ev")
    case (Some c)
    have del: "p \<in> set (wt_cache w) \<Longrightarrow> (fst (fst p) = c \<and> snd (fst p) \<in> set (de_message_ids ev)) = deletes ev (snd p)" for p
      using key [of p] Some by (auto simp: deletes_def)
    have "filter (\<lambda>p. fst (fst p) = c \<and> snd (fst p) \<in> set (de_message_ids ev)) (wt_cache w) = filter (\<lambda>p. deletes ev (snd p)) (wt_cache w)"
      "filter (\<lambda>p. \<not> (fst (fst p) = c \<and> snd (fst p) \<in> set (de_message_ids ev))) (wt_cache w) = filter (\<lambda>p. \<not> deletes ev (snd p)) (wt_cache w)"
      using del by (auto intro!: filter_cong)
    then show ?thesis using pop_ids_spec [OF wf, of c "de_message_ids ev"] assms(2) Some
      by (auto simp: match_deleted_def split: prod.splits)
  next
    case None
    then show ?thesis using assms(2) by (auto simp: match_deleted_def chatless_hit_def deletes_def Let_def)
  qed
  then show "mset hits = mset (filter (deletes ev) (map snd (wt_cache w)))"
    and "w1 = w\<lparr>wt_cache := filter (\<lambda>p. \<not> deletes ev (snd p)) (wt_cache w)\<rparr>"
    by (simp_all add: filter_map comp_def)
qed

lemma dialog_title_some:
  assumes "0 < wt_cache_size w"
  shows "fst (dialog_title ent d w) \<noteq> None \<and> wt_cache (snd (dialog_title ent d w)) = wt_cache w
    \<and> wt_cache_size (snd (dialog_title ent d w)) = wt_cache_size w \<and> wt_self_id (snd (dialog_title ent d w)) = wt_self_id w"
proof (cases "d \<in> set (od_keys (wt_titles w))")
  case True
  then have "od_get (wt_titles w) d \<noteq> None" by (simp add: map_of_eq_None_iff)
  then show ?thesis using True by (simp add: dialog_title_def Let_def)
next
  case False
  let ?t = "case ent d of Some t \<Rightarrow> t | None \<Rightarrow> u (str_int d)"
  have "od_trim (wt_cache_size w) (od_set d ?t (wt_titles w)) = od_trim (wt_cache_size w - 1) (wt_titles w) @ [(d, ?t)]"
    using od_trim_last [OF assms, of "wt_titles w" "(d, ?t)"] od_set_new [of d "wt_titles w" ?t] False by simp
  then have "od_get (od_trim (wt_cache_size w) (od_set d ?t (wt_titles w))) d \<noteq> None"
    by (simp add: map_of_eq_None_iff)
  then show ?thesis using False by (simp add: dialog_title_def Let_def)
qed

lemma send_notices_all:
  "0 < wt_cache_size w \<Longrightarrow> send_notices ent fmt raises gs w = (ns, w') \<Longrightarrow>
     map (\<lambda>n. (nt_dialog n, nt_entries n)) ns = gs \<and> wt_cache w' = wt_cache w \<and> wt_cache_size w' = wt_cache_size w
     \<and> wt_self_id w' = wt_self_id w
     \<and> (\<forall>n\<in>set ns. \<exists>title. nt_text n = notice_text fmt title (nt_dialog n) (nt_entries n))"
proof (induction gs arbitrary: w ns)
  case (Cons g gs)
  obtain d es where g: "g = (d, es)" by (cases g)
  obtain t w1 where t: "dialog_title ent d w = (Some t, w1)"
    using dialog_title_some [OF Cons.prems(1), of ent d] by (cases "dialog_title ent d w") auto
  obtain ns2 w2 where r: "send_notices ent fmt raises gs w1 = (ns2, w2)" by fastforce
  have s: "wt_cache_size w1 = wt_cache_size w" "wt_cache w1 = wt_cache w" "wt_self_id w1 = wt_self_id w"
    using dialog_title_some [OF Cons.prems(1), of ent d] t by simp_all
  have n: "ns = \<lparr>nt_dialog = d, nt_entries = es, nt_text = notice_text fmt t d es, nt_sent = \<not> raises d\<rparr> # ns2" "w' = w2"
    using Cons.prems(2) r by (simp_all add: g t)
  have "\<exists>title. notice_text fmt t d es = notice_text fmt title d es" by blast
  then show ?case using Cons.IH [of w1 ns2] Cons.prems(1) r s n by (simp add: g)
qed simp

text \<open>
  C16: The backup of deletions is exact: every cached own message a deletion event names, and
  no other, appears in exactly one notice, one notice per dialog; afterwards it is gone from
  the cache, so a repeated event sends nothing; and an event without a chat, which may only
  name messages of private chats and small groups, never touches a channel's message.
\<close>

theorem deletion_backup_exact:
  assumes "watch_wf w" and "0 < wt_cache_size w" and "handle_deleted ent fmt raises ev w = (ns, w')"
  shows "mset (concat (map nt_entries ns)) = mset (filter (deletes ev) (map snd (wt_cache w)))
    \<and> distinct (map nt_dialog ns) \<and> (\<forall>n\<in>set ns. \<forall>e\<in>set (nt_entries n). cm_dialog_id e = nt_dialog n)
    \<and> watch_wf w' \<and> wt_cache w' = filter (\<lambda>p. \<not> deletes ev (snd p)) (wt_cache w)
    \<and> fst (handle_deleted ent fmt raises ev w') = []"
proof -
  obtain hits w1 where m: "match_deleted ev w = (hits, w1)" by fastforce
  note ms = match_deleted_spec [OF assms(1) m]
  have "map (\<lambda>n. (nt_dialog n, nt_entries n)) ns = by_dialog hits \<and> wt_cache w' = wt_cache w1
      \<and> wt_cache_size w' = wt_cache_size w1 \<and> wt_self_id w' = wt_self_id w1"
  proof (cases "hits = []")
    case True
    then show ?thesis using assms(3) m by (simp add: handle_deleted_def by_dialog_def od_group_def)
  next
    case False
    then show ?thesis using send_notices_all [of w1 ent fmt raises "by_dialog hits" ns w'] assms(2,3) m ms(2)
      by (simp add: handle_deleted_def)
  qed
  then have g: "map (\<lambda>n. (nt_dialog n, nt_entries n)) ns = by_dialog hits" and w': "wt_cache w' = wt_cache w1"
    "wt_cache_size w' = wt_cache_size w1" "wt_self_id w' = wt_self_id w1" by simp_all
  have c: "map nt_entries ns = map snd (by_dialog hits)" "map nt_dialog ns = od_keys (by_dialog hits)"
    by (simp_all add: g [symmetric])
  have wf': "watch_wf w'"
    using assms(1) by (auto simp: watch_wf_def w' ms(2) od_wf_def distinct_map_filter intro: order_trans [OF length_filter_le])
  obtain hits2 w2 where m2: "match_deleted ev w' = (hits2, w2)" by fastforce
  have "mset hits2 = {#}" using match_deleted_spec(1) [OF wf' m2] by (simp add: w' ms(2) filter_map filter_empty_conv)
  then have "fst (handle_deleted ent fmt raises ev w') = []" by (simp add: handle_deleted_def m2)
  moreover have "\<forall>n\<in>set ns. \<forall>e\<in>set (nt_entries n). cm_dialog_id e = nt_dialog n"
  proof (intro ballI)
    fix n e assume n: "n \<in> set ns" "e \<in> set (nt_entries n)"
    then have "(nt_dialog n, nt_entries n) \<in> set (by_dialog hits)" unfolding g [symmetric] by auto
    then show "cm_dialog_id e = nt_dialog n" using od_group_sound [of "nt_dialog n" "nt_entries n" cm_dialog_id hits e] n(2)
      by (simp add: by_dialog_def)
  qed
  ultimately show ?thesis using ms wf' od_group_wf [of cm_dialog_id hits] mset_od_group [of cm_dialog_id hits]
    unfolding c by (simp add: by_dialog_def od_wf_def w')
qed

section \<open>A concrete run\<close>

definition wdemo :: watcher where
  "wdemo = \<lparr>wt_cache_size = 2, wt_cache = [((5, 1), \<lparr>cm_dialog_id = 5, cm_message_id = 1, cm_text = Some [72], cm_date = 0\<rparr>)],
     wt_titles = [], wt_self_id = 9\<rparr>"

theorem deletion_backup_exact_witness:
  "\<exists>ns w'. handle_deleted (\<lambda>_. None) (\<lambda>_. []) (\<lambda>_. False) \<lparr>de_chat_id = None, de_message_ids = [1, 2]\<rparr> wdemo = (ns, w')
     \<and> concat (map nt_entries ns) = [\<lparr>cm_dialog_id = 5, cm_message_id = 1, cm_text = Some [72], cm_date = 0\<rparr>] \<and> wt_cache w' = []"
proof -
  obtain ns w' where h: "handle_deleted (\<lambda>_. None) (\<lambda>_. []) (\<lambda>_. False) \<lparr>de_chat_id = None, de_message_ids = [1, 2]\<rparr> wdemo = (ns, w')"
    by fastforce
  have w: "watch_wf wdemo" "0 < wt_cache_size wdemo" by (simp_all add: watch_wf_def wdemo_def od_wf_def)
  show ?thesis using deletion_backup_exact [OF w h]
    by (intro exI [of _ ns] exI [of _ w'] conjI h) (simp_all add: wdemo_def deletes_def is_channel_or_megagroup_id_def channel_id_threshold_def)
qed

end
