(* ===== verification/Usernames.thy ===== *)
theory Usernames
  imports Py_Str
begin

text \<open>
  \<open>src/tg_messenger/core/usernames.py\<close>: the username rules, the normalisation of a name, the
  generation of candidates and the bounded availability check, on code points. The random
  generator's answers are arguments (the digits of the padding, the filler of each attempt),
  the year and the answers of \<open>check_username\<close> too.
\<close>

section \<open>The rules\<close>

definition min_len :: nat where "min_len = 5"
definition max_len :: nat where "max_len = 32"

definition az :: "nat \<Rightarrow> bool" where "az c \<longleftrightarrow> 97 \<le> c \<and> c \<le> 122"
definition dig :: "nat \<Rightarrow> bool" where "dig c \<longleftrightarrow> 48 \<le> c \<and> c \<le> 57"
definition name_cp :: "nat \<Rightarrow> bool" where "name_cp c \<longleftrightarrow> az c \<or> dig c \<or> c = 95"

text \<open>\<open>_VALID_RE\<close>: its \<open>$\<close> also matches before a trailing line feed.\<close>

definition re_body :: "utext \<Rightarrow> bool" where
  "re_body s \<longleftrightarrow> 5 \<le> length s \<and> length s \<le> 32 \<and> az (hd s) \<and> list_all name_cp (butlast (tl s))
     \<and> (az (last s) \<or> dig (last s))"

definition valid_re :: "utext \<Rightarrow> bool" where
  "valid_re s \<longleftrightarrow> re_body s \<or> s \<noteq> [] \<and> last s = 10 \<and> re_body (butlast s)"

fun has_pair :: "nat \<Rightarrow> utext \<Rightarrow> bool" where
  "has_pair c (a # b # s) = (a = c \<and> b = c \<or> has_pair c (b # s))"
| "has_pair c s = False"

definition is_valid_username :: "utext \<Rightarrow> bool" where
  "is_valid_username name =
     (if \<not> (min_len \<le> length name \<and> length name \<le> max_len) then False
      else if has_pair 95 name then False
      else valid_re name)"

section \<open>Normalisation\<close>

text \<open>\<open>str.lower\<close> on the letters that can survive the filter: ASCII, Cyrillic and the two
  letters that fold into ASCII.\<close>

definition ulower :: "utext \<Rightarrow> utext" where
  "ulower s = concat (map (\<lambda>c.
     if 65 \<le> c \<and> c \<le> 90 then [c + 32]
     else if 1040 \<le> c \<and> c \<le> 1071 then [c + 32]
     else if 1024 \<le> c \<and> c \<le> 1039 then [c + 80]
     else if c = 8490 then [107] else if c = 304 then [105, 775] else [c]) s)"

definition translit_table :: "(nat \<times> string) list" where
  "translit_table = [(1072, ''a''), (1073, ''b''), (1074, ''v''), (1075, ''g''), (1076, ''d''), (1077, ''e''), (1105, ''e''),
     (1078, ''zh''), (1079, ''z''), (1080, ''i''), (1081, ''y''), (1082, ''k''), (1083, ''l''), (1084, ''m''),
     (1085, ''n''), (1086, ''o''), (1087, ''p''), (1088, ''r''), (1089, ''s''), (1090, ''t''), (1091, ''u''),
     (1092, ''f''), (1093, ''h''), (1094, ''ts''), (1095, ''ch''), (1096, ''sh''), (1097, ''sch''),
     (1098, ''''), (1099, ''y''), (1100, ''''), (1101, ''e''), (1102, ''yu''), (1103, ''ya'')]"

definition transliterate :: "utext \<Rightarrow> utext" where
  "transliterate s = concat (map (\<lambda>c. case map_of translit_table c of Some t \<Rightarrow> u t | None \<Rightarrow> [c]) s)"

fun squeeze :: "nat \<Rightarrow> utext \<Rightarrow> utext" where
  "squeeze c (a # b # s) = (if a = c \<and> b = c then squeeze c (b # s) else a # squeeze c (b # s))"
| "squeeze c s = s"

definition normalize_base :: "utext \<Rightarrow> utext" where
  "normalize_base base =
     (let t = squeeze 95 (filter name_cp (transliterate (ulower base)))
      in strip_by (\<lambda>c. c = 95) (lstrip_by (\<lambda>c. dig c \<or> c = 95) t))"

definition trim_name :: "utext \<Rightarrow> utext" where
  "trim_name name = rstrip_by (\<lambda>c. c = 95) (take max_len name)"

text \<open>\<open>_pad\<close>: the digits drawn, one per missing character.\<close>

fun pad :: "nat \<Rightarrow> (nat \<Rightarrow> nat) \<Rightarrow> utext \<Rightarrow> utext" where
  "pad 0 draw name = name"
| "pad (Suc missing) draw name = pad missing draw (name @ u (digits_nat (draw missing)))"

definition pad_name :: "(nat \<Rightarrow> nat) \<Rightarrow> utext \<Rightarrow> utext" where
  "pad_name draw name = pad (min_len - length name) draw name"

section \<open>Candidates\<close>

definition leet_table :: "(nat \<times> nat) list" where
  "leet_table = [(111, 48), (105, 49), (101, 51), (97, 52), (115, 53)]"

definition leet_cp :: "nat \<Rightarrow> nat" where
  "leet_cp c = (case map_of leet_table c of Some d \<Rightarrow> d | None \<Rightarrow> c)"

definition add_name :: "utext \<Rightarrow> utext list \<Rightarrow> utext list" where
  "add_name name out = (let n = trim_name name in if is_valid_username n \<and> n \<notin> set out then out @ [n] else out)"

text \<open>What the generator answers to one filler attempt.\<close>

datatype filler = Number nat | Underscored nat | LeetMask "bool list" | Letter nat

definition filler_name :: "utext \<Rightarrow> filler \<Rightarrow> utext" where
  "filler_name stem f = (case f of
     Number n \<Rightarrow> stem @ u (digits_nat n)
   | Underscored n \<Rightarrow> stem @ [95] @ u (digits_nat n)
   | LeetMask bs \<Rightarrow> map (\<lambda>(c, b). if b then leet_cp c else c) (zip stem bs)
   | Letter n \<Rightarrow> stem @ [97 + n])"

fun add_suffixes :: "nat \<Rightarrow> utext \<Rightarrow> utext list \<Rightarrow> utext list \<Rightarrow> utext list \<times> bool" where
  "add_suffixes wanted stem [] out = (out, False)"
| "add_suffixes wanted stem (x # xs) out =
     (let out' = add_name (stem @ x) out
      in if wanted \<le> length out' then (out', True) else add_suffixes wanted stem xs out')"

fun fill_loop :: "nat \<Rightarrow> utext \<Rightarrow> (nat \<Rightarrow> filler) \<Rightarrow> nat \<Rightarrow> utext list \<Rightarrow> utext list" where
  "fill_loop wanted stem fillers 0 out = out"
| "fill_loop wanted stem fillers (Suc budget) out =
     (if length out < wanted then fill_loop wanted stem fillers budget (add_name (filler_name stem (fillers budget)) out) else out)"

definition suffixes :: "nat \<Rightarrow> utext list" where
  "suffixes year = [u (digits_nat year), u (digits_nat (year mod 100)), u ''01'', u ''1'', u ''_01'']"

definition generate_candidates :: "nat \<Rightarrow> (nat \<Rightarrow> nat) \<Rightarrow> (nat \<Rightarrow> filler) \<Rightarrow> utext \<Rightarrow> nat \<Rightarrow> utext list" where
  "generate_candidates year draw fillers base wanted =
     (let n = normalize_base base; stem = pad_name draw (if n = [] then u ''user'' else n);
          (out, full) = add_suffixes wanted stem (suffixes year) (add_name stem [])
      in if full then take wanted out
         else (let leet = map leet_cp stem;
                   out2 = add_name (leet @ u (digits_nat (year mod 100))) (add_name leet out)
               in take wanted (fill_loop wanted stem fillers (wanted * 20) out2)))"

section \<open>Availability\<close>

text \<open>None is an exception of \<open>check_username\<close>, which ends the pass.\<close>

fun find_available_marked :: "(utext \<Rightarrow> bool option) \<Rightarrow> nat \<Rightarrow> utext list \<Rightarrow> utext list \<Rightarrow> (utext list \<times> utext list) option" where
  "find_available_marked check limit free [] = Some (free, [])"
| "find_available_marked check limit free (name # names) =
     (if limit \<le> length free then Some (free, name # names)
      else (case check name of
              None \<Rightarrow> None
            | Some True \<Rightarrow> find_available_marked check limit (free @ [name]) names
            | Some False \<Rightarrow> find_available_marked check limit free names))"

definition find_available :: "(utext \<Rightarrow> bool option) \<Rightarrow> nat \<Rightarrow> utext list \<Rightarrow> utext list option" where
  "find_available check limit names = map_option fst (find_available_marked check limit [] names)"

section \<open>The documented rules\<close>

definition telegram_rules :: "utext \<Rightarrow> bool" where
  "telegram_rules s \<longleftrightarrow> 5 \<le> length s \<and> length s \<le> 32 \<and> (\<forall>c\<in>set s. name_cp c) \<and> az (hd s) \<and> last s \<noteq> 95
     \<and> \<not> (\<exists>a b. s = a @ [95, 95] @ b)"

lemma has_pair_iff: "has_pair c s \<longleftrightarrow> (\<exists>a b. s = a @ [c, c] @ b)"
proof (induction c s rule: has_pair.induct)
  case (1 c a b s)
  have "(\<exists>p q. a # b # s = p @ [c, c] @ q) \<longleftrightarrow> (a = c \<and> b = c) \<or> (\<exists>p q. b # s = p @ [c, c] @ q)"
    by (auto simp: Cons_eq_append_conv)
  then show ?case using 1 by simp
qed (auto simp: Cons_eq_append_conv)

lemma re_body_rules: "re_body s \<longleftrightarrow> 5 \<le> length s \<and> length s \<le> 32 \<and> (\<forall>c\<in>set s. name_cp c) \<and> az (hd s) \<and> last s \<noteq> 95"
proof (cases "5 \<le> length s")
  case True
  then obtain a t where s: "s = a # t" and t: "t \<noteq> []" by (cases s; cases "tl s") auto
  obtain m z where m: "t = m @ [z]" using t by (cases t rule: rev_cases) auto
  show ?thesis by (auto simp: re_body_def s m list_all_iff name_cp_def az_def dig_def)
qed (simp add: re_body_def)

lemma telegram_rules_alt: "telegram_rules s \<longleftrightarrow> re_body s \<and> \<not> has_pair 95 s"
  by (auto simp: telegram_rules_def re_body_rules has_pair_iff)

text \<open>
  The validator is the documented rule set (5 to 32 characters, lower-case letters, digits
  and underscores, a letter first, no underscore last or doubled), except that it also accepts
  a valid name followed by a line feed, which no username may contain.
\<close>

theorem username_rules:
  "is_valid_username s \<longleftrightarrow> telegram_rules s \<or> (\<exists>t. s = t @ [10] \<and> telegram_rules t \<and> length t < 32)"
proof -
  have p: "has_pair 95 (t @ [10]) = has_pair 95 t" for t
    by (induction "95::nat" t rule: has_pair.induct) auto
  have b: "re_body s \<Longrightarrow> 5 \<le> length s \<and> length s \<le> 32" for s by (simp add: re_body_def)
  have "s \<noteq> [] \<and> last s = 10 \<and> re_body (butlast s) \<longleftrightarrow> (\<exists>t. s = t @ [10] \<and> re_body t)"
    by (metis append_butlast_last_id butlast_snoc last_snoc snoc_eq_iff_butlast)
  then have v: "valid_re s \<longleftrightarrow> re_body s \<or> (\<exists>t. s = t @ [10] \<and> re_body t)" by (simp add: valid_re_def)
  show ?thesis
    unfolding is_valid_username_def v telegram_rules_alt min_len_def max_len_def
    using b p by (auto simp: Suc_le_eq) fastforce+
qed

section \<open>Candidates are valid, distinct and few\<close>

definition good_names :: "utext list \<Rightarrow> bool" where
  "good_names out \<longleftrightarrow> distinct out \<and> (\<forall>n\<in>set out. is_valid_username n)"

lemma add_name_good: "good_names out \<Longrightarrow> good_names (add_name name out)"
  by (auto simp: good_names_def add_name_def Let_def)

lemma add_suffixes_good: "good_names out \<Longrightarrow> good_names (fst (add_suffixes wanted stem xs out))"
  by (induction wanted stem xs out rule: add_suffixes.induct) (auto simp: Let_def add_name_good)

lemma fill_loop_good: "good_names out \<Longrightarrow> good_names (fill_loop wanted stem fillers budget out)"
  by (induction wanted stem fillers budget out rule: fill_loop.induct) (auto simp: add_name_good)

lemma good_take: "good_names out \<Longrightarrow> good_names (take n out)"
  by (auto simp: good_names_def dest: in_set_takeD)

lemma candidates_good: "good_names (generate_candidates year draw fillers base wanted)"
proof -
  let ?stem = "pad_name draw (if normalize_base base = [] then u ''user'' else normalize_base base)"
  obtain out full where s: "add_suffixes wanted ?stem (suffixes year) (add_name ?stem []) = (out, full)" by fastforce
  have "good_names (add_name ?stem [])" by (intro add_name_good) (simp add: good_names_def)
  from add_suffixes_good [OF this, of wanted ?stem "suffixes year"] have "good_names out" by (simp add: s)
  then show ?thesis
    by (simp add: generate_candidates_def Let_def s good_take fill_loop_good add_name_good)
qed

lemma trim_no_newline: "10 \<notin> set name \<Longrightarrow> 10 \<notin> set (trim_name name)"
  using set_dropWhile_sub [of "\<lambda>c. c = 95" "rev (take max_len name)"] set_take_subset [of max_len name]
  by (auto simp: trim_name_def rstrip_by_def)

text \<open>
  Every generated candidate is a valid username, no two are equal and there are at most
  as many as asked for, whatever the base name and whatever the random generator answers; the
  generation makes at most twenty filler attempts per candidate.
\<close>

theorem candidates_valid:
  "let cs = generate_candidates year draw fillers base wanted in
     list_all is_valid_username cs \<and> distinct cs \<and> length cs \<le> wanted"
  using candidates_good [of year draw fillers base wanted]
  by (simp add: good_names_def list_all_iff generate_candidates_def Let_def split: prod.split)

section \<open>The availability pass\<close>

lemma find_marked_spec:
  assumes "\<forall>n\<in>set names. check n \<noteq> None" and "length free \<le> limit"
  shows "\<exists>dn rest. names = dn @ rest
    \<and> find_available_marked check limit free names = Some (free @ filter (\<lambda>n. check n = Some True) dn, rest)
    \<and> length free + length (filter (\<lambda>n. check n = Some True) dn) \<le> limit
    \<and> (rest = [] \<or> length free + length (filter (\<lambda>n. check n = Some True) dn) = limit)"
  using assms
proof (induction names arbitrary: free)
  case (Cons n ns)
  show ?case
  proof (cases "limit \<le> length free")
    case True
    then show ?thesis using Cons.prems(2) by (intro exI [of _ "[]"] exI [of _ "n # ns"]) simp
  next
    case False
    obtain b where b: "check n = Some b" using Cons.prems(1) by auto
    let ?f = "if b then free @ [n] else free"
    have "\<forall>n\<in>set ns. check n \<noteq> None" "length ?f \<le> limit" using Cons.prems False by auto
    from Cons.IH [OF this] obtain dn rest where d: "ns = dn @ rest"
      "find_available_marked check limit ?f ns = Some (?f @ filter (\<lambda>n. check n = Some True) dn, rest)"
      "length ?f + length (filter (\<lambda>n. check n = Some True) dn) \<le> limit"
      "rest = [] \<or> length ?f + length (filter (\<lambda>n. check n = Some True) dn) = limit" by blast
    show ?thesis using False b d by (intro exI [of _ "n # dn"] exI [of _ rest]) (cases b; auto)
  qed
qed simp

text \<open>
  The availability pass is sequential and stops early: it checks a prefix of the
  candidates, returns exactly the free names of that prefix in order, at most the limit, and
  reports as unchecked exactly the names after it, which are none unless the limit was reached.
\<close>

theorem find_available_prefix:
  assumes "\<forall>n\<in>set names. check n \<noteq> None"
  shows "\<exists>checked unchecked. names = checked @ unchecked
    \<and> find_available_marked check limit [] names = Some (filter (\<lambda>n. check n = Some True) checked, unchecked)
    \<and> length (filter (\<lambda>n. check n = Some True) checked) \<le> limit
    \<and> (unchecked = [] \<or> length (filter (\<lambda>n. check n = Some True) checked) = limit)"
  using find_marked_spec [OF assms, of "[]" limit] by simp

theorem find_available_prefix_witness:
  "\<exists>unchecked. find_available_marked (\<lambda>_. Some True) 1 [] [[97], [98]] = Some ([[97]], unchecked)"
proof -
  have "\<forall>n\<in>set [[97], [98]]. (\<lambda>_ :: utext. Some True) n \<noteq> None" by simp
  from find_available_prefix [OF this, of 1] obtain ch un where a: "[[97], [98]] = ch @ un"
    "find_available_marked (\<lambda>_. Some True) 1 [] [[97], [98]] = Some (filter (\<lambda>n. Some True = Some True) ch, un)"
    "length (filter (\<lambda>n. Some True = Some True) ch) \<le> 1"
    "un = [] \<or> length (filter (\<lambda>n. Some True = Some True) ch) = 1" by blast
  then have "ch = [[97]]" by (cases ch; cases "tl ch") auto
  then show ?thesis using a(2) by auto
qed

end
