(* ===== verification/Lang_Settings.thy ===== *)
theory Lang_Settings
  imports Names_Langs Message_Store
begin

text \<open>
  The translation settings of \<open>src/tg_messenger/agent/translate.py\<close>: the values kept in the key
  value table, their resolution against the environment and their setters, each of which drops
  the cached translations. The environment is a lookup, JSON text a pair of parameters
  (\<open>dumps\<close>, \<open>loads\<close>).
\<close>

section \<open>Stored values\<close>

datatype kv_value = VStr string | VBool bool | VInt int | VReal real | VList "kv_value list" | VDict "(string \<times> kv_value) list"

record lang_store =
  ls_kv :: "(string, kv_value) odict"
  ls_msgs :: msg_store

datatype setting_error = InvalidLang | InvalidMode | InvalidMethod | InvalidCount

type_synonym environ = "string \<Rightarrow> string option"
type_synonym json_codec = "(string list \<Rightarrow> string) \<times> (string \<Rightarrow> kv_value option)"

text \<open>Python's truth value, and \<open>str\<close> of the values the program stores as text or number; of
  the others the model only needs that their text is no language code and no number.\<close>

fun py_truthy :: "kv_value \<Rightarrow> bool" where
  "py_truthy (VStr s) = (s \<noteq> [])"
| "py_truthy (VBool b) = b"
| "py_truthy (VInt i) = (i \<noteq> 0)"
| "py_truthy (VReal x) = (x \<noteq> 0)"
| "py_truthy (VList xs) = (xs \<noteq> [])"
| "py_truthy (VDict kvs) = (kvs \<noteq> [])"

fun py_str :: "kv_value \<Rightarrow> string" where
  "py_str (VStr s) = s"
| "py_str (VBool b) = (if b then ''True'' else ''False'')"
| "py_str (VInt i) = str_int i"
| "py_str _ = ''<...>''"

definition kv_get :: "string \<Rightarrow> lang_store \<Rightarrow> kv_value option" where
  "kv_get k s = od_get (ls_kv s) k"

definition kv_put :: "string \<Rightarrow> kv_value \<Rightarrow> lang_store \<Rightarrow> lang_store" where
  "kv_put k v s = s\<lparr>ls_kv := od_set k v (ls_kv s)\<rparr>"

definition kv_del :: "string \<Rightarrow> lang_store \<Rightarrow> lang_store" where
  "kv_del k s = s\<lparr>ls_kv := od_pop k (ls_kv s)\<rparr>"

definition drop_translations :: "lang_store \<Rightarrow> lang_store" where
  "drop_translations s = s\<lparr>ls_msgs := clear_all_translations (ls_msgs s)\<rparr>"

lemma kv_simps [simp]:
  "kv_get k (kv_put j v s) = (if k = j then Some v else kv_get k s)"
  "kv_get k (kv_del j s) = (if k = j then None else kv_get k s)"
  "kv_get k (drop_translations s) = kv_get k s"
  "ls_msgs (kv_put j v s) = ls_msgs s" "ls_msgs (kv_del j s) = ls_msgs s"
  by (simp_all add: kv_get_def kv_put_def kv_del_def drop_translations_def od_simps)

section \<open>Target language and mode\<close>

definition user_lang_key :: string where "user_lang_key = ''user_lang''"
definition translate_auto_key :: string where "translate_auto_key = ''translate_auto''"
definition translate_mode_key :: string where "translate_mode_key = ''translate_mode''"
definition known_langs_key :: string where "known_langs_key = ''known_langs''"
definition unknown_langs_key :: string where "unknown_langs_key = ''unknown_langs''"
definition translate_model_key :: string where "translate_model_key = ''translate_model''"
definition max_messages_key :: string where "max_messages_key = ''translate_max_messages''"
definition default_max_messages :: int where "default_max_messages = 100"

definition structured_methods :: "string list" where
  "structured_methods = [''json_schema'', ''json_mode'']"

definition translate_modes :: "string list" where
  "translate_modes = [''off'', ''all_unknown'', ''skip_known'', ''only_unknown'']"

definition get_user_lang :: "environ \<Rightarrow> lang_store \<Rightarrow> string option" where
  "get_user_lang env s =
     (case kv_get user_lang_key s of
        Some v \<Rightarrow> if py_truthy v then clean_supported_lang_code (Some (py_str v))
                  else clean_supported_lang_code (env ''TG_USER_LANG'')
      | None \<Rightarrow> clean_supported_lang_code (env ''TG_USER_LANG''))"

definition set_user_lang :: "string option \<Rightarrow> lang_store \<Rightarrow> (setting_error, unit) result \<times> lang_store" where
  "set_user_lang code s =
     (case code of
        None \<Rightarrow> (Inr (), drop_translations (kv_del user_lang_key s))
      | Some c \<Rightarrow> (case validate_supported_lang_code c of
                     Inl _ \<Rightarrow> (Inl InvalidLang, s)
                   | Inr lang \<Rightarrow> (Inr (), drop_translations (kv_put user_lang_key (VStr lang) s))))"

definition get_translate_mode :: "environ \<Rightarrow> lang_store \<Rightarrow> string" where
  "get_translate_mode env s =
     (case kv_get translate_mode_key s of
        Some (VStr m) \<Rightarrow> if m \<in> set translate_modes then m
                        else if get_user_lang env s \<noteq> None then ''all_unknown'' else ''off''
      | _ \<Rightarrow> if get_user_lang env s \<noteq> None then ''all_unknown'' else ''off'')"

definition set_translate_mode :: "string option \<Rightarrow> lang_store \<Rightarrow> (setting_error, unit) result \<times> lang_store" where
  "set_translate_mode mode s =
     (case mode of
        None \<Rightarrow> (Inr (), drop_translations (kv_del translate_mode_key s))
      | Some m \<Rightarrow> if m \<in> set translate_modes then (Inr (), drop_translations (kv_put translate_mode_key (VStr m) s))
                  else (Inl InvalidMode, s))"

section \<open>Language lists\<close>

text \<open>The loop over the stored items: supported codes, each once.\<close>

fun clean_items :: "string list \<Rightarrow> kv_value list \<Rightarrow> string list" where
  "clean_items out [] = out"
| "clean_items out (v # vs) =
     (case clean_supported_lang_code (Some (py_str v)) of
        None \<Rightarrow> clean_items out vs
      | Some lang \<Rightarrow> clean_items (if lang \<in> set out then out else out @ [lang]) vs)"

definition get_lang_list :: "(string \<Rightarrow> kv_value option) \<Rightarrow> string \<Rightarrow> lang_store \<Rightarrow> string list" where
  "get_lang_list loads key s =
     (case kv_get key s of
        None \<Rightarrow> []
      | Some raw \<Rightarrow>
          if \<not> py_truthy raw then []
          else (case (case raw of VStr t \<Rightarrow> loads t | _ \<Rightarrow> Some raw) of
                  Some (VList vs) \<Rightarrow> clean_items [] vs
                | _ \<Rightarrow> []))"

fun validate_all :: "string list \<Rightarrow> (setting_error, string list) result" where
  "validate_all [] = Inr []"
| "validate_all (c # cs) =
     (case validate_supported_lang_code c of
        Inl _ \<Rightarrow> Inl InvalidLang
      | Inr lang \<Rightarrow> (case validate_all cs of Inl e \<Rightarrow> Inl e | Inr ls \<Rightarrow> Inr (lang # ls)))"

text \<open>\<open>codes\<close> is one string or a list; \<open>dict.fromkeys\<close> keeps the first of equal codes.\<close>

fun dedup :: "'a list \<Rightarrow> 'a list" where
  "dedup [] = []"
| "dedup (x # xs) = x # filter (\<lambda>y. y \<noteq> x) (dedup xs)"

definition code_list :: "string + string list \<Rightarrow> (setting_error, string list) result" where
  "code_list codes = (case codes of
     Inl t \<Rightarrow> (case parse_lang_codes (Some t) of Inl _ \<Rightarrow> Inl InvalidLang | Inr ls \<Rightarrow> validate_all ls)
   | Inr ls \<Rightarrow> validate_all ls)"

definition set_lang_list :: "(string list \<Rightarrow> string) \<Rightarrow> string \<Rightarrow> string + string list \<Rightarrow> lang_store
    \<Rightarrow> (setting_error, unit) result \<times> lang_store" where
  "set_lang_list dumps key codes s =
     (case code_list codes of
        Inl e \<Rightarrow> (Inl e, s)
      | Inr ls \<Rightarrow> (Inr (), drop_translations (kv_put key (VStr (dumps (dedup ls))) s)))"

definition get_known_langs :: "(string \<Rightarrow> kv_value option) \<Rightarrow> lang_store \<Rightarrow> string list" where
  "get_known_langs loads s = get_lang_list loads known_langs_key s"

definition set_known_langs :: "(string list \<Rightarrow> string) \<Rightarrow> string + string list \<Rightarrow> lang_store \<Rightarrow> (setting_error, unit) result \<times> lang_store" where
  "set_known_langs dumps codes s = set_lang_list dumps known_langs_key codes s"

definition get_unknown_langs :: "(string \<Rightarrow> kv_value option) \<Rightarrow> lang_store \<Rightarrow> string list" where
  "get_unknown_langs loads s = get_lang_list loads unknown_langs_key s"

definition set_unknown_langs :: "(string list \<Rightarrow> string) \<Rightarrow> string + string list \<Rightarrow> lang_store \<Rightarrow> (setting_error, unit) result \<times> lang_store" where
  "set_unknown_langs dumps codes s = set_lang_list dumps unknown_langs_key codes s"

section \<open>Model, caps, probed methods\<close>

definition translate_model_from_env :: "environ \<Rightarrow> string option" where
  "translate_model_from_env env =
     (let v = strip (or_default (env ''TG_TRANSLATE_MODEL'') (or_default (env ''TG_AGENT_MODEL'') ''''))
      in if v = [] then None else Some v)"

definition get_translate_model :: "environ \<Rightarrow> lang_store \<Rightarrow> string option" where
  "get_translate_model env s =
     (case kv_get translate_model_key s of
        None \<Rightarrow> translate_model_from_env env
      | Some v \<Rightarrow> if py_truthy v \<and> strip (py_str v) \<noteq> [] then Some (strip (py_str v)) else translate_model_from_env env)"

definition set_translate_model :: "string option \<Rightarrow> lang_store \<Rightarrow> lang_store" where
  "set_translate_model name s =
     drop_translations (case name of
        None \<Rightarrow> kv_del translate_model_key s
      | Some n \<Rightarrow> if strip n = [] then kv_del translate_model_key s else kv_put translate_model_key (VStr (strip n)) s)"

text \<open>\<open>int(raw)\<close>: None is a ValueError or TypeError.\<close>

fun py_int :: "kv_value \<Rightarrow> int option" where
  "py_int (VStr s) = parse_int s"
| "py_int (VBool b) = Some (if b then 1 else 0)"
| "py_int (VInt i) = Some i"
| "py_int (VReal x) = Some (if 0 \<le> x then \<lfloor>x\<rfloor> else \<lceil>x\<rceil>)"
| "py_int _ = None"

definition get_max_messages :: "environ \<Rightarrow> lang_store \<Rightarrow> int" where
  "get_max_messages env s =
     (let raw = (case kv_get max_messages_key s of Some v \<Rightarrow> Some v | None \<Rightarrow> map_option VStr (env ''TG_TRANSLATE_MAX_MESSAGES''))
      in (case raw of
            None \<Rightarrow> default_max_messages
          | Some v \<Rightarrow> if strip (py_str v) = [] then default_max_messages
                      else (case py_int v of
                              None \<Rightarrow> default_max_messages
                            | Some n \<Rightarrow> if n < 1 then default_max_messages else n)))"

definition set_max_messages :: "int option \<Rightarrow> lang_store \<Rightarrow> (setting_error, unit) result \<times> lang_store" where
  "set_max_messages n s =
     (case n of
        None \<Rightarrow> (Inr (), kv_del max_messages_key s)
      | Some v \<Rightarrow> if v < 1 then (Inl InvalidCount, s) else (Inr (), kv_put max_messages_key (VInt v) s))"

definition method_key :: "string \<Rightarrow> string" where
  "method_key model_name = ''translate_method_'' @ model_name"

definition get_cached_method :: "string \<Rightarrow> lang_store \<Rightarrow> string option" where
  "get_cached_method model_name s =
     (case kv_get (method_key model_name) s of
        Some (VStr m) \<Rightarrow> if m \<in> set structured_methods then Some m else None
      | _ \<Rightarrow> None)"

definition set_cached_method :: "string \<Rightarrow> string \<Rightarrow> lang_store \<Rightarrow> (setting_error, unit) result \<times> lang_store" where
  "set_cached_method model_name m s =
     (if m \<notin> set structured_methods then (Inl InvalidMethod, s) else (Inr (), kv_put (method_key model_name) (VStr m) s))"

definition get_translate_auto :: "lang_store \<Rightarrow> bool option" where
  "get_translate_auto s = map_option (\<lambda>v. lower (strip (py_str v)) \<in> {''1'', ''true'', ''on'', ''yes''}) (kv_get translate_auto_key s)"

definition set_translate_auto :: "bool \<Rightarrow> lang_store \<Rightarrow> lang_store" where
  "set_translate_auto enabled s = kv_put translate_auto_key (VStr (if enabled then ''1'' else ''0'')) s"

section \<open>What to translate\<close>

definition resolve_skip_only :: "(string \<Rightarrow> kv_value option) \<Rightarrow> environ \<Rightarrow> string option \<Rightarrow> lang_store \<Rightarrow> string list \<times> string list" where
  "resolve_skip_only loads env target s =
     (let mode = get_translate_mode env s in
      if mode = ''skip_known'' then (get_known_langs loads s, [])
      else if mode = ''only_unknown''
      then (let unknown = get_unknown_langs loads s
            in if unknown \<noteq> [] then ([], unknown) else (if truthy target then [the target] else [], []))
      else (let known = get_known_langs loads s
            in (if truthy target \<and> the target \<notin> set known then known @ [the target] else known, [])))"

section \<open>The settings form\<close>

record lang_settings =
  lg_mode :: string
  lg_target :: "string option"
  lg_known :: "string list"
  lg_unknown :: "string list"
  lg_model :: "string option"
  lg_max_messages :: int

definition get_settings :: "(string \<Rightarrow> kv_value option) \<Rightarrow> environ \<Rightarrow> lang_store \<Rightarrow> lang_settings" where
  "get_settings loads env s =
     \<lparr>lg_mode = get_translate_mode env s, lg_target = get_user_lang env s, lg_known = get_known_langs loads s,
      lg_unknown = get_unknown_langs loads s, lg_model = get_translate_model env s, lg_max_messages = get_max_messages env s\<rparr>"

definition after :: "(setting_error, unit) result \<times> lang_store \<Rightarrow> (lang_store \<Rightarrow> (setting_error, unit) result \<times> lang_store)
    \<Rightarrow> (setting_error, unit) result \<times> lang_store" where
  "after r f = (case r of (Inl e, s) \<Rightarrow> (Inl e, s) | (Inr _, s) \<Rightarrow> f s)"

definition set_settings :: "(string list \<Rightarrow> string) \<Rightarrow> string \<Rightarrow> string option \<Rightarrow> (string + string list) option \<Rightarrow> (string + string list) option
    \<Rightarrow> string option \<Rightarrow> int option \<Rightarrow> lang_store \<Rightarrow> (setting_error, unit) result \<times> lang_store" where
  "set_settings dumps mode target known unknown model max_messages s =
     (if mode \<notin> set translate_modes then (Inl InvalidMode, s)
      else if (case max_messages of None \<Rightarrow> False | Some n \<Rightarrow> n < 1) then (Inl InvalidCount, s)
      else after (case target of None \<Rightarrow> (Inr (), s) | Some t \<Rightarrow> set_user_lang (if t = [] then None else Some t) s)
        (\<lambda>s. after (case known of None \<Rightarrow> (Inr (), s) | Some c \<Rightarrow> set_known_langs dumps c s)
          (\<lambda>s. after (case unknown of None \<Rightarrow> (Inr (), s) | Some c \<Rightarrow> set_unknown_langs dumps c s)
            (\<lambda>s. after (Inr (), case model of None \<Rightarrow> s | Some n \<Rightarrow> set_translate_model (if n = [] then None else Some n) s)
              (\<lambda>s. after (case max_messages of None \<Rightarrow> (Inr (), s) | Some n \<Rightarrow> set_max_messages (Some n) s)
                (\<lambda>s. set_translate_mode (Some mode) s))))))"

section \<open>Language lists are stored and read back\<close>

named_theorems key_defs "the keys of the key value table"
lemmas [key_defs] = user_lang_key_def translate_auto_key_def translate_mode_key_def known_langs_key_def
  unknown_langs_key_def translate_model_key_def max_messages_key_def

definition codec_ok :: "(string list \<Rightarrow> string) \<Rightarrow> (string \<Rightarrow> kv_value option) \<Rightarrow> bool" where
  "codec_ok dumps loads \<longleftrightarrow> (\<forall>xs. dumps xs \<noteq> [] \<and> loads (dumps xs) = Some (VList (map VStr xs)))"

definition code_ok :: "string \<Rightarrow> bool" where
  "code_ok l \<longleftrightarrow> clean_supported_lang_code (Some l) = Some l"

lemma set_dedup [simp]: "set (dedup xs) = set xs"
  by (induction xs) auto

lemma distinct_dedup [simp]: "distinct (dedup xs)"
  by (induction xs) auto

lemma clean_code_ok: "clean_supported_lang_code c = Some l \<Longrightarrow> code_ok l"
proof -
  assume "clean_supported_lang_code c = Some l"
  then have "l \<in> set supported_langs" using clean_supported by (cases c) (auto simp: clean_supported_lang_code_def [of None])
  then show ?thesis unfolding code_ok_def by (rule clean_of_supported)
qed

lemma validate_all_ok: "validate_all cs = Inr ls \<Longrightarrow> \<forall>l\<in>set ls. code_ok l"
  by (induction cs arbitrary: ls)
    (auto simp: validate_supported_lang_code_def dest: clean_code_ok split: sum.splits option.splits)

lemma code_list_ok: "code_list codes = Inr ls \<Longrightarrow> \<forall>l\<in>set ls. code_ok l"
  by (auto simp: code_list_def dest: validate_all_ok split: sum.splits)

lemma clean_items_ok:
  "\<forall>l\<in>set ls. code_ok l \<Longrightarrow> distinct (out @ ls) \<Longrightarrow> clean_items out (map VStr ls) = out @ ls"
  by (induction ls arbitrary: out) (auto simp: code_ok_def)

lemma lang_list_roundtrip:
  assumes "codec_ok dumps loads" and "kv_get key s = Some (VStr (dumps (dedup ls)))" and "\<forall>l\<in>set ls. code_ok l"
  shows "get_lang_list loads key s = dedup ls"
  using assms clean_items_ok [of "dedup ls" "[]"] by (simp add: get_lang_list_def codec_ok_def)

section \<open>The settings form\<close>

lemma after_Inr: "after r f = (Inr x, s') \<longleftrightarrow> (\<exists>s. r = (Inr (), s) \<and> f s = (Inr x, s'))"
  by (auto simp: after_def split: prod.splits sum.splits)

lemma set_lang_list_Inr:
  "set_lang_list dumps key codes s = (Inr (), s') \<longleftrightarrow>
    (\<exists>ls. code_list codes = Inr ls \<and> s' = drop_translations (kv_put key (VStr (dumps (dedup ls))) s))"
  by (auto simp: set_lang_list_def split: sum.splits)

lemma set_user_lang_Inr:
  "set_user_lang code s = (Inr (), s') \<longleftrightarrow>
    (case code of None \<Rightarrow> s' = drop_translations (kv_del user_lang_key s)
     | Some c \<Rightarrow> \<exists>l. clean_supported_lang_code (Some c) = Some l \<and> s' = drop_translations (kv_put user_lang_key (VStr l) s))"
  by (auto simp: set_user_lang_def validate_supported_lang_code_def split: option.splits)

text \<open>
  Saved translation settings read back: after an accepted form the mode, the target
  language, both language lists (cleaned, each code once, in order) and the message cap are the
  ones submitted, whatever was stored or configured before.
\<close>

theorem settings_roundtrip:
  assumes "codec_ok dumps loads"
    and "set_settings dumps mode (Some t) (Some known) (Some unknown) model (Some n) s = (Inr (), s')" and "t \<noteq> []"
  shows "let g = get_settings loads env s' in
      lg_mode g = mode \<and> lg_target g = clean_supported_lang_code (Some t) \<and> lg_target g \<noteq> None
      \<and> Inr (lg_known g) = map_sum id dedup (code_list known) \<and> Inr (lg_unknown g) = map_sum id dedup (code_list unknown)
      \<and> lg_max_messages g = n \<and> 1 \<le> n"
proof -
  have m: "mode \<in> set translate_modes" and n: "1 \<le> n"
    using assms(2) by (auto simp: set_settings_def split: if_splits)
  obtain s1 s2 s3 where s1: "set_user_lang (Some t) s = (Inr (), s1)"
    and s2: "set_known_langs dumps known s1 = (Inr (), s2)" and s3: "set_unknown_langs dumps unknown s2 = (Inr (), s3)"
    and f: "set_translate_mode (Some mode) (kv_put max_messages_key (VInt n)
      (case model of None \<Rightarrow> s3 | Some k \<Rightarrow> set_translate_model (if k = [] then None else Some k) s3)) = (Inr (), s')"
    using assms(2,3) m n by (auto simp: set_settings_def after_Inr set_max_messages_def)
  obtain l where l: "clean_supported_lang_code (Some t) = Some l" "s1 = drop_translations (kv_put user_lang_key (VStr l) s)"
    using s1 by (auto simp: set_user_lang_Inr)
  obtain ks where ks: "code_list known = Inr ks" "s2 = drop_translations (kv_put known_langs_key (VStr (dumps (dedup ks))) s1)"
    using s2 by (auto simp: set_known_langs_def set_lang_list_Inr)
  obtain us where us: "code_list unknown = Inr us" "s3 = drop_translations (kv_put unknown_langs_key (VStr (dumps (dedup us))) s2)"
    using s3 by (auto simp: set_unknown_langs_def set_lang_list_Inr)
  let ?s4 = "case model of None \<Rightarrow> s3 | Some k \<Rightarrow> set_translate_model (if k = [] then None else Some k) s3"
  have s': "s' = drop_translations (kv_put translate_mode_key (VStr mode) (kv_put max_messages_key (VInt n) ?s4))"
    using f m by (simp add: set_translate_mode_def)
  have k4: "key \<noteq> translate_model_key \<Longrightarrow> kv_get key ?s4 = kv_get key s3" for key
    by (auto simp: set_translate_model_def split: option.split)
  have g: "kv_get user_lang_key s' = Some (VStr l)" "kv_get known_langs_key s' = Some (VStr (dumps (dedup ks)))"
    "kv_get unknown_langs_key s' = Some (VStr (dumps (dedup us)))" "kv_get translate_mode_key s' = Some (VStr mode)"
    "kv_get max_messages_key s' = Some (VInt n)"
    unfolding s' using k4 by (simp_all add: us(2) ks(2) l(2) key_defs)
  have lt: "l \<noteq> []" "clean_supported_lang_code (Some l) = Some l"
    using clean_code_ok [OF l(1)] clean_supported [OF l(1)] by (auto simp: code_ok_def supported_langs_def)
  have "strip (str_int n) \<noteq> []" using parse_str_int [of n] by (auto simp: parse_int_def)
  then have mx: "get_max_messages env s' = n" using n by (simp add: get_max_messages_def g)
  show ?thesis
    using lang_list_roundtrip [OF assms(1) g(2) code_list_ok [OF ks(1)]] lang_list_roundtrip [OF assms(1) g(3) code_list_ok [OF us(1)]] m n mx lt
    by (simp add: get_settings_def get_known_langs_def get_unknown_langs_def get_translate_mode_def get_user_lang_def g ks us l(1))
qed

text \<open>
  A rejected settings form can be half applied: the target language is stored, and every
  cached translation dropped, before the language lists are validated, so a form with a good
  target and a bad list raises although the target has changed; the mode is not.
\<close>

theorem settings_half_applied:
  assumes "mode \<in> set translate_modes" and "clean_supported_lang_code (Some t) = Some l" and "t \<noteq> []"
    and "code_list codes = Inl e"
  shows "\<exists>s'. set_settings dumps mode (Some t) (Some codes) unknown model None s = (Inl e, s')
    \<and> kv_get user_lang_key s' = Some (VStr l) \<and> ls_msgs s' = clear_all_translations (ls_msgs s)
    \<and> kv_get translate_mode_key s' = kv_get translate_mode_key s"
proof -
  let ?s1 = "drop_translations (kv_put user_lang_key (VStr l) s)"
  have "set_user_lang (Some t) s = (Inr (), ?s1)" using assms(2) by (simp add: set_user_lang_Inr)
  moreover have "set_known_langs dumps codes ?s1 = (Inl e, ?s1)" using assms(4) by (simp add: set_known_langs_def set_lang_list_def)
  ultimately have "set_settings dumps mode (Some t) (Some codes) unknown model None s = (Inl e, ?s1)"
    using assms(1,3) by (simp add: set_settings_def after_def)
  moreover have "ls_msgs ?s1 = clear_all_translations (ls_msgs s)" by (simp add: drop_translations_def)
  ultimately show ?thesis by (intro exI [of _ ?s1]) (simp add: key_defs)
qed

lemma clean_items_sound:
  "distinct out \<Longrightarrow> set out \<subseteq> set supported_langs \<Longrightarrow> distinct (clean_items out vs) \<and> set (clean_items out vs) \<subseteq> set supported_langs"
proof (induction vs arbitrary: out)
  case (Cons v vs)
  then show ?case using clean_supported by (auto split: option.splits)
qed simp

lemma lang_list_sound: "distinct (get_lang_list loads key s) \<and> set (get_lang_list loads key s) \<subseteq> set supported_langs"
proof -
  have "get_lang_list loads key s = [] \<or> (\<exists>vs. get_lang_list loads key s = clean_items [] vs)"
    by (auto simp: get_lang_list_def split: option.split kv_value.split)
  then show ?thesis
  proof (elim disjE exE)
    fix vs assume "get_lang_list loads key s = clean_items [] vs"
    then show ?thesis using clean_items_sound [of "[]" vs] by simp
  qed simp
qed

text \<open>What the translator is told: never both lists at once, only supported codes, each once,
  and the target is skipped in every mode but an explicit list of its own.\<close>

lemma resolve_skip_only_spec:
  assumes "truthy target" and "the target \<in> set supported_langs"
  shows "case resolve_skip_only loads env target s of (skip, only) \<Rightarrow>
    (skip = [] \<or> only = []) \<and> distinct skip \<and> distinct only \<and> set (skip @ only) \<subseteq> set supported_langs
    \<and> (the target \<in> set skip \<or> only \<noteq> [] \<or> get_translate_mode env s = ''skip_known'')"
  using assms lang_list_sound [of loads known_langs_key s] lang_list_sound [of loads unknown_langs_key s]
  by (simp add: resolve_skip_only_def get_known_langs_def get_unknown_langs_def Let_def)

section \<open>A concrete codec\<close>

definition toy_dumps :: "string list \<Rightarrow> string" where
  "toy_dumps xs = CHR ''['' # concat (map (\<lambda>s. concat (map (\<lambda>c. [CHR ''x'', c]) s) @ ''y'') xs)"

fun toy_items :: "string \<Rightarrow> string \<Rightarrow> string list" where
  "toy_items acc [] = []"
| "toy_items acc [c] = (if c = CHR ''y'' then [acc] else [])"
| "toy_items acc (c # d # r) = (if c = CHR ''y'' then acc # toy_items [] (d # r) else toy_items (acc @ [d]) r)"

definition toy_loads :: "string \<Rightarrow> kv_value option" where
  "toy_loads t = Some (VList (map VStr (toy_items [] (tl t))))"

lemma toy_items_word: "toy_items acc (concat (map (\<lambda>c. [CHR ''x'', c]) s) @ CHR ''y'' # r) = (acc @ s) # toy_items [] r"
  by (induction s arbitrary: acc; cases r) auto

lemma toy_codec: "codec_ok toy_dumps toy_loads"
proof -
  have "toy_items [] (concat (map (\<lambda>s. concat (map (\<lambda>c. [CHR ''x'', c]) s) @ ''y'') xs)) = xs" for xs
    by (induction xs) (simp_all add: toy_items_word)
  then show ?thesis by (simp add: codec_ok_def toy_dumps_def toy_loads_def)
qed

definition empty_lang_store :: lang_store where
  "empty_lang_store = \<lparr>ls_kv = [], ls_msgs = \<lparr>mt_rows = [], mt_sync = [], mt_ttl = 0, mt_locks = [], mt_last = []\<rparr>\<rparr>"

lemma clean_en: "clean_supported_lang_code (Some ''en'') = Some ''en''" "clean_supported_lang_code (Some ''ru'') = Some ''ru''"
  by (rule clean_of_supported, simp add: supported_langs_def)+

theorem settings_half_applied_witness:
  "\<exists>s'. set_settings toy_dumps ''skip_known'' (Some ''en'') (Some (Inr [''xx''])) None None None empty_lang_store = (Inl InvalidLang, s')
    \<and> kv_get user_lang_key s' = Some (VStr ''en'')"
proof -
  have "code_list (Inr [''xx'']) = Inl InvalidLang"
    by (simp add: code_list_def validate_supported_lang_code_def clean_supported_lang_code_def supported_langs_def lower_def
        strip_by_def rstrip_by_def lstrip_by_def is_space_def space_cp_def lower_char_def Let_def)
  then show ?thesis
    using settings_half_applied [of "''skip_known''" "''en''" "''en''" "Inr [''xx'']" InvalidLang toy_dumps None None empty_lang_store]
      clean_en by (auto simp: translate_modes_def)
qed

theorem settings_roundtrip_witness:
  "\<exists>s'. set_settings toy_dumps ''skip_known'' (Some ''en'') (Some (Inr [''ru'', ''en'', ''ru''])) (Some (Inr [])) None (Some 7) empty_lang_store = (Inr (), s')
    \<and> lg_known (get_settings toy_loads (\<lambda>_. None) s') = [''ru'', ''en''] \<and> lg_max_messages (get_settings toy_loads (\<lambda>_. None) s') = 7"
proof -
  have c: "code_list (Inr [''ru'', ''en'', ''ru'']) = Inr [''ru'', ''en'', ''ru'']" "code_list (Inr []) = Inr []"
    by (simp_all add: code_list_def validate_supported_lang_code_def clean_en)
  obtain s' where s': "set_settings toy_dumps ''skip_known'' (Some ''en'') (Some (Inr [''ru'', ''en'', ''ru''])) (Some (Inr [])) None (Some 7) empty_lang_store = (Inr (), s')"
    by (simp add: set_settings_def after_def set_user_lang_def validate_supported_lang_code_def clean_en set_known_langs_def
        set_unknown_langs_def set_lang_list_def c set_max_messages_def set_translate_mode_def translate_modes_def)
  show ?thesis
    using settings_roundtrip [OF toy_codec s', of "\<lambda>_. None"] s' by (auto simp: Let_def c)
qed

end
