(* ===== verification/Translator.thy ===== *)
theory Translator
  imports Lang_Settings
begin

text \<open>
  The \<open>Translator\<close> of \<open>src/tg_messenger/agent/translate.py\<close>: which messages of a history need
  the model, one call for the most recent of them, and the cache in the messages table. The
  model's answer, Python's Unicode letter class and the failures of the storage are arguments.
\<close>

section \<open>Preparing a history\<close>

text \<open>Where the storage raises for a message.\<close>

datatype stage = AllOk | LookupFails | UpsertFails | SetFails

definition needs_translation :: "(nat \<Rightarrow> bool) \<Rightarrow> utext option \<Rightarrow> string option \<Rightarrow> bool" where
  "needs_translation is_letter body target_lang =
     (if \<not> truthy body \<or> \<not> truthy target_lang then False else list_ex is_letter (the body))"

text \<open>Row first, then its translation; whether both writes went through.\<close>

definition store_translation :: "stage \<Rightarrow> message \<Rightarrow> string \<Rightarrow> utext option \<Rightarrow> lang_store \<Rightarrow> bool \<times> lang_store" where
  "store_translation st m target t s =
     (let s1 = s\<lparr>ls_msgs := upsert_message_for_translation m (ls_msgs s)\<rparr>
      in if st = UpsertFails then (False, s)
         else if st = SetFails then (False, s1)
         else (True, s1\<lparr>ls_msgs := set_message_translation (ms_dialog_id m) (ms_id m) target t (ls_msgs s1)\<rparr>))"

definition prepare_message :: "(nat \<Rightarrow> bool) \<Rightarrow> stage \<Rightarrow> string \<Rightarrow> message \<Rightarrow> lang_store \<Rightarrow> (message \<times> bool) \<times> lang_store" where
  "prepare_message is_letter st target m s =
     (if st = LookupFails then ((m, False), s)
      else (case get_message_translation (ms_dialog_id m) (ms_id m) target (ms_text m) (ls_msgs s) of
              Some (t, _) \<Rightarrow> ((m\<lparr>ms_translated_text := t\<rparr>, False), s)
            | None \<Rightarrow>
                if \<not> needs_translation is_letter (ms_text m) (Some target)
                then (case store_translation st m target None s of
                        (True, s') \<Rightarrow> ((m\<lparr>ms_translated_text := None\<rparr>, False), s')
                      | (False, s') \<Rightarrow> ((m, False), s'))
                else ((m, True), s)))"

fun prepare_all :: "(nat \<Rightarrow> bool) \<Rightarrow> (message \<Rightarrow> stage) \<Rightarrow> string \<Rightarrow> message list \<Rightarrow> lang_store
    \<Rightarrow> message list \<times> message list \<times> lang_store" where
  "prepare_all is_letter fate target [] s = ([], [], s)"
| "prepare_all is_letter fate target (m # ms) s =
     (if ms_out m
      then (let (res, pend, s') = prepare_all is_letter fate target ms s in (m # res, pend, s'))
      else (let ((m', needs_llm), s1) = prepare_message is_letter (fate m) target m s;
                (res, pend, s') = prepare_all is_letter fate target ms s1
            in (m' # res, (if needs_llm \<and> truthy (ms_text m) then m # pend else pend), s')))"

section \<open>The model call and its cache\<close>

fun cache_answers :: "(message \<Rightarrow> stage) \<Rightarrow> (int \<Rightarrow> utext option) \<Rightarrow> string \<Rightarrow> message list \<Rightarrow> (int, utext option) odict \<Rightarrow> lang_store
    \<Rightarrow> (int, utext option) odict \<times> lang_store" where
  "cache_answers fate f target [] updates s = (updates, s)"
| "cache_answers fate f target (m # ms) updates s =
     (case store_translation (fate m) m target (f (ms_id m)) s of
        (True, s') \<Rightarrow> cache_answers fate f target ms (od_set (ms_id m) (f (ms_id m)) updates) s'
      | (False, s') \<Rightarrow> cache_answers fate f target ms updates s')"

type_synonym payload = "(int \<times> utext) list"
type_synonym translate_fn = "payload \<Rightarrow> string \<Rightarrow> string list \<Rightarrow> string list \<Rightarrow> (int \<Rightarrow> utext option) option"

definition payload_of :: "message list \<Rightarrow> payload" where
  "payload_of pend = map (\<lambda>m. (ms_id m, the (ms_text m))) pend"

definition translate_pending :: "translate_fn \<Rightarrow> (message \<Rightarrow> stage) \<Rightarrow> message list \<Rightarrow> string \<Rightarrow> string list \<Rightarrow> string list \<Rightarrow> lang_store
    \<Rightarrow> (int, utext option) odict \<times> lang_store" where
  "translate_pending fn fate pend target skip only s =
     (case fn (payload_of pend) target skip only of
        None \<Rightarrow> ([], s)
      | Some f \<Rightarrow> cache_answers fate f target pend [] s)"

definition fill_in :: "(int, utext option) odict \<Rightarrow> message \<Rightarrow> message" where
  "fill_in by_id m = (case od_get by_id (ms_id m) of
     Some (Some t) \<Rightarrow> m\<lparr>ms_translated_text := Some t\<rparr> | _ \<Rightarrow> m)"

text \<open>The result is the history shown, what the model was asked (None: it was not), the store.\<close>

definition translate_history :: "environ \<Rightarrow> (string \<Rightarrow> kv_value option) \<Rightarrow> (nat \<Rightarrow> bool) \<Rightarrow> translate_fn \<Rightarrow> (message \<Rightarrow> stage)
    \<Rightarrow> message list \<Rightarrow> lang_store \<Rightarrow> message list \<times> payload option \<times> lang_store" where
  "translate_history env loads is_letter fn fate messages s =
     (case get_user_lang env s of
        None \<Rightarrow> (messages, None, s)
      | Some target \<Rightarrow>
          if get_translate_mode env s = ''off'' then (messages, None, s)
          else (let (skip, only) = resolve_skip_only loads env (Some target) s;
                    (result, pending, s1) = prepare_all is_letter fate target messages s
                in if pending = [] then (result, None, s1)
                   else (let cap = nat (get_max_messages env s1);
                             pend = (if cap < length pending then drop (length pending - cap) pending else pending);
                             (by_id, s2) = translate_pending fn fate pend target skip only s1
                         in (map (fill_in by_id) result, Some (payload_of pend), s2))))"

definition translate_message :: "environ \<Rightarrow> (string \<Rightarrow> kv_value option) \<Rightarrow> (nat \<Rightarrow> bool) \<Rightarrow> translate_fn \<Rightarrow> (message \<Rightarrow> stage)
    \<Rightarrow> message \<Rightarrow> lang_store \<Rightarrow> message \<times> lang_store" where
  "translate_message env loads is_letter fn fate m s =
     (case translate_history env loads is_letter fn fate [m] s of
        ([], _, s') \<Rightarrow> (m, s') | (t # _, _, s') \<Rightarrow> (t, s'))"

section \<open>The cache\<close>

abbreviation cached :: "string \<Rightarrow> message \<Rightarrow> lang_store \<Rightarrow> (utext option \<times> string) option" where
  "cached target m s \<equiv> get_message_translation (ms_dialog_id m) (ms_id m) target (ms_text m) (ls_msgs s)"

lemma set_translation_get:
  "od_get (mt_rows (set_message_translation d i lang t st)) k =
     (if k = (d, i) then map_option (\<lambda>r. r\<lparr>rw_translated_text := t, rw_translated_lang := Some lang\<rparr>) (od_get (mt_rows st) k)
      else od_get (mt_rows st) k)"
  by (auto simp: set_message_translation_def od_simps split: option.split)

lemma store_translation_kv [simp]: "ls_kv (snd (store_translation st m target t s)) = ls_kv s"
  by (simp add: store_translation_def Let_def)

lemma store_translation_ok: "fst (store_translation AllOk m target t s)"
  by (simp add: store_translation_def Let_def)

lemma store_translation_own: "cached target m (snd (store_translation AllOk m target t s)) = Some (t, target)"
  by (auto simp: store_translation_def Let_def get_message_translation_def set_translation_get
      upsert_message_for_translation_def od_simps new_row_def merge_author_def split: option.split)

lemma store_translation_other:
  assumes "(ms_dialog_id n, ms_id n) \<noteq> (ms_dialog_id m, ms_id m)"
  shows "cached lang n (snd (store_translation st m target t s)) = cached lang n s"
proof -
  have "od_get (mt_rows (ls_msgs (snd (store_translation st m target t s)))) (ms_dialog_id n, ms_id n) =
      od_get (mt_rows (ls_msgs s)) (ms_dialog_id n, ms_id n)"
    using assms by (auto simp: store_translation_def Let_def set_translation_get upsert_message_for_translation_def od_simps)
  then show ?thesis by (simp add: get_message_translation_def)
qed

text \<open>A message as the cache shows it.\<close>

definition shown :: "string \<Rightarrow> lang_store \<Rightarrow> message \<Rightarrow> message" where
  "shown target s m = (if ms_out m then m
     else (case cached target m s of None \<Rightarrow> m | Some (t, _) \<Rightarrow> m\<lparr>ms_translated_text := t\<rparr>))"

lemma prepare_cached:
  assumes "\<forall>m\<in>set ms. ms_out m \<or> cached target m s \<noteq> None"
  shows "prepare_all L (\<lambda>_. AllOk) target ms s = (map (shown target s) ms, [], s)"
  using assms by (induction ms) (auto simp: prepare_message_def shown_def split: option.splits)

text \<open>Preparing one message, when the storage works.\<close>

lemma prepare_message_cases:
  obtains (hit) t l where "cached target m s = Some (t, l)" "prepare_message L AllOk target m s = ((m\<lparr>ms_translated_text := t\<rparr>, False), s)"
  | (plain) s' where "cached target m s = None" "\<not> needs_translation L (ms_text m) (Some target)" "s' = snd (store_translation AllOk m target None s)"
      "prepare_message L AllOk target m s = ((m\<lparr>ms_translated_text := None\<rparr>, False), s')"
  | (ask) "cached target m s = None" "truthy (ms_text m)" "prepare_message L AllOk target m s = ((m, True), s)"
proof (cases "cached target m s")
  case (Some p)
  then show thesis by (cases p) (auto intro: hit simp: prepare_message_def)
next
  case None
  show thesis
  proof (cases "needs_translation L (ms_text m) (Some target)")
    case True
    then have "truthy (ms_text m)" by (simp add: needs_translation_def split: if_splits)
    then show thesis using None True by (intro ask) (simp_all add: prepare_message_def)
  next
    case False
    obtain s' where s': "store_translation AllOk m target None s = (True, s')"
      using store_translation_ok [of m target None s] by (cases "store_translation AllOk m target None s") auto
    then show thesis using None False by (intro plain [of s']) (simp_all add: prepare_message_def)
  qed
qed

lemma prepare_all_spec:
  assumes "distinct (map ms_id ms)" and "prepare_all L (\<lambda>_. AllOk) target ms s = (res, pend, s')"
  shows "ls_kv s' = ls_kv s \<and> set pend \<subseteq> set ms \<and> distinct (map ms_id pend) \<and> (\<forall>m\<in>set pend. \<not> ms_out m)
    \<and> (\<forall>m\<in>set ms. m \<notin> set pend \<longrightarrow> ms_out m \<or> cached target m s' \<noteq> None)
    \<and> res = map (\<lambda>m. if m \<in> set pend then m else shown target s' m) ms
    \<and> (\<forall>n. ms_id n \<notin> set (map ms_id ms) \<longrightarrow> cached target n s' = cached target n s)"
  using assms
proof (induction ms arbitrary: s res pend s')
  case Nil
  then show ?case by simp
next
  case (Cons m ms)
  have dist: "distinct (map ms_id ms)" "ms_id m \<notin> ms_id ` set ms" using Cons.prems(1) by auto
  have nm: "m \<notin> set ms" using dist(2) by blast
  show ?case
  proof (cases "ms_out m")
    case True
    obtain r p t where r: "prepare_all L (\<lambda>_. AllOk) target ms s = (r, p, t)" by (metis prod_cases3)
    have e: "res = m # r" "pend = p" "s' = t" using Cons.prems(2) True r by auto
    have IH: "ls_kv t = ls_kv s" "set p \<subseteq> set ms" "distinct (map ms_id p)" "\<forall>m\<in>set p. \<not> ms_out m"
      "\<forall>m\<in>set ms. m \<notin> set p \<longrightarrow> ms_out m \<or> cached target m t \<noteq> None"
      "r = map (\<lambda>m. if m \<in> set p then m else shown target t m) ms"
      "\<forall>n. ms_id n \<notin> set (map ms_id ms) \<longrightarrow> cached target n t = cached target n s"
      using Cons.IH [OF dist(1) r] by auto
    have "m \<notin> set p" using IH(2) nm by blast
    then show ?thesis unfolding e using IH True by (auto simp: shown_def)
  next
    case False
    obtain m' b s1 where pm: "prepare_message L AllOk target m s = ((m', b), s1)" by (metis prod.exhaust)
    obtain r p t where r: "prepare_all L (\<lambda>_. AllOk) target ms s1 = (r, p, t)" by (metis prod_cases3)
    have e: "res = m' # r" "pend = (if b \<and> truthy (ms_text m) then m # p else p)" "s' = t"
      using Cons.prems(2) False by (simp_all add: pm r)
    have IH: "ls_kv t = ls_kv s1" "set p \<subseteq> set ms" "distinct (map ms_id p)" "\<forall>m\<in>set p. \<not> ms_out m"
      "\<forall>m\<in>set ms. m \<notin> set p \<longrightarrow> ms_out m \<or> cached target m t \<noteq> None"
      "r = map (\<lambda>m. if m \<in> set p then m else shown target t m) ms"
      "\<forall>n. ms_id n \<notin> set (map ms_id ms) \<longrightarrow> cached target n t = cached target n s1"
      using Cons.IH [OF dist(1) r] by auto
    have mt: "cached target m t = cached target m s1" using IH(7) dist(2) by simp
    have other: "ms_id n \<noteq> ms_id m \<Longrightarrow> cached target n (snd (store_translation AllOk m target None s)) = cached target n s" for n
      by (rule store_translation_other) simp
    have mp: "m \<notin> set p" "ms_id m \<notin> set (map ms_id p)" using IH(2) dist(2) by auto
    have keep: "map (\<lambda>m. if m \<in> set p then m else shown target t m) ms = map (\<lambda>x. if x = m \<or> x \<in> set p then x else shown target t x) ms"
      using nm by (intro map_cong) auto
    show ?thesis
    proof (cases rule: prepare_message_cases [of m target s L])
      case (hit u l)
      then have "m' = m\<lparr>ms_translated_text := u\<rparr>" "b = False" "s1 = s" using pm by auto
      then show ?thesis using IH hit mt False mp by (auto simp: e shown_def)
    next
      case (plain s2)
      then have p: "m' = m\<lparr>ms_translated_text := None\<rparr>" "b = False" "s1 = s2" using pm by auto
      have "cached target m t = Some (None, target)" using mt store_translation_own by (simp add: p plain)
      then show ?thesis using IH p plain mp False other by (auto simp: e shown_def)
    next
      case ask
      then have p: "m' = m" "b = True" "s1 = s" using pm by auto
      show ?thesis using IH p ask mp False keep by (auto simp: e)
    qed
  qed
qed

text \<open>Caching the answers, when the storage works.\<close>

lemma cache_answers_spec:
  assumes "distinct (map ms_id ms)" and "cache_answers (\<lambda>_. AllOk) f target ms w s = (v, s')"
  shows "ls_kv s' = ls_kv s \<and> (\<forall>m\<in>set ms. cached target m s' = Some (f (ms_id m), target))
    \<and> (\<forall>n. ms_id n \<notin> ms_id ` set ms \<longrightarrow> cached target n s' = cached target n s)
    \<and> (\<forall>k. od_get v k = (if k \<in> ms_id ` set ms then Some (f k) else od_get w k))"
  using assms
proof (induction ms arbitrary: w s v s')
  case Nil
  then show ?case by simp
next
  case (Cons m ms)
  let ?s = "snd (store_translation AllOk m target (f (ms_id m)) s)"
  have st: "store_translation AllOk m target (f (ms_id m)) s = (True, ?s)"
    using store_translation_ok [of m target "f (ms_id m)" s] by (simp add: prod_eq_iff)
  have r: "cache_answers (\<lambda>_. AllOk) f target ms (od_set (ms_id m) (f (ms_id m)) w) ?s = (v, s')"
    using Cons.prems(2) by (subst (asm) cache_answers.simps, subst (asm) st) simp
  have dist: "distinct (map ms_id ms)" "ms_id m \<notin> ms_id ` set ms" using Cons.prems(1) by auto
  have IH: "ls_kv s' = ls_kv ?s" "\<forall>n\<in>set ms. cached target n s' = Some (f (ms_id n), target)"
    "\<forall>n. ms_id n \<notin> ms_id ` set ms \<longrightarrow> cached target n s' = cached target n ?s"
    "\<forall>k. od_get v k = (if k \<in> ms_id ` set ms then Some (f k) else od_get (od_set (ms_id m) (f (ms_id m)) w) k)"
    using Cons.IH [OF dist(1) r] by auto
  have own: "cached target m s' = Some (f (ms_id m), target)"
    using IH(3) dist(2) store_translation_own by simp
  have other: "ms_id n \<noteq> ms_id m \<Longrightarrow> cached target n ?s = cached target n s" for n
    by (rule store_translation_other) simp
  show ?case
  proof (intro conjI)
    show "ls_kv s' = ls_kv s" using IH(1) by simp
    show "\<forall>n\<in>set (m # ms). cached target n s' = Some (f (ms_id n), target)" using IH(2) own by simp
    show "\<forall>n. ms_id n \<notin> ms_id ` set (m # ms) \<longrightarrow> cached target n s' = cached target n s"
      using IH(3) other by simp
    show "\<forall>k. od_get v k = (if k \<in> ms_id ` set (m # ms) then Some (f k) else od_get w k)"
      using IH(4) by (simp add: od_simps)
  qed
qed

text \<open>The settings a reading consults live in kv, so caching leaves them as they were.\<close>

lemma settings_kv:
  assumes "ls_kv t = ls_kv s"
  shows "get_user_lang env t = get_user_lang env s" "get_translate_mode env t = get_translate_mode env s"
    "get_max_messages env t = get_max_messages env s"
proof -
  have k: "kv_get x t = kv_get x s" for x using assms by (simp add: kv_get_def)
  show u: "get_user_lang env t = get_user_lang env s" by (simp add: get_user_lang_def k)
  show "get_translate_mode env t = get_translate_mode env s" 
    by (cases "get_user_lang env s") (simp_all add: get_translate_mode_def k u)
  show "get_max_messages env t = get_max_messages env s" by (simp add: get_max_messages_def k)
qed

lemma fill_in_plain: "od_get v (ms_id m) = None \<Longrightarrow> fill_in v m = m"
  by (simp add: fill_in_def)

lemma fill_in_ms_id [simp]: "ms_id (shown target s m) = ms_id m"
  by (auto simp: shown_def split: option.split)

text \<open>What a whole reading leaves: every incoming message is cached and shown as cached.\<close>

lemma answers_shown:
  assumes d: "distinct (map ms_id ms)" and fresh: "\<forall>m\<in>set ms. ms_translated_text m = None"
    and prep: "prepare_all L (\<lambda>_. AllOk) target ms s = (res, pend, s1)"
    and ans: "cache_answers (\<lambda>_. AllOk) f target pend [] s1 = (v, s2)"
  shows "map (fill_in v) res = map (shown target s2) ms \<and> (\<forall>m\<in>set ms. ms_out m \<or> cached target m s2 \<noteq> None)
    \<and> ls_kv s2 = ls_kv s"
proof -
  have P: "ls_kv s1 = ls_kv s" "set pend \<subseteq> set ms" "distinct (map ms_id pend)" "\<forall>m\<in>set pend. \<not> ms_out m"
    "\<forall>m\<in>set ms. m \<notin> set pend \<longrightarrow> ms_out m \<or> cached target m s1 \<noteq> None"
    "res = map (\<lambda>m. if m \<in> set pend then m else shown target s1 m) ms"
    using prepare_all_spec [OF d prep] by auto
  have C: "ls_kv s2 = ls_kv s1" "\<forall>m\<in>set pend. cached target m s2 = Some (f (ms_id m), target)"
    "\<forall>n. ms_id n \<notin> ms_id ` set pend \<longrightarrow> cached target n s2 = cached target n s1"
    "\<forall>k. od_get v k = (if k \<in> ms_id ` set pend then Some (f k) else od_get [] k)"
    using cache_answers_spec [OF P(3) ans] by auto
  have away: "ms_id m \<notin> ms_id ` set pend" if "m \<in> set ms" "m \<notin> set pend" for m
    using that P(2) d unfolding distinct_map by (auto dest: inj_onD)
  have "fill_in v (if m \<in> set pend then m else shown target s1 m) = shown target s2 m" if m: "m \<in> set ms" for m
  proof (cases "m \<in> set pend")
    case True
    then have "od_get v (ms_id m) = Some (f (ms_id m))" "cached target m s2 = Some (f (ms_id m), target)" "\<not> ms_out m"
      using C(2,4) P(4) by auto
    then show ?thesis using True fresh m by (auto simp: fill_in_def shown_def split: option.split)
  next
    case False
    then have "od_get v (ms_id m) = None" "cached target m s2 = cached target m s1"
      using C(3,4) away [OF m False] by auto
    moreover have "fill_in v (shown target s1 m) = shown target s1 m" using calculation(1) by (simp add: fill_in_plain)
    ultimately show ?thesis using False by (simp add: shown_def)
  qed
  then have "map (fill_in v) res = map (shown target s2) ms" by (simp add: P(6))
  moreover have "\<forall>m\<in>set ms. ms_out m \<or> cached target m s2 \<noteq> None"
    using C(2,3) P(5) away by (metis option.distinct(1))
  ultimately show ?thesis using C(1) P(1) by simp
qed

text \<open>A second reading finds everything in the cache.\<close>

lemma reading_settled:
  assumes "distinct (map ms_id ms)" and "\<forall>m\<in>set ms. ms_translated_text m = None"
    and "length ms \<le> nat (get_max_messages env s)"
    and "\<forall>p t k only. fn p t k only \<noteq> None"
    and "translate_history env loads L fn (\<lambda>_. AllOk) ms s = (seen, asked, s')"
  shows "translate_history env loads L fn' (\<lambda>_. AllOk) ms s' = (seen, None, s')"
proof (cases "get_user_lang env s = None \<or> get_translate_mode env s = ''off''")
  case True
  then have "seen = ms \<and> s' = s" using assms(5) by (auto simp: translate_history_def split: option.splits)
  then show ?thesis using True by (auto simp: translate_history_def split: option.splits)
next
  case False
  then obtain target where t: "get_user_lang env s = Some target" and mode: "get_translate_mode env s \<noteq> ''off''" by auto
  obtain sk on where so: "resolve_skip_only loads env (Some target) s = (sk, on)" by (metis prod.exhaust)
  obtain res pend s1 where prep: "prepare_all L (\<lambda>_. AllOk) target ms s = (res, pend, s1)" by (metis prod_cases3)
  have kv1: "ls_kv s1 = ls_kv s" and sub: "set pend \<subseteq> set ms" and dp: "distinct (map ms_id pend)"
    using prepare_all_spec [OF assms(1) prep] by auto
  have len: "\<not> nat (get_max_messages env s1) < length pend"
  proof -
    have "length pend = card (set pend)" using dp by (metis distinct_card distinct_map)
    also have "\<dots> \<le> length ms" using sub by (meson card_length card_mono finite_set order_trans)
    finally show ?thesis using assms(3) settings_kv(3) [OF kv1] by simp
  qed
  obtain f where f: "fn (payload_of pend) target sk on = Some f" using assms(4) by blast
  obtain v s2 where ans: "cache_answers (\<lambda>_. AllOk) f target pend [] s1 = (v, s2)" by (metis prod.exhaust)
  have "map (fill_in v) res = seen \<and> s2 = s'"
  proof (cases "pend = []")
    case True
    then have "v = []" "s2 = s1" using ans by auto
    moreover have "seen = res" "s' = s1" using assms(5) True by (simp_all add: translate_history_def t mode so prep)
    ultimately show ?thesis by (simp add: fill_in_plain map_idI)
  next
    case False
    then show ?thesis using assms(5) len
      by (simp add: translate_history_def t mode so prep Let_def translate_pending_def f ans)
  qed
  then have s2: "seen = map (fill_in v) res" "s2 = s'" by auto
  have A: "seen = map (shown target s') ms" "\<forall>m\<in>set ms. ms_out m \<or> cached target m s' \<noteq> None" "ls_kv s' = ls_kv s"
    using answers_shown [OF assms(1,2) prep ans] unfolding s2 by auto
  obtain sk' on' where so': "resolve_skip_only loads env (Some target) s' = (sk', on')" by (metis prod.exhaust)
  show ?thesis using settings_kv [OF A(3)] t mode
    by (simp add: translate_history_def so' prepare_cached [OF A(2)] A(1))
qed

section \<open>Properties\<close>

text \<open>
  C17: Reading a history twice asks the model at most once. When the storage works, the model answers,
  the message ids differ, none carries a translation yet and the history is no longer than
  the cap on a call, a second reading of the same history from the store the first one left
  shows the same messages, changes nothing and makes no model call, whatever the model would now
  say. In particular a message the model left untranslated is not sent again.
\<close>

theorem translated_once:
  assumes "distinct (map ms_id ms)" and "\<forall>m\<in>set ms. ms_translated_text m = None"
    and "length ms \<le> nat (get_max_messages env s)"
    and "\<forall>p t k only. fn p t k only \<noteq> None"
    and "translate_history env loads L fn (\<lambda>_. AllOk) ms s = (seen, asked, s')"
  shows "translate_history env loads L fn' (\<lambda>_. AllOk) ms s' = (seen, None, s')"
  by (rule reading_settled [OF assms])

text \<open>One incoming message, a target language, a model that answers everything with one word.\<close>

definition toy_history :: "message list" where
  "toy_history = [\<lparr>ms_id = 1, ms_dialog_id = 5, ms_sender_id = 9, ms_out = False, ms_date = 0,
     ms_text = Some (u ''hej''), ms_media = None, ms_reply_to_id = None, ms_is_forward = False, ms_translated_text = None, ms_sender = None\<rparr>]"

definition toy_target_store :: lang_store where
  "toy_target_store = empty_lang_store\<lparr>ls_kv := [(user_lang_key, VStr ''en'')]\<rparr>"

lemma toy_settings: "get_user_lang (\<lambda>_. None) toy_target_store = Some ''en''"
  "get_translate_mode (\<lambda>_. None) toy_target_store = ''all_unknown''" "get_max_messages (\<lambda>_. None) toy_target_store = 100"
proof -
  show lang: "get_user_lang (\<lambda>_. None) toy_target_store = Some ''en''"
    by (simp add: toy_target_store_def get_user_lang_def kv_get_def od_simps clean_en)
  show "get_translate_mode (\<lambda>_. None) toy_target_store = ''all_unknown''"
    by (simp add: get_translate_mode_def lang) (simp add: toy_target_store_def kv_get_def od_simps user_lang_key_def translate_mode_key_def)
  show "get_max_messages (\<lambda>_. None) toy_target_store = 100"
    by (simp add: toy_target_store_def get_max_messages_def kv_get_def od_simps max_messages_key_def user_lang_key_def default_max_messages_def)
qed

lemma toy_reading:
  assumes "\<forall>p t k only. fn p t k only = Some f"
  shows "\<exists>s'. translate_history (\<lambda>_. None) (\<lambda>_. None) (\<lambda>_. True) fn (\<lambda>_. AllOk) toy_history toy_target_store
    = (map (fill_in [(1, f 1)]) toy_history, Some [(1, u ''hej'')], s')"
proof -
  obtain sk on where so: "resolve_skip_only (\<lambda>_. None) (\<lambda>_. None) (Some ''en'') toy_target_store = (sk, on)" by (metis prod.exhaust)
  obtain m where m: "toy_history = [m]" "ms_id m = 1" "ms_text m = Some (u ''hej'')" "\<not> ms_out m" "ms_translated_text m = None"
    by (simp add: toy_history_def)
  have prep: "prepare_message (\<lambda>_. True) AllOk ''en'' m toy_target_store = ((m, True), toy_target_store)" "truthy (Some (u ''hej''))"
    by (simp_all add: m prepare_message_def get_message_translation_def toy_target_store_def empty_lang_store_def od_simps
        needs_translation_def truthy_def u_def)
  obtain s2 where st: "store_translation AllOk m ''en'' (f 1) toy_target_store = (True, s2)"
    using store_translation_ok [of m "''en''" "f 1" toy_target_store]
    by (cases "store_translation AllOk m ''en'' (f 1) toy_target_store") simp
  have "translate_history (\<lambda>_. None) (\<lambda>_. None) (\<lambda>_. True) fn (\<lambda>_. AllOk) toy_history toy_target_store
      = ([fill_in [(1, f 1)] m], Some [(1, u ''hej'')], s2)"
    by (simp add: translate_history_def toy_settings so prep payload_of_def translate_pending_def assms m st)
  then show ?thesis by (simp add: m)
qed

theorem translated_once_witness:
  "\<exists>seen s'. translate_history (\<lambda>_. None) (\<lambda>_. None) (\<lambda>_. True) (\<lambda>_ _ _ _. Some (\<lambda>_. Some (u ''hello''))) (\<lambda>_. AllOk) toy_history toy_target_store
      = (seen, Some [(1, u ''hej'')], s')
    \<and> translate_history (\<lambda>_. None) (\<lambda>_. None) (\<lambda>_. True) (\<lambda>_ _ _ _. None) (\<lambda>_. AllOk) toy_history s' = (seen, None, s')
    \<and> map ms_translated_text seen = [Some (u ''hello'')]"
proof -
  obtain s' where r: "translate_history (\<lambda>_. None) (\<lambda>_. None) (\<lambda>_. True) (\<lambda>_ _ _ _. Some (\<lambda>_. Some (u ''hello''))) (\<lambda>_. AllOk) toy_history toy_target_store
      = (map (fill_in [(1, Some (u ''hello''))]) toy_history, Some [(1, u ''hej'')], s')"
    using toy_reading [of "\<lambda>_ _ _ _. Some (\<lambda>_. Some (u ''hello''))" "\<lambda>_. Some (u ''hello'')"] by auto
  show ?thesis
    using r translated_once [OF _ _ _ _ r, of "\<lambda>_ _ _ _. None"] by (auto simp: toy_settings toy_history_def fill_in_def od_simps)
qed

end
