(* ===== verification/Web_Access.thy ===== *)
theory Web_Access
  imports Ttl_Cache Names_Langs
begin

text \<open>
  Who may reach the web interface: the signed cookie of \<open>src/tg_messenger/web/cookies.py\<close>,
  the password gate and the same-origin guard of \<open>src/tg_messenger/web/app.py\<close>, and the
  per-browser echo buckets of \<open>src/tg_messenger/web/state.py\<close>. HMAC-SHA256 under the process key is
  an argument (\<open>mac\<close>, from the signed text to hexadecimal digits); header and cookie text is Latin-1,
  as the server decodes it. CPython's limit on the digits of an integer is not modelled.
\<close>

section \<open>Requests and responses\<close>

record request =
  rq_path :: string
  rq_headers :: "string \<Rightarrow> string option"
  rq_cookies :: "string \<Rightarrow> string option"
  rq_scheme :: string
  rq_netloc :: string

text \<open>What a handler answers; \<open>Unhandled\<close> is an exception no handler of the route catches,
  which the application turns into a logged status 500.\<close>

datatype response =
    Fragment utext int
  | Redirect string int
  | PlainText utext
  | NoContent
  | ErrorText utext int
  | JsonError string int
  | JsonId int
  | JsonStatus string
  | JsonReady string "utext list" string
  | Unhandled

definition wants_html :: "request \<Rightarrow> bool" where
  "wants_html rq \<longleftrightarrow> sublist ''text/html'' (case rq_headers rq ''accept'' of None \<Rightarrow> [] | Some a \<Rightarrow> a)"

section \<open>The signed cookie\<close>

definition cookie_name :: string where "cookie_name = ''tg_session''"
definition cookie_max_age :: int where "cookie_max_age = 7 * 24 * 3600"
definition public_paths :: "string list" where "public_paths = [''/login'', ''/logout'']"
definition wrong_password_delay :: real where "wrong_password_delay = 1"

definition is_ascii :: "string \<Rightarrow> bool" where
  "is_ascii s \<longleftrightarrow> list_all (\<lambda>c. code_of c < 128) s"

text \<open>\<open>hmac.compare_digest\<close> on two strings; None is its TypeError for non-ASCII text.\<close>

definition compare_digest :: "string \<Rightarrow> string \<Rightarrow> bool option" where
  "compare_digest a b = (if is_ascii a \<and> is_ascii b then Some (a = b) else None)"

definition sign_cookie :: "(string \<Rightarrow> string) \<Rightarrow> int option \<Rightarrow> int \<Rightarrow> string" where
  "sign_cookie mac expiry now =
     (let e = (case expiry of None \<Rightarrow> now + cookie_max_age | Some e \<Rightarrow> e)
      in str_int e @ CHR '':'' # mac (str_int e))"

definition valid_cookie :: "(string \<Rightarrow> string) \<Rightarrow> int \<Rightarrow> string option \<Rightarrow> bool option" where
  "valid_cookie mac now value =
     (case value of
        None \<Rightarrow> Some False
      | Some v \<Rightarrow> (case partition_at (CHR '':'') v of
          None \<Rightarrow> Some False
        | Some (expiry_str, sig) \<Rightarrow> (case parse_int expiry_str of
            None \<Rightarrow> Some False
          | Some expiry \<Rightarrow> (case compare_digest sig (mac (str_int expiry)) of
              None \<Rightarrow> None
            | Some eq \<Rightarrow> Some (eq \<and> now < expiry)))))"

section \<open>The gate\<close>

text \<open>None lets the request through.\<close>

definition auth_gate :: "(string \<Rightarrow> string) \<Rightarrow> int \<Rightarrow> request \<Rightarrow> response option" where
  "auth_gate mac now rq =
     (if rq_path rq \<in> set public_paths \<or> prefix ''/static/'' (rq_path rq) then None
      else (case valid_cookie mac now (rq_cookies rq cookie_name) of
              None \<Rightarrow> Some Unhandled
            | Some True \<Rightarrow> None
            | Some False \<Rightarrow> Some (if wants_html rq then Redirect ''/login'' 302
                               else ErrorText (u ''Authentication required.'') 401)))"

text \<open>The answer, the cookie it sets and the seconds slept; passwords compare as UTF-8 bytes.\<close>

definition login_submit :: "(string \<Rightarrow> string) \<Rightarrow> int \<Rightarrow> utext \<Rightarrow> utext \<Rightarrow> response \<times> string option \<times> real" where
  "login_submit mac now web_pass password =
     (if password = web_pass then (Redirect ''/'' 303, Some (sign_cookie mac None now), 0)
      else (Fragment (u ''Wrong password.'') 401, None, wrong_password_delay))"

definition logout :: "response \<times> string option" where
  "logout = (Redirect ''/login'' 303, Some [])"

section \<open>The same-origin guard\<close>

definition suggest_csrf_header :: string where "suggest_csrf_header = ''x-tg-messenger-csrf''"

definition expected_origin :: "request \<Rightarrow> string" where
  "expected_origin rq =
     (let host = (case rq_headers rq ''host'' of Some h \<Rightarrow> if h = [] then rq_netloc rq else h | None \<Rightarrow> rq_netloc rq)
      in rq_scheme rq @ ''://'' @ host)"

definition same_origin_error :: "request \<Rightarrow> response option" where
  "same_origin_error rq =
     (if rq_headers rq suggest_csrf_header \<noteq> Some ''1'' then Some (ErrorText (u ''Suggest requires a same-origin request.'') 403)
      else (case rq_headers rq ''origin'' of
              None \<Rightarrow> None
            | Some origin \<Rightarrow> if origin \<noteq> expected_origin rq
                             then Some (ErrorText (u ''Suggest requires a same-origin request.'') 403) else None))"

definition same_origin_json_error :: "request \<Rightarrow> response option" where
  "same_origin_json_error rq =
     (if rq_headers rq suggest_csrf_header \<noteq> Some ''1'' then Some (JsonError ''Outbound requires a same-origin request.'' 403)
      else (case rq_headers rq ''origin'' of
              None \<Rightarrow> None
            | Some origin \<Rightarrow> if origin \<noteq> expected_origin rq
                             then Some (JsonError ''Outbound requires a same-origin request.'' 403) else None))"

definition default_max_upload_mb :: int where "default_max_upload_mb = 50"

definition max_upload_mb :: "string option \<Rightarrow> int" where
  "max_upload_mb raw =
     (case raw of
        None \<Rightarrow> default_max_upload_mb
      | Some r \<Rightarrow> (case parse_int r of
          None \<Rightarrow> default_max_upload_mb | Some v \<Rightarrow> if v \<le> 0 then default_max_upload_mb else v))"

section \<open>Echo buckets\<close>

definition remember_cap :: nat where "remember_cap = 200"
definition bucket_cap :: nat where "bucket_cap = 100"

type_synonym 'k buckets = "(utext, ('k, bool) odict) odict"

definition bounded_client_id :: "utext \<Rightarrow> utext" where
  "bounded_client_id client_id = take 80 client_id"

text \<open>The bucket of a browser, made when missing and now the newest, and all buckets after.\<close>

definition sent_bucket :: "utext \<Rightarrow> 'k buckets \<Rightarrow> ('k, bool) odict \<times> 'k buckets" where
  "sent_bucket client_id bs =
     (let c = bounded_client_id client_id; b = (case od_get bs c of None \<Rightarrow> [] | Some b \<Rightarrow> b)
      in (b, od_trim bucket_cap (od_touch c b bs)))"

definition remember_sent :: "int \<Rightarrow> int \<Rightarrow> (int \<times> int, bool) odict \<Rightarrow> (int \<times> int, bool) odict" where
  "remember_sent dialog_id message_id sent = bounded_remember remember_cap (dialog_id, message_id) sent"

definition remember_sent_reaction :: "int \<Rightarrow> int \<Rightarrow> utext option \<Rightarrow> (int \<times> int \<times> utext option, bool) odict
    \<Rightarrow> (int \<times> int \<times> utext option, bool) odict" where
  "remember_sent_reaction dialog_id message_id emoticon sent =
     bounded_remember remember_cap (dialog_id, message_id, emoticon) sent"

text \<open>A handler remembers through the bucket it was handed, which stays the stored one.\<close>

definition remember_in :: "utext \<Rightarrow> (('k, bool) odict \<Rightarrow> ('k, bool) odict) \<Rightarrow> 'k buckets \<Rightarrow> 'k buckets" where
  "remember_in client_id f bs =
     (case sent_bucket client_id bs of (b, bs') \<Rightarrow> od_set (bounded_client_id client_id) (f b) bs')"

section \<open>Properties\<close>

lemma digits_no_colon: "CHR '':'' \<notin> set (str_int i)"
proof -
  have "\<not> is_dec (CHR '':'')" by (simp add: is_dec_def)
  then have "CHR '':'' \<notin> set (digits_nat n)" for n using digits_nat_dec [of n] by (auto simp: list_all_iff)
  then show ?thesis by (auto simp: str_int_def)
qed

lemma valid_signed:
  assumes "is_ascii sig" and "is_ascii (mac (str_int e))"
  shows "valid_cookie mac now (Some (str_int e @ CHR '':'' # sig)) = Some (sig = mac (str_int e) \<and> now < e)"
  using assms by (simp add: valid_cookie_def partition_at_app [OF digits_no_colon] str_simps compare_digest_def)


lemma toy_ascii: "is_ascii (str_int i)"
proof -
  have "is_ascii (digits_nat n)" for n using digits_nat_dec [of n] by (auto simp: is_ascii_def list_all_iff is_dec_def)
  then show ?thesis by (auto simp: str_int_def is_ascii_def)
qed


text \<open>
  A malformed cookie is not refused but crashes the gate: when the part after the first
  colon holds a character beyond ASCII, which a header may, the comparison of strings raises, and the
  request is answered by the handler of unexpected errors instead of the login form.
\<close>

theorem non_ascii_cookie_crashes:
  assumes "rq_path rq \<notin> set public_paths" "\<not> prefix ''/static/'' (rq_path rq)"
    and "rq_cookies rq cookie_name = Some (str_int i @ CHR '':'' # sig)" and "\<not> is_ascii sig"
  shows "auth_gate mac now rq = Some Unhandled"
  using assms by (simp add: auth_gate_def valid_cookie_def partition_at_app [OF digits_no_colon] str_simps compare_digest_def)

definition beyond_ascii :: char where "beyond_ascii = char_of (233 :: nat)"

theorem non_ascii_cookie_crashes_witness:
  "auth_gate (\<lambda>s. s) 0 \<lparr>rq_path = ''/'', rq_headers = (\<lambda>_. None), rq_cookies = (\<lambda>_. Some (str_int 0 @ CHR '':'' # [beyond_ascii])),
     rq_scheme = [], rq_netloc = []\<rparr> = Some Unhandled"
proof -
  have "code_of beyond_ascii = 233" by (simp only: beyond_ascii_def of_char_of) simp
  then have "\<not> is_ascii [beyond_ascii]" by (simp add: is_ascii_def)
  then show ?thesis by (intro non_ascii_cookie_crashes) (simp_all add: public_paths_def prefix_def)
qed

text \<open>
  The guard lets a request through only with the custom header, which a form of another
  site cannot set, and with an origin that is absent or the server's own.
\<close>

lemma same_origin_iff:
  "same_origin_error rq = None \<longleftrightarrow> rq_headers rq suggest_csrf_header = Some ''1''
     \<and> (rq_headers rq ''origin'' = None \<or> rq_headers rq ''origin'' = Some (expected_origin rq))"
  "same_origin_json_error rq = None \<longleftrightarrow> same_origin_error rq = None"
  by (auto simp: same_origin_error_def same_origin_json_error_def split: option.split)

end
