(* ===== verification/Web_Stream.thy ===== *)
theory Web_Stream
  imports Web_Access Models
begin

text \<open>
  The server-sent event stream of one dialog, \<open>sse_event_stream\<close> in
  \<open>src/tg_messenger/web/app.py\<close>, as a machine over the tasks it races: the three live streams of the
  client, the translations in flight, and the POST handlers that write to the echo buckets it
  reads. One input is one finished task or one such write, in the order the loop handles them.
\<close>

section \<open>The machine\<close>

definition max_inflight_translations :: nat where "max_inflight_translations = 4"

datatype stream_kind = SIncoming | SOutgoing | SReaction

datatype frame =
    MessageFrame int "utext option" bool bool int "user option"
  | ReactionFrame int "utext option"
  | TranslationFrame int utext

text \<open>The stream's own dialog, whether it is a group, and whether a translator is wired.\<close>

record sse_conf =
  sc_dialog_id :: int
  sc_is_group :: bool
  sc_translator :: bool

record sse =
  ss_streams :: "stream_kind list"
  ss_translating :: "message list"
  ss_sent :: "(int \<times> int, bool) odict"
  ss_reactions :: "(int \<times> int \<times> utext option, bool) odict"
  ss_frames :: "frame list"
  ss_closed :: bool

text \<open>\<open>Translated m None\<close>: the translation raised or timed out.\<close>

datatype sse_input =
    GotMessage bool int message
  | GotReaction int int "utext option"
  | StreamEnded stream_kind
  | StreamBroke stream_kind
  | Translated message "message option"
  | Posted int int
  | PostedReaction int int "utext option"

definition sse_start :: "(int \<times> int, bool) odict \<Rightarrow> (int \<times> int \<times> utext option, bool) odict \<Rightarrow> sse" where
  "sse_start sent reactions = \<lparr>ss_streams = [SIncoming, SOutgoing, SReaction], ss_translating = [], ss_sent = sent,
     ss_reactions = reactions, ss_frames = [], ss_closed = False\<rparr>"

definition emit :: "frame \<Rightarrow> sse \<Rightarrow> sse" where
  "emit f s = s\<lparr>ss_frames := ss_frames s @ [f]\<rparr>"

definition message_frame :: "sse_conf \<Rightarrow> bool \<Rightarrow> message \<Rightarrow> frame" where
  "message_frame conf out m = MessageFrame (ms_id m) (ms_text m) out (sc_is_group conf) (ms_sender_id m) (ms_sender m)"

definition sse_message :: "sse_conf \<Rightarrow> bool \<Rightarrow> int \<Rightarrow> message \<Rightarrow> sse \<Rightarrow> sse" where
  "sse_message conf out d m s =
     (if d \<noteq> sc_dialog_id conf then s
      else if out \<and> (d, ms_id m) \<in> set (od_keys (ss_sent s)) then s
      else (let s1 = emit (message_frame conf out m) s
            in if \<not> sc_translator conf then s1
               else if length (ss_translating s1) < max_inflight_translations
               then s1\<lparr>ss_translating := ss_translating s1 @ [m]\<rparr> else s1))"

definition sse_reaction :: "sse_conf \<Rightarrow> int \<Rightarrow> int \<Rightarrow> utext option \<Rightarrow> sse \<Rightarrow> sse" where
  "sse_reaction conf d i emoticon s =
     (if d \<noteq> sc_dialog_id conf then s
      else if (d, i, emoticon) \<in> set (od_keys (ss_reactions s))
      then s\<lparr>ss_reactions := od_pop (d, i, emoticon) (ss_reactions s)\<rparr>
      else emit (ReactionFrame i emoticon) s)"

definition sse_translated :: "message \<Rightarrow> message option \<Rightarrow> sse \<Rightarrow> sse" where
  "sse_translated m result s =
     (let s1 = s\<lparr>ss_translating := remove1 m (ss_translating s)\<rparr>
      in case result of
           None \<Rightarrow> s1
         | Some t \<Rightarrow> (case ms_translated_text t of
             Some txt \<Rightarrow> if txt = [] then s1 else emit (TranslationFrame (ms_id t) txt) s1
           | None \<Rightarrow> s1))"

text \<open>The loop runs while a task is pending; a broken stream closes it for good.\<close>

definition sse_running :: "sse \<Rightarrow> bool" where
  "sse_running s \<longleftrightarrow> \<not> ss_closed s \<and> (ss_streams s \<noteq> [] \<or> ss_translating s \<noteq> [])"

fun sse_do :: "sse_conf \<Rightarrow> sse_input \<Rightarrow> sse \<Rightarrow> sse" where
  "sse_do conf (Posted d i) s = s\<lparr>ss_sent := remember_sent d i (ss_sent s)\<rparr>"
| "sse_do conf (PostedReaction d i e) s = s\<lparr>ss_reactions := remember_sent_reaction d i e (ss_reactions s)\<rparr>"
| "sse_do conf (GotMessage out d m) s =
     (if sse_running s \<and> (if out then SOutgoing else SIncoming) \<in> set (ss_streams s) then sse_message conf out d m s else s)"
| "sse_do conf (GotReaction d i e) s =
     (if sse_running s \<and> SReaction \<in> set (ss_streams s) then sse_reaction conf d i e s else s)"
| "sse_do conf (StreamEnded k) s = (if sse_running s then s\<lparr>ss_streams := remove1 k (ss_streams s)\<rparr> else s)"
| "sse_do conf (StreamBroke k) s = (if sse_running s \<and> k \<in> set (ss_streams s) then s\<lparr>ss_closed := True\<rparr> else s)"
| "sse_do conf (Translated m r) s = (if sse_running s \<and> m \<in> set (ss_translating s) then sse_translated m r s else s)"

definition sse_run :: "sse_conf \<Rightarrow> sse_input list \<Rightarrow> sse \<Rightarrow> sse" where
  "sse_run conf xs s = fold (sse_do conf) xs s"

section \<open>Bounds\<close>

definition sse_inv :: "sse \<Rightarrow> bool" where
  "sse_inv s \<longleftrightarrow> length (ss_translating s) \<le> max_inflight_translations \<and> length (ss_sent s) \<le> remember_cap
     \<and> length (ss_reactions s) \<le> remember_cap"

inductive sse_step :: "sse_conf \<Rightarrow> sse \<Rightarrow> sse \<Rightarrow> bool" for conf where
  step: "sse_step conf s (sse_do conf x s)"

lemma remembered_bound: "length (bounded_remember cap k d) \<le> cap"
  by (simp add: bounded_remember_def)

lemma sse_do_inv: "sse_inv s \<Longrightarrow> sse_inv (sse_do conf x s)"
  using length_od_pop_le [of _ "ss_reactions s"] length_remove1 [of _ "ss_translating s"]
  by (cases x)
    (auto simp: sse_inv_def sse_message_def sse_reaction_def sse_translated_def emit_def Let_def remember_sent_def
      remember_sent_reaction_def remembered_bound remember_cap_def intro: le_trans split: option.split)

interpretation stream: inv_system "sse_step conf" sse_inv for conf
  by unfold_locales (auto elim: sse_step.cases simp: sse_do_inv)

lemma sse_run_reaches: "(sse_step conf)\<^sup>*\<^sup>* s (sse_run conf xs s)"
proof (induction xs arbitrary: s)
  case (Cons x xs)
  have "sse_step conf s (sse_do conf x s)" by (rule sse_step.step)
  then show ?case using Cons.IH [of "sse_do conf x s"] by (simp add: sse_run_def converse_rtranclp_into_rtranclp)
qed (simp add: sse_run_def)

text \<open>
  However many messages arrive and however slow the translator is, one stream has at most four
  translations in flight and its echo buckets hold at most two hundred keys each.
\<close>

theorem sse_bounded:
  "let s = sse_run conf xs (sse_start [] []) in
     length (ss_translating s) \<le> 4 \<and> length (ss_sent s) \<le> 200 \<and> length (ss_reactions s) \<le> 200"
  using stream.reach_keeps [OF sse_run_reaches, of "sse_start [] []" conf xs]
  by (simp add: sse_inv_def sse_start_def max_inflight_translations_def remember_cap_def Let_def)

section \<open>What is shown\<close>

text \<open>The frames a reader must see: every message and reaction of the dialog in order, less the
  echoes of what this browser posted before; \<open>S\<close> and \<open>R\<close> are the keys posted so far.\<close>

fun expected_frames :: "sse_conf \<Rightarrow> (int \<times> int) set \<Rightarrow> (int \<times> int \<times> utext option) set \<Rightarrow> sse_input list \<Rightarrow> frame list" where
  "expected_frames conf S R [] = []"
| "expected_frames conf S R (GotMessage out d m # xs) =
     (if d = sc_dialog_id conf \<and> \<not> (out \<and> (d, ms_id m) \<in> S) then [message_frame conf out m] else []) @ expected_frames conf S R xs"
| "expected_frames conf S R (GotReaction d i e # xs) =
     (if d \<noteq> sc_dialog_id conf then expected_frames conf S R xs
      else if (d, i, e) \<in> R then expected_frames conf S (R - {(d, i, e)}) xs
      else ReactionFrame i e # expected_frames conf S R xs)"
| "expected_frames conf S R (Posted d i # xs) = expected_frames conf (insert (d, i) S) R xs"
| "expected_frames conf S R (PostedReaction d i e # xs) = expected_frames conf S (insert (d, i, e) R) xs"
| "expected_frames conf S R (_ # xs) = expected_frames conf S R xs"

definition is_live :: "frame \<Rightarrow> bool" where
  "is_live f \<longleftrightarrow> (case f of TranslationFrame _ _ \<Rightarrow> False | _ \<Rightarrow> True)"

definition is_post :: "sse_input \<Rightarrow> bool" where
  "is_post x \<longleftrightarrow> (case x of Posted _ _ \<Rightarrow> True | PostedReaction _ _ _ \<Rightarrow> True | _ \<Rightarrow> False)"

definition stays_open :: "sse_input \<Rightarrow> bool" where
  "stays_open x \<longleftrightarrow> (case x of StreamEnded _ \<Rightarrow> False | StreamBroke _ \<Rightarrow> False | _ \<Rightarrow> True)"

text \<open>The machine agrees with the reference state, and has room for the posts to come.\<close>

definition shows_all :: "(int \<times> int) set \<Rightarrow> (int \<times> int \<times> utext option) set \<Rightarrow> nat \<Rightarrow> sse \<Rightarrow> bool" where
  "shows_all S R n s \<longleftrightarrow> \<not> ss_closed s \<and> ss_streams s = [SIncoming, SOutgoing, SReaction]
     \<and> od_wf (ss_sent s) \<and> od_wf (ss_reactions s) \<and> set (od_keys (ss_sent s)) = S \<and> set (od_keys (ss_reactions s)) = R
     \<and> length (ss_sent s) + n \<le> remember_cap \<and> length (ss_reactions s) + n \<le> remember_cap"

lemma remembered_room:
  assumes "od_wf d" and "length d < cap"
  shows "set (od_keys (bounded_remember cap k d)) = insert k (set (od_keys d))" "od_wf (bounded_remember cap k d)"
    "length (bounded_remember cap k d) \<le> Suc (length d)"
proof -
  have e: "bounded_remember cap k d = od_touch k True d"
    using length_od_touch [of k True d] assms(2) by (simp add: bounded_remember_def od_touch_def [symmetric])
  show "set (od_keys (bounded_remember cap k d)) = insert k (set (od_keys d))" by (simp add: e keys_od_touch)
  show "od_wf (bounded_remember cap k d)" using assms(1) by (simp add: e od_inv)
  show "length (bounded_remember cap k d) \<le> Suc (length d)" by (simp add: e length_od_touch)
qed

lemma emit_simps [simp]:
  "ss_frames (emit f s) = ss_frames s @ [f]" "ss_sent (emit f s) = ss_sent s" "ss_reactions (emit f s) = ss_reactions s"
  "ss_streams (emit f s) = ss_streams s" "ss_closed (emit f s) = ss_closed s" "ss_translating (emit f s) = ss_translating s"
  by (simp_all add: emit_def)

lemma sse_message_keeps:
  "ss_sent (sse_message conf out d m s) = ss_sent s" "ss_reactions (sse_message conf out d m s) = ss_reactions s"
  "ss_streams (sse_message conf out d m s) = ss_streams s" "ss_closed (sse_message conf out d m s) = ss_closed s"
  "ss_frames (sse_message conf out d m s) = ss_frames s @
     (if d = sc_dialog_id conf \<and> \<not> (out \<and> (d, ms_id m) \<in> set (od_keys (ss_sent s))) then [message_frame conf out m] else [])"
  by (auto simp: sse_message_def Let_def)

lemma sse_translated_keeps:
  "ss_sent (sse_translated m r s) = ss_sent s" "ss_reactions (sse_translated m r s) = ss_reactions s"
  "ss_streams (sse_translated m r s) = ss_streams s" "ss_closed (sse_translated m r s) = ss_closed s"
  "filter is_live (ss_frames (sse_translated m r s)) = filter is_live (ss_frames s)"
  by (auto simp: sse_translated_def Let_def is_live_def split: option.split)

lemma live_message [simp]: "is_live (message_frame conf out m)" "is_live (ReactionFrame i e)"
  by (simp_all add: is_live_def message_frame_def)

lemma run_shows:
  assumes "shows_all S R (length (filter is_post xs)) s" and "list_all stays_open xs"
  shows "filter is_live (ss_frames (sse_run conf xs s)) = filter is_live (ss_frames s) @ expected_frames conf S R xs"
  using assms
proof (induction xs arbitrary: s S R)
  case (Cons x xs)
  have IH: "shows_all S' R' (length (filter is_post xs)) (sse_do conf x s) \<Longrightarrow>
      filter is_live (ss_frames (sse_run conf (x # xs) s)) = filter is_live (ss_frames (sse_do conf x s)) @ expected_frames conf S' R' xs" for S' R'
    using Cons.IH [of S' R' "sse_do conf x s"] Cons.prems(2) by (simp add: sse_run_def)
  have run: "sse_running s" using Cons.prems(1) by (simp add: shows_all_def sse_running_def)
  note sh = Cons.prems(1) [unfolded shows_all_def]
  show ?case
  proof (cases x)
    case (GotMessage out d m)
    then have "shows_all S R (length (filter is_post xs)) (sse_do conf x s)"
      using sh run by (auto simp: shows_all_def sse_message_keeps is_post_def)
    from IH [OF this] show ?thesis using sh run GotMessage by (auto simp: sse_message_keeps)
  next
    case (GotReaction d i e)
    define R' where "R' = (if d = sc_dialog_id conf then R - {(d, i, e)} else R)"
    have "shows_all S R' (length (filter is_post xs)) (sse_do conf x s)"
      using sh run GotReaction length_od_pop_le [of "(d, i, e)" "ss_reactions s"]
      by (auto simp: shows_all_def sse_reaction_def is_post_def od_inv keys_od_pop R'_def)
    from IH [OF this] show ?thesis using sh run GotReaction by (auto simp: sse_reaction_def R'_def)
  next
    case (Translated m r)
    then have "shows_all S R (length (filter is_post xs)) (sse_do conf x s)"
      using sh by (auto simp: shows_all_def sse_translated_keeps is_post_def)
    from IH [OF this] show ?thesis using Translated by (simp add: sse_translated_keeps)
  next
    case (Posted d i)
    have "length (ss_sent s) < remember_cap" using sh Posted by (simp add: is_post_def)
    then have "shows_all (insert (d, i) S) R (length (filter is_post xs)) (sse_do conf x s)"
      using sh Posted remembered_room [of "ss_sent s" remember_cap "(d, i)"]
      by (auto simp: shows_all_def remember_sent_def is_post_def)
    from IH [OF this] show ?thesis using Posted by simp
  next
    case (PostedReaction d i e)
    have "length (ss_reactions s) < remember_cap" using sh PostedReaction by (simp add: is_post_def)
    then have "shows_all S (insert (d, i, e) R) (length (filter is_post xs)) (sse_do conf x s)"
      using sh PostedReaction remembered_room [of "ss_reactions s" remember_cap "(d, i, e)"]
      by (auto simp: shows_all_def remember_sent_reaction_def is_post_def)
    from IH [OF this] show ?thesis using PostedReaction by simp
  qed (use Cons.prems(2) in \<open>simp_all add: stays_open_def\<close>)
qed (simp add: sse_run_def)

text \<open>
  C20: The stream shows exactly what it should: while no live stream ends and the browser has posted at
  most two hundred messages and reactions, the message and reaction frames are those of the
  reference, in order: every event of the dialog, without the echo of any message posted before
  and without the first echo of each reaction, and nothing of another dialog. Translations never
  delay, drop or duplicate a live frame.
\<close>

theorem sse_frames_exact:
  assumes "list_all stays_open xs" and "length (filter is_post xs) \<le> 200"
  shows "filter is_live (ss_frames (sse_run conf xs (sse_start [] []))) = expected_frames conf {} {} xs"
  using run_shows [of "{}" "{}" xs "sse_start [] []" conf] assms
  by (simp add: shows_all_def sse_start_def remember_cap_def)

definition web_msg :: "int \<Rightarrow> message" where
  "web_msg i = \<lparr>ms_id = i, ms_dialog_id = 5, ms_sender_id = 9, ms_out = False, ms_date = 0,
     ms_text = Some (u ''hi''), ms_media = None, ms_reply_to_id = None, ms_is_forward = False, ms_translated_text = None, ms_sender = None\<rparr>"

theorem sse_frames_exact_witness:
  "filter is_live (ss_frames (sse_run \<lparr>sc_dialog_id = 5, sc_is_group = False, sc_translator = True\<rparr>
      [Posted 5 1, GotMessage True 5 (web_msg 1), GotMessage False 5 (web_msg 2), GotMessage False 6 (web_msg 3)] (sse_start [] [])))
    = [MessageFrame 2 (Some (u ''hi'')) False False 9 None]"
  using sse_frames_exact [of "[Posted 5 1, GotMessage True 5 (web_msg 1), GotMessage False 5 (web_msg 2), GotMessage False 6 (web_msg 3)]"
      "\<lparr>sc_dialog_id = 5, sc_is_group = False, sc_translator = True\<rparr>"]
  by (simp add: stays_open_def is_post_def message_frame_def web_msg_def)

end
