(* ===== verification/Web_Render.thy ===== *)
theory Web_Render
  imports Web_Access Models Login
begin

text \<open>
  The HTML fragments of \<open>src/tg_messenger/web/render.py\<close> as code point lists. User text is text,
  titles and names are Latin-1 strings; the constant markup is the source's, letter for letter.
\<close>

section \<open>Escaping\<close>

text \<open>\<open>html.escape\<close> with quotes.\<close>

definition escape_char :: "nat \<Rightarrow> utext" where
  "escape_char c =
     (if c = 38 then u ''&amp;'' else if c = 60 then u ''&lt;'' else if c = 62 then u ''&gt;''
      else if c = 34 then u ''&quot;'' else if c = 39 then u ''&#x27;'' else [c])"

definition html_escape :: "utext \<Rightarrow> utext" where
  "html_escape t = concat (map escape_char t)"

abbreviation shown_int :: "int \<Rightarrow> utext" where
  "shown_int i \<equiv> u (str_int i)"

definition kind_text :: "dialog_kind \<Rightarrow> string" where
  "kind_text k = (case k of Dm \<Rightarrow> ''dm'' | Group \<Rightarrow> ''group'' | Channel \<Rightarrow> ''channel'' | Bot \<Rightarrow> ''bot'')"

definition delivery_kind_text :: "delivery_kind \<Rightarrow> string" where
  "delivery_kind_text k = (case k of App \<Rightarrow> ''app'' | Sms \<Rightarrow> ''sms'' | Call \<Rightarrow> ''call'' | UnknownKind \<Rightarrow> ''unknown'')"

definition delivery_hint :: "code_delivery \<Rightarrow> utext" where
  "delivery_hint d =
     (case cd_kind d of
        App \<Rightarrow> u ''Code sent to the Telegram app (check the '' @ [8220] @ u ''Telegram'' @ [8221] @ u '' chat from 777000).''
      | Sms \<Rightarrow> u ''Code sent by SMS.''
      | Call \<Rightarrow> u ''You will receive a call with a code.''
      | UnknownKind \<Rightarrow> u ''Code sent '' @ [8212] @ u '' check Telegram and SMS.'')
     @ (case cd_next d of None \<Rightarrow> []
        | Some k \<Rightarrow> u '' No code? You can resend it (channel: '' @ u (delivery_kind_text k) @ u '').'')"

section \<open>Rows and bubbles\<close>

definition dialog_li :: "dialog \<Rightarrow> utext" where
  "dialog_li d =
     u ''<li role=\"button\" tabindex=\"0\" ''
     @ u ''hx-get=\"/dialogs/''
     @ shown_int (dg_id d)
     @ u ''/messages\" hx-target=\"#messages\" ''
     @ u ''data-dialog=\"''
     @ shown_int (dg_id d)
     @ u ''\" data-kind=\"''
     @ u (kind_text (dg_kind d))
     @ u ''\" data-can-send=\"''
     @ u (if dg_can_send d then ''1'' else ''0'')
     @ u ''\" ''
     @ u ''data-title=\"''
     @ html_escape (u (dg_title d))
     @ u ''\">''
     @ shown_int (dg_id d)
     @ u '' '' @ [8212] @ u '' ''
     @ html_escape (u (dg_title d))
     @ (if truthy (dg_username d) then u '' @'' @ html_escape (u (the (dg_username d))) else [])
     @ (if dg_unread d = 0 then [] else u '' <span class=\"unread\">'' @ shown_int (dg_unread d) @ u ''</span>'')
     @ u ''</li>''"

definition profile_li :: "utext \<Rightarrow> bool \<Rightarrow> utext" where
  "profile_li name active =
     u ''<li''
     @ (if active then u '' class=\"active\"'' else [])
     @ u '' data-profile=\"''
     @ html_escape name
     @ u ''\">''
     @ html_escape name
     @ (if active then u '' (active)'' else [])
     @ u ''</li>''"

definition message_div :: "message \<Rightarrow> bool \<Rightarrow> utext" where
  "message_div m show_author =
     u ''<div class=\"msg ''
     @ u (if ms_out m then ''out'' else ''in'')
     @ u ''\" data-id=\"''
     @ shown_int (ms_id m)
     @ u ''\" data-dialog=\"''
     @ shown_int (ms_dialog_id m)
     @ u ''\">''
     @ (if show_author then u ''<div class=\"author\">'' @ html_escape (u (format_author m)) @ u ''</div>'' else [])
     @ (if ms_out m then u ''<span class=\"sr-only\">You: </span>'' else [])
     @ u ''[''
     @ shown_int (ms_id m)
     @ u ''] ''
     @ (if truthy (ms_text m) then html_escape (the (ms_text m)) else u ''&lt;media&gt;'')
     @ u ''<button type=\"button\" class=\"reply-btn\" data-reply=\"''
     @ shown_int (ms_id m)
     @ u ''\" title=\"Reply\" aria-label=\"Reply\">'' @ [8617] @ u ''</button>''
     @ u ''<button type=\"button\" class=\"react-btn\" data-react=\"''
     @ shown_int (ms_id m)
     @ u ''\" title=\"React\" aria-label=\"React\">'' @ [128578] @ u ''</button>''
     @ (if truthy (ms_translated_text m) then u ''<div class=\"translation\">'' @ [8627] @ u '' '' @ html_escape (the (ms_translated_text m)) @ u ''</div>'' else [])
     @ u ''</div>''"

definition error_div :: "utext \<Rightarrow> utext" where
  "error_div t = u ''<div class=\"error\" role=\"alert\">''
 @ html_escape t
 @ u ''</div>''"

section \<open>The login wizard\<close>

definition tg_login_phone_fragment :: "utext \<Rightarrow> utext" where
  "tg_login_phone_fragment err =
     u ''<div id=\"card\">''
     @ u ''<h1>Sign in to Telegram</h1>''
     @ error_div err
     @ u ''<form hx-post=\"/tg-login/phone\" hx-target=\"#card\" hx-swap=\"outerHTML\">''
     @ u ''<label for=\"phone\" lang=\"en\">Phone</label>''
     @ u ''<input id=\"phone\" type=\"tel\" name=\"phone\" autofocus>''
     @ u ''<button type=\"submit\">Send code</button>''
     @ u ''</form>''
     @ u ''</div>''"

definition error_line :: "utext option \<Rightarrow> utext" where
  "error_line err = (case err of None \<Rightarrow> [] | Some t \<Rightarrow> if t = [] then [] else error_div t)"

definition resend_form :: "code_delivery option \<Rightarrow> utext" where
  "resend_form delivery =
     (case Option.bind delivery cd_timeout of
        Some n \<Rightarrow> if 0 < n then
          u ''<form hx-post=\"/tg-login/resend\" hx-target=\"#card\" hx-swap=\"outerHTML\">''
          @ u ''<button type=\"submit\" id=\"resend-btn\" data-timeout=\"''
          @ shown_int n
          @ u ''\" disabled>''
          @ u ''Resend code (''
          @ shown_int n
          @ u '')</button>''
          @ u ''</form>''
          @ u ''<script>(function(){''
          @ u ''var b=document.getElementById('resend-btn');''
          @ u ''if(!b)return;var n=parseInt(b.dataset.timeout,10)||0;''
          @ u ''var t=setInterval(function(){n-=1;''
          @ u ''if(n<=0){clearInterval(t);b.disabled=false;''
          @ u ''b.textContent='Resend code';}''
          @ u ''else{b.textContent='Resend code ('+n+')';}},1000);''
          @ u ''})();</script>''
          else u ''<form hx-post=\"/tg-login/resend\" hx-target=\"#card\" hx-swap=\"outerHTML\">''
          @ u ''<button type=\"submit\">Resend code</button>''
          @ u ''</form>''
      | None \<Rightarrow> u ''<form hx-post=\"/tg-login/resend\" hx-target=\"#card\" hx-swap=\"outerHTML\">''
          @ u ''<button type=\"submit\">Resend code</button>''
          @ u ''</form>'')"

definition tg_login_code_fragment :: "code_delivery option \<Rightarrow> utext option \<Rightarrow> utext" where
  "tg_login_code_fragment delivery err =
     u ''<div id=\"card\">''
     @ u ''<h1>Enter code</h1>''
     @ u ''<p class=\"hint\">''
     @ (case delivery of None \<Rightarrow> [] | Some d \<Rightarrow> html_escape (delivery_hint d))
     @ u ''</p>''
     @ error_line err
     @ u ''<form hx-post=\"/tg-login/code\" hx-target=\"#card\" hx-swap=\"outerHTML\">''
     @ u ''<label for=\"code\" lang=\"en\">Code</label>''
     @ u ''<input id=\"code\" type=\"text\" name=\"code\" autofocus inputmode=\"numeric\" ''
     @ u ''autocomplete=\"one-time-code\">''
     @ u ''<button type=\"submit\">Sign in</button>''
     @ u ''</form>''
     @ resend_form delivery
     @ u ''</div>''"

definition tg_login_password_fragment :: "utext option \<Rightarrow> utext" where
  "tg_login_password_fragment err =
     u ''<div id=\"card\">''
     @ u ''<h1>2FA password</h1>''
     @ error_line err
     @ u ''<form hx-post=\"/tg-login/password\" hx-target=\"#card\" hx-swap=\"outerHTML\">''
     @ u ''<label for=\"password\" lang=\"en\">2FA password</label>''
     @ u ''<input id=\"password\" type=\"password\" name=\"password\" autofocus ''
     @ u ''autocomplete=\"current-password\">''
     @ u ''<button type=\"submit\">Sign in</button>''
     @ u ''</form>''
     @ u ''</div>''"

section \<open>Markup\<close>

text \<open>The characters that give a fragment its structure.\<close>

definition is_markup :: "nat \<Rightarrow> bool" where
  "is_markup c \<longleftrightarrow> c \<in> {34, 39, 60, 62}"

abbreviation skeleton :: "utext \<Rightarrow> utext" where
  "skeleton t \<equiv> filter is_markup t"

lemma escape_char_plain: "skeleton (escape_char c) = []"
  by (simp add: escape_char_def u_def is_markup_def)

lemma escape_plain [simp]: "skeleton (html_escape t) = []"
  by (induction t) (simp_all add: html_escape_def escape_char_plain)

lemma int_plain [simp]: "skeleton (shown_int i) = []"
proof -
  have "skeleton (u (digits_nat n)) = []" for n
    using digits_nat_dec [of n] by (auto simp: filter_empty_conv u_def list_all_iff is_dec_def is_markup_def)
  then show ?thesis by (auto simp: str_int_def u_def is_markup_def)
qed

text \<open>
  C22: No text of a user becomes markup: the tags, quotes and attributes of a bubble are the same
  whatever the message says, whoever wrote it and whatever its translation, as long as the same
  parts are present; the escaped text itself holds no quote and no angle bracket.
\<close>

theorem bubble_markup_fixed:
  assumes "ms_out m = ms_out n" and "truthy (ms_text m) = truthy (ms_text n)"
    and "truthy (ms_translated_text m) = truthy (ms_translated_text n)"
  shows "skeleton (message_div m a) = skeleton (message_div n a) \<and> skeleton (html_escape t) = []"
  using assms by (simp add: message_div_def del: filter.simps(2) append_Cons)

definition bubble_of :: "utext \<Rightarrow> message" where
  "bubble_of t = \<lparr>ms_id = 1, ms_dialog_id = 5, ms_sender_id = 9, ms_out = False, ms_date = 0,
     ms_text = Some t, ms_media = None, ms_reply_to_id = None, ms_is_forward = False, ms_translated_text = None, ms_sender = None\<rparr>"

theorem bubble_markup_fixed_witness:
  "skeleton (message_div (bubble_of [60, 98, 62]) True) = skeleton (message_div (bubble_of [120]) True)"
  using bubble_markup_fixed [of "bubble_of [60, 98, 62]" "bubble_of [120]" True "[]"] by (simp add: bubble_of_def truthy_def)

end
