(* ===== verification/Script_Lang.thy ===== *)
theory Script_Lang
  imports Names_Langs
begin

text \<open>
  The script detection of \<open>src/tg_messenger/agent/outbound.py\<close>: the script of a character, the
  tally of the scripts of some texts in an insertion-ordered dictionary and the script that
  makes up at least seven tenths of them. Characters are code points. The quotient of the two
  counts is compared with 0.70 as a fraction, which agrees with the correctly rounded division
  of the code for fewer than \<open>10 ^ 14\<close> characters.
\<close>

section \<open>The script of a character\<close>

definition between :: "nat \<Rightarrow> nat \<Rightarrow> nat \<Rightarrow> bool" where
  "between lo hi n \<longleftrightarrow> lo \<le> n \<and> n \<le> hi"

definition char_lang :: "nat \<Rightarrow> string option" where
  "char_lang cp =
     (if between 0xAC00 0xD7AF cp then Some ''ko''
      else if between 0x3040 0x30FF cp then Some ''ja''
      else if between 0x4E00 0x9FFF cp then Some ''han''
      else if between 0x0E00 0x0E7F cp then Some ''th''
      else if between 0x0590 0x05FF cp then Some ''he''
      else if between 0x0370 0x03FF cp then Some ''el''
      else if between 0x0600 0x06FF cp then Some ''ar''
      else if between 0x0400 0x052F cp then Some ''ru''
      else if between 65 90 cp \<or> between 97 122 cp \<or> between 0x00C0 0x024F cp then Some ''latin''
      else None)"

section \<open>The tally\<close>

definition tally_one :: "nat \<Rightarrow> (string, nat) odict \<Rightarrow> (string, nat) odict" where
  "tally_one cp counts =
     (case char_lang cp of
        None \<Rightarrow> counts
      | Some lang \<Rightarrow> od_set lang ((case od_get counts lang of None \<Rightarrow> 0 | Some n \<Rightarrow> n) + 1) counts)"

definition tally :: "utext list \<Rightarrow> (string, nat) odict" where
  "tally texts = fold (fold tally_one) texts []"

text \<open>Kana beside Han makes the Han characters Japanese.\<close>

definition merge_han :: "(string, nat) odict \<Rightarrow> (string, nat) odict" where
  "merge_han counts =
     (case (od_get counts ''ja'', od_get counts ''han'') of
        (Some j, Some h) \<Rightarrow> if 0 < j \<and> 0 < h then od_set ''ja'' (j + h) (od_pop ''han'' counts) else counts
      | _ \<Rightarrow> counts)"

text \<open>\<open>max(counts.items(), key=...)\<close>: the first entry with the greatest count.\<close>

fun max_item :: "string \<times> nat \<Rightarrow> (string \<times> nat) list \<Rightarrow> string \<times> nat" where
  "max_item best [] = best"
| "max_item best (p # ps) = max_item (if snd best < snd p then p else best) ps"

definition dominant_script_lang :: "utext list \<Rightarrow> string option" where
  "dominant_script_lang texts =
     (case merge_han (tally texts) of
        [] \<Rightarrow> None
      | p # ps \<Rightarrow> (let (lang, n) = max_item p ps; total = sum_list (map snd (p # ps))
                  in if 10 * n < 7 * total then None else Some lang))"

definition script_lang_to_supported :: "string option \<Rightarrow> string option" where
  "script_lang_to_supported lang =
     (if lang = Some ''han'' then Some ''zh''
      else if lang \<in> {None, Some ''latin'', Some ''ru''} then None
      else clean_supported_lang_code lang)"

definition detect_script_lang :: "utext list \<Rightarrow> string option" where
  "detect_script_lang texts = script_lang_to_supported (dominant_script_lang texts)"

section \<open>What the tally counts\<close>

definition chars_of :: "string \<Rightarrow> utext list \<Rightarrow> nat" where
  "chars_of l texts = length (filter (\<lambda>cp. char_lang cp = Some l) (concat texts))"

definition lettered :: "utext list \<Rightarrow> nat" where
  "lettered texts = length (filter (\<lambda>cp. char_lang cp \<noteq> None) (concat texts))"

text \<open>The share of a script, with the Han characters of a text with kana read as Japanese.\<close>

definition script_share :: "utext list \<Rightarrow> string \<Rightarrow> nat" where
  "script_share texts l =
     (if 0 < chars_of ''ja'' texts \<and> 0 < chars_of ''han'' texts
      then (if l = ''ja'' then chars_of ''ja'' texts + chars_of ''han'' texts
            else if l = ''han'' then 0 else chars_of l texts)
      else chars_of l texts)"

definition count_of :: "(string, nat) odict \<Rightarrow> string \<Rightarrow> nat" where
  "count_of d k = (case od_get d k of None \<Rightarrow> 0 | Some n \<Rightarrow> n)"

abbreviation od_sum :: "(string, nat) odict \<Rightarrow> nat" where
  "od_sum d \<equiv> sum_list (map snd d)"

lemma od_sum_set: "od_wf d \<Longrightarrow> od_sum (od_set k v d) + count_of d k = od_sum d + v"
proof (induction k v d rule: od_set.induct)
  case (2 k v a b d)
  show ?case
  proof (cases "a = k")
    case False
    have "od_wf d" using 2 by (simp add: od_wf_def)
    then show ?thesis using 2 False by (simp add: count_of_def)
  qed (simp add: count_of_def)
qed (simp add: count_of_def)

lemma od_sum_pop: "od_wf d \<Longrightarrow> od_sum (od_pop k d) + count_of d k = od_sum d"
proof (induction d)
  case (Cons p d)
  have d: "od_wf d" using Cons.prems by (simp add: od_wf_def)
  show ?case
  proof (cases "fst p = k")
    case True
    then have "k \<notin> set (od_keys d)" using Cons.prems by (auto simp: od_wf_def)
    then have "od_pop k (p # d) = d" using True od_pop_idle [of k d] by (simp add: od_pop_def)
    then show ?thesis using True by (cases p) (simp add: count_of_def)
  next
    case False
    then show ?thesis using Cons.IH [OF d] by (cases p) (simp add: count_of_def od_pop_def)
  qed
qed (simp add: od_pop_def count_of_def)

lemma od_sum_two: "od_wf d \<Longrightarrow> k \<noteq> j \<Longrightarrow> count_of d k + count_of d j \<le> od_sum d"
  using od_sum_pop [of d j] od_sum_pop [OF od_wf_pop, of d k j]
  by (simp add: count_of_def od_simps)

lemma count_of_set [simp]: "count_of (od_set k v d) j = (if j = k then v else count_of d j)"
  by (simp add: count_of_def od_simps)

lemma count_of_pop [simp]: "count_of (od_pop k d) j = (if j = k then 0 else count_of d j)"
  by (simp add: count_of_def od_simps)

definition positive :: "(string, nat) odict \<Rightarrow> bool" where
  "positive d \<longleftrightarrow> od_wf d \<and> (\<forall>p\<in>set d. 0 < snd p)"

lemma positive_set: "positive d \<Longrightarrow> 0 < v \<Longrightarrow> positive (od_set k v d)"
proof -
  assume p: "positive d" and v: "0 < v"
  have "0 < snd q" if "q \<in> set (od_set k v d)" for q
    using that p v unfolding positive_def by (induction k v d rule: od_set.induct) (auto simp: od_wf_def split: if_splits)
  then show "positive (od_set k v d)" using p by (simp add: positive_def od_inv)
qed

lemma tally_one_spec:
  assumes "positive d"
  shows "positive (tally_one cp d)" "count_of (tally_one cp d) l = count_of d l + (if char_lang cp = Some l then 1 else 0)"
    "od_sum (tally_one cp d) = od_sum d + (if char_lang cp \<noteq> None then 1 else 0)"
proof -
  show "positive (tally_one cp d)"
    using assms by (auto simp: tally_one_def positive_set split: option.split)
  show "count_of (tally_one cp d) l = count_of d l + (if char_lang cp = Some l then 1 else 0)"
    by (auto simp: tally_one_def count_of_def od_simps split: option.split)
  show "od_sum (tally_one cp d) = od_sum d + (if char_lang cp \<noteq> None then 1 else 0)"
  proof (cases "char_lang cp")
    case (Some k)
    have "od_sum (od_set k (count_of d k + 1) d) + count_of d k = od_sum d + (count_of d k + 1)"
      using assms od_sum_set unfolding positive_def by blast
    then show ?thesis using Some by (simp add: tally_one_def count_of_def)
  qed (simp add: tally_one_def)
qed

lemma tally_fold:
  assumes "positive d"
  shows "positive (fold tally_one cs d) \<and> count_of (fold tally_one cs d) l = count_of d l + length (filter (\<lambda>cp. char_lang cp = Some l) cs)
    \<and> od_sum (fold tally_one cs d) = od_sum d + length (filter (\<lambda>cp. char_lang cp \<noteq> None) cs)"
  using assms
proof (induction cs arbitrary: d)
  case (Cons c cs)
  show ?case using Cons.IH [OF tally_one_spec(1) [OF Cons.prems, of c]] tally_one_spec(2,3) [OF Cons.prems, of c] by simp
qed simp

lemma tally_concat: "tally texts = fold tally_one (concat texts) []"
proof -
  have "fold (fold tally_one) texts d = fold tally_one (concat texts) d" for d
    by (induction texts arbitrary: d) simp_all
  then show ?thesis by (simp add: tally_def)
qed

lemma tally_spec: "positive (tally texts)" "count_of (tally texts) l = chars_of l texts" "od_sum (tally texts) = lettered texts"
  using tally_fold [of "[]" "concat texts"]
  by (simp_all add: tally_concat chars_of_def lettered_def positive_def count_of_def)

lemma merged_spec:
  "positive (merge_han (tally texts))" "count_of (merge_han (tally texts)) l = script_share texts l"
  "od_sum (merge_han (tally texts)) = lettered texts"
proof -
  let ?d = "tally texts"
  define j h where "j = chars_of ''ja'' texts" and "h = chars_of ''han'' texts"
  have wf: "od_wf ?d" using tally_spec(1) by (simp add: positive_def)
  have jh: "count_of ?d ''ja'' = j" "count_of ?d ''han'' = h" by (simp_all add: j_def h_def tally_spec)
  have m: "merge_han ?d = (if 0 < j \<and> 0 < h then od_set ''ja'' (j + h) (od_pop ''han'' ?d) else ?d)"
    using jh by (auto simp: merge_han_def count_of_def split: option.splits)
  have pos: "positive (od_pop ''han'' ?d)"
    using tally_spec(1) [of texts] od_wf_pop [OF wf, of "''han''"] by (auto simp: positive_def od_pop_def)
  show "positive (merge_han ?d)" using tally_spec(1) pos by (simp add: m positive_set)
  show "count_of (merge_han ?d) l = script_share texts l"
    by (simp add: m script_share_def tally_spec j_def h_def)
  have "od_sum (od_set ''ja'' (j + h) (od_pop ''han'' ?d)) + j = od_sum (od_pop ''han'' ?d) + (j + h)"
    using od_sum_set [OF od_wf_pop [OF wf], of "''ja''" "j + h" "''han''"] jh by simp
  moreover have "od_sum (od_pop ''han'' ?d) + h = od_sum ?d"
    using od_sum_pop [OF wf, of "''han''"] jh by simp
  ultimately show "od_sum (merge_han ?d) = lettered texts" by (simp add: m tally_spec(3))
qed

lemma max_item_spec: "max_item b ps \<in> set (b # ps) \<and> (\<forall>p\<in>set (b # ps). snd p \<le> snd (max_item b ps))"
proof (induction b ps rule: max_item.induct)
  case (2 b p ps)
  then show ?case by (cases "snd b < snd p") auto
qed simp

section \<open>Properties\<close>

text \<open>
  The dominant script is exactly the one that makes up at least seven tenths of the characters
  whose script is known, Han counting as Japanese beside kana: the counts decide it, and the
  order in which the scripts first appear, on which the dictionary and \<open>max\<close> depend, does
  not matter.
\<close>

theorem dominant_script_exact:
  "dominant_script_lang texts = Some l \<longleftrightarrow> 0 < lettered texts \<and> 7 * lettered texts \<le> 10 * script_share texts l"
proof -
  let ?d = "merge_han (tally texts)"
  have pos: "positive ?d" and sum: "od_sum ?d = lettered texts" by (rule merged_spec)+
  have share: "script_share texts k = count_of ?d k" for k by (simp add: merged_spec)
  show ?thesis
  proof (cases ?d)
    case Nil
    then show ?thesis using sum by (simp add: dominant_script_lang_def)
  next
    case (Cons p ps)
    obtain k n where kn: "max_item p ps = (k, n)" by (cases "max_item p ps")
    have mem: "(k, n) \<in> set ?d" and top: "\<forall>q\<in>set ?d. snd q \<le> n" using max_item_spec [of p ps] kn Cons by auto
    have ck: "count_of ?d k = n" using mem pos by (simp add: positive_def count_of_def od_wf_def)
    have n: "0 < n" "n \<le> lettered texts" using mem pos od_sum_pop [of ?d k] ck sum by (auto simp: positive_def)
    have le: "count_of ?d j \<le> n" for j
      using top by (fastforce simp: count_of_def split: option.split dest: map_of_SomeD)
    have D: "dominant_script_lang texts = (if 10 * n < 7 * lettered texts then None else Some k)"
      using sum Cons by (simp add: dominant_script_lang_def kn)
    have two: "j \<noteq> k \<Longrightarrow> count_of ?d j + n \<le> lettered texts" for j
      using od_sum_two [of ?d j k] pos ck sum by (simp add: positive_def)
    show ?thesis
    proof (cases "10 * n < 7 * lettered texts")
      case True
      then have "\<not> 7 * lettered texts \<le> 10 * script_share texts l" using le [of l] share [of l] by linarith
      then show ?thesis using True D by simp
    next
      case False
      then show ?thesis using D n two [of l] ck share [of l] by (cases "l = k") auto
    qed
  qed
qed

end
