(* ===== verification/Suggest.thy ===== *)
theory Suggest
  imports Lang_Settings Models
begin

text \<open>
  The reply suggester of \<open>src/tg_messenger/agent/suggest.py\<close>: the style profile of a contact,
  the stored read receipts, the rule for a nudge and the \<open>Suggester\<close> over them. Python's
  Unicode lower case, the JSON reading of a float in a string, the client's history and the
  language model are arguments; None is an exception of theirs. A stored profile is kept as the
  value it was (pydantic's JSON round trip is not modelled).
\<close>

section \<open>The style profile\<close>

definition default_history_limit :: int where "default_history_limit = 30"
definition max_profile_examples :: nat where "max_profile_examples = 10"

definition emoji_ranges :: "(nat \<times> nat) list" where
  "emoji_ranges = [(0x1F300, 0x1FAFF), (0x2600, 0x27BF), (0x2190, 0x21FF), (0x1F1E6, 0x1F1FF)]"

definition is_emoji :: "nat \<Rightarrow> bool" where
  "is_emoji cp \<longleftrightarrow> list_ex (\<lambda>(lo, hi). lo \<le> cp \<and> cp \<le> hi) emoji_ranges"

definition count_emoji :: "utext \<Rightarrow> nat" where
  "count_emoji t = length (filter is_emoji t)"

record style_profile =
  sp_avg_length :: real
  sp_emoji_freq :: real
  sp_greetings :: "utext list"
  sp_signatures :: "utext list"
  sp_examples :: "utext list"

definition empty_profile :: style_profile where
  "empty_profile = \<lparr>sp_avg_length = 0, sp_emoji_freq = 0, sp_greetings = [], sp_signatures = [], sp_examples = []\<rparr>"

record context_message =
  cx_out :: bool
  cx_text :: utext

definition greeting_words :: "utext list" where
  "greeting_words = [u ''hi'', u ''hey'', u ''hello'', u ''yo'', [1087, 1088, 1080, 1074, 1077, 1090],
     [1079, 1076, 1088, 1072, 1074, 1089, 1090, 1074, 1091, 1081],
     [1079, 1076, 1088, 1072, 1074, 1089, 1090, 1074, 1091, 1081, 1090, 1077], [1093, 1072, 1081],
     [1076, 1086, 1073, 1088, 1086, 1077]]"

definition signature_words :: "utext list" where
  "signature_words = [u ''bye'', u ''cya'', u ''later'', u ''thanks'', u ''thank'', [1087, 1086, 1082, 1072],
     [1089, 1087, 1072, 1089, 1080, 1073, 1086], [1076, 1086], [1091, 1076, 1072, 1095, 1080]]"

text \<open>\<open>m.text or ""\<close>, whether anything but white space is in it, and the outer punctuation.\<close>

abbreviation body_of :: "message \<Rightarrow> utext" where
  "body_of m \<equiv> or_default (ms_text m) []"

definition has_body :: "message \<Rightarrow> bool" where
  "has_body m \<longleftrightarrow> ustrip (body_of m) \<noteq> []"

definition bare_word :: "(utext \<Rightarrow> utext) \<Rightarrow> utext \<Rightarrow> utext" where
  "bare_word lower_text w = strip_by (\<lambda>c. c \<in> {33, 63, 46, 44}) (lower_text w)"

definition add_word :: "utext list \<Rightarrow> utext \<Rightarrow> utext list \<Rightarrow> utext list" where
  "add_word vocabulary w out = (if w \<in> set vocabulary \<and> w \<notin> set out then out @ [w] else out)"

fun edge_words :: "(utext \<Rightarrow> utext) \<Rightarrow> message list \<Rightarrow> utext list \<Rightarrow> utext list \<Rightarrow> utext list \<times> utext list" where
  "edge_words lower_text [] greetings signatures = (greetings, signatures)"
| "edge_words lower_text (m # ms) greetings signatures =
     (let ws = words_by space_cp (ustrip (body_of m))
      in if ws = [] then edge_words lower_text ms greetings signatures
         else edge_words lower_text ms (add_word greeting_words (bare_word lower_text (hd ws)) greetings)
           (add_word signature_words (bare_word lower_text (last ws)) signatures))"

text \<open>The loop over neighbouring messages, left at the tenth example.\<close>

fun reply_examples :: "utext list \<Rightarrow> message list \<Rightarrow> utext list" where
  "reply_examples out (prev # cur # ms) =
     (if ms_out cur \<and> \<not> ms_out prev \<and> has_body cur
      then (let out' = (if body_of cur \<in> set out then out else out @ [body_of cur])
            in if max_profile_examples \<le> length out' then out' else reply_examples out' (cur # ms))
      else reply_examples out (cur # ms))"
| "reply_examples out _ = out"

definition build_style_profile :: "(utext \<Rightarrow> utext) \<Rightarrow> message list \<Rightarrow> style_profile" where
  "build_style_profile lower_text messages =
     (let own = filter (\<lambda>m. ms_out m \<and> has_body m) messages
      in if own = [] then empty_profile
         else (let (gs, ss) = edge_words lower_text own [] []
               in \<lparr>sp_avg_length = real (sum_list (map (\<lambda>m. length (body_of m)) own)) / real (length own),
                   sp_emoji_freq = real (sum_list (map (\<lambda>m. count_emoji (body_of m)) own)) / real (length own),
                   sp_greetings = gs, sp_signatures = ss, sp_examples = reply_examples [] messages\<rparr>))"

section \<open>Profiles and read receipts in the storage\<close>

record suggest_store =
  sg_kv :: lang_store
  sg_profiles :: "(int, style_profile) odict"

definition save_style_profile :: "int \<Rightarrow> style_profile \<Rightarrow> suggest_store \<Rightarrow> suggest_store" where
  "save_style_profile dialog_id p s = s\<lparr>sg_profiles := od_set dialog_id p (sg_profiles s)\<rparr>"

definition load_style_profile :: "int \<Rightarrow> suggest_store \<Rightarrow> style_profile option" where
  "load_style_profile dialog_id s = od_get (sg_profiles s) dialog_id"

definition default_nudge_after_sec :: real where "default_nudge_after_sec = 24 * 3600"

definition last_read_key :: "int \<Rightarrow> string" where
  "last_read_key dialog_id = ''last_read_'' @ str_int dialog_id"

definition read_at_key :: "int \<Rightarrow> string" where
  "read_at_key dialog_id = ''read_at_'' @ str_int dialog_id"

record read_event =
  re_dialog_id :: int
  re_max_id :: int
  re_outbox :: bool

text \<open>Which of the two writes of a receipt the storage accepts.\<close>

datatype receipt_fate = BothWrites | FirstRaises | SecondRaises

definition record_last_read :: "receipt_fate \<Rightarrow> real \<Rightarrow> read_event \<Rightarrow> lang_store \<Rightarrow> bool \<times> lang_store" where
  "record_last_read fate now ev s =
     (if \<not> re_outbox ev then (True, s)
      else if fate = FirstRaises then (False, s)
      else (let s1 = kv_put (last_read_key (re_dialog_id ev)) (VInt (re_max_id ev)) s
            in if fate = SecondRaises then (False, s1)
               else (True, kv_put (read_at_key (re_dialog_id ev)) (VReal now) s1)))"

text \<open>\<open>int(value)\<close> and \<open>float(value)\<close> of a stored value; the outer None is a ValueError.\<close>

definition load_last_read :: "int \<Rightarrow> lang_store \<Rightarrow> int option option" where
  "load_last_read dialog_id s =
     (case kv_get (last_read_key dialog_id) s of None \<Rightarrow> Some None | Some v \<Rightarrow> map_option Some (py_int v))"

fun py_float :: "(string \<Rightarrow> real option) \<Rightarrow> kv_value \<Rightarrow> real option" where
  "py_float str_float (VReal x) = Some x"
| "py_float str_float (VInt i) = Some (of_int i)"
| "py_float str_float (VBool b) = Some (if b then 1 else 0)"
| "py_float str_float (VStr t) = str_float t"
| "py_float str_float _ = None"

definition load_read_at :: "(string \<Rightarrow> real option) \<Rightarrow> int \<Rightarrow> lang_store \<Rightarrow> real option option" where
  "load_read_at str_float dialog_id s =
     (case kv_get (read_at_key dialog_id) s of None \<Rightarrow> Some None | Some v \<Rightarrow> map_option Some (py_float str_float v))"

definition clear_last_read :: "int \<Rightarrow> lang_store \<Rightarrow> lang_store" where
  "clear_last_read dialog_id s = kv_del (read_at_key dialog_id) (kv_del (last_read_key dialog_id) s)"

text \<open>\<open>watch_read_receipts\<close>: a failing event is logged and the loop goes on.\<close>

definition watch_read_receipts :: "(receipt_fate \<times> real \<times> read_event) list \<Rightarrow> lang_store \<Rightarrow> lang_store" where
  "watch_read_receipts events s = fold (\<lambda>(fate, now, ev) s. snd (record_last_read fate now ev s)) events s"

definition should_nudge :: "message list \<Rightarrow> int option \<Rightarrow> real option \<Rightarrow> real \<Rightarrow> real \<Rightarrow> bool" where
  "should_nudge history last_read_id read_at now after_sec =
     (case (last_read_id, read_at) of
        (Some r, Some t) \<Rightarrow>
          if history = [] then False
          else if \<not> ms_out (last history) then False
          else if r < ms_id (last history) then False
          else after_sec \<le> now - t
      | _ \<Rightarrow> False)"

section \<open>Settings\<close>

definition suggest_enabled_key :: string where "suggest_enabled_key = ''suggest_enabled''"
definition suggest_history_key :: string where "suggest_history_key = ''suggest_history''"
definition suggest_model_key :: string where "suggest_model_key = ''suggest_model''"

text \<open>None is the ValueError for a limit that is no positive integer.\<close>

definition coerce_history :: "kv_value \<Rightarrow> int option" where
  "coerce_history v = (case py_int v of None \<Rightarrow> None | Some n \<Rightarrow> if n < 1 then None else Some n)"

record suggest_settings =
  gs_enabled :: bool
  gs_history :: int
  gs_model :: "string option"

definition get_suggest_settings :: "int \<Rightarrow> lang_store \<Rightarrow> suggest_settings option" where
  "get_suggest_settings default_history s =
     (case (case kv_get suggest_history_key s of None \<Rightarrow> Some default_history | Some v \<Rightarrow> coerce_history v) of
        None \<Rightarrow> None
      | Some h \<Rightarrow> Some \<lparr>gs_enabled = (case kv_get suggest_enabled_key s of None \<Rightarrow> True | Some v \<Rightarrow> py_truthy v),
          gs_history = h,
          gs_model = (case kv_get suggest_model_key s of None \<Rightarrow> None
            | Some v \<Rightarrow> if strip (py_str v) = [] then None else Some (strip (py_str v)))\<rparr>)"

definition set_suggest_settings :: "bool \<Rightarrow> kv_value \<Rightarrow> string option \<Rightarrow> lang_store \<Rightarrow> bool \<times> lang_store" where
  "set_suggest_settings enabled history model s =
     (case coerce_history history of
        None \<Rightarrow> (False, s)
      | Some h \<Rightarrow>
          (let s1 = kv_put suggest_history_key (VInt h) (kv_put suggest_enabled_key (VBool enabled) s);
               t = strip (or_default model [])
           in (True, if t = [] then kv_del suggest_model_key s1 else kv_put suggest_model_key (VStr t) s1)))"

section \<open>The suggester\<close>

type_synonym suggest_fn = "context_message list \<Rightarrow> style_profile option \<Rightarrow> utext option"
type_synonym client_history = "int \<Rightarrow> int \<Rightarrow> message list option"
type_synonym fetches = "(int \<times> int) list"

record suggester =
  su_fn :: suggest_fn
  su_default_fn :: suggest_fn
  su_history_limit :: int
  su_factory :: "(string \<Rightarrow> suggest_fn option) option"

definition new_suggester :: "suggest_fn \<Rightarrow> int \<Rightarrow> (string \<Rightarrow> suggest_fn option) option \<Rightarrow> suggester" where
  "new_suggester f limit factory = \<lparr>su_fn = f, su_default_fn = f, su_history_limit = limit, su_factory = factory\<rparr>"

definition set_suggest_fn :: "suggest_fn \<Rightarrow> suggester \<Rightarrow> suggester" where
  "set_suggest_fn f su = su\<lparr>su_fn := f\<rparr>"

definition reset_suggest_fn :: "suggester \<Rightarrow> suggester" where
  "reset_suggest_fn su = su\<lparr>su_fn := su_default_fn su\<rparr>"

definition supports_model_swap :: "suggester \<Rightarrow> bool" where
  "supports_model_swap su \<longleftrightarrow> su_factory su \<noteq> None"

definition build_suggest_fn :: "string \<Rightarrow> suggester \<Rightarrow> suggest_fn option" where
  "build_suggest_fn model su = (case su_factory su of None \<Rightarrow> None | Some mk \<Rightarrow> mk model)"

definition effective_history :: "suggester \<Rightarrow> suggest_store option \<Rightarrow> int option" where
  "effective_history su st =
     (case st of
        None \<Rightarrow> Some (su_history_limit su)
      | Some s \<Rightarrow> (case kv_get suggest_history_key (sg_kv s) of
                     None \<Rightarrow> Some (su_history_limit su) | Some v \<Rightarrow> coerce_history v))"

definition suggest_is_enabled :: "suggest_store option \<Rightarrow> bool" where
  "suggest_is_enabled st =
     (case st of
        None \<Rightarrow> True
      | Some s \<Rightarrow> (case kv_get suggest_enabled_key (sg_kv s) of None \<Rightarrow> True | Some v \<Rightarrow> py_truthy v))"

definition context_of :: "message list \<Rightarrow> context_message list" where
  "context_of hist = map (\<lambda>m. \<lparr>cx_out = ms_out m, cx_text = body_of m\<rparr>) hist"

text \<open>The draft (None: an exception) and the history reads it cost.\<close>

definition suggest :: "suggester \<Rightarrow> client_history \<Rightarrow> suggest_store option \<Rightarrow> int \<Rightarrow> utext option \<times> fetches" where
  "suggest su client st dialog_id =
     (if \<not> suggest_is_enabled st then (Some [], [])
      else (case effective_history su st of
              None \<Rightarrow> (None, [])
            | Some limit \<Rightarrow> (case client dialog_id limit of
                  None \<Rightarrow> (None, [(dialog_id, limit)])
                | Some hist \<Rightarrow>
                    (let p = (case st of None \<Rightarrow> None | Some s \<Rightarrow> load_style_profile dialog_id s)
                     in (su_fn su (context_of hist) p, [(dialog_id, limit)])))))"

text \<open>None: no storage is wired, the stored limit is bad or the history failed.\<close>

definition learn :: "(utext \<Rightarrow> utext) \<Rightarrow> suggester \<Rightarrow> client_history \<Rightarrow> int \<Rightarrow> suggest_store option
    \<Rightarrow> (style_profile \<times> suggest_store) option" where
  "learn lower_text su client dialog_id st =
     (case st of
        None \<Rightarrow> None
      | Some s \<Rightarrow> (case effective_history su st of
          None \<Rightarrow> None
        | Some limit \<Rightarrow> (case client dialog_id limit of
            None \<Rightarrow> None
          | Some hist \<Rightarrow> (let p = build_style_profile lower_text hist in Some (p, save_style_profile dialog_id p s)))))"

section \<open>Nudges\<close>

record nudge =
  nd_dialog_id :: int
  nd_read_at :: real
  nd_draft :: utext

type_synonym nudge_result = "nudge list option \<times> fetches \<times> suggest_store"

definition with_fetches :: "fetches \<Rightarrow> nudge_result \<Rightarrow> nudge_result" where
  "with_fetches cs r = (case r of (out, fs, s) \<Rightarrow> (out, cs @ fs, s))"

definition with_nudge :: "nudge \<Rightarrow> nudge_result \<Rightarrow> nudge_result" where
  "with_nudge n r = (case r of (out, fs, s) \<Rightarrow> (map_option (Cons n) out, fs, s))"

text \<open>The receipt is spent: the contact spoke last, or our last message is newer than it.\<close>

definition spent :: "int \<Rightarrow> message list \<Rightarrow> bool" where
  "spent last_read_id hist \<longleftrightarrow> hist \<noteq> [] \<and> (\<not> ms_out (last hist) \<or> last_read_id < ms_id (last hist))"

definition aged_receipt :: "real \<Rightarrow> real \<Rightarrow> int option \<Rightarrow> real option \<Rightarrow> (int \<times> real) option" where
  "aged_receipt now after_sec last_read_id read_at =
     (case (last_read_id, read_at) of
        (Some r, Some t) \<Rightarrow> if now - t < after_sec then None else Some (r, t)
      | _ \<Rightarrow> None)"

definition drop_spent :: "int \<Rightarrow> int \<Rightarrow> message list \<Rightarrow> suggest_store \<Rightarrow> suggest_store" where
  "drop_spent dialog_id r hist s = (if spent r hist then s\<lparr>sg_kv := clear_last_read dialog_id (sg_kv s)\<rparr> else s)"

text \<open>
  The loop of \<open>nudge_candidates\<close>. \<open>during d\<close> is what the rest of the program does to the
  storage while the history of \<open>d\<close> is read from the network; a draft that fails is skipped,
  any other exception (None) ends the pass.
\<close>

fun nudge_loop :: "(string \<Rightarrow> real option) \<Rightarrow> suggester \<Rightarrow> client_history \<Rightarrow> (int \<Rightarrow> suggest_store \<Rightarrow> suggest_store)
    \<Rightarrow> real \<Rightarrow> real \<Rightarrow> int list \<Rightarrow> suggest_store \<Rightarrow> nudge_result" where
  "nudge_loop fl su client during now after_sec [] s = (Some [], [], s)"
| "nudge_loop fl su client during now after_sec (d # ds) s =
     (case (load_last_read d (sg_kv s), load_read_at fl d (sg_kv s)) of
        (Some lr, Some ra) \<Rightarrow>
          (case aged_receipt now after_sec lr ra of
             None \<Rightarrow> nudge_loop fl su client during now after_sec ds s
           | Some (r, t) \<Rightarrow>
               with_fetches [(d, su_history_limit su)]
                 (case client d (su_history_limit su) of
                    None \<Rightarrow> (None, [], during d s)
                  | Some hist \<Rightarrow>
                      (let s1 = during d s
                       in if \<not> should_nudge hist lr ra now after_sec
                          then nudge_loop fl su client during now after_sec ds (drop_spent d r hist s1)
                          else (case suggest su client (Some s1) d of
                                  (None, cs) \<Rightarrow> with_fetches cs (nudge_loop fl su client during now after_sec ds s1)
                                | (Some draft, cs) \<Rightarrow> with_fetches cs
                                    (with_nudge \<lparr>nd_dialog_id = d, nd_read_at = t, nd_draft = draft\<rparr>
                                      (nudge_loop fl su client during now after_sec ds s1))))))
      | _ \<Rightarrow> (None, [], s))"

definition nudge_candidates :: "(string \<Rightarrow> real option) \<Rightarrow> suggester \<Rightarrow> client_history \<Rightarrow> (int \<Rightarrow> suggest_store \<Rightarrow> suggest_store)
    \<Rightarrow> real \<Rightarrow> real \<Rightarrow> int list \<Rightarrow> suggest_store option \<Rightarrow> nudge_result option" where
  "nudge_candidates fl su client during now after_sec dialog_ids st =
     map_option (nudge_loop fl su client during now after_sec dialog_ids) st"

section \<open>What a profile holds\<close>

definition replies :: "message list \<Rightarrow> utext set" where
  "replies ms = {body_of cur | pre prev cur post. ms = pre @ prev # cur # post \<and> ms_out cur \<and> \<not> ms_out prev \<and> has_body cur}"

lemma replies_Cons: "replies ms \<subseteq> replies (m # ms)"
proof
  fix t
  assume "t \<in> replies ms"
  then obtain pre prev cur post where t: "ms = pre @ prev # cur # post" "t = body_of cur" "ms_out cur" "\<not> ms_out prev" "has_body cur"
    unfolding replies_def by blast
  then have "m # ms = (m # pre) @ prev # cur # post" by simp
  then show "t \<in> replies (m # ms)" using t unfolding replies_def by blast
qed

lemma replies_here: "ms_out cur \<Longrightarrow> \<not> ms_out prev \<Longrightarrow> has_body cur \<Longrightarrow> body_of cur \<in> replies (prev # cur # ms)"
  unfolding replies_def by (intro CollectI exI [of _ cur] exI [of _ "[]"] exI [of _ prev] exI [of _ ms]) simp

lemma reply_examples_spec:
  assumes "distinct out" and "length out < max_profile_examples"
  shows "distinct (reply_examples out ms) \<and> length (reply_examples out ms) \<le> max_profile_examples
    \<and> set (reply_examples out ms) \<subseteq> set out \<union> replies ms"
  using assms
proof (induction ms arbitrary: out rule: induct_list012)
  case (3 prev cur ms)
  show ?case
  proof (cases "ms_out cur \<and> \<not> ms_out prev \<and> has_body cur")
    case True
    define o' where "o' = (if body_of cur \<in> set out then out else out @ [body_of cur])"
    have o: "distinct o'" "length o' \<le> max_profile_examples" "set o' \<subseteq> insert (body_of cur) (set out)"
      using "3.prems" by (auto simp: o'_def)
    have e: "reply_examples out (prev # cur # ms) = (if max_profile_examples \<le> length o' then o' else reply_examples o' (cur # ms))"
      using True by (simp add: o'_def Let_def)
    have sub: "set o' \<subseteq> set out \<union> replies (prev # cur # ms)" using o(3) replies_here [of cur prev ms] True by blast
    show ?thesis
    proof (cases "max_profile_examples \<le> length o'")
      case False
      then have "distinct (reply_examples o' (cur # ms)) \<and> length (reply_examples o' (cur # ms)) \<le> max_profile_examples
        \<and> set (reply_examples o' (cur # ms)) \<subseteq> set o' \<union> replies (cur # ms)"
        using "3.IH"(2) [of o'] o by simp
      then show ?thesis unfolding e using False sub replies_Cons [of "cur # ms" prev] by auto
    next
      case True
      then show ?thesis unfolding e using o sub by simp
    qed
  next
    case False
    then have "reply_examples out (prev # cur # ms) = reply_examples out (cur # ms)" by auto
    then show ?thesis using "3.IH"(2) [OF "3.prems"] replies_Cons [of "cur # ms" prev] by auto
  qed
qed simp_all

lemma edge_words_spec:
  assumes "distinct gs" "distinct ss" "set gs \<subseteq> set greeting_words" "set ss \<subseteq> set signature_words"
    and "edge_words L ms gs ss = (gs', ss')"
  shows "distinct gs' \<and> distinct ss' \<and> set gs' \<subseteq> set greeting_words \<and> set ss' \<subseteq> set signature_words"
  using assms
proof (induction L ms gs ss rule: edge_words.induct)
  case (2 L m ms gs ss)
  show ?case
  proof (cases "words_by space_cp (ustrip (body_of m)) = []")
    case True
    then show ?thesis using 2(1) [OF refl True] 2(3-) by simp
  next
    case False
    show ?thesis using 2(3-) False
      by (intro 2(2) [OF refl False]) (auto simp: add_word_def Let_def)
  qed
qed simp

lemma emoji_share: "real (sum_list (map (\<lambda>m. count_emoji (body_of m)) ms)) / n \<le> real (sum_list (map (\<lambda>m. length (body_of m)) ms)) / n" if "0 \<le> n"
proof -
  have "sum_list (map (\<lambda>m. count_emoji (body_of m)) ms) \<le> sum_list (map (\<lambda>m. length (body_of m)) ms)"
    by (rule sum_list_mono) (simp add: count_emoji_def)
  then show ?thesis using that by (simp add: divide_right_mono)
qed

text \<open>
  A style profile is bounded and taken from the history only: at most ten examples, all
  different, each the text of an own message that directly follows one of the contact; every
  greeting and signature once and from the fixed vocabularies; and the emoji frequency between
  zero and the average length.
\<close>

theorem style_profile_bounds:
  "let p = build_style_profile L ms in
     distinct (sp_examples p) \<and> length (sp_examples p) \<le> 10 \<and> set (sp_examples p) \<subseteq> replies ms
     \<and> distinct (sp_greetings p) \<and> set (sp_greetings p) \<subseteq> set greeting_words
     \<and> distinct (sp_signatures p) \<and> set (sp_signatures p) \<subseteq> set signature_words
     \<and> 0 \<le> sp_emoji_freq p \<and> sp_emoji_freq p \<le> sp_avg_length p"
proof -
  define own where "own = filter (\<lambda>m. ms_out m \<and> has_body m) ms"
  obtain gs ss where e: "edge_words L own [] [] = (gs, ss)" by (cases "edge_words L own [] []")
  have g: "distinct gs \<and> distinct ss \<and> set gs \<subseteq> set greeting_words \<and> set ss \<subseteq> set signature_words"
    using edge_words_spec [OF _ _ _ _ e] by simp
  have x: "distinct (reply_examples [] ms) \<and> length (reply_examples [] ms) \<le> 10 \<and> set (reply_examples [] ms) \<subseteq> replies ms"
    using reply_examples_spec [of "[]" ms] by (simp add: max_profile_examples_def)
  show ?thesis
  proof (cases "own = []")
    case True
    then show ?thesis unfolding own_def by (simp add: build_style_profile_def empty_profile_def)
  next
    case False
    then have "build_style_profile L ms = \<lparr>sp_avg_length = real (sum_list (map (\<lambda>m. length (body_of m)) own)) / real (length own),
        sp_emoji_freq = real (sum_list (map (\<lambda>m. count_emoji (body_of m)) own)) / real (length own),
        sp_greetings = gs, sp_signatures = ss, sp_examples = reply_examples [] ms\<rparr>"
      using e unfolding own_def build_style_profile_def by (simp add: Let_def)
    then show ?thesis using g x emoji_share [of "real (length own)" own] by (simp add: sum_list_nonneg)
  qed
qed

section \<open>A second pass\<close>

abbreviation receipt :: "(string \<Rightarrow> real option) \<Rightarrow> suggest_store \<Rightarrow> int \<Rightarrow> int option option \<times> real option option" where
  "receipt fl s d \<equiv> (load_last_read d (sg_kv s), load_read_at fl d (sg_kv s))"

lemma receipt_keys [simp]:
  "last_read_key d = last_read_key e \<longleftrightarrow> d = e" "read_at_key d = read_at_key e \<longleftrightarrow> d = e"
  "last_read_key d \<noteq> read_at_key e" "read_at_key e \<noteq> last_read_key d"
  "suggest_history_key \<noteq> last_read_key d" "suggest_history_key \<noteq> read_at_key d"
  "suggest_enabled_key \<noteq> last_read_key d" "suggest_enabled_key \<noteq> read_at_key d"
  by (simp_all add: last_read_key_def read_at_key_def suggest_history_key_def suggest_enabled_key_def str_int_inj)

lemma read_cleared [simp]:
  "load_last_read e (clear_last_read d kv) = (if e = d then Some None else load_last_read e kv)"
  "load_read_at fl e (clear_last_read d kv) = (if e = d then Some None else load_read_at fl e kv)"
  by (auto simp: load_last_read_def load_read_at_def clear_last_read_def)

lemma receipt_cleared:
  "receipt fl (s\<lparr>sg_kv := clear_last_read d (sg_kv s)\<rparr>) e = (if e = d then (Some None, Some None) else receipt fl s e)"
  by simp

lemma suggest_cleared: "suggest su client (Some (s\<lparr>sg_kv := clear_last_read d (sg_kv s)\<rparr>)) e = suggest su client (Some s) e"
  by (simp add: suggest_def suggest_is_enabled_def effective_history_def clear_last_read_def load_style_profile_def Let_def split: option.split)

text \<open>What one dialog contributes, read off the storage before the pass.\<close>

definition nudge_of :: "(string \<Rightarrow> real option) \<Rightarrow> suggester \<Rightarrow> client_history \<Rightarrow> real \<Rightarrow> real \<Rightarrow> suggest_store \<Rightarrow> int \<Rightarrow> nudge list" where
  "nudge_of fl su client now after_sec s d =
     (case receipt fl s d of
        (Some (Some r), Some (Some t)) \<Rightarrow>
          (case client d (su_history_limit su) of
             Some hist \<Rightarrow> (if should_nudge hist (Some r) (Some t) now after_sec
                then (case fst (suggest su client (Some s) d) of
                        Some draft \<Rightarrow> [\<lparr>nd_dialog_id = d, nd_read_at = t, nd_draft = draft\<rparr>] | None \<Rightarrow> [])
                else [])
           | None \<Rightarrow> [])
      | _ \<Rightarrow> [])"

text \<open>A dialog whose receipt is not aged, or aged and not spent.\<close>

definition calm :: "(string \<Rightarrow> real option) \<Rightarrow> suggester \<Rightarrow> client_history \<Rightarrow> real \<Rightarrow> real \<Rightarrow> suggest_store \<Rightarrow> int \<Rightarrow> bool" where
  "calm fl su client now after_sec s d \<longleftrightarrow> (\<exists>lr ra. receipt fl s d = (Some lr, Some ra) \<and>
     (case aged_receipt now after_sec lr ra of None \<Rightarrow> True
      | Some (r, t) \<Rightarrow> (\<exists>hist. client d (su_history_limit su) = Some hist \<and> \<not> spent r hist)))"

lemma aged_receiptD: "aged_receipt now after_sec lr ra = Some (r, t) \<Longrightarrow> lr = Some r \<and> ra = Some t \<and> after_sec \<le> now - t"
  by (auto simp: aged_receipt_def split: option.splits if_splits)

lemma not_aged_no_nudge: "aged_receipt now after_sec lr ra = None \<Longrightarrow> \<not> should_nudge hist lr ra now after_sec"
  by (auto simp: aged_receipt_def should_nudge_def split: option.splits if_splits)

lemma spent_no_nudge: "spent r hist \<Longrightarrow> \<not> should_nudge hist (Some r) ra now after_sec"
  by (auto simp: spent_def should_nudge_def split: option.splits)

lemma nudge_of_stale: "receipt fl s d = (Some lr, Some ra) \<Longrightarrow> aged_receipt now after_sec lr ra = None \<Longrightarrow>
    nudge_of fl su client now after_sec s d = []"
  using not_aged_no_nudge by (fastforce simp: nudge_of_def split: option.splits)

lemma nudge_of_aged: "receipt fl s d = (Some (Some r), Some (Some t)) \<Longrightarrow> client d (su_history_limit su) = Some hist \<Longrightarrow>
    nudge_of fl su client now after_sec s d =
      (if should_nudge hist (Some r) (Some t) now after_sec
       then (case fst (suggest su client (Some s) d) of
               Some draft \<Rightarrow> [\<lparr>nd_dialog_id = d, nd_read_at = t, nd_draft = draft\<rparr>] | None \<Rightarrow> []) else [])"
  by (simp add: nudge_of_def)

lemma with_fetches_simps [simp]: "with_fetches cs (out, fs, s) = (out, cs @ fs, s)"
  by (simp add: with_fetches_def)

lemma with_nudge_simps [simp]: "with_nudge n (out, fs, s) = (map_option (Cons n) out, fs, s)"
  by (simp add: with_nudge_def)

abbreviation pass :: "(string \<Rightarrow> real option) \<Rightarrow> suggester \<Rightarrow> client_history \<Rightarrow> real \<Rightarrow> real \<Rightarrow> int list \<Rightarrow> suggest_store \<Rightarrow> nudge_result" where
  "pass fl su client now after_sec \<equiv> nudge_loop fl su client (\<lambda>_ s. s) now after_sec"

text \<open>One turn of an undisturbed pass.\<close>

lemma pass_turn:
  assumes "pass fl su client now after_sec (d # ds) s = (Some out, fs, s')"
  obtains s1 out1 fs1 where "pass fl su client now after_sec ds s1 = (Some out1, fs1, s')"
    "out = nudge_of fl su client now after_sec s d @ out1" "calm fl su client now after_sec s1 d"
    "s1 = s \<or> s1 = s\<lparr>sg_kv := clear_last_read d (sg_kv s)\<rparr> \<and> nudge_of fl su client now after_sec s d = []"
proof -
  obtain lr ra where R: "receipt fl s d = (Some lr, Some ra)" using assms by (auto split: option.splits)
  show thesis
  proof (cases "aged_receipt now after_sec lr ra")
    case None
    then show thesis using assms R nudge_of_stale [OF R None]
      by (intro that [of s out fs]) (auto simp: calm_def)
  next
    case (Some p)
    obtain r t where p: "p = (r, t)" by (cases p)
    have rt: "lr = Some r" "ra = Some t" using aged_receiptD Some p by auto
    obtain hist where h: "client d (su_history_limit su) = Some hist"
      using assms R Some p by (cases "client d (su_history_limit su)") auto
    have N: "nudge_of fl su client now after_sec s d = (if should_nudge hist (Some r) (Some t) now after_sec
       then (case fst (suggest su client (Some s) d) of
               Some draft \<Rightarrow> [\<lparr>nd_dialog_id = d, nd_read_at = t, nd_draft = draft\<rparr>] | None \<Rightarrow> []) else [])"
      using nudge_of_aged [where fl = fl and s = s and d = d and r = r and t = t and client = client and su = su and hist = hist and now = now and after_sec = after_sec] R rt h by simp
    show thesis
    proof (cases "should_nudge hist (Some r) (Some t) now after_sec")
      case False
      obtain fs1 where "pass fl su client now after_sec ds (drop_spent d r hist s) = (Some out, fs1, s')"
        using assms R Some p rt h False by (cases "pass fl su client now after_sec ds (drop_spent d r hist s)") auto
      then show thesis using False N R rt Some p h
        by (intro that [of "drop_spent d r hist s" out fs1])
          (auto simp: drop_spent_def calm_def receipt_cleared aged_receipt_def [of _ _ None])
    next
      case True
      then have ns: "\<not> spent r hist" using spent_no_nudge by blast
      obtain o1 fs1 s2 where P: "pass fl su client now after_sec ds s = (o1, fs1, s2)" by (metis prod_cases3)
      obtain draft cs where S: "suggest su client (Some s) d = (draft, cs)" by (cases "suggest su client (Some s) d")
      have "s2 = s'" "\<exists>o2. o1 = Some o2 \<and> out = nudge_of fl su client now after_sec s d @ o2"
        using assms R Some p rt h True P S N by (auto split: option.splits)
      then obtain o2 where "s2 = s'" "o1 = Some o2" "out = nudge_of fl su client now after_sec s d @ o2" by auto
      then show thesis using P ns R rt Some p h by (intro that [of s o2 fs1]) (auto simp: calm_def)
    qed
  qed
qed

text \<open>A whole undisturbed pass: what it yields, and what is left of the receipts.\<close>

lemma pass_spec:
  assumes "pass fl su client now after_sec ds s = (Some out, fs, s')"
  shows "out = concat (map (nudge_of fl su client now after_sec s) ds)
    \<and> (\<forall>d. nudge_of fl su client now after_sec s' d = nudge_of fl su client now after_sec s d)
    \<and> (\<forall>d. receipt fl s' d = receipt fl s d \<or> receipt fl s' d = (Some None, Some None))
    \<and> (\<forall>d\<in>set ds. calm fl su client now after_sec s' d)"
  using assms
proof (induction ds arbitrary: s out fs)
  case (Cons d ds)
  let ?n = "nudge_of fl su client now after_sec"
  obtain s1 out1 fs1 where t: "pass fl su client now after_sec ds s1 = (Some out1, fs1, s')" "out = ?n s d @ out1"
    "calm fl su client now after_sec s1 d" and s1: "s1 = s \<or> s1 = s\<lparr>sg_kv := clear_last_read d (sg_kv s)\<rparr> \<and> ?n s d = []"
    using pass_turn [OF Cons.prems] by blast
  have R: "receipt fl s1 e = receipt fl s e \<or> receipt fl s1 e = (Some None, Some None)" for e
    using s1 by (elim disjE) auto
  have N: "?n s1 e = ?n s e" for e
  proof (cases "s1 = s")
    case False
    then have c: "s1 = s\<lparr>sg_kv := clear_last_read d (sg_kv s)\<rparr>" "?n s d = []" using s1 by auto
    show ?thesis
    proof (cases "e = d")
      case True
      then show ?thesis using c by (simp add: nudge_of_def)
    next
      case False
      then show ?thesis unfolding c(1) nudge_of_def by (auto simp: suggest_cleared split: option.split)
    qed
  qed simp
  have IH: "out1 = concat (map (?n s1) ds)" "\<forall>e. ?n s' e = ?n s1 e"
    "\<forall>e. receipt fl s' e = receipt fl s1 e \<or> receipt fl s' e = (Some None, Some None)"
    "\<forall>e\<in>set ds. calm fl su client now after_sec s' e" using Cons.IH [OF t(1)] by auto
  have "calm fl su client now after_sec s' d"
    using IH(3) [rule_format, of d] t(3) by (elim disjE) (simp_all add: calm_def aged_receipt_def)
  moreover have "?n s1 = ?n s" using N by blast
  moreover have "receipt fl s' e = receipt fl s e \<or> receipt fl s' e = (Some None, Some None)" for e
    using IH(3) [rule_format, of e] R [of e] by (elim disjE) simp_all
  ultimately show ?case using IH t(2) by simp
qed simp

text \<open>A pass over calm dialogs changes nothing and reads only what is not spent.\<close>

lemma calm_pass:
  assumes "\<forall>d\<in>set ds. calm fl su client now after_sec s d"
  shows "\<exists>fs. pass fl su client now after_sec ds s = (Some (concat (map (nudge_of fl su client now after_sec s) ds)), fs, s)
    \<and> (\<forall>p\<in>set fs. \<exists>hist. client (fst p) (su_history_limit su) = Some hist \<and> (hist = [] \<or> ms_out (last hist)))"
  using assms
proof (induction ds)
  case (Cons d ds)
  let ?n = "nudge_of fl su client now after_sec s"
  obtain fs where fs: "pass fl su client now after_sec ds s = (Some (concat (map ?n ds)), fs, s)"
    "\<forall>p\<in>set fs. \<exists>hist. client (fst p) (su_history_limit su) = Some hist \<and> (hist = [] \<or> ms_out (last hist))"
    using Cons by auto
  obtain lr ra where R: "receipt fl s d = (Some lr, Some ra)"
    and c: "case aged_receipt now after_sec lr ra of None \<Rightarrow> True
      | Some (r, t) \<Rightarrow> \<exists>hist. client d (su_history_limit su) = Some hist \<and> \<not> spent r hist"
    using Cons.prems by (auto simp: calm_def)
  show ?case
  proof (cases "aged_receipt now after_sec lr ra")
    case None
    then show ?thesis using R fs nudge_of_stale [OF R None] by auto
  next
    case (Some p)
    obtain r t where p: "p = (r, t)" by (cases p)
    have rt: "lr = Some r" "ra = Some t" using aged_receiptD Some p by auto
    obtain hist where h: "client d (su_history_limit su) = Some hist" "\<not> spent r hist" using c Some p by auto
    have tail: "hist = [] \<or> ms_out (last hist)" using h(2) by (auto simp: spent_def)
    have N: "?n d = (if should_nudge hist (Some r) (Some t) now after_sec
       then (case fst (suggest su client (Some s) d) of
               Some draft \<Rightarrow> [\<lparr>nd_dialog_id = d, nd_read_at = t, nd_draft = draft\<rparr>] | None \<Rightarrow> []) else [])"
      using nudge_of_aged [where fl = fl and s = s and d = d and r = r and t = t and client = client and su = su and hist = hist and now = now and after_sec = after_sec] R rt h by simp
    have S: "\<forall>p\<in>set (snd (suggest su client (Some s) d)). fst p = d"
      by (auto simp: suggest_def Let_def split: option.splits if_splits)
    obtain draft cs where sg: "suggest su client (Some s) d = (draft, cs)" by (cases "suggest su client (Some s) d")
    show ?thesis
      using R Some p rt h(1) fs tail N S sg by (auto simp: drop_spent_def h(2) split: option.splits)
  qed
qed simp

text \<open>
  One pass settles the receipts: when nothing else writes to the storage, a second
  pass at the same time yields the same drafts and leaves the storage alone, and every history
  it still reads belongs to a dialog that is empty or whose last message is ours. A dialog the
  contact has answered is thus read from the network at most once.
\<close>

theorem nudge_pass_settles:
  assumes "nudge_candidates fl su client (\<lambda>_ s. s) now after_sec ids (Some s) = Some (Some out, fs, s')"
  shows "\<exists>fs'. nudge_candidates fl su client (\<lambda>_ s. s) now after_sec ids (Some s') = Some (Some out, fs', s')
    \<and> (\<forall>p\<in>set fs'. \<exists>hist. client (fst p) (su_history_limit su) = Some hist \<and> (hist = [] \<or> ms_out (last hist)))"
proof -
  have p: "pass fl su client now after_sec ids s = (Some out, fs, s')" using assms by (simp add: nudge_candidates_def)
  have P: "out = concat (map (nudge_of fl su client now after_sec s) ids)"
    "\<forall>d. nudge_of fl su client now after_sec s' d = nudge_of fl su client now after_sec s d"
    "\<forall>d\<in>set ids. calm fl su client now after_sec s' d" using pass_spec [OF p] by auto
  have "map (nudge_of fl su client now after_sec s') ids = map (nudge_of fl su client now after_sec s) ids" using P(2) by simp
  then show ?thesis using calm_pass [OF P(3)] unfolding P(1) by (simp only: nudge_candidates_def option.map) auto
qed

text \<open>Two dialogs: one read for two days and silent, one that answered.\<close>

definition toy_msg :: "int \<Rightarrow> int \<Rightarrow> bool \<Rightarrow> message" where
  "toy_msg d i out = \<lparr>ms_id = i, ms_dialog_id = d, ms_sender_id = 0, ms_out = out, ms_date = 0,
     ms_text = Some (u ''hi''), ms_media = None, ms_reply_to_id = None, ms_is_forward = False, ms_translated_text = None, ms_sender = None\<rparr>"

definition toy_client :: client_history where
  "toy_client d n = Some (if d = 1 then [toy_msg 1 7 True] else [toy_msg 2 7 True, toy_msg 2 8 False])"

definition toy_kv :: lang_store where
  "toy_kv = \<lparr>ls_kv = [], ls_msgs = \<lparr>mt_rows = [], mt_sync = [], mt_ttl = 0, mt_locks = [], mt_last = []\<rparr>\<rparr>"

lemma toy_kv_empty [simp]: "kv_get k toy_kv = None"
  by (simp add: toy_kv_def kv_get_def)

definition toy_receipts :: suggest_store where
  "toy_receipts = \<lparr>sg_kv = watch_read_receipts
     [(BothWrites, 0, \<lparr>re_dialog_id = 1, re_max_id = 7, re_outbox = True\<rparr>),
      (BothWrites, 0, \<lparr>re_dialog_id = 2, re_max_id = 7, re_outbox = True\<rparr>)]
     toy_kv, sg_profiles = []\<rparr>"

definition toy_suggester :: suggester where
  "toy_suggester = new_suggester (\<lambda>_ _. Some (u ''still there?'')) 30 None"

lemma toy_receipt:
  "receipt fl toy_receipts 1 = (Some (Some 7), Some (Some 0))" "receipt fl toy_receipts 2 = (Some (Some 7), Some (Some 0))"
  by (simp_all add: toy_receipts_def watch_read_receipts_def record_last_read_def load_last_read_def load_read_at_def)

lemma toy_suggest: "kv_get suggest_history_key (sg_kv toy_receipts) = None" "kv_get suggest_enabled_key (sg_kv toy_receipts) = None"
  by (simp_all add: toy_receipts_def watch_read_receipts_def record_last_read_def)

theorem nudge_pass_settles_witness:
  "\<exists>fs s' fs'. nudge_candidates (\<lambda>_. None) toy_suggester toy_client (\<lambda>_ s. s) 172800 86400 [1, 2] (Some toy_receipts)
       = Some (Some [\<lparr>nd_dialog_id = 1, nd_read_at = 0, nd_draft = u ''still there?''\<rparr>], fs, s')
    \<and> nudge_candidates (\<lambda>_. None) toy_suggester toy_client (\<lambda>_ s. s) 172800 86400 [1, 2] (Some s')
       = Some (Some [\<lparr>nd_dialog_id = 1, nd_read_at = 0, nd_draft = u ''still there?''\<rparr>], fs', s')"
proof -
  have S: "suggest toy_suggester toy_client (Some toy_receipts) 1 = (Some (u ''still there?''), [(1, 30)])"
    by (simp add: suggest_def suggest_is_enabled_def effective_history_def toy_suggest toy_suggester_def new_suggester_def toy_client_def)
  have "\<exists>fs s'. nudge_candidates (\<lambda>_. None) toy_suggester toy_client (\<lambda>_ s. s) 172800 86400 [1, 2] (Some toy_receipts)
       = Some (Some [\<lparr>nd_dialog_id = 1, nd_read_at = 0, nd_draft = u ''still there?''\<rparr>], fs, s')"
    using toy_receipt [of "\<lambda>_. None"] by (simp add: nudge_candidates_def aged_receipt_def toy_client_def should_nudge_def toy_msg_def S)
  then obtain fs s' where r: "nudge_candidates (\<lambda>_. None) toy_suggester toy_client (\<lambda>_ s. s) 172800 86400 [1, 2] (Some toy_receipts)
       = Some (Some [\<lparr>nd_dialog_id = 1, nd_read_at = 0, nd_draft = u ''still there?''\<rparr>], fs, s')" by blast
  show ?thesis using nudge_pass_settles [OF r] r by blast
qed

text \<open>
  A receipt that arrives while the history is being read is lost. The pass decides from
  the receipt it read before the network call; when the contact reads our newer message during the
  call, the old receipt still looks spent and clearing it deletes the fresh one, so that message,
  though read and unanswered, is not nudged by any later pass over the dialog, however long it waits.
\<close>

theorem fresh_receipt_dropped:
  assumes "receipt fl s d = (Some (Some r), Some (Some t))" and "after_sec \<le> now - t"
    and "client d (su_history_limit su) = Some hist" and "hist \<noteq> []" and "ms_out (last hist)" and "r < ms_id (last hist)"
    and "during = (\<lambda>_ s. s\<lparr>sg_kv := snd (record_last_read BothWrites now \<lparr>re_dialog_id = d, re_max_id = ms_id (last hist), re_outbox = True\<rparr> (sg_kv s))\<rparr>)"
  shows "\<exists>fs s'. nudge_candidates fl su client during now after_sec [d] (Some s) = Some (Some [], fs, s')
    \<and> nudge_candidates fl su client (\<lambda>_ s. s) later after_sec [d] (Some s') = Some (Some [], [], s')"
proof -
  define s1 where "s1 = s\<lparr>sg_kv := snd (record_last_read BothWrites now \<lparr>re_dialog_id = d, re_max_id = ms_id (last hist), re_outbox = True\<rparr> (sg_kv s))\<rparr>"
  define s' where "s' = s1\<lparr>sg_kv := clear_last_read d (sg_kv s1)\<rparr>"
  have sp: "spent r hist" using assms(4,6) by (simp add: spent_def)
  have "nudge_loop fl su client during now after_sec [d] s = (Some [], [(d, su_history_limit su)], s')"
    using assms(1,2,3) sp spent_no_nudge [OF sp]
    by (simp add: aged_receipt_def assms(7) drop_spent_def s'_def s1_def)
  moreover have "nudge_loop fl su client (\<lambda>_ s. s) later after_sec [d] s' = (Some [], [], s')"
    by (simp add: s'_def aged_receipt_def)
  ultimately show ?thesis by (simp add: nudge_candidates_def)
qed

theorem fresh_receipt_dropped_witness:
  "\<exists>fs s'. nudge_candidates (\<lambda>_. None) toy_suggester (\<lambda>_ _. Some [toy_msg 1 9 True])
      (\<lambda>_ s. s\<lparr>sg_kv := snd (record_last_read BothWrites 172800 \<lparr>re_dialog_id = 1, re_max_id = 9, re_outbox = True\<rparr> (sg_kv s))\<rparr>)
      172800 86400 [1] (Some toy_receipts) = Some (Some [], fs, s')
    \<and> nudge_candidates (\<lambda>_. None) toy_suggester (\<lambda>_ _. Some [toy_msg 1 9 True]) (\<lambda>_ s. s) 999999 86400 [1] (Some s') = Some (Some [], [], s')"
  by (rule fresh_receipt_dropped [OF toy_receipt(1), of 86400 172800 "\<lambda>_ _. Some [toy_msg 1 9 True]" toy_suggester "[toy_msg 1 9 True]"])
    (simp_all add: toy_msg_def)

end
