(* ===== verification/Outbound.thy ===== *)
theory Outbound
  imports Script_Lang Suggest
begin

text \<open>
  The outbound translation picker of \<open>src/tg_messenger/agent/outbound.py\<close>: the stored language
  of a dialog, its detection under a lock, the decision whether a draft is offered in another
  language, and the variants. The detector, the variant writer, the histories, pydantic's reading
  of a stored value and the clock are arguments; None is an exception of theirs. The storage works.
\<close>

section \<open>The language of a dialog\<close>

datatype lang_source = Auto | Manual

record dialog_lang =
  dl_lang :: string
  dl_source :: lang_source
  dl_detected_at :: "instant option"

definition auto_dialog_lang_ttl_seconds :: real where "auto_dialog_lang_ttl_seconds = 86400"
definition dialog_lang_locks_max :: nat where "dialog_lang_locks_max = 1000"

definition non_latin_script_langs :: "string list" where
  "non_latin_script_langs = [''ar'', ''el'', ''he'', ''ja'', ''ko'', ''ru'', ''th'', ''zh'']"

definition cyrillic_script_langs :: "string list" where
  "cyrillic_script_langs = [''be'', ''bg'', ''kk'', ''ky'', ''mk'', ''mn'', ''ru'', ''sr'', ''tg'', ''uk'', ''uz'']"

definition han_script_langs :: "string list" where
  "han_script_langs = [''ja'', ''ko'', ''lzh'', ''yue'', ''zh'']"

definition dialog_lang_key :: "int \<Rightarrow> string" where
  "dialog_lang_key dialog_id = ''dialog_lang_'' @ str_int dialog_id"

definition outbound_enabled_key :: "int \<Rightarrow> string" where
  "outbound_enabled_key dialog_id = ''outbound_enabled_'' @ str_int dialog_id"

text \<open>\<open>model_dump(exclude_none=True)\<close>.\<close>

definition dump_dialog_lang :: "dialog_lang \<Rightarrow> kv_value" where
  "dump_dialog_lang x = VDict ([(''lang'', VStr (dl_lang x)),
     (''source'', VStr (case dl_source x of Auto \<Rightarrow> ''auto'' | Manual \<Rightarrow> ''manual''))]
     @ (case dl_detected_at x of None \<Rightarrow> [] | Some t \<Rightarrow> [(''detected_at'', VReal t)]))"

text \<open>The outer None is a validation error.\<close>

definition get_dialog_lang :: "(kv_value \<Rightarrow> dialog_lang option) \<Rightarrow> int \<Rightarrow> lang_store \<Rightarrow> dialog_lang option option" where
  "get_dialog_lang validate dialog_id s =
     (case kv_get (dialog_lang_key dialog_id) s of None \<Rightarrow> Some None | Some v \<Rightarrow> map_option Some (validate v))"

definition set_dialog_lang :: "int \<Rightarrow> string option \<Rightarrow> lang_source \<Rightarrow> instant option \<Rightarrow> lang_store
    \<Rightarrow> (setting_error, unit) result \<times> lang_store" where
  "set_dialog_lang dialog_id code source detected_at s =
     (case code of
        None \<Rightarrow> (Inr (), kv_del (dialog_lang_key dialog_id) s)
      | Some c \<Rightarrow> (case validate_supported_lang_code c of
          Inl _ \<Rightarrow> (Inl InvalidLang, s)
        | Inr lang \<Rightarrow> (Inr (), kv_put (dialog_lang_key dialog_id)
            (dump_dialog_lang \<lparr>dl_lang = lang, dl_source = source,
               dl_detected_at = (if source = Auto then detected_at else None)\<rparr>) s)))"

definition is_outbound_enabled :: "int \<Rightarrow> lang_store \<Rightarrow> bool" where
  "is_outbound_enabled dialog_id s \<longleftrightarrow> kv_get (outbound_enabled_key dialog_id) s \<noteq> Some (VBool False)"

definition set_outbound_enabled :: "int \<Rightarrow> bool \<Rightarrow> lang_store \<Rightarrow> lang_store" where
  "set_outbound_enabled dialog_id enabled s =
     (if enabled then kv_del (outbound_enabled_key dialog_id) s
      else kv_put (outbound_enabled_key dialog_id) (VBool False) s)"

section \<open>Locks\<close>

text \<open>Each lock with whether it is held, oldest first; the eviction loop of \<open>_dialog_lang_lock\<close>.\<close>

function evict_lang_locks :: "nat \<Rightarrow> nat \<Rightarrow> (int, bool) odict \<Rightarrow> (int, bool) odict" where
  "evict_lang_locks cap checked locks =
     (case locks of
        [] \<Rightarrow> locks
      | (old_id, locked) # rest \<Rightarrow>
          if cap < length locks \<and> checked < length locks
          then (if locked then evict_lang_locks cap (Suc checked) (rest @ [(old_id, locked)])
                else evict_lang_locks cap 0 rest)
          else locks)"
  by pat_completeness auto
termination
  by (relation "measures [\<lambda>(cap, checked, locks). length locks, \<lambda>(cap, checked, locks). length locks - checked]") auto

declare evict_lang_locks.simps [simp del]

definition dialog_lang_lock :: "int \<Rightarrow> (int, bool) odict \<Rightarrow> (int, bool) odict" where
  "dialog_lang_lock dialog_id locks =
     (let locks1 = (case od_get locks dialog_id of None \<Rightarrow> od_set dialog_id False locks | Some _ \<Rightarrow> locks)
      in evict_lang_locks dialog_lang_locks_max 0 (od_move_to_end dialog_id locks1))"

section \<open>Detection\<close>

type_synonym lang_detector = "(utext list \<Rightarrow> string option option) option"

text \<open>
  What a call meets: the clock at the first look, under the lock and when a language is stored,
  what the other tasks do to the storage while it waits for the lock, and the injected functions.
\<close>

record lang_world =
  lw_validate :: "kv_value \<Rightarrow> dialog_lang option"
  lw_detect :: lang_detector
  lw_env :: environ
  lw_now :: instant
  lw_locked_now :: instant
  lw_stored_now :: instant
  lw_others :: "lang_store \<Rightarrow> lang_store"

definition fresh_stored_dialog_lang :: "instant \<Rightarrow> dialog_lang \<Rightarrow> string option" where
  "fresh_stored_dialog_lang now stored =
     (if dl_source stored = Manual then Some (dl_lang stored)
      else (case dl_detected_at stored of
              Some t \<Rightarrow> if now - t < auto_dialog_lang_ttl_seconds then Some (dl_lang stored) else None
            | None \<Rightarrow> None))"

text \<open>What to store for the language \<open>raw\<close> a source named.\<close>

definition store_detected :: "instant \<Rightarrow> int \<Rightarrow> string \<Rightarrow> lang_store \<Rightarrow> string option option \<times> lang_store" where
  "store_detected now dialog_id lang s = (Some (Some lang), snd (set_dialog_lang dialog_id (Some lang) Auto (Some now) s))"

definition incoming_texts :: "message list \<Rightarrow> utext list" where
  "incoming_texts hist = map (\<lambda>m. ustrip (body_of m)) (filter (\<lambda>m. \<not> ms_out m \<and> has_body m) hist)"

definition detect_and_store :: "lang_world \<Rightarrow> int \<Rightarrow> string option \<Rightarrow> message list option \<Rightarrow> lang_store
    \<Rightarrow> string option option \<times> lang_store" where
  "detect_and_store w dialog_id telegram_lang_code hist s =
     (case clean_supported_lang_code telegram_lang_code of
        Some lang \<Rightarrow> store_detected (lw_stored_now w) dialog_id lang s
      | None \<Rightarrow> (case hist of
          None \<Rightarrow> (None, s)
        | Some messages \<Rightarrow>
            (let incoming = incoming_texts messages; script = dominant_script_lang incoming; by_script = script_lang_to_supported script
             in if incoming = [] then (Some None, s)
                else (let asked = (if script = Some ''han'' \<or> by_script = None
                                   then (case lw_detect w of None \<Rightarrow> Some by_script | Some f \<Rightarrow> f (take 10 incoming))
                                   else Some by_script)
                      in (case asked of
                            None \<Rightarrow> (Some None, s)
                          | Some lang \<Rightarrow> (case clean_supported_lang_code lang of
                                None \<Rightarrow> (Some None, s)
                              | Some l \<Rightarrow> store_detected (lw_stored_now w) dialog_id l s))))))"

text \<open>None is an exception: a stored value that does not validate or a history that fails.\<close>

definition find_dialog_lang :: "lang_world \<Rightarrow> int \<Rightarrow> string option \<Rightarrow> message list option \<Rightarrow> lang_store
    \<Rightarrow> string option option \<times> lang_store" where
  "find_dialog_lang w dialog_id telegram_lang_code hist s =
     (case get_dialog_lang (lw_validate w) dialog_id s of
        None \<Rightarrow> (None, s)
      | Some stored \<Rightarrow>
          (case Option.bind stored (fresh_stored_dialog_lang (lw_now w)) of
             Some l \<Rightarrow> (Some (Some l), s)
           | None \<Rightarrow>
               (let s1 = lw_others w s
                in case get_dialog_lang (lw_validate w) dialog_id s1 of
                     None \<Rightarrow> (None, s1)
                   | Some stored \<Rightarrow>
                       (case Option.bind stored (fresh_stored_dialog_lang (lw_locked_now w)) of
                          Some l \<Rightarrow> (Some (Some l), s1)
                        | None \<Rightarrow> detect_and_store w dialog_id telegram_lang_code hist s1))))"

section \<open>The decision\<close>

definition detect_draft_lang :: "lang_detector \<Rightarrow> utext \<Rightarrow> string option" where
  "detect_draft_lang detect draft =
     (case detect of
        None \<Rightarrow> None
      | Some f \<Rightarrow> (case f [draft] of None \<Rightarrow> None | Some lang \<Rightarrow> clean_supported_lang_code lang))"

text \<open>A draft in a shared script: refused when detected as anything but the user's language.\<close>

definition by_draft_lang :: "lang_detector \<Rightarrow> string \<Rightarrow> string \<Rightarrow> utext \<Rightarrow> string option" where
  "by_draft_lang detect user_lang dlang draft =
     (let draft_lang = detect_draft_lang detect draft
      in if draft_lang = Some dlang then None
         else if draft_lang \<noteq> None \<and> draft_lang \<noteq> Some user_lang then None
         else Some dlang)"

definition by_draft_script :: "lang_detector \<Rightarrow> string \<Rightarrow> string \<Rightarrow> utext \<Rightarrow> string option" where
  "by_draft_script detect user_lang dlang draft =
     (case dominant_script_lang [draft] of
        None \<Rightarrow> None
      | Some script \<Rightarrow>
          if script = ''ru'' then (if user_lang \<notin> set cyrillic_script_langs then None else by_draft_lang detect user_lang dlang draft)
          else if script = ''han'' then (if user_lang \<notin> set han_script_langs then None else by_draft_lang detect user_lang dlang draft)
          else if script \<noteq> ''latin'' then (if script \<noteq> user_lang then None else if script = dlang then None else Some dlang)
          else if user_lang \<in> set non_latin_script_langs then None
          else by_draft_lang detect user_lang dlang draft)"

definition outbound_applies :: "lang_world \<Rightarrow> int \<Rightarrow> utext \<Rightarrow> string option \<Rightarrow> message list option \<Rightarrow> lang_store
    \<Rightarrow> string option \<times> lang_store" where
  "outbound_applies w dialog_id draft telegram_lang_code hist s =
     (if \<not> is_outbound_enabled dialog_id s then (None, s)
      else (case clean_supported_lang_code (get_user_lang (lw_env w) s) of
              None \<Rightarrow> (None, s)
            | Some user_lang \<Rightarrow>
                (case find_dialog_lang w dialog_id telegram_lang_code hist s of
                   (Some (Some dlang), s') \<Rightarrow>
                     (if dlang = user_lang then None else by_draft_script (lw_detect w) user_lang dlang draft, s')
                 | (_, s') \<Rightarrow> (None, s'))))"

section \<open>Variants\<close>

type_synonym variants_fn = "utext \<Rightarrow> string \<Rightarrow> style_profile option \<Rightarrow> context_message list \<Rightarrow> utext option list option"

definition variants_from_history :: "variants_fn \<Rightarrow> int \<Rightarrow> utext \<Rightarrow> string \<Rightarrow> message list \<Rightarrow> suggest_store \<Rightarrow> utext list option" where
  "variants_from_history variants dialog_id draft target hist st =
     (case variants draft target (load_style_profile dialog_id st) (context_of hist) of
        None \<Rightarrow> None
      | Some vs \<Rightarrow> (let result = take 3 (map ustrip (filter (\<lambda>v. ustrip v \<noteq> []) (map (\<lambda>v. or_default v []) vs)))
                   in if result = [] then None else Some result))"

definition prepare_variants :: "lang_world \<Rightarrow> variants_fn \<Rightarrow> int \<Rightarrow> utext \<Rightarrow> string option \<Rightarrow> message list option \<Rightarrow> suggest_store
    \<Rightarrow> (string option \<times> utext list) option \<times> suggest_store" where
  "prepare_variants w variants dialog_id draft telegram_lang_code hist st =
     (case hist of
        None \<Rightarrow> (None, st)
      | Some messages \<Rightarrow>
          (case outbound_applies w dialog_id draft telegram_lang_code hist (sg_kv st) of
             (None, kv) \<Rightarrow> (Some (None, []), st\<lparr>sg_kv := kv\<rparr>)
           | (Some target, kv) \<Rightarrow>
               (let st' = st\<lparr>sg_kv := kv\<rparr>
                in (map_option (\<lambda>vs. (Some target, vs)) (variants_from_history variants dialog_id draft target messages st'), st'))))"

text \<open>\<open>variants\<close>: the history is read and the target is given.\<close>

definition outbound_variants :: "variants_fn \<Rightarrow> int \<Rightarrow> utext \<Rightarrow> string \<Rightarrow> message list option \<Rightarrow> suggest_store \<Rightarrow> utext list option" where
  "outbound_variants variants dialog_id draft target hist st =
     (case hist of None \<Rightarrow> None | Some messages \<Rightarrow> variants_from_history variants dialog_id draft target messages st)"

section \<open>Held locks\<close>

lemma evict_lang_locks_held:
  "od_wf locks \<Longrightarrow> od_get locks k = Some True \<Longrightarrow> od_get (evict_lang_locks cap checked locks) k = Some True"
proof (induction cap checked locks rule: evict_lang_locks.induct)
  case (1 cap checked locks)
  show ?case
  proof (cases locks)
    case (Cons p rest)
    obtain a b where p: "p = (a, b)" by (cases p)
    have a: "a \<notin> set (od_keys rest)" and r: "od_wf rest" using 1(3) by (auto simp: Cons p od_wf_def)
    show ?thesis
    proof (cases "cap < length locks \<and> checked < length locks")
      case False
      then show ?thesis using 1(4) by (subst evict_lang_locks.simps) (auto simp: Cons p)
    next
      case True
      show ?thesis
      proof (cases b)
        case held: True
        have "od_get (rest @ [(a, b)]) k = Some True"
          using 1(4) a held by (auto simp: Cons p map_add_def od_mem split: option.splits if_splits)
        moreover have "od_wf (rest @ [(a, b)])" using a r by (simp add: od_wf_def)
        ultimately show ?thesis using 1(1) [OF Cons p [symmetric] True held] True held
          by (subst evict_lang_locks.simps) (simp add: Cons p)
      next
        case idle: False
        then have "od_get rest k = Some True" using 1(4) by (auto simp: Cons p split: if_splits)
        then show ?thesis using 1(2) [OF Cons p [symmetric] True idle] r True idle
          by (subst evict_lang_locks.simps) (simp add: Cons p)
      qed
    qed
  qed (use 1(4) in simp)
qed

lemma evict_lang_locks_bound:
  "checked \<le> length locks \<and> list_all snd (drop (length locks - checked) locks) \<longrightarrow>
    length (evict_lang_locks cap checked locks) \<le> cap \<or> list_all snd (evict_lang_locks cap checked locks)"
proof (induction cap checked locks rule: evict_lang_locks.induct)
  case (1 cap checked locks)
  show ?case
  proof (cases locks)
    case (Cons p rest)
    obtain a b where p: "p = (a, b)" by (cases p)
    show ?thesis
    proof (cases "cap < length locks \<and> checked < length locks")
      case False
      then have e: "evict_lang_locks cap checked locks = locks" by (subst evict_lang_locks.simps) (auto simp: Cons p)
      show ?thesis using False unfolding e by auto
    next
      case True
      show ?thesis
      proof (cases b)
        case held: True
        have e: "evict_lang_locks cap checked locks = evict_lang_locks cap (Suc checked) (rest @ [(a, b)])"
          using True held by (subst evict_lang_locks.simps) (simp add: Cons p)
        have "drop (length locks - checked) locks = drop (length rest - checked) rest" using True by (simp add: Cons Suc_diff_le)
        moreover have "drop (Suc (length rest) - Suc checked) (rest @ [(a, b)]) = drop (length rest - checked) rest @ [(a, b)]" by simp
        ultimately show ?thesis using 1(1) [OF Cons p [symmetric] True held] held True unfolding e by (auto simp: Cons)
      next
        case idle: False
        have e: "evict_lang_locks cap checked locks = evict_lang_locks cap 0 rest"
          using True idle by (subst evict_lang_locks.simps) (simp add: Cons p)
        show ?thesis using 1(2) [OF Cons p [symmetric] True idle] unfolding e by simp
      qed
    qed
  qed (simp add: evict_lang_locks.simps)
qed

text \<open>
  The lock table is bounded and never drops a lock in use: looking up the lock of a
  dialog keeps every held lock, and leaves at most a thousand locks unless every lock left is held.
\<close>

theorem lang_locks_safe:
  assumes "od_wf locks" and "od_get locks k = Some True"
  shows "od_get (dialog_lang_lock d locks) k = Some True
    \<and> (length (dialog_lang_lock d locks) \<le> 1000 \<or> list_all snd (dialog_lang_lock d locks))"
proof -
  define l1 where "l1 = od_move_to_end d (case od_get locks d of None \<Rightarrow> od_set d False locks | Some _ \<Rightarrow> locks)"
  have "od_wf l1" using assms(1) by (auto simp: l1_def od_inv split: option.split)
  moreover have "od_get l1 k = Some True" using assms(2) by (auto simp: l1_def od_simps split: option.split)
  moreover have "dialog_lang_lock d locks = evict_lang_locks dialog_lang_locks_max 0 l1"
    by (simp add: dialog_lang_lock_def l1_def Let_def)
  ultimately show ?thesis
    using evict_lang_locks_held [of l1 k dialog_lang_locks_max 0] evict_lang_locks_bound [of 0 l1 dialog_lang_locks_max]
    by (simp add: dialog_lang_locks_max_def)
qed

theorem lang_locks_safe_witness: "od_get (dialog_lang_lock 5 [(3, True), (4, False)]) 3 = Some True"
  using lang_locks_safe [of "[(3, True), (4, False)]" 3 5] by (simp add: od_wf_def)

section \<open>What is decided\<close>

text \<open>The draft can be in the user's own language: its script is exactly that language's, or a
  shared script the language may be written in and no detector contradicts it.\<close>

definition reads_as :: "lang_detector \<Rightarrow> string \<Rightarrow> utext \<Rightarrow> bool" where
  "reads_as detect user_lang draft \<longleftrightarrow>
     (case dominant_script_lang [draft] of
        None \<Rightarrow> False
      | Some script \<Rightarrow>
          if script \<in> {''ru'', ''han'', ''latin''}
          then detect_draft_lang detect draft \<in> {None, Some user_lang}
            \<and> (if script = ''ru'' then user_lang \<in> set cyrillic_script_langs
               else if script = ''han'' then user_lang \<in> set han_script_langs
               else user_lang \<notin> set non_latin_script_langs)
          else script = user_lang)"

lemma by_draft_script_iff:
  assumes "dlang \<noteq> user_lang"
  shows "by_draft_script detect user_lang dlang draft = Some l \<longleftrightarrow> l = dlang \<and> reads_as detect user_lang draft"
  using assms by (auto simp: by_draft_script_def by_draft_lang_def reads_as_def Let_def split: option.splits)

lemma by_draft_script_target: "by_draft_script detect user_lang dlang draft = Some l \<Longrightarrow> l = dlang"
  by (auto simp: by_draft_script_def by_draft_lang_def Let_def split: option.splits if_splits)

lemma clean_idem: "clean_supported_lang_code c = Some l \<Longrightarrow> clean_supported_lang_code (Some l) = Some l"
  using clean_code_ok by (simp add: code_ok_def)

lemma get_user_lang_clean: "clean_supported_lang_code (get_user_lang env s) = get_user_lang env s"
proof (cases "get_user_lang env s")
  case (Some l)
  then have "\<exists>c. clean_supported_lang_code c = Some l" by (auto simp: get_user_lang_def split: option.splits if_splits)
  then show ?thesis using clean_idem Some by auto
qed (simp add: clean_supported_lang_code_def)

lemma applies_cases:
  "fst (outbound_applies w d draft tg hist s) =
     (if is_outbound_enabled d s
      then (case (get_user_lang (lw_env w) s, fst (find_dialog_lang w d tg hist s)) of
              (Some ul, Some (Some dl)) \<Rightarrow> if dl = ul then None else by_draft_script (lw_detect w) ul dl draft
            | _ \<Rightarrow> None)
      else None)"
proof (cases "is_outbound_enabled d s")
  case True
  obtain a s' where f: "find_dialog_lang w d tg hist s = (a, s')" by (cases "find_dialog_lang w d tg hist s")
  show ?thesis using True f get_user_lang_clean [of "lw_env w" s]
    by (auto simp: outbound_applies_def split: option.splits)
qed (simp add: outbound_applies_def)


lemma detect_and_store_stores:
  assumes "detect_and_store w d tg hist s = (Some (Some l), s1)"
  shows "clean_supported_lang_code (Some l) = Some l \<and> s1 = snd (set_dialog_lang d (Some l) Auto (Some (lw_stored_now w)) s)"
proof -
  have "\<exists>c. clean_supported_lang_code c = Some l \<and> store_detected (lw_stored_now w) d l s = (Some (Some l), s1)"
  proof (cases "clean_supported_lang_code tg")
    case (Some x)
    then show ?thesis using assms by (auto simp: detect_and_store_def store_detected_def)
  next
    case None
    then show ?thesis using assms
      by (auto simp: detect_and_store_def store_detected_def Let_def split: option.splits if_splits)
  qed
  then show ?thesis using clean_idem by (auto simp: store_detected_def)
qed

lemma set_dialog_lang_get:
  assumes "clean_supported_lang_code (Some l) = Some l" and "\<forall>x. validate (dump_dialog_lang x) = Some x"
  shows "get_dialog_lang validate d (snd (set_dialog_lang d (Some l) Auto (Some t) s))
    = Some (Some \<lparr>dl_lang = l, dl_source = Auto, dl_detected_at = Some t\<rparr>)"
  using assms by (simp add: set_dialog_lang_def validate_supported_lang_code_def get_dialog_lang_def)

text \<open>
  Two tasks that ask for the language of the same dialog at once detect it once: when the
  first has detected and stored it, the second, which saw nothing stored before it queued for the
  lock, takes the stored language within a day whatever its own history, language code or
  detector would say, and leaves the storage as the first left it.
\<close>

theorem dialog_lang_detected_once:
  assumes "\<forall>x. lw_validate w (dump_dialog_lang x) = Some x" and "get_dialog_lang (lw_validate w) d s = Some None"
    and "lw_others w = (\<lambda>s. s)" and "find_dialog_lang w d tg hist s = (Some (Some l), s1)"
    and "lw_validate w' = lw_validate w" and "lw_others w' = (\<lambda>_. s1)"
    and "lw_locked_now w' - lw_stored_now w < 86400"
  shows "find_dialog_lang w' d tg' hist' s = (Some (Some l), s1)"
proof -
  have "detect_and_store w d tg hist s = (Some (Some l), s1)"
    using assms(2,3,4) by (simp add: find_dialog_lang_def)
  then have "get_dialog_lang (lw_validate w) d s1 = Some (Some \<lparr>dl_lang = l, dl_source = Auto, dl_detected_at = Some (lw_stored_now w)\<rparr>)"
    using detect_and_store_stores [of w d tg hist s l s1] set_dialog_lang_get [OF _ assms(1)] by simp
  then show ?thesis using assms(2,5,6,7)
    by (simp add: find_dialog_lang_def fresh_stored_dialog_lang_def auto_dialog_lang_ttl_seconds_def)
qed

lemma variants_from_history_ok:
  assumes "variants_from_history variants d draft target ms s = Some vs"
  shows "vs \<noteq> [] \<and> length vs \<le> 3 \<and> list_all (\<lambda>v. v \<noteq> [] \<and> trimmed space_cp v) vs"
proof -
  obtain xs where vs: "vs = take 3 (map ustrip (filter (\<lambda>v. ustrip v \<noteq> []) xs))" "vs \<noteq> []"
    using assms by (auto simp: variants_from_history_def Let_def split: option.splits if_splits)
  then have "set vs \<subseteq> ustrip ` set (filter (\<lambda>v. ustrip v \<noteq> []) xs)" by (metis list.set_map set_take_subset)
  then show ?thesis using vs trimmed_strip by (auto simp: list_all_iff)
qed

text \<open>
  Prepared variants are always sendable: a result with a target has one to three variants,
  none blank and none with white space at an end, the picker is on for the dialog, and
  the target differs from the user's language.
\<close>

theorem prepared_variants_sendable:
  assumes "prepare_variants w variants d draft tg hist st = (Some (Some target, vs), st')"
  shows "vs \<noteq> [] \<and> length vs \<le> 3 \<and> list_all (\<lambda>v. v \<noteq> [] \<and> trimmed space_cp v) vs
    \<and> is_outbound_enabled d (sg_kv st) \<and> get_user_lang (lw_env w) (sg_kv st) \<noteq> Some target"
proof -
  obtain ms where ms: "hist = Some ms" using assms by (cases hist) (simp_all add: prepare_variants_def)
  obtain a kv where ap: "outbound_applies w d draft tg hist (sg_kv st) = (a, kv)" by (metis prod.exhaust)
  have a: "a = Some target" and v: "\<exists>s. variants_from_history variants d draft target ms s = Some vs"
    using assms ms ap by (auto simp: prepare_variants_def Let_def split: option.splits)
  have "fst (outbound_applies w d draft tg hist (sg_kv st)) = Some target" using ap a by simp
  then obtain ul dl where "is_outbound_enabled d (sg_kv st)" "get_user_lang (lw_env w) (sg_kv st) = Some ul" "dl \<noteq> ul"
    "by_draft_script (lw_detect w) ul dl draft = Some target"
    unfolding applies_cases by (auto split: if_splits option.splits)
  then have "is_outbound_enabled d (sg_kv st) \<and> get_user_lang (lw_env w) (sg_kv st) \<noteq> Some target"
    using by_draft_script_target by fastforce
  moreover have "vs \<noteq> [] \<and> length vs \<le> 3 \<and> list_all (\<lambda>v. v \<noteq> [] \<and> trimmed space_cp v) vs"
    using v variants_from_history_ok by blast
  ultimately show ?thesis by blast
qed

section \<open>Witnesses\<close>

fun toy_validate :: "kv_value \<Rightarrow> dialog_lang option" where
  "toy_validate (VDict [(_, VStr l), (_, VStr src)]) =
     Some \<lparr>dl_lang = l, dl_source = (if src = ''manual'' then Manual else Auto), dl_detected_at = None\<rparr>"
| "toy_validate (VDict [(_, VStr l), (_, VStr src), (_, VReal t)]) =
     Some \<lparr>dl_lang = l, dl_source = (if src = ''manual'' then Manual else Auto), dl_detected_at = Some t\<rparr>"
| "toy_validate _ = None"

lemma toy_validate_dump: "toy_validate (dump_dialog_lang x) = Some x"
  by (cases x) (auto simp: dump_dialog_lang_def split: option.split lang_source.split)

definition toy_world :: "(lang_store \<Rightarrow> lang_store) \<Rightarrow> lang_world" where
  "toy_world others = \<lparr>lw_validate = toy_validate, lw_detect = None, lw_env = (\<lambda>k. if k = ''TG_USER_LANG'' then Some ''ru'' else None),
     lw_now = 0, lw_locked_now = 0, lw_stored_now = 0, lw_others = others\<rparr>"

theorem dialog_lang_detected_once_witness:
  "\<exists>s1. find_dialog_lang (toy_world (\<lambda>s. s)) 1 (Some ''en'') None toy_kv = (Some (Some ''en''), s1)
     \<and> find_dialog_lang (toy_world (\<lambda>_. s1)) 1 (Some ''ru'') None toy_kv = (Some (Some ''en''), s1)"
proof -
  have n: "get_dialog_lang toy_validate 1 toy_kv = Some None" by (simp add: get_dialog_lang_def)
  obtain s1 where r: "find_dialog_lang (toy_world (\<lambda>s. s)) 1 (Some ''en'') None toy_kv = (Some (Some ''en''), s1)"
    using n by (simp add: find_dialog_lang_def detect_and_store_def store_detected_def clean_en toy_world_def)
  show ?thesis
    using r dialog_lang_detected_once [OF _ _ _ r, of "toy_world (\<lambda>_. s1)" "Some ''ru''" None] n
    by (simp add: toy_world_def toy_validate_dump)
qed

theorem prepared_variants_sendable_witness:
  "\<exists>st'. prepare_variants (toy_world (\<lambda>s. s)) (\<lambda>_ _ _ _. Some [Some [32, 104, 105], None]) 1 [1087] (Some ''en'') (Some [])
       \<lparr>sg_kv = toy_kv, sg_profiles = []\<rparr> = (Some (Some ''en'', [[104, 105]]), st')
    \<and> get_user_lang (lw_env (toy_world (\<lambda>s. s))) toy_kv \<noteq> Some ''en''"
proof -
  have n: "get_dialog_lang toy_validate 1 toy_kv = Some None" by (simp add: get_dialog_lang_def)
  have f: "fst (find_dialog_lang (toy_world (\<lambda>s. s)) 1 (Some ''en'') (Some []) toy_kv) = Some (Some ''en'')"
    using n by (simp add: find_dialog_lang_def detect_and_store_def store_detected_def clean_en toy_world_def)
  have ul: "get_user_lang (lw_env (toy_world (\<lambda>s. s))) toy_kv = Some ''ru''"
    by (simp add: get_user_lang_def toy_world_def clean_en)
  have "dominant_script_lang [[1087]] = Some ''ru''"
    by (simp add: dominant_script_lang_def tally_def tally_one_def char_lang_def between_def merge_han_def)
  then have "reads_as None ''ru'' [1087]" by (simp add: reads_as_def detect_draft_lang_def cyrillic_script_langs_def)
  then have "fst (outbound_applies (toy_world (\<lambda>s. s)) 1 [1087] (Some ''en'') (Some []) toy_kv) = Some ''en''"
    using f ul by_draft_script_iff [of "''en''" "''ru''" None "[1087]" "''en''"]
    by (simp add: applies_cases is_outbound_enabled_def) (simp add: toy_world_def)
  then obtain kv where a: "outbound_applies (toy_world (\<lambda>s. s)) 1 [1087] (Some ''en'') (Some []) toy_kv = (Some ''en'', kv)"
    by (cases "outbound_applies (toy_world (\<lambda>s. s)) 1 [1087] (Some ''en'') (Some []) toy_kv") simp
  have "\<exists>st'. prepare_variants (toy_world (\<lambda>s. s)) (\<lambda>_ _ _ _. Some [Some [32, 104, 105], None]) 1 [1087] (Some ''en'') (Some [])
       \<lparr>sg_kv = toy_kv, sg_profiles = []\<rparr> = (Some (Some ''en'', [[104, 105]]), st')"
    by (simp add: prepare_variants_def a variants_from_history_def or_default_def strip_by_def rstrip_by_def lstrip_by_def space_cp_def)
  then obtain st' where r: "prepare_variants (toy_world (\<lambda>s. s)) (\<lambda>_ _ _ _. Some [Some [32, 104, 105], None]) 1 [1087] (Some ''en'') (Some [])
       \<lparr>sg_kv = toy_kv, sg_profiles = []\<rparr> = (Some (Some ''en'', [[104, 105]]), st')" by blast
  show ?thesis using r prepared_variants_sendable [OF r] by auto
qed

end
