(* ===== verification/Web_Routes.thy ===== *)
theory Web_Routes
  imports Web_Render Outbound Send_Tokens
begin

text \<open>
  The routes of \<open>src/tg_messenger/web/app.py\<close> that change something: sending, reactions, uploads,
  read marks, drafts, outbound variants and the settings forms. Each returns its response, the
  calls it makes on the client or the file system in order, and the new state. What a call answers
  is an argument; form fields for numbers are Latin-1 strings.
\<close>

section \<open>State, calls and answers\<close>

record web_app =
  wa_sent :: "(int \<times> int) buckets"
  wa_reactions :: "(int \<times> int \<times> utext option) buckets"

datatype web_call =
    SendOriginal int utext "int option"
  | SendVariant int string utext "int option" utext
  | CallReaction int int utext
  | TempCreate
  | CallMedia int nat "utext option"
  | TempRemove
  | ScheduleRead int int
  | AskDraft int
  | PrepareVariants int utext utext

text \<open>What the client answers to a send: a flood wait, refused rights and any other exception reach the
  application's handlers; a variant token that is no longer good is answered in place.\<close>

datatype send_answer = SentMsg message | TokenRefused | FloodWaited utext | RightsRefused utext | SendRaised

definition failed_send :: "send_answer \<Rightarrow> response" where
  "failed_send a = (case a of
     TokenRefused \<Rightarrow> ErrorText (u ''Outbound selection expired. Pick a variant again.'') 409
   | FloodWaited t \<Rightarrow> ErrorText t 503
   | RightsRefused t \<Rightarrow> ErrorText t 403
   | _ \<Rightarrow> Unhandled)"

text \<open>\<open>s.strip().lstrip("-").isdigit()\<close> and \<open>s.strip().isdigit()\<close>.\<close>

definition all_digits :: "string \<Rightarrow> bool" where
  "all_digits s \<longleftrightarrow> s \<noteq> [] \<and> list_all is_digit_py s"

definition int_like :: "string \<Rightarrow> bool" where
  "int_like s = all_digits (lstrip_by (\<lambda>c. c = CHR ''-'') (strip s))"

definition read_only_message :: utext where
  "read_only_message = u ''This chat is read-only '' @ [8212] @ u '' you cannot send messages here.''"

definition readonly_error :: "bool \<Rightarrow> response option" where
  "readonly_error can_post = (if can_post then None else Some (ErrorText read_only_message 403))"

definition wants_json :: "request \<Rightarrow> bool" where
  "wants_json rq \<longleftrightarrow> sublist ''application/json'' (case rq_headers rq ''accept'' of None \<Rightarrow> [] | Some a \<Rightarrow> a)"

section \<open>Sending\<close>

record send_form =
  sf_dialog_id :: string
  sf_text :: utext
  sf_reply_to :: string
  sf_client_id :: utext
  sf_nonce :: string

definition after_send :: "request \<Rightarrow> utext \<Rightarrow> int \<Rightarrow> send_answer \<Rightarrow> web_app \<Rightarrow> response \<times> web_app" where
  "after_send rq client_id d answer app =
     (case answer of
        SentMsg m \<Rightarrow> (if wants_json rq then JsonId (ms_id m) else Fragment (message_div m False) 200,
          app\<lparr>wa_sent := remember_in client_id (remember_sent d (ms_id m)) (wa_sent app)\<rparr>)
      | _ \<Rightarrow> (failed_send answer, app))"

definition web_send :: "(int \<Rightarrow> bool) \<Rightarrow> send_answer \<Rightarrow> request \<Rightarrow> send_form \<Rightarrow> web_app \<Rightarrow> response \<times> web_call list \<times> web_app" where
  "web_send can_post answer rq f app =
     (case same_origin_error rq of
        Some e \<Rightarrow> (e, [], app)
      | None \<Rightarrow>
          if \<not> int_like (sf_dialog_id f) then (ErrorText (u ''Select a dialog first.'') 400, [], app)
          else if ustrip (sf_text f) = [] then (ErrorText (u ''Cannot send an empty message.'') 400, [], app)
          else (case parse_int (sf_dialog_id f) of
                  None \<Rightarrow> (Unhandled, [], app)
                | Some d \<Rightarrow>
                    (case (if int_like (sf_reply_to f) then map_option Some (parse_int (sf_reply_to f)) else Some None) of
                       None \<Rightarrow> (Unhandled, [], app)
                     | Some reply \<Rightarrow>
                         (case readonly_error (can_post d) of
                            Some e \<Rightarrow> (e, [], app)
                          | None \<Rightarrow>
                              (let call = (if strip (sf_nonce f) \<noteq> []
                                           then SendVariant d (sf_nonce f) (sf_text f) reply (bounded_client_id (sf_client_id f))
                                           else SendOriginal d (sf_text f) reply);
                                   (resp, app') = after_send rq (sf_client_id f) d answer app
                               in (resp, [call], app'))))))"

section \<open>Reactions and read marks\<close>

definition web_reaction :: "send_answer \<Rightarrow> request \<Rightarrow> int \<Rightarrow> string \<Rightarrow> utext \<Rightarrow> utext \<Rightarrow> web_app
    \<Rightarrow> response \<times> web_call list \<times> web_app" where
  "web_reaction answer rq d message_id emoticon client_id app =
     (case same_origin_error rq of
        Some e \<Rightarrow> (e, [], app)
      | None \<Rightarrow>
          if \<not> all_digits (strip message_id) then (ErrorText (u ''Message id must be a positive integer.'') 400, [], app)
          else if ustrip emoticon = [] then (ErrorText (u ''Reaction cannot be empty.'') 400, [], app)
          else (case parse_int message_id of
                  None \<Rightarrow> (Unhandled, [], app)
                | Some i \<Rightarrow>
                    (case answer of
                       SentMsg _ \<Rightarrow> (NoContent, [CallReaction d i (ustrip emoticon)],
                         app\<lparr>wa_reactions := remember_in client_id (remember_sent_reaction d i (Some (ustrip emoticon))) (wa_reactions app)\<rparr>)
                     | _ \<Rightarrow> (failed_send answer, [CallReaction d i (ustrip emoticon)], app))))"

definition web_mark_read :: "request \<Rightarrow> int \<Rightarrow> string \<Rightarrow> web_app \<Rightarrow> response \<times> web_call list \<times> web_app" where
  "web_mark_read rq d max_id app =
     (case same_origin_error rq of
        Some e \<Rightarrow> (e, [], app)
      | None \<Rightarrow>
          if \<not> all_digits (strip max_id) then (ErrorText (u ''max_id must be a positive integer.'') 400, [], app)
          else (case parse_int max_id of None \<Rightarrow> (Unhandled, [], app) | Some i \<Rightarrow> (NoContent, [ScheduleRead d i], app)))"

section \<open>Uploads\<close>

text \<open>The sizes of the chunks the browser sends; an empty one ends the file. The result is the size
  read and the bytes written, or None when the list runs out, which is a broken connection.\<close>

fun stream_upload :: "nat \<Rightarrow> nat \<Rightarrow> nat \<Rightarrow> nat list \<Rightarrow> (nat \<times> nat) option" where
  "stream_upload max_bytes n written [] = None"
| "stream_upload max_bytes n written (c # cs) =
     (if c = 0 then Some (n, written)
      else if max_bytes < n + c then Some (n + c, written)
      else stream_upload max_bytes (n + c) (written + c) cs)"

definition web_upload :: "bool \<Rightarrow> string option \<Rightarrow> send_answer \<Rightarrow> request \<Rightarrow> int \<Rightarrow> nat list \<Rightarrow> utext option \<Rightarrow> utext \<Rightarrow> web_app
    \<Rightarrow> response \<times> web_call list \<times> web_app" where
  "web_upload can_post env answer rq d chunks caption client_id app =
     (case same_origin_error rq of
        Some e \<Rightarrow> (e, [], app)
      | None \<Rightarrow> (case readonly_error can_post of
          Some e \<Rightarrow> (e, [], app)
        | None \<Rightarrow>
            (let max_mb = max_upload_mb env; max_bytes = nat (max_mb * 1024 * 1024)
             in case stream_upload max_bytes 0 0 chunks of
                  None \<Rightarrow> (Unhandled, [TempCreate, TempRemove], app)
                | Some (n, written) \<Rightarrow>
                    if max_bytes < n
                    then (ErrorText (u ''File too large (limit '' @ shown_int max_mb @ u '' MB).'') 413, [TempCreate, TempRemove], app)
                    else if n = 0 then (ErrorText (u ''Empty file.'') 400, [TempCreate, TempRemove], app)
                    else (let calls = [TempCreate, CallMedia d written caption, TempRemove]
                          in case answer of
                               SentMsg m \<Rightarrow> (Fragment (message_div m False) 200, calls,
                                 app\<lparr>wa_sent := remember_in client_id (remember_sent d (ms_id m)) (wa_sent app)\<rparr>)
                             | _ \<Rightarrow> (failed_send answer, calls, app)))))"

section \<open>Drafts and variants\<close>

text \<open>\<open>dm_ids\<close> are the dialogs of the direct messages (None: the lookup raised), \<open>draft\<close> the
  suggester's answer when one is wired (the inner None: it raised).\<close>

definition web_suggest :: "int list option \<Rightarrow> utext option option \<Rightarrow> request \<Rightarrow> int \<Rightarrow> web_app \<Rightarrow> response \<times> web_call list \<times> web_app" where
  "web_suggest dm_ids draft rq d app =
     (case same_origin_error rq of
        Some e \<Rightarrow> (e, [], app)
      | None \<Rightarrow> (case draft of
          None \<Rightarrow> (ErrorText (u ''Suggest is not configured '' @ [8212] @ u '' needs the [agent] extra and TG_AGENT_MODEL.'') 503, [], app)
        | Some answer \<Rightarrow> (case dm_ids of
            None \<Rightarrow> (Unhandled, [], app)
          | Some ids \<Rightarrow>
              if d \<notin> set ids then (ErrorText (u ''Suggest is available for DM dialogs only.'') 403, [], app)
              else (case answer of None \<Rightarrow> (Unhandled, [AskDraft d], app) | Some t \<Rightarrow> (PlainText t, [AskDraft d], app)))))"

text \<open>The lookup of a dialog: None raised, \<open>Some False\<close> is no such dialog.\<close>

definition web_outbound :: "bool \<Rightarrow> bool option \<Rightarrow> prepare_result \<Rightarrow> request \<Rightarrow> int \<Rightarrow> utext \<Rightarrow> utext \<Rightarrow> web_app
    \<Rightarrow> response \<times> web_call list \<times> web_app" where
  "web_outbound wired lookup result rq d t client_id app =
     (case same_origin_json_error rq of
        Some e \<Rightarrow> (e, [], app)
      | None \<Rightarrow>
          if \<not> wired then (JsonStatus ''disabled'', [], app)
          else if ustrip t = [] then (JsonError ''Cannot translate an empty message.'' 400, [], app)
          else (case lookup of
                  None \<Rightarrow> (JsonError ''Dialogs are temporarily unavailable.'' 503, [], app)
                | Some False \<Rightarrow> (JsonError ''Dialog is not available.'' 403, [], app)
                | Some True \<Rightarrow>
                    (case pr_status result of
                       Ready \<Rightarrow> JsonReady (case pr_target_lang result of None \<Rightarrow> [] | Some l \<Rightarrow> l) (pr_variants result)
                                  (case pr_token result of None \<Rightarrow> [] | Some k \<Rightarrow> k)
                     | InvalidEmpty \<Rightarrow> JsonError ''Cannot translate an empty message.'' 400
                     | PrepError \<Rightarrow> JsonError ''Translation failed. Use Send original to send without translation.'' 200
                     | Disabled \<Rightarrow> JsonStatus ''disabled''
                     | NotApplicable \<Rightarrow> JsonStatus ''not_applicable'',
                     [PrepareVariants d t (bounded_client_id client_id)], app)))"

section \<open>Settings forms\<close>

text \<open>Where the storage raises while the language of a dialog is saved, and while it is restored.\<close>

datatype lang_fault = NoFault | ReadFault | LangFault | EnabledFault
datatype restore_fault = RestoreOk | RestoreLangFault | RestoreEnabledFault

definition restore_outbound_settings :: "restore_fault \<Rightarrow> int \<Rightarrow> dialog_lang option \<Rightarrow> bool \<Rightarrow> lang_store \<Rightarrow> lang_store" where
  "restore_outbound_settings fault d previous_lang previous_enabled s =
     (if fault = RestoreLangFault then s
      else (case (case previous_lang of
                    None \<Rightarrow> set_dialog_lang d None Auto None s
                  | Some p \<Rightarrow> set_dialog_lang d (Some (dl_lang p)) (dl_source p) (dl_detected_at p) s) of
              (Inl _, s1) \<Rightarrow> s1
            | (Inr _, s1) \<Rightarrow> if fault = RestoreEnabledFault then s1 else set_outbound_enabled d previous_enabled s1))"

text \<open>\<open>why\<close> is the text of the validator's error when the stored value does not load.\<close>

definition lang_saved :: response where
  "lang_saved = Fragment (u ''<div id=\"outbound-lang-status\">saved</div>'') 200"

lemma lang_saved_simps [simp]: "lang_saved \<noteq> ErrorText t n" "ErrorText t n \<noteq> lang_saved"
  by (simp_all add: lang_saved_def)

definition save_outbound_settings :: "utext \<Rightarrow> (kv_value \<Rightarrow> dialog_lang option) \<Rightarrow> lang_fault \<Rightarrow> restore_fault \<Rightarrow> int \<Rightarrow> string \<Rightarrow> string \<Rightarrow> lang_store
    \<Rightarrow> response \<times> lang_store" where
  "save_outbound_settings why validate fault restore d code enabled s =
     (case get_dialog_lang validate d s of
        None \<Rightarrow> (ErrorText why 400, s)
      | Some previous_lang \<Rightarrow>
          (let previous_enabled = is_outbound_enabled d s; failed = ErrorText (u ''Outbound settings could not be saved.'') 503;
               undo = restore_outbound_settings restore d previous_lang previous_enabled
           in if fault = ReadFault then (failed, s)
              else if fault = LangFault then (failed, undo s)
              else (case set_dialog_lang d (if strip code = [] then None else Some (strip code)) Manual None s of
                      (Inl _, s1) \<Rightarrow> (ErrorText (u ''invalid language code'') 400, s1)
                    | (Inr _, s1) \<Rightarrow>
                        if fault = EnabledFault then (failed, undo s1)
                        else (lang_saved, set_outbound_enabled d (enabled \<noteq> ''off'') s1))))"

definition web_outbound_lang :: "utext \<Rightarrow> bool \<Rightarrow> bool option \<Rightarrow> (kv_value \<Rightarrow> dialog_lang option) \<Rightarrow> lang_fault \<Rightarrow> restore_fault \<Rightarrow> request \<Rightarrow> int
    \<Rightarrow> string \<Rightarrow> string \<Rightarrow> lang_store \<Rightarrow> response \<times> lang_store" where
  "web_outbound_lang why wired lookup validate fault restore rq d code enabled s =
     (case same_origin_error rq of
        Some e \<Rightarrow> (e, s)
      | None \<Rightarrow>
          if \<not> wired then (ErrorText (u ''Outbound translation is not configured.'') 503, s)
          else (case lookup of
                  None \<Rightarrow> (ErrorText (u ''Dialogs are temporarily unavailable.'') 503, s)
                | Some False \<Rightarrow> (ErrorText (u ''Dialog is not available.'') 403, s)
                | Some True \<Rightarrow> save_outbound_settings why validate fault restore d code enabled s))"

definition web_lang_settings_update :: "bool \<Rightarrow> request \<Rightarrow> string \<Rightarrow> lang_store \<Rightarrow> response \<times> lang_store" where
  "web_lang_settings_update wired rq code s =
     (case same_origin_error rq of
        Some e \<Rightarrow> (e, s)
      | None \<Rightarrow>
          if \<not> wired then (ErrorText (u ''Translation is not configured.'') 503, s)
          else (let v = lower (strip code)
                in case set_user_lang (if v = [] then None else Some v) s of
                     (Inl _, s1) \<Rightarrow> (ErrorText (u ''invalid language code'') 400, s1)
                   | (Inr _, s1) \<Rightarrow> (Fragment (u ''<div id=\"lang-status\" lang=\"en\">Language: '' @ html_escape (u (if v = [] then ''unset'' else v)) @ u ''</div>'') 200, s1)))"

section \<open>The guard on every write\<close>

text \<open>One request to any of these routes, with what the client would answer to it.\<close>

datatype write_request =
    WSend "int \<Rightarrow> bool" send_answer send_form
  | WReaction send_answer int string utext utext
  | WRead int string
  | WUpload bool "string option" send_answer int "nat list" "utext option" utext
  | WSuggest "int list option" "utext option option" int
  | WOutbound bool "bool option" prepare_result int utext utext

fun web_write :: "request \<Rightarrow> write_request \<Rightarrow> web_app \<Rightarrow> response \<times> web_call list \<times> web_app" where
  "web_write rq (WSend can_post answer f) app = web_send can_post answer rq f app"
| "web_write rq (WReaction answer d i e c) app = web_reaction answer rq d i e c app"
| "web_write rq (WRead d i) app = web_mark_read rq d i app"
| "web_write rq (WUpload can_post env answer d chunks caption c) app = web_upload can_post env answer rq d chunks caption c app"
| "web_write rq (WSuggest ids draft d) app = web_suggest ids draft rq d app"
| "web_write rq (WOutbound wired lookup result d t c) app = web_outbound wired lookup result rq d t c app"

text \<open>Whether a call posts to a dialog, and to which.\<close>

fun posts_to :: "web_call \<Rightarrow> int option" where
  "posts_to (SendOriginal d _ _) = Some d"
| "posts_to (SendVariant d _ _ _ _) = Some d"
| "posts_to (CallMedia d _ _) = Some d"
| "posts_to _ = None"

fun write_allows :: "write_request \<Rightarrow> int \<Rightarrow> bool" where
  "write_allows (WSend can_post _ _) d = can_post d"
| "write_allows (WUpload can_post _ _ _ _ _ _) d = can_post"
| "write_allows _ d = True"

lemma upload_calls:
  assumes "web_upload can_post env answer rq d chunks caption c app = (resp, calls, app')"
  shows "calls = [] \<or> calls = [TempCreate, TempRemove] \<or> (\<exists>n. calls = [TempCreate, CallMedia d n caption, TempRemove])"
  using assms by (auto simp: web_upload_def Let_def split: option.splits if_splits send_answer.splits prod.splits)

lemma send_calls:
  assumes "web_send can_post answer rq f app = (resp, calls, app')"
  shows "calls = [] \<or> (\<exists>d t r. can_post d \<and> (calls = [SendOriginal d t r] \<or> (\<exists>k w. calls = [SendVariant d k t r w])))"
  using assms by (auto simp: web_send_def readonly_error_def Let_def split: option.splits if_splits prod.splits)

lemma write_unguarded:
  "same_origin_error rq = Some e \<Longrightarrow> \<exists>r. web_write rq w app = (r, [], app)"
  by (cases w) (auto simp: web_send_def web_reaction_def web_mark_read_def web_upload_def web_suggest_def web_outbound_def
    same_origin_json_error_def same_origin_error_def split: option.splits if_splits)


definition plain_request :: request where
  "plain_request = \<lparr>rq_path = ''/send'', rq_headers = (\<lambda>h. if h = suggest_csrf_header then Some ''1'' else None),
     rq_cookies = (\<lambda>_. None), rq_scheme = ''http'', rq_netloc = ''localhost''\<rparr>"

lemma plain_request_ok [simp]: "same_origin_error plain_request = None" "\<not> wants_json plain_request"
  by (simp_all add: same_origin_iff plain_request_def suggest_csrf_header_def wants_json_def sublist_def)


section \<open>Uploads\<close>

lemma stream_upload_spec:
  "stream_upload max_bytes n n cs = Some (m, written) \<Longrightarrow> n \<le> max_bytes \<Longrightarrow> written \<le> max_bytes \<and> (m \<le> max_bytes \<longrightarrow> written = m)"
  by (induction cs arbitrary: n) (auto split: if_splits)

definition upload_ok :: "nat \<Rightarrow> web_call \<Rightarrow> bool" where
  "upload_ok max_bytes c = (case c of CallMedia _ n _ \<Rightarrow> 0 < n \<and> n \<le> max_bytes | _ \<Rightarrow> True)"

text \<open>
  An upload never leaves its temporary file behind and never sends too much: on every path, the
  broken connection included, the file that was created is removed last, and what is sent is
  not empty and within the configured limit, which is positive whatever the environment says.
\<close>

theorem upload_contained:
  assumes "web_upload can_post env answer rq d chunks caption c app = (resp, calls, app')" and "calls \<noteq> []"
  shows "hd calls = TempCreate \<and> last calls = TempRemove \<and> 0 < max_upload_mb env
    \<and> list_all (upload_ok (nat (max_upload_mb env * 1024 * 1024))) calls"
proof -
  define mb where "mb = nat (max_upload_mb env * 1024 * 1024)"
  have pos: "0 < max_upload_mb env" by (auto simp: max_upload_mb_def default_max_upload_mb_def split: option.split)
  from upload_calls [OF assms(1)] assms(2) show ?thesis
  proof (elim disjE exE)
    fix n
    assume calls: "calls = [TempCreate, CallMedia d n caption, TempRemove]"
    then have "\<exists>m. stream_upload mb 0 0 chunks = Some (m, n) \<and> m \<le> mb \<and> m \<noteq> 0"
      using assms(1) by (auto simp: web_upload_def mb_def Let_def split: option.splits if_splits send_answer.splits prod.splits)
    then have "0 < n \<and> n \<le> mb" using stream_upload_spec [of mb 0 chunks] by auto
    then show ?thesis using calls pos by (simp add: upload_ok_def mb_def)
  qed (use pos in \<open>simp_all add: upload_ok_def\<close>)
qed

theorem upload_contained_witness:
  "\<exists>calls app'. web_upload True None SendRaised plain_request 3 [5, 0] None [] \<lparr>wa_sent = [], wa_reactions = []\<rparr> = (Unhandled, calls, app')
    \<and> last calls = TempRemove"
proof -
  have r: "web_upload True None SendRaised plain_request 3 [5, 0] None [] \<lparr>wa_sent = [], wa_reactions = []\<rparr>
      = (Unhandled, [TempCreate, CallMedia 3 5 None, TempRemove], \<lparr>wa_sent = [], wa_reactions = []\<rparr>)"
    by (simp add: web_upload_def readonly_error_def max_upload_mb_def default_max_upload_mb_def failed_send_def)
  show ?thesis using r upload_contained [OF r] by simp
qed

section \<open>Identifiers that pass the check and crash\<close>

text \<open>
  The check of the dialog id is weaker than the conversion after it: an id of two minus signs and
  digits, or of superscript digits, is taken for a number, and the conversion raises, so a guarded
  request is answered as an internal error instead of the message that asks for a dialog.
\<close>

theorem send_id_crashes:
  assumes "same_origin_error rq = None" and "int_like (sf_dialog_id f)" and "parse_int (sf_dialog_id f) = None"
    and "ustrip (sf_text f) \<noteq> []"
  shows "web_send can_post answer rq f app = (Unhandled, [], app)"
  using assms by (simp add: web_send_def)

theorem send_id_crashes_witness:
  "web_send (\<lambda>_. True) SendRaised plain_request \<lparr>sf_dialog_id = ''--5'', sf_text = [104, 105], sf_reply_to = [], sf_client_id = [], sf_nonce = []\<rparr>
     \<lparr>wa_sent = [], wa_reactions = []\<rparr> = (Unhandled, [], \<lparr>wa_sent = [], wa_reactions = []\<rparr>)"
proof (rule send_id_crashes)
  have s: "strip ''--5'' = ''--5''" by (rule strip_by_none) (auto simp: is_space_def space_cp_def)
  show "int_like (sf_dialog_id \<lparr>sf_dialog_id = ''--5'', sf_text = [104, 105], sf_reply_to = [], sf_client_id = [], sf_nonce = []\<rparr>)"
    by (simp add: int_like_def s lstrip_by_def all_digits_def is_digit_py_def is_dec_def)
  show "parse_int (sf_dialog_id \<lparr>sf_dialog_id = ''--5'', sf_text = [104, 105], sf_reply_to = [], sf_client_id = [], sf_nonce = []\<rparr>) = None"
    by (simp add: parse_int_def s is_dec_def)
qed (simp_all add: strip_by_def rstrip_by_def lstrip_by_def space_cp_def)

section \<open>Saving the language of a dialog\<close>

definition normal_lang :: "dialog_lang option \<Rightarrow> bool" where
  "normal_lang p = (case p of None \<Rightarrow> True
     | Some p \<Rightarrow> clean_supported_lang_code (Some (dl_lang p)) = Some (dl_lang p) \<and> (dl_source p = Manual \<longrightarrow> dl_detected_at p = None))"

lemma lang_keys [simp]:
  "dialog_lang_key d \<noteq> outbound_enabled_key e" "outbound_enabled_key e \<noteq> dialog_lang_key d"
  by (simp_all add: dialog_lang_key_def outbound_enabled_key_def)

lemma enabled_simps [simp]:
  "is_outbound_enabled d (set_outbound_enabled d b s) = b"
  "is_outbound_enabled d (kv_put (dialog_lang_key e) v s) = is_outbound_enabled d s"
  "is_outbound_enabled d (kv_del (dialog_lang_key e) s) = is_outbound_enabled d s"
  "get_dialog_lang validate e (set_outbound_enabled d b s) = get_dialog_lang validate e s"
  by (simp_all add: is_outbound_enabled_def set_outbound_enabled_def get_dialog_lang_def)

lemma restore_spec:
  assumes "\<forall>x. validate (dump_dialog_lang x) = Some x" and "normal_lang p"
  shows "get_dialog_lang validate d (restore_outbound_settings RestoreOk d p b s) = Some p
    \<and> is_outbound_enabled d (restore_outbound_settings RestoreOk d p b s) = b"
proof (cases p)
  case None
  then show ?thesis by (simp add: restore_outbound_settings_def set_dialog_lang_def) (simp add: get_dialog_lang_def)
next
  case (Some x)
  have n: "(if dl_source x = Auto then dl_detected_at x else None) = dl_detected_at x"
    using assms(2) Some by (cases "dl_source x") (simp_all add: normal_lang_def)
  have c: "clean_supported_lang_code (Some (dl_lang x)) = Some (dl_lang x)" using assms(2) Some by (simp add: normal_lang_def)
  show ?thesis using assms(1) Some
    by (simp add: restore_outbound_settings_def set_dialog_lang_def validate_supported_lang_code_def c n)
      (simp add: get_dialog_lang_def)
qed

text \<open>
  Saving the language form is all or nothing: it either answers with success, and both the
  language and the switch are the new ones, or with an error, and both read as before, wherever the
  storage failed, provided the restoring writes go through and the old value is one the
  program stores.
\<close>

theorem lang_form_all_or_nothing:
  assumes "\<forall>x. validate (dump_dialog_lang x) = Some x" and "get_dialog_lang validate d s = Some prev" and "normal_lang prev"
    and "save_outbound_settings why validate fault RestoreOk d code enabled s = (resp, s')"
  shows "(resp = lang_saved \<and> is_outbound_enabled d s' = (enabled \<noteq> ''off'')
       \<and> get_dialog_lang validate d s' = Some (map_option (\<lambda>l. \<lparr>dl_lang = l, dl_source = Manual, dl_detected_at = None\<rparr>)
           (if strip code = [] then None else clean_supported_lang_code (Some (strip code)))))
    \<or> (resp \<noteq> lang_saved \<and> get_dialog_lang validate d s' = Some prev \<and> is_outbound_enabled d s' = is_outbound_enabled d s)"
proof (cases "fault = ReadFault \<or> fault = LangFault")
  case True
  then show ?thesis using assms(2,4) restore_spec [OF assms(1,3)] by (auto simp: save_outbound_settings_def Let_def)
next
  case False
  let ?c = "if strip code = [] then None else Some (strip code)"
  obtain r s1 where st: "set_dialog_lang d ?c Manual None s = (r, s1)" by (cases "set_dialog_lang d ?c Manual None s")
  have save: "save_outbound_settings why validate fault RestoreOk d code enabled s =
      (case r of Inl _ \<Rightarrow> (ErrorText (u ''invalid language code'') 400, s1)
       | Inr _ \<Rightarrow> if fault = EnabledFault
           then (ErrorText (u ''Outbound settings could not be saved.'') 503, restore_outbound_settings RestoreOk d prev (is_outbound_enabled d s) s1)
           else (lang_saved, set_outbound_enabled d (enabled \<noteq> ''off'') s1))"
    using False assms(2) st by (auto simp: save_outbound_settings_def Let_def split: sum.split)
  show ?thesis
  proof (cases r)
    case (Inl e)
    then have "s1 = s" using st by (auto simp: set_dialog_lang_def split: option.splits sum.splits if_splits)
    then show ?thesis using save Inl assms(2,4) by auto
  next
    case (Inr x)
    have g: "get_dialog_lang validate d s1 = Some (map_option (\<lambda>l. \<lparr>dl_lang = l, dl_source = Manual, dl_detected_at = None\<rparr>)
        (if strip code = [] then None else clean_supported_lang_code (Some (strip code))))"
      using st Inr assms(1) by (auto simp: set_dialog_lang_def validate_supported_lang_code_def get_dialog_lang_def split: option.splits if_splits)
    show ?thesis using save Inr assms(4) restore_spec [OF assms(1,3), of d "is_outbound_enabled d s" s1] g
      by (auto split: if_splits)
  qed
qed

theorem lang_form_all_or_nothing_witness:
  "\<exists>resp s'. save_outbound_settings [] toy_validate EnabledFault RestoreOk 1 ''en'' ''off'' toy_kv = (resp, s')
    \<and> get_dialog_lang toy_validate 1 s' = Some None \<and> is_outbound_enabled 1 s'"
proof -
  have n: "get_dialog_lang toy_validate 1 toy_kv = Some None" "is_outbound_enabled 1 toy_kv"
    by (simp_all add: get_dialog_lang_def is_outbound_enabled_def)
  have e: "strip ''en'' = ''en''" by (rule strip_by_none) (auto simp: is_space_def space_cp_def)
  obtain s' where r: "save_outbound_settings [] toy_validate EnabledFault RestoreOk 1 ''en'' ''off'' toy_kv
      = (ErrorText (u ''Outbound settings could not be saved.'') 503, s')"
    using n by (simp add: save_outbound_settings_def e set_dialog_lang_def validate_supported_lang_code_def clean_en)
  show ?thesis using r lang_form_all_or_nothing [OF _ n(1) _ r] n by (auto simp: toy_validate_dump normal_lang_def)
qed

end
