(* ===== verification/Agent_Config.thy ===== *)
theory Agent_Config
  imports Interop
begin

text \<open>
  The agent's settings, \<open>src/tg_messenger/agent/config.py\<close>: the custom intents of the JSON file and
  \<open>AgentConfig.from_env\<close>. The environment is a lookup, what reading and parsing a file gives is an
  argument; each user-facing ValueError is a constructor of the error type. The tracing
  switches are included, the thread that flushes the traces is not.
\<close>

section \<open>Intents\<close>

datatype file_answer = NoFile | Unreadable | BadJson | ParsedJson json

datatype config_error =
    FileNotFound | CannotRead | InvalidJson | NoIntentList
  | NotAnObject | UnknownKeys | BadName | ReservedName | DuplicateName | BadDescription | BadPipeline | BadPrompt
  | NoModel | ModelFormat | NoAllowlist | StarCombined | BadInteger | UnknownSearch | VisionFormat | SuggestFormat
  | HistoryNotInteger | HistoryNotPositive | TracingWithoutKey

record intent_spec =
  it_name :: utext
  it_description :: utext
  it_pipeline :: utext
  it_system_prompt :: "utext option"

definition intent_pipelines :: "utext list" where
  "intent_pipelines = [u ''chat'', u ''task'']"

definition reserved_intent_names :: "utext list" where
  "reserved_intent_names = [u ''chat'', u ''task'', u ''classify'', u ''vision'', u ''route'']"

definition intent_keys :: "string list" where
  "intent_keys = [''name'', ''description'', ''pipeline'', ''system_prompt'']"

definition small_letter :: "nat \<Rightarrow> bool" where
  "small_letter c \<longleftrightarrow> 97 \<le> c \<and> c \<le> 122"

text \<open>\<open>^[a-z][a-z0-9_-]*$\<close> on the whole name.\<close>

definition intent_name_ok :: "utext \<Rightarrow> bool" where
  "intent_name_ok n \<longleftrightarrow> (case n of [] \<Rightarrow> False
     | c # cs \<Rightarrow> small_letter c \<and> list_all (\<lambda>c. small_letter c \<or> 48 \<le> c \<and> c \<le> 57 \<or> c = 95 \<or> c = 45) cs)"

fun json_text :: "json \<Rightarrow> utext option" where
  "json_text (JText t) = Some t"
| "json_text (JStr s) = Some (u s)"
| "json_text _ = None"

definition load_intent :: "utext list \<Rightarrow> json \<Rightarrow> (config_error, intent_spec) result" where
  "load_intent seen item =
     (case item of
        JObj kvs \<Rightarrow>
          if \<not> set (map fst kvs) \<subseteq> set intent_keys then Inl UnknownKeys
          else (case Option.bind (json_get ''name'' item) json_text of
                  None \<Rightarrow> Inl BadName
                | Some name \<Rightarrow>
                    if \<not> intent_name_ok name then Inl BadName
                    else if name \<in> set reserved_intent_names then Inl ReservedName
                    else if name \<in> set seen then Inl DuplicateName
                    else (case Option.bind (json_get ''description'' item) json_text of
                            None \<Rightarrow> Inl BadDescription
                          | Some description \<Rightarrow>
                              if ustrip description = [] then Inl BadDescription
                              else (case Option.bind (json_get ''pipeline'' item) json_text of
                                      None \<Rightarrow> Inl BadPipeline
                                    | Some pipeline \<Rightarrow>
                                        if pipeline \<notin> set intent_pipelines then Inl BadPipeline
                                        else (case json_get ''system_prompt'' item of
                                                None \<Rightarrow> Inr \<lparr>it_name = name, it_description = ustrip description,
                                                  it_pipeline = pipeline, it_system_prompt = None\<rparr>
                                              | Some p \<Rightarrow>
                                                  if p = JNull then Inr \<lparr>it_name = name, it_description = ustrip description,
                                                    it_pipeline = pipeline, it_system_prompt = None\<rparr>
                                                  else (case json_text p of
                                                          None \<Rightarrow> Inl BadPrompt
                                                        | Some t \<Rightarrow> Inr \<lparr>it_name = name, it_description = ustrip description,
                                                            it_pipeline = pipeline, it_system_prompt = Some t\<rparr>)))))
      | _ \<Rightarrow> Inl NotAnObject)"

fun load_items :: "utext list \<Rightarrow> json list \<Rightarrow> (config_error, intent_spec list) result" where
  "load_items seen [] = Inr []"
| "load_items seen (item # items) =
     (case load_intent seen item of
        Inl e \<Rightarrow> Inl e
      | Inr spec \<Rightarrow> (case load_items (it_name spec # seen) items of Inl e \<Rightarrow> Inl e | Inr specs \<Rightarrow> Inr (spec # specs)))"

definition load_intents :: "file_answer \<Rightarrow> (config_error, intent_spec list) result" where
  "load_intents f =
     (case f of
        NoFile \<Rightarrow> Inl FileNotFound
      | Unreadable \<Rightarrow> Inl CannotRead
      | BadJson \<Rightarrow> Inl InvalidJson
      | ParsedJson j \<Rightarrow> (case json_get ''intents'' j of Some (JList items) \<Rightarrow> load_items [] items | _ \<Rightarrow> Inl NoIntentList))"

section \<open>The environment\<close>

definition env_value :: "(string \<Rightarrow> string option) \<Rightarrow> string \<Rightarrow> string" where
  "env_value env k = strip (case env k of None \<Rightarrow> [] | Some v \<Rightarrow> v)"

definition langsmith_tracing_enabled :: "(string \<Rightarrow> string option) \<Rightarrow> (config_error, bool) result" where
  "langsmith_tracing_enabled env =
     (if lower (env_value env ''LANGSMITH_TRACING'') \<notin> {''1'', ''true'', ''yes''} then Inr False
      else if env_value env ''LANGSMITH_API_KEY'' = [] then Inl TracingWithoutKey else Inr True)"

definition flush_default_seconds :: real where "flush_default_seconds = 5"

text \<open>\<open>str_float\<close> reads a float; its None is a ValueError, its inner None an infinity or a NaN.\<close>

definition flush_timeout_seconds :: "(string \<Rightarrow> real option option) \<Rightarrow> (string \<Rightarrow> string option) \<Rightarrow> real" where
  "flush_timeout_seconds str_float env =
     (if env_value env ''TG_TRACE_FLUSH_TIMEOUT'' = [] then flush_default_seconds
      else (case str_float (env_value env ''TG_TRACE_FLUSH_TIMEOUT'') of
              Some (Some v) \<Rightarrow> if v \<le> 0 then flush_default_seconds else v
            | _ \<Rightarrow> flush_default_seconds))"

definition search_providers :: "string list" where
  "search_providers = [''duckduckgo'', ''tavily'', ''exa'', ''brave'']"

record agent_config =
  ac_model :: string
  ac_allow_all :: bool
  ac_allow_ids :: "int set"
  ac_allow_usernames :: "string set"
  ac_search_provider :: string
  ac_vision_model :: "string option"
  ac_suggest_model :: "string option"
  ac_intents :: "intent_spec list"
  ac_suggest_history_limit :: int
  ac_factory_url :: "string option"
  ac_factory_password :: "string option"

definition allow_entries :: "string \<Rightarrow> string list" where
  "allow_entries raw = filter (\<lambda>e. e \<noteq> []) (map strip (split_on (CHR '','') raw))"

text \<open>The loop over the entries; \<open>int\<close> may still refuse what \<open>isdigit\<close> let pass.\<close>

fun sort_entries :: "int set \<Rightarrow> string set \<Rightarrow> string list \<Rightarrow> (config_error, int set \<times> string set) result" where
  "sort_entries ids names [] = Inr (ids, names)"
| "sort_entries ids names (e # es) =
     (let digits = lstrip_by (\<lambda>c. c = CHR ''-'') e
      in if digits \<noteq> [] \<and> list_all is_digit_py digits
         then (case parse_int e of None \<Rightarrow> Inl BadInteger | Some i \<Rightarrow> sort_entries (insert i ids) names es)
         else sort_entries ids (insert (lower (lstrip_by (\<lambda>c. c = CHR ''@'') e)) names) es)"

definition optional_model :: "config_error \<Rightarrow> string \<Rightarrow> (config_error, string option) result" where
  "optional_model err v = (if v = [] then Inr None else if CHR '':'' \<notin> set v then Inl err else Inr (Some v))"

definition optional :: "string \<Rightarrow> string option" where
  "optional v = (if v = [] then None else Some v)"

text \<open>\<open>files\<close> answers for the named file and for \<open>agent.json\<close>; an absent default file is no error.\<close>

definition config_intents :: "(string \<Rightarrow> file_answer) \<Rightarrow> (string \<Rightarrow> string option) \<Rightarrow> (config_error, intent_spec list) result" where
  "config_intents files env =
     (let path = env_value env ''TG_AGENT_CONFIG''
      in if path \<noteq> [] then load_intents (files path)
         else if files ''agent.json'' = NoFile then Inr [] else load_intents (files ''agent.json''))"

definition agent_config_from_env :: "(string \<Rightarrow> file_answer) \<Rightarrow> (string \<Rightarrow> string option) \<Rightarrow> bool \<Rightarrow> (config_error, agent_config) result" where
  "agent_config_from_env files env require_allowlist =
     (let model = env_value env ''TG_AGENT_MODEL''; entries = allow_entries (env_value env ''TG_AGENT_ALLOWLIST'');
          search = lower (strip (case env ''TG_AGENT_SEARCH'' of None \<Rightarrow> ''duckduckgo'' | Some v \<Rightarrow> if v = [] then ''duckduckgo'' else v));
          raw_history = strip (case env ''TG_SUGGEST_HISTORY'' of None \<Rightarrow> ''30'' | Some v \<Rightarrow> if v = [] then ''30'' else v);
          allow_all = (entries = [''*''])
      in if model = [] then Inl NoModel
         else if CHR '':'' \<notin> set model then Inl ModelFormat
         else if entries = [] \<and> require_allowlist then Inl NoAllowlist
         else if ''*'' \<in> set entries \<and> 1 < length entries then Inl StarCombined
         else (case (if allow_all then Inr ({}, {}) else sort_entries {} {} entries) of
                 Inl e \<Rightarrow> Inl e
               | Inr (ids, names) \<Rightarrow>
                   if search \<notin> set search_providers then Inl UnknownSearch
                   else (case optional_model VisionFormat (env_value env ''TG_AGENT_VISION_MODEL'') of
                           Inl e \<Rightarrow> Inl e
                         | Inr vision \<Rightarrow> (case optional_model SuggestFormat (env_value env ''TG_SUGGEST_MODEL'') of
                             Inl e \<Rightarrow> Inl e
                           | Inr suggest \<Rightarrow> (case parse_int raw_history of
                               None \<Rightarrow> Inl HistoryNotInteger
                             | Some limit \<Rightarrow>
                                 if limit < 1 then Inl HistoryNotPositive
                                 else (case config_intents files env of
                                         Inl e \<Rightarrow> Inl e
                                       | Inr intents \<Rightarrow> Inr \<lparr>ac_model = model, ac_allow_all = allow_all, ac_allow_ids = ids,
                                           ac_allow_usernames = names, ac_search_provider = search, ac_vision_model = vision,
                                           ac_suggest_model = suggest, ac_intents = intents, ac_suggest_history_limit = limit,
                                           ac_factory_url = optional (env_value env ''TG_FACTORY_URL''),
                                           ac_factory_password = optional (env_value env ''TG_FACTORY_PASSWORD'')\<rparr>)))))) "

section \<open>Well-formed settings\<close>

definition intent_wf :: "intent_spec \<Rightarrow> bool" where
  "intent_wf i \<longleftrightarrow> intent_name_ok (it_name i) \<and> it_name i \<notin> set reserved_intent_names \<and> it_description i \<noteq> []
     \<and> it_pipeline i \<in> set intent_pipelines"

definition agent_config_wf :: "bool \<Rightarrow> agent_config \<Rightarrow> bool" where
  "agent_config_wf require_allowlist c \<longleftrightarrow>
     CHR '':'' \<in> set (ac_model c) \<and> (ac_allow_all c \<longrightarrow> ac_allow_ids c = {} \<and> ac_allow_usernames c = {})
     \<and> (require_allowlist \<longrightarrow> ac_allow_all c \<or> ac_allow_ids c \<noteq> {} \<or> ac_allow_usernames c \<noteq> {})
     \<and> ac_search_provider c \<in> set search_providers \<and> 1 \<le> ac_suggest_history_limit c
     \<and> (\<forall>m. ac_vision_model c = Some m \<longrightarrow> CHR '':'' \<in> set m) \<and> (\<forall>m. ac_suggest_model c = Some m \<longrightarrow> CHR '':'' \<in> set m)
     \<and> list_all intent_wf (ac_intents c) \<and> distinct (map it_name (ac_intents c))"

lemma load_intent_wf: "load_intent seen item = Inr s \<Longrightarrow> intent_wf s \<and> it_name s \<notin> set seen"
  by (auto simp: load_intent_def intent_wf_def split: json.splits if_splits option.splits)

lemma load_items_wf:
  "load_items seen items = Inr specs \<Longrightarrow> list_all intent_wf specs \<and> distinct (map it_name specs) \<and> it_name ` set specs \<inter> set seen = {}"
proof (induction seen items arbitrary: specs rule: load_items.induct)
  case (2 seen item items)
  obtain s ss where s: "load_intent seen item = Inr s" "load_items (it_name s # seen) items = Inr ss" "specs = s # ss"
    using "2.prems" by (auto split: sum.splits)
  then show ?case using "2.IH" [OF s(1,2)] load_intent_wf [OF s(1)] by auto
qed simp

lemma config_intents_wf: "config_intents files env = Inr specs \<Longrightarrow> list_all intent_wf specs \<and> distinct (map it_name specs)"
  using load_items_wf [of "[]"]
  by (auto simp: config_intents_def load_intents_def Let_def split: if_splits file_answer.splits option.splits json.splits)

lemma sort_entries_some:
  "sort_entries ids names es = Inr (ids', names') \<Longrightarrow> es \<noteq> [] \<or> ids \<noteq> {} \<or> names \<noteq> {} \<Longrightarrow> ids' \<noteq> {} \<or> names' \<noteq> {}"
  by (induction ids names es rule: sort_entries.induct) (auto simp: Let_def split: if_splits option.splits)

lemma optional_model_ok: "optional_model err v = Inr m \<Longrightarrow> m = Some x \<Longrightarrow> CHR '':'' \<in> set x"
  by (auto simp: optional_model_def split: if_splits)

text \<open>
  C24: Settings that load are well formed: a model in provider form, an allow list that is
  either everyone or, when one is required, some id or user name, a known search provider, a positive history,
  and intents with distinct names, none of them a node of the graph, that lead to a known
  pipeline.
\<close>

theorem config_well_formed:
  assumes "agent_config_from_env files env require_allowlist = Inr c"
  shows "agent_config_wf require_allowlist c"
proof -
  define entries where "entries = allow_entries (env_value env ''TG_AGENT_ALLOWLIST'')"
  obtain ids names vision suggest limit intents where
    model: "CHR '':'' \<in> set (env_value env ''TG_AGENT_MODEL'')" and need: "\<not> (entries = [] \<and> require_allowlist)"
    and sorted: "(if entries = [''*''] then Inr ({}, {}) else sort_entries {} {} entries) = Inr (ids, names)"
    and search: "ac_search_provider c \<in> set search_providers"
    and vision: "optional_model VisionFormat (env_value env ''TG_AGENT_VISION_MODEL'') = Inr vision"
    and suggest: "optional_model SuggestFormat (env_value env ''TG_SUGGEST_MODEL'') = Inr suggest"
    and limit: "\<not> limit < 1" and intents: "config_intents files env = Inr intents"
    and c: "ac_model c = env_value env ''TG_AGENT_MODEL''" "ac_allow_all c = (entries = [''*''])" "ac_allow_ids c = ids"
      "ac_allow_usernames c = names" "ac_vision_model c = vision" "ac_suggest_model c = suggest"
      "ac_intents c = intents" "ac_suggest_history_limit c = limit"
    using assms unfolding agent_config_from_env_def Let_def entries_def [symmetric]
    by (auto split: if_splits sum.splits prod.splits option.splits)
  have "entries = [''*''] \<longrightarrow> ids = {} \<and> names = {}" using sorted by (auto split: if_splits)
  moreover have "require_allowlist \<longrightarrow> entries = [''*''] \<or> ids \<noteq> {} \<or> names \<noteq> {}"
    using sorted need sort_entries_some [of "{}" "{}" entries ids names] by (auto split: if_splits)
  ultimately show ?thesis
    using model search optional_model_ok [OF vision] optional_model_ok [OF suggest] limit config_intents_wf [OF intents]
    by (simp add: agent_config_wf_def c)
qed

definition toy_env :: "string \<Rightarrow> string option" where
  "toy_env k = (if k = ''TG_AGENT_MODEL'' then Some ''a:b'' else if k = ''TG_AGENT_ALLOWLIST'' then Some ''*''
     else if k = ''TG_SUGGEST_HISTORY'' then Some (str_int 5) else None)"

lemma strip_digits: "strip (str_int i) = str_int i" "str_int i \<noteq> []"
proof -
  have "list_all is_dec (digits_nat n) \<and> digits_nat n \<noteq> []" for n by (rule digits_nat_dec)
  moreover have "\<not> is_space (CHR ''-'')" by (simp add: is_space_def space_cp_def)
  ultimately show "strip (str_int i) = str_int i" "str_int i \<noteq> []"
    by (auto intro!: strip_by_none simp: str_int_def list_all_iff is_dec_not_space)
qed

theorem config_well_formed_witness:
  "\<exists>c. agent_config_from_env (\<lambda>_. NoFile) toy_env True = Inr c \<and> agent_config_wf True c \<and> ac_allow_all c"
proof -
  have s: "strip ''a:b'' = ''a:b''" "strip ''*'' = ''*''" "strip ''duckduckgo'' = ''duckduckgo''"
    by (rule strip_by_none, auto simp: is_space_def space_cp_def)+
  have v: "env_value toy_env ''TG_AGENT_MODEL'' = ''a:b''" "env_value toy_env ''TG_AGENT_ALLOWLIST'' = ''*''"
    "env_value toy_env ''TG_AGENT_VISION_MODEL'' = []" "env_value toy_env ''TG_SUGGEST_MODEL'' = []" "env_value toy_env ''TG_AGENT_CONFIG'' = []"
    by (simp_all add: env_value_def toy_env_def s)
  have l: "lower ''duckduckgo'' = ''duckduckgo''" by (simp add: lower_def lower_char_def Let_def)
  have e: "allow_entries ''*'' = [''*'']" by (simp add: allow_entries_def split_on_def s)
  obtain c where r: "agent_config_from_env (\<lambda>_. NoFile) toy_env True = Inr c" and "ac_allow_all c"
    by (simp add: agent_config_from_env_def v e Let_def toy_env_def s l search_providers_def optional_model_def
        strip_digits parse_str_int config_intents_def)
  then show ?thesis using config_well_formed [OF r] by blast
qed

end
