(* ===== verification/Agent_Loop.thy ===== *)
theory Agent_Loop
  imports Agent_Config Models
begin

text \<open>
  The agent at work: \<open>AgentRunner\<close> (\<open>src/tg_messenger/agent/runner.py\<close>), the image download
  (\<open>agent/media.py\<close>) and the intent graph (\<open>agent/orchestrator.py\<close>). What the client, the models
  and the task agent answer are arguments (None: an exception). Of LangGraph the orchestrator relies
  on: a turn appends its input to the thread's messages, runs the one path of nodes the
  edges choose, appends what the last node returns, and after an exception keeps a prefix of that.
\<close>

section \<open>Images\<close>

definition max_image_bytes :: nat where "max_image_bytes = 10000000"

text \<open>The picture's bytes, which the code keeps as base64 text, and its type.\<close>

record image_input =
  im_data :: "nat list"
  im_mime :: string

datatype download_answer = DownloadRaised | NothingToDownload | Downloaded "nat list"

text \<open>Whether the client is asked, and the outcome: None raised, \<open>Some None\<close> is skipped.\<close>

definition download_image :: "download_answer \<Rightarrow> message \<Rightarrow> bool \<times> image_input option option" where
  "download_image answer m =
     (if (case ms_media m of None \<Rightarrow> False | Some r \<Rightarrow> (case mr_size r of None \<Rightarrow> False | Some n \<Rightarrow> int max_image_bytes < n))
      then (False, Some None)
      else (True, case answer of
              DownloadRaised \<Rightarrow> None
            | NothingToDownload \<Rightarrow> Some None
            | Downloaded bytes \<Rightarrow>
                if max_image_bytes < length bytes then Some None
                else Some (Some \<lparr>im_data = bytes, im_mime = or_default (Option.bind (ms_media m) mr_mime_type) ''image/jpeg''\<rparr>)))"

section \<open>The runner\<close>

datatype agent_call =
    Typing int
  | Download int int
  | Orchestrate int utext "image_input option"
  | SendReply int utext
  | SendNotice int

definition error_notice :: utext where
  "error_notice = u ''Sorry, something went wrong while processing your message.''"

text \<open>What one event meets: the download, the orchestrator's reply, and whether each send works.\<close>

record event_answers =
  ea_download :: download_answer
  ea_reply :: "utext option"
  ea_send :: bool
  ea_notice :: bool

definition resolve_allowed_ids :: "(string \<Rightarrow> string) \<Rightarrow> dialog list option \<Rightarrow> agent_config \<Rightarrow> int set option" where
  "resolve_allowed_ids lower_name dialogs c =
     (if ac_allow_usernames c = {} then Some (ac_allow_ids c)
      else (case dialogs of
              None \<Rightarrow> None
            | Some ds \<Rightarrow>
                (let by_username = map_of (rev (map (\<lambda>d. (lower_name (the (dg_username d)), dg_id d)) (filter (\<lambda>d. truthy (dg_username d)) ds)))
                 in Some (ac_allow_ids c \<union> {i. \<exists>n\<in>ac_allow_usernames c. by_username n = Some i}))))"

definition failed_calls :: "bool \<Rightarrow> int \<Rightarrow> agent_call list" where
  "failed_calls notify_errors d = (if notify_errors then [SendNotice d] else [])"

text \<open>The body of the try block: its calls, and whether it raised.\<close>

definition answer_event :: "event_answers \<Rightarrow> incoming_event \<Rightarrow> agent_call list \<times> bool" where
  "answer_event a ev =
     (let m = ie_message ev; d = ie_dialog_id ev; photo = (\<exists>r. ms_media m = Some r \<and> mr_kind r = Photo);
          ask = (\<lambda>t image. case ea_reply a of
            None \<Rightarrow> ([Orchestrate d t image], True)
          | Some reply \<Rightarrow> ([Orchestrate d t image, SendReply d reply], \<not> ea_send a))
      in if \<not> photo then (let (cs, failed) = ask (the (ms_text m)) None in (Typing d # cs, failed))
         else (let (asked, image) = download_image (ea_download a) m; dl = (if asked then [Download d (ms_id m)] else [])
               in case image of
                    None \<Rightarrow> (Typing d # dl, True)
                  | Some None \<Rightarrow> (Typing d # dl, False)
                  | Some (Some im) \<Rightarrow> (let (cs, failed) = ask (or_default (ms_text m) []) (Some im) in (Typing d # dl @ cs, failed))))"

definition handle_event :: "bool \<Rightarrow> int set option \<Rightarrow> event_answers \<Rightarrow> incoming_event \<Rightarrow> agent_call list" where
  "handle_event notify_errors allowed a ev =
     (let m = ie_message ev; kind = map_option mr_kind (ms_media m)
      in if ms_out m then []
         else if (case allowed of None \<Rightarrow> False | Some ids \<Rightarrow> ms_sender_id m \<notin> ids) then []
         else if kind = Some Voice then []
         else if kind \<noteq> Some Photo \<and> \<not> truthy (ms_text m) then []
         else (let (calls, failed) = answer_event a ev
               in calls @ (if failed then failed_calls notify_errors (ie_dialog_id ev) else [])))"

text \<open>\<open>run\<close> over the events of the subscription, each with what it meets; None: the start failed.\<close>

definition agent_run :: "(string \<Rightarrow> string) \<Rightarrow> bool \<Rightarrow> dialog list option \<Rightarrow> agent_config \<Rightarrow> (incoming_event \<times> event_answers) list
    \<Rightarrow> agent_call list list option" where
  "agent_run lower_name notify_errors dialogs c events =
     (case (if ac_allow_all c then Some None else map_option Some (resolve_allowed_ids lower_name dialogs c)) of
        None \<Rightarrow> None
      | Some allowed \<Rightarrow> Some (map (\<lambda>(ev, a). handle_event notify_errors allowed a ev) events))"

section \<open>Who is answered\<close>

fun call_dialog :: "agent_call \<Rightarrow> int" where
  "call_dialog (Typing d) = d" | "call_dialog (Download d i) = d" | "call_dialog (Orchestrate d t im) = d"
| "call_dialog (SendReply d t) = d" | "call_dialog (SendNotice d) = d"

fun is_send :: "agent_call \<Rightarrow> bool" where
  "is_send (SendReply d t) = True" | "is_send (SendNotice d) = True" | "is_send _ = False"

definition may_cost :: "agent_config \<Rightarrow> (string \<Rightarrow> string) \<Rightarrow> dialog list option \<Rightarrow> incoming_event \<Rightarrow> bool" where
  "may_cost c lower_name dialogs ev \<longleftrightarrow> \<not> ms_out (ie_message ev) \<and>
     (ac_allow_all c \<or> ms_sender_id (ie_message ev) \<in> ac_allow_ids c
      \<or> (\<exists>ds d n. dialogs = Some ds \<and> d \<in> set ds \<and> dg_id d = ms_sender_id (ie_message ev) \<and> dg_username d = Some n
           \<and> lower_name n \<in> ac_allow_usernames c))"

lemma resolved_sound:
  assumes "resolve_allowed_ids L dialogs c = Some ids" and "i \<in> ids"
  shows "i \<in> ac_allow_ids c \<or> (\<exists>ds d n. dialogs = Some ds \<and> d \<in> set ds \<and> dg_id d = i \<and> dg_username d = Some n \<and> L n \<in> ac_allow_usernames c)"
proof (cases "ac_allow_usernames c = {}")
  case True
  then show ?thesis using assms by (simp add: resolve_allowed_ids_def)
next
  case False
  then obtain ds where ds: "dialogs = Some ds"
    "ids = ac_allow_ids c \<union> {i. \<exists>n\<in>ac_allow_usernames c. map_of (rev (map (\<lambda>d. (L (the (dg_username d)), dg_id d)) (filter (\<lambda>d. truthy (dg_username d)) ds))) n = Some i}"
    using assms(1) by (auto simp: resolve_allowed_ids_def Let_def split: option.splits)
  show ?thesis
  proof (cases "i \<in> ac_allow_ids c")
    case False
    then obtain n where n: "n \<in> ac_allow_usernames c"
      "map_of (rev (map (\<lambda>d. (L (the (dg_username d)), dg_id d)) (filter (\<lambda>d. truthy (dg_username d)) ds))) n = Some i"
      using assms(2) ds(2) by auto
    from map_of_SomeD [OF n(2)] obtain d where "d \<in> set ds" "truthy (dg_username d)" "n = L (the (dg_username d))" "dg_id d = i" by auto
    then show ?thesis using n(1) ds(1) by (auto simp: truthy_def)
  qed simp
qed

lemma answer_event_calls:
  assumes "answer_event a ev = (calls, failed)"
  shows "list_all (\<lambda>x. call_dialog x = ie_dialog_id ev) calls \<and> length (filter is_send calls) \<le> 1 \<and> (\<exists>cs. calls = Typing (ie_dialog_id ev) # cs)"
  using assms by (auto simp: answer_event_def Let_def split: if_splits option.splits prod.splits)

lemma handle_event_calls:
  "list_all (\<lambda>x. call_dialog x = ie_dialog_id ev) (handle_event ne allowed a ev) \<and> length (filter is_send (handle_event ne allowed a ev)) \<le> 2
    \<and> (handle_event ne allowed a ev \<noteq> [] \<longrightarrow> \<not> ms_out (ie_message ev) \<and> (case allowed of None \<Rightarrow> True | Some ids \<Rightarrow> ms_sender_id (ie_message ev) \<in> ids))"
proof -
  obtain calls failed where a: "answer_event a ev = (calls, failed)" by (cases "answer_event a ev")
  show ?thesis using answer_event_calls [OF a]
    by (auto simp: handle_event_def Let_def a failed_calls_def split: option.splits)
qed


definition toy_config :: agent_config where
  "toy_config = \<lparr>ac_model = ''a:b'', ac_allow_all = False, ac_allow_ids = {7}, ac_allow_usernames = {}, ac_search_provider = ''duckduckgo'',
     ac_vision_model = None, ac_suggest_model = None, ac_intents = [], ac_suggest_history_limit = 30, ac_factory_url = None, ac_factory_password = None\<rparr>"

definition toy_event :: "int \<Rightarrow> incoming_event" where
  "toy_event sender = \<lparr>ie_dialog_id = sender, ie_message = \<lparr>ms_id = 1, ms_dialog_id = sender, ms_sender_id = sender, ms_out = False, ms_date = 0,
     ms_text = Some [104], ms_media = None, ms_reply_to_id = None, ms_is_forward = False, ms_translated_text = None, ms_sender = None\<rparr>, ie_album_id = None\<rparr>"

definition toy_answers :: event_answers where
  "toy_answers = \<lparr>ea_download = NothingToDownload, ea_reply = Some [105], ea_send = False, ea_notice = True\<rparr>"


section \<open>The intent graph\<close>

datatype chat_message = Human utext | HumanImage utext image_input | Ai utext

fun content_of :: "chat_message \<Rightarrow> utext" where
  "content_of (Human t) = t" | "content_of (HumanImage t im) = t" | "content_of (Ai t) = t"

definition image_placeholder :: utext where "image_placeholder = u ''[image]''"

record agent_models =
  mo_classify :: "utext \<Rightarrow> utext option"
  mo_chat :: "chat_message list \<Rightarrow> utext option"
  mo_task :: "chat_message list \<Rightarrow> utext option"
  mo_vision :: "(chat_message list \<Rightarrow> utext option) option"

text \<open>The checkpointed messages of each thread (a thread is a dialog) and the images waiting.\<close>

record orchestrator =
  or_history :: "int \<Rightarrow> chat_message list"
  or_pending :: "int \<Rightarrow> chat_message option"

definition prefix_instruction :: "chat_message list \<Rightarrow> utext option \<Rightarrow> chat_message list" where
  "prefix_instruction ms prompt =
     (if \<not> truthy prompt then ms else butlast ms @ [Human (the prompt @ [10, 10] @ content_of (last ms))])"

definition graph_routes :: "intent_spec list \<Rightarrow> utext list" where
  "graph_routes intents = [u ''chat'', u ''task''] @ map it_name intents"

definition classify_node :: "agent_models \<Rightarrow> intent_spec list \<Rightarrow> chat_message list \<Rightarrow> utext option" where
  "classify_node mo intents ms =
     map_option (\<lambda>i. if i \<in> set (graph_routes intents) then i else u ''chat'') (mo_classify mo (content_of (last ms)))"

definition intent_node :: "agent_models \<Rightarrow> intent_spec \<Rightarrow> chat_message list \<Rightarrow> utext option" where
  "intent_node mo spec ms =
     (let input = prefix_instruction ms (it_system_prompt spec)
      in if it_pipeline spec = u ''task'' then mo_task mo input else mo_chat mo input)"

definition route_node :: "agent_models \<Rightarrow> intent_spec list \<Rightarrow> utext \<Rightarrow> chat_message list \<Rightarrow> utext option" where
  "route_node mo intents intent ms =
     (if intent = u ''chat'' then mo_chat mo ms
      else if intent = u ''task'' then mo_task mo ms
      else (case find (\<lambda>s. it_name s = intent) intents of None \<Rightarrow> None | Some spec \<Rightarrow> intent_node mo spec ms))"

text \<open>One pass of the graph over the thread \<open>d\<close>; \<open>keeps\<close>: after an exception the input stays.\<close>

definition graph_invoke :: "agent_models \<Rightarrow> intent_spec list \<Rightarrow> bool \<Rightarrow> int \<Rightarrow> utext \<Rightarrow> bool \<Rightarrow> orchestrator \<Rightarrow> utext option \<times> orchestrator" where
  "graph_invoke mo intents keeps d t has_image s =
     (let ms = or_history s d @ [Human t];
          reply = (if has_image
                   then (case (or_pending s d, mo_vision mo) of
                           (Some multimodal, Some vision) \<Rightarrow> vision (butlast ms @ [multimodal]) | _ \<Rightarrow> None)
                   else Option.bind (classify_node mo intents ms) (\<lambda>intent. route_node mo intents intent ms));
          s1 = (if has_image then s\<lparr>or_pending := (or_pending s)(d := None)\<rparr> else s)
      in case reply of
           None \<Rightarrow> (None, s1\<lparr>or_history := (or_history s)(d := if keeps then ms else or_history s d)\<rparr>)
         | Some r \<Rightarrow> (Some r, s1\<lparr>or_history := (or_history s)(d := ms @ [Ai r])\<rparr>))"

definition orchestrator_handle :: "agent_models \<Rightarrow> intent_spec list \<Rightarrow> bool \<Rightarrow> int \<Rightarrow> utext \<Rightarrow> image_input option \<Rightarrow> orchestrator
    \<Rightarrow> utext option \<times> orchestrator" where
  "orchestrator_handle mo intents keeps d t img s =
     (case img of
        None \<Rightarrow> graph_invoke mo intents keeps d t False s
      | Some im \<Rightarrow>
          if mo_vision mo = None then (None, s)
          else (let placeholder = (if t = [] then image_placeholder else ustrip (image_placeholder @ [32] @ t));
                    (r, s') = graph_invoke mo intents keeps d placeholder True (s\<lparr>or_pending := (or_pending s)(d \<mapsto> HumanImage t im)\<rparr>)
                in (r, s'\<lparr>or_pending := (or_pending s')(d := None)\<rparr>)))"

text \<open>A turn of a dialog: its text, its image, and what the checkpoint keeps if it fails.\<close>

type_synonym turn = "int \<times> utext \<times> image_input option \<times> bool"

definition orch_start :: orchestrator where
  "orch_start = \<lparr>or_history = (\<lambda>_. []), or_pending = (\<lambda>_. None)\<rparr>"

definition orch_turn :: "agent_models \<Rightarrow> intent_spec list \<Rightarrow> turn \<Rightarrow> orchestrator \<Rightarrow> orchestrator" where
  "orch_turn mo intents x s = (case x of (d, t, img, keeps) \<Rightarrow> snd (orchestrator_handle mo intents keeps d t img s))"

definition orch_run :: "agent_models \<Rightarrow> intent_spec list \<Rightarrow> turn list \<Rightarrow> orchestrator" where
  "orch_run mo intents xs = fold (orch_turn mo intents) xs orch_start"

fun plain_message :: "chat_message \<Rightarrow> bool" where
  "plain_message (HumanImage t im) = False" | "plain_message _ = True"

definition orch_inv :: "orchestrator \<Rightarrow> bool" where
  "orch_inv s \<longleftrightarrow> or_pending s = (\<lambda>_. None) \<and> (\<forall>d. list_all plain_message (or_history s d))"

inductive orch_step :: "agent_models \<Rightarrow> intent_spec list \<Rightarrow> orchestrator \<Rightarrow> orchestrator \<Rightarrow> bool" for mo intents where
  turn: "orch_step mo intents s (orch_turn mo intents x s)"

lemma orch_turn_inv:
  assumes "orch_inv s"
  shows "orch_inv (orch_turn mo intents x s)"
proof -
  obtain d t img keeps where x: "x = (d, t, img, keeps)" by (cases x)
  have p: "or_pending s = (\<lambda>_. None)" and h: "\<And>e. list_all plain_message (or_history s e)" using assms by (auto simp: orch_inv_def)
  show ?thesis
    by (auto simp: x orch_turn_def orchestrator_handle_def graph_invoke_def Let_def orch_inv_def p h split: option.split prod.split)
qed

interpretation orch: inv_system "orch_step mo intents" orch_inv for mo intents
  by unfold_locales (auto elim: orch_step.cases simp: orch_turn_inv)

lemma orch_run_snoc: "orch_run mo intents (xs @ [x]) = orch_turn mo intents x (orch_run mo intents xs)"
  by (simp add: orch_run_def)

lemma orch_run_inv: "orch_inv (orch_run mo intents xs)"
proof -
  have "(orch_step mo intents)\<^sup>*\<^sup>* orch_start (orch_run mo intents xs)"
    by (induction xs rule: rev_induct)
      (auto simp: orch_run_snoc intro: rtranclp.rtrancl_into_rtrancl orch_step.turn, simp add: orch_run_def)
  then show ?thesis using orch.reach_keeps by (auto simp: orch_inv_def orch_start_def)
qed

text \<open>The thread's new messages depend on nothing but its old ones and the turn.\<close>

lemma graph_invoke_other: "e \<noteq> d \<Longrightarrow> or_history (snd (graph_invoke mo intents keeps e t hi s)) d = or_history s d"
  unfolding graph_invoke_def Let_def by (simp split: option.split)

lemma graph_invoke_same:
  assumes "or_history s d = or_history s' d" and "or_pending s d = or_pending s' d"
  shows "or_history (snd (graph_invoke mo intents keeps d t hi s)) d = or_history (snd (graph_invoke mo intents keeps d t hi s')) d"
  unfolding graph_invoke_def Let_def assms by (simp split: option.split)

lemma handle_history:
  "or_history (snd (orchestrator_handle mo intents keeps d t im s)) =
     (case im of
        None \<Rightarrow> or_history (snd (graph_invoke mo intents keeps d t False s))
      | Some x \<Rightarrow> if mo_vision mo = None then or_history s
          else or_history (snd (graph_invoke mo intents keeps d (if t = [] then image_placeholder else ustrip (image_placeholder @ [32] @ t)) True
            (s\<lparr>or_pending := (or_pending s)(d \<mapsto> HumanImage t x)\<rparr>))))"
  by (cases im; cases "mo_vision mo") (simp_all add: orchestrator_handle_def Let_def case_prod_unfold)

lemma orch_turn_other: "fst x \<noteq> d \<Longrightarrow> or_history (orch_turn mo intents x s) d = or_history s d"
  by (cases x) (simp add: orch_turn_def handle_history graph_invoke_other split: option.split)

lemma orch_turn_same:
  assumes "or_pending s = or_pending s'" and "or_history s d = or_history s' d" and "fst x = d"
  shows "or_history (orch_turn mo intents x s) d = or_history (orch_turn mo intents x s') d"
proof -
  obtain t im keeps where x: "x = (d, t, im, keeps)" using assms(3) by (cases x) auto
  show ?thesis
  proof (cases im)
    case None
    then show ?thesis using assms by (simp add: x orch_turn_def handle_history) (rule graph_invoke_same, simp_all)
  next
    case (Some p)
    then show ?thesis
      using assms graph_invoke_same [of "s\<lparr>or_pending := (or_pending s)(d \<mapsto> HumanImage t p)\<rparr>" d "s'\<lparr>or_pending := (or_pending s')(d \<mapsto> HumanImage t p)\<rparr>"]
      by (simp add: x orch_turn_def handle_history)
  qed
qed

text \<open>
  Dialogs never mix and images never stay: after any turns, failed ones included, the messages
  kept for a dialog are those it would have had if the turns of the other dialogs had never
  happened; none of them holds an image, and no image is left waiting.
\<close>

theorem threads_isolated:
  "or_history (orch_run mo intents xs) d = or_history (orch_run mo intents (filter (\<lambda>x. fst x = d) xs)) d
    \<and> list_all plain_message (or_history (orch_run mo intents xs) d) \<and> or_pending (orch_run mo intents xs) d = None"
proof (intro conjI)
  show "or_history (orch_run mo intents xs) d = or_history (orch_run mo intents (filter (\<lambda>x. fst x = d) xs)) d"
  proof (induction xs rule: rev_induct)
    case (snoc x xs)
    have p: "or_pending (orch_run mo intents ys) = (\<lambda>_. None)" for ys using orch_run_inv [of mo intents ys] by (simp add: orch_inv_def)
    show ?case
    proof (cases "fst x = d")
      case True
      then show ?thesis using orch_turn_same [OF _ snoc True, of mo intents] p by (simp add: orch_run_snoc)
    qed (simp add: orch_run_snoc orch_turn_other snoc)
  qed simp
qed (use orch_run_inv [of mo intents xs] in \<open>simp_all add: orch_inv_def\<close>)

end
