(* ===== verification/Client_Map.thy ===== *)
theory Client_Map
  imports Models Names_Langs Config_Files
begin

text \<open>
  \<open>src/tg_messenger/core/client.py\<close>, the pure half: the credentials read from the
  environment, the text of a rights rejection, the classification of a Telethon entity and
  the mapping of Telethon's objects to the domain records. An object of Telethon is a record
  of the attributes the code reads with \<open>getattr\<close>: an absent attribute and one that is
  \<open>None\<close> are both \<open>None\<close> except where the code tells them apart. A TL peer is the marked
  id \<open>telethon.utils.get_peer_id\<close> gives for it.
\<close>

section \<open>Errors\<close>

text \<open>The exceptions the client raises, catches or lets through, \<open>Cancelled\<close> being the one
  that \<open>except Exception\<close> does not catch. \<open>FloodgateHandled\<close> is the package's
  \<open>HandledFloodWaitError\<close>, \<open>HandledFloodWait\<close> the one of \<open>core/flood.py\<close>.\<close>

datatype client_error =
    ForbiddenError utext
  | ChatAdminRequired utext
  | UserBannedInChannel utext
  | ChatRestricted utext
  | VoiceMessagesForbidden utext
  | UsernameInvalid utext
  | UsernameOccupied utext
  | FloodWait int
  | FloodgateHandled string int
  | HandledFloodWait string int
  | ValueErr utext
  | SendForbidden utext
  | DeleteValidation utext
  | MissingCredentials utext
  | OtherError utext
  | Cancelled

text \<open>\<open>_SEND_FORBIDDEN_ERRORS\<close>, with the text \<open>str(exc)\<close> of each.\<close>

fun rights_error :: "client_error \<Rightarrow> utext option" where
  "rights_error (ForbiddenError t) = Some t"
| "rights_error (ChatAdminRequired t) = Some t"
| "rights_error (UserBannedInChannel t) = Some t"
| "rights_error (ChatRestricted t) = Some t"
| "rights_error (VoiceMessagesForbidden t) = Some t"
| "rights_error _ = None"

fun is_value_error :: "client_error \<Rightarrow> bool" where
  "is_value_error (ValueErr _) = True"
| "is_value_error (SendForbidden _) = True"
| "is_value_error (DeleteValidation _) = True"
| "is_value_error (MissingCredentials _) = True"
| "is_value_error _ = False"

definition read_only_text :: utext where
  "read_only_text = u ''This chat is read-only ''  @ [8212] @ u '' you cannot send messages here.''"

text \<open>\<open>_CAUSED_BY_SUFFIX\<close>: whether the pattern matches from here to the end of the text.\<close>

definition caused_suffix :: "utext \<Rightarrow> bool" where
  "caused_suffix s =
     (let t = lstrip_by space_cp s; opening = u ''(caused by ''
      in prefix opening t
         \<and> (case partition_at 41 (drop (length opening) t) of
              None \<Rightarrow> False | Some (_, rest) \<Rightarrow> list_all space_cp rest))"

fun cut_caused :: "utext \<Rightarrow> utext" where
  "cut_caused [] = []"
| "cut_caused (c # s) = (if caused_suffix (c # s) then [] else c # cut_caused s)"

definition forbidden_message :: "utext \<Rightarrow> utext" where
  "forbidden_message exc = (let cleaned = ustrip (cut_caused exc) in if cleaned = [] then read_only_text else cleaned)"

section \<open>Credentials and construction from the environment\<close>

definition missing_credentials_hint :: utext where
  "missing_credentials_hint = join [10]
     [u ''Telegram API credentials are missing. Set TG_API_ID and TG_API_HASH.'',
      u ''Get them from https://my.telegram.org (API development tools), then put them in'',
      u ''  ~/.tg/.env    (read from any directory), or'',
      u ''  ./.env        (in the current directory), or the real environment.'',
      u ''Example ~/.tg/.env:'',
      u ''  TG_API_ID=1234567'',
      u ''  TG_API_HASH=0123456789abcdef0123456789abcdef'']"

definition validate_credentials :: "int \<Rightarrow> string option \<Rightarrow> (client_error, unit) result" where
  "validate_credentials api_id api_hash =
     (if api_id = 0 \<or> strip (or_default api_hash []) = [] then Inl (MissingCredentials missing_credentials_hint)
      else Inr ())"

text \<open>\<open>int((os.environ.get("TG_API_ID") or "0").strip() or "0")\<close>, 0 where it raises.\<close>

definition env_api_id :: "string option \<Rightarrow> int" where
  "env_api_id v =
     (let t = strip (or_default v ''0''); digits = (if t = [] then ''0'' else t)
      in (case parse_int digits of None \<Rightarrow> 0 | Some i \<Rightarrow> i))"

definition credentials_missing_from_env :: "(string \<Rightarrow> string option) \<Rightarrow> bool" where
  "credentials_missing_from_env env \<longleftrightarrow>
     env_api_id (env ''TG_API_ID'') = 0 \<or> strip (or_default (env ''TG_API_HASH'') []) = []"

record client_kwargs =
  ck_encryption_key :: "string option option"
  ck_session_dir :: "string option"
  ck_send_rate :: "real option"

record client_settings =
  cs_api_id :: int
  cs_api_hash :: string
  cs_encryption_key :: "string option"
  cs_session_dir :: string
  cs_send_rate :: real

text \<open>\<open>float\<close> (\<open>None\<close> where it raises) and \<open>default_session_dir\<close> are arguments. The default
  rate is computed even where the caller gives one.\<close>

definition client_from_env ::
  "(string \<Rightarrow> real option) \<Rightarrow> (string \<Rightarrow> string) \<Rightarrow> (string, string) result \<Rightarrow> (string \<Rightarrow> string option)
    \<Rightarrow> client_kwargs \<Rightarrow> (client_error, client_settings) result" where
  "client_from_env float_of expand default_dir env kw =
     (let key = (case ck_encryption_key kw of Some k \<Rightarrow> k
                 | None \<Rightarrow> (if truthy (env ''SESSION_ENCRYPTION_KEY'') then env ''SESSION_ENCRYPTION_KEY'' else None));
          dir = (case ck_session_dir kw of Some d \<Rightarrow> Inr d
                 | None \<Rightarrow> (case resolve_env_dir expand (env ''TG_SESSION_DIR'') of
                              Inl e \<Rightarrow> Inl e | Inr (Some p) \<Rightarrow> Inr p | Inr None \<Rightarrow> default_dir))
      in (case dir of Inl e \<Rightarrow> Inl (ValueErr (u e))
          | Inr d \<Rightarrow>
              (case float_of (or_default (env ''TG_SEND_RATE'') ''20'') of
                 None \<Rightarrow> Inl (ValueErr (u ''could not convert string to float''))
               | Some rate \<Rightarrow>
                   (let api_id = env_api_id (env ''TG_API_ID''); api_hash = or_default (env ''TG_API_HASH'') []
                    in (case validate_credentials api_id (Some api_hash) of
                          Inl e \<Rightarrow> Inl e
                        | Inr _ \<Rightarrow>
                            Inr \<lparr>cs_api_id = api_id, cs_api_hash = api_hash, cs_encryption_key = key, cs_session_dir = d,
                              cs_send_rate = (case ck_send_rate kw of Some r \<Rightarrow> r | None \<Rightarrow> rate)\<rparr>)))))"

section \<open>Entities\<close>

text \<open>Where an attribute may be present and \<open>None\<close> with a different effect, the outer option
  says whether it is there: \<open>hasattr\<close> of the names, \<open>post_messages\<close> of the admin rights (a
  flag \<open>None\<close> is falsy, a missing one counts as granted).\<close>

record entity =
  en_id :: "int option"
  en_marked_id :: int
  en_bot :: bool
  en_title :: "string option"
  en_broadcast :: bool
  en_first_name :: "string option option"
  en_last_name :: "string option option"
  en_username :: "string option"
  en_contact :: bool
  en_lang_code :: "string option"
  en_left :: bool
  en_creator :: bool
  en_admin_rights :: "bool option option"
  en_banned_rights :: "bool option"
  en_default_banned_rights :: "bool option"

definition dialog_kind_of :: "entity \<Rightarrow> dialog_kind" where
  "dialog_kind_of e =
     (if en_bot e then Bot
      else if en_title e \<noteq> None then (if en_broadcast e then Channel else Group)
      else if en_first_name e \<noteq> None \<or> en_last_name e \<noteq> None then Dm
      else Group)"

definition entity_can_send :: "entity \<Rightarrow> bool" where
  "entity_can_send e =
     (if en_title e = None then True
      else if en_left e then False
      else if en_creator e then True
      else (case en_admin_rights e of
              Some post \<Rightarrow> (if en_broadcast e then (case post of None \<Rightarrow> True | Some b \<Rightarrow> b) else True)
            | None \<Rightarrow>
                if en_banned_rights e = Some True then False
                else if en_broadcast e then False
                else if en_default_banned_rights e = Some True then False
                else True))"

definition name_part :: "string option option \<Rightarrow> string" where
  "name_part a = (case a of None \<Rightarrow> [] | Some n \<Rightarrow> or_default n [])"

definition entity_title :: "entity \<Rightarrow> string" where
  "entity_title e =
     (if truthy (en_title e) then the (en_title e)
      else (let name = strip (name_part (en_first_name e) @ '' '' @ name_part (en_last_name e))
            in if name \<noteq> [] then name
               else if truthy (en_username e) then the (en_username e)
               else (case en_id e of None \<Rightarrow> [] | Some i \<Rightarrow> str_int i)))"

record raw_dialog =
  rd_entity :: entity
  rd_id :: "int option"
  rd_text :: "utext option"
  rd_date :: "instant option"
  rd_unread_count :: "int option"
  rd_folder_id :: "int option"

text \<open>One row of \<open>_fetch_dialogs\<close>; the default of \<open>getattr(d, "id", entity.id)\<close> is always
  evaluated, so an entity without an id raises.\<close>

definition to_dialog :: "bool \<Rightarrow> raw_dialog \<Rightarrow> (client_error, dialog) result" where
  "to_dialog arch d =
     (let e = rd_entity d; kind = dialog_kind_of e
      in (case en_id e of
            None \<Rightarrow> Inl (OtherError (u ''id''))
          | Some i \<Rightarrow>
              Inr \<lparr>dg_id = (case rd_id d of Some j \<Rightarrow> j | None \<Rightarrow> i),
                dg_title = entity_title e, dg_kind = kind, dg_username = en_username e,
                dg_unread = (case rd_unread_count d of None \<Rightarrow> 0 | Some n \<Rightarrow> n),
                dg_last_message_at = rd_date d, dg_last_text = rd_text d,
                dg_is_contact = (if kind = Dm then Some (en_contact e) else None),
                dg_archived = (arch \<or> rd_folder_id d = Some 1),
                dg_lang_code = (if kind = Dm then clean_supported_lang_code (en_lang_code e) else None),
                dg_can_send = entity_can_send e\<rparr>))"

text \<open>A list comprehension whose element may raise.\<close>

fun map_result :: "('a \<Rightarrow> ('e, 'b) result) \<Rightarrow> 'a list \<Rightarrow> ('e, 'b list) result" where
  "map_result f [] = Inr []"
| "map_result f (x # xs) =
     (case f x of Inl e \<Rightarrow> Inl e
      | Inr y \<Rightarrow> (case map_result f xs of Inl e \<Rightarrow> Inl e | Inr ys \<Rightarrow> Inr (y # ys)))"

section \<open>Users, media and messages\<close>

record raw_user =
  ru_id :: "int option"
  ru_first_name :: "string option"
  ru_last_name :: "string option"
  ru_username :: "string option"

definition to_user :: "raw_user option \<Rightarrow> user option" where
  "to_user raw =
     (case raw of None \<Rightarrow> None
      | Some r \<Rightarrow> Some \<lparr>us_id = (case ru_id r of None \<Rightarrow> 0 | Some i \<Rightarrow> i), us_first_name = ru_first_name r,
          us_last_name = ru_last_name r, us_username = ru_username r\<rparr>)"

record raw_file =
  rf_file_name :: "string option"
  rf_name :: "string option"
  rf_size :: "int option"
  rf_mime_type :: "string option"

record raw_message =
  rm_id :: "int option"
  rm_chat_id :: "int option"
  rm_peer_id :: "int option"
  rm_sender_id :: "int option"
  rm_out :: bool
  rm_date :: "instant option"
  rm_text :: "utext option"
  rm_message :: "utext option"
  rm_media :: bool
  rm_photo :: bool
  rm_voice :: bool
  rm_document :: bool
  rm_file :: "raw_file option"
  rm_reply_to :: "int option option"
  rm_forward :: bool
  rm_sender :: "raw_user option"
  rm_grouped_id :: "int option"

text \<open>\<open>x or y\<close> on optional texts.\<close>

definition or_else :: "'a list option \<Rightarrow> 'a list option \<Rightarrow> 'a list option" where
  "or_else x y = (if truthy x then x else y)"

definition message_dialog_id :: "raw_message \<Rightarrow> int option" where
  "message_dialog_id raw = (case rm_chat_id raw of Some c \<Rightarrow> Some c | None \<Rightarrow> rm_peer_id raw)"

definition to_media_ref :: "raw_message \<Rightarrow> media_ref option" where
  "to_media_ref raw =
     (if \<not> rm_media raw then None
      else (let file = rm_file raw
            in Some \<lparr>mr_kind = (if rm_photo raw then Photo else if rm_voice raw then Voice
                         else if rm_document raw then Document else OtherMedia),
                 mr_file_name = or_else (Option.bind file rf_file_name) (Option.bind file rf_name),
                 mr_size = Option.bind file rf_size, mr_mime_type = Option.bind file rf_mime_type,
                 mr_downloadable = True\<rparr>))"

text \<open>\<open>raw.date\<close> is the one attribute the mapping cannot do without.\<close>

definition to_message :: "int \<Rightarrow> raw_message \<Rightarrow> (client_error, message) result" where
  "to_message dialog_id raw =
     (case rm_date raw of
        None \<Rightarrow> Inl (OtherError (u ''date''))
      | Some date \<Rightarrow>
          Inr \<lparr>ms_id = (case rm_id raw of None \<Rightarrow> 0 | Some i \<Rightarrow> i), ms_dialog_id = dialog_id,
            ms_sender_id = (case rm_sender_id raw of None \<Rightarrow> 0 | Some i \<Rightarrow> i), ms_out = rm_out raw, ms_date = date,
            ms_text = or_else (rm_text raw) (rm_message raw), ms_media = to_media_ref raw,
            ms_reply_to_id = Option.bind (rm_reply_to raw) id, ms_is_forward = rm_forward raw,
            ms_translated_text = None, ms_sender = to_user (rm_sender raw)\<rparr>)"

section \<open>Chat actions, receipts and reactions\<close>

record message_read_event =
  re_dialog_id :: int
  re_max_id :: int
  re_outbox :: bool

record reaction_event =
  rx_dialog_id :: int
  rx_message_id :: int
  rx_emoticon :: "utext option"
  rx_actor_id :: "int option"

record raw_action =
  rc_chat_id :: "int option"
  rc_user_joined :: bool
  rc_user_added :: bool
  rc_user_kicked :: bool
  rc_user_left :: bool
  rc_new_title :: "utext option"
  rc_new_pin :: bool
  rc_new_photo :: bool
  rc_user :: "raw_user option"
  rc_added_by :: "raw_user option"
  rc_kicked_by :: "raw_user option"
  rc_action_message :: "utext option"

definition chat_action_kind_of :: "raw_action \<Rightarrow> chat_action_kind" where
  "chat_action_kind_of ev =
     (if rc_user_joined ev \<or> rc_user_added ev then Join
      else if rc_user_kicked ev then Kick
      else if rc_user_left ev then Leave
      else if truthy (rc_new_title ev) then TitleChange
      else if rc_new_pin ev then Pin
      else if rc_new_photo ev then PhotoChange
      else OtherAction)"

definition to_chat_action :: "raw_action \<Rightarrow> chat_action_event" where
  "to_chat_action ev =
     \<lparr>ca_dialog_id = (case rc_chat_id ev of None \<Rightarrow> 0 | Some c \<Rightarrow> c), ca_kind = chat_action_kind_of ev,
      ca_user = to_user (rc_user ev),
      ca_actor = to_user (case rc_added_by ev of Some a \<Rightarrow> Some a | None \<Rightarrow> rc_kicked_by ev),
      ca_raw_text = or_else (rc_action_message ev) (rc_new_title ev)\<rparr>"

text \<open>The recent reactions with the emoticon of each, and the number of aggregate results.\<close>

record raw_reactions =
  rr_recent :: "utext option list"
  rr_results :: nat

definition is_reaction_cleared :: "raw_reactions option \<Rightarrow> bool" where
  "is_reaction_cleared reactions \<longleftrightarrow>
     (case reactions of None \<Rightarrow> True | Some r \<Rightarrow> rr_recent r = [] \<and> rr_results r = 0)"

definition recent_emoticon :: "raw_reactions option \<Rightarrow> utext option" where
  "recent_emoticon reactions =
     (case reactions of None \<Rightarrow> None | Some r \<Rightarrow> (case rr_recent r of [] \<Rightarrow> None | e # _ \<Rightarrow> e))"

end
