(* ===== verification/Client.thy ===== *)
theory Client
  imports Client_Map Message_Store Event_Bus Ttl_Cache
begin

text \<open>
  \<open>src/tg_messenger/core/client.py\<close>: the client over Telethon. A coroutine is a function from
  the state to a result and a state; each await is one call of the \<open>telethon\<close> record, whose
  fields stand for Telethon and the \<open>telethon-floodgate\<close> package (the retry combinator, the
  token bucket, the sliding-window gate, the page iterator the gate wraps). While a call
  waits, the updates and foreign writes that \<open>tl_arrives\<close> names are handled on the client.
  The state carries a ghost trace of all of this, in order.
\<close>

section \<open>Telethon's requests and replies\<close>

datatype message_query =
    Page int int
  | NewerThan int int
  | Search utext int
  | ByIds "int list"
  | ById int

datatype permission = Mute instant | Ban

datatype tl_request =
    Connect | Disconnect | IsAuthorized | LogOut | GetMe
  | GetInputEntity int
  | GetEntity int
  | GetEntityByName string
  | IterDialogs bool "int option"
  | IterMessages int message_query
  | SendMessage int utext "int option" "instant option"
  | ForwardMessages int "int list" int
  | EditMessage int int utext
  | DeleteMessages int "int list" bool
  | EditPermissions int int permission
  | GetPermissions int "raw_user option"
  | ReadAcknowledge int "int option"
  | CheckUsername string
  | UpdateUsername string
  | SendFile int string "utext option" bool bool bool
  | SendReaction int int utext
  | DownloadMedia raw_message string
  | TypingOn int
  | TypingOff int

datatype reply =
    RUnit
  | RBool bool
  | RMsg raw_message
  | RMsgs "raw_message option list"
  | RDialogs "raw_dialog list"
  | REntity entity
  | RUser "raw_user option"
  | RPerms "(bool \<times> bool) option"
  | RPath "string option"

text \<open>A missing \<open>is_private\<close> counts as private; one that is \<open>None\<close> is falsy, so \<open>Some False\<close>.\<close>

record raw_event =
  rv_chat_id :: "int option"
  rv_message :: raw_message
  rv_is_private :: "bool option"

datatype tg_update =
    NewMessage raw_event
  | OutMessage raw_event
  | Deleted "int option" "int list"
  | ChatAction raw_action
  | MessageRead "int option" "int option" bool
  | Reaction "int option" "int option" "raw_reactions option"

text \<open>What happens while the coroutine is suspended: a handler runs, or another coroutine
  finishes a write to a peer.\<close>

datatype arrival = Update tg_update | Write int

datatype effect =
    Rpc tl_request "(client_error, reply) result"
  | Paged tl_request "(client_error, reply) result"
  | Bucket
  | Gate string
  | Arrived arrival

section \<open>The client and its event handlers\<close>

datatype handler = OnNew | OnOut | OnDeleted | OnChatAction | OnRead | OnReadInbox | OnReaction

record client =
  cl_dialogs :: "(string, dialog list) ttl_cache"
  cl_history :: "(int \<times> int \<times> int, message list) ttl_cache"
  cl_bus :: "incoming_event bus"
  cl_bus_all :: "incoming_event bus"
  cl_bus_out :: "outgoing_event bus"
  cl_bus_deleted :: "messages_deleted_event bus"
  cl_bus_chat_actions :: "chat_action_event bus"
  cl_bus_reads :: "message_read_event bus"
  cl_bus_reactions :: "reaction_event bus"
  cl_handlers :: "handler list"
  cl_handler_registered :: bool

definition new_cache :: "instant \<Rightarrow> nat \<Rightarrow> ('k, 'v) ttl_cache" where
  "new_cache ttl maxsize = \<lparr>tc_ttl = ttl, tc_maxsize = maxsize, tc_store = [], tc_locks = [], tc_epochs = []\<rparr>"

definition new_client :: "int \<Rightarrow> instant \<Rightarrow> instant \<Rightarrow> client" where
  "new_client bus_size dialogs_ttl history_ttl =
     \<lparr>cl_dialogs = new_cache dialogs_ttl 2, cl_history = new_cache history_ttl 64,
      cl_bus = \<lparr>eb_maxsize = bus_size, eb_subs = []\<rparr>, cl_bus_all = \<lparr>eb_maxsize = bus_size, eb_subs = []\<rparr>,
      cl_bus_out = \<lparr>eb_maxsize = bus_size, eb_subs = []\<rparr>, cl_bus_deleted = \<lparr>eb_maxsize = bus_size, eb_subs = []\<rparr>,
      cl_bus_chat_actions = \<lparr>eb_maxsize = bus_size, eb_subs = []\<rparr>,
      cl_bus_reads = \<lparr>eb_maxsize = bus_size, eb_subs = []\<rparr>,
      cl_bus_reactions = \<lparr>eb_maxsize = bus_size, eb_subs = []\<rparr>,
      cl_handlers = [], cl_handler_registered = False\<rparr>"

definition ensure_handler :: "client \<Rightarrow> client" where
  "ensure_handler cl =
     (if cl_handler_registered cl then cl
      else cl\<lparr>cl_handlers := cl_handlers cl @ [OnNew, OnOut, OnDeleted, OnChatAction, OnRead, OnReadInbox, OnReaction],
              cl_handler_registered := True\<rparr>)"

definition invalidate_history :: "int \<Rightarrow> client \<Rightarrow> client" where
  "invalidate_history peer cl = cl\<lparr>cl_history := invalidate_if (\<lambda>k. fst k = peer) (cl_history cl)\<rparr>"

definition or_zero :: "int option \<Rightarrow> int" where
  "or_zero i = (case i of None \<Rightarrow> 0 | Some n \<Rightarrow> n)"

text \<open>Each handler's \<open>except Exception\<close> keeps what was done before the failure.\<close>

definition on_new_message :: "raw_event \<Rightarrow> client \<Rightarrow> client" where
  "on_new_message ev cl =
     (let dialog_id = or_zero (rv_chat_id ev); cl1 = invalidate_history dialog_id cl
      in (case to_message dialog_id (rv_message ev) of
            Inl _ \<Rightarrow> cl1
          | Inr m \<Rightarrow>
              (let incoming = \<lparr>ie_dialog_id = dialog_id, ie_message = m, ie_album_id = rm_grouped_id (rv_message ev)\<rparr>;
                   cl2 = cl1\<lparr>cl_bus_all := publish incoming (cl_bus_all cl1)\<rparr>
               in if rv_is_private ev \<noteq> Some False then cl2\<lparr>cl_bus := publish incoming (cl_bus cl2)\<rparr> else cl2)))"

definition on_outgoing_message :: "raw_event \<Rightarrow> client \<Rightarrow> client" where
  "on_outgoing_message ev cl =
     (let dialog_id = or_zero (rv_chat_id ev); cl1 = invalidate_history dialog_id cl
      in (case to_message dialog_id (rv_message ev) of
            Inl _ \<Rightarrow> cl1
          | Inr m \<Rightarrow> cl1\<lparr>cl_bus_out := publish \<lparr>oe_dialog_id = dialog_id, oe_message = m\<rparr> (cl_bus_out cl1)\<rparr>))"

definition on_deleted :: "int option \<Rightarrow> int list \<Rightarrow> client \<Rightarrow> client" where
  "on_deleted chat_id ids cl =
     (let cl1 = (case chat_id of Some c \<Rightarrow> invalidate_history c cl
                 | None \<Rightarrow> cl\<lparr>cl_history := invalidate None (cl_history cl)\<rparr>)
      in cl1\<lparr>cl_bus_deleted := publish \<lparr>de_chat_id = chat_id, de_message_ids = ids\<rparr> (cl_bus_deleted cl1)\<rparr>)"

definition on_chat_action_update :: "raw_action \<Rightarrow> client \<Rightarrow> client" where
  "on_chat_action_update ev cl = cl\<lparr>cl_bus_chat_actions := publish (to_chat_action ev) (cl_bus_chat_actions cl)\<rparr>"

definition on_message_read :: "int option \<Rightarrow> int option \<Rightarrow> bool \<Rightarrow> client \<Rightarrow> client" where
  "on_message_read chat_id max_id outbox cl =
     cl\<lparr>cl_bus_reads := publish \<lparr>re_dialog_id = or_zero chat_id, re_max_id = or_zero max_id, re_outbox = outbox\<rparr>
          (cl_bus_reads cl)\<rparr>"

definition on_reaction :: "int option \<Rightarrow> int option \<Rightarrow> raw_reactions option \<Rightarrow> client \<Rightarrow> client" where
  "on_reaction peer msg_id reactions cl =
     (if is_reaction_cleared reactions then cl
      else cl\<lparr>cl_bus_reactions := publish \<lparr>rx_dialog_id = or_zero peer, rx_message_id = or_zero msg_id,
                rx_emoticon = recent_emoticon reactions, rx_actor_id = None\<rparr> (cl_bus_reactions cl)\<rparr>)"

fun handle_update :: "tg_update \<Rightarrow> client \<Rightarrow> client" where
  "handle_update (NewMessage ev) cl = on_new_message ev cl"
| "handle_update (OutMessage ev) cl = on_outgoing_message ev cl"
| "handle_update (Deleted c ids) cl = on_deleted c ids cl"
| "handle_update (ChatAction ev) cl = on_chat_action_update ev cl"
| "handle_update (MessageRead c m b) cl = on_message_read c m b cl"
| "handle_update (Reaction p m r) cl = on_reaction p m r cl"

fun arrive :: "arrival \<Rightarrow> client \<Rightarrow> client" where
  "arrive (Update upd) cl = handle_update upd cl"
| "arrive (Write peer) cl = invalidate_history peer cl"

section \<open>Coroutines\<close>

record 'w cstate =
  st_client :: client
  st_world :: 'w
  st_trace :: "effect list"

type_synonym ('w, 'a) coro = "'w cstate \<Rightarrow> (client_error, 'a) result \<times> 'w cstate"

record 'w telethon =
  tl_call :: "tl_request \<Rightarrow> 'w \<Rightarrow> (client_error, reply) result \<times> 'w"
  tl_pages :: "tl_request \<Rightarrow> 'w \<Rightarrow> (client_error, reply) result \<times> 'w"
  tl_retry :: "string \<Rightarrow> ('w, reply) coro \<Rightarrow> ('w, reply) coro"
  tl_bucket_enabled :: bool
  tl_bucket :: "'w \<Rightarrow> 'w"
  tl_category :: "string \<Rightarrow> string"
  tl_gate :: "string \<Rightarrow> 'w \<Rightarrow> 'w"
  tl_lock_wait :: "'w \<Rightarrow> 'w"
  tl_arrives :: "'w \<Rightarrow> arrival list"
  tl_now :: "'w \<Rightarrow> instant"
  tl_wall :: "'w \<Rightarrow> instant"
  tl_is_file :: "string \<Rightarrow> 'w \<Rightarrow> bool"

definition ret :: "'a \<Rightarrow> ('w, 'a) coro" where
  "ret x s = (Inr x, s)"

definition raise :: "client_error \<Rightarrow> ('w, 'a) coro" where
  "raise e s = (Inl e, s)"

definition seq :: "('w, 'a) coro \<Rightarrow> ('a \<Rightarrow> ('w, 'b) coro) \<Rightarrow> ('w, 'b) coro" where
  "seq m f s = (case m s of (Inl e, s') \<Rightarrow> (Inl e, s') | (Inr x, s') \<Rightarrow> f x s')"

definition lift :: "('a \<Rightarrow> (client_error, 'b) result) \<Rightarrow> 'a \<Rightarrow> ('w, 'b) coro" where
  "lift f x s = (f x, s)"

definition on_client :: "(client \<Rightarrow> client) \<Rightarrow> ('w, unit) coro" where
  "on_client f s = (Inr (), s\<lparr>st_client := f (st_client s)\<rparr>)"

text \<open>The end of an await: the world has moved on and the arrivals have been handled.\<close>

definition resume :: "'w telethon \<Rightarrow> effect \<Rightarrow> 'w \<Rightarrow> 'w cstate \<Rightarrow> 'w cstate" where
  "resume t ef w s =
     s\<lparr>st_client := fold arrive (tl_arrives t w) (st_client s), st_world := w,
       st_trace := st_trace s @ ef # map Arrived (tl_arrives t w)\<rparr>"

definition rpc :: "'w telethon \<Rightarrow> tl_request \<Rightarrow> ('w, reply) coro" where
  "rpc t req s = (case tl_call t req (st_world s) of (r, w) \<Rightarrow> (r, resume t (Rpc req r) w s))"

definition iter_messages :: "'w telethon \<Rightarrow> int \<Rightarrow> message_query \<Rightarrow> ('w, reply) coro" where
  "iter_messages t peer q s =
     (case tl_pages t (IterMessages peer q) (st_world s) of
        (r, w) \<Rightarrow> (r, resume t (Paged (IterMessages peer q) r) w s))"

definition bucket_acquire :: "'w telethon \<Rightarrow> ('w, unit) coro" where
  "bucket_acquire t s = (Inr (), resume t Bucket (tl_bucket t (st_world s)) s)"

definition gate_acquire :: "'w telethon \<Rightarrow> string \<Rightarrow> ('w, unit) coro" where
  "gate_acquire t operation s =
     (let category = tl_category t operation
      in if category = ''send'' \<and> \<not> tl_bucket_enabled t then (Inr (), s)
         else (Inr (), resume t (Gate category) (tl_gate t category (st_world s)) s))"

text \<open>\<open>core/flood.py\<close>: the package's retry, its error rewritten.\<close>

definition run_with_flood_wait_retry :: "'w telethon \<Rightarrow> string \<Rightarrow> ('w, reply) coro \<Rightarrow> ('w, reply) coro" where
  "run_with_flood_wait_retry t operation m s =
     (case tl_retry t operation m s of
        (Inl (FloodgateHandled op n), s') \<Rightarrow> (Inl (HandledFloodWait op n), s')
      | r \<Rightarrow> r)"

definition run_gated :: "'w telethon \<Rightarrow> string \<Rightarrow> string \<Rightarrow> tl_request \<Rightarrow> ('w, reply) coro" where
  "run_gated t operation gate_operation req =
     run_with_flood_wait_retry t operation (seq (gate_acquire t gate_operation) (\<lambda>_. rpc t req))"

definition retried :: "'w telethon \<Rightarrow> string \<Rightarrow> tl_request \<Rightarrow> ('w, reply) coro" where
  "retried t operation req = run_with_flood_wait_retry t operation (rpc t req)"

text \<open>\<open>except _SEND_FORBIDDEN_ERRORS\<close>.\<close>

definition forbid :: "('w, 'a) coro \<Rightarrow> ('w, 'a) coro" where
  "forbid m s =
     (case m s of
        (Inl e, s') \<Rightarrow> (case rights_error e of Some t \<Rightarrow> (Inl (SendForbidden (forbidden_message t)), s') | None \<Rightarrow> (Inl e, s'))
      | (Inr x, s') \<Rightarrow> (Inr x, s'))"

text \<open>A value of the wrong shape raises, as an attribute error or a type error would.\<close>

definition wrong_shape :: client_error where
  "wrong_shape = OtherError (u ''unexpected reply'')"

fun as_message :: "reply \<Rightarrow> (client_error, raw_message) result" where
  "as_message (RMsg m) = Inr m"
| "as_message _ = Inl wrong_shape"

fun as_messages :: "reply \<Rightarrow> (client_error, raw_message option list) result" where
  "as_messages (RMsgs ms) = Inr ms"
| "as_messages _ = Inl wrong_shape"

fun as_dialogs :: "reply \<Rightarrow> (client_error, raw_dialog list) result" where
  "as_dialogs (RDialogs ds) = Inr ds"
| "as_dialogs _ = Inl wrong_shape"

fun as_entity :: "reply \<Rightarrow> (client_error, entity) result" where
  "as_entity (REntity e) = Inr e"
| "as_entity _ = Inl wrong_shape"

text \<open>Mapping an element that is not a message reads its date in vain.\<close>

definition to_message_opt :: "int \<Rightarrow> raw_message option \<Rightarrow> (client_error, message) result" where
  "to_message_opt peer m = (case m of None \<Rightarrow> Inl wrong_shape | Some r \<Rightarrow> to_message peer r)"

definition to_messages :: "int \<Rightarrow> reply \<Rightarrow> (client_error, message list) result" where
  "to_messages peer r = (case as_messages r of Inl e \<Rightarrow> Inl e | Inr ms \<Rightarrow> map_result (to_message_opt peer) ms)"

text \<open>Telethon yields the newest message first.\<close>

definition to_history :: "int \<Rightarrow> reply \<Rightarrow> (client_error, message list) result" where
  "to_history peer r =
     (case as_messages r of Inl e \<Rightarrow> Inl e | Inr ms \<Rightarrow> map_result (to_message_opt peer) (rev ms))"

definition sent_message :: "int \<Rightarrow> reply \<Rightarrow> (client_error, message) result" where
  "sent_message peer r = (case as_message r of Inl e \<Rightarrow> Inl e | Inr m \<Rightarrow> to_message peer m)"

end
