(* ===== verification/Client_Ops.thy ===== *)
theory Client_Ops
  imports Client
begin

text \<open>
  \<open>src/tg_messenger/core/client.py\<close>: the operations of the client, one definition per method,
  as coroutines over the state of theory Client.
\<close>

section \<open>The cached reads\<close>

text \<open>\<open>TTLCache.get_or_fetch\<close> run by one task on the cache the client holds under \<open>get\<close> and
  \<open>put\<close>: the sections of theory Ttl_Cache around the awaits of the lock and of the fetch.\<close>

definition store_cache ::
  "(('k, 'v) ttl_cache \<Rightarrow> client \<Rightarrow> client) \<Rightarrow> ('k, 'v) ttl_cache \<Rightarrow> 'w cstate \<Rightarrow> 'w cstate" where
  "store_cache put c s = s\<lparr>st_client := put c (st_client s)\<rparr>"

definition lock_wait :: "'w telethon \<Rightarrow> 'w cstate \<Rightarrow> 'w cstate" where
  "lock_wait t s =
     (let w = tl_lock_wait t (st_world s)
      in s\<lparr>st_client := fold arrive (tl_arrives t w) (st_client s), st_world := w,
           st_trace := st_trace s @ map Arrived (tl_arrives t w)\<rparr>)"

definition cached_fetch ::
  "(client \<Rightarrow> ('k, 'v) ttl_cache) \<Rightarrow> (('k, 'v) ttl_cache \<Rightarrow> client \<Rightarrow> client) \<Rightarrow> 'w telethon \<Rightarrow> nat \<Rightarrow> 'k
    \<Rightarrow> ('w, 'v) coro \<Rightarrow> ('w, 'v) coro" where
  "cached_fetch get put t tsk key fetch s =
     (case gof_enter (tl_now t (st_world s)) key (get (st_client s)) of
        (Some v, c) \<Rightarrow> (Inr v, store_cache put c s)
      | (None, c) \<Rightarrow>
          (let s1 = store_cache put c s;
               s2 = (if fst (lk (get (st_client s)) key) = None then s1 else lock_wait t s1)
           in (case gof_locked tsk (tl_now t (st_world s2)) key (get (st_client s2)) of
                 (Inl v, c2) \<Rightarrow> (Inr v, store_cache put c2 s2)
               | (Inr epoch, c2) \<Rightarrow>
                   (case fetch (store_cache put c2 s2) of
                      (Inl e, s3) \<Rightarrow> (Inl e, store_cache put (gof_abort key (get (st_client s3))) s3)
                    | (Inr v, s3) \<Rightarrow>
                        (Inr v, store_cache put (gof_commit (tl_now t (st_world s3)) key epoch v (get (st_client s3))) s3)))))"

definition put_dialogs :: "(string, dialog list) ttl_cache \<Rightarrow> client \<Rightarrow> client" where
  "put_dialogs c cl = cl\<lparr>cl_dialogs := c\<rparr>"

definition put_history :: "(int \<times> int \<times> int, message list) ttl_cache \<Rightarrow> client \<Rightarrow> client" where
  "put_history c cl = cl\<lparr>cl_history := c\<rparr>"

definition dialogs_cache_key :: string where "dialogs_cache_key = ''all''"
definition archived_dialogs_cache_key :: string where "archived_dialogs_cache_key = ''archived''"

definition fetch_dialogs :: "'w telethon \<Rightarrow> bool \<Rightarrow> int option \<Rightarrow> ('w, dialog list) coro" where
  "fetch_dialogs t arch limit =
     seq (retried t (if arch then ''archived_dialogs'' else ''dialogs'') (IterDialogs arch limit))
       (lift (\<lambda>r. case as_dialogs r of Inl e \<Rightarrow> Inl e | Inr ds \<Rightarrow> map_result (to_dialog arch) ds))"

definition dialogs_full :: "'w telethon \<Rightarrow> nat \<Rightarrow> int option \<Rightarrow> ('w, dialog list) coro" where
  "dialogs_full t tsk limit =
     (if limit = None then cached_fetch cl_dialogs put_dialogs t tsk dialogs_cache_key (fetch_dialogs t False None)
      else fetch_dialogs t False limit)"

definition dialogs :: "'w telethon \<Rightarrow> nat \<Rightarrow> bool \<Rightarrow> int option \<Rightarrow> ('w, dialog list) coro" where
  "dialogs t tsk dm_only limit =
     seq (dialogs_full t tsk limit) (\<lambda>full. ret (if dm_only then filter (\<lambda>d. dg_kind d = Dm) full else full))"

definition archived_dialogs :: "'w telethon \<Rightarrow> nat \<Rightarrow> ('w, dialog list) coro" where
  "archived_dialogs t tsk =
     cached_fetch cl_dialogs put_dialogs t tsk archived_dialogs_cache_key (fetch_dialogs t True None)"

definition group_dialogs :: "'w telethon \<Rightarrow> nat \<Rightarrow> int option \<Rightarrow> ('w, dialog list) coro" where
  "group_dialogs t tsk limit =
     seq (dialogs_full t tsk limit) (\<lambda>full. ret (filter (\<lambda>d. dg_kind d \<noteq> Dm) full))"

definition can_post_to :: "'w telethon \<Rightarrow> nat \<Rightarrow> int \<Rightarrow> ('w, bool) coro" where
  "can_post_to t tsk dialog_id s =
     (case dialogs t tsk False None s of
        (Inl Cancelled, s') \<Rightarrow> (Inl Cancelled, s')
      | (Inl _, s') \<Rightarrow> (Inr True, s')
      | (Inr ds, s') \<Rightarrow> (Inr (can_send_in ds dialog_id), s'))"

text \<open>A bare id a fresh process cannot resolve: fetch the dialogs once, then try again.\<close>

definition warm_entity :: "'w telethon \<Rightarrow> nat \<Rightarrow> int \<Rightarrow> ('w, reply) coro" where
  "warm_entity t tsk peer s =
     (case rpc t (GetInputEntity peer) s of
        (Inl e, s') \<Rightarrow>
          (if is_value_error e then seq (dialogs t tsk True None) (\<lambda>_. rpc t (GetInputEntity peer)) s' else (Inl e, s'))
      | (Inr r, s') \<Rightarrow> (Inr r, s'))"

definition collect :: "'w telethon \<Rightarrow> nat \<Rightarrow> int \<Rightarrow> message_query \<Rightarrow> ('w, reply) coro" where
  "collect t tsk peer q = seq (warm_entity t tsk peer) (\<lambda>_. iter_messages t peer q)"

definition fetch_history :: "'w telethon \<Rightarrow> nat \<Rightarrow> int \<Rightarrow> int \<Rightarrow> int \<Rightarrow> ('w, message list) coro" where
  "fetch_history t tsk peer limit offset_id =
     seq (run_with_flood_wait_retry t ''history'' (collect t tsk peer (Page limit offset_id))) (lift (to_history peer))"

definition history :: "'w telethon \<Rightarrow> nat \<Rightarrow> int \<Rightarrow> int \<Rightarrow> int \<Rightarrow> bool \<Rightarrow> ('w, message list) coro" where
  "history t tsk peer limit offset_id fresh =
     (if fresh then fetch_history t tsk peer limit offset_id
      else cached_fetch cl_history put_history t tsk (peer, limit, offset_id) (fetch_history t tsk peer limit offset_id))"

definition history_since :: "'w telethon \<Rightarrow> nat \<Rightarrow> int \<Rightarrow> int \<Rightarrow> int \<Rightarrow> ('w, message list) coro" where
  "history_since t tsk peer min_id limit =
     seq (run_with_flood_wait_retry t ''history_since'' (collect t tsk peer (NewerThan min_id limit))) (lift (to_history peer))"

definition search_messages :: "'w telethon \<Rightarrow> nat \<Rightarrow> int \<Rightarrow> utext \<Rightarrow> int \<Rightarrow> ('w, message list) coro" where
  "search_messages t tsk peer q limit =
     seq (run_with_flood_wait_retry t ''search_messages'' (collect t tsk peer (Search q limit))) (lift (to_messages peer))"

section \<open>Sending\<close>

definition finish_write :: "int list \<Rightarrow> (reply \<Rightarrow> (client_error, 'a) result) \<Rightarrow> reply \<Rightarrow> ('w, 'a) coro" where
  "finish_write peers f r = seq (on_client (fold invalidate_history peers)) (\<lambda>_. lift f r)"

definition send_text :: "'w telethon \<Rightarrow> nat \<Rightarrow> int \<Rightarrow> utext \<Rightarrow> int option \<Rightarrow> instant option \<Rightarrow> ('w, message) coro" where
  "send_text t tsk peer txt reply_to schedule =
     seq (warm_entity t tsk peer) (\<lambda>_.
     seq (bucket_acquire t) (\<lambda>_.
     seq (forbid (run_gated t ''send_text'' ''telegram_send_message'' (SendMessage peer txt reply_to schedule)))
       (finish_write [peer] (sent_message peer))))"

definition forwarded :: "int \<Rightarrow> reply \<Rightarrow> (client_error, message list) result" where
  "forwarded to_peer r =
     (case r of
        RUnit \<Rightarrow> Inr []
      | _ \<Rightarrow> (case as_messages r of Inl e \<Rightarrow> Inl e | Inr ms \<Rightarrow> map_result (to_message to_peer) (List.map_filter id ms)))"

definition forward :: "'w telethon \<Rightarrow> nat \<Rightarrow> int \<Rightarrow> int list \<Rightarrow> int \<Rightarrow> ('w, message list) coro" where
  "forward t tsk from_peer message_ids to_peer =
     seq (warm_entity t tsk from_peer) (\<lambda>_.
     seq (warm_entity t tsk to_peer) (\<lambda>_.
     seq (bucket_acquire t) (\<lambda>_.
     seq (run_gated t ''forward'' ''telegram_forward_messages'' (ForwardMessages to_peer message_ids from_peer))
       (finish_write [from_peer, to_peer] (forwarded to_peer)))))"

definition edit_text :: "'w telethon \<Rightarrow> nat \<Rightarrow> int \<Rightarrow> int \<Rightarrow> utext \<Rightarrow> ('w, message) coro" where
  "edit_text t tsk peer message_id txt =
     seq (warm_entity t tsk peer) (\<lambda>_.
     seq (run_gated t ''edit_text'' ''telegram_edit_message'' (EditMessage peer message_id txt))
       (finish_write [peer] (sent_message peer)))"

definition send_media :: "'w telethon \<Rightarrow> nat \<Rightarrow> int \<Rightarrow> string \<Rightarrow> utext option \<Rightarrow> bool \<Rightarrow> bool \<Rightarrow> bool \<Rightarrow> ('w, message) coro" where
  "send_media t tsk peer file_path caption voice_note video_note force_document s =
     (if \<not> tl_is_file t file_path (st_world s) then raise (ValueErr (u ''file not found: '' @ u file_path)) s
      else seq (bucket_acquire t) (\<lambda>_.
           seq (warm_entity t tsk peer) (\<lambda>_.
           seq (forbid (run_gated t ''send_media'' ''telegram_publish_files''
                  (SendFile peer file_path caption voice_note video_note force_document)))
             (finish_write [peer] (sent_message peer)))) s)"

text \<open>Telegram refuses the variation selector U+FE0F in a reaction.\<close>

definition send_reaction :: "'w telethon \<Rightarrow> nat \<Rightarrow> int \<Rightarrow> int \<Rightarrow> utext \<Rightarrow> ('w, unit) coro" where
  "send_reaction t tsk peer message_id emoticon =
     seq (warm_entity t tsk peer) (\<lambda>_.
     seq (bucket_acquire t) (\<lambda>_.
     seq (forbid (retried t ''send_reaction'' (SendReaction peer message_id (filter (\<lambda>c. c \<noteq> 65039) emoticon))))
       (\<lambda>_. ret ())))"

section \<open>Deleting\<close>

definition by_id :: "raw_message option list \<Rightarrow> (int, raw_message) odict" where
  "by_id ms = fold (\<lambda>m d. case m of None \<Rightarrow> d | Some r \<Rightarrow> (case rm_id r of None \<Rightarrow> d | Some i \<Rightarrow> od_set i r d)) ms []"

definition show_dialog :: "int option \<Rightarrow> string" where
  "show_dialog d = (case d of None \<Rightarrow> ''None'' | Some i \<Rightarrow> str_int i)"

text \<open>The checks of \<open>_validate_delete_messages\<close> on the messages read back.\<close>

definition check_found :: "int \<Rightarrow> int list \<Rightarrow> raw_message option list \<Rightarrow> (client_error, unit) result" where
  "check_found peer wanted ms =
     (let found = by_id ms; missing = filter (\<lambda>i. i \<notin> set (od_keys found)) (sort wanted)
      in if missing \<noteq> []
         then Inl (DeleteValidation (u (''message ids not found in dialog '' @ str_int peer @ '': '' @ join '', '' (map str_int missing))))
         else (case List.find (\<lambda>p. message_dialog_id (snd p) \<noteq> Some peer) found of
                 Some (mid, m) \<Rightarrow>
                   Inl (DeleteValidation (u (''message '' @ str_int mid @ '' belongs to dialog '' @ show_dialog (message_dialog_id m)
                     @ '', not '' @ str_int peer)))
               | None \<Rightarrow> Inr ()))"

definition validate_delete_messages :: "'w telethon \<Rightarrow> nat \<Rightarrow> int \<Rightarrow> int list \<Rightarrow> ('w, unit) coro" where
  "validate_delete_messages t tsk peer message_ids =
     (let wanted = remdups message_ids
      in if wanted = [] then ret ()
         else seq (run_with_flood_wait_retry t ''delete_messages_validate'' (collect t tsk peer (ByIds wanted)))
                (lift (\<lambda>r. case as_messages r of Inl e \<Rightarrow> Inl e | Inr ms \<Rightarrow> check_found peer wanted ms)))"

definition for_me_message :: utext where
  "for_me_message =
     u ''--for-me is not supported for channels/supergroups; Telegram deletes there for everyone''"

definition delete_messages :: "'w telethon \<Rightarrow> nat \<Rightarrow> int \<Rightarrow> int list \<Rightarrow> bool \<Rightarrow> ('w, unit) coro" where
  "delete_messages t tsk peer message_ids revoke =
     (if \<not> revoke \<and> is_channel_or_megagroup_id peer then raise (DeleteValidation for_me_message)
      else seq (validate_delete_messages t tsk peer message_ids) (\<lambda>_.
           seq (retried t ''delete_messages'' (DeleteMessages peer message_ids revoke)) (\<lambda>_.
           on_client (invalidate_history peer))))"

section \<open>Moderation, receipts and user names\<close>

definition mute_user :: "'w telethon \<Rightarrow> nat \<Rightarrow> int \<Rightarrow> int \<Rightarrow> int \<Rightarrow> ('w, unit) coro" where
  "mute_user t tsk peer user_id until_sec =
     seq (warm_entity t tsk peer) (\<lambda>_ s.
       seq (retried t ''mute_user'' (EditPermissions peer user_id (Mute (tl_wall t (st_world s) + of_int until_sec))))
         (\<lambda>_. ret ()) s)"

definition ban_user :: "'w telethon \<Rightarrow> nat \<Rightarrow> int \<Rightarrow> int \<Rightarrow> ('w, unit) coro" where
  "ban_user t tsk peer user_id =
     seq (warm_entity t tsk peer) (\<lambda>_. seq (retried t ''ban_user'' (EditPermissions peer user_id Ban)) (\<lambda>_. ret ()))"

text \<open>The rights to delete messages and to ban users; any failure reads as none.\<close>

fun as_user :: "reply \<Rightarrow> (client_error, raw_user option) result" where
  "as_user (RUser r) = Inr r"
| "as_user _ = Inl wrong_shape"

fun as_perms :: "reply \<Rightarrow> (client_error, (bool \<times> bool) option) result" where
  "as_perms (RPerms p) = Inr p"
| "as_perms _ = Inl wrong_shape"

definition moderation_rights :: "'w telethon \<Rightarrow> nat \<Rightarrow> int \<Rightarrow> ('w, bool \<times> bool) coro" where
  "moderation_rights t tsk peer s =
     (case seq (warm_entity t tsk peer) (\<lambda>_.
           seq (retried t ''is_admin_me'' GetMe) (\<lambda>m.
           seq (lift as_user m) (\<lambda>me.
           seq (retried t ''is_admin'' (GetPermissions peer me)) (lift as_perms)))) s of
        (Inl Cancelled, s') \<Rightarrow> (Inl Cancelled, s')
      | (Inl _, s') \<Rightarrow> (Inr (False, False), s')
      | (Inr None, s') \<Rightarrow> (Inr (False, False), s')
      | (Inr (Some rights), s') \<Rightarrow> (Inr rights, s'))"

definition is_admin :: "'w telethon \<Rightarrow> nat \<Rightarrow> int \<Rightarrow> ('w, bool) coro" where
  "is_admin t tsk peer = seq (moderation_rights t tsk peer) (\<lambda>(del, ban). ret (del \<or> ban))"

definition mark_read :: "'w telethon \<Rightarrow> nat \<Rightarrow> int \<Rightarrow> int option \<Rightarrow> ('w, unit) coro" where
  "mark_read t tsk peer max_id =
     seq (warm_entity t tsk peer) (\<lambda>_.
     seq (retried t ''mark_read'' (ReadAcknowledge peer max_id)) (\<lambda>_.
     on_client (\<lambda>cl. cl\<lparr>cl_dialogs := invalidate (Some archived_dialogs_cache_key)
       (invalidate (Some dialogs_cache_key) (cl_dialogs cl))\<rparr>)))"

definition invalid_username :: "string \<Rightarrow> client_error" where
  "invalid_username name = ValueErr (u ''invalid username: '' @ u name)"

fun as_bool :: "reply \<Rightarrow> bool" where
  "as_bool (RBool b) = b"
| "as_bool RUnit = False"
| "as_bool _ = True"

definition check_username :: "'w telethon \<Rightarrow> string \<Rightarrow> ('w, bool) coro" where
  "check_username t name s =
     (case retried t ''check_username'' (CheckUsername name) s of
        (Inl (UsernameInvalid _), s') \<Rightarrow> (Inl (invalid_username name), s')
      | (Inl e, s') \<Rightarrow> (Inl e, s')
      | (Inr r, s') \<Rightarrow> (Inr (as_bool r), s'))"

definition set_username :: "'w telethon \<Rightarrow> string \<Rightarrow> ('w, unit) coro" where
  "set_username t name s =
     (case retried t ''set_username'' (UpdateUsername name) s of
        (Inl (UsernameOccupied _), s') \<Rightarrow> (Inl (ValueErr (u ''username already taken: '' @ u name)), s')
      | (Inl (UsernameInvalid _), s') \<Rightarrow> (Inl (invalid_username name), s')
      | (Inl e, s') \<Rightarrow> (Inl e, s')
      | (Inr r, s') \<Rightarrow> (Inr (), s'))"

definition clear_username :: "'w telethon \<Rightarrow> ('w, unit) coro" where
  "clear_username t = seq (retried t ''clear_username'' (UpdateUsername '''')) (\<lambda>_. ret ())"

section \<open>Connection, identity, media and the typing indicator\<close>

definition connect :: "'w telethon \<Rightarrow> ('w, unit) coro" where
  "connect t = seq (retried t ''connect'' Connect) (\<lambda>_. on_client ensure_handler)"

definition disconnect :: "'w telethon \<Rightarrow> ('w, unit) coro" where
  "disconnect t = seq (rpc t Disconnect) (\<lambda>_. ret ())"

definition is_authorized :: "'w telethon \<Rightarrow> ('w, reply) coro" where
  "is_authorized t = retried t ''is_authorized'' IsAuthorized"

definition log_out :: "'w telethon \<Rightarrow> ('w, reply) coro" where
  "log_out t = retried t ''log_out'' LogOut"

definition anonymous :: user where
  "anonymous = \<lparr>us_id = 0, us_first_name = None, us_last_name = None, us_username = None\<rparr>"

definition get_me :: "'w telethon \<Rightarrow> ('w, user) coro" where
  "get_me t =
     seq (retried t ''get_me'' GetMe) (\<lambda>r. seq (lift as_user r) (\<lambda>raw.
       ret (case to_user raw of None \<Rightarrow> anonymous | Some me \<Rightarrow> me)))"

definition peer_title :: "'w telethon \<Rightarrow> nat \<Rightarrow> int \<Rightarrow> ('w, string) coro" where
  "peer_title t tsk peer =
     seq (warm_entity t tsk peer) (\<lambda>_.
     seq (retried t ''entity_title'' (GetEntity peer)) (\<lambda>r.
     seq (lift as_entity r) (\<lambda>e. ret (entity_title e))))"

definition resolve_username :: "'w telethon \<Rightarrow> string \<Rightarrow> ('w, dialog) coro" where
  "resolve_username t name =
     seq (retried t ''resolve_username'' (GetEntityByName name)) (\<lambda>r.
     seq (lift as_entity r) (\<lambda>e.
     ret \<lparr>dg_id = en_marked_id e, dg_title = entity_title e, dg_kind = dialog_kind_of e,
       dg_username = en_username e, dg_unread = 0, dg_last_message_at = None, dg_last_text = None,
       dg_is_contact = None, dg_archived = False, dg_lang_code = None, dg_can_send = True\<rparr>))"

fun as_path :: "reply \<Rightarrow> (client_error, string option) result" where
  "as_path (RPath p) = Inr p"
| "as_path _ = Inl wrong_shape"

definition download_media :: "'w telethon \<Rightarrow> raw_message \<Rightarrow> string \<Rightarrow> ('w, string option) coro" where
  "download_media t m dest = seq (retried t ''download_media'' (DownloadMedia m dest)) (lift as_path)"

definition download_message_media :: "'w telethon \<Rightarrow> nat \<Rightarrow> int \<Rightarrow> int \<Rightarrow> string \<Rightarrow> ('w, string option) coro" where
  "download_message_media t tsk peer message_id dest =
     seq (run_with_flood_wait_retry t ''download_message_media'' (collect t tsk peer (ById message_id))) (\<lambda>r.
     seq (lift as_messages r) (\<lambda>raw.
     (case raw of
        Some m # _ \<Rightarrow> (if rm_media m then download_media t m dest else ret None)
      | _ \<Rightarrow> ret None)))"

text \<open>\<open>async with typing(peer): body\<close>: the indicator's own failures are swallowed.\<close>

definition with_typing :: "'w telethon \<Rightarrow> int \<Rightarrow> ('w, 'a) coro \<Rightarrow> ('w, 'a) coro" where
  "with_typing t peer body s =
     (case rpc t (TypingOn peer) s of
        (Inl Cancelled, s1) \<Rightarrow> (Inl Cancelled, s1)
      | (Inl _, s1) \<Rightarrow> body s1
      | (Inr _, s1) \<Rightarrow>
          (case body s1 of (r, s2) \<Rightarrow>
             (case rpc t (TypingOff peer) s2 of
                (Inl Cancelled, s3) \<Rightarrow> (Inl Cancelled, s3)
              | (_, s3) \<Rightarrow> (r, s3))))"

end
