(* ===== verification/Client_Safe.thy ===== *)
theory Client_Safe
  imports Client_Ops Single_Flight
begin

text \<open>
  What the client of \<open>core/client.py\<close> promises: the pacing contract of the README, deletions
  that stay in their dialog, pages that are cached only while they are current, and event
  streams that carry exactly their events. The trace of the state is the witness.
\<close>

section \<open>The retry combinator\<close>

text \<open>The documented behaviour of \<open>run_with_flood_wait_retry\<close> of telethon-floodgate: a flood wait
  is slept off and the call repeated, or given up as a handled one; a cancellation may strike
  the sleep; every other outcome of the call is the outcome.\<close>

definition slept :: "'w \<Rightarrow> arrival list \<Rightarrow> 'w cstate \<Rightarrow> 'w cstate" where
  "slept w as s = s\<lparr>st_client := fold arrive as (st_client s), st_world := w, st_trace := st_trace s @ map Arrived as\<rparr>"

inductive attempts :: "('w, reply) coro \<Rightarrow> 'w cstate \<Rightarrow> (client_error, reply) result \<Rightarrow> 'w cstate \<Rightarrow> bool" for m where
  final: "m s = (r, s') \<Longrightarrow> attempts m s r s'"
| give_up: "m s = (Inl (FloodWait n), s') \<Longrightarrow> attempts m s (Inl (FloodgateHandled op n)) s'"
| cancelled: "m s = (Inl (FloodWait n), s') \<Longrightarrow> attempts m s (Inl Cancelled) (slept w as s')"
| again: "m s = (Inl (FloodWait n), s1) \<Longrightarrow> attempts m (slept w as s1) r s' \<Longrightarrow> attempts m s r s'"

definition retry_ok :: "'w telethon \<Rightarrow> bool" where
  "retry_ok t \<longleftrightarrow> (\<forall>op m s. attempts m s (fst (tl_retry t op m s)) (snd (tl_retry t op m s)))"

lemma retry_cases:
  assumes "retry_ok t" and "run_with_flood_wait_retry t op m s = (r, s')"
  obtains r0 where "attempts m s r0 s'" and "r = r0 \<or> (\<exists>e e'. r0 = Inl e \<and> r = Inl e')"
proof -
  obtain r0 s0 where r0: "tl_retry t op m s = (r0, s0)" by (cases "tl_retry t op m s")
  then have "attempts m s r0 s0" using assms(1) by (metis retry_ok_def fst_conv snd_conv)
  moreover have "s0 = s' \<and> (r = r0 \<or> (\<exists>e e'. r0 = Inl e \<and> r = Inl e'))"
    using assms(2) r0 by (auto simp: run_with_flood_wait_retry_def split: sum.splits client_error.splits)
  ultimately show thesis using that by blast
qed

section \<open>Relations every await keeps\<close>

text \<open>\<open>ok\<close> are the requests a coroutine may make; \<open>R\<close> relates the states before and after.\<close>

locale await_relation =
  fixes R :: "'w cstate \<Rightarrow> 'w cstate \<Rightarrow> bool" and ok_req :: "tl_request \<Rightarrow> bool"
  assumes R_refl: "R s s"
    and R_trans: "R s1 s2 \<Longrightarrow> R s2 s3 \<Longrightarrow> R s1 s3"
    and R_slept: "R s (slept w as s)"
    and R_rpc: "ok_req req \<Longrightarrow> R s (resume t (Rpc req r) w s)"
    and R_paged: "R s (resume t (Paged req r) w s)"
    and R_dialogs: "R s (store_cache put_dialogs c s)"
    and ok_reads: "ok_req (GetInputEntity p)" "ok_req (IterDialogs a l)"
begin

definition keeps :: "('w, 'a) coro \<Rightarrow> bool" where
  "keeps m \<longleftrightarrow> (\<forall>s. R s (snd (m s)))"

lemma keepsD: "keeps m \<Longrightarrow> m s = (r, s') \<Longrightarrow> R s s'"
  by (metis keeps_def snd_conv)

lemma keeps_seq: "keeps m \<Longrightarrow> (\<And>x. keeps (f x)) \<Longrightarrow> keeps (seq m f)"
  unfolding keeps_def seq_def by (auto split: sum.split prod.split) (metis R_trans snd_conv)+

lemma keeps_pure: "keeps (ret x)" "keeps (raise e)" "keeps (lift g x)"
  by (simp_all add: keeps_def ret_def raise_def lift_def R_refl)

lemma keeps_rpc: "ok_req req \<Longrightarrow> keeps (rpc t req)"
  by (simp add: keeps_def rpc_def R_rpc split: prod.split)

lemma keeps_iter: "keeps (iter_messages t peer q)"
  by (simp add: keeps_def iter_messages_def R_paged split: prod.split)

lemma attempts_keep: "attempts m s r s' \<Longrightarrow> keeps m \<Longrightarrow> R s s'"
proof (induction rule: attempts.induct)
  case (final s r s')
  then show ?case by (metis keepsD)
next
  case (give_up s n s' op)
  then show ?case by (metis keepsD)
next
  case (cancelled s n s' w as)
  then show ?case by (metis keepsD R_slept R_trans)
next
  case (again s n s1 w as r s')
  then show ?case by (metis keepsD R_slept R_trans)
qed

lemma keeps_retry: "retry_ok t \<Longrightarrow> keeps m \<Longrightarrow> keeps (run_with_flood_wait_retry t op m)"
proof -
  assume t: "retry_ok t" and k: "keeps m"
  have "R s s'" if "run_with_flood_wait_retry t op m s = (r, s')" for s r s'
    using retry_cases [OF t that] attempts_keep [OF _ k] by blast
  then show ?thesis by (simp add: keeps_def) (metis prod.collapse)
qed

lemma keeps_retried: "retry_ok t \<Longrightarrow> ok_req req \<Longrightarrow> keeps (retried t op req)"
  by (simp add: retried_def [abs_def] keeps_retry keeps_rpc)

text \<open>A successful retry ends with a successful run of the call, after a kept stretch.\<close>

lemma attempts_last: "attempts m s r s' \<Longrightarrow> keeps m \<Longrightarrow> r = Inr x \<Longrightarrow> \<exists>s1. R s s1 \<and> m s1 = (Inr x, s')"
proof (induction rule: attempts.induct)
  case (final s r s')
  then show ?case using R_refl by blast
next
  case (again s n s1 w as r s')
  then show ?case by (metis keepsD R_slept R_trans)
qed simp_all

lemma retry_last:
  assumes "retry_ok t" and "keeps m" and "run_with_flood_wait_retry t op m s = (Inr x, s')"
  obtains s1 where "R s s1" and "m s1 = (Inr x, s')"
proof -
  have "attempts m s (Inr x) s'" by (rule retry_cases [OF assms(1,3)]) auto
  then have "\<exists>s1. R s s1 \<and> m s1 = (Inr x, s')" using assms(2) by (rule attempts_last) simp
  then show thesis using that by blast
qed

lemma keeps_fetch_dialogs: "retry_ok t \<Longrightarrow> keeps (fetch_dialogs t arch limit)"
  by (simp add: fetch_dialogs_def keeps_seq keeps_retried keeps_pure ok_reads)

lemma R_lock_wait: "R s (lock_wait t s)"
  using R_slept [of s "tl_lock_wait t (st_world s)" "tl_arrives t (tl_lock_wait t (st_world s))"]
  by (simp add: lock_wait_def slept_def Let_def)

lemma keeps_dialogs_cache: "keeps fetch \<Longrightarrow> keeps (cached_fetch cl_dialogs put_dialogs t tsk key fetch)"
proof -
  assume k: "keeps fetch"
  show ?thesis unfolding keeps_def
  proof
    fix s
    show "R s (snd (cached_fetch cl_dialogs put_dialogs t tsk key fetch s))"
    proof (cases "gof_enter (tl_now t (st_world s)) key (cl_dialogs (st_client s))")
      case (Pair hit c)
      let ?s1 = "store_cache put_dialogs c s"
      let ?s2 = "if fst (lk (cl_dialogs (st_client s)) key) = None then ?s1 else lock_wait t ?s1"
      have r2: "R s ?s2" using R_dialogs [of s c] R_lock_wait [of ?s1 t] R_trans by auto
      obtain lr c2 where l: "gof_locked tsk (tl_now t (st_world ?s2)) key (cl_dialogs (st_client ?s2)) = (lr, c2)"
        by (cases "gof_locked tsk (tl_now t (st_world ?s2)) key (cl_dialogs (st_client ?s2))")
      have r3: "R s (store_cache put_dialogs c2 ?s2)" using r2 R_dialogs R_trans by blast
      obtain fr s3 where f: "fetch (store_cache put_dialogs c2 ?s2) = (fr, s3)"
        by (cases "fetch (store_cache put_dialogs c2 ?s2)")
      have r4: "R s (store_cache put_dialogs d s3)" for d
        using r3 keepsD [OF k f] R_dialogs R_trans by blast
      have "snd (cached_fetch cl_dialogs put_dialogs t tsk key fetch s) \<in>
          {?s1, store_cache put_dialogs c2 ?s2, store_cache put_dialogs (gof_abort key (cl_dialogs (st_client s3))) s3}
          \<union> range (\<lambda>d. store_cache put_dialogs d s3)"
        using Pair l f by (cases hit; cases lr; cases fr) (simp_all add: cached_fetch_def Let_def)
      then show ?thesis using R_dialogs [of s c] r3 r4 by auto
    qed
  qed
qed

lemma keeps_dialogs: "retry_ok t \<Longrightarrow> keeps (dialogs t tsk dm limit)"
  by (simp add: dialogs_def dialogs_full_def keeps_seq keeps_pure keeps_dialogs_cache keeps_fetch_dialogs)

lemma keeps_warm: "retry_ok t \<Longrightarrow> keeps (warm_entity t tsk peer)"
proof -
  assume r: "retry_ok t"
  have k: "keeps (seq (dialogs t tsk True None) (\<lambda>_. rpc t (GetInputEntity peer)))"
    using r by (intro keeps_seq keeps_dialogs keeps_rpc ok_reads)
  have "R s (snd (warm_entity t tsk peer s))" for s
    using keeps_rpc [OF ok_reads(1), of t peer] k
    by (auto simp: warm_entity_def keeps_def split: sum.split prod.split) (metis R_trans snd_conv)+
  then show ?thesis by (simp add: keeps_def)
qed

lemma keeps_collect: "retry_ok t \<Longrightarrow> keeps (collect t tsk peer q)"
  by (simp add: collect_def keeps_seq keeps_warm keeps_iter)

lemma keeps_fetch_history: "retry_ok t \<Longrightarrow> keeps (fetch_history t tsk peer limit offset_id)"
  by (simp add: fetch_history_def keeps_seq keeps_retry keeps_collect keeps_pure)

end

section \<open>What a stretch of the trace does\<close>

lemma seqE:
  assumes "seq m f s = (r, s')"
  obtains (fail) e where "m s = (Inl e, s')" and "r = Inl e"
    | (okr) x s1 where "m s = (Inr x, s1)" and "f x s1 = (r, s')"
  using assms by (auto simp: seq_def split: sum.splits prod.splits)

text \<open>The effect of an arrival on the history cache.\<close>

fun hist_arrive :: "arrival \<Rightarrow> (int \<times> int \<times> int, message list) ttl_cache \<Rightarrow> (int \<times> int \<times> int, message list) ttl_cache" where
  "hist_arrive (Update (NewMessage ev)) c = invalidate_if (\<lambda>k. fst k = or_zero (rv_chat_id ev)) c"
| "hist_arrive (Update (OutMessage ev)) c = invalidate_if (\<lambda>k. fst k = or_zero (rv_chat_id ev)) c"
| "hist_arrive (Update (Deleted (Some p) ids)) c = invalidate_if (\<lambda>k. fst k = p) c"
| "hist_arrive (Update (Deleted None ids)) c = invalidate None c"
| "hist_arrive (Write p) c = invalidate_if (\<lambda>k. fst k = p) c"
| "hist_arrive _ c = c"

text \<open>Whether an arrival concerns the history of a peer.\<close>

fun touches :: "int \<Rightarrow> arrival \<Rightarrow> bool" where
  "touches peer (Update (NewMessage ev)) \<longleftrightarrow> or_zero (rv_chat_id ev) = peer"
| "touches peer (Update (OutMessage ev)) \<longleftrightarrow> or_zero (rv_chat_id ev) = peer"
| "touches peer (Update (Deleted c ids)) \<longleftrightarrow> c = None \<or> c = Some peer"
| "touches peer (Write p) \<longleftrightarrow> p = peer"
| "touches peer _ \<longleftrightarrow> False"

fun hist_effect :: "effect \<Rightarrow> (int \<times> int \<times> int, message list) ttl_cache \<Rightarrow> (int \<times> int \<times> int, message list) ttl_cache" where
  "hist_effect (Arrived a) c = hist_arrive a c"
| "hist_effect _ c = c"

lemma history_arrive: "cl_history (arrive a cl) = hist_arrive a (cl_history cl)"
proof (cases a)
  case (Update upd)
  then show ?thesis
    by (cases upd) (auto simp: on_new_message_def on_outgoing_message_def on_deleted_def on_chat_action_update_def
        on_message_read_def on_reaction_def invalidate_history_def Let_def split: sum.split option.split)
qed (simp add: invalidate_history_def)

lemma history_arrivals: "cl_history (fold arrive as cl) = fold hist_effect (map Arrived as) (cl_history cl)"
  by (induction as arbitrary: cl) (simp_all add: history_arrive)

fun allowed :: "(tl_request \<Rightarrow> bool) \<Rightarrow> effect \<Rightarrow> bool" where
  "allowed okr (Rpc req r) = okr req"
| "allowed okr (Paged req r) = True"
| "allowed okr (Arrived a) = True"
| "allowed okr _ = False"

definition within_reads :: "(tl_request \<Rightarrow> bool) \<Rightarrow> 'w cstate \<Rightarrow> 'w cstate \<Rightarrow> bool" where
  "within_reads okr s s' \<longleftrightarrow> (\<exists>l. st_trace s' = st_trace s @ l \<and> list_all (allowed okr) l
     \<and> cl_history (st_client s') = fold hist_effect l (cl_history (st_client s)))"

fun is_read :: "tl_request \<Rightarrow> bool" where
  "is_read (GetInputEntity p) = True"
| "is_read (IterDialogs a l) = True"
| "is_read _ = False"

lemma allowed_arrivals: "list_all (allowed okr) (map Arrived as)"
  by (simp add: list_all_iff)

lemma within_trans: "within_reads okr s1 s2 \<Longrightarrow> within_reads okr s2 s3 \<Longrightarrow> within_reads okr s1 s3"
  unfolding within_reads_def by (elim exE conjE, rule_tac x = "l @ la" in exI) simp

lemma within_slept: "within_reads okr s (slept w as s)"
  unfolding within_reads_def slept_def
  by (rule exI [of _ "map Arrived as"]) (simp add: history_arrivals allowed_arrivals)

lemma within_resume:
  assumes "allowed okr ef" and "\<And>c. hist_effect ef c = c"
  shows "within_reads okr s (resume t ef w s)"
  unfolding within_reads_def resume_def
  by (rule exI [of _ "ef # map Arrived (tl_arrives t w)"])
    (simp add: history_arrivals allowed_arrivals assms)

interpretation reads: await_relation "within_reads is_read" is_read
proof unfold_locales
  show "within_reads is_read s s" for s :: "'w cstate"
    by (simp add: within_reads_def) 
  show "within_reads is_read s (store_cache put_dialogs c s)" for s :: "'w cstate" and c
    by (simp add: within_reads_def store_cache_def put_dialogs_def)
qed (auto intro: within_trans within_slept within_resume)

text \<open>The effects that spend the outgoing budget.\<close>

definition outgoing :: "effect list \<Rightarrow> effect list" where
  "outgoing l = filter (\<lambda>e. \<not> allowed is_read e) l"

lemma outgoing_reads: "list_all (allowed is_read) l \<Longrightarrow> outgoing l = []"
  by (simp add: outgoing_def list_all_iff filter_empty_conv)

lemma outgoing_append: "outgoing (l @ m) = outgoing l @ outgoing m"
  by (simp add: outgoing_def)

lemma within_outgoing: "within_reads is_read s s' \<Longrightarrow> \<exists>l. st_trace s' = st_trace s @ l \<and> outgoing l = []"
  by (auto simp: within_reads_def outgoing_reads)

text \<open>A run of attempts of one request, each behind a slot of the gate if there is one.\<close>

fun slots :: "string option \<Rightarrow> tl_request \<Rightarrow> effect list \<Rightarrow> bool" where
  "slots g req [] \<longleftrightarrow> True"
| "slots (Some c) req (Gate c' # Rpc q r # l) \<longleftrightarrow> c' = c \<and> q = req \<and> slots (Some c) req l"
| "slots None req (Rpc q r # l) \<longleftrightarrow> q = req \<and> slots None req l"
| "slots g req l \<longleftrightarrow> False"

definition gate_slot :: "'w telethon \<Rightarrow> string \<Rightarrow> string option" where
  "gate_slot t operation =
     (if tl_category t operation = ''send'' \<and> \<not> tl_bucket_enabled t then None else Some (tl_category t operation))"

lemma slots_append: "slots g req l \<Longrightarrow> slots g req m \<Longrightarrow> slots g req (l @ m)"
  by (induction g req l rule: slots.induct) auto

definition slot_run :: "string option \<Rightarrow> tl_request \<Rightarrow> 'w cstate \<Rightarrow> 'w cstate \<Rightarrow> bool" where
  "slot_run g req s s' \<longleftrightarrow> (\<exists>l. st_trace s' = st_trace s @ l \<and> slots g req (outgoing l))"

lemma slot_run_trans: "slot_run g req s1 s2 \<Longrightarrow> slot_run g req s2 s3 \<Longrightarrow> slot_run g req s1 s3"
  unfolding slot_run_def by (elim exE conjE, rule_tac x = "l @ la" in exI) (simp add: outgoing_append slots_append)

lemma slot_run_reads: "within_reads is_read s s' \<Longrightarrow> slot_run g req s s'"
  using within_outgoing [of s s'] by (auto simp: slot_run_def)

lemma outgoing_arrivals: "outgoing (map Arrived as) = []"
  by (simp add: outgoing_reads allowed_arrivals)

interpretation slot: await_relation "slot_run g req" is_read for g req
proof unfold_locales
  fix s :: "'w cstate" and w as c t and q :: tl_request and r
  show "slot_run g req s s" by (auto simp: slot_run_def outgoing_def)
  show "slot_run g req s (slept w as s)" by (rule slot_run_reads) (rule within_slept)
  show "slot_run g req s (store_cache put_dialogs c s)" by (rule slot_run_reads) (rule reads.R_dialogs)
  show "is_read q \<Longrightarrow> slot_run g req s (resume t (Rpc q r) w s)" by (rule slot_run_reads) (rule reads.R_rpc)
  show "slot_run g req s (resume t (Paged q r) w s)" by (rule slot_run_reads) (rule reads.R_paged)
qed (auto intro: slot_run_trans)

lemma trace_resume: "st_trace (resume t ef w s) = st_trace s @ ef # map Arrived (tl_arrives t w)"
  by (simp add: resume_def)

lemma outgoing_resume: "outgoing (ef # map Arrived as) = (if allowed is_read ef then [] else [ef])"
  using outgoing_arrivals by (simp add: outgoing_def)

lemma keeps_gated_rpc:
  "\<not> is_read req \<Longrightarrow> slot.keeps (gate_slot t gop) req (seq (gate_acquire t gop) (\<lambda>_. rpc t req))"
proof -
  assume n: "\<not> is_read req"
  have "slot_run (gate_slot t gop) req s (snd (seq (gate_acquire t gop) (\<lambda>_. rpc t req) s))" for s
  proof (cases "gate_slot t gop")
    case None
    obtain r w where c: "tl_call t req (st_world s) = (r, w)" by (cases "tl_call t req (st_world s)")
    have "snd (seq (gate_acquire t gop) (\<lambda>_. rpc t req) s) = resume t (Rpc req r) w s"
      using None c by (simp add: seq_def gate_acquire_def gate_slot_def rpc_def Let_def split: if_splits)
    then show ?thesis using n unfolding slot_run_def
      by (intro exI [of _ "Rpc req r # map Arrived (tl_arrives t w)"]) (simp add: trace_resume outgoing_resume None)
  next
    case (Some c)
    let ?w = "tl_gate t c (st_world s)"
    obtain r w where cl: "tl_call t req ?w = (r, w)" by (cases "tl_call t req ?w")
    have "snd (seq (gate_acquire t gop) (\<lambda>_. rpc t req) s) = resume t (Rpc req r) w (resume t (Gate c) ?w s)"
      using Some cl by (auto simp: seq_def gate_acquire_def gate_slot_def rpc_def Let_def resume_def split: if_splits)
    moreover have "outgoing ((Gate c # map Arrived (tl_arrives t ?w)) @ (Rpc req r # map Arrived (tl_arrives t w))) = [Gate c, Rpc req r]"
      unfolding outgoing_append outgoing_resume using n by simp
    ultimately show ?thesis unfolding slot_run_def Some
      by (intro exI [of _ "(Gate c # map Arrived (tl_arrives t ?w)) @ Rpc req r # map Arrived (tl_arrives t w)"])
        (simp add: trace_resume)
  qed
  then show ?thesis by (simp add: slot.keeps_def)
qed

lemma keeps_plain_rpc: "\<not> is_read req \<Longrightarrow> slot.keeps None req (rpc t req)"
  unfolding slot.keeps_def slot_run_def rpc_def
  by (auto simp: trace_resume outgoing_resume split: prod.split)

lemma run_gated_slots:
  "retry_ok t \<Longrightarrow> \<not> is_read req \<Longrightarrow> slot_run (gate_slot t gop) req s (snd (run_gated t op gop req s))"
  unfolding run_gated_def
  by (rule slot.keeps_retry [OF _ keeps_gated_rpc, unfolded slot.keeps_def, THEN spec])

lemma retried_slots: "retry_ok t \<Longrightarrow> \<not> is_read req \<Longrightarrow> slot_run None req s (snd (retried t op req s))"
  unfolding retried_def
  by (rule slot.keeps_retry [OF _ keeps_plain_rpc, unfolded slot.keeps_def, THEN spec])

end
