(* ===== verification/Client_Contract.thy ===== *)
theory Client_Contract
  imports Client_Safe
begin

text \<open>
  The properties of \<open>core/client.py\<close>: what an operation spends of the outgoing budget, which
  messages a deletion may name, when a page stays in the cache, and what each event stream
  carries.
\<close>

section \<open>Outgoing budget\<close>

text \<open>\<open>P\<close> holds of what the run from \<open>s\<close> to \<open>s'\<close> spent.\<close>

definition spends :: "(effect list \<Rightarrow> bool) \<Rightarrow> 'w cstate \<Rightarrow> 'w cstate \<Rightarrow> bool" where
  "spends P s s' \<longleftrightarrow> (\<exists>l. st_trace s' = st_trace s @ l \<and> P (outgoing l))"

text \<open>Nothing, or one token and then attempts of the request, each behind its slot.\<close>

definition paid :: "string option \<Rightarrow> tl_request \<Rightarrow> effect list \<Rightarrow> bool" where
  "paid g req l \<longleftrightarrow> l = [] \<or> (\<exists>sends. l = Bucket # sends \<and> slots g req sends)"

lemma paid_Nil: "paid g req []"
  by (simp add: paid_def)

lemma spends_reads: "within_reads is_read s s' \<Longrightarrow> P [] \<Longrightarrow> spends P s s'"
  using within_outgoing [of s s'] by (force simp: spends_def)

lemma spends_before: "within_reads is_read s1 s2 \<Longrightarrow> spends P s2 s3 \<Longrightarrow> spends P s1 s3"
proof -
  assume "within_reads is_read s1 s2" and "spends P s2 s3"
  then obtain a b where "st_trace s2 = st_trace s1 @ a" "outgoing a = []" "st_trace s3 = st_trace s2 @ b" "P (outgoing b)"
    using within_outgoing [of s1 s2] by (auto simp: spends_def)
  then show ?thesis unfolding spends_def by (intro exI [of _ "a @ b"]) (simp add: outgoing_append)
qed

lemma spends_slots: "slot_run g req s s' \<longleftrightarrow> spends (slots g req) s s'"
  by (simp add: slot_run_def spends_def)

lemma snd_forbid: "snd (forbid m s) = snd (m s)"
  by (auto simp: forbid_def split: sum.splits prod.splits option.splits)

lemma trace_finish: "st_trace (snd (finish_write ps f r s)) = st_trace s"
  by (simp add: finish_write_def seq_def on_client_def lift_def)

lemma snd_seq_trace:
  "(\<And>x s. st_trace (snd (f x s)) = st_trace s) \<Longrightarrow> st_trace (snd (seq m f s)) = st_trace (snd (m s))"
  by (simp add: seq_def split: prod.split sum.split)

lemma spends_trace: "st_trace s'' = st_trace s' \<Longrightarrow> spends P s s' \<Longrightarrow> spends P s s''"
  by (simp add: spends_def)

lemma spends_paid:
  assumes "slot_run g req s1 s2" and "st_trace s1 = st_trace s @ Bucket # map Arrived as"
  shows "spends (paid g req) s s2"
proof -
  obtain l where "st_trace s2 = st_trace s1 @ l" "slots g req (outgoing l)" using assms(1) by (auto simp: slot_run_def)
  then show ?thesis unfolding spends_def
    by (intro exI [of _ "(Bucket # map Arrived as) @ l"]) (simp add: assms(2) outgoing_append [of "Bucket # _", simplified] outgoing_resume paid_def)
qed

lemma spends_after_warm:
  assumes "retry_ok t" and "\<And>s1. spends P s1 (snd (f s1))" and "P []"
  shows "spends P s (snd (seq (warm_entity t tsk peer) (\<lambda>_. f) s))"
proof (cases "warm_entity t tsk peer s")
  case (Pair r s1)
  have w: "within_reads is_read s s1" using reads.keepsD [OF reads.keeps_warm [OF assms(1)] Pair] .
  show ?thesis using spends_before [OF w assms(2)] spends_reads [OF w, of P] assms(3) Pair
    by (auto simp: seq_def split: sum.split)
qed

lemma spends_after_bucket:
  assumes "\<And>s1. slot_run g req s1 (snd (f s1))"
  shows "spends (paid g req) s (snd (seq (bucket_acquire t) (\<lambda>_. f) s))"
  by (simp add: seq_def bucket_acquire_def)
    (rule spends_paid [OF assms], simp add: trace_resume)

lemma slot_run_after_warm:
  assumes "retry_ok t" and "\<And>s1. slot_run g req s1 (snd (f s1))"
  shows "slot_run g req s (snd (seq (warm_entity t tsk peer) (\<lambda>_. f) s))"
  using spends_after_warm [of t "slots g req" f s tsk peer] assms by (simp add: spends_slots)

lemma slot_run_finish:
  assumes "slot_run g req s (snd (m s))"
  shows "slot_run g req s (snd (seq m (finish_write ps f) s))"
  using assms snd_seq_trace [of "finish_write ps f" m s] by (simp add: trace_finish slot_run_def)

text \<open>
  C25: The pacing contract of the README, in every interleaving and whatever fails: a text, a
  file or a forward spends one token of the shared bucket however often it is retried, an
  edit spends none, and every attempt, each retry included, first reserves a slot of the
  gate (none where a zero rate has switched the limiters off). A reaction spends one token
  and no slot. The bulk forward is one request, and nothing else is sent.
\<close>

theorem pacing_contract:
  assumes "retry_ok t"
  shows "spends (paid (gate_slot t ''telegram_send_message'') (SendMessage peer body reply_to schedule)) s
      (snd (send_text t tsk peer body reply_to schedule s))
    \<and> spends (paid (gate_slot t ''telegram_publish_files'') (SendFile peer path caption voice video doc)) s
      (snd (send_media t tsk peer path caption voice video doc s))
    \<and> spends (paid (gate_slot t ''telegram_forward_messages'') (ForwardMessages peer ids from)) s
      (snd (forward t tsk from ids peer s))
    \<and> spends (slots (gate_slot t ''telegram_edit_message'') (EditMessage peer mid body)) s
      (snd (edit_text t tsk peer mid body s))
    \<and> spends (paid None (SendReaction peer mid (filter (\<lambda>c. c \<noteq> 65039) body))) s
      (snd (send_reaction t tsk peer mid body s))"
proof (intro conjI)
  note after = spends_after_warm [where P = "paid g req" for g req, OF assms _ paid_Nil]
  have gated: "slot_run (gate_slot t gop) req s1 (snd (seq (forbid (run_gated t op gop req)) (finish_write ps f) s1))"
    if "\<not> is_read req" for gop req op ps s1 and f :: "reply \<Rightarrow> (client_error, 'x) result"
    by (rule slot_run_finish) (simp add: snd_forbid run_gated_slots assms that)
  show "spends (paid (gate_slot t ''telegram_send_message'') (SendMessage peer body reply_to schedule)) s
      (snd (send_text t tsk peer body reply_to schedule s))"
    unfolding send_text_def by (intro after spends_after_bucket gated) simp
  show "spends (paid (gate_slot t ''telegram_publish_files'') (SendFile peer path caption voice video doc)) s
      (snd (send_media t tsk peer path caption voice video doc s))"
    unfolding send_media_def
    by (auto simp: raise_def intro!: spends_after_bucket slot_run_after_warm [OF assms] gated)
      (simp add: spends_def paid_def outgoing_def)
  show "spends (paid (gate_slot t ''telegram_forward_messages'') (ForwardMessages peer ids from)) s
      (snd (forward t tsk from ids peer s))"
    unfolding forward_def
    by (intro after spends_after_bucket slot_run_finish run_gated_slots [OF assms]) simp
  show "spends (slots (gate_slot t ''telegram_edit_message'') (EditMessage peer mid body)) s
      (snd (edit_text t tsk peer mid body s))"
    unfolding edit_text_def
    by (intro spends_after_warm [OF assms] spends_slots [THEN iffD1] slot_run_finish run_gated_slots [OF assms]) simp_all
  show "spends (paid None (SendReaction peer mid (filter (\<lambda>c. c \<noteq> 65039) body))) s
      (snd (send_reaction t tsk peer mid body s))"
  proof -
    have "slot_run None req s1 (snd (seq (forbid (retried t op req)) (\<lambda>_. ret ()) s1))"
      if "\<not> is_read req" for op req s1
      using retried_slots [OF assms that, of s1 op] snd_seq_trace [of "\<lambda>_. ret ()" "forbid (retried t op req)" s1]
      by (simp add: slot_run_def snd_forbid ret_def)
    then show ?thesis unfolding send_reaction_def by (intro after spends_after_bucket) simp
  qed
qed

section \<open>A concrete Telethon\<close>

text \<open>Replies are served from a list, every await lets one message of dialog 5 arrive where
  \<open>busy\<close> says so, and a flood wait is retried once.\<close>

definition demo_raw :: "int \<Rightarrow> int \<Rightarrow> raw_message" where
  "demo_raw chat i =
     \<lparr>rm_id = Some i, rm_chat_id = Some chat, rm_peer_id = None, rm_sender_id = Some 9, rm_out = False,
      rm_date = Some 0, rm_text = Some [104, 105], rm_message = None, rm_media = False, rm_photo = False, rm_voice = False,
      rm_document = False, rm_file = None, rm_reply_to = None, rm_forward = False, rm_sender = None, rm_grouped_id = None\<rparr>"

definition demo_event :: raw_event where
  "demo_event = \<lparr>rv_chat_id = Some 5, rv_message = demo_raw 5 8, rv_is_private = Some True\<rparr>"

type_synonym demo_world = "(client_error, reply) result list"

fun demo_reply :: "tl_request \<Rightarrow> demo_world \<Rightarrow> (client_error, reply) result \<times> demo_world" where
  "demo_reply req [] = (Inl (OtherError []), [])"
| "demo_reply req (r # rs) = (r, rs)"

definition demo_retry :: "string \<Rightarrow> ('w, reply) coro \<Rightarrow> ('w, reply) coro" where
  "demo_retry op m s = (case m s of (Inl (FloodWait n), s') \<Rightarrow> m s' | r \<Rightarrow> r)"

definition demo_tl :: "bool \<Rightarrow> demo_world telethon" where
  "demo_tl busy =
     \<lparr>tl_call = demo_reply, tl_pages = demo_reply, tl_retry = demo_retry, tl_bucket_enabled = True, tl_bucket = (\<lambda>w. w),
      tl_category = (\<lambda>op. ''send''), tl_gate = (\<lambda>c w. w), tl_lock_wait = (\<lambda>w. w),
      tl_arrives = (\<lambda>w. if busy then [Update (NewMessage demo_event)] else []), tl_now = (\<lambda>w. 0), tl_wall = (\<lambda>w. 0),
      tl_is_file = (\<lambda>p w. True)\<rparr>"

definition demo_state :: "demo_world \<Rightarrow> demo_world cstate" where
  "demo_state w = \<lparr>st_client = new_client 100 30 15, st_world = w, st_trace = []\<rparr>"

lemma slept_idle: "slept (st_world s) [] s = s"
  by (simp add: slept_def)

lemma demo_retry_ok: "retry_ok (demo_tl busy)"
  unfolding retry_ok_def
proof (intro allI)
  fix op and m :: "(demo_world, reply) coro" and s
  show "attempts m s (fst (tl_retry (demo_tl busy) op m s)) (snd (tl_retry (demo_tl busy) op m s))"
  proof (cases "\<exists>n s'. m s = (Inl (FloodWait n), s')")
    case True
    then obtain n s' where m: "m s = (Inl (FloodWait n), s')" by blast
    have "attempts m (slept (st_world s') [] s') (fst (m s')) (snd (m s'))"
      by (simp add: slept_idle attempts.final)
    then have "attempts m s (fst (m s')) (snd (m s'))" by (rule attempts.again [where m = m, OF m])
    then show ?thesis using m by (simp add: demo_tl_def demo_retry_def)
  next
    case False
    then have "demo_retry op m s = m s" by (auto simp: demo_retry_def split: prod.split sum.split client_error.split)
    then show ?thesis by (simp add: demo_tl_def attempts.final)
  qed
qed

lemma pacing_contract_witness:
  "let t = demo_tl False; s = demo_state [Inr RUnit, Inl (FloodWait 3), Inr (RMsg (demo_raw 5 8))]
   in spends (paid (gate_slot t ''telegram_send_message'') (SendMessage 5 [104] None None)) s
        (snd (send_text t 0 5 [104] None None s)) \<and> gate_slot t ''telegram_send_message'' = Some ''send''"
  using pacing_contract [OF demo_retry_ok [of False], where peer = 5 and body = "[104]" and reply_to = None and schedule = None
      and s = "demo_state [Inr RUnit, Inl (FloodWait 3), Inr (RMsg (demo_raw 5 8))]" and tsk = 0]
  by (simp add: Let_def gate_slot_def demo_tl_def)

section \<open>Deletions\<close>

text \<open>The messages of a read back cover the ids, and all of them are of the dialog.\<close>

definition covers :: "int \<Rightarrow> int list \<Rightarrow> raw_message option list \<Rightarrow> bool" where
  "covers peer ids ms \<longleftrightarrow> (\<forall>i\<in>set ids. \<exists>m. Some m \<in> set ms \<and> rm_id m = Some i \<and> message_dialog_id m = Some peer)"

lemma by_id_mem: "od_get (by_id ms) i = Some m \<Longrightarrow> Some m \<in> set ms \<and> rm_id m = Some i"
proof -
  have "od_get (fold (\<lambda>m d. case m of None \<Rightarrow> d | Some r \<Rightarrow> (case rm_id r of None \<Rightarrow> d | Some i \<Rightarrow> od_set i r d)) ms d) i = Some m
      \<Longrightarrow> od_get d i = Some m \<or> Some m \<in> set ms \<and> rm_id m = Some i" for d
  proof (induction ms arbitrary: d)
    case (Cons x ms)
    show ?case using Cons.IH Cons.prems
      by (cases x; cases "rm_id (the x)") (fastforce simp: od_simps split: if_splits)+
  qed simp
  then show "od_get (by_id ms) i = Some m \<Longrightarrow> ?thesis" unfolding by_id_def by fastforce
qed

lemma by_id_wf: "od_wf (by_id ms)"
proof -
  have "od_wf d \<Longrightarrow> od_wf (fold (\<lambda>m d. case m of None \<Rightarrow> d | Some r \<Rightarrow> (case rm_id r of None \<Rightarrow> d | Some i \<Rightarrow> od_set i r d)) ms d)" for d
    by (induction ms arbitrary: d) (auto simp: od_inv split: option.split)
  then show ?thesis by (simp add: by_id_def)
qed

lemma check_found_covers: "check_found peer wanted ms = Inr () \<Longrightarrow> covers peer wanted ms"
proof -
  assume c: "check_found peer wanted ms = Inr ()"
  have m: "filter (\<lambda>i. i \<notin> set (od_keys (by_id ms))) (sort wanted) = []"
    using c by (auto simp: check_found_def Let_def split: if_splits)
  have f: "List.find (\<lambda>p. message_dialog_id (snd p) \<noteq> Some peer) (by_id ms) = None"
    using c m by (auto simp: check_found_def Let_def split: option.splits prod.splits)
  have "\<exists>x. Some x \<in> set ms \<and> rm_id x = Some i \<and> message_dialog_id x = Some peer" if "i \<in> set wanted" for i
  proof -
    have "i \<in> fst ` set (by_id ms)" using that m by (simp add: filter_empty_conv)
    then obtain x where x: "od_get (by_id ms) i = Some x" by (auto simp: od_mem)
    then have "(i, x) \<in> set (by_id ms)" by (rule map_of_SomeD)
    then have "message_dialog_id x = Some peer" using f by (force simp: find_None_iff)
    then show ?thesis using by_id_mem [OF x] by blast
  qed
  then show ?thesis by (simp add: covers_def)
qed

text \<open>What a trace may delete: nothing outside the dialog, nothing that was not read back.\<close>

definition deletes_inside :: "int \<Rightarrow> int list \<Rightarrow> bool \<Rightarrow> effect list \<Rightarrow> bool" where
  "deletes_inside peer ids revoke l \<longleftrightarrow>
     (\<forall>pre req rep post. l = pre @ Rpc req rep # post \<longrightarrow> is_read req
        \<or> req = DeleteMessages peer ids revoke \<and> (revoke \<or> \<not> is_channel_or_megagroup_id peer)
          \<and> (ids = [] \<or> (\<exists>ms. Paged (IterMessages peer (ByIds (remdups ids))) (Inr (RMsgs ms)) \<in> set pre \<and> covers peer ids ms)))"

lemma reads_inside: "list_all (allowed is_read) l \<Longrightarrow> deletes_inside peer ids revoke l"
  unfolding deletes_inside_def by (auto simp: list_all_iff)

lemma slots_requests: "slots g req l \<Longrightarrow> Rpc q r \<in> set l \<Longrightarrow> q = req"
  by (induction g req l rule: slots.induct) auto

lemma trace_iter:
  "iter_messages t peer q s = (r, s') \<Longrightarrow> \<exists>as. st_trace s' = st_trace s @ Paged (IterMessages peer q) r # map Arrived as"
  by (auto simp: iter_messages_def trace_resume split: prod.splits)

lemma validate_read_back:
  assumes "retry_ok t" and "ids \<noteq> []" and v: "validate_delete_messages t tsk peer ids s = (Inr (), s1)"
  shows "\<exists>l ms. st_trace s1 = st_trace s @ l \<and> list_all (allowed is_read) l
    \<and> Paged (IterMessages peer (ByIds (remdups ids))) (Inr (RMsgs ms)) \<in> set l \<and> covers peer ids ms"
proof -
  let ?q = "ByIds (remdups ids)"
  have v': "seq (run_with_flood_wait_retry t ''delete_messages_validate'' (collect t tsk peer ?q))
      (lift (\<lambda>r. case as_messages r of Inl e \<Rightarrow> Inl e | Inr ms \<Rightarrow> check_found peer (remdups ids) ms)) s = (Inr (), s1)"
    using v assms(2) by (simp add: validate_delete_messages_def Let_def)
  then obtain x where r: "run_with_flood_wait_retry t ''delete_messages_validate'' (collect t tsk peer ?q) s = (Inr x, s1)"
    and c: "(case as_messages x of Inl e \<Rightarrow> Inl e | Inr ms \<Rightarrow> check_found peer (remdups ids) ms) = Inr ()"
    by (rule seqE) (auto simp: lift_def)
  obtain ms where x: "x = RMsgs ms" using c by (cases x) auto
  then have cov: "covers peer ids ms" using c check_found_covers [of peer "remdups ids" ms] by (simp add: covers_def)
  obtain s0 where s0: "within_reads is_read s s0" and col: "collect t tsk peer ?q s0 = (Inr x, s1)"
    by (rule reads.retry_last [OF assms(1) reads.keeps_collect [OF assms(1)] r])
  from col obtain y sw where w: "warm_entity t tsk peer s0 = (Inr y, sw)" and i: "iter_messages t peer ?q sw = (Inr x, s1)"
    unfolding collect_def by (rule seqE) simp_all
  have sw: "within_reads is_read s sw"
    using within_trans [OF s0 reads.keepsD [OF reads.keeps_warm [OF assms(1)] w]] .
  then obtain l where l: "st_trace sw = st_trace s @ l" "list_all (allowed is_read) l" by (auto simp: within_reads_def)
  obtain as where a: "st_trace s1 = st_trace sw @ Paged (IterMessages peer ?q) (Inr x) # map Arrived as"
    using trace_iter [OF i] by blast
  show ?thesis using l a cov x
    by (intro exI [of _ "l @ Paged (IterMessages peer ?q) (Inr x) # map Arrived as"] exI [of _ ms])
      (simp add: allowed_arrivals)
qed

lemma keeps_validate: "retry_ok t \<Longrightarrow> reads.keeps (validate_delete_messages t tsk peer ids)"
  by (simp add: validate_delete_messages_def Let_def reads.keeps_pure reads.keeps_seq reads.keeps_retry reads.keeps_collect)

lemma inside_append:
  assumes reads: "list_all (allowed is_read) l0" and sends: "slots None (DeleteMessages peer ids revoke) (outgoing l2)"
    and readback: "ids = [] \<or> (\<exists>ms. Paged (IterMessages peer (ByIds (remdups ids))) (Inr (RMsgs ms)) \<in> set l0 \<and> covers peer ids ms)"
    and rv: "revoke \<or> \<not> is_channel_or_megagroup_id peer"
  shows "deletes_inside peer ids revoke (l0 @ l2)"
  unfolding deletes_inside_def
proof (intro allI impI)
  fix pre req rep post
  assume e: "l0 @ l2 = pre @ Rpc req rep # post"
  show "is_read req \<or> req = DeleteMessages peer ids revoke \<and> (revoke \<or> \<not> is_channel_or_megagroup_id peer)
      \<and> (ids = [] \<or> (\<exists>ms. Paged (IterMessages peer (ByIds (remdups ids))) (Inr (RMsgs ms)) \<in> set pre \<and> covers peer ids ms))"
  proof (cases "length pre < length l0")
    case True
    then have "Rpc req rep \<in> set l0" using e by (metis in_set_conv_nth nth_append nth_append_length)
    then show ?thesis using reads by (auto simp: list_all_iff)
  next
    case longer: False
    then have "set l0 \<subseteq> set pre" using e by (metis append_eq_append_conv_if not_less set_take_subset)
    moreover have "req = DeleteMessages peer ids revoke" if "\<not> is_read req"
    proof -
      have "drop (length l0) (l0 @ l2) = drop (length l0) pre @ Rpc req rep # post" using e longer by simp
      then have "Rpc req rep \<in> set (outgoing l2)" using that by (simp add: outgoing_def)
      then show ?thesis using slots_requests [OF sends] by blast
    qed
    ultimately show ?thesis using rv readback by blast
  qed
qed

text \<open>
  C26: A deletion never leaves its dialog. Whatever Telegram answers and however often the call
  is retried, a delete request names exactly the asked ids in the asked dialog, is never a
  deletion for oneself in a channel or supergroup, and comes after a read back in which
  every one of the ids was found in that very dialog; if the read back says otherwise, no
  delete request is made at all.
\<close>

theorem delete_stays_in_dialog:
  assumes "retry_ok t"
  shows "\<exists>l. st_trace (snd (delete_messages t tsk peer ids revoke s)) = st_trace s @ l \<and> deletes_inside peer ids revoke l"
proof (cases "\<not> revoke \<and> is_channel_or_megagroup_id peer")
  case True
  then show ?thesis by (simp add: delete_messages_def raise_def deletes_inside_def)
next
  case False
  let ?del = "\<lambda>s. seq (retried t ''delete_messages'' (DeleteMessages peer ids revoke)) (\<lambda>_. on_client (invalidate_history peer)) s"
  obtain rv s1 where v: "validate_delete_messages t tsk peer ids s = (rv, s1)" by (cases "validate_delete_messages t tsk peer ids s")
  obtain l1 where l1: "st_trace s1 = st_trace s @ l1" "list_all (allowed is_read) l1"
    using reads.keepsD [OF keeps_validate [OF assms] v] by (auto simp: within_reads_def)
  show ?thesis
  proof (cases rv)
    case (Inl e)
    then have "snd (delete_messages t tsk peer ids revoke s) = s1" using False v by (auto simp: delete_messages_def seq_def)
    then show ?thesis using l1 reads_inside by blast
  next
    case (Inr unit)
    then have v': "validate_delete_messages t tsk peer ids s = (Inr (), s1)" using v by simp
    have d: "st_trace (snd (delete_messages t tsk peer ids revoke s)) = st_trace (snd (?del s1))"
      using False v' by (auto simp: delete_messages_def seq_def)
    obtain l2 where l2: "st_trace (snd (?del s1)) = st_trace s1 @ l2" "slots None (DeleteMessages peer ids revoke) (outgoing l2)"
      using retried_slots [OF assms, of "DeleteMessages peer ids revoke" s1 "''delete_messages''"]
        snd_seq_trace [of "\<lambda>_. on_client (invalidate_history peer)" "retried t ''delete_messages'' (DeleteMessages peer ids revoke)" s1]
      by (auto simp: slot_run_def on_client_def)
    obtain l0 where l0: "st_trace s1 = st_trace s @ l0" "list_all (allowed is_read) l0"
      "ids = [] \<or> (\<exists>ms. Paged (IterMessages peer (ByIds (remdups ids))) (Inr (RMsgs ms)) \<in> set l0 \<and> covers peer ids ms)"
      using l1 validate_read_back [OF assms _ v'] by (cases "ids = []") blast+
    have "deletes_inside peer ids revoke (l0 @ l2)" using False l0(2,3) l2(2) by (intro inside_append) auto
    then show ?thesis using d l0(1) l2(1) by (intro exI [of _ "l0 @ l2"]) simp
  qed
qed

lemma delete_stays_in_dialog_witness:
  "let t = demo_tl True; s = demo_state [Inr RUnit, Inr (RMsgs [Some (demo_raw 5 8), Some (demo_raw 6 9)])]
   in (\<exists>l. st_trace (snd (delete_messages t 0 5 [8, 9] True s)) = st_trace s @ l \<and> deletes_inside 5 [8, 9] True l)"
  using delete_stays_in_dialog [OF demo_retry_ok] by (simp add: Let_def)

section \<open>Cached pages\<close>

text \<open>What an invalidation does to a key some coroutine is fetching.\<close>

lemma invalidate_if_view:
  assumes "k \<in> fst ` set (tc_locks c)"
  shows "tc_locks (invalidate_if p c) = tc_locks c" "tc_maxsize (invalidate_if p c) = tc_maxsize c"
    "epoch_of (invalidate_if p c) k = epoch_of c k + (if p k then 1 else 0)"
    "od_wf (tc_store c) \<Longrightarrow> od_wf (tc_store (invalidate_if p c))"
proof -
  let ?ks = "filter p (remdups (od_keys (tc_store c) @ od_keys (tc_locks c) @ od_keys (tc_epochs c)))"
  have v: "tc_locks (invalidate_if p c) = tc_locks c \<and> tc_maxsize (invalidate_if p c) = tc_maxsize c
      \<and> tc_store (invalidate_if p c) = fold od_pop ?ks (tc_store c)
      \<and> epoch_of (invalidate_if p c) k = epoch_of c k + (if k \<in> set ?ks then 1 else 0)"
    using fold_invalidate_view [of ?ks c k] assms by (simp add: invalidate_if_def Let_def)
  moreover have "k \<in> set ?ks \<longleftrightarrow> p k" using assms by auto
  ultimately show "tc_locks (invalidate_if p c) = tc_locks c" "tc_maxsize (invalidate_if p c) = tc_maxsize c"
    "epoch_of (invalidate_if p c) k = epoch_of c k + (if p k then 1 else 0)" by simp_all
  show "od_wf (tc_store c) \<Longrightarrow> od_wf (tc_store (invalidate_if p c))" using v fold_od_pop_wf by auto
qed

lemma invalidate_if_store:
  "od_get (tc_store (invalidate_if p c)) k = (if p k then None else od_get (tc_store c) k)"
proof -
  let ?ks = "filter p (remdups (od_keys (tc_store c) @ od_keys (tc_locks c) @ od_keys (tc_epochs c)))"
  have "tc_store (invalidate_if p c) = fold od_pop ?ks (tc_store c)"
    using fold_invalidate_view [of ?ks c k] by (simp add: invalidate_if_def Let_def)
  moreover have "k \<notin> fst ` set (tc_store c) \<Longrightarrow> od_get (tc_store c) k = None" by (simp add: map_of_eq_None_iff)
  ultimately show ?thesis by (auto simp: fold_od_pop)
qed

lemma invalidate_all_view:
  assumes "k \<in> fst ` set (tc_locks c)"
  shows "tc_locks (invalidate None c) = tc_locks c \<and> tc_maxsize (invalidate None c) = tc_maxsize c
    \<and> tc_store (invalidate None c) = [] \<and> epoch_of (invalidate None c) k = epoch_of c k + 1"
proof -
  let ?ks = "remdups (od_keys (tc_epochs c) @ od_keys (tc_locks c))"
  have "k \<in> set ?ks" using assms by simp
  then show ?thesis using fold_bump_view [of ?ks c k]
    by (simp add: invalidate_def epoch_of_def)
qed

text \<open>The cache of a key under fetch: its lock is there, it is not stored.\<close>

definition fetching :: "int \<times> int \<times> int \<Rightarrow> (int \<times> int \<times> int, message list) ttl_cache \<Rightarrow> bool" where
  "fetching k c \<longleftrightarrow> k \<in> fst ` set (tc_locks c) \<and> od_get (tc_store c) k = None \<and> od_wf (tc_store c) \<and> 0 < tc_maxsize c"

lemma hist_arrive_view:
  assumes "fetching k c"
  shows "fetching k (hist_arrive a c) \<and> tc_locks (hist_arrive a c) = tc_locks c
    \<and> epoch_of (hist_arrive a c) k = epoch_of c k + (if touches (fst k) a then 1 else 0)"
proof -
  have l: "k \<in> fst ` set (tc_locks c)" using assms by (simp add: fetching_def)
  have inv: "fetching k (invalidate_if p c) \<and> tc_locks (invalidate_if p c) = tc_locks c
      \<and> epoch_of (invalidate_if p c) k = epoch_of c k + (if p k then 1 else 0)" for p
    using assms invalidate_if_view [OF l, of p] by (simp add: fetching_def invalidate_if_store)
  show ?thesis
  proof (cases a)
    case (Update upd)
    show ?thesis
    proof (cases upd)
      case (Deleted d ids)
      then show ?thesis using Update inv invalidate_all_view [OF l] assms
        by (cases d) (auto simp: fetching_def)
    qed (use Update inv assms in \<open>auto\<close>)
  qed (use inv in auto)
qed

lemma hist_effects_view:
  assumes "fetching k c"
  shows "fetching k (fold hist_effect l c) \<and> tc_locks (fold hist_effect l c) = tc_locks c
    \<and> epoch_of c k \<le> epoch_of (fold hist_effect l c) k
    \<and> (epoch_of (fold hist_effect l c) k = epoch_of c k \<longleftrightarrow> (\<forall>a. Arrived a \<in> set l \<longrightarrow> \<not> touches (fst k) a))"
  using assms
proof (induction l arbitrary: c)
  case (Cons ef l)
  show ?case
  proof (cases ef)
    case (Arrived a)
    note h = hist_arrive_view [OF Cons.prems, of a]
    show ?thesis using h Cons.IH [of "hist_arrive a c"] Arrived by (cases "touches (fst k) a") auto
  qed (use Cons.IH [OF Cons.prems] in auto)
qed simp

lemma commit_fetching:
  assumes "fetching k c"
  shows "map_option fst (od_get (tc_store (gof_commit now k e v c)) k) = (if epoch_of c k = e then Some v else None)"
  using assms by (simp add: commit_store cache_set_stored fetching_def)

text \<open>A miss of an idle key, up to the fetch.\<close>

lemma miss_fetching:
  assumes "fst (cache_get now k c) = None" and "od_get (tc_locks c) k = None" and "od_wf (tc_store c)" and "0 < tc_maxsize c"
  shows "\<exists>c1 c2. gof_enter now k c = (None, c1) \<and> gof_locked tsk now k c1 = (Inr (epoch_of c2 k), c2) \<and> fetching k c2"
proof -
  have m: "fst (gof_enter now k c) = None"
    using assms(1) by (auto simp: gof_enter_def Let_def split: prod.splits option.splits)
  then obtain c1 where e: "gof_enter now k c = (None, c1)" by (cases "gof_enter now k c") auto
  have n: "od_get (tc_store c1) k = None" using cache_get_miss [OF assms(1)] enter_view(1) [of now k c] e by simp
  let ?c = "gof_owner (Some tsk) k c1"
  have g: "cache_get now k ?c = (None, ?c)" using n by (simp add: cache_get_def cache_view)
  have "k \<in> fst ` set (tc_locks ?c)" using lk_enter(2) [OF m] e by (simp add: locks_owner)
  moreover have "od_wf (tc_store c1)"
    using cache_get_store [of now k c] enter_view(1) [of now k c] e assms(3) by (auto simp: od_inv)
  moreover have "0 < tc_maxsize c1" using enter_view(2) [of now k c] e assms(4) by simp
  ultimately have "fetching k ?c" using n by (simp add: fetching_def cache_view)
  then show ?thesis using e g by (intro exI [of _ c1] exI [of _ ?c]) (simp add: gof_locked_def)
qed


lemma world_resume [simp]: "st_world (resume t ef w s) = w"
  by (simp add: resume_def)

lemma world_store [simp]: "st_world (store_cache put c s) = st_world s"
  by (simp add: store_cache_def)

definition demo_page :: demo_world where
  "demo_page = [Inr RUnit, Inr (RMsgs [Some (demo_raw 5 8)])]"

lemma demo_history:
  "\<exists>ms s'. history (demo_tl busy) 0 5 50 0 False (demo_state demo_page) = (Inr ms, s')"
  by (simp add: demo_page_def history_def cached_fetch_def demo_state_def demo_tl_def new_client_def new_cache_def gof_enter_def
    cache_get_def gof_locked_def gof_owner_def lk_def Let_def fetch_history_def seq_def put_history_def
    run_with_flood_wait_retry_def demo_retry_def collect_def warm_entity_def rpc_def iter_messages_def lift_def
    to_history_def to_message_opt_def to_message_def demo_raw_def store_cache_def)


section \<open>Writes and the cache\<close>

definition forgotten :: "int \<Rightarrow> 'w cstate \<Rightarrow> bool" where
  "forgotten peer s \<longleftrightarrow> (\<forall>limit offset_id. od_get (tc_store (cl_history (st_client s))) (peer, limit, offset_id) = None)"

lemma forget_one: "od_get (tc_store (cl_history (invalidate_history p cl))) (q, k) =
    (if q = p then None else od_get (tc_store (cl_history cl)) (q, k))"
  by (simp add: invalidate_history_def invalidate_if_store)

lemma forget_fold: "od_get (tc_store (cl_history (fold invalidate_history ps cl))) (q, k) =
    (if q \<in> set ps then None else od_get (tc_store (cl_history cl)) (q, k))"
  by (induction ps arbitrary: cl) (auto simp: forget_one)

lemma finish_forgets: "finish_write ps f y s = (r, s') \<Longrightarrow> p \<in> set ps \<Longrightarrow> forgotten p s'"
  by (auto simp: finish_write_def seq_def on_client_def lift_def forgotten_def forget_fold)

lemma seq_result:
  assumes "seq m f s = (Inr x, s')" and "\<And>y s1. f y s1 = (Inr x, s') \<Longrightarrow> P"
  shows P
  using assms(1) by (rule seqE) (auto dest: assms(2))

text \<open>
  Our own writes show at once: when a text, a file, an edit, a forward or a deletion has
  succeeded, the cache holds no page of the dialog it changed (of neither dialog, for a
  forward), whatever arrived meanwhile, so the next \<open>history\<close> reads Telegram again.
\<close>

theorem writes_forget_pages:
  "(fst (send_text t tsk peer body reply_to schedule s) = Inr m \<longrightarrow> forgotten peer (snd (send_text t tsk peer body reply_to schedule s)))
   \<and> (fst (send_media t tsk peer path caption voice video doc s) = Inr m \<longrightarrow>
        forgotten peer (snd (send_media t tsk peer path caption voice video doc s)))
   \<and> (fst (edit_text t tsk peer mid body s) = Inr m \<longrightarrow> forgotten peer (snd (edit_text t tsk peer mid body s)))
   \<and> (fst (forward t tsk from ids peer s) = Inr ms \<longrightarrow>
        forgotten peer (snd (forward t tsk from ids peer s)) \<and> forgotten from (snd (forward t tsk from ids peer s)))
   \<and> (fst (delete_messages t tsk peer ids revoke s) = Inr () \<longrightarrow> forgotten peer (snd (delete_messages t tsk peer ids revoke s)))"
proof -
  have a: "forgotten peer s'" if "send_text t tsk peer body reply_to schedule s = (Inr m, s')" for s'
    using that unfolding send_text_def by (elim seq_result) (simp add: finish_forgets)
  have b: "forgotten peer s'" if "edit_text t tsk peer mid body s = (Inr m, s')" for s'
    using that unfolding edit_text_def by (elim seq_result) (simp add: finish_forgets)
  have c: "forgotten peer s'" if "send_media t tsk peer path caption voice video doc s = (Inr m, s')" for s'
    using that unfolding send_media_def
      by (cases "tl_is_file t path (st_world s)") (auto simp: raise_def finish_forgets elim!: seq_result)
  have d: "forgotten peer s'" if "forward t tsk from ids peer s = (Inr ms, s')" for s'
    using that unfolding forward_def by (elim seq_result) (simp add: finish_forgets)
  have d2: "forgotten from s'" if "forward t tsk from ids peer s = (Inr ms, s')" for s'
    using that unfolding forward_def by (elim seq_result) (simp add: finish_forgets)
  have e: "forgotten peer s'" if "delete_messages t tsk peer ids revoke s = (Inr (), s')" for s'
    using that unfolding delete_messages_def
      by (cases "\<not> revoke \<and> is_channel_or_megagroup_id peer")
        (auto simp: raise_def on_client_def forgotten_def forget_one elim!: seq_result)
  show ?thesis by (intro conjI impI) (metis prod.collapse a b c d d2 e)+
qed

lemma writes_forget_pages_witness:
  "\<exists>m. fst (send_text (demo_tl True) 0 5 [104] None None (demo_state [Inr RUnit, Inr (RMsg (demo_raw 5 8))])) = Inr m
    \<and> forgotten 5 (snd (send_text (demo_tl True) 0 5 [104] None None (demo_state [Inr RUnit, Inr (RMsg (demo_raw 5 8))])))"
proof -
  let ?s = "demo_state [Inr RUnit, Inr (RMsg (demo_raw 5 8))]"
  have "\<exists>m. fst (send_text (demo_tl True) 0 5 [104] None None ?s) = Inr m"
    by (simp add: send_text_def seq_def demo_tl_def demo_state_def warm_entity_def rpc_def bucket_acquire_def forbid_def
      run_gated_def run_with_flood_wait_retry_def demo_retry_def gate_acquire_def Let_def finish_write_def on_client_def
      lift_def sent_message_def to_message_def demo_raw_def)
  then show ?thesis using writes_forget_pages [THEN conjunct1, THEN mp] by blast
qed

section \<open>Event streams\<close>

text \<open>The events of a stretch of updates as the subscribers of a stream should see them: an
  update Telegram sent without a date is logged and skipped.\<close>

fun incoming_of :: "tg_update \<Rightarrow> incoming_event option" where
  "incoming_of (NewMessage ev) =
     (case to_message (or_zero (rv_chat_id ev)) (rv_message ev) of
        Inl _ \<Rightarrow> None
      | Inr m \<Rightarrow> Some \<lparr>ie_dialog_id = or_zero (rv_chat_id ev), ie_message = m, ie_album_id = rm_grouped_id (rv_message ev)\<rparr>)"
| "incoming_of _ = None"

fun from_private :: "tg_update \<Rightarrow> bool" where
  "from_private (NewMessage ev) \<longleftrightarrow> rv_is_private ev \<noteq> Some False"
| "from_private _ \<longleftrightarrow> False"

fun outgoing_of :: "tg_update \<Rightarrow> outgoing_event option" where
  "outgoing_of (OutMessage ev) =
     (case to_message (or_zero (rv_chat_id ev)) (rv_message ev) of
        Inl _ \<Rightarrow> None | Inr m \<Rightarrow> Some \<lparr>oe_dialog_id = or_zero (rv_chat_id ev), oe_message = m\<rparr>)"
| "outgoing_of _ = None"

fun deletion_of :: "tg_update \<Rightarrow> messages_deleted_event option" where
  "deletion_of (Deleted c ids) = Some \<lparr>de_chat_id = c, de_message_ids = ids\<rparr>"
| "deletion_of _ = None"

text \<open>The reaction a removal of the last one leaves is none at all.\<close>

fun reaction_of :: "tg_update \<Rightarrow> reaction_event option" where
  "reaction_of (Reaction p m (Some r)) =
     (if rr_recent r = [] \<and> rr_results r = 0 then None
      else Some \<lparr>rx_dialog_id = or_zero p, rx_message_id = or_zero m,
             rx_emoticon = (if rr_recent r = [] then None else hd (rr_recent r)), rx_actor_id = None\<rparr>)"
| "reaction_of _ = None"

definition events :: "(tg_update \<Rightarrow> 'e option) \<Rightarrow> tg_update list \<Rightarrow> 'e list" where
  "events f us = List.map_filter f us"

lemma events_Cons: "events f (x # us) = (case f x of None \<Rightarrow> events f us | Some e \<Rightarrow> e # events f us)"
  by (simp add: events_def map_filter_def split: option.split)

lemma events_Nil: "events f [] = []"
  by (simp add: events_def map_filter_def)

lemma fold_publish_stream:
  assumes "\<And>x cl. get (handle_update x cl) = (case f x of None \<Rightarrow> get cl | Some e \<Rightarrow> publish e (get cl))"
  shows "get (fold handle_update us cl) = fold publish (events f us) (get cl)"
  by (induction us arbitrary: cl) (auto simp: events_Nil events_Cons assms split: option.split)

lemmas handler_defs = on_new_message_def on_outgoing_message_def on_deleted_def on_chat_action_update_def
  on_message_read_def on_reaction_def invalidate_history_def Let_def

lemma stream_all: "cl_bus_all (handle_update x cl) = (case incoming_of x of None \<Rightarrow> cl_bus_all cl | Some e \<Rightarrow> publish e (cl_bus_all cl))"
  by (cases x) (auto simp: handler_defs split: sum.split option.split)

lemma stream_private: "cl_bus (handle_update x cl) =
    (case (if from_private x then incoming_of x else None) of None \<Rightarrow> cl_bus cl | Some e \<Rightarrow> publish e (cl_bus cl))"
  by (cases x) (auto simp: handler_defs split: sum.split option.split)

lemma stream_out: "cl_bus_out (handle_update x cl) = (case outgoing_of x of None \<Rightarrow> cl_bus_out cl | Some e \<Rightarrow> publish e (cl_bus_out cl))"
  by (cases x) (auto simp: handler_defs split: sum.split option.split)

lemma stream_deleted: "cl_bus_deleted (handle_update x cl) =
    (case deletion_of x of None \<Rightarrow> cl_bus_deleted cl | Some e \<Rightarrow> publish e (cl_bus_deleted cl))"
  by (cases x) (auto simp: handler_defs split: sum.split option.split)

lemma stream_reactions: "cl_bus_reactions (handle_update x cl) =
    (case reaction_of x of None \<Rightarrow> cl_bus_reactions cl | Some e \<Rightarrow> publish e (cl_bus_reactions cl))"
proof (cases x)
  case (Reaction p m r)
  then show ?thesis
    by (cases r) (auto simp: handler_defs is_reaction_cleared_def recent_emoticon_def split: list.split)
qed (auto simp: handler_defs split: sum.split option.split)

lemma events_private: "events (\<lambda>x. if from_private x then incoming_of x else None) us = events incoming_of (filter from_private us)"
  by (induction us) (auto simp: events_Nil events_Cons split: option.split)

lemma events_subseq: "subseq (events f (filter p us)) (events f us)"
  by (induction us) (auto simp: events_Nil events_Cons split: option.split)

text \<open>
  Each stream carries exactly its events, in order, whatever else arrives between them: every
  incoming message reaches the stream of all chats, the private stream the agent listens to
  is the part of it that does not come from groups and channels, and the removal of a last
  reaction is no reaction. An update that cannot be mapped costs the later ones nothing.
\<close>

theorem streams_exact:
  "cl_bus_all (fold handle_update us cl) = fold publish (events incoming_of us) (cl_bus_all cl)
   \<and> cl_bus (fold handle_update us cl) = fold publish (events incoming_of (filter from_private us)) (cl_bus cl)
   \<and> subseq (events incoming_of (filter from_private us)) (events incoming_of us)
   \<and> cl_bus_out (fold handle_update us cl) = fold publish (events outgoing_of us) (cl_bus_out cl)
   \<and> cl_bus_deleted (fold handle_update us cl) = fold publish (events deletion_of us) (cl_bus_deleted cl)
   \<and> cl_bus_reactions (fold handle_update us cl) = fold publish (events reaction_of us) (cl_bus_reactions cl)"
  unfolding events_private [symmetric]
  using events_subseq [of incoming_of from_private us]
  by (auto simp: events_private intro!: fold_publish_stream [of cl_bus_all, OF stream_all] fold_publish_stream [of cl_bus_out, OF stream_out]
    fold_publish_stream [of cl_bus_deleted, OF stream_deleted] fold_publish_stream [of cl_bus_reactions, OF stream_reactions]
    fold_publish_stream [of cl_bus, OF stream_private, unfolded events_private])

section \<open>Errors\<close>

text \<open>Every rights rejection of a send becomes a \<open>SendForbidden\<close> with a text, whatever Telegram
  said; every other error passes unchanged.\<close>

lemma forbidden_message_text: "forbidden_message t \<noteq> [] \<and> trimmed space_cp (forbidden_message t)"
proof -
  have "trimmed space_cp read_only_text" by (simp add: trimmed_def read_only_text_def u_def space_cp_def)
  moreover have "read_only_text \<noteq> []" by (simp add: read_only_text_def u_def)
  ultimately show ?thesis by (simp add: forbidden_message_def Let_def trimmed_strip)
qed

lemma forbid_errors:
  "fst (forbid m s) = Inl e \<Longrightarrow> rights_error e = None \<and>
    (fst (m s) = Inl e \<or> (\<exists>x t. fst (m s) = Inl x \<and> rights_error x = Some t \<and> e = SendForbidden (forbidden_message t)))"
  by (auto simp: forbid_def split: sum.splits prod.splits option.splits)

lemma can_post_to_open:
  "fst (can_post_to t tsk d s) =
    (case fst (dialogs t tsk False None s) of
       Inr ds \<Rightarrow> Inr (can_send_in ds d) | Inl e \<Rightarrow> if e = Cancelled then Inl Cancelled else Inr True)"
  by (auto simp: can_post_to_def split: prod.split sum.split client_error.split)

lemma ensure_handler_once: "ensure_handler (ensure_handler cl) = ensure_handler cl"
  by (simp add: ensure_handler_def)

end
