(* ===== verification/Env_Layers.thy ===== *)
theory Env_Layers
  imports Config_Files Names_Langs
begin

text \<open>
  \<open>src/tg_messenger/cli/main.py\<close>, the start of every command: the layering of the \<open>.env\<close>
  files into the process environment (\<open>_apply_dotenv_source\<close>, \<open>_load_dotenv\<close>), the choice of
  the profile (\<open>_resolve_profile\<close>, \<open>_effective_session\<close>), the warning about the send rate, and
  \<open>core/logsetup.py\<close>'s log file. The environment is a map, the files are read through
  \<open>files\<close> (a path's content, \<open>None\<close> where there is none), \<open>expand\<close> is the expansion of
  \<open>~\<close> and \<open>$VAR\<close> under an environment.
\<close>

section \<open>One source\<close>

type_synonym env = "string \<Rightarrow> string option"

definition creds_pair :: "string list" where
  "creds_pair = [''TG_API_ID'', ''TG_API_HASH'']"

definition filled :: "string option \<Rightarrow> bool" where
  "filled v \<longleftrightarrow> strip (case v of None \<Rightarrow> [] | Some s \<Rightarrow> s) \<noteq> []"

definition setdefault :: "string \<Rightarrow> string \<Rightarrow> env \<Rightarrow> env" where
  "setdefault k v env = (if env k = None then env(k \<mapsto> v) else env)"

definition apply_dotenv_source :: "(string, string) odict \<Rightarrow> env \<Rightarrow> env" where
  "apply_dotenv_source parsed env =
     (let source_has_pair = list_all (\<lambda>k. filled (od_get parsed k)) creds_pair;
          env_pair_empty = list_all (\<lambda>k. env k = None) creds_pair;
          env1 = (if env_pair_empty \<and> source_has_pair
                  then fold (\<lambda>k e. e(k := od_get parsed k)) creds_pair env else env)
      in fold (\<lambda>(k, v) e. if k \<in> set creds_pair then e else setdefault k v e) parsed env1)"

section \<open>All sources\<close>

record disk =
  dk_files :: "string \<Rightarrow> string option"
  dk_default :: dir_state
  dk_legacy :: dir_state

record roots =
  rt_expand :: "env \<Rightarrow> string \<Rightarrow> string"
  rt_default_home :: string
  rt_legacy_home :: string

definition source_of :: "disk \<Rightarrow> string \<Rightarrow> (string, string) odict" where
  "source_of d path = parse_dotenv (dk_files d path)"

definition env_file :: "string \<Rightarrow> string" where
  "env_file home = home @ ''/.env''"

text \<open>\<open>tg_home()\<close> under an environment, with the memo of the fallback.\<close>

definition home_under :: "roots \<Rightarrow> disk \<Rightarrow> env \<Rightarrow> string option \<Rightarrow> (string, string) result \<times> string option" where
  "home_under r d env cache =
     tg_home (rt_expand r env) (rt_default_home r) (rt_legacy_home r)
       \<lparr>he_raw = env ''TG_HOME'', he_default = dk_default d, he_legacy = dk_legacy d\<rparr> cache"

text \<open>The scan of the home sources for the key that selects the root.\<close>

fun find_redirect :: "disk \<Rightarrow> string list \<Rightarrow> (string \<times> string) option" where
  "find_redirect d [] = None"
| "find_redirect d (c # cs) =
     (case od_get (source_of d c) ''TG_HOME'' of Some v \<Rightarrow> Some (c, v) | None \<Rightarrow> find_redirect d cs)"

fun apply_candidates :: "disk \<Rightarrow> string list \<Rightarrow> string list \<Rightarrow> env \<Rightarrow> env" where
  "apply_candidates d applied [] env = env"
| "apply_candidates d applied (c # cs) env =
     (if c \<in> set applied then apply_candidates d applied cs env
      else apply_candidates d (applied @ [c]) cs (apply_dotenv_source (source_of d c) env))"

text \<open>\<open>_load_dotenv\<close>: \<open>Inl\<close> where a root that is not absolute raises, with what was done to the
  environment until then. \<open>cwd\<close> is the content of the file in the working directory, which
  is named by a string and never equals a candidate.\<close>

definition load_dotenv :: "roots \<Rightarrow> disk \<Rightarrow> string option \<Rightarrow> env \<Rightarrow> (string, unit) result \<times> env \<times> string option" where
  "load_dotenv r d cwd env =
     (let env1 = apply_dotenv_source (parse_dotenv cwd) env;
          fallback = env_file (rt_default_home r);
          scan = (if env1 ''TG_HOME'' \<noteq> None then Inr (None, None)
                  else (case home_under r d env1 None of
                          (Inl e, cache) \<Rightarrow> Inl (e, cache)
                        | (Inr h, cache) \<Rightarrow> Inr (find_redirect d [env_file h, fallback], cache)))
      in (case scan of
            Inl (e, cache) \<Rightarrow> (Inl e, env1, cache)
          | Inr (redirect, cache) \<Rightarrow>
              (let env2 = (case redirect of None \<Rightarrow> env1 | Some (c, v) \<Rightarrow> env1(''TG_HOME'' \<mapsto> v));
                   cache2 = (case redirect of None \<Rightarrow> cache | Some _ \<Rightarrow> None);
                   middle = (case redirect of None \<Rightarrow> [] | Some (c, v) \<Rightarrow> [c])
               in (case home_under r d env2 cache2 of
                     (Inl e, cache3) \<Rightarrow> (Inl e, env2, cache3)
                   | (Inr home, cache3) \<Rightarrow>
                       (Inr (), apply_candidates d [] (env_file home # middle @ [fallback]) env2, cache3)))))"

section \<open>Lemmas\<close>

lemma setdefault_get: "setdefault k v env j = (case env j of Some x \<Rightarrow> Some x | None \<Rightarrow> if j = k then Some v else None)"
  by (auto simp: setdefault_def split: option.split)

lemma fold_setdefault:
  "od_wf parsed \<Longrightarrow> fold (\<lambda>(k, v) e. if k \<in> set creds_pair then e else setdefault k v e) parsed env j =
    (case env j of Some x \<Rightarrow> Some x | None \<Rightarrow> if j \<in> set creds_pair then None else od_get parsed j)"
proof (induction parsed arbitrary: env)
  case (Cons p ps)
  obtain k v where p: "p = (k, v)" by (cases p)
  have "od_wf ps" "k \<notin> fst ` set ps" using Cons.prems p by (auto simp: od_wf_def)
  then show ?case using Cons.IH p
    by (auto simp: setdefault_get map_of_eq_None_iff image_iff split: option.split)
qed (auto split: option.split)

text \<open>The pair of one source, where it holds both halves.\<close>

definition pair_of :: "(string, string) odict \<Rightarrow> (string \<times> string) option" where
  "pair_of parsed =
     (case (od_get parsed ''TG_API_ID'', od_get parsed ''TG_API_HASH'') of
        (Some i, Some h) \<Rightarrow> if strip i \<noteq> [] \<and> strip h \<noteq> [] then Some (i, h) else None
      | _ \<Rightarrow> None)"

definition env_creds :: "env \<Rightarrow> string option \<times> string option" where
  "env_creds env = (env ''TG_API_ID'', env ''TG_API_HASH'')"

lemma creds_mem: "k \<in> set creds_pair \<longleftrightarrow> k = ''TG_API_ID'' \<or> k = ''TG_API_HASH''"
  by (auto simp: creds_pair_def)

lemma apply_other:
  "od_wf parsed \<Longrightarrow> k \<notin> set creds_pair \<Longrightarrow>
    apply_dotenv_source parsed env k = (case env k of Some x \<Rightarrow> Some x | None \<Rightarrow> od_get parsed k)"
  by (simp add: apply_dotenv_source_def Let_def fold_setdefault) (simp add: creds_pair_def)

lemma fold_setdefault_creds:
  "k \<in> set creds_pair \<Longrightarrow> fold (\<lambda>(k, v) e. if k \<in> set creds_pair then e else setdefault k v e) parsed env k = env k"
  by (induction parsed arbitrary: env) (auto simp: setdefault_def)

lemma apply_creds:
  "env_creds (apply_dotenv_source parsed env) =
    (case pair_of parsed of Some (i, h) \<Rightarrow> if env_creds env = (None, None) then (Some i, Some h) else env_creds env
     | None \<Rightarrow> env_creds env)"
proof -
  let ?has = "list_all (\<lambda>k. filled (od_get parsed k)) creds_pair"
  let ?env1 = "if list_all (\<lambda>k. env k = None) creds_pair \<and> ?has then fold (\<lambda>k e. e(k := od_get parsed k)) creds_pair env else env"
  have "apply_dotenv_source parsed env k = ?env1 k" if "k \<in> set creds_pair" for k
    using fold_setdefault_creds [OF that, of parsed ?env1] by (simp add: apply_dotenv_source_def Let_def)
  then have "env_creds (apply_dotenv_source parsed env) = env_creds ?env1"
    by (simp add: env_creds_def creds_mem)
  also have "\<dots> = (if env_creds env = (None, None) \<and> ?has
      then (od_get parsed ''TG_API_ID'', od_get parsed ''TG_API_HASH'') else env_creds env)"
    by (auto simp: env_creds_def creds_pair_def)
  also have "\<dots> = (case pair_of parsed of Some (i, h) \<Rightarrow> if env_creds env = (None, None) then (Some i, Some h) else env_creds env
     | None \<Rightarrow> env_creds env)"
    by (auto simp: pair_of_def creds_pair_def filled_def split: option.splits)
  finally show ?thesis .
qed

lemma source_wf: "od_wf (source_of d c)"
  by (simp add: source_of_def od_wf_parse)

fun first_some :: "'a option list \<Rightarrow> 'a option" where
  "first_some [] = None"
| "first_some (Some x # xs) = Some x"
| "first_some (None # xs) = first_some xs"

lemma first_some_Cons: "first_some (a # xs) = (case a of Some x \<Rightarrow> Some x | None \<Rightarrow> first_some xs)"
  by (cases a) auto

lemma candidates_other:
  "k \<notin> set creds_pair \<Longrightarrow> \<forall>c\<in>set applied. env k = None \<longrightarrow> od_get (source_of d c) k = None \<Longrightarrow>
    apply_candidates d applied cs env k = first_some (env k # map (\<lambda>c. od_get (source_of d c) k) cs)"
proof (induction d applied cs env rule: apply_candidates.induct)
  case (2 d applied c cs env)
  show ?case
  proof (cases "c \<in> set applied")
    case True
    then show ?thesis using 2 by (auto simp: first_some_Cons split: option.split)
  next
    case False
    let ?e = "apply_dotenv_source (source_of d c) env"
    have e: "?e k = (case env k of Some x \<Rightarrow> Some x | None \<Rightarrow> od_get (source_of d c) k)"
      using apply_other [OF source_wf 2(3)] .
    have "\<forall>c'\<in>set (applied @ [c]). ?e k = None \<longrightarrow> od_get (source_of d c') k = None"
      using 2(4) e by (auto split: option.splits)
    from 2(2) [OF False 2(3) this]
    have "apply_candidates d (applied @ [c]) cs ?e k = first_some (?e k # map (\<lambda>c. od_get (source_of d c) k) cs)" .
    then show ?thesis using False e by (auto simp: first_some_Cons split: option.split)
  qed
qed (simp add: first_some_Cons split: option.split)

lemma candidates_creds:
  "\<forall>c\<in>set applied. env_creds env = (None, None) \<longrightarrow> pair_of (source_of d c) = None \<Longrightarrow>
    env_creds (apply_candidates d applied cs env) =
      (if env_creds env \<noteq> (None, None) then env_creds env
       else (case first_some (map (\<lambda>c. pair_of (source_of d c)) cs) of
               None \<Rightarrow> (None, None) | Some (i, h) \<Rightarrow> (Some i, Some h)))"
proof (induction d applied cs env rule: apply_candidates.induct)
  case (2 d applied c cs env)
  let ?e = "apply_dotenv_source (source_of d c) env"
  have e: "env_creds ?e = (case pair_of (source_of d c) of
      Some (i, h) \<Rightarrow> if env_creds env = (None, None) then (Some i, Some h) else env_creds env | None \<Rightarrow> env_creds env)"
    by (rule apply_creds)
  show ?case
  proof (cases "c \<in> set applied")
    case True
    then show ?thesis using 2(1) [OF True 2(3)] 2(3) by (auto simp: first_some_Cons)
  next
    case False
    have "\<forall>c'\<in>set (applied @ [c]). env_creds ?e = (None, None) \<longrightarrow> pair_of (source_of d c') = None"
      using 2(3) e by (auto split: option.splits prod.splits if_splits)
    from 2(2) [OF False this] show ?thesis using False e
      by (auto simp: first_some_Cons split: option.splits prod.splits if_splits)
  qed
qed simp

section \<open>The layers\<close>

lemma home_again:
  assumes "home_under r d e c = (Inr h, c')" and "e' ''TG_HOME'' = e ''TG_HOME''"
    and "\<forall>v. e ''TG_HOME'' = Some v \<longrightarrow> rt_expand r e' (strip v) = rt_expand r e (strip v)"
  shows "fst (home_under r d e' c') = Inr h"
  using assms
  by (cases "e ''TG_HOME''")
    (auto simp: home_under_def tg_home_def resolve_env_dir_def Let_def split: option.splits if_splits)

lemma home_memo: "home_under r d e None = (Inr h, c) \<Longrightarrow> home_under r d e c = (Inr h, c)"
  by (auto simp: home_under_def tg_home_def Let_def split: sum.splits option.splits if_splits)

lemma find_redirect_None: "find_redirect d cs = None \<longleftrightarrow> (\<forall>c\<in>set cs. od_get (source_of d c) ''TG_HOME'' = None)"
  by (induction d cs rule: find_redirect.induct) (auto split: option.splits)

lemma find_redirect_Some:
  "find_redirect d cs = Some (c, v) \<Longrightarrow> c \<in> set cs \<and> od_get (source_of d c) ''TG_HOME'' = Some v"
  by (induction d cs rule: find_redirect.induct) (auto split: option.splits)

lemma home_not_creds: "''TG_HOME'' \<notin> set creds_pair"
  by (simp add: creds_pair_def)

text \<open>The shape of a successful run: the environment and the memo after the root was chosen.\<close>

lemma load_dotenv_cases:
  assumes "load_dotenv r d cwd env = (Inr (), env', cache')"
  obtains home middle env2 cache2 where
    "home_under r d env2 cache2 = (Inr home, cache')"
    "env' = apply_candidates d [] (env_file home # middle @ [env_file (rt_default_home r)]) env2"
    "env2 = apply_dotenv_source (parse_dotenv cwd) env \<and> middle = []
       \<and> (env2 ''TG_HOME'' = None \<longrightarrow> (\<forall>c\<in>{env_file home, env_file (rt_default_home r)}. od_get (source_of d c) ''TG_HOME'' = None))
     \<or> (\<exists>c v. env2 = (apply_dotenv_source (parse_dotenv cwd) env)(''TG_HOME'' \<mapsto> v) \<and> middle = [c]
         \<and> apply_dotenv_source (parse_dotenv cwd) env ''TG_HOME'' = None \<and> od_get (source_of d c) ''TG_HOME'' = Some v)"
proof -
  let ?env1 = "apply_dotenv_source (parse_dotenv cwd) env" and ?fb = "env_file (rt_default_home r)"
  show thesis
  proof (cases "?env1 ''TG_HOME''")
    case (Some x)
    then obtain home where "home_under r d ?env1 None = (Inr home, cache')"
      and "env' = apply_candidates d [] (env_file home # [] @ [?fb]) ?env1"
      using assms by (auto simp: load_dotenv_def Let_def split: sum.splits prod.splits)
    then show thesis using Some that by auto
  next
    case None
    obtain h c0 where h: "home_under r d ?env1 None = (Inr h, c0)"
      using assms None by (auto simp: load_dotenv_def Let_def split: sum.splits prod.splits)
    show thesis
    proof (cases "find_redirect d [env_file h, ?fb]")
      case No: None
      then have "env' = apply_candidates d [] (env_file h # [] @ [?fb]) ?env1" "cache' = c0"
        using assms None h home_memo [OF h] by (simp_all add: load_dotenv_def Let_def del: find_redirect.simps)
      then show thesis using that [of ?env1 c0 h "[]"] home_memo [OF h] No [unfolded find_redirect_None]
        by (simp del: apply_candidates.simps)
    next
      case (Some cv)
      obtain c v where cv: "cv = (c, v)" by (cases cv)
      then obtain home where "home_under r d (?env1(''TG_HOME'' \<mapsto> v)) None = (Inr home, cache')"
        and "env' = apply_candidates d [] (env_file home # [c] @ [?fb]) (?env1(''TG_HOME'' \<mapsto> v))"
        using assms None h Some by (auto simp: load_dotenv_def Let_def split: sum.splits prod.splits)
      then show thesis using that None find_redirect_Some Some cv by blast
    qed
  qed
qed


text \<open>
  C29: The API credentials are never mixed. Whatever the files hold and however the start ends,
  afterwards the pair is the one of the real environment, untouched, even where it is
  incomplete, or both halves come from one and the same file.
\<close>

theorem creds_from_one_source:
  "let env' = fst (snd (load_dotenv r d cwd env))
   in env_creds env' = env_creds env
     \<or> (env_creds env = (None, None)
        \<and> (\<exists>i h src. env_creds env' = (Some i, Some h) \<and> pair_of src = Some (i, h)
            \<and> (src = parse_dotenv cwd \<or> (\<exists>path. src = source_of d path))))"
proof -
  let ?env1 = "apply_dotenv_source (parse_dotenv cwd) env" and ?env' = "fst (snd (load_dotenv r d cwd env))"
  let ?ok = "\<lambda>e. env_creds e = env_creds env \<or> (env_creds env = (None, None)
        \<and> (\<exists>i h src. env_creds e = (Some i, Some h) \<and> pair_of src = Some (i, h)
            \<and> (src = parse_dotenv cwd \<or> (\<exists>path. src = source_of d path))))"
  have home: "env_creds (e(''TG_HOME'' \<mapsto> v)) = env_creds e" for e v by (simp add: env_creds_def)
  have one: "?ok ?env1" using apply_creds [of "parse_dotenv cwd" env] by (auto split: option.splits prod.splits if_splits)
  have mem: "\<exists>c\<in>set cs. pair_of (source_of d c) = Some p" if "first_some (map (\<lambda>c. pair_of (source_of d c)) cs) = Some p" for cs p
    using that by (induction cs) (auto simp: first_some_Cons split: option.splits)
  have all: "?ok (apply_candidates d [] cs e)" if "?ok e" for cs e
    using that candidates_creds [of "[]" e d cs] mem [of cs]
    by (auto split: option.splits prod.splits if_splits)
  have two: "?ok (?env1(''TG_HOME'' \<mapsto> v))" for v using one by (simp only: home)
  have "?env' = ?env1 \<or> (\<exists>v. ?env' = ?env1(''TG_HOME'' \<mapsto> v))
      \<or> (\<exists>cs. ?env' = apply_candidates d [] cs ?env1) \<or> (\<exists>cs v. ?env' = apply_candidates d [] cs (?env1(''TG_HOME'' \<mapsto> v)))"
    (is "?a \<or> ?b \<or> ?c \<or> ?d")
    by (auto simp: load_dotenv_def Let_def simp del: apply_candidates.simps split: sum.split prod.split option.split)
  then consider ?a | ?b | ?c | ?d by blast
  then have "?ok ?env'"
  proof cases
    case 1 then show ?thesis using one by (simp only:)
  next
    case 2 then show ?thesis using two by (elim exE) (simp only:)
  next
    case 3 then show ?thesis using all [OF one] by (elim exE) (simp only:)
  next
    case 4 then show ?thesis using all [OF two] by (elim exE) (simp only:)
  qed
  then show ?thesis by (simp only: Let_def)
qed

text \<open>A home file that names another root.\<close>

definition demo_roots :: roots where
  "demo_roots = \<lparr>rt_expand = (\<lambda>e v. v), rt_default_home = ''/h/.tg'', rt_legacy_home = ''/h/.tg_messenger''\<rparr>"

definition demo_disk :: disk where
  "demo_disk = \<lparr>dk_files = [''/h/.tg/.env'' \<mapsto> serialize_env [(''TG_HOME'', ''/srv'')], ''/srv/.env'' \<mapsto> serialize_env [(''K'', ''new'')]],
     dk_default = NoDir, dk_legacy = NoDir\<rparr>"

lemma slash_srv: "strip ''/srv'' = ''/srv''" "clean_value ''/srv'' = ''/srv''"
  by (simp_all add: clean_value_def strip_by_def lstrip_by_def rstrip_by_def is_space_def space_cp_def is_quote_def)

lemma demo_redirect: "od_get (parse_dotenv (Some (serialize_env [(''TG_HOME'', ''/srv'')]))) ''TG_HOME'' = Some ''/srv''"
proof -
  have "plain_key ''TG_HOME'' \<and> plain_value ''/srv''"
    by (simp add: plain_key_def plain_value_def trimmed_def is_space_def space_cp_def is_linebreak_def)
  then show ?thesis using serialize_parse [of "[(''TG_HOME'', ''/srv'')]" "''TG_HOME''"] by (simp add: slash_srv od_wf_def)
qed

lemma demo_load: "\<exists>env'. load_dotenv demo_roots demo_disk None (\<lambda>_. None) = (Inr (), env', None) \<and> env' ''TG_HOME'' = Some ''/srv''"
proof -
  have "find_redirect demo_disk [''/h/.tg/.env'', ''/h/.tg/.env''] = Some (''/h/.tg/.env'', ''/srv'')"
    using demo_redirect by (simp add: demo_disk_def source_of_def)
  then have "load_dotenv demo_roots demo_disk None (\<lambda>_. None) =
      (Inr (), apply_candidates demo_disk [] [''/srv/.env'', ''/h/.tg/.env'', ''/h/.tg/.env''] [''TG_HOME'' \<mapsto> ''/srv''], None)"
    by (simp add: load_dotenv_def apply_dotenv_source_def parse_dotenv_def creds_pair_def filled_def home_under_def
      tg_home_def resolve_env_dir_def has_data_def env_file_def slash_srv is_abs_def Let_def demo_roots_def
      demo_disk_def [THEN arg_cong [where f = dk_default]] demo_disk_def [THEN arg_cong [where f = dk_legacy]]
      del: find_redirect.simps apply_candidates.simps)
  moreover have "apply_candidates demo_disk [] cs [''TG_HOME'' \<mapsto> ''/srv''] ''TG_HOME'' = Some ''/srv''" for cs
    using candidates_other [OF home_not_creds, of "[]" "[''TG_HOME'' \<mapsto> ''/srv'']" demo_disk cs] by (simp add: first_some_Cons)
  ultimately show ?thesis by blast
qed


text \<open>A home file whose root mentions a variable of the same file: the root is taken literally
  while the sources are chosen, and differs once the variable is set.\<close>

definition var_roots :: roots where
  "var_roots = demo_roots\<lparr>rt_expand := (\<lambda>e v. if v = ''/srv/$X'' then (case e ''X'' of None \<Rightarrow> v | Some x \<Rightarrow> ''/srv/'' @ x) else v)\<rparr>"

definition var_file :: "(string, string) odict" where
  "var_file = [(''TG_HOME'', ''/srv/$X''), (''X'', ''a'')]"

definition var_disk :: disk where
  "var_disk = \<lparr>dk_files = [''/h/.tg/.env'' \<mapsto> serialize_env var_file, ''/srv/a/.env'' \<mapsto> serialize_env [(''K'', ''new'')]],
     dk_default = NoDir, dk_legacy = NoDir\<rparr>"

lemma var_clean: "strip ''/srv/$X'' = ''/srv/$X''" "clean_value ''/srv/$X'' = ''/srv/$X''" "clean_value ''a'' = ''a''" "strip ''a'' = ''a''"
  by (simp_all add: clean_value_def strip_by_def lstrip_by_def rstrip_by_def is_space_def space_cp_def is_quote_def)

lemma var_source: "od_get (source_of var_disk ''/h/.tg/.env'') k = map_option clean_value (od_get var_file k)"
proof -
  have "\<forall>(k, v)\<in>set var_file. plain_key k \<and> plain_value v"
    by (simp add: var_file_def plain_key_def plain_value_def trimmed_def is_space_def space_cp_def is_linebreak_def)
  then show ?thesis using serialize_parse [of var_file k] by (simp add: source_of_def var_disk_def var_file_def od_wf_def)
qed

lemma redirect_variable_splits_root:
  "\<exists>env'. load_dotenv var_roots var_disk None (\<lambda>_. None) = (Inr (), env', None)
    \<and> fst (home_under var_roots var_disk env' None) = Inr ''/srv/a'' \<and> env' ''K'' = None"
proof -
  let ?e = "[''TG_HOME'' \<mapsto> ''/srv/$X'']"
  let ?cs = "[''/srv/$X/.env'', ''/h/.tg/.env'', ''/h/.tg/.env'']"
  have "find_redirect var_disk [''/h/.tg/.env'', ''/h/.tg/.env''] = Some (''/h/.tg/.env'', ''/srv/$X'')"
    by (simp add: var_source) (simp add: var_file_def var_clean)
  then have l: "load_dotenv var_roots var_disk None (\<lambda>_. None) = (Inr (), apply_candidates var_disk [] ?cs ?e, None)"
    by (simp add: load_dotenv_def apply_dotenv_source_def parse_dotenv_def creds_pair_def filled_def home_under_def
      tg_home_def resolve_env_dir_def has_data_def env_file_def var_clean is_abs_def Let_def var_roots_def demo_roots_def
      var_disk_def [THEN arg_cong [where f = dk_default]] var_disk_def [THEN arg_cong [where f = dk_legacy]]
      del: find_redirect.simps apply_candidates.simps)
  have get: "apply_candidates var_disk [] ?cs ?e k = first_some (?e k # map (\<lambda>c. od_get (source_of var_disk c) k) ?cs)"
    if "k \<notin> set creds_pair" for k
    by (rule candidates_other [OF that]) simp
  have none: "od_get (source_of var_disk ''/srv/$X/.env'') k = None" for k
    by (simp add: source_of_def var_disk_def parse_dotenv_def)
  have c: "''X'' \<notin> set creds_pair" "''K'' \<notin> set creds_pair" by (simp_all add: creds_pair_def)
  have "apply_candidates var_disk [] ?cs ?e ''X'' = Some ''a''"
    unfolding get [OF c(1)] by (simp add: none var_source first_some_Cons) (simp add: var_file_def var_clean)
  moreover have "apply_candidates var_disk [] ?cs ?e ''K'' = None"
    unfolding get [OF c(2)] by (simp add: none var_source first_some_Cons) (simp add: var_file_def)
  moreover have "apply_candidates var_disk [] ?cs ?e ''TG_HOME'' = Some ''/srv/$X''"
    unfolding get [OF home_not_creds] by (simp add: first_some_Cons)
  ultimately show ?thesis using l
    by (simp add: home_under_def tg_home_def resolve_env_dir_def is_abs_def Let_def var_clean var_roots_def del: apply_candidates.simps)
qed

section \<open>The profile of a command\<close>

definition require_safe_profile :: "string \<Rightarrow> (string, string) result" where
  "require_safe_profile name =
     (if is_safe_profile_name name then Inr name
      else Inl (''invalid profile name '' @ name))"

text \<open>The numbered menu, asked again until an answer is in range; \<open>answers\<close> are the integers the
  prompt yields one after the other.\<close>

partial_function (option) profile_menu :: "string list \<Rightarrow> (nat \<Rightarrow> int) \<Rightarrow> nat \<Rightarrow> string option" where
  "profile_menu profiles answers i =
     (if 1 \<le> answers i \<and> answers i \<le> int (length profiles) then Some (profiles ! nat (answers i - 1))
      else profile_menu profiles answers (Suc i))"

definition resolve_profile :: "string list \<Rightarrow> bool \<Rightarrow> (nat \<Rightarrow> int) \<Rightarrow> string \<Rightarrow> (string, string) result option" where
  "resolve_profile profiles interactive answers session =
     (if session \<noteq> ''default'' then Some (require_safe_profile session)
      else if length profiles \<le> 1 then Some (Inr (if profiles \<noteq> [] then hd profiles else session))
      else if \<not> interactive then Some (Inl (''multiple profiles ('' @ join '', '' profiles @ '') ''))
      else map_option Inr (profile_menu profiles answers 0))"

text \<open>The global profile wins, then a session given on the command line, then the menu.\<close>

definition effective_session :: "string list \<Rightarrow> bool \<Rightarrow> (nat \<Rightarrow> int) \<Rightarrow> string option \<Rightarrow> bool \<Rightarrow> string \<Rightarrow> (string, string) result option" where
  "effective_session profiles interactive answers profile on_command_line session =
     (case profile of
        Some p \<Rightarrow> if p \<noteq> [] then Some (require_safe_profile p)
                  else if on_command_line then Some (require_safe_profile session)
                  else resolve_profile profiles interactive answers session
      | None \<Rightarrow> if on_command_line then Some (require_safe_profile session)
                else resolve_profile profiles interactive answers session)"

definition valid_choice :: "string list \<Rightarrow> int \<Rightarrow> bool" where
  "valid_choice profiles a \<longleftrightarrow> 1 \<le> a \<and> a \<le> int (length profiles)"

lemma menu_stops:
  "valid_choice profiles (answers (i + n)) \<Longrightarrow> \<forall>j<n. \<not> valid_choice profiles (answers (i + j)) \<Longrightarrow>
    profile_menu profiles answers i = Some (profiles ! nat (answers (i + n) - 1))"
proof (induction n arbitrary: i)
  case 0
  then show ?case by (simp add: profile_menu.simps [of _ _ i] valid_choice_def)
next
  case (Suc n)
  have "\<not> valid_choice profiles (answers i)" using Suc.prems(2) by force
  moreover have "profile_menu profiles answers (Suc i) = Some (profiles ! nat (answers (Suc i + n) - 1))"
    using Suc.prems by (intro Suc.IH) auto
  ultimately show ?case by (auto simp: profile_menu.simps [of _ _ i] valid_choice_def)
qed

lemma menu_picks:
  assumes "profile_menu profiles answers i = Some p"
  shows "(\<exists>j\<ge>i. valid_choice profiles (answers j)) \<and> p \<in> set profiles"
  using assms
proof (rule profile_menu.raw_induct
    [where P = "\<lambda>ps as i p. (\<exists>j\<ge>i. valid_choice ps (as j)) \<and> p \<in> set ps", rotated])
  fix menu ps as i y
  assume ih: "\<And>ps as i y. menu ps as i = Some y \<Longrightarrow> (\<exists>j\<ge>i. valid_choice ps (as j)) \<and> y \<in> set ps"
    and y: "(if 1 \<le> as i \<and> as i \<le> int (length ps) then Some (ps ! nat (as i - 1)) else menu ps as (Suc i)) = Some y"
  show "(\<exists>j\<ge>i. valid_choice ps (as j)) \<and> y \<in> set ps"
  proof (cases "valid_choice ps (as i)")
    case True
    then show ?thesis using y by (auto simp: valid_choice_def)
  next
    case False
    then have "menu ps as (Suc i) = Some y" using y by (auto simp: valid_choice_def split: if_splits)
    then show ?thesis using ih [of ps as "Suc i" y] Suc_leD by blast
  qed
qed

text \<open>
  C30: The profile menu ends exactly when it should: with several profiles on a terminal the
  command goes on if and only if some answer is in range, it takes the first such answer, and
  the profile is the one shown under that number.
\<close>

theorem profile_menu_terminates:
  assumes "1 < length profiles"
  shows "((\<exists>p. resolve_profile profiles True answers ''default'' = Some p) \<longleftrightarrow> (\<exists>j. valid_choice profiles (answers j)))
    \<and> (\<forall>n. valid_choice profiles (answers n) \<and> (\<forall>j<n. \<not> valid_choice profiles (answers j)) \<longrightarrow>
         resolve_profile profiles True answers ''default'' = Some (Inr (profiles ! nat (answers n - 1))))"
proof (intro conjI allI impI)
  have least: "\<exists>n. valid_choice profiles (answers n) \<and> (\<forall>j<n. \<not> valid_choice profiles (answers j))"
    if "valid_choice profiles (answers j)" for j
    using that exists_least_iff [of "\<lambda>n. valid_choice profiles (answers n)"] by blast
  show "(\<exists>p. resolve_profile profiles True answers ''default'' = Some p) \<longleftrightarrow> (\<exists>j. valid_choice profiles (answers j))"
    using assms least menu_stops [of profiles answers 0] menu_picks [of profiles answers 0]
    by (auto simp: resolve_profile_def) blast
  fix n
  assume "valid_choice profiles (answers n) \<and> (\<forall>j<n. \<not> valid_choice profiles (answers j))"
  then show "resolve_profile profiles True answers ''default'' = Some (Inr (profiles ! nat (answers n - 1)))"
    using assms menu_stops [of profiles answers 0 n] by (auto simp: resolve_profile_def)
qed

lemma profile_menu_terminates_witness:
  "(\<exists>p. resolve_profile [''a'', ''b''] True (\<lambda>i. int i) ''default'' = Some p)
    \<and> resolve_profile [''a'', ''b''] True (\<lambda>i. int i) ''default'' = Some (Inr ''a'')"
proof -
  have v: "valid_choice [''a'', ''b''] (int 1)" "\<forall>j<1. \<not> valid_choice [''a'', ''b''] (int j)" by (simp_all add: valid_choice_def)
  have "1 < length [''a'', ''b'']" by simp
  from profile_menu_terminates [OF this, of "\<lambda>i. int i"] v show ?thesis by fastforce
qed

text \<open>A profile taken from the user is canonical, so it names its own session file only.\<close>

lemma effective_session_safe:
  "effective_session profiles interactive answers profile cl session = Some (Inr p) \<Longrightarrow>
    \<forall>q\<in>set profiles. is_safe_profile_name q \<Longrightarrow> is_safe_profile_name ''default'' \<Longrightarrow> is_safe_profile_name p"
proof -
  assume e: "effective_session profiles interactive answers profile cl session = Some (Inr p)"
    and on_disk: "\<forall>q\<in>set profiles. is_safe_profile_name q" and d: "is_safe_profile_name ''default''"
  have safe: "require_safe_profile x = Inr p \<Longrightarrow> is_safe_profile_name p" for x
    by (auto simp: require_safe_profile_def split: if_splits)
  have "resolve_profile profiles interactive answers session = Some (Inr p) \<Longrightarrow> is_safe_profile_name p"
    using on_disk d safe menu_picks by (fastforce simp: resolve_profile_def split: if_splits)
  then show ?thesis using e safe by (auto simp: effective_session_def split: option.splits if_splits)
qed

section \<open>The send rate warning and the log file\<close>

datatype rate_warning = NoWarning | NotANumber | RateOff

definition warn_if_send_rate_off :: "(string \<Rightarrow> real option) \<Rightarrow> string option \<Rightarrow> rate_warning" where
  "warn_if_send_rate_off float_of raw_env =
     (case raw_env of
        None \<Rightarrow> NoWarning
      | Some raw \<Rightarrow>
          (case float_of (if raw = [] then ''20'' else raw) of
             None \<Rightarrow> NotANumber | Some rate \<Rightarrow> if rate \<le> 0 then RateOff else NoWarning))"

definition log_file_name :: "string option \<Rightarrow> string" where
  "log_file_name profile =
     (let safe_profile = (case profile of None \<Rightarrow> ''default'' | Some p \<Rightarrow> if p = [] then ''default'' else sanitize_profile_name p)
      in if safe_profile = ''default'' then ''tg_messenger.log'' else ''tg_messenger_'' @ safe_profile @ ''.log'')"

definition resolve_log_dir :: "(string \<Rightarrow> string) \<Rightarrow> (string, string) result \<Rightarrow> string option \<Rightarrow> string option \<Rightarrow> (string, string) result" where
  "resolve_log_dir expand home var log_dir =
     (case log_dir of
        Some d \<Rightarrow> Inr d
      | None \<Rightarrow>
          (case resolve_env_dir expand var of
             Inl e \<Rightarrow> Inl e
           | Inr (Some d) \<Rightarrow> Inr d
           | Inr None \<Rightarrow> (case home of Inl e \<Rightarrow> Inl e | Inr h \<Rightarrow> Inr (h @ ''/logs''))))"

lemma log_files_apart:
  "is_safe_profile_name p \<Longrightarrow> is_safe_profile_name q \<Longrightarrow> log_file_name (Some p) = log_file_name (Some q) \<Longrightarrow> p = q"
  by (auto simp: log_file_name_def is_safe_profile_name_def Let_def split: if_splits)

end
