(* ===== verification/Commands.thy ===== *)
theory Commands
  imports Models
begin

text \<open>
  \<open>src/tg_messenger/tui/parsing.py\<close> and \<open>tui/format.py\<close>: the commands typed into the composer and
  the pure text helpers of the bubbles. \<open>shlex\<close> is modelled as its \<open>read_token\<close> loop in POSIX
  mode with \<open>whitespace_split\<close> and no comment characters, which is how both uses configure it;
  the pieces of the input it has not consumed are what \<open>lexer.instream\<close> still holds.
  \<open>str.lower\<close> and \<open>unicodedata.normalize\<close> are arguments (Unicode tables).
\<close>

section \<open>shlex\<close>

datatype lex_mode = Blank | InWord | InQuote nat | Escaped "nat option"
datatype lexed = LexError | Lexed "utext option" utext

definition lex_space :: "nat \<Rightarrow> bool" where
  "lex_space c \<longleftrightarrow> c = 32 \<or> c = 9 \<or> c = 13 \<or> c = 10"

definition lex_quote :: "nat \<Rightarrow> bool" where
  "lex_quote c \<longleftrightarrow> c = 39 \<or> c = 34"

abbreviation backslash :: nat where
  "backslash \<equiv> 92"

abbreviation double_quote :: nat where
  "double_quote \<equiv> 34"

text \<open>\<open>read_token\<close>: the mode is \<open>self.state\<close> with \<open>escapedstate\<close> inside \<open>Escaped\<close> (\<open>None\<close> for
  the state \<open>a\<close>), \<open>quoted\<close> and \<open>tok\<close> are the local flag and \<open>self.token\<close>.\<close>

fun read_from :: "lex_mode \<Rightarrow> bool \<Rightarrow> utext \<Rightarrow> utext \<Rightarrow> lexed" where
  "read_from Blank quoted tok [] = Lexed (if \<not> quoted \<and> tok = [] then None else Some tok) []"
| "read_from Blank quoted tok (c # s) =
     (if lex_space c then (if tok \<noteq> [] \<or> quoted then Lexed (Some tok) s else read_from Blank quoted tok s)
      else if c = backslash then read_from (Escaped None) quoted tok s
      else if lex_quote c then read_from (InQuote c) quoted tok s
      else read_from InWord quoted [c] s)"
| "read_from InWord quoted tok [] = Lexed (if \<not> quoted \<and> tok = [] then None else Some tok) []"
| "read_from InWord quoted tok (c # s) =
     (if lex_space c then (if tok \<noteq> [] \<or> quoted then Lexed (Some tok) s else read_from Blank quoted tok s)
      else if lex_quote c then read_from (InQuote c) quoted tok s
      else if c = backslash then read_from (Escaped None) quoted tok s
      else read_from InWord quoted (tok @ [c]) s)"
| "read_from (InQuote q) quoted tok [] = LexError"
| "read_from (InQuote q) quoted tok (c # s) =
     (if c = q then read_from InWord True tok s
      else if c = backslash \<and> q = double_quote then read_from (Escaped (Some q)) True tok s
      else read_from (InQuote q) True (tok @ [c]) s)"
| "read_from (Escaped e) quoted tok [] = LexError"
| "read_from (Escaped e) quoted tok (c # s) =
     (case e of
        None \<Rightarrow> read_from InWord quoted (tok @ [c]) s
      | Some q \<Rightarrow> read_from (InQuote q) quoted
                    (tok @ (if c \<noteq> backslash \<and> c \<noteq> q then [backslash] else []) @ [c]) s)"

definition read_token :: "utext \<Rightarrow> lexed" where
  "read_token s = read_from Blank False [] s"

lemma read_from_shorter: "read_from md quoted tok s = Lexed t rest \<Longrightarrow> length rest \<le> length s"
  by (induction md quoted tok s rule: read_from.induct)
    (auto split: if_splits option.splits)

lemma read_token_shorter: "read_token s = Lexed (Some t) rest \<Longrightarrow> length rest < length s"
  by (cases s) (auto simp: read_token_def split: if_splits dest!: read_from_shorter)

text \<open>\<open>shlex.split\<close>: the tokens until the end of the text, \<open>None\<close> for its \<open>ValueError\<close>. Every
  token consumes at least one character, so the loop ends.\<close>

function shlex_split :: "utext \<Rightarrow> utext list option" where
  "shlex_split s =
     (case read_token s of
        LexError \<Rightarrow> None
      | Lexed None rest \<Rightarrow> Some []
      | Lexed (Some t) rest \<Rightarrow> map_option (Cons t) (shlex_split rest))"
  by pat_completeness auto
termination
  by (relation "measure length") (auto dest: read_token_shorter)

declare shlex_split.simps [simp del]

section \<open>Commands\<close>

definition or_none :: "utext \<Rightarrow> utext option" where
  "or_none s = (if s = [] then None else Some s)"

definition strip_first_token :: "utext \<Rightarrow> utext" where
  "strip_first_token s = (case read_token s of LexError \<Rightarrow> [] | Lexed t rest \<Rightarrow> rest)"

definition parse_media_command :: "utext \<Rightarrow> (utext \<times> utext option) option" where
  "parse_media_command txt =
     (case txt of
        [] \<Rightarrow> None
      | c # rest \<Rightarrow>
          if c \<noteq> 64 then None
          else if ustrip rest = [] then None
          else (case shlex_split rest of
                  None \<Rightarrow> None
                | Some [] \<Rightarrow> None
                | Some (path # _) \<Rightarrow>
                    if path = [] then None else Some (path, or_none (ustrip (strip_first_token rest)))))"

text \<open>\<open>text.split(maxsplit=1)\<close>: the first word, and the text behind it without its leading
  blanks when there is any.\<close>

definition split_first :: "utext \<Rightarrow> utext list" where
  "split_first s =
     (let s1 = dropWhile space_cp s; w = takeWhile (\<lambda>c. \<not> space_cp c) s1;
          rest = dropWhile space_cp (drop (length w) s1)
      in if s1 = [] then [] else if rest = [] then [w] else [w, rest])"

datatype lang_command = SetLang utext | LangAuto | LangOn | LangOff

definition parse_lang_command :: "(utext \<Rightarrow> utext) \<Rightarrow> utext \<Rightarrow> (string, lang_command option) result" where
  "parse_lang_command low txt =
     (case split_first txt of
        [] \<Rightarrow> Inr None
      | w # more_words \<Rightarrow>
          if w \<noteq> u ''/lang'' then Inr None
          else (case more_words of
                  [arg] \<Rightarrow>
                    if ustrip arg = [] then Inl ''usage: /lang CODE|auto|on|off''
                    else (let v = low (ustrip arg)
                          in Inr (Some (if v = u ''auto'' then LangAuto else if v = u ''on'' then LangOn
                                        else if v = u ''off'' then LangOff else SetLang v)))
                | _ \<Rightarrow> Inl ''usage: /lang CODE|auto|on|off''))"

definition parse_tlang_command :: "(utext \<Rightarrow> utext) \<Rightarrow> utext \<Rightarrow> (string, lang_command option) result" where
  "parse_tlang_command low txt =
     (case split_first txt of
        [] \<Rightarrow> Inr None
      | w # more_words \<Rightarrow>
          if w \<noteq> u ''/tlang'' then Inr None
          else (case more_words of
                  [arg] \<Rightarrow>
                    if ustrip arg = [] then Inl ''usage: /tlang CODE|off''
                    else (let v = low (ustrip arg)
                          in Inr (Some (if v = u ''off'' then LangOff else SetLang v)))
                | _ \<Rightarrow> Inl ''usage: /tlang CODE|off''))"

section \<open>Bubble texts\<close>

definition width_ambiguous :: "nat list" where
  "width_ambiguous = [65038, 65039, 8205]"

definition terminal_safe_text :: "(utext \<Rightarrow> utext) \<Rightarrow> utext \<Rightarrow> utext" where
  "terminal_safe_text nfc v =
     (let n = nfc v
      in if \<not> list_ex (\<lambda>c. c \<in> set width_ambiguous) n then n
         else filter (\<lambda>c. c \<notin> set width_ambiguous) n)"

definition bubble_body :: "message \<Rightarrow> utext" where
  "bubble_body m =
     [91] @ u (str_int (ms_id m)) @ [93, 32]
       @ or_default (ms_text m) (u ''<media>'')"

definition message_author_line :: "message \<Rightarrow> bool \<Rightarrow> string option" where
  "message_author_line m show_author = (if show_author then Some (format_author m) else None)"

fun find_close :: "utext \<Rightarrow> utext \<Rightarrow> (utext \<times> utext) option" where
  "find_close acc (c # d # s) = (if c = 93 \<and> d = 32 then Some (rev acc @ [c, d], s) else find_close (c # acc) (d # s))"
| "find_close acc s = None"

definition split_id_prefix :: "utext \<Rightarrow> utext \<times> utext" where
  "split_id_prefix body =
     (if body \<noteq> [] \<and> hd body = 91
      then (case find_close [] body of Some p \<Rightarrow> p | None \<Rightarrow> ([], body))
      else ([], body))"
section \<open>What the lexer reads\<close>

definition lex_plain :: "utext \<Rightarrow> bool" where
  "lex_plain s \<longleftrightarrow> list_all (\<lambda>c. \<not> lex_space c \<and> \<not> lex_quote c \<and> c \<noteq> backslash) s"

definition quote_path :: "utext \<Rightarrow> utext" where
  "quote_path p = [double_quote] @ concat (map (\<lambda>c. if c = double_quote \<or> c = backslash then [backslash, c] else [c]) p) @ [double_quote]"

lemma read_quoted:
  "read_from (InQuote double_quote) True tok (concat (map (\<lambda>c. if c = double_quote \<or> c = backslash then [backslash, c] else [c]) p) @ double_quote # rest)
     = read_from InWord True (tok @ p) rest"
  by (induction p arbitrary: tok) auto

lemma read_quote_path: "read_token (quote_path p @ 32 # rest) = Lexed (Some p) rest"
proof -
  have "read_token (quote_path p @ 32 # rest)
      = read_from (InQuote double_quote) False [] (concat (map (\<lambda>c. if c = double_quote \<or> c = backslash then [backslash, c] else [c]) p) @ double_quote # 32 # rest)"
    by (simp add: read_token_def quote_path_def lex_space_def lex_quote_def)
  also have "\<dots> = read_from (InQuote double_quote) True [] (concat (map (\<lambda>c. if c = double_quote \<or> c = backslash then [backslash, c] else [c]) p) @ double_quote # 32 # rest)"
    by (cases p) auto
  also have "\<dots> = Lexed (Some p) rest" by (simp add: read_quoted lex_space_def)
  finally show ?thesis .
qed

lemma read_plain: "lex_plain p \<Longrightarrow> tok \<noteq> [] \<Longrightarrow> read_from InWord False tok (p @ 32 # rest) = Lexed (Some (tok @ p)) rest"
  by (induction p arbitrary: tok) (auto simp: lex_plain_def lex_space_def)

lemma read_plain_path: "lex_plain p \<Longrightarrow> p \<noteq> [] \<Longrightarrow> read_token (p @ 32 # rest) = Lexed (Some p) rest"
  using read_plain [of "tl p" "[hd p]" rest] by (cases p) (auto simp: read_token_def lex_plain_def)

lemma media_by_token:
  assumes "read_token rest = Lexed (Some p) tail" and "ustrip rest \<noteq> []"
  shows "parse_media_command (64 # rest)
    = (if p = [] \<or> shlex_split tail = None then None else Some (p, or_none (ustrip tail)))"
  using assms
  by (auto simp: parse_media_command_def strip_first_token_def shlex_split.simps [of rest] split: option.split)

lemma dropWhile_all: "(\<forall>c\<in>set (dropWhile p s). p c) \<longleftrightarrow> (\<forall>c\<in>set s. p c)"
  by (induction s) auto

lemma strip_all_space: "strip_by p s = [] \<longleftrightarrow> (\<forall>c\<in>set s. p c)"
  using dropWhile_all [of p s] by (simp add: strip_by_def rstrip_by_def lstrip_by_def)

text \<open>
  C34: A media command is read back as it was written: a path in double quotes, its own quotes
  and backslashes escaped, comes out unchanged whatever characters it holds, and the caption
  is the text behind it without its outer blanks. The one condition, forced by the lexer
  that also reads the caption, is that the caption splits.
\<close>

theorem quoted_media_roundtrip:
  "parse_media_command (64 # quote_path path @ 32 # caption)
    = (if path = [] \<or> shlex_split caption = None then None else Some (path, or_none (ustrip caption)))"
proof (rule media_by_token [OF read_quote_path])
  show "ustrip (quote_path path @ 32 # caption) \<noteq> []"
    by (simp add: strip_all_space quote_path_def) (simp add: space_cp_def)
qed

text \<open>Over text without double quotes and backslashes the lexer fails on an odd number of apostrophes.\<close>

definition apostrophes :: "utext \<Rightarrow> nat" where
  "apostrophes s = length (filter (\<lambda>c. c = 39) s)"

definition no_escapes :: "utext \<Rightarrow> bool" where
  "no_escapes s \<longleftrightarrow> backslash \<notin> set s \<and> double_quote \<notin> set s"

definition parity_right :: "nat \<Rightarrow> utext \<Rightarrow> lexed \<Rightarrow> bool" where
  "parity_right n s r \<longleftrightarrow>
     (case r of LexError \<Rightarrow> odd (n + apostrophes s)
      | Lexed t rest \<Rightarrow> no_escapes rest \<and> (even (n + apostrophes s) \<longleftrightarrow> even (apostrophes rest)))"

definition open_quotes :: "lex_mode \<Rightarrow> nat" where
  "open_quotes md = (if md = InQuote 39 then 1 else 0)"

lemma apostrophes_Cons [simp]: "apostrophes (c # s) = (if c = 39 then Suc (apostrophes s) else apostrophes s)"
  by (simp add: apostrophes_def)

lemma parity_Cons:
  "parity_right (n + (if c = 39 then 1 else 0)) s r \<Longrightarrow> parity_right n (c # s) r"
  by (auto simp: parity_right_def split: lexed.splits)

lemma parity_double: "parity_right 2 s r = parity_right 0 s r"
  by (auto simp: parity_right_def split: lexed.splits)

lemma read_parity:
  "no_escapes s \<Longrightarrow> md \<in> {Blank, InWord, InQuote 39} \<Longrightarrow> parity_right (open_quotes md) s (read_from md quoted tok s)"
proof (induction s arbitrary: md quoted tok)
  case Nil
  then show ?case by (auto simp: parity_right_def open_quotes_def apostrophes_def no_escapes_def)
next
  case (Cons c s)
  then have c: "c \<noteq> backslash" "c \<noteq> double_quote" and s: "no_escapes s" by (auto simp: no_escapes_def)
  have ih: "parity_right (open_quotes md') s (read_from md' q t s)" if "md' \<in> {Blank, InWord, InQuote 39}" for md' q t
    by (rule Cons.IH [OF s that])
  have stop: "parity_right 0 s (Lexed t s)" for t using s by (simp add: parity_right_def)
  have quote: "lex_quote c \<longleftrightarrow> c = 39" "lex_quote 39" "\<not> lex_space 39" using c by (auto simp: lex_quote_def lex_space_def)
  note one = ih [of Blank, simplified open_quotes_def, simplified] ih [of InWord, simplified open_quotes_def, simplified]
    ih [of "InQuote 39", simplified open_quotes_def, simplified]
  show ?case
    using Cons.prems(2) c one stop
    by (intro parity_Cons) (auto simp: open_quotes_def quote parity_double numeral_2_eq_2 [symmetric])
qed

lemma read_end: "read_from md quoted tok s = Lexed None rest \<Longrightarrow> rest = []"
  by (induction md quoted tok s rule: read_from.induct) (auto split: if_splits option.splits)

lemma split_parity: "no_escapes s \<Longrightarrow> shlex_split s = None \<longleftrightarrow> odd (apostrophes s)"
proof (induction s rule: shlex_split.induct)
  case (1 s)
  have p: "parity_right 0 s (read_token s)"
    using read_parity [OF 1(2), of Blank] by (simp add: open_quotes_def read_token_def)
  show ?case
  proof (cases "read_token s")
    case LexError
    then show ?thesis using p by (simp add: shlex_split.simps [of s] parity_right_def)
  next
    case (Lexed t rest)
    then have e: "no_escapes rest" "even (apostrophes s) \<longleftrightarrow> even (apostrophes rest)" using p by (simp_all add: parity_right_def)
    show ?thesis
    proof (cases t)
      case None
      then have "rest = []" using Lexed read_end unfolding read_token_def by blast
      then show ?thesis using Lexed None e(2) by (simp add: shlex_split.simps [of s] apostrophes_def)
    next
      case (Some w)
      then show ?thesis using Lexed e 1(1) [OF Lexed Some e(1)] by (simp add: shlex_split.simps [of s])
    qed
  qed
qed

text \<open>
  The caption of a media command is run through the shell lexer although it is kept as
  typed. With neither double quotes nor backslashes in it, the command is understood exactly
  when its apostrophes come in pairs: \<open>@photo.png it's me\<close> is not a media command.
\<close>

theorem caption_needs_paired_apostrophes:
  assumes "lex_plain path" and "path \<noteq> []" and "\<forall>c\<in>set path. \<not> space_cp c" and "no_escapes caption"
  shows "parse_media_command (64 # path @ 32 # caption)
    = (if odd (apostrophes caption) then None else Some (path, or_none (ustrip caption)))"
proof -
  have "ustrip (path @ 32 # caption) \<noteq> []" using assms(2,3) by (cases path) (simp_all add: strip_all_space)
  then show ?thesis
    using media_by_token [OF read_plain_path [OF assms(1,2)], of caption] assms(2) split_parity [OF assms(4)] by simp
qed

lemma caption_needs_paired_apostrophes_witness:
  "parse_media_command (64 # u ''a.png'' @ 32 # u ''it'' @ 39 # u ''s me'') = None"
proof -
  have "parse_media_command (64 # u ''a.png'' @ 32 # (u ''it'' @ 39 # u ''s me''))
    = (if odd (apostrophes (u ''it'' @ 39 # u ''s me'')) then None
       else Some (u ''a.png'', or_none (ustrip (u ''it'' @ 39 # u ''s me''))))"
    by (rule caption_needs_paired_apostrophes)
      (simp_all add: lex_plain_def no_escapes_def u_def lex_space_def lex_quote_def space_cp_def)
  then show ?thesis by (simp add: u_def apostrophes_def)
qed

section \<open>The id in front of a bubble\<close>

lemma find_close_skip: "93 \<notin> set a \<Longrightarrow> find_close acc (a @ 93 # 32 # s) = Some (rev acc @ a @ [93, 32], s)"
proof (induction a arbitrary: acc)
  case Nil
  then show ?case by simp
next
  case (Cons c a)
  then show ?case by (cases a) auto
qed

lemma id_digits: "93 \<notin> set (u (str_int i))"
proof -
  have "list_all is_dec (digits_nat n)" for n by (simp add: digits_nat_dec)
  then have "93 \<notin> set (u (digits_nat n))" for n by (fastforce simp: u_def is_dec_def list_all_iff)
  then show ?thesis by (auto simp: str_int_def u_def)
qed

lemma split_bubble_body:
  "split_id_prefix (bubble_body m)
    = ([91] @ u (str_int (ms_id m)) @ [93, 32], or_default (ms_text m) (u ''<media>''))"
proof -
  have "93 \<notin> set (91 # u (str_int (ms_id m)))" using id_digits by simp
  from find_close_skip [OF this, of "[]" "or_default (ms_text m) (u ''<media>'')"]
  show ?thesis by (simp add: split_id_prefix_def bubble_body_def)
qed

end
