(* ===== verification/Tui_State.thy ===== *)
theory Tui_State
  imports Ttl_Cache Send_Tokens Commands
begin

text \<open>
  The state of the terminal interface (\<open>src/tg_messenger/tui/app.py\<close>, \<open>tui/bubbles.py\<close>): the
  open dialog, the composer with the drafts of all dialogs, the bubbles of the message pane
  and the index the live feeds find them by, the backfill cursor, the echo markers and the
  workers in flight. Widgets are reduced to what the code reads back from them: the composer
  is its value and the queue of \<open>Changed\<close> messages Textual posted for it, the pane is the list
  of its rows, a bubble lives in a store and is shared by the pane and the index. Scrolling,
  focus, toasts and log records are left out.
\<close>

section \<open>Bubbles\<close>

record bubble =
  bb_body :: utext
  bb_out :: bool
  bb_message_id :: "int option"
  bb_dialog_id :: "int option"
  bb_author :: "string option"
  bb_timestamp :: "utext option"
  bb_gen :: "nat option"
  bb_translation :: "utext option"
  bb_reactions :: "utext list"

definition custom_reaction :: utext where
  "custom_reaction = u ''<custom>''"

definition add_reaction :: "utext option \<Rightarrow> bubble \<Rightarrow> bubble" where
  "add_reaction emoticon b =
     (let label = (case emoticon of Some e \<Rightarrow> e | None \<Rightarrow> custom_reaction)
      in if label \<in> set (bb_reactions b) then b else b\<lparr>bb_reactions := bb_reactions b @ [label]\<rparr>)"

definition show_translation :: "utext \<Rightarrow> bubble \<Rightarrow> bubble" where
  "show_translation t b = b\<lparr>bb_translation := Some t\<rparr>"

text \<open>The text of a bubble, without its styles.\<close>

definition build_text :: "(utext \<Rightarrow> utext) \<Rightarrow> bubble \<Rightarrow> utext" where
  "build_text nfc b =
     (let safe = terminal_safe_text nfc; p = split_id_prefix (bb_body b)
      in (case bb_author b of None \<Rightarrow> [] | Some a \<Rightarrow> safe (u a) @ [10])
         @ fst p @ safe (snd p)
         @ (case bb_timestamp b of None \<Rightarrow> [] | Some t \<Rightarrow> [32, 32] @ t)
         @ (case bb_translation b of None \<Rightarrow> [] | Some t \<Rightarrow> [10, 8627, 32] @ safe t)
         @ (if bb_reactions b = [] then [] else [10] @ safe (join [32] (bb_reactions b))))"

section \<open>Drafts\<close>

record compose_state =
  cm_draft :: utext
  cm_source :: "utext option"
  cm_confirm :: "utext option"
  cm_ignore_empty :: bool
  cm_token :: "string option"

definition new_compose :: compose_state where
  "new_compose = \<lparr>cm_draft = [], cm_source = None, cm_confirm = None, cm_ignore_empty = False, cm_token = None\<rparr>"

section \<open>Workers\<close>

datatype worker_group = GDefault | GHistory | GBackfill | GTranslateAll | GTranslateHistory | GTranslateLive
  | GMarkRead | GOutbound | GSuggest | GOutboundLang | GReadingLang | GTranslatePref | GDialogs

datatype feed = FeedIncoming | FeedOutgoing | FeedReaction

datatype tab = TabAll | TabContacts | TabNonContacts | TabGroups | TabChannels | TabBots | TabUnread | TabArchive

text \<open>Where a worker waits. A \<open>Start\<close> is scheduled and has not run yet.\<close>

datatype task =
    Listen feed real
  | Backoff feed real
  | IncomingTouched incoming_event real
  | OutgoingTouched outgoing_event real
  | HistoryStart int
  | HistoryFetch int
  | BackfillStart int int
  | BackfillFetch int int
  | EnsureLang int
  | AskLang int
  | SaveLang int
  | TranslateAllCleared int
  | TranslateAllFetch int
  | TranslateBubbles int
  | TranslateLive int nat
  | SendStart int utext "string option"
  | SendWait int utext "string option"
  | SentTouched int message
  | MediaStart int utext "utext option" utext
  | MediaWait int utext
  | PickReaction int int
  | ReactionWait int int utext
  | MarkRead int int
  | OutboundStart int utext
  | OutboundPrepare int utext bool
  | OutboundPick int utext "string option"
  | SuggestStart int bool bool
  | Suggesting int bool bool
  | SetReadingLang lang_command
  | SetDialogLang int lang_command
  | PersistAuto bool
  | ReloadStart
  | ReloadFetch tab
  | SettingsOpen

text \<open>What the workers ask the client and the coordinator for.\<close>

datatype tui_call =
    AskHistory int "int option"
  | CallSendText int utext "string option"
  | CallSendMedia int utext "utext option"
  | CallReaction int int utext

datatype pane_row = EmptyHint | StatusRow | BubbleRow nat

record tui =
  tu_current :: "int option"
  tu_gen :: nat
  tu_kind :: "dialog_kind option"
  tu_tab :: tab
  tu_search :: string
  tu_loaded_tab :: "tab option"
  tu_dialogs :: "dialog list"
  tu_composer :: utext
  tu_posted :: "utext list"
  tu_compose :: "int \<Rightarrow> compose_state option"
  tu_escape_armed :: bool
  tu_bubbles :: "bubble list"
  tu_pane :: "pane_row list"
  tu_index :: "int \<Rightarrow> nat option"
  tu_oldest :: "int option"
  tu_exhausted :: "int \<Rightarrow> int option"
  tu_backfilling :: "int list"
  tu_down :: "feed list"
  tu_suggestion :: "utext option"
  tu_suggestion_dialog :: "int option"
  tu_strip :: utext
  tu_sent :: "(int \<times> int, bool) odict"
  tu_sent_reactions :: "(int \<times> int \<times> utext option, bool) odict"
  tu_pending :: "int \<Rightarrow> (int \<times> utext option) list option"
  tu_auto :: bool
  tu_lang_prompt :: bool
  tu_jobs :: "(worker_group \<times> task) list"
  tu_calls :: "tui_call list"

text \<open>What the application was built with.\<close>

record tui_env =
  tv_store_pages :: bool
  tv_translator :: bool
  tv_suggester :: bool
  tv_outbound :: bool
  tv_retry_max :: real
  tv_lower :: "utext \<Rightarrow> utext"
  tv_stamp :: "message \<Rightarrow> utext option"

definition history_page_size :: nat where
  "history_page_size = 50"

section \<open>Workers: scheduling and cancelling\<close>

definition call :: "tui_call \<Rightarrow> tui \<Rightarrow> tui" where
  "call c st = st\<lparr>tu_calls := tu_calls st @ [c]\<rparr>"

fun fetches_for :: "int \<Rightarrow> task \<Rightarrow> bool" where
  "fetches_for d (BackfillFetch e i) = (e = d)"
| "fetches_for d _ = False"

fun asks_lang :: "task \<Rightarrow> bool" where
  "asks_lang (AskLang d) = True"
| "asks_lang _ = False"

text \<open>A cancelled worker runs its \<open>finally\<close> where its body has begun: a backfill that fetches
  releases its guard, one that has not started never enters the \<open>try\<close>.\<close>

definition cancel_group :: "worker_group \<Rightarrow> tui \<Rightarrow> tui" where
  "cancel_group g st =
     (let gone = map snd (filter (\<lambda>j. fst j = g) (tu_jobs st))
      in st\<lparr>tu_jobs := filter (\<lambda>j. fst j \<noteq> g) (tu_jobs st),
            tu_backfilling := filter (\<lambda>d. \<not> list_ex (fetches_for d) gone) (tu_backfilling st),
            tu_lang_prompt := tu_lang_prompt st \<and> \<not> list_ex asks_lang gone\<rparr>)"

definition run_worker :: "worker_group \<Rightarrow> bool \<Rightarrow> task \<Rightarrow> tui \<Rightarrow> tui" where
  "run_worker g exclusive t st =
     (let st1 = (if exclusive then cancel_group g st else st)
      in st1\<lparr>tu_jobs := tu_jobs st1 @ [(g, t)]\<rparr>)"

text \<open>A worker that goes on to its next waiting point, in the group it was started in.\<close>

definition await :: "worker_group \<Rightarrow> task \<Rightarrow> tui \<Rightarrow> tui" where
  "await g t st = st\<lparr>tu_jobs := tu_jobs st @ [(g, t)]\<rparr>"

section \<open>The composer\<close>

text \<open>Textual posts \<open>Changed\<close> when the value becomes another one.\<close>

definition set_composer :: "utext \<Rightarrow> tui \<Rightarrow> tui" where
  "set_composer v st =
     (if v = tu_composer st then st else st\<lparr>tu_composer := v, tu_posted := tu_posted st @ [v]\<rparr>)"

definition compose_of :: "tui \<Rightarrow> int \<Rightarrow> compose_state" where
  "compose_of st d = (case tu_compose st d of Some s \<Rightarrow> s | None \<Rightarrow> new_compose)"

definition with_compose :: "int \<Rightarrow> (compose_state \<Rightarrow> compose_state) \<Rightarrow> tui \<Rightarrow> tui" where
  "with_compose d f st = st\<lparr>tu_compose := (tu_compose st)(d \<mapsto> f (compose_of st d))\<rparr>"

definition save_current_compose_state :: "tui \<Rightarrow> tui" where
  "save_current_compose_state st =
     (case tu_current st of None \<Rightarrow> st
      | Some d \<Rightarrow> with_compose d (\<lambda>s. s\<lparr>cm_draft := tu_composer st\<rparr>) st)"

definition restore_compose_state :: "int \<Rightarrow> tui \<Rightarrow> tui" where
  "restore_compose_state d st =
     (let st1 = with_compose d id st in set_composer (cm_draft (compose_of st1 d)) st1)"

definition drop_outbound :: "compose_state \<Rightarrow> compose_state" where
  "drop_outbound s = s\<lparr>cm_source := None, cm_token := None, cm_confirm := None\<rparr>"

definition clear_pending_outbound :: "int \<Rightarrow> tui \<Rightarrow> tui" where
  "clear_pending_outbound d st = with_compose d drop_outbound st"

definition optimistic_clear :: "int \<Rightarrow> tui \<Rightarrow> tui" where
  "optimistic_clear d st =
     set_composer [] (clear_pending_outbound d (with_compose d (\<lambda>s. s\<lparr>cm_draft := []\<rparr>) st))"

definition restore_draft :: "int \<Rightarrow> utext option \<Rightarrow> tui \<Rightarrow> tui" where
  "restore_draft d txt st =
     (case txt of None \<Rightarrow> st
      | Some t \<Rightarrow>
          (let st1 = with_compose d (\<lambda>s. s\<lparr>cm_draft := t\<rparr>) st
           in if tu_current st1 = Some d \<and> tu_composer st1 = [] then set_composer t st1 else st1))"

definition clear_compose_state_after_send :: "int \<Rightarrow> utext \<Rightarrow> tui \<Rightarrow> tui" where
  "clear_compose_state_after_send d sent_text st =
     (let st1 = with_compose d (\<lambda>s. drop_outbound (if cm_draft s = sent_text then s\<lparr>cm_draft := []\<rparr> else s)) st
      in if tu_current st1 = Some d \<and> tu_composer st1 = sent_text then set_composer [] st1 else st1)"

section \<open>The dialog list\<close>

definition filter_by_tab :: "tab \<Rightarrow> dialog list \<Rightarrow> dialog list" where
  "filter_by_tab t ds =
     (case t of
        TabContacts \<Rightarrow> filter (\<lambda>d. dg_kind d = Dm \<and> dg_is_contact d = Some True) ds
      | TabNonContacts \<Rightarrow> filter (\<lambda>d. dg_kind d = Dm \<and> dg_is_contact d = Some False) ds
      | TabUnread \<Rightarrow> filter (\<lambda>d. dg_unread d > 0) ds
      | TabGroups \<Rightarrow> filter (\<lambda>d. dg_kind d = Group) ds
      | TabChannels \<Rightarrow> filter (\<lambda>d. dg_kind d = Channel) ds
      | TabBots \<Rightarrow> filter (\<lambda>d. dg_kind d = Bot) ds
      | _ \<Rightarrow> ds)"

definition rendered_dialogs :: "tui \<Rightarrow> dialog list" where
  "rendered_dialogs st = filter_dialogs (filter_by_tab (tu_tab st) (tu_dialogs st)) (tu_search st)"

definition dialog_kind_of :: "int \<Rightarrow> tui \<Rightarrow> dialog_kind option" where
  "dialog_kind_of d st = map_option dg_kind (List.find (\<lambda>x. dg_id x = d) (tu_dialogs st))"

definition kind_for_rendering :: "int \<Rightarrow> tui \<Rightarrow> dialog_kind option" where
  "kind_for_rendering d st =
     (if tu_current st = Some d \<and> tu_kind st \<noteq> None then tu_kind st else dialog_kind_of d st)"

definition is_dm_dialog :: "int \<Rightarrow> tui \<Rightarrow> bool" where
  "is_dm_dialog d st \<longleftrightarrow> list_ex (\<lambda>x. dg_id x = d \<and> dg_kind x = Dm) (tu_dialogs st)"

fun touch_in :: "int \<Rightarrow> (dialog \<Rightarrow> dialog) \<Rightarrow> dialog list \<Rightarrow> dialog list \<Rightarrow> dialog list option" where
  "touch_in d f seen [] = None"
| "touch_in d f seen (x # xs) =
     (if dg_id x \<noteq> d then touch_in d f (seen @ [x]) xs else Some (f x # seen @ xs))"

definition touch_dialog_for_message :: "int \<Rightarrow> message \<Rightarrow> bool \<Rightarrow> tui \<Rightarrow> tui" where
  "touch_dialog_for_message d m incoming st =
     (let f = (\<lambda>x. x\<lparr>dg_unread := (if incoming then (if tu_current st = Some d then 0 else dg_unread x + 1) else dg_unread x),
                     dg_last_text := ms_text m, dg_last_message_at := Some (ms_date m)\<rparr>)
      in (case touch_in d f [] (tu_dialogs st) of Some ds \<Rightarrow> st\<lparr>tu_dialogs := ds\<rparr> | None \<Rightarrow> st))"

fun zero_unread :: "int \<Rightarrow> dialog list \<Rightarrow> dialog list" where
  "zero_unread d [] = []"
| "zero_unread d (x # xs) =
     (if dg_id x = d \<and> dg_unread x \<noteq> 0 then x\<lparr>dg_unread := 0\<rparr> # xs else x # zero_unread d xs)"

end
