(* ===== verification/Tui_Step.thy ===== *)
theory Tui_Step
  imports Tui_State
begin

text \<open>
  The handlers of \<open>src/tg_messenger/tui/app.py\<close> as steps of the terminal interface: what the
  user does, the queued \<open>Changed\<close> messages of the composer, and every worker from one waiting
  point to the next, with each answer and failure the wait can have. A worker that is not in
  \<open>tu_jobs\<close> any more (its group was cancelled) does not go on. Waits that only let a widget
  appear are not interleaving points. The state starts when \<open>_startup\<close> has handed over to the
  listeners.
\<close>

section \<open>Drawing\<close>

definition new_bubble :: "tui_env \<Rightarrow> message \<Rightarrow> int \<Rightarrow> tui \<Rightarrow> bubble" where
  "new_bubble env m d st =
     \<lparr>bb_body = bubble_body m, bb_out = ms_out m, bb_message_id = Some (ms_id m), bb_dialog_id = Some d,
      bb_author = message_author_line m (\<not> ms_out m \<and> kind_for_rendering d st = Some Group),
      bb_timestamp = tv_stamp env m, bb_gen = Some (tu_gen st),
      bb_translation = (if truthy (ms_translated_text m) then ms_translated_text m else None), bb_reactions = []\<rparr>"

definition message_bubble_for :: "tui_env \<Rightarrow> message \<Rightarrow> int \<Rightarrow> tui \<Rightarrow> tui" where
  "message_bubble_for env m d st =
     st\<lparr>tu_bubbles := tu_bubbles st @ [new_bubble env m d st],
        tu_index := (tu_index st)(ms_id m \<mapsto> length (tu_bubbles st))\<rparr>"

text \<open>The bubbles of a page, and their rows.\<close>

definition bubbles_for :: "tui_env \<Rightarrow> int \<Rightarrow> message list \<Rightarrow> tui \<Rightarrow> tui" where
  "bubbles_for env d ms st = fold (\<lambda>m s. message_bubble_for env m d s) ms st"

definition rows_of :: "tui \<Rightarrow> message list \<Rightarrow> pane_row list" where
  "rows_of st ms = map BubbleRow [length (tu_bubbles st) ..< length (tu_bubbles st) + length ms]"

definition mount_page :: "tui_env \<Rightarrow> int \<Rightarrow> message list \<Rightarrow> tui \<Rightarrow> tui" where
  "mount_page env d ms st = (bubbles_for env d ms st)\<lparr>tu_pane := tu_pane st @ rows_of st ms\<rparr>"

definition mount_page_above :: "tui_env \<Rightarrow> int \<Rightarrow> message list \<Rightarrow> tui \<Rightarrow> tui" where
  "mount_page_above env d ms st = (bubbles_for env d ms st)\<lparr>tu_pane := rows_of st ms @ tu_pane st\<rparr>"

definition update_bubble :: "nat \<Rightarrow> (bubble \<Rightarrow> bubble) \<Rightarrow> tui \<Rightarrow> tui" where
  "update_bubble r f st =
     (if r < length (tu_bubbles st) then st\<lparr>tu_bubbles := (tu_bubbles st)[r := f (tu_bubbles st ! r)]\<rparr> else st)"

definition show_translated :: "message \<Rightarrow> tui \<Rightarrow> tui" where
  "show_translated m st =
     (if \<not> truthy (ms_translated_text m) then st
      else (case tu_index st (ms_id m) of
              None \<Rightarrow> st
            | Some r \<Rightarrow> update_bubble r (show_translation (or_default (ms_translated_text m) [])) st))"

section \<open>Reactions\<close>

definition react_indexed :: "int \<Rightarrow> utext option \<Rightarrow> nat \<Rightarrow> tui \<Rightarrow> tui" where
  "react_indexed d emoticon r st =
     (if bb_dialog_id (tu_bubbles st ! r) = Some d then update_bubble r (add_reaction emoticon) st else st)"

definition apply_reaction :: "int \<Rightarrow> int \<Rightarrow> utext option \<Rightarrow> tui \<Rightarrow> tui" where
  "apply_reaction d message_id emoticon st =
     (case tu_index st message_id of
        Some r \<Rightarrow> react_indexed d emoticon r st
      | None \<Rightarrow>
          if tu_current st \<noteq> Some d then st
          else (let pending = (case tu_pending st d of None \<Rightarrow> [] | Some p \<Rightarrow> p) @ [(message_id, emoticon)]
                in st\<lparr>tu_pending := (tu_pending st)(d \<mapsto> drop (length pending - 100) pending)\<rparr>))"

fun replay_reactions :: "int \<Rightarrow> (int \<times> utext option) list \<Rightarrow> tui \<Rightarrow> tui" where
  "replay_reactions d [] st = st"
| "replay_reactions d ((message_id, emoticon) # ps) st =
     replay_reactions d ps
       (case tu_index st message_id of None \<Rightarrow> st | Some r \<Rightarrow> react_indexed d emoticon r st)"

definition drain_pending_reactions :: "int \<Rightarrow> tui \<Rightarrow> tui" where
  "drain_pending_reactions d st =
     replay_reactions d (case tu_pending st d of None \<Rightarrow> [] | Some p \<Rightarrow> p) (st\<lparr>tu_pending := (tu_pending st)(d := None)\<rparr>)"

definition react_key :: "nat \<Rightarrow> tui \<Rightarrow> tui" where
  "react_key r st =
     (if r \<ge> length (tu_bubbles st) then st
      else (let b = tu_bubbles st ! r
            in case (bb_message_id b, bb_dialog_id b) of
                 (Some i, Some d) \<Rightarrow>
                   if (case bb_gen b of Some g \<Rightarrow> g < tu_gen st | None \<Rightarrow> False) then st
                   else run_worker GDefault False (PickReaction d i) st
               | _ \<Rightarrow> st))"

text \<open>The rows keyboard navigation may land on.\<close>

definition navigable_bubbles :: "tui \<Rightarrow> nat list" where
  "navigable_bubbles st =
     filter (\<lambda>r. bb_dialog_id (tu_bubbles st ! r) = tu_current st)
       (concat (map (\<lambda>row. case row of BubbleRow r \<Rightarrow> [r] | _ \<Rightarrow> []) (tu_pane st)))"

section \<open>Suggestions\<close>

definition suggest_prefix :: utext where
  "suggest_prefix = [128161] @ u '' Tab: ''"

definition suggest_thinking :: utext where
  "suggest_thinking = [9203] @ u '' Suggester is thinking'' @ [8230]"

definition outbound_translating :: utext where
  "outbound_translating = [9203] @ u '' Translating message'' @ [8230]"

definition clear_suggestion :: "tui \<Rightarrow> tui" where
  "clear_suggestion st = st\<lparr>tu_suggestion := None, tu_suggestion_dialog := None, tu_strip := []\<rparr>"

definition maybe_suggest :: "tui_env \<Rightarrow> int \<Rightarrow> tui \<Rightarrow> tui" where
  "maybe_suggest env d st =
     (if \<not> tv_suggester env then st else if \<not> is_dm_dialog d st then st
      else if tu_composer st \<noteq> [] then st
      else run_worker GSuggest True (SuggestStart d False False) st)"

definition suggest_reply :: "tui_env \<Rightarrow> tui \<Rightarrow> tui" where
  "suggest_reply env st =
     (if \<not> tv_suggester env then st
      else (case tu_current st of
              None \<Rightarrow> st
            | Some d \<Rightarrow>
                if kind_for_rendering d st \<noteq> Some Dm then st
                else if tu_composer st \<noteq> [] then st
                else if truthy (tu_suggestion st) \<and> tu_suggestion_dialog st = Some d
                then st\<lparr>tu_strip := suggest_prefix @ or_default (tu_suggestion st) []\<rparr>
                else run_worker GSuggest True (SuggestStart d True True) st))"

definition suggest_start :: "worker_group \<Rightarrow> int \<Rightarrow> bool \<Rightarrow> bool \<Rightarrow> tui \<Rightarrow> tui" where
  "suggest_start g d notify_empty show_thinking st =
     (let shown = (show_thinking \<and> tu_current st = Some d \<and> tu_composer st = [])
      in await g (Suggesting d notify_empty shown) (if shown then st\<lparr>tu_strip := suggest_thinking\<rparr> else st))"

text \<open>\<open>draft\<close> is \<open>None\<close> where the suggester raised.\<close>

definition suggest_done :: "int \<Rightarrow> bool \<Rightarrow> bool \<Rightarrow> utext option option \<Rightarrow> tui \<Rightarrow> tui" where
  "suggest_done d notify_empty shown draft st =
     (case draft of
        None \<Rightarrow> if shown \<and> tu_current st = Some d then st\<lparr>tu_strip := []\<rparr> else st
      | Some dr \<Rightarrow>
          if tu_current st \<noteq> Some d \<or> tu_composer st \<noteq> [] then st
          else if \<not> truthy dr \<and> notify_empty then (if shown then st\<lparr>tu_strip := []\<rparr> else st)
          else st\<lparr>tu_suggestion := dr, tu_suggestion_dialog := (if truthy dr then Some d else None),
                  tu_strip := (if truthy dr then suggest_prefix @ or_default dr [] else [])\<rparr>)"

definition accept_suggestion :: "tui \<Rightarrow> tui" where
  "accept_suggestion st =
     (case tu_suggestion st of
        None \<Rightarrow> st
      | Some s \<Rightarrow>
          if s = [] then st
          else (let st1 = set_composer s st;
                    st2 = (case tu_current st1 of None \<Rightarrow> st1
                           | Some d \<Rightarrow> with_compose d (\<lambda>c. c\<lparr>cm_draft := s\<rparr>) st1)
                in clear_suggestion st2))"

section \<open>Dialogs and history\<close>

definition open_dialog :: "int \<Rightarrow> tui \<Rightarrow> tui" where
  "open_dialog d st =
     (let st1 = save_current_compose_state st;
          st2 = st1\<lparr>tu_current := Some d, tu_gen := Suc (tu_gen st1), tu_kind := dialog_kind_of d st1\<rparr>;
          st3 = clear_suggestion (restore_compose_state d st2);
          st4 = st3\<lparr>tu_index := (\<lambda>_. None), tu_pending := (\<lambda>_. None), tu_oldest := None\<rparr>
      in run_worker GHistory True (HistoryStart d) (cancel_group GBackfill st4))"

definition history_start :: "worker_group \<Rightarrow> int \<Rightarrow> tui \<Rightarrow> tui" where
  "history_start g d st = await g (HistoryFetch d) (call (AskHistory d None) (st\<lparr>tu_pane := []\<rparr>))"

definition exhaust :: "int \<Rightarrow> tui \<Rightarrow> tui" where
  "exhaust d st = st\<lparr>tu_exhausted := (tu_exhausted st)(d := tu_oldest st)\<rparr>"

definition mount_history :: "tui_env \<Rightarrow> int \<Rightarrow> message list \<Rightarrow> tui \<Rightarrow> tui" where
  "mount_history env d ms st =
     (let st1 = mount_page env d ms (st\<lparr>tu_index := (\<lambda>_. None)\<rparr>)
      in if ms = [] then st1\<lparr>tu_oldest := None\<rparr>
         else (let st2 = st1\<lparr>tu_oldest := Some (ms_id (hd ms))\<rparr>
               in if length ms < history_page_size then exhaust d st2 else st2))"

definition after_history :: "tui_env \<Rightarrow> int \<Rightarrow> message list \<Rightarrow> tui \<Rightarrow> tui" where
  "after_history env d ms st =
     (let st1 = (if tv_translator env \<and> tu_auto st then run_worker GTranslateHistory True (TranslateBubbles d) st else st)
      in if ms = [] then st1 else run_worker GMarkRead False (MarkRead d (Max (ms_id ` set ms))) st1)"

definition show_history :: "tui_env \<Rightarrow> int \<Rightarrow> message list \<Rightarrow> tui \<Rightarrow> tui" where
  "show_history env d ms st = after_history env d ms (drain_pending_reactions d (mount_history env d ms st))"

definition maybe_backfill_history :: "tui_env \<Rightarrow> tui \<Rightarrow> tui" where
  "maybe_backfill_history env st =
     (case tu_current st of
        None \<Rightarrow> st
      | Some d \<Rightarrow>
          if \<not> tv_store_pages env then st
          else if tu_exhausted st d = tu_oldest st then st
          else (case tu_oldest st of
                  None \<Rightarrow> st
                | Some offset \<Rightarrow>
                    if d \<in> set (tu_backfilling st) then st
                    else run_worker GBackfill True (BackfillStart d offset)
                           (st\<lparr>tu_backfilling := tu_backfilling st @ [d]\<rparr>)))"

definition release_guard :: "int \<Rightarrow> tui \<Rightarrow> tui" where
  "release_guard d st = st\<lparr>tu_backfilling := removeAll d (tu_backfilling st)\<rparr>"

definition backfill_start :: "worker_group \<Rightarrow> int \<Rightarrow> int \<Rightarrow> tui \<Rightarrow> tui" where
  "backfill_start g d offset st =
     (if tu_current st \<noteq> Some d then release_guard d st
      else await g (BackfillFetch d offset) (call (AskHistory d (Some offset)) st))"

text \<open>The answer of the fetch, \<open>None\<close> where it raised.\<close>

definition backfill_done :: "tui_env \<Rightarrow> int \<Rightarrow> message list option \<Rightarrow> tui \<Rightarrow> tui" where
  "backfill_done env d answer st =
     (case answer of
        None \<Rightarrow> release_guard d st
      | Some older \<Rightarrow>
          if tu_current st \<noteq> Some d then release_guard d st
          else (let fresh = filter (\<lambda>m. tu_index st (ms_id m) = None) older
                in if fresh = [] then release_guard d (exhaust d st)
                   else (let st1 = (mount_page_above env d fresh st)\<lparr>tu_oldest := Some (ms_id (hd fresh))\<rparr>
                         in release_guard d (if length older < history_page_size then exhaust d st1 else st1))))"

section \<open>Translating\<close>

definition translate_all :: "tui_env \<Rightarrow> tui \<Rightarrow> tui" where
  "translate_all env st =
     (if \<not> tv_translator env then st
      else (case tu_current st of None \<Rightarrow> st | Some d \<Rightarrow> run_worker GTranslateAll True (EnsureLang d) st))"

definition toggle_auto_translate :: "tui_env \<Rightarrow> tui \<Rightarrow> tui" where
  "toggle_auto_translate env st =
     (if \<not> tv_translator env then st
      else (let st1 = run_worker GTranslatePref False (PersistAuto (\<not> tu_auto st)) (st\<lparr>tu_auto := \<not> tu_auto st\<rparr>)
            in case tu_current st1 of
                 Some d \<Rightarrow> if tu_auto st1 then run_worker GTranslateAll True (EnsureLang d) st1 else st1
               | None \<Rightarrow> st1))"

definition translate_whole_start :: "worker_group \<Rightarrow> int \<Rightarrow> tui \<Rightarrow> tui" where
  "translate_whole_start g d st =
     (if tu_current st \<noteq> Some d then st else await g (TranslateAllCleared d) (st\<lparr>tu_pane := []\<rparr>))"

definition translate_whole_cleared :: "worker_group \<Rightarrow> int \<Rightarrow> tui \<Rightarrow> tui" where
  "translate_whole_cleared g d st =
     (if tu_current st \<noteq> Some d then st
      else await g (TranslateAllFetch d)
             (call (AskHistory d None) (st\<lparr>tu_index := (\<lambda>_. None), tu_pane := tu_pane st @ [StatusRow]\<rparr>)))"

definition translate_whole_done :: "tui_env \<Rightarrow> int \<Rightarrow> message list option \<Rightarrow> tui \<Rightarrow> tui" where
  "translate_whole_done env d answer st =
     (let st1 = (case answer of
                   Some translated \<Rightarrow>
                     if tu_current st = Some d
                     then drain_pending_reactions d
                            (mount_page env d translated (st\<lparr>tu_pane := [], tu_index := (\<lambda>_. None)\<rparr>))
                     else st
                 | None \<Rightarrow> st)
      in if tu_current st1 = Some d then st1\<lparr>tu_pane := filter (\<lambda>r. r \<noteq> StatusRow) (tu_pane st1)\<rparr> else st1)"

section \<open>The composer\<close>

text \<open>\<open>on_input_changed\<close> for the head of the posted messages.\<close>

definition note_edit :: "utext \<Rightarrow> compose_state \<Rightarrow> compose_state" where
  "note_edit v s =
     (let previous = cm_draft s;
          s1 = s\<lparr>cm_draft := v\<rparr>;
          s2 = (if cm_source s1 \<noteq> None \<and> v \<noteq> previous then s1\<lparr>cm_source := None, cm_token := None\<rparr> else s1)
      in if cm_confirm s2 \<noteq> None \<and> cm_confirm s2 \<noteq> Some v then s2\<lparr>cm_confirm := None\<rparr> else s2)"

definition composer_changed :: "utext \<Rightarrow> tui \<Rightarrow> tui" where
  "composer_changed v st =
     (if v \<noteq> tu_composer st then st
      else (let st1 = st\<lparr>tu_escape_armed := False\<rparr>;
                st2 = (if tu_suggestion st1 \<noteq> None \<and> tu_suggestion st1 \<noteq> Some v then clear_suggestion st1 else st1)
            in (case tu_current st2 of
                  None \<Rightarrow> st2
                | Some d \<Rightarrow>
                    (let s = compose_of st2 d
                     in if v = [] \<and> cm_ignore_empty s
                        then with_compose d (\<lambda>s. s\<lparr>cm_ignore_empty := False\<rparr>) st2
                        else (let st3 = with_compose d (note_edit v) st2
                              in if v = [] then clear_pending_outbound d st3 else st3)))))"

text \<open>\<open>on_input_submitted\<close>: \<open>v\<close> is the value the event carries, \<open>exists\<close> the answer of
  \<open>os.path.isfile\<close> for the path of a media command.\<close>

definition submit_plain :: "tui_env \<Rightarrow> int \<Rightarrow> utext \<Rightarrow> tui \<Rightarrow> tui" where
  "submit_plain env d v st =
     (let s = compose_of st d
      in if cm_source s \<noteq> None
         then run_worker GDefault False (SendStart d v (cm_token s)) (optimistic_clear d st)
         else if cm_confirm s = Some v
         then run_worker GDefault False (SendStart d v None) (optimistic_clear d st)
         else if tv_outbound env
         then run_worker GOutbound True (OutboundStart d v)
                (with_compose d (\<lambda>s. s\<lparr>cm_draft := v\<rparr>)
                  (set_composer [] (with_compose d (\<lambda>s. s\<lparr>cm_ignore_empty := True\<rparr>) st)))
         else run_worker GDefault False (SendStart d v None) (optimistic_clear d st))"

definition submit_text :: "tui_env \<Rightarrow> int \<Rightarrow> utext \<Rightarrow> bool \<Rightarrow> tui \<Rightarrow> tui" where
  "submit_text env d v exists st =
     (case parse_tlang_command (tv_lower env) v of
        Inl _ \<Rightarrow> st
      | Inr (Some c) \<Rightarrow> run_worker GReadingLang True (SetReadingLang c) (optimistic_clear d st)
      | Inr None \<Rightarrow>
      (case parse_lang_command (tv_lower env) v of
         Inl _ \<Rightarrow> st
       | Inr (Some c) \<Rightarrow> run_worker GOutboundLang True (SetDialogLang d c) (optimistic_clear d st)
       | Inr None \<Rightarrow>
       (case parse_media_command v of
          Some (path, caption) \<Rightarrow>
            if \<not> exists then st
            else run_worker GDefault False (MediaStart d path caption v) (optimistic_clear d st)
        | None \<Rightarrow>
            if take 1 (lstrip_by space_cp v) = [47]
            then (if kind_for_rendering d st = Some Bot
                  then run_worker GDefault False (SendStart d v None) (optimistic_clear d st) else st)
            else submit_plain env d v st)))"

definition submitted :: "tui_env \<Rightarrow> utext \<Rightarrow> bool \<Rightarrow> tui \<Rightarrow> tui" where
  "submitted env v exists st =
     (case tu_current st of
        None \<Rightarrow> st
      | Some d \<Rightarrow>
          if ustrip v = [] then st
          else (let st1 = with_compose d (\<lambda>s. s\<lparr>cm_draft := v\<rparr>) st
                in if \<not> can_send_in (tu_dialogs st1) d then st1 else submit_text env d v exists st1))"

text \<open>Escape: the search box and the composer, with the two-step guard of the draft.\<close>

definition clear_search :: "bool \<Rightarrow> bool \<Rightarrow> tui \<Rightarrow> tui" where
  "clear_search composer_focus search_focus st =
     (if composer_focus
      then (if tu_composer st = [] then st
            else if \<not> tu_escape_armed st then st\<lparr>tu_escape_armed := True\<rparr>
            else (set_composer [] st)\<lparr>tu_escape_armed := False\<rparr>)
      else if search_focus \<and> tu_search st \<noteq> [] then st\<lparr>tu_search := [], tu_escape_armed := False\<rparr>
      else if tu_escape_armed st \<and> tu_composer st \<noteq> [] then set_composer [] (st\<lparr>tu_escape_armed := False\<rparr>)
      else (if tu_search st \<noteq> [] then st\<lparr>tu_search := [], tu_escape_armed := False\<rparr> else st\<lparr>tu_escape_armed := False\<rparr>))"

section \<open>Sending\<close>

definition echo_cap :: nat where
  "echo_cap = 200"

datatype send_answer = Accepted message | Refused | Expired | Broken

definition send_start :: "worker_group \<Rightarrow> int \<Rightarrow> utext \<Rightarrow> string option \<Rightarrow> tui \<Rightarrow> tui" where
  "send_start g d txt token st = await g (SendWait d txt token) (call (CallSendText d txt token) st)"

definition remember_sent_message :: "int \<Rightarrow> int \<Rightarrow> tui \<Rightarrow> tui" where
  "remember_sent_message d i st = st\<lparr>tu_sent := bounded_remember echo_cap (d, i) (tu_sent st)\<rparr>"

definition send_done :: "worker_group \<Rightarrow> int \<Rightarrow> utext \<Rightarrow> send_answer \<Rightarrow> tui \<Rightarrow> tui" where
  "send_done g d txt answer st =
     (case answer of
        Accepted m \<Rightarrow>
          await g (SentTouched d m)
            (touch_dialog_for_message d m False
              (remember_sent_message d (ms_id m) (clear_compose_state_after_send d txt st)))
      | _ \<Rightarrow> restore_draft d (Some txt) st)"

definition sent_touched :: "tui_env \<Rightarrow> int \<Rightarrow> message \<Rightarrow> tui \<Rightarrow> tui" where
  "sent_touched env d m st =
     (if tu_current st = Some d then mount_page env d [m] st
      else st\<lparr>tu_sent := od_pop (d, ms_id m) (tu_sent st)\<rparr>)"

definition media_start :: "worker_group \<Rightarrow> int \<Rightarrow> utext \<Rightarrow> utext option \<Rightarrow> utext \<Rightarrow> tui \<Rightarrow> tui" where
  "media_start g d path caption source st = await g (MediaWait d source) (call (CallSendMedia d path caption) st)"

definition media_done :: "worker_group \<Rightarrow> int \<Rightarrow> utext \<Rightarrow> send_answer \<Rightarrow> tui \<Rightarrow> tui" where
  "media_done g d source answer st =
     (case answer of
        Accepted m \<Rightarrow>
          await g (SentTouched d m) (touch_dialog_for_message d m False (remember_sent_message d (ms_id m) st))
      | _ \<Rightarrow> restore_draft d (Some source) st)"

definition picked_reaction :: "worker_group \<Rightarrow> int \<Rightarrow> int \<Rightarrow> utext option \<Rightarrow> tui \<Rightarrow> tui" where
  "picked_reaction g d i emoticon st =
     (case emoticon of None \<Rightarrow> st | Some e \<Rightarrow> await g (ReactionWait d i e) (call (CallReaction d i e) st))"

definition reaction_done :: "int \<Rightarrow> int \<Rightarrow> utext \<Rightarrow> bool \<Rightarrow> tui \<Rightarrow> tui" where
  "reaction_done d i e accepted st =
     (if \<not> accepted then st
      else (let st1 = st\<lparr>tu_sent_reactions := bounded_remember echo_cap (d, i, Some e) (tu_sent_reactions st)\<rparr>
            in if tu_current st1 = Some d then apply_reaction d i (Some e) st1 else st1))"

section \<open>The outbound flow\<close>

definition outbound_start :: "worker_group \<Rightarrow> int \<Rightarrow> utext \<Rightarrow> tui \<Rightarrow> tui" where
  "outbound_start g d txt st =
     (let st1 = with_compose d (\<lambda>s. s\<lparr>cm_draft := txt\<rparr>) st;
          shown = (tu_current st1 = Some d)
      in await g (OutboundPrepare d txt shown) (if shown then st1\<lparr>tu_strip := outbound_translating\<rparr> else st1))"

definition fill_composer :: "int \<Rightarrow> utext \<Rightarrow> tui \<Rightarrow> tui" where
  "fill_composer d txt st = (if tu_current st = Some d then set_composer txt st else st)"

definition confirm_original :: "utext \<Rightarrow> compose_state \<Rightarrow> compose_state" where
  "confirm_original txt s = s\<lparr>cm_draft := txt, cm_source := None, cm_token := None, cm_confirm := Some txt\<rparr>"

definition outbound_prepared :: "worker_group \<Rightarrow> int \<Rightarrow> utext \<Rightarrow> bool \<Rightarrow> prepare_result \<Rightarrow> tui \<Rightarrow> tui" where
  "outbound_prepared g d txt shown r st =
     (let st1 = (if shown \<and> tu_current st = Some d \<and> tu_strip st = outbound_translating then st\<lparr>tu_strip := []\<rparr> else st)
      in (case pr_status r of
            NotApplicable \<Rightarrow>
              (let st2 = clear_pending_outbound d (with_compose d (\<lambda>s. s\<lparr>cm_draft := []\<rparr>) st1);
                   st3 = (if tu_current st2 = Some d \<and> tu_composer st2 = txt then set_composer [] st2 else st2)
               in send_start g d txt None st3)
          | Ready \<Rightarrow> await g (OutboundPick d txt (pr_token r)) st1
          | _ \<Rightarrow> fill_composer d txt (with_compose d (confirm_original txt) st1)))"

datatype pick = PickNone | PickOriginal | PickVariant utext

definition outbound_picked :: "int \<Rightarrow> utext \<Rightarrow> string option \<Rightarrow> pick \<Rightarrow> tui \<Rightarrow> tui" where
  "outbound_picked d txt token p st =
     (case p of
        PickNone \<Rightarrow> fill_composer d txt st
      | PickOriginal \<Rightarrow> fill_composer d txt (with_compose d (confirm_original txt) st)
      | PickVariant v \<Rightarrow>
          fill_composer d v
            (with_compose d (\<lambda>s. s\<lparr>cm_draft := v, cm_source := Some txt, cm_token := token, cm_confirm := None\<rparr>) st))"

section \<open>The live feeds\<close>

definition mark_connected :: "feed \<Rightarrow> tui \<Rightarrow> tui" where
  "mark_connected f st = st\<lparr>tu_down := removeAll f (tu_down st)\<rparr>"

definition mark_down :: "feed \<Rightarrow> tui \<Rightarrow> tui" where
  "mark_down f st = st\<lparr>tu_down := List.insert f (tu_down st)\<rparr>"

definition banner_shown :: "tui \<Rightarrow> bool" where
  "banner_shown st \<longleftrightarrow> tu_down st \<noteq> []"

definition live_translation :: "tui_env \<Rightarrow> int \<Rightarrow> message \<Rightarrow> nat \<Rightarrow> tui \<Rightarrow> tui" where
  "live_translation env d m r st =
     (if \<not> truthy (ms_translated_text m) \<and> tv_translator env \<and> tu_auto st
      then run_worker GTranslateLive False (TranslateLive d r) st else st)"

definition incoming_start :: "worker_group \<Rightarrow> real \<Rightarrow> incoming_event \<Rightarrow> tui \<Rightarrow> tui" where
  "incoming_start g delay ev st =
     await g (IncomingTouched ev delay)
       (touch_dialog_for_message (ie_dialog_id ev) (ie_message ev) True (mark_connected FeedIncoming st))"

definition incoming_touched :: "tui_env \<Rightarrow> worker_group \<Rightarrow> real \<Rightarrow> incoming_event \<Rightarrow> tui \<Rightarrow> tui" where
  "incoming_touched env g delay ev st =
     (let d = ie_dialog_id ev; m = ie_message ev
      in await g (Listen FeedIncoming delay)
           (if tu_current st \<noteq> Some d then st
            else maybe_suggest env d
                   (run_worker GMarkRead True (MarkRead d (ms_id m))
                     (live_translation env d m (length (tu_bubbles st)) (mount_page env d [m] st)))))"

definition outgoing_start :: "worker_group \<Rightarrow> real \<Rightarrow> outgoing_event \<Rightarrow> tui \<Rightarrow> tui" where
  "outgoing_start g delay ev st =
     (let st1 = mark_connected FeedOutgoing st
      in if od_get (tu_sent st1) (oe_dialog_id ev, ms_id (oe_message ev)) \<noteq> None
         then await g (Listen FeedOutgoing delay) st1
         else await g (OutgoingTouched ev delay)
                (touch_dialog_for_message (oe_dialog_id ev) (oe_message ev) False st1))"

definition outgoing_touched :: "tui_env \<Rightarrow> worker_group \<Rightarrow> real \<Rightarrow> outgoing_event \<Rightarrow> tui \<Rightarrow> tui" where
  "outgoing_touched env g delay ev st =
     (let d = oe_dialog_id ev; m = oe_message ev
      in await g (Listen FeedOutgoing delay)
           (if tu_current st \<noteq> Some d then st
            else live_translation env d m (length (tu_bubbles st)) (mount_page env d [m] st)))"

definition reaction_event :: "worker_group \<Rightarrow> real \<Rightarrow> int \<Rightarrow> int \<Rightarrow> utext option \<Rightarrow> tui \<Rightarrow> tui" where
  "reaction_event g delay d i emoticon st =
     (let st1 = mark_connected FeedReaction st; key = (d, i, emoticon)
      in await g (Listen FeedReaction delay)
           (if od_get (tu_sent_reactions st1) key \<noteq> None
            then st1\<lparr>tu_sent_reactions := od_pop key (tu_sent_reactions st1)\<rparr>
            else if tu_current st1 = Some d then apply_reaction d i emoticon st1 else st1))"

definition reload_done :: "tab \<Rightarrow> dialog list option \<Rightarrow> tui \<Rightarrow> tui" where
  "reload_done t answer st =
     (case answer of
        None \<Rightarrow> st
      | Some ds \<Rightarrow>
          st\<lparr>tu_dialogs := (if t = TabArchive then ds else filter (\<lambda>x. \<not> dg_archived x) ds), tu_loaded_tab := Some t\<rparr>)"

section \<open>Steps\<close>

text \<open>What a wait can answer. \<open>Go\<close> starts a scheduled worker or ends a wait without a value.\<close>

datatype answer =
    Go
  | Raised
  | GotMessages "message list"
  | GotSend send_answer
  | GotEmoji "utext option"
  | GotPrepared prepare_result
  | GotPick pick
  | GotDraft "utext option"
  | GotFlag bool
  | GotIncoming incoming_event
  | GotOutgoing outgoing_event
  | GotReaction int int "utext option"
  | GotDialogs "dialog list"

definition continue :: "tui_env \<Rightarrow> worker_group \<Rightarrow> task \<Rightarrow> answer \<Rightarrow> (tui \<Rightarrow> tui) option" where
  "continue env g t a =
     (case t of
        Listen f delay \<Rightarrow>
          (case a of
             GotIncoming ev \<Rightarrow> if f = FeedIncoming then Some (incoming_start g delay ev) else None
           | GotOutgoing ev \<Rightarrow> if f = FeedOutgoing then Some (outgoing_start g delay ev) else None
           | GotReaction d i e \<Rightarrow> if f = FeedReaction then Some (reaction_event g delay d i e) else None
           | Raised \<Rightarrow> Some (\<lambda>st. await g (Backoff f delay) (mark_down f st))
           | Go \<Rightarrow> Some id
           | _ \<Rightarrow> None)
      | Backoff f delay \<Rightarrow> (case a of Go \<Rightarrow> Some (await g (Listen f (min (delay * 2) (tv_retry_max env)))) | _ \<Rightarrow> None)
      | IncomingTouched ev delay \<Rightarrow> (case a of Go \<Rightarrow> Some (incoming_touched env g delay ev) | _ \<Rightarrow> None)
      | OutgoingTouched ev delay \<Rightarrow> (case a of Go \<Rightarrow> Some (outgoing_touched env g delay ev) | _ \<Rightarrow> None)
      | HistoryStart d \<Rightarrow> (case a of Go \<Rightarrow> Some (history_start g d) | _ \<Rightarrow> None)
      | HistoryFetch d \<Rightarrow>
          (case a of GotMessages ms \<Rightarrow> Some (show_history env d ms) | Raised \<Rightarrow> Some id | _ \<Rightarrow> None)
      | BackfillStart d i \<Rightarrow> (case a of Go \<Rightarrow> Some (backfill_start g d i) | _ \<Rightarrow> None)
      | BackfillFetch d i \<Rightarrow>
          (case a of GotMessages ms \<Rightarrow> Some (backfill_done env d (Some ms)) | Raised \<Rightarrow> Some (backfill_done env d None) | _ \<Rightarrow> None)
      | EnsureLang d \<Rightarrow>
          (case a of
             GotFlag known \<Rightarrow>
               Some (\<lambda>st. if known then translate_whole_start g d st
                         else if tu_lang_prompt st then st else await g (AskLang d) (st\<lparr>tu_lang_prompt := True\<rparr>))
           | Raised \<Rightarrow> Some id
           | _ \<Rightarrow> None)
      | AskLang d \<Rightarrow>
          (case a of
             GotFlag chosen \<Rightarrow> Some (\<lambda>st. (if chosen then await g (SaveLang d) else id) (st\<lparr>tu_lang_prompt := False\<rparr>))
           | _ \<Rightarrow> None)
      | SaveLang d \<Rightarrow> (case a of Go \<Rightarrow> Some (translate_whole_start g d) | Raised \<Rightarrow> Some id | _ \<Rightarrow> None)
      | TranslateAllCleared d \<Rightarrow> (case a of Go \<Rightarrow> Some (translate_whole_cleared g d) | _ \<Rightarrow> None)
      | TranslateAllFetch d \<Rightarrow>
          (case a of
             GotMessages ms \<Rightarrow> Some (translate_whole_done env d (Some ms))
           | Raised \<Rightarrow> Some (translate_whole_done env d None)
           | _ \<Rightarrow> None)
      | TranslateBubbles d \<Rightarrow>
          (case a of
             GotMessages ms \<Rightarrow> Some (\<lambda>st. if tu_current st = Some d then fold show_translated ms st else st)
           | Raised \<Rightarrow> Some id
           | _ \<Rightarrow> None)
      | TranslateLive d r \<Rightarrow>
          (case a of
             GotDraft translated \<Rightarrow>
               Some (\<lambda>st. if tu_current st = Some d \<and> truthy translated
                         then update_bubble r (show_translation (or_default translated [])) st else st)
           | Raised \<Rightarrow> Some id
           | _ \<Rightarrow> None)
      | SendStart d txt token \<Rightarrow> (case a of Go \<Rightarrow> Some (send_start g d txt token) | _ \<Rightarrow> None)
      | SendWait d txt token \<Rightarrow> (case a of GotSend s \<Rightarrow> Some (send_done g d txt s) | _ \<Rightarrow> None)
      | SentTouched d m \<Rightarrow> (case a of Go \<Rightarrow> Some (sent_touched env d m) | _ \<Rightarrow> None)
      | MediaStart d path caption source \<Rightarrow> (case a of Go \<Rightarrow> Some (media_start g d path caption source) | _ \<Rightarrow> None)
      | MediaWait d source \<Rightarrow> (case a of GotSend s \<Rightarrow> Some (media_done g d source s) | _ \<Rightarrow> None)
      | PickReaction d i \<Rightarrow> (case a of GotEmoji e \<Rightarrow> Some (picked_reaction g d i e) | _ \<Rightarrow> None)
      | ReactionWait d i e \<Rightarrow> (case a of GotFlag accepted \<Rightarrow> Some (reaction_done d i e accepted) | _ \<Rightarrow> None)
      | MarkRead d i \<Rightarrow>
          (case a of Go \<Rightarrow> Some (\<lambda>st. st\<lparr>tu_dialogs := zero_unread d (tu_dialogs st)\<rparr>) | Raised \<Rightarrow> Some id | _ \<Rightarrow> None)
      | OutboundStart d txt \<Rightarrow> (case a of Go \<Rightarrow> Some (outbound_start g d txt) | _ \<Rightarrow> None)
      | OutboundPrepare d txt shown \<Rightarrow> (case a of GotPrepared r \<Rightarrow> Some (outbound_prepared g d txt shown r) | _ \<Rightarrow> None)
      | OutboundPick d txt token \<Rightarrow> (case a of GotPick p \<Rightarrow> Some (outbound_picked d txt token p) | _ \<Rightarrow> None)
      | SuggestStart d notify_empty show_thinking \<Rightarrow>
          (case a of Go \<Rightarrow> Some (suggest_start g d notify_empty show_thinking) | _ \<Rightarrow> None)
      | Suggesting d notify_empty shown \<Rightarrow>
          (case a of
             GotDraft dr \<Rightarrow> Some (suggest_done d notify_empty shown (Some dr))
           | Raised \<Rightarrow> Some (suggest_done d notify_empty shown None)
           | _ \<Rightarrow> None)
      | ReloadStart \<Rightarrow> (case a of Go \<Rightarrow> Some (\<lambda>st. await g (ReloadFetch (tu_tab st)) st) | _ \<Rightarrow> None)
      | ReloadFetch t \<Rightarrow>
          (case a of GotDialogs ds \<Rightarrow> Some (reload_done t (Some ds)) | Raised \<Rightarrow> Some (reload_done t None) | _ \<Rightarrow> None)
      | _ \<Rightarrow> Some id)"

datatype tui_event =
    OpenDialog int
  | TypeText utext
  | Changed
  | Submitted utext bool
  | ScrolledTop
  | ReactKey nat
  | SuggestKey
  | AcceptKey
  | EscapeKey bool bool
  | TranslateKey
  | ToggleAutoKey
  | SettingsKey
  | TabActivated tab
  | Resume worker_group task answer

fun tui_step :: "tui_env \<Rightarrow> tui_event \<Rightarrow> tui \<Rightarrow> tui" where
  "tui_step env (OpenDialog d) st = open_dialog d st"
| "tui_step env (TypeText v) st = set_composer v st"
| "tui_step env Changed st =
     (case tu_posted st of [] \<Rightarrow> st | v # vs \<Rightarrow> composer_changed v (st\<lparr>tu_posted := vs\<rparr>))"
| "tui_step env (Submitted v exists) st = submitted env v exists st"
| "tui_step env ScrolledTop st = maybe_backfill_history env st"
| "tui_step env (ReactKey r) st = react_key r st"
| "tui_step env SuggestKey st = suggest_reply env st"
| "tui_step env AcceptKey st = accept_suggestion st"
| "tui_step env (EscapeKey c s) st = clear_search c s st"
| "tui_step env TranslateKey st = translate_all env st"
| "tui_step env ToggleAutoKey st = toggle_auto_translate env st"
| "tui_step env SettingsKey st = run_worker GDefault True SettingsOpen st"
| "tui_step env (TabActivated t) st =
     run_worker GDialogs True ReloadStart (st\<lparr>tu_tab := t, tu_search := []\<rparr>)"
| "tui_step env (Resume g t a) st =
     (if (g, t) \<in> set (tu_jobs st)
      then (case continue env g t a of
              Some f \<Rightarrow> f (st\<lparr>tu_jobs := remove1 (g, t) (tu_jobs st)\<rparr>) | None \<Rightarrow> st)
      else st)"

definition tui_run :: "tui_env \<Rightarrow> tui_event list \<Rightarrow> tui \<Rightarrow> tui" where
  "tui_run env evs st = fold (tui_step env) evs st"

text \<open>The state \<open>_startup\<close> leaves: the dialogs are loaded and the three listeners run.\<close>

definition tui_ready :: "real \<Rightarrow> bool \<Rightarrow> dialog list \<Rightarrow> tui" where
  "tui_ready retry_base auto ds =
     \<lparr>tu_current = None, tu_gen = 0, tu_kind = None, tu_tab = TabAll, tu_search = [], tu_loaded_tab = Some TabAll,
      tu_dialogs = ds, tu_composer = [], tu_posted = [], tu_compose = (\<lambda>_. None), tu_escape_armed = False,
      tu_bubbles = [], tu_pane = [EmptyHint], tu_index = (\<lambda>_. None), tu_oldest = None, tu_exhausted = (\<lambda>_. None),
      tu_backfilling = [], tu_down = [], tu_suggestion = None, tu_suggestion_dialog = None, tu_strip = [],
      tu_sent = [], tu_sent_reactions = [], tu_pending = (\<lambda>_. None), tu_auto = auto, tu_lang_prompt = False,
      tu_jobs = map (\<lambda>f. (GDefault, Listen f retry_base)) [FeedIncoming, FeedOutgoing, FeedReaction],
      tu_calls = []\<rparr>"

end
