(* ===== verification/Tui_Safe.thy ===== *)
theory Tui_Safe
  imports Tui_Step
begin

text \<open>
  What holds of every run of the terminal interface: a text is sent to a dialog only as it
  was entered there and once per Enter; bubbles found through the index, reactions and older
  pages always belong to the open dialog.
\<close>

named_theorems quiet "operations that leave the workers, the bubbles and the cursor alone"

section \<open>What the invariants look at\<close>

definition core where
  "core st = (tu_current st, tu_gen st, tu_bubbles st, tu_index st, tu_oldest st, tu_backfilling st, tu_pending st,
     tu_jobs st, tu_calls st)"

lemma core_eq:
  "core st' = core st \<longleftrightarrow> tu_current st' = tu_current st \<and> tu_gen st' = tu_gen st \<and> tu_bubbles st' = tu_bubbles st
     \<and> tu_index st' = tu_index st \<and> tu_oldest st' = tu_oldest st \<and> tu_backfilling st' = tu_backfilling st
     \<and> tu_pending st' = tu_pending st \<and> tu_jobs st' = tu_jobs st \<and> tu_calls st' = tu_calls st"
  by (auto simp: core_def)

lemma quiet_composer [quiet]: "core (set_composer v st) = core st"
  by (simp add: core_eq set_composer_def)

lemma quiet_compose [quiet]: "core (with_compose d f st) = core st"
  by (simp add: core_eq with_compose_def)

lemma quiet_save [quiet]: "core (save_current_compose_state st) = core st"
  by (simp add: save_current_compose_state_def quiet split: option.split)

lemma quiet_restore [quiet]: "core (restore_compose_state d st) = core st"
  by (simp add: restore_compose_state_def Let_def quiet)

lemma quiet_pending [quiet]: "core (clear_pending_outbound d st) = core st"
  by (simp add: clear_pending_outbound_def quiet)

lemma quiet_clear [quiet]: "core (optimistic_clear d st) = core st"
  by (simp add: optimistic_clear_def quiet)

lemma quiet_draft [quiet]: "core (restore_draft d txt st) = core st"
  by (simp add: restore_draft_def Let_def quiet split: option.split)

lemma quiet_after_send [quiet]: "core (clear_compose_state_after_send d txt st) = core st"
  by (simp add: clear_compose_state_after_send_def Let_def quiet)

lemma quiet_fill [quiet]: "core (fill_composer d txt st) = core st"
  by (simp add: fill_composer_def quiet)

lemma quiet_suggestion [quiet]: "core (clear_suggestion st) = core st"
  by (simp add: core_eq clear_suggestion_def)

lemma quiet_touch [quiet]: "core (touch_dialog_for_message d m incoming st) = core st"
  by (simp add: core_eq touch_dialog_for_message_def split: option.split)

lemma quiet_remember [quiet]: "core (remember_sent_message d i st) = core st"
  by (simp add: core_eq remember_sent_message_def)

lemma quiet_connected [quiet]: "core (mark_connected f st) = core st" "core (mark_down f st) = core st"
  by (simp_all add: core_eq mark_connected_def mark_down_def)

lemma quiet_changed [quiet]: "core (composer_changed v st) = core st"
  by (auto simp: composer_changed_def Let_def quiet split: option.split) (simp_all add: core_eq)

lemma quiet_accept [quiet]: "core (accept_suggestion st) = core st"
  by (auto simp: accept_suggestion_def Let_def quiet split: option.split)

lemma quiet_escape [quiet]: "core (clear_search c s st) = core st"
  by (auto simp: clear_search_def quiet core_eq [symmetric]) (simp_all add: core_eq set_composer_def)

lemma quiet_suggest_done [quiet]: "core (suggest_done d n s dr st) = core st"
  by (simp add: suggest_done_def core_eq split: option.split)

lemma quiet_reload [quiet]: "core (reload_done t ds st) = core st"
  by (simp add: reload_done_def core_eq split: option.split)

section \<open>Texts are sent as they were submitted\<close>

fun sends_of :: "tui_call \<Rightarrow> (int \<times> utext) list" where
  "sends_of (CallSendText d txt token) = [(d, txt)]"
| "sends_of _ = []"

text \<open>A worker that will still ask the coordinator to send.\<close>

fun due_of :: "task \<Rightarrow> (int \<times> utext) list" where
  "due_of (SendStart d txt token) = [(d, txt)]"
| "due_of (OutboundStart d txt) = [(d, txt)]"
| "due_of (OutboundPrepare d txt shown) = [(d, txt)]"
| "due_of _ = []"

definition sent_texts :: "tui \<Rightarrow> (int \<times> utext) list" where
  "sent_texts st = concat (map sends_of (tu_calls st))"

definition due_texts :: "tui \<Rightarrow> (int \<times> utext) list" where
  "due_texts st = concat (map (\<lambda>j. due_of (snd j)) (tu_jobs st))"

definition send_weight :: "tui \<Rightarrow> (int \<times> utext) multiset" where
  "send_weight st = mset (sent_texts st) + mset (due_texts st)"

text \<open>What the user entered: the value of each \<open>Submitted\<close> with the dialog open at that moment.\<close>

fun entered :: "tui_event \<Rightarrow> tui \<Rightarrow> (int \<times> utext) list" where
  "entered (Submitted v exists) st = (case tu_current st of Some d \<Rightarrow> [(d, v)] | None \<Rightarrow> [])"
| "entered _ st = []"

fun entered_texts :: "tui_env \<Rightarrow> tui_event list \<Rightarrow> tui \<Rightarrow> (int \<times> utext) list" where
  "entered_texts env [] st = []"
| "entered_texts env (e # evs) st = entered e st @ entered_texts env evs (tui_step env e st)"

lemma weight_core: "core st' = core st \<Longrightarrow> send_weight st' = send_weight st"
  by (simp add: core_eq send_weight_def sent_texts_def due_texts_def)

lemma weight_await: "send_weight (await g t st) = send_weight st + mset (due_of t)"
  by (simp add: send_weight_def sent_texts_def due_texts_def await_def)

lemma weight_call: "send_weight (call c st) = send_weight st + mset (sends_of c)"
  by (simp add: send_weight_def sent_texts_def due_texts_def call_def)

lemma mset_concat_filter: "mset (concat (map f (filter p xs))) \<subseteq># mset (concat (map f xs))"
  by (induction xs) (auto intro: subset_mset.add_mono subset_mset.add_increasing)

lemma weight_cancel: "send_weight (cancel_group g st) \<subseteq># send_weight st"
  by (simp add: send_weight_def sent_texts_def due_texts_def cancel_group_def Let_def mset_concat_filter)

lemma weight_worker: "send_weight (run_worker g x t st) \<subseteq># send_weight st + mset (due_of t)"
proof -
  have "send_weight (run_worker g x t st) = send_weight (if x then cancel_group g st else st) + mset (due_of t)"
    by (simp add: run_worker_def send_weight_def sent_texts_def due_texts_def Let_def)
  then show ?thesis by (auto simp: weight_cancel)
qed

lemma mset_concat_remove1:
  "x \<in> set xs \<Longrightarrow> mset (concat (map f xs)) = mset (concat (map f (remove1 x xs))) + mset (f x)"
  by (induction xs) auto

lemma weight_remove: "(g, t) \<in> set (tu_jobs st) \<Longrightarrow>
    send_weight st = send_weight (st\<lparr>tu_jobs := remove1 (g, t) (tu_jobs st)\<rparr>) + mset (due_of t)"
  using mset_concat_remove1 [of "(g, t)" "tu_jobs st" "\<lambda>j. due_of (snd j)"]
  by (simp add: send_weight_def sent_texts_def due_texts_def)

text \<open>Operations that only draw.\<close>

definition drawing :: "tui \<Rightarrow> tui \<Rightarrow> bool" where
  "drawing st st' \<longleftrightarrow> tu_jobs st' = tu_jobs st \<and> tu_calls st' = tu_calls st \<and> tu_current st' = tu_current st
     \<and> tu_gen st' = tu_gen st \<and> tu_backfilling st' = tu_backfilling st"

lemma drawing_refl [simp]: "drawing st st"
  by (simp add: drawing_def)

lemma drawing_trans: "drawing a b \<Longrightarrow> drawing b c \<Longrightarrow> drawing a c"
  by (simp add: drawing_def)

lemma drawing_bubbles: "drawing st (bubbles_for env d ms st)"
  by (induction ms arbitrary: st) (auto simp: bubbles_for_def message_bubble_for_def drawing_def)

lemma drawing_pages: "drawing st (mount_page env d ms st)" "drawing st (mount_page_above env d ms st)"
  using drawing_bubbles [of st env d ms] by (simp_all add: mount_page_def mount_page_above_def drawing_def)

lemma drawing_update: "drawing st (update_bubble r f st)"
  by (simp add: update_bubble_def drawing_def)

lemma drawing_translated: "drawing st (show_translated m st)"
  by (auto simp: show_translated_def drawing_update split: option.split)

lemma drawing_translated_all: "drawing st (fold show_translated ms st)"
  by (induction ms arbitrary: st) (auto intro: drawing_trans drawing_translated)

lemma drawing_react: "drawing st (react_indexed d e r st)"
  by (simp add: react_indexed_def drawing_update)

lemma drawing_reaction: "drawing st (apply_reaction d i e st)"
  by (cases "tu_index st i") (simp_all add: apply_reaction_def drawing_react, simp add: drawing_def)

lemma drawing_replay: "drawing st (replay_reactions d ps st)"
proof (induction d ps st rule: replay_reactions.induct)
  case (1 d st)
  then show ?case by simp
next
  case (2 d i e ps st)
  have "drawing st (case tu_index st i of None \<Rightarrow> st | Some r \<Rightarrow> react_indexed d e r st)"
    by (simp add: drawing_react split: option.split)
  from drawing_trans [OF this 2] show ?case by simp
qed

lemma drawing_drain: "drawing st (drain_pending_reactions d st)"
  using drawing_replay [of "st\<lparr>tu_pending := (tu_pending st)(d := None)\<rparr>" d]
  by (simp add: drain_pending_reactions_def drawing_def)

lemma drawing_exhaust: "drawing st (exhaust d st)"
  by (simp add: exhaust_def drawing_def)

lemma weight_drawing: "drawing st st' \<Longrightarrow> send_weight st' = send_weight st"
  by (simp add: drawing_def send_weight_def sent_texts_def due_texts_def)

lemmas weight_quiet = quiet [THEN weight_core]

lemmas weight_draw = drawing_bubbles [THEN weight_drawing] drawing_pages [THEN weight_drawing]
  drawing_update [THEN weight_drawing] drawing_translated_all [THEN weight_drawing]
  drawing_reaction [THEN weight_drawing] drawing_drain [THEN weight_drawing] drawing_exhaust [THEN weight_drawing]

text \<open>Fields the weight does not look at.\<close>

lemma weight_fields [simp]:
  "send_weight (st\<lparr>tu_pane := p\<rparr>) = send_weight st" "send_weight (st\<lparr>tu_index := ix\<rparr>) = send_weight st"
  "send_weight (st\<lparr>tu_oldest := ol\<rparr>) = send_weight st" "send_weight (st\<lparr>tu_backfilling := bf\<rparr>) = send_weight st"
  "send_weight (st\<lparr>tu_strip := sp\<rparr>) = send_weight st" "send_weight (st\<lparr>tu_auto := au\<rparr>) = send_weight st"
  "send_weight (st\<lparr>tu_lang_prompt := lp\<rparr>) = send_weight st" "send_weight (st\<lparr>tu_posted := ps\<rparr>) = send_weight st"
  "send_weight (st\<lparr>tu_sent := sn\<rparr>) = send_weight st" "send_weight (st\<lparr>tu_sent_reactions := sr\<rparr>) = send_weight st"
  "send_weight (st\<lparr>tu_dialogs := ds\<rparr>) = send_weight st" "send_weight (st\<lparr>tu_tab := tb\<rparr>) = send_weight st"
  "send_weight (st\<lparr>tu_search := se\<rparr>) = send_weight st" "send_weight (st\<lparr>tu_current := cu\<rparr>) = send_weight st"
  "send_weight (st\<lparr>tu_gen := ge\<rparr>) = send_weight st" "send_weight (st\<lparr>tu_kind := ki\<rparr>) = send_weight st"
  "send_weight (st\<lparr>tu_pending := pe\<rparr>) = send_weight st"
  by (simp_all add: send_weight_def sent_texts_def due_texts_def)

lemma weight_release [simp]: "send_weight (release_guard d st) = send_weight st"
  by (simp add: release_guard_def)

lemma weight_worker_none: "due_of t = [] \<Longrightarrow> send_weight (run_worker g x t st) \<subseteq># send_weight st"
  using weight_worker [of g x t st] by simp

lemma weight_cancel_le: "send_weight st \<subseteq># w \<Longrightarrow> send_weight (cancel_group g st) \<subseteq># w"
  using weight_cancel [of g st] by (rule subset_mset.order_trans)

lemma weight_worker_le: "send_weight st + mset (due_of t) \<subseteq># w \<Longrightarrow> send_weight (run_worker g x t st) \<subseteq># w"
  using weight_worker [of g x t st] by (rule subset_mset.order_trans)

lemma weight_mount_history: "send_weight (mount_history env d ms st) = send_weight st"
  by (simp add: mount_history_def Let_def weight_draw)

lemma weight_after_history: "send_weight (after_history env d ms s) \<subseteq># send_weight s"
  by (auto simp: after_history_def Let_def intro!: weight_worker_le)

lemma weight_show_history: "send_weight (show_history env d ms st) \<subseteq># send_weight st"
proof -
  have "send_weight (show_history env d ms st) \<subseteq># send_weight (drain_pending_reactions d (mount_history env d ms st))"
    unfolding show_history_def by (rule weight_after_history)
  also have "\<dots> = send_weight st" by (simp only: drawing_drain [THEN weight_drawing] weight_mount_history)
  finally show ?thesis .
qed

lemma weight_backfill_done: "send_weight (backfill_done env d a st) = send_weight st"
  by (simp add: backfill_done_def Let_def weight_draw split: option.split)

lemma weight_whole_done: "send_weight (translate_whole_done env d a st) = send_weight st"
  by (simp add: translate_whole_done_def Let_def weight_draw split: option.split)

lemma weight_incoming: "send_weight (incoming_touched env g dl ev st) \<subseteq># send_weight st"
proof -
  have live: "send_weight (live_translation env d m r s) \<subseteq># send_weight s" for d m r s
    by (simp add: live_translation_def weight_worker_none)
  have sug: "send_weight (maybe_suggest env d s) \<subseteq># send_weight s" for d s
    by (simp add: maybe_suggest_def weight_worker_none)
  have "send_weight (maybe_suggest env d (run_worker GMarkRead True (MarkRead d i) (live_translation env d m r (mount_page env d [m] st))))
      \<subseteq># send_weight st" for d i m r
    by (rule subset_mset.order_trans [OF sug weight_worker_le])
      (use live [of d m r "mount_page env d [m] st"] in \<open>simp add: weight_draw\<close>)
  then show ?thesis by (simp add: incoming_touched_def Let_def weight_await)
qed

lemma weight_outgoing: "send_weight (outgoing_touched env g dl ev st) \<subseteq># send_weight st"
proof -
  have "send_weight (live_translation env d m r (mount_page env d [m] st)) \<subseteq># send_weight st" for d m r
    using weight_worker_none [of "TranslateLive d r" GTranslateLive False "mount_page env d [m] st"]
    by (simp add: live_translation_def weight_draw)
  then show ?thesis by (simp add: outgoing_touched_def Let_def weight_await)
qed

lemma weight_continue:
  "continue env g t a = Some f \<Longrightarrow> send_weight (f st) \<subseteq># send_weight st + mset (due_of t)"
  by (cases t; cases a)
    (auto simp: continue_def weight_await weight_call weight_quiet weight_draw weight_show_history weight_backfill_done
      weight_whole_done weight_incoming weight_outgoing incoming_start_def outgoing_start_def reaction_event_def Let_def
      history_start_def backfill_start_def translate_whole_start_def translate_whole_cleared_def send_start_def send_done_def
      sent_touched_def media_start_def media_done_def picked_reaction_def reaction_done_def outbound_start_def
      outbound_prepared_def outbound_picked_def suggest_start_def
      split: if_splits option.splits send_answer.splits pick.splits prepare_status.splits)

lemma weight_submitted: "send_weight (submitted env v ex st) \<subseteq># send_weight st + mset (entered (Submitted v ex) st)"
proof -
  have clear: "send_weight (run_worker g x t (optimistic_clear d s)) \<subseteq># send_weight s + mset (due_of t)" for g x t d s
    using weight_worker [of g x t "optimistic_clear d s"] by (simp add: weight_quiet)
  have quietly: "send_weight (run_worker g x t (optimistic_clear d s)) \<subseteq># add_mset p (send_weight s)" if "due_of t = []" for g x t d s p
    by (rule subset_mset.order_trans [OF clear]) (simp add: that)
  have plain: "send_weight (submit_plain env d v s) \<subseteq># send_weight s + {#(d, v)#}" for d s
    using clear [of GDefault False "SendStart d v t" d s for t]
      weight_worker [of GOutbound True "OutboundStart d v"
        "with_compose d (\<lambda>s. s\<lparr>cm_draft := v\<rparr>) (set_composer [] (with_compose d (\<lambda>s. s\<lparr>cm_ignore_empty := True\<rparr>) s))"]
    by (simp add: submit_plain_def Let_def weight_quiet)
  have "send_weight (submit_text env d v ex s) \<subseteq># send_weight s + {#(d, v)#}" for d s
    using clear [of GDefault False "SendStart d v None" d s] plain [of d s]
    by (auto simp: submit_text_def quietly split: sum.split option.split)
  from this [of d "with_compose d f st" for d f]
  show ?thesis by (auto simp: submitted_def Let_def weight_quiet split: option.split)
qed

lemma weight_step: "send_weight (tui_step env e st) \<subseteq># send_weight st + mset (entered e st)"
proof (cases e)
  case (Resume g t a)
  show ?thesis
  proof (cases "(g, t) \<in> set (tu_jobs st)")
    case True
    then show ?thesis
      using weight_continue [of env g t a _ "st\<lparr>tu_jobs := remove1 (g, t) (tu_jobs st)\<rparr>"] weight_remove [OF True]
      by (auto simp: Resume split: option.split)
  qed (simp add: Resume)
next
  case (Submitted v ex)
  then show ?thesis using weight_submitted by simp
next
  case (OpenDialog d)
  then show ?thesis
    by (simp add: open_dialog_def Let_def) (rule weight_worker_le, simp, rule weight_cancel_le, simp add: weight_quiet)
qed (auto simp: weight_quiet react_key_def suggest_reply_def translate_all_def toggle_auto_translate_def
    maybe_backfill_history_def Let_def intro!: weight_worker_le split: option.split list.split)

lemma weight_run: "send_weight (tui_run env evs st) \<subseteq># send_weight st + mset (entered_texts env evs st)"
proof (induction evs arbitrary: st)
  case Nil
  then show ?case by (simp add: tui_run_def)
next
  case (Cons e evs)
  have "send_weight (tui_run env (e # evs) st) \<subseteq># send_weight (tui_step env e st) + mset (entered_texts env evs (tui_step env e st))"
    using Cons.IH by (simp add: tui_run_def)
  also have "\<dots> \<subseteq># send_weight st + mset (entered e st) + mset (entered_texts env evs (tui_step env e st))"
    by (simp add: weight_step)
  finally show ?case by (simp add: add.assoc)
qed

text \<open>
  C31: Nothing is sent that was not entered. In every run, whatever the order in which events
  arrive and workers go on, are cancelled or fail, the texts handed to the coordinator are,
  counted with multiplicity, among those the user submitted with the very dialog open they
  go to: no text goes to another dialog, none goes out twice for one Enter, and no
  suggestion, translation or restored draft is ever sent by itself.
\<close>

theorem tui_sends_as_entered:
  "mset (sent_texts (tui_run env evs (tui_ready base auto ds)))
    \<subseteq># mset (entered_texts env evs (tui_ready base auto ds))"
proof -
  have "send_weight (tui_ready base auto ds) = {#}"
    by (simp add: tui_ready_def send_weight_def sent_texts_def due_texts_def)
  with weight_run [of env evs "tui_ready base auto ds"]
  have "send_weight (tui_run env evs (tui_ready base auto ds)) \<subseteq># mset (entered_texts env evs (tui_ready base auto ds))"
    by simp
  then show ?thesis unfolding send_weight_def by (rule subset_mset.order_trans [rotated]) simp
qed

end
