(* ===== verification/Tui_View.thy ===== *)
theory Tui_View
  imports Tui_Safe
begin

text \<open>
  The message pane of the terminal interface in every run: whose messages the index of
  bubbles holds, where a reaction goes, which cursor pages older history; what scrolling
  shows; and what the settings key does to the live feeds.
\<close>

section \<open>The invariant\<close>

text \<open>What identifies a bubble.\<close>

definition tag :: "bubble \<Rightarrow> int option \<times> int option \<times> nat option" where
  "tag b = (bb_message_id b, bb_dialog_id b, bb_gen b)"

definition tags :: "tui \<Rightarrow> (int option \<times> int option \<times> nat option) list" where
  "tags st = map tag (tu_bubbles st)"

definition drawn :: "tui \<Rightarrow> int \<Rightarrow> int \<Rightarrow> bool" where
  "drawn st d i \<longleftrightarrow> (\<exists>g. (Some i, Some d, g) \<in> set (tags st))"

fun job_ok :: "tui \<Rightarrow> worker_group \<times> task \<Rightarrow> bool" where
  "job_ok st (g, HistoryStart d) \<longleftrightarrow> g = GHistory \<and> tu_current st = Some d"
| "job_ok st (g, HistoryFetch d) \<longleftrightarrow> g = GHistory \<and> tu_current st = Some d"
| "job_ok st (g, BackfillStart d i) \<longleftrightarrow> g = GBackfill \<and> tu_current st = Some d \<and> drawn st d i"
| "job_ok st (g, BackfillFetch d i) \<longleftrightarrow> g = GBackfill \<and> tu_current st = Some d \<and> drawn st d i"
| "job_ok st (g, TranslateLive d r) \<longleftrightarrow> r < length (tags st) \<and> fst (snd (tags st ! r)) = Some d"
| "job_ok st (g, PickReaction d i) \<longleftrightarrow> drawn st d i"
| "job_ok st _ \<longleftrightarrow> True"

fun call_ok :: "tui \<Rightarrow> tui_call \<Rightarrow> bool" where
  "call_ok st (AskHistory d (Some i)) \<longleftrightarrow> drawn st d i"
| "call_ok st (CallReaction d i e) \<longleftrightarrow> drawn st d i"
| "call_ok st _ \<longleftrightarrow> True"

definition tag_ok :: "int option \<Rightarrow> nat \<Rightarrow> int option \<times> int option \<times> nat option \<Rightarrow> bool" where
  "tag_ok cur gen t \<longleftrightarrow> fst t \<noteq> None \<and> fst (snd t) \<noteq> None
     \<and> (\<exists>n. snd (snd t) = Some n \<and> n \<le> gen \<and> (n = gen \<longrightarrow> fst (snd t) = cur))"

definition view_inv :: "tui \<Rightarrow> bool" where
  "view_inv st \<longleftrightarrow>
     (\<forall>t\<in>set (tags st). tag_ok (tu_current st) (tu_gen st) t)
     \<and> (\<forall>i r. tu_index st i = Some r \<longrightarrow> r < length (tags st) \<and> tags st ! r = (Some i, tu_current st, Some (tu_gen st)))
     \<and> (\<forall>i. tu_oldest st = Some i \<longrightarrow> (Some i, tu_current st, Some (tu_gen st)) \<in> set (tags st))
     \<and> (\<forall>j\<in>set (tu_jobs st). job_ok st j)
     \<and> (\<forall>c\<in>set (tu_calls st). call_ok st c)"

section \<open>Operations that do not change it\<close>

definition same_view :: "tui \<Rightarrow> tui \<Rightarrow> bool" where
  "same_view st st' \<longleftrightarrow> tu_current st' = tu_current st \<and> tu_gen st' = tu_gen st \<and> tags st' = tags st
     \<and> tu_index st' = tu_index st \<and> tu_oldest st' = tu_oldest st \<and> tu_jobs st' = tu_jobs st \<and> tu_calls st' = tu_calls st"

lemma job_ok_cong: "tu_current st' = tu_current st \<Longrightarrow> tags st' = tags st \<Longrightarrow> job_ok st' j = job_ok st j"
  by (cases "(st, j)" rule: job_ok.cases) (auto simp: drawn_def)

lemma call_ok_cong: "tags st' = tags st \<Longrightarrow> call_ok st' c = call_ok st c"
  by (cases "(st, c)" rule: call_ok.cases) (auto simp: drawn_def)

lemma view_same: "same_view st st' \<Longrightarrow> view_inv st' = view_inv st"
  using job_ok_cong [of st' st] call_ok_cong [of st' st] by (simp add: same_view_def view_inv_def)

lemma view_core: "core st' = core st \<Longrightarrow> view_inv st' = view_inv st"
  by (rule view_same) (simp add: core_eq same_view_def tags_def)

lemmas view_quiet = quiet [THEN view_core]

lemma same_view_update: "(\<And>b. tag (f b) = tag b) \<Longrightarrow> same_view st (update_bubble r f st)"
proof -
  assume "\<And>b. tag (f b) = tag b"
  then have "map tag (bs[r := f (bs ! r)]) = map tag bs" if "r < length bs" for bs
    using that by (simp add: map_update list_update_same_conv)
  then show ?thesis by (simp add: update_bubble_def same_view_def tags_def)
qed

lemma tag_changes: "tag (add_reaction e b) = tag b" "tag (show_translation t b) = tag b"
  by (simp_all add: add_reaction_def show_translation_def tag_def Let_def)

lemma same_view_refl [simp]: "same_view st st"
  by (simp add: same_view_def)

lemma same_view_trans: "same_view a b \<Longrightarrow> same_view b c \<Longrightarrow> same_view a c"
  by (simp add: same_view_def)

lemma same_view_react: "same_view st (react_indexed d e r st)"
  by (simp add: react_indexed_def same_view_update tag_changes)

lemma same_view_reaction: "same_view st (apply_reaction d i e st)"
  by (cases "tu_index st i") (simp_all add: apply_reaction_def same_view_react, simp add: same_view_def tags_def)

lemma same_view_replay: "same_view st (replay_reactions d ps st)"
proof (induction d ps st rule: replay_reactions.induct)
  case (1 d st)
  then show ?case by simp
next
  case (2 d i e ps st)
  have "same_view st (case tu_index st i of None \<Rightarrow> st | Some r \<Rightarrow> react_indexed d e r st)"
    by (simp add: same_view_react split: option.split)
  from same_view_trans [OF this 2] show ?case by simp
qed

lemma same_view_drain: "same_view st (drain_pending_reactions d st)"
  using same_view_replay [of "st\<lparr>tu_pending := (tu_pending st)(d := None)\<rparr>" d]
  by (simp add: drain_pending_reactions_def same_view_def tags_def)

lemma same_view_translated: "same_view st (fold show_translated ms st)"
proof (induction ms arbitrary: st)
  case Nil
  then show ?case by simp
next
  case (Cons m ms)
  have "same_view st (show_translated m st)"
    by (auto simp: show_translated_def same_view_update tag_changes split: option.split)
  from same_view_trans [OF this Cons] show ?case by simp
qed

lemma same_view_fields:
  "same_view st (st\<lparr>tu_pane := p\<rparr>)" "same_view st (st\<lparr>tu_strip := sp\<rparr>)" "same_view st (st\<lparr>tu_auto := au\<rparr>)"
  "same_view st (st\<lparr>tu_lang_prompt := lp\<rparr>)" "same_view st (st\<lparr>tu_posted := ps\<rparr>)" "same_view st (st\<lparr>tu_sent := sn\<rparr>)"
  "same_view st (st\<lparr>tu_sent_reactions := sr\<rparr>)" "same_view st (st\<lparr>tu_dialogs := ds\<rparr>)" "same_view st (st\<lparr>tu_search := se\<rparr>)"
  "same_view st (st\<lparr>tu_tab := tb\<rparr>)" "same_view st (st\<lparr>tu_backfilling := bf\<rparr>)" "same_view st (st\<lparr>tu_pending := pe\<rparr>)"
  "same_view st (exhaust d st)" "same_view st (release_guard d st)"
  by (simp_all add: same_view_def tags_def exhaust_def release_guard_def)

lemmas view_idle = same_view_fields [THEN view_same] same_view_update [THEN view_same] same_view_reaction [THEN view_same]
  same_view_drain [THEN view_same] same_view_translated [THEN view_same]

section \<open>Operations that draw\<close>

lemma tags_bubbles:
  "tags (bubbles_for env d ms st) = tags st @ map (\<lambda>m. (Some (ms_id m), Some d, Some (tu_gen st))) ms"
  by (induction ms arbitrary: st)
    (simp_all add: bubbles_for_def message_bubble_for_def tags_def tag_def new_bubble_def)

lemma drawn_more: "tags st' = tags st @ more_tags \<Longrightarrow> drawn st d i \<Longrightarrow> drawn st' d i"
  by (auto simp: drawn_def)

lemma job_ok_more: "tu_current st' = tu_current st \<Longrightarrow> tags st' = tags st @ more_tags \<Longrightarrow> job_ok st j \<Longrightarrow> job_ok st' j"
  by (cases "(st, j)" rule: job_ok.cases) (auto simp: nth_append intro: drawn_more)

lemma call_ok_more: "tags st' = tags st @ more_tags \<Longrightarrow> call_ok st c \<Longrightarrow> call_ok st' c"
  by (cases "(st, c)" rule: call_ok.cases) (auto intro: drawn_more)

lemma view_message:
  assumes "view_inv st" and "tu_current st = Some d"
  shows "view_inv (message_bubble_for env m d st)"
proof -
  let ?st' = "message_bubble_for env m d st"
  have t: "tags ?st' = tags st @ [(Some (ms_id m), Some d, Some (tu_gen st))]"
    using tags_bubbles [of env d "[m]" st] by (simp add: bubbles_for_def)
  have f: "tu_current ?st' = tu_current st" "tu_gen ?st' = tu_gen st" "tu_oldest ?st' = tu_oldest st"
    "tu_jobs ?st' = tu_jobs st" "tu_calls ?st' = tu_calls st" "tu_index ?st' = (tu_index st)(ms_id m \<mapsto> length (tags st))"
    by (simp_all add: message_bubble_for_def tags_def)
  show ?thesis
    unfolding view_inv_def f
  proof (intro conjI ballI allI impI)
    fix x assume "x \<in> set (tags ?st')"
    then show "tag_ok (tu_current st) (tu_gen st) x" using assms by (auto simp: t view_inv_def tag_ok_def)
  next
    fix i r assume "((tu_index st)(ms_id m \<mapsto> length (tags st))) i = Some r"
    then show "r < length (tags ?st')" and "tags ?st' ! r = (Some i, tu_current st, Some (tu_gen st))"
      using assms by (force simp: view_inv_def t nth_append split: if_splits)+
  next
    fix i assume "tu_oldest st = Some i"
    then show "(Some i, tu_current st, Some (tu_gen st)) \<in> set (tags ?st')" using assms by (auto simp: t view_inv_def)
  next
    fix j assume "j \<in> set (tu_jobs st)"
    then show "job_ok ?st' j" using assms(1) job_ok_more [OF f(1) t] by (auto simp: view_inv_def)
  next
    fix c assume "c \<in> set (tu_calls st)"
    then show "call_ok ?st' c" using assms(1) call_ok_more [OF t] by (auto simp: view_inv_def)
  qed
qed

lemma view_bubbles: "view_inv st \<Longrightarrow> tu_current st = Some d \<Longrightarrow> view_inv (bubbles_for env d ms st)"
proof (induction ms arbitrary: st)
  case (Cons m ms)
  then show ?case
    using Cons.IH [OF view_message [OF Cons.prems]] by (simp add: bubbles_for_def message_bubble_for_def)
qed (simp add: bubbles_for_def)

lemma view_pages:
  assumes "view_inv st" and "tu_current st = Some d"
  shows "view_inv (mount_page env d ms st)" and "view_inv (mount_page_above env d ms st)"
  using view_bubbles [OF assms] by (simp_all add: mount_page_def mount_page_above_def view_idle)

lemma tags_fields [simp]: "tags (st\<lparr>tu_index := ix\<rparr>) = tags st" "tags (st\<lparr>tu_oldest := o'\<rparr>) = tags st"
  "tags (st\<lparr>tu_jobs := js\<rparr>) = tags st" "tags (st\<lparr>tu_calls := cs\<rparr>) = tags st" "tags (st\<lparr>tu_pane := p\<rparr>) = tags st"
  "tags (st\<lparr>tu_backfilling := bf\<rparr>) = tags st" "tags (st\<lparr>tu_current := cu\<rparr>) = tags st"
  by (simp_all add: tags_def)

lemma view_no_index: "view_inv st \<Longrightarrow> view_inv (st\<lparr>tu_index := (\<lambda>_. None)\<rparr>)"
  using job_ok_cong [of "st\<lparr>tu_index := (\<lambda>_. None)\<rparr>" st] call_ok_cong [of "st\<lparr>tu_index := (\<lambda>_. None)\<rparr>" st]
  by (simp add: view_inv_def)

lemma view_oldest:
  assumes "view_inv st" and "\<forall>i. o' = Some i \<longrightarrow> (Some i, tu_current st, Some (tu_gen st)) \<in> set (tags st)"
  shows "view_inv (st\<lparr>tu_oldest := o'\<rparr>)"
  using assms job_ok_cong [of "st\<lparr>tu_oldest := o'\<rparr>" st] call_ok_cong [of "st\<lparr>tu_oldest := o'\<rparr>" st]
  by (simp add: view_inv_def)

lemma mount_fields:
  "tu_current (mount_page env d ms st) = tu_current st" "tu_gen (mount_page env d ms st) = tu_gen st"
  "tu_current (mount_page_above env d ms st) = tu_current st" "tu_gen (mount_page_above env d ms st) = tu_gen st"
  "tags (mount_page env d ms st) = tags st @ map (\<lambda>m. (Some (ms_id m), Some d, Some (tu_gen st))) ms"
  "tags (mount_page_above env d ms st) = tags st @ map (\<lambda>m. (Some (ms_id m), Some d, Some (tu_gen st))) ms"
proof -
  show "tu_current (mount_page env d ms st) = tu_current st" "tu_gen (mount_page env d ms st) = tu_gen st"
    "tu_current (mount_page_above env d ms st) = tu_current st" "tu_gen (mount_page_above env d ms st) = tu_gen st"
    using drawing_pages [of st env d ms] by (simp_all add: drawing_def)
  show "tags (mount_page env d ms st) = tags st @ map (\<lambda>m. (Some (ms_id m), Some d, Some (tu_gen st))) ms"
    "tags (mount_page_above env d ms st) = tags st @ map (\<lambda>m. (Some (ms_id m), Some d, Some (tu_gen st))) ms"
    using tags_bubbles [of env d ms st] by (simp_all add: mount_page_def mount_page_above_def tags_def)
qed

lemma view_mount_history:
  assumes "view_inv st" and "tu_current st = Some d"
  shows "view_inv (mount_history env d ms st)"
proof -
  let ?st1 = "mount_page env d ms (st\<lparr>tu_index := (\<lambda>_. None)\<rparr>)"
  have v: "view_inv ?st1" by (rule view_pages(1) [OF view_no_index [OF assms(1)]]) (simp add: assms(2))
  have "view_inv (?st1\<lparr>tu_oldest := o'\<rparr>)" if "o' = None \<or> ms \<noteq> [] \<and> o' = Some (ms_id (hd ms))" for o'
    by (rule view_oldest [OF v]) (use that assms(2) in \<open>auto simp: mount_fields\<close>)
  then show ?thesis by (auto simp: mount_history_def Let_def view_idle)
qed

section \<open>Workers\<close>

lemma view_jobs:
  assumes "view_inv st" and "set js \<subseteq> set (tu_jobs st)"
  shows "view_inv (st\<lparr>tu_jobs := js\<rparr>)"
  using assms job_ok_cong [of "st\<lparr>tu_jobs := js\<rparr>" st] call_ok_cong [of "st\<lparr>tu_jobs := js\<rparr>" st]
  by (auto simp: view_inv_def)

lemma view_cancel: "view_inv st \<Longrightarrow> view_inv (cancel_group g st)"
proof -
  assume "view_inv st"
  then have "view_inv (st\<lparr>tu_jobs := filter (\<lambda>j. fst j \<noteq> g) (tu_jobs st)\<rparr>)" by (rule view_jobs) auto
  then show ?thesis
    using view_same [of "st\<lparr>tu_jobs := filter (\<lambda>j. fst j \<noteq> g) (tu_jobs st)\<rparr>" "cancel_group g st"]
    by (simp add: same_view_def cancel_group_def Let_def tags_def)
qed

lemma view_await: "view_inv st \<Longrightarrow> job_ok st (g, t) \<Longrightarrow> view_inv (await g t st)"
  using job_ok_cong [of "await g t st" st] call_ok_cong [of "await g t st" st]
  by (auto simp: view_inv_def await_def)

lemma cancel_fields: "tu_current (cancel_group g st) = tu_current st" "tags (cancel_group g st) = tags st"
  "tu_gen (cancel_group g st) = tu_gen st"
  by (simp_all add: cancel_group_def Let_def tags_def)

lemma view_worker: "view_inv st \<Longrightarrow> job_ok st (g, t) \<Longrightarrow> view_inv (run_worker g x t st)"
proof -
  assume v: "view_inv st" and j: "job_ok st (g, t)"
  have "run_worker g x t st = await g t (if x then cancel_group g st else st)"
    by (simp add: run_worker_def await_def Let_def)
  moreover have "view_inv (if x then cancel_group g st else st)" using view_cancel [OF v] v by simp
  moreover have "job_ok (if x then cancel_group g st else st) (g, t)"
    using j job_ok_cong [of "cancel_group g st" st] by (simp add: cancel_fields)
  ultimately show ?thesis using view_await by metis
qed

lemma view_call: "view_inv st \<Longrightarrow> call_ok st c \<Longrightarrow> view_inv (call c st)"
  using job_ok_cong [of "call c st" st] call_ok_cong [of "call c st" st]
  by (auto simp: view_inv_def call_def)

lemma job_ok_core: "core st' = core st \<Longrightarrow> job_ok st' j = job_ok st j"
  by (rule job_ok_cong) (simp_all add: core_eq tags_def)

lemma view_open: "view_inv st \<Longrightarrow> view_inv (open_dialog d st)"
proof -
  assume v: "view_inv st"
  let ?s = "cancel_group GBackfill ((clear_suggestion (restore_compose_state d ((save_current_compose_state st)
        \<lparr>tu_current := Some d, tu_gen := Suc (tu_gen (save_current_compose_state st)), tu_kind := dialog_kind_of d (save_current_compose_state st)\<rparr>)))
        \<lparr>tu_index := (\<lambda>_. None), tu_pending := (\<lambda>_. None), tu_oldest := None\<rparr>)"
  let ?t = "cancel_group GHistory ?s"
  have e: "open_dialog d st = await GHistory (HistoryStart d) ?t"
    by (simp add: open_dialog_def run_worker_def await_def Let_def)
  have save: "core (save_current_compose_state st) = core st" by (simp add: quiet)
  have c: "core (clear_suggestion (restore_compose_state d s)) = core s" for s by (simp add: quiet)
  have f: "tu_current ?t = Some d" "tu_gen ?t = Suc (tu_gen st)" "tu_index ?t = (\<lambda>_. None)" "tu_oldest ?t = None"
    "tu_calls ?t = tu_calls st" "tags ?t = tags st"
    "tu_jobs ?t = filter (\<lambda>j. fst j \<noteq> GBackfill \<and> fst j \<noteq> GHistory) (tu_jobs st)"
    using save c [unfolded core_eq] by (simp_all add: core_eq cancel_group_def Let_def tags_def)
  have jobs: "job_ok ?t j" if "j \<in> set (tu_jobs ?t)" for j
  proof -
    have "job_ok st j" "fst j \<noteq> GHistory" "fst j \<noteq> GBackfill" using that v by (auto simp: f view_inv_def)
    then show ?thesis by (cases "(st, j)" rule: job_ok.cases) (auto simp: f drawn_def)
  qed
  have "view_inv ?t"
    unfolding view_inv_def
  proof (intro conjI ballI allI impI)
    fix x assume "x \<in> set (tags ?t)"
    then have "tag_ok (tu_current st) (tu_gen st) x" using v by (simp add: f view_inv_def)
    then show "tag_ok (tu_current ?t) (tu_gen ?t) x" unfolding f by (auto simp: tag_ok_def)
  next
    fix j assume "j \<in> set (tu_jobs ?t)"
    then show "job_ok ?t j" by (rule jobs)
  next
    fix k assume "k \<in> set (tu_calls ?t)"
    then show "call_ok ?t k" using v call_ok_cong [OF f(6)] by (simp add: f(5) view_inv_def)
  qed (simp_all add: f)
  then show ?thesis unfolding e by (rule view_await) (simp add: f)
qed

lemma job_ok_plain: "core st' = core st \<Longrightarrow> view_inv st \<Longrightarrow> job_ok st (g, t) \<Longrightarrow> view_inv (run_worker g x t st')"
  using view_core [of st' st] job_ok_core [of st' st] by (intro view_worker) (simp_all only:)

lemma view_submitted: "view_inv st \<Longrightarrow> view_inv (submitted env v ex st)"
proof -
  assume v: "view_inv st"
  have c: "view_inv (run_worker g x t (optimistic_clear d s))" if "view_inv s" "job_ok s (g, t)" for g x t d s
    by (rule job_ok_plain [OF _ that]) (simp add: quiet)
  have plain: "view_inv (submit_plain env d v s)" if "view_inv s" for d s
    using that c [OF that] by (simp add: submit_plain_def Let_def) (simp add: view_worker view_quiet)
  have "view_inv (submit_text env d v ex s)" if "view_inv s" for d s
    using c [OF that] plain [OF that] that by (simp add: submit_text_def split: sum.split option.split)
  then show ?thesis using v by (simp add: submitted_def Let_def view_quiet split: option.split)
qed

lemma view_after_history: "view_inv st \<Longrightarrow> view_inv (after_history env d ms st)"
  by (simp add: after_history_def Let_def view_worker)

lemma view_show_history: "view_inv st \<Longrightarrow> tu_current st = Some d \<Longrightarrow> view_inv (show_history env d ms st)"
  by (simp add: show_history_def view_after_history view_idle view_mount_history)

lemma view_exhausted: "view_inv (exhaust d st) = view_inv st" "view_inv (release_guard d st) = view_inv st"
  by (simp_all add: view_idle)

lemma view_backfill_done: "view_inv st \<Longrightarrow> view_inv (backfill_done env d a st)"
proof (cases "tu_current st = Some d")
  case True
  assume v: "view_inv st"
  have "view_inv ((mount_page_above env d ms st)\<lparr>tu_oldest := Some (ms_id (hd ms))\<rparr>)" if "ms \<noteq> []" for ms
    by (rule view_oldest [OF view_pages(2) [OF v True]]) (use that True in \<open>auto simp: mount_fields\<close>)
  with v True show ?thesis by (simp add: backfill_done_def Let_def view_exhausted split: option.split)
next
  case False
  assume "view_inv st"
  with False show ?thesis by (simp add: backfill_done_def view_exhausted split: option.split)
qed

lemma view_whole_done: "view_inv st \<Longrightarrow> view_inv (translate_whole_done env d a st)"
proof -
  assume v: "view_inv st"
  have "view_inv (st\<lparr>tu_pane := [], tu_index := (\<lambda>_. None)\<rparr>)"
    by (rule view_no_index) (simp add: v view_idle)
  then have "tu_current st = Some d \<Longrightarrow> view_inv (mount_page env d ms (st\<lparr>tu_pane := [], tu_index := (\<lambda>_. None)\<rparr>))" for ms
    by (rule view_pages(1)) simp
  with v show ?thesis by (simp add: translate_whole_done_def Let_def view_idle split: option.split)
qed

lemma view_live:
  assumes "view_inv st" and "tu_current st = Some d"
  shows "view_inv (live_translation env d m (length (tu_bubbles st)) (mount_page env d [m] st))"
proof -
  have "length (tags st) = length (tu_bubbles st)" by (simp add: tags_def)
  then show ?thesis
    using view_pages(1) [OF assms] by (auto simp: live_translation_def mount_fields nth_append intro!: view_worker)
qed

lemma view_incoming: "view_inv st \<Longrightarrow> view_inv (incoming_touched env g dl ev st)"
  using view_live [of st]
  by (auto simp: incoming_touched_def Let_def maybe_suggest_def intro!: view_await view_worker)

lemma view_outgoing: "view_inv st \<Longrightarrow> view_inv (outgoing_touched env g dl ev st)"
  using view_live [of st] by (auto simp: outgoing_touched_def Let_def intro!: view_await)

lemma tags_call [simp]: "tags (call c st) = tags st" "tu_current (call c st) = tu_current st" "drawn (call c st) d i = drawn st d i"
  by (simp_all add: call_def tags_def drawn_def)

lemma view_continue:
  assumes "view_inv st" and "job_ok st (g, t)" and "continue env g t a = Some f"
  shows "view_inv (f st)"
  using assms
  by (cases t; cases a)
    (auto simp: continue_def view_quiet view_idle view_show_history view_backfill_done view_whole_done view_incoming
      view_outgoing incoming_start_def outgoing_start_def reaction_event_def history_start_def backfill_start_def
      translate_whole_start_def translate_whole_cleared_def send_start_def send_done_def sent_touched_def media_start_def
      media_done_def picked_reaction_def reaction_done_def outbound_start_def outbound_prepared_def outbound_picked_def
      suggest_start_def Let_def tag_changes
      intro!: view_await view_call view_pages view_no_index
      split: if_splits option.splits send_answer.splits pick.splits prepare_status.splits)

lemma drawn_tag: "r < length (tu_bubbles st) \<Longrightarrow> bb_message_id (tu_bubbles st ! r) = Some i \<Longrightarrow>
    bb_dialog_id (tu_bubbles st ! r) = Some d \<Longrightarrow> drawn st d i"
  unfolding drawn_def tags_def by (rule exI [of _ "bb_gen (tu_bubbles st ! r)"]) (force simp: tag_def in_set_conv_nth)

lemma view_react: "view_inv st \<Longrightarrow> view_inv (react_key r st)"
  using drawn_tag [of r st] by (auto simp: react_key_def Let_def intro!: view_worker split: option.split)

lemma view_step: "view_inv st \<Longrightarrow> view_inv (tui_step env e st)"
proof (cases e)
  case (Resume g t a)
  assume v: "view_inv st"
  let ?s = "st\<lparr>tu_jobs := remove1 (g, t) (tu_jobs st)\<rparr>"
  have "view_inv ?s" by (rule view_jobs [OF v set_remove1_subset])
  moreover have "(g, t) \<in> set (tu_jobs st) \<Longrightarrow> job_ok ?s (g, t)"
    using v job_ok_cong [of ?s st] by (simp add: view_inv_def)
  ultimately show ?thesis using v view_continue [of ?s g t env a] by (simp add: Resume split: option.split)
next
  case (OpenDialog d)
  then show "view_inv st \<Longrightarrow> ?thesis" by (simp add: view_open)
next
  case (Submitted v ex)
  then show "view_inv st \<Longrightarrow> ?thesis" by (simp add: view_submitted)
next
  case ScrolledTop
  assume v: "view_inv st"
  then show ?thesis
  proof (cases "tu_current st")
    case (Some d)
    have "view_inv (run_worker GBackfill True (BackfillStart d i) (st\<lparr>tu_backfilling := tu_backfilling st @ [d]\<rparr>))" if "tu_oldest st = Some i" for i
    proof (rule view_worker)
      show "view_inv (st\<lparr>tu_backfilling := tu_backfilling st @ [d]\<rparr>)" using v by (simp add: view_idle)
      have "(Some i, tu_current st, Some (tu_gen st)) \<in> set (tags st)" using v that unfolding view_inv_def by blast
      then show "job_ok (st\<lparr>tu_backfilling := tu_backfilling st @ [d]\<rparr>) (GBackfill, BackfillStart d i)"
        using Some by (auto simp: drawn_def)
    qed
    then show ?thesis using v by (simp add: ScrolledTop maybe_backfill_history_def Some split: option.split)
  qed (simp add: ScrolledTop maybe_backfill_history_def)
qed (auto simp: view_quiet view_idle view_react suggest_reply_def translate_all_def toggle_auto_translate_def Let_def
    intro!: view_worker split: option.split list.split)

lemma view_run: "view_inv st \<Longrightarrow> view_inv (tui_run env evs st)"
  by (induction evs arbitrary: st) (simp_all add: tui_run_def view_step)

lemma view_ready: "view_inv (tui_ready base auto ds)"
  by (simp add: view_inv_def tui_ready_def tags_def)

lemma index_tag: "view_inv st \<Longrightarrow> tu_index st i = Some r \<Longrightarrow>
    r < length (tu_bubbles st) \<and> bb_message_id (tu_bubbles st ! r) = Some i \<and> bb_dialog_id (tu_bubbles st ! r) = tu_current st"
  unfolding view_inv_def tags_def by (fastforce simp: tag_def)

lemma fresh_bubble_current:
  assumes "view_inv st" and "r < length (tu_bubbles st)" and "\<not> (case bb_gen (tu_bubbles st ! r) of Some g \<Rightarrow> g < tu_gen st | None \<Rightarrow> False)"
  shows "bb_dialog_id (tu_bubbles st ! r) = tu_current st"
proof -
  have "tag (tu_bubbles st ! r) \<in> set (tags st)" using assms(2) by (simp add: tags_def)
  then have "tag_ok (tu_current st) (tu_gen st) (tag (tu_bubbles st ! r))" using assms(1) by (simp add: view_inv_def)
  then show ?thesis using assms(3) by (auto simp: tag_ok_def tag_def)
qed

section \<open>A chat\<close>

definition chat_row :: dialog where
  "chat_row = \<lparr>dg_id = 7, dg_title = ''a'', dg_kind = Dm, dg_username = None, dg_unread = 0, dg_last_message_at = None,
     dg_last_text = None, dg_is_contact = None, dg_archived = False, dg_lang_code = None, dg_can_send = True\<rparr>"

definition chat_line :: "int \<Rightarrow> message" where
  "chat_line i = \<lparr>ms_id = i, ms_dialog_id = 7, ms_sender_id = 1, ms_out = False, ms_date = 0, ms_text = None, ms_media = None,
     ms_reply_to_id = None, ms_is_forward = False, ms_translated_text = None, ms_sender = None\<rparr>"

definition bare_env :: tui_env where
  "bare_env = \<lparr>tv_store_pages = True, tv_translator = False, tv_suggester = False, tv_outbound = False, tv_retry_max = 30,
     tv_lower = id, tv_stamp = (\<lambda>_. None)\<rparr>"

end
