(* ===== verification/Tui_Scroll.thy ===== *)
theory Tui_Scroll
  imports Tui_View
begin

text \<open>
  Paging in the terminal interface: what the pane shows after opening a dialog and turning
  the wheel at its top, and which cursor the requests for older pages carry.
\<close>

section \<open>Scrolling back\<close>

text \<open>The ids on the screen, from top to bottom.\<close>

definition row_ids :: "bubble list \<Rightarrow> pane_row \<Rightarrow> int list" where
  "row_ids bs row = (case row of BubbleRow r \<Rightarrow> (case bb_message_id (bs ! r) of Some i \<Rightarrow> [i] | None \<Rightarrow> []) | _ \<Rightarrow> [])"

definition shown_ids :: "tui \<Rightarrow> int list" where
  "shown_ids st = concat (map (row_ids (tu_bubbles st)) (tu_pane st))"

fun row_below :: "nat \<Rightarrow> pane_row \<Rightarrow> bool" where
  "row_below n (BubbleRow r) = (r < n)"
| "row_below n _ = True"

definition rows_exist :: "tui \<Rightarrow> bool" where
  "rows_exist st \<longleftrightarrow> list_all (row_below (length (tu_bubbles st))) (tu_pane st)"

text \<open>A server that answers with the newest page below the offset.\<close>

definition last_page :: "message list \<Rightarrow> message list" where
  "last_page ms = drop (length ms - history_page_size) ms"

definition page_below :: "message list \<Rightarrow> int \<Rightarrow> message list" where
  "page_below ms i = last_page (takeWhile (\<lambda>m. ms_id m < i) ms)"

text \<open>One wheel turn at the top, and the worker it starts run to its end.\<close>

definition scroll_round :: "tui_env \<Rightarrow> message list \<Rightarrow> int \<Rightarrow> tui \<Rightarrow> tui" where
  "scroll_round env ms d st =
     (case tu_oldest st of
        None \<Rightarrow> tui_step env ScrolledTop st
      | Some i \<Rightarrow>
          tui_run env [ScrolledTop, Resume GBackfill (BackfillStart d i) Go,
            Resume GBackfill (BackfillFetch d i) (GotMessages (page_below ms i))] st)"

definition open_round :: "tui_env \<Rightarrow> message list \<Rightarrow> int \<Rightarrow> tui \<Rightarrow> tui" where
  "open_round env ms d st =
     tui_run env [OpenDialog d, Resume GHistory (HistoryStart d) Go, Resume GHistory (HistoryFetch d) (GotMessages (last_page ms))] st"

fun first_id :: "message list \<Rightarrow> int option" where
  "first_id [] = None"
| "first_id (m # ms) = Some (ms_id m)"

definition shows_list :: "message list \<Rightarrow> int \<Rightarrow> tui \<Rightarrow> bool" where
  "shows_list t d st \<longleftrightarrow>
     tu_current st = Some d \<and> shown_ids st = map ms_id t \<and> rows_exist st
     \<and> (\<forall>i. (tu_index st i \<noteq> None) = (i \<in> ms_id ` set t)) \<and> tu_oldest st = first_id t"

definition calm :: "message list \<Rightarrow> nat \<Rightarrow> int \<Rightarrow> tui \<Rightarrow> bool" where
  "calm ms n d st \<longleftrightarrow>
     d \<notin> set (tu_backfilling st) \<and> (\<forall>j\<in>set (tu_jobs st). fst j \<noteq> GBackfill)
     \<and> (tu_exhausted st d = None \<or> tu_exhausted st d = tu_oldest st \<and> length ms \<le> n)"

definition newest :: "nat \<Rightarrow> message list \<Rightarrow> message list" where
  "newest n ms = drop (length ms - n) ms"

lemma bubbles_for_more:
  "\<exists>new. tu_bubbles (bubbles_for env d ms st) = tu_bubbles st @ new \<and> length new = length ms
     \<and> map bb_message_id new = map (\<lambda>m. Some (ms_id m)) ms"
proof (induction ms arbitrary: st)
  case Nil
  then show ?case by (simp add: bubbles_for_def)
next
  case (Cons m ms)
  obtain new where "tu_bubbles (bubbles_for env d ms (message_bubble_for env m d st)) = tu_bubbles (message_bubble_for env m d st) @ new"
    "length new = length ms" "map bb_message_id new = map (\<lambda>m. Some (ms_id m)) ms"
    using Cons by blast
  then show ?case
    by (intro exI [of _ "new_bubble env m d st # new"]) (simp add: bubbles_for_def message_bubble_for_def new_bubble_def)
qed

lemma bubbles_for_index:
  "(tu_index (bubbles_for env d ms st) i \<noteq> None) = (i \<in> ms_id ` set ms \<or> tu_index st i \<noteq> None)"
  by (induction ms arbitrary: st) (auto simp: bubbles_for_def message_bubble_for_def)

lemma bubbles_for_rest:
  "tu_pane (bubbles_for env d ms st) = tu_pane st" "tu_oldest (bubbles_for env d ms st) = tu_oldest st"
  "tu_exhausted (bubbles_for env d ms st) = tu_exhausted st" "tu_pending (bubbles_for env d ms st) = tu_pending st"
  by (induction ms arbitrary: st) (simp_all add: bubbles_for_def message_bubble_for_def)

lemma new_rows:
  assumes "length new = length ms" and "map bb_message_id new = map (\<lambda>m. Some (ms_id m)) ms"
  shows "concat (map (row_ids (old @ new)) (map BubbleRow [length old ..< length old + length ms])) = map ms_id ms"
proof -
  have "row_ids (old @ new) (BubbleRow (length old + k)) = [ms_id (ms ! k)]" if "k < length ms" for k
  proof -
    have "bb_message_id (new ! k) = Some (ms_id (ms ! k))"
      using arg_cong [OF assms(2), of "\<lambda>l. l ! k"] that assms(1) by simp
    then show ?thesis by (simp add: row_ids_def nth_append)
  qed
  then have "map (row_ids (old @ new)) (map BubbleRow [length old ..< length old + length ms]) = map (\<lambda>m. [ms_id m]) ms"
    by (intro nth_equalityI) simp_all
  then have "concat (map (row_ids (old @ new)) (map BubbleRow [length old ..< length old + length ms])) = concat (map (\<lambda>m. [ms_id m]) ms)"
    by (rule arg_cong)
  then show ?thesis by (simp only: concat_map_singleton)
qed

lemma old_rows: "rows_exist st \<Longrightarrow> concat (map (row_ids (tu_bubbles st @ new)) (tu_pane st)) = shown_ids st"
  unfolding rows_exist_def shown_ids_def
  by (rule arg_cong [of _ _ concat], rule map_cong [OF refl])
    (fastforce simp: row_ids_def list_all_iff nth_append split: pane_row.splits)

lemma row_below_mono: "row_below n row \<Longrightarrow> n \<le> n' \<Longrightarrow> row_below n' row"
  by (cases row) simp_all

lemma mounted:
  assumes "rows_exist st"
  shows "shown_ids (mount_page env d ms st) = shown_ids st @ map ms_id ms"
    and "shown_ids (mount_page_above env d ms st) = map ms_id ms @ shown_ids st"
    and "rows_exist (mount_page env d ms st)" and "rows_exist (mount_page_above env d ms st)"
proof -
  obtain new where n: "tu_bubbles (bubbles_for env d ms st) = tu_bubbles st @ new" "length new = length ms"
    "map bb_message_id new = map (\<lambda>m. Some (ms_id m)) ms"
    using bubbles_for_more [of env d ms st] by blast
  have s: "shown_ids (s\<lparr>tu_pane := p\<rparr>) = concat (map (row_ids (tu_bubbles s)) p)" for s p by (simp add: shown_ids_def)
  show "shown_ids (mount_page env d ms st) = shown_ids st @ map ms_id ms"
    "shown_ids (mount_page_above env d ms st) = map ms_id ms @ shown_ids st"
    using old_rows [OF assms, of new] new_rows [OF n(2,3), of "tu_bubbles st"]
    by (simp_all add: s mount_page_def mount_page_above_def rows_of_def n(1) del: map_map)
  show "rows_exist (mount_page env d ms st)" "rows_exist (mount_page_above env d ms st)"
    using assms n(2) row_below_mono [of "length (tu_bubbles st)"]
    by (auto simp: rows_exist_def mount_page_def mount_page_above_def rows_of_def n(1) list_all_iff)
qed

lemma worker_fields:
  "tu_current (run_worker g x t st) = tu_current st" "tu_bubbles (run_worker g x t st) = tu_bubbles st"
  "tu_pane (run_worker g x t st) = tu_pane st" "tu_index (run_worker g x t st) = tu_index st"
  "tu_oldest (run_worker g x t st) = tu_oldest st" "tu_exhausted (run_worker g x t st) = tu_exhausted st"
  "tu_pending (run_worker g x t st) = tu_pending st" "(g, t) \<in> set (tu_jobs (run_worker g x t st))"
  by (simp_all add: run_worker_def cancel_group_def Let_def)

lemma worker_jobs: "j \<in> set (tu_jobs (run_worker g x t st)) \<Longrightarrow> j = (g, t) \<or> j \<in> set (tu_jobs st)"
  "e \<in> set (tu_backfilling (run_worker g x t st)) \<Longrightarrow> e \<in> set (tu_backfilling st)"
  by (auto simp: run_worker_def cancel_group_def Let_def split: if_splits)

lemma below_tail:
  assumes "sorted_wrt (<) (map ms_id ms)" and "drop (length ms - n) ms \<noteq> []"
  shows "takeWhile (\<lambda>m. ms_id m < ms_id (hd (drop (length ms - n) ms))) ms = take (length ms - n) ms"
proof -
  let ?k = "length ms - n" and ?t = "drop (length ms - n) ms"
  have s: "sorted_wrt (<) (map ms_id (take ?k ms) @ map ms_id ?t)"
    using assms(1) by (simp flip: map_append)
  have a: "\<forall>m\<in>set (take ?k ms). ms_id m < ms_id (hd ?t)"
    using s hd_in_set [OF assms(2)] by (auto simp: sorted_wrt_append)
  have "takeWhile (\<lambda>m. ms_id m < ms_id (hd ?t)) (take ?k ms @ ?t) = take ?k ms"
    using a assms(2) by (subst takeWhile_append2) (simp_all, cases ?t, simp_all)
  then show ?thesis by (simp only: append_take_drop_id)
qed

lemma fresh_page:
  assumes "sorted_wrt (<) (map ms_id ms)" and "\<forall>i. tu_index st i \<noteq> None \<longleftrightarrow> i \<in> ms_id ` set (drop k ms)"
  shows "filter (\<lambda>m. tu_index st (ms_id m) = None) (drop j (take k ms)) = drop j (take k ms)"
proof (rule filter_True, rule ballI)
  fix m assume "m \<in> set (drop j (take k ms))"
  then have "m \<in> set (take k ms)" by (rule in_set_dropD)
  moreover have "sorted_wrt (<) (map ms_id (take k ms) @ map ms_id (drop k ms))"
    using assms(1) by (simp flip: map_append)
  ultimately have "ms_id m \<notin> ms_id ` set (drop k ms)" by (fastforce simp: sorted_wrt_append)
  then show "tu_index st (ms_id m) = None" using assms(2) by blast
qed

lemma above_fields:
  "tu_oldest (mount_page_above env d ms st) = tu_oldest st" "tu_exhausted (mount_page_above env d ms st) = tu_exhausted st"
  "tu_jobs (mount_page_above env d ms st) = tu_jobs st" "tu_backfilling (mount_page_above env d ms st) = tu_backfilling st"
  "tu_index (mount_page_above env d ms st) i \<noteq> None \<longleftrightarrow> i \<in> ms_id ` set ms \<or> tu_index st i \<noteq> None"
  "tu_oldest (mount_page env d ms st) = tu_oldest st" "tu_exhausted (mount_page env d ms st) = tu_exhausted st"
  "tu_jobs (mount_page env d ms st) = tu_jobs st" "tu_backfilling (mount_page env d ms st) = tu_backfilling st"
  "tu_index (mount_page env d ms st) i \<noteq> None \<longleftrightarrow> i \<in> ms_id ` set ms \<or> tu_index st i \<noteq> None"
  "tu_pending (mount_page env d ms st) = tu_pending st"
  using drawing_pages [of st env d ms] bubbles_for_index [of env d ms st i]
  by (simp_all add: drawing_def mount_page_above_def mount_page_def bubbles_for_rest)

lemma shown_fields: "shown_ids (st\<lparr>tu_oldest := ol\<rparr>) = shown_ids st" "rows_exist (st\<lparr>tu_oldest := ol\<rparr>) = rows_exist st"
  by (simp_all add: shown_ids_def rows_exist_def)

lemma shows_same: "tu_current st' = tu_current st \<Longrightarrow> tu_bubbles st' = tu_bubbles st \<Longrightarrow> tu_pane st' = tu_pane st \<Longrightarrow>
    tu_index st' = tu_index st \<Longrightarrow> tu_oldest st' = tu_oldest st \<Longrightarrow> shows_list t d st' = shows_list t d st"
  by (simp add: shows_list_def shown_ids_def rows_exist_def)

lemma shows_exhaust: "shows_list t d (exhaust d st) = shows_list t d st" "shows_list t d (release_guard d st) = shows_list t d st"
  by (rule shows_same; simp add: exhaust_def release_guard_def)+

lemma newest_more: "drop (length ms - n - k) (take (length ms - n) ms) @ newest n ms = newest (n + k) ms"
proof -
  have "drop (length ms - n - k) (take (length ms - n) ms @ drop (length ms - n) ms)
      = drop (length ms - n - k) (take (length ms - n) ms) @ drop (length ms - n) ms"
    by (simp only: drop_append) simp
  then show ?thesis by (simp add: newest_def diff_diff_add)
qed

lemma shows_more:
  assumes "shows_list t d st" and "p \<noteq> []"
  shows "shows_list (p @ t) d ((mount_page_above env d p st)\<lparr>tu_oldest := Some (ms_id (hd p))\<rparr>)"
proof -
  let ?q = "mount_page_above env d p st"
  have s: "tu_current st = Some d" "shown_ids st = map ms_id t" "rows_exist st"
    "\<And>i. (tu_index st i \<noteq> None) = (i \<in> ms_id ` set t)" using assms(1) unfolding shows_list_def by blast+
  have ix: "(tu_index ?q i \<noteq> None) = (i \<in> ms_id ` set (p @ t))" for i
    unfolding above_fields(5) s(4) by (simp add: image_Un)
  have "first_id (p @ t) = Some (ms_id (hd p))" using assms(2) by (cases p) simp_all
  then show ?thesis
    unfolding shows_list_def using ix s(1) mounted(2,4) [OF s(3), of env d p] s(2)
    by (simp add: shown_fields mount_fields del: not_None_eq)
qed

lemma calm_done:
  "\<forall>j\<in>set (tu_jobs q). fst j \<noteq> GBackfill \<Longrightarrow> tu_exhausted q d = None \<Longrightarrow> b \<longrightarrow> length ms \<le> n \<Longrightarrow>
    calm ms n d (release_guard d (if b then exhaust d q else q))"
  by (simp add: calm_def release_guard_def exhaust_def)

lemma shows_done: "shows_list t d (release_guard d (if b then exhaust d q else q)) = shows_list t d q"
  by (simp add: shows_exhaust)

lemma backfill_shows_more:
  fixes env :: tui_env
  assumes "sorted_wrt (<) (map ms_id ms)" and "shows_list (newest n ms) d st" and t: "newest n ms \<noteq> []"
    and "tu_exhausted st d = None" and "\<forall>j\<in>set (tu_jobs st). fst j \<noteq> GBackfill"
  defines "st' \<equiv> backfill_done env d (Some (page_below ms (ms_id (hd (newest n ms))))) st"
  shows "shows_list (newest (n + history_page_size) ms) d st' \<and> calm ms (n + history_page_size) d st'"
proof -
  let ?p = "drop (length ms - n - history_page_size) (take (length ms - n) ms)"
  have page: "page_below ms (ms_id (hd (newest n ms))) = ?p"
    unfolding page_below_def newest_def below_tail [OF assms(1) t [unfolded newest_def]] last_page_def by simp
  have fresh: "filter (\<lambda>m. tu_index st (ms_id m) = None) ?p = ?p"
    by (rule fresh_page [OF assms(1)]) (use assms(2) in \<open>simp add: shows_list_def newest_def\<close>)
  have cur: "tu_current st = Some d" using assms(2) by (simp add: shows_list_def)
  show ?thesis
  proof (cases "?p = []")
    case True
    have e: "st' = release_guard d (exhaust d st)" unfolding st'_def page using True cur fresh by (simp add: backfill_done_def)
    have len: "length ms \<le> n" using True t by (auto simp: history_page_size_def newest_def)
    have "newest (n + history_page_size) ms = newest n ms" using newest_more [of ms n history_page_size] True by simp
    then show ?thesis
      using assms(2,5) len unfolding e by (simp add: shows_exhaust calm_def) (simp add: exhaust_def release_guard_def)
  next
    case False
    let ?q = "(mount_page_above env d ?p st)\<lparr>tu_oldest := Some (ms_id (hd ?p))\<rparr>"
    have e: "st' = release_guard d (if length ?p < history_page_size then exhaust d ?q else ?q)"
      unfolding st'_def page using False cur by (simp only: backfill_done_def fresh Let_def option.case) simp
    have len: "length ?p < history_page_size \<longrightarrow> length ms \<le> n + history_page_size"
      unfolding length_drop length_take history_page_size_def by arith
    have "shows_list (newest (n + history_page_size) ms) d ?q"
      using shows_more [OF assms(2) False, of env] by (simp only: newest_more)
    moreover have "tu_jobs ?q = tu_jobs st" "tu_exhausted ?q = tu_exhausted st" by (simp_all add: above_fields)
    ultimately show ?thesis
      unfolding e shows_done using calm_done [of ?q d, OF _ _ len] assms(4,5) by (simp only: simp_thms)
  qed
qed

lemma newest_whole: "length ms \<le> n \<or> newest n ms = [] \<and> 0 < n \<Longrightarrow> newest (n + k) ms = newest n ms"
  by (cases ms) (auto simp: newest_def)

lemma scroll_round_shows:
  assumes "0 < n" and "sorted_wrt (<) (map ms_id ms)" and "shows_list (newest n ms) d st" and "calm ms n d st"
    and "tv_store_pages env"
  shows "shows_list (newest (n + history_page_size) ms) d (scroll_round env ms d st)
    \<and> calm ms (n + history_page_size) d (scroll_round env ms d st)"
proof -
  have cur: "tu_current st = Some d" and old: "tu_oldest st = first_id (newest n ms)"
    using assms(3) by (simp_all add: shows_list_def)
  have c: "d \<notin> set (tu_backfilling st)" "\<forall>j\<in>set (tu_jobs st). fst j \<noteq> GBackfill"
    "tu_exhausted st d = None \<or> tu_exhausted st d = tu_oldest st \<and> length ms \<le> n"
    using assms(4) by (simp_all add: calm_def)
  show ?thesis
  proof (cases "tu_exhausted st d = tu_oldest st")
    case True
    then have idle: "maybe_backfill_history env st = st" using cur by (simp add: maybe_backfill_history_def)
    have gone: "(GBackfill, t) \<notin> set (tu_jobs st)" for t using c(2) by force
    have e: "scroll_round env ms d st = st"
      by (simp add: scroll_round_def tui_run_def idle gone split: option.split)
    have "length ms \<le> n \<or> newest n ms = []"
      using c(3) True old by (cases "newest n ms") auto
    then have "newest (n + history_page_size) ms = newest n ms" using newest_whole assms(1) by blast
    with assms(3,4) show ?thesis unfolding e by (auto simp: calm_def)
  next
    case False
    then have ex: "tu_exhausted st d = None" using c(3) by blast
    with False obtain m t where t: "newest n ms = m # t" using old by (cases "newest n ms") auto
    then have o: "tu_oldest st = Some (ms_id m)" using old by simp
    let ?i = "ms_id m"
    let ?a = "run_worker GBackfill True (BackfillStart d ?i) (st\<lparr>tu_backfilling := tu_backfilling st @ [d]\<rparr>)"
    let ?b = "call (AskHistory d (Some ?i)) (?a\<lparr>tu_jobs := remove1 (GBackfill, BackfillStart d ?i) (tu_jobs ?a)\<rparr>)"
    let ?c = "await GBackfill (BackfillFetch d ?i) ?b"
    let ?e = "?c\<lparr>tu_jobs := remove1 (GBackfill, BackfillFetch d ?i) (tu_jobs ?c)\<rparr>"
    have a: "tu_jobs ?a = tu_jobs st @ [(GBackfill, BackfillStart d ?i)]"
      using c(2) by (simp add: run_worker_def cancel_group_def Let_def filter_id_conv)
    have b: "tu_jobs ?b = tu_jobs st"
      using c(2) by (simp add: call_def a remove1_append) (metis fst_conv)
    have j: "tu_jobs ?e = tu_jobs st"
      using c(2) b by (simp add: await_def remove1_append) (metis fst_conv)
    have s1: "tui_step env ScrolledTop st = ?a"
      using cur False o c(1) assms(5) by (simp add: maybe_backfill_history_def)
    have s2: "tui_step env (Resume GBackfill (BackfillStart d ?i) Go) ?a = ?c"
      using cur by (simp add: worker_fields continue_def backfill_start_def)
    have s3: "tui_step env (Resume GBackfill (BackfillFetch d ?i) (GotMessages older)) ?c = backfill_done env d (Some older) ?e" for older
      by (simp add: continue_def await_def)
    have e: "scroll_round env ms d st = backfill_done env d (Some (page_below ms (ms_id (hd (newest n ms))))) ?e"
      by (simp only: scroll_round_def o option.case tui_run_def fold.simps o_apply id_apply s1 s2 s3 t list.sel)
    have sh: "shows_list (newest n ms) d ?e"
      using assms(3) shows_same [of ?e st "newest n ms" d] by (simp add: await_def call_def worker_fields)
    show ?thesis
      unfolding e
      by (rule backfill_shows_more [OF assms(2) sh])
        (use t ex c(2) j in \<open>simp_all add: await_def call_def worker_fields\<close>)
  qed
qed

lemma open_fields:
  "tu_current (open_dialog d st) = Some d" "tu_index (open_dialog d st) = (\<lambda>_. None)" "tu_pending (open_dialog d st) = (\<lambda>_. None)"
  "tu_exhausted (open_dialog d st) = tu_exhausted st" "(GHistory, HistoryStart d) \<in> set (tu_jobs (open_dialog d st))"
  "j \<in> set (tu_jobs (open_dialog d st)) \<Longrightarrow> fst j \<noteq> GBackfill" "e \<in> set (tu_backfilling (open_dialog d st)) \<Longrightarrow> e \<in> set (tu_backfilling st)"
proof -
  let ?a = "(save_current_compose_state st)\<lparr>tu_current := Some d, tu_gen := Suc (tu_gen (save_current_compose_state st)),
      tu_kind := dialog_kind_of d (save_current_compose_state st)\<rparr>"
  let ?b = "clear_suggestion (restore_compose_state d ?a)"
  let ?c = "cancel_group GBackfill (?b\<lparr>tu_index := (\<lambda>_. None), tu_pending := (\<lambda>_. None), tu_oldest := None\<rparr>)"
  have e: "open_dialog d st = run_worker GHistory True (HistoryStart d) ?c" by (simp add: open_dialog_def Let_def)
  have a: "core (save_current_compose_state st) = core st" "core ?b = core ?a" by (simp_all add: quiet)
  have x: "tu_exhausted (save_current_compose_state st) = tu_exhausted st" "tu_exhausted ?b = tu_exhausted ?a"
    by (simp_all add: save_current_compose_state_def with_compose_def clear_suggestion_def restore_compose_state_def set_composer_def Let_def
        split: option.split)
  have "tu_current ?c = Some d" "tu_index ?c = (\<lambda>_. None)" "tu_pending ?c = (\<lambda>_. None)" "tu_exhausted ?c = tu_exhausted st"
    "\<forall>j\<in>set (tu_jobs ?c). fst j \<noteq> GBackfill" "set (tu_backfilling ?c) \<subseteq> set (tu_backfilling st)"
    using a x by (auto simp: core_eq cancel_group_def Let_def)
  then show "tu_current (open_dialog d st) = Some d" "tu_index (open_dialog d st) = (\<lambda>_. None)" "tu_pending (open_dialog d st) = (\<lambda>_. None)"
    "tu_exhausted (open_dialog d st) = tu_exhausted st" "(GHistory, HistoryStart d) \<in> set (tu_jobs (open_dialog d st))"
    "j \<in> set (tu_jobs (open_dialog d st)) \<Longrightarrow> fst j \<noteq> GBackfill" "e \<in> set (tu_backfilling (open_dialog d st)) \<Longrightarrow> e \<in> set (tu_backfilling st)"
    unfolding e by (auto simp: worker_fields dest!: worker_jobs)
qed

lemma mount_history_shows:
  assumes "tu_current st = Some d" and "tu_pane st = []" and "tu_exhausted st d = None" and "d \<notin> set (tu_backfilling st)"
    and "\<forall>j\<in>set (tu_jobs st). fst j \<noteq> GBackfill"
  shows "shows_list (last_page ms) d (mount_history env d (last_page ms) st) \<and> calm ms history_page_size d (mount_history env d (last_page ms) st)"
proof -
  let ?p = "last_page ms" and ?s = "st\<lparr>tu_index := (\<lambda>_. None)\<rparr>"
  let ?q = "(mount_page env d ?p ?s)\<lparr>tu_oldest := first_id ?p\<rparr>"
  have r: "rows_exist ?s" "shown_ids ?s = []" using assms(2) by (simp_all add: rows_exist_def shown_ids_def)
  have e: "mount_history env d ?p st = (if ?p \<noteq> [] \<and> length ?p < history_page_size then exhaust d ?q else ?q)"
    by (cases ?p) (simp_all add: mount_history_def Let_def)
  have "(tu_index (mount_page env d ?p ?s) i \<noteq> None) = (i \<in> ms_id ` set ?p)" for i
    unfolding above_fields(10) by simp
  then have "shows_list ?p d ?q"
    unfolding shows_list_def using mounted(1,3) [OF r(1), of env d ?p] r(2) assms(1) by (simp add: shown_fields mount_fields del: not_None_eq)
  moreover have "length ?p < history_page_size \<Longrightarrow> length ms \<le> history_page_size"
    unfolding last_page_def length_drop by arith
  then have "calm ms history_page_size d (if ?p \<noteq> [] \<and> length ?p < history_page_size then exhaust d ?q else ?q)"
    using assms(3-5) by (auto simp: calm_def exhaust_def above_fields)
  ultimately show ?thesis unfolding e by (auto simp: shows_exhaust)
qed

lemma after_history_shows:
  assumes "shows_list t d st" and "calm ms n d st" and "tu_pending st d = None"
  shows "shows_list t d (after_history env d p (drain_pending_reactions d st)) \<and> calm ms n d (after_history env d p (drain_pending_reactions d st))"
proof -
  have one: "shows_list t d (run_worker g x tk s) \<and> calm ms n d (run_worker g x tk s)"
    if "shows_list t d s \<and> calm ms n d s" "g \<noteq> GBackfill" for g x tk s
    using that shows_same [of "run_worker g x tk s" s t d] by (auto simp: worker_fields calm_def dest: worker_jobs)
  have "shows_list t d (drain_pending_reactions d st) \<and> calm ms n d (drain_pending_reactions d st)"
    using assms shows_same [of "st\<lparr>tu_pending := (tu_pending st)(d := None)\<rparr>" st t d]
    by (simp add: drain_pending_reactions_def calm_def)
  with one show ?thesis by (simp add: after_history_def Let_def)
qed

lemma open_round_shows:
  assumes "tu_exhausted st d = None" and "d \<notin> set (tu_backfilling st)"
  shows "shows_list (newest history_page_size ms) d (open_round env ms d st) \<and> calm ms history_page_size d (open_round env ms d st)"
proof -
  let ?a = "open_dialog d st"
  let ?b = "history_start GHistory d (?a\<lparr>tu_jobs := remove1 (GHistory, HistoryStart d) (tu_jobs ?a)\<rparr>)"
  let ?c = "?b\<lparr>tu_jobs := remove1 (GHistory, HistoryFetch d) (tu_jobs ?b)\<rparr>"
  have s1: "tui_step env (Resume GHistory (HistoryStart d) Go) ?a = ?b" by (simp add: open_fields continue_def)
  have s2: "tui_step env (Resume GHistory (HistoryFetch d) (GotMessages p)) ?b = show_history env d p ?c" for p
    by (simp add: continue_def history_start_def await_def)
  have e: "open_round env ms d st = after_history env d (last_page ms) (drain_pending_reactions d (mount_history env d (last_page ms) ?c))"
    by (simp only: open_round_def tui_run_def fold.simps o_apply id_apply tui_step.simps(1) s1 s2 show_history_def)
  have f: "tu_current ?c = Some d" "tu_pane ?c = []" "tu_exhausted ?c d = None" "d \<notin> set (tu_backfilling ?c)"
    "tu_pending ?c d = None"
    using assms open_fields(7) [of d d st] by (auto simp: history_start_def await_def call_def open_fields(1-4))
  have "set (tu_jobs ?c) \<subseteq> set (tu_jobs ?b)" by (simp add: set_remove1_subset)
  also have "set (tu_jobs ?b) \<subseteq> insert (GHistory, HistoryFetch d) (set (tu_jobs ?a))"
    using set_remove1_subset [of "(GHistory, HistoryStart d)" "tu_jobs ?a"] by (auto simp: history_start_def await_def call_def)
  finally have j: "\<forall>j\<in>set (tu_jobs ?c). fst j \<noteq> GBackfill" using open_fields(6) [of _ d st] by auto
  have p: "tu_pending (mount_history env d (last_page ms) ?c) d = None"
    using f(5) by (simp add: mount_history_def Let_def above_fields exhaust_def)
  show ?thesis
    unfolding e using after_history_shows [OF conjunct1 [OF mount_history_shows [OF f(1-4) j]] conjunct2 [OF mount_history_shows [OF f(1-4) j]] p]
    by (simp add: newest_def last_page_def)
qed

fun scroll_rounds :: "nat \<Rightarrow> tui_env \<Rightarrow> message list \<Rightarrow> int \<Rightarrow> tui \<Rightarrow> tui" where
  "scroll_rounds 0 env ms d st = st"
| "scroll_rounds (Suc k) env ms d st = scroll_round env ms d (scroll_rounds k env ms d st)"

text \<open>
  C33: Scrolling back shows the history. A dialog opened for the first time shows its newest page,
  and after k turns of the wheel at the top the pane holds exactly the newest (k + 1) pages
  of the history, oldest first, each message once, nothing missing between pages; once that
  is everything, further turns change nothing.
\<close>

theorem scrolling_shows_history:
  assumes "sorted_wrt (<) (map ms_id ms)" and "tv_store_pages env"
    and "tu_exhausted st d = None" and "d \<notin> set (tu_backfilling st)"
  shows "shown_ids (scroll_rounds k env ms d (open_round env ms d st))
    = map ms_id (drop (length ms - (k + 1) * history_page_size) ms)"
proof -
  have "shows_list (newest ((k + 1) * history_page_size) ms) d (scroll_rounds k env ms d (open_round env ms d st))
    \<and> calm ms ((k + 1) * history_page_size) d (scroll_rounds k env ms d (open_round env ms d st))"
  proof (induction k)
    case 0
    then show ?case using open_round_shows [OF assms(3,4), of ms env] by simp
  next
    case (Suc k)
    have "0 < (k + 1) * history_page_size" by (simp add: history_page_size_def)
    from scroll_round_shows [OF this assms(1) conjunct1 [OF Suc] conjunct2 [OF Suc] assms(2)]
    show ?case by (simp add: add.commute)
  qed
  then show ?thesis by (simp add: shows_list_def newest_def)
qed


text \<open>
  Older history is paged with the dialog's own cursor. Every request for an older page names
  a message that was drawn in that very dialog, and a page is waited for only while its
  dialog is the open one, however dialogs are switched, translated and scrolled.
\<close>

theorem tui_pages_with_own_cursor:
  assumes "st = tui_run env evs (tui_ready base auto ds)"
  shows "(AskHistory d (Some i) \<in> set (tu_calls st) \<longrightarrow> drawn st d i)
    \<and> ((g, BackfillFetch d i) \<in> set (tu_jobs st) \<longrightarrow> tu_current st = Some d)
    \<and> (tu_oldest st = Some i \<longrightarrow> (\<exists>d. tu_current st = Some d \<and> drawn st d i))"
proof -
  have v: "view_inv st" unfolding assms by (rule view_run [OF view_ready])
  have "drawn st d i" if "AskHistory d (Some i) \<in> set (tu_calls st)"
    using v that unfolding view_inv_def by (metis call_ok.simps(1))
  moreover have "tu_current st = Some d" if "(g, BackfillFetch d i) \<in> set (tu_jobs st)"
    using v that unfolding view_inv_def by (metis job_ok.simps(4))
  moreover have "\<exists>d. tu_current st = Some d \<and> drawn st d i" if "tu_oldest st = Some i"
  proof -
    have t: "(Some i, tu_current st, Some (tu_gen st)) \<in> set (tags st)" using v that unfolding view_inv_def by blast
    then have "tag_ok (tu_current st) (tu_gen st) (Some i, tu_current st, Some (tu_gen st))"
      using v unfolding view_inv_def by blast
    then obtain d where "tu_current st = Some d" by (auto simp: tag_ok_def)
    with t show ?thesis by (auto simp: drawn_def)
  qed
  ultimately show ?thesis by blast
qed


definition long_chat :: "message list" where
  "long_chat = map chat_line [1..100]"

lemma long_chat_sorted: "sorted_wrt (<) (map ms_id long_chat)"
proof -
  have "map ms_id long_chat = [1..100]" by (simp add: long_chat_def chat_line_def comp_def)
  then show ?thesis by (simp only: sorted_wrt_upto)
qed

lemma scrolling_shows_history_witness:
  "shown_ids (scroll_rounds 1 bare_env long_chat 7 (open_round bare_env long_chat 7 (tui_ready 1 False [chat_row]))) = [1..100]"
proof -
  have "map ms_id long_chat = [1..100]" "length long_chat = 100" by (simp_all add: long_chat_def chat_line_def comp_def)
  moreover have "shown_ids (scroll_rounds 1 bare_env long_chat 7 (open_round bare_env long_chat 7 (tui_ready 1 False [chat_row])))
      = map ms_id (drop (length long_chat - (1 + 1) * history_page_size) long_chat)"
    by (rule scrolling_shows_history [OF long_chat_sorted]) (simp_all add: bare_env_def tui_ready_def)
  ultimately show ?thesis by (simp add: history_page_size_def)
qed

lemma newest_long: "newest history_page_size long_chat = map chat_line [51..100]"
proof -
  have "[1..100] = [1..50] @ [51..(100::int)]" using upto_split2 [of 1 50 "100::int"] by (simp del: upto_rec_numeral)
  then show ?thesis by (simp add: newest_def long_chat_def history_page_size_def del: upto_rec_numeral)
qed

definition page_events :: "tui_event list" where
  "page_events = [OpenDialog 7, Resume GHistory (HistoryStart 7) Go, Resume GHistory (HistoryFetch 7) (GotMessages (last_page long_chat)),
     ScrolledTop, Resume GBackfill (BackfillStart 7 51) Go]"

lemma tui_pages_with_own_cursor_witness:
  "AskHistory 7 (Some 51) \<in> set (tu_calls (tui_run bare_env page_events (tui_ready 1 False [chat_row])))
    \<and> drawn (tui_run bare_env page_events (tui_ready 1 False [chat_row])) 7 51"
proof -
  let ?r = "tui_ready 1 False [chat_row]"
  let ?o = "open_round bare_env long_chat 7 ?r"
  have s: "shows_list (newest history_page_size long_chat) 7 ?o" "calm long_chat history_page_size 7 ?o"
    using open_round_shows [of ?r 7 long_chat bare_env] by (simp_all add: tui_ready_def)
  have "[51..100] = 51 # [52..(100::int)]" using upto_rec1 [of 51 "100::int"] by (simp del: upto_rec_numeral)
  then have f: "first_id (newest history_page_size long_chat) = Some 51" unfolding newest_long by (simp add: chat_line_def del: upto_rec_numeral)
  have l: "\<not> length long_chat \<le> history_page_size" by (simp add: long_chat_def history_page_size_def del: upto_rec_numeral)
  have o: "tu_current ?o = Some 7" "tu_oldest ?o = Some 51" "7 \<notin> set (tu_backfilling ?o)" "tu_exhausted ?o 7 = None"
    using s f l by (simp_all add: shows_list_def calm_def)
  have "tui_run bare_env page_events ?r = tui_run bare_env [ScrolledTop, Resume GBackfill (BackfillStart 7 51) Go] ?o"
    by (simp only: page_events_def open_round_def tui_run_def fold.simps o_apply id_apply)
  moreover have "AskHistory 7 (Some 51) \<in> set (tu_calls (tui_run bare_env [ScrolledTop, Resume GBackfill (BackfillStart 7 51) Go] ?o))"
    using o by (simp add: tui_run_def maybe_backfill_history_def bare_env_def worker_fields continue_def backfill_start_def await_def call_def)
  ultimately show ?thesis
    using tui_pages_with_own_cursor [of "tui_run bare_env page_events ?r", OF refl, where d = 7 and i = 51] by simp
qed

definition react_events :: "nat \<Rightarrow> tui_event list" where
  "react_events r = [OpenDialog 7, Resume GHistory (HistoryStart 7) Go, Resume GHistory (HistoryFetch 7) (GotMessages (last_page long_chat)),
     ReactKey r, Resume GDefault (PickReaction 7 60) (GotEmoji (Some [128077]))]"


end
