(* ===== verification/Tui_Hazards.thy ===== *)
theory Tui_Hazards
  imports Tui_Scroll
begin

text \<open>
  Where the terminal interface loses or repeats something: the settings key ends the live
  feeds, a second Enter drops a message that is still being prepared or sent, translating a
  whole chat stops paging, a page that loads while messages arrive repeats them, and a
  failed send overwrites the newer draft of a dialog that was left.
\<close>

section \<open>The settings key\<close>

fun feed_task :: "task \<Rightarrow> bool" where
  "feed_task (Listen f delay) = True"
| "feed_task (Backoff f delay) = True"
| "feed_task (IncomingTouched ev delay) = True"
| "feed_task (OutgoingTouched ev delay) = True"
| "feed_task _ = False"

definition no_feeds :: "tui \<Rightarrow> bool" where
  "no_feeds st \<longleftrightarrow> list_all (\<lambda>j. \<not> feed_task (snd j)) (tu_jobs st)"

definition default_feeds :: "tui \<Rightarrow> bool" where
  "default_feeds st \<longleftrightarrow> list_all (\<lambda>j. feed_task (snd j) \<longrightarrow> fst j = GDefault) (tu_jobs st)"

text \<open>Both follow from one property of the workers, which every step keeps.\<close>

definition jobs_all :: "(worker_group \<times> task \<Rightarrow> bool) \<Rightarrow> tui \<Rightarrow> bool" where
  "jobs_all P st \<longleftrightarrow> list_all P (tu_jobs st)"

lemma jobs_same: "tu_jobs st' = tu_jobs st \<Longrightarrow> jobs_all P st' = jobs_all P st"
  by (simp add: jobs_all_def)

lemma jobs_core: "core st' = core st \<Longrightarrow> jobs_all P st' = jobs_all P st"
  by (rule jobs_same) (simp add: core_eq)

lemma jobs_drawing: "drawing st st' \<Longrightarrow> jobs_all P st' = jobs_all P st"
  by (rule jobs_same) (simp add: drawing_def)

lemmas jobs_quiet = quiet [THEN jobs_core]

lemmas jobs_draw = drawing_bubbles [THEN jobs_drawing] drawing_pages [THEN jobs_drawing]
  drawing_update [THEN jobs_drawing] drawing_translated_all [THEN jobs_drawing]
  drawing_reaction [THEN jobs_drawing] drawing_drain [THEN jobs_drawing] drawing_exhaust [THEN jobs_drawing]

lemma jobs_await [simp]: "jobs_all P (await g t st) \<longleftrightarrow> P (g, t) \<and> jobs_all P st"
  by (auto simp: jobs_all_def await_def)

lemma jobs_worker: "jobs_all P st \<Longrightarrow> P (g, t) \<Longrightarrow> jobs_all P (run_worker g x t st)"
  by (auto simp: jobs_all_def list_all_iff dest: worker_jobs)

lemma jobs_fields [simp]:
  "jobs_all P (st\<lparr>tu_pane := p\<rparr>) = jobs_all P st" "jobs_all P (st\<lparr>tu_index := ix\<rparr>) = jobs_all P st"
  "jobs_all P (st\<lparr>tu_oldest := ol\<rparr>) = jobs_all P st" "jobs_all P (st\<lparr>tu_backfilling := bf\<rparr>) = jobs_all P st"
  "jobs_all P (st\<lparr>tu_strip := sp\<rparr>) = jobs_all P st" "jobs_all P (st\<lparr>tu_auto := au\<rparr>) = jobs_all P st"
  "jobs_all P (st\<lparr>tu_lang_prompt := lp\<rparr>) = jobs_all P st" "jobs_all P (st\<lparr>tu_posted := ps\<rparr>) = jobs_all P st"
  "jobs_all P (st\<lparr>tu_sent := sn\<rparr>) = jobs_all P st" "jobs_all P (st\<lparr>tu_sent_reactions := sr\<rparr>) = jobs_all P st"
  "jobs_all P (st\<lparr>tu_dialogs := ds\<rparr>) = jobs_all P st" "jobs_all P (st\<lparr>tu_tab := tb\<rparr>) = jobs_all P st"
  "jobs_all P (st\<lparr>tu_search := se\<rparr>) = jobs_all P st" "jobs_all P (call c st) = jobs_all P st"
  "jobs_all P (release_guard d st) = jobs_all P st"
  by (simp_all add: jobs_all_def call_def release_guard_def)

text \<open>The property of a worker: what concerns feeds is inherited, everything else is allowed.\<close>

definition feed_rule :: "(worker_group \<Rightarrow> bool) \<Rightarrow> worker_group \<times> task \<Rightarrow> bool" where
  "feed_rule Q j \<longleftrightarrow> (feed_task (snd j) \<longrightarrow> Q (fst j))"

lemma feed_rule_simps [simp]: "\<not> feed_task t \<Longrightarrow> feed_rule Q (g, t)" "feed_task t \<Longrightarrow> feed_rule Q (g, t) = Q g"
  by (simp_all add: feed_rule_def)

lemma rule_worker: "jobs_all (feed_rule Q) st \<Longrightarrow> \<not> feed_task t \<Longrightarrow> jobs_all (feed_rule Q) (run_worker g x t st)"
  by (rule jobs_worker) simp_all

lemma rule_after_history: "jobs_all (feed_rule Q) st \<Longrightarrow> jobs_all (feed_rule Q) (after_history env d ms st)"
  by (auto simp: after_history_def Let_def intro!: rule_worker)

lemma rule_show_history: "jobs_all (feed_rule Q) st \<Longrightarrow> jobs_all (feed_rule Q) (show_history env d ms st)"
  unfolding show_history_def by (rule rule_after_history) (simp add: jobs_draw mount_history_def Let_def)

lemma rule_continue:
  assumes "jobs_all (feed_rule Q) st" and "feed_rule Q (g, t)" and "continue env g t a = Some f"
  shows "jobs_all (feed_rule Q) (f st)"
  using assms
  by (cases t; cases a)
    (auto simp: continue_def jobs_quiet jobs_draw rule_show_history backfill_done_def translate_whole_done_def
      incoming_touched_def outgoing_touched_def live_translation_def maybe_suggest_def
      incoming_start_def outgoing_start_def reaction_event_def history_start_def backfill_start_def
      translate_whole_start_def translate_whole_cleared_def send_start_def send_done_def sent_touched_def media_start_def
      media_done_def picked_reaction_def reaction_done_def outbound_start_def outbound_prepared_def outbound_picked_def
      suggest_start_def Let_def intro!: rule_worker
      split: if_splits option.splits send_answer.splits pick.splits prepare_status.splits)

lemma rule_submitted: "jobs_all (feed_rule Q) st \<Longrightarrow> jobs_all (feed_rule Q) (submitted env v ex st)"
proof -
  have c: "jobs_all (feed_rule Q) (run_worker g x t (optimistic_clear d s))" if "jobs_all (feed_rule Q) s" "\<not> feed_task t" for g x t d s
    by (rule rule_worker) (simp_all add: jobs_quiet that)
  have plain: "jobs_all (feed_rule Q) (submit_plain env d v s)" if "jobs_all (feed_rule Q) s" for d s
    using that by (simp add: submit_plain_def Let_def c) (simp add: rule_worker jobs_quiet)
  have "jobs_all (feed_rule Q) (submit_text env d v ex s)" if "jobs_all (feed_rule Q) s" for d s
    using that by (simp add: submit_text_def c plain split: sum.split option.split)
  then show "jobs_all (feed_rule Q) st \<Longrightarrow> ?thesis" by (simp add: submitted_def Let_def jobs_quiet split: option.split)
qed

lemma rule_open: "jobs_all (feed_rule Q) st \<Longrightarrow> jobs_all (feed_rule Q) (open_dialog d st)"
proof -
  assume j: "jobs_all (feed_rule Q) st"
  have "jobs_all (feed_rule Q) (cancel_group g s)" if "jobs_all (feed_rule Q) s" for g s
    using that by (auto simp: jobs_all_def list_all_iff cancel_group_def Let_def)
  moreover have "jobs_all (feed_rule Q) (s\<lparr>tu_index := ix, tu_pending := pe, tu_oldest := ol\<rparr>) = jobs_all (feed_rule Q) s"
      "jobs_all (feed_rule Q) (s\<lparr>tu_current := cu, tu_gen := ge, tu_kind := ki\<rparr>) = jobs_all (feed_rule Q) s" for s ix pe ol cu ge ki
    by (simp_all add: jobs_all_def)
  ultimately show ?thesis using j unfolding open_dialog_def Let_def by (intro rule_worker) (simp_all add: jobs_quiet)
qed

lemma rule_step: "jobs_all (feed_rule Q) st \<Longrightarrow> jobs_all (feed_rule Q) (tui_step env e st)"
proof (cases e)
  case (Resume g t a)
  assume j: "jobs_all (feed_rule Q) st"
  have "jobs_all (feed_rule Q) (st\<lparr>tu_jobs := remove1 (g, t) (tu_jobs st)\<rparr>)"
    using j set_remove1_subset [of "(g, t)" "tu_jobs st"] by (auto simp: jobs_all_def list_all_iff)
  moreover have "(g, t) \<in> set (tu_jobs st) \<Longrightarrow> feed_rule Q (g, t)" using j by (auto simp: jobs_all_def list_all_iff)
  ultimately show ?thesis
    using j rule_continue [of Q "st\<lparr>tu_jobs := remove1 (g, t) (tu_jobs st)\<rparr>" g t env a] by (simp add: Resume split: option.split)
next
  case (OpenDialog d)
  then show "jobs_all (feed_rule Q) st \<Longrightarrow> ?thesis" by (simp add: rule_open)
next
  case (Submitted v ex)
  then show "jobs_all (feed_rule Q) st \<Longrightarrow> ?thesis" by (simp add: rule_submitted)
qed (auto simp: jobs_quiet suggest_reply_def translate_all_def toggle_auto_translate_def react_key_def
    maybe_backfill_history_def Let_def intro!: rule_worker split: option.split list.split)

lemma rule_run: "jobs_all (feed_rule Q) st \<Longrightarrow> jobs_all (feed_rule Q) (tui_run env evs st)"
  by (induction evs arbitrary: st) (simp_all add: tui_run_def rule_step)

text \<open>
  The settings key ends the live feeds. Its worker is started exclusively in the default
  group, where the three listeners run: in every run, once the key was pressed, no listener
  is alive at any later moment, so no incoming message, no own message from another device
  and no reaction is handled again, and the banner of a lost connection does not say so.
\<close>

theorem settings_key_ends_feeds:
  assumes "st = tui_run env (evs @ SettingsKey # later) (tui_ready base auto ds)"
  shows "(\<forall>g t. (g, t) \<in> set (tu_jobs st) \<longrightarrow> \<not> feed_task t)
    \<and> (\<forall>g f delay a. tui_step env (Resume g (Listen f delay) a) st = st)"
proof -
  let ?s = "tui_run env evs (tui_ready base auto ds)"
  have "jobs_all (feed_rule (\<lambda>g. g = GDefault)) (tui_ready base auto ds)"
    by (simp add: jobs_all_def tui_ready_def)
  then have "jobs_all (feed_rule (\<lambda>g. g = GDefault)) ?s" by (rule rule_run)
  then have "jobs_all (feed_rule (\<lambda>g. False)) (tui_step env SettingsKey ?s)"
    by (auto simp: jobs_all_def list_all_iff feed_rule_def run_worker_def cancel_group_def Let_def)
  then have "jobs_all (feed_rule (\<lambda>g. False)) (tui_run env later (tui_step env SettingsKey ?s))" by (rule rule_run)
  moreover have "st = tui_run env later (tui_step env SettingsKey ?s)" by (simp add: assms tui_run_def)
  ultimately have none: "\<not> feed_task t" if "(g, t) \<in> set (tu_jobs st)" for g t
    using that by (auto simp: jobs_all_def list_all_iff feed_rule_def)
  then have "(g, Listen f delay) \<notin> set (tu_jobs st)" for g f delay using feed_task.simps(1) by blast
  with none show ?thesis by simp
qed

lemma settings_key_ends_feeds_witness:
  "tui_step bare_env (Resume GDefault (Listen FeedIncoming 1) Raised) (tui_run bare_env [SettingsKey] (tui_ready 1 False [chat_row]))
      = tui_run bare_env [SettingsKey] (tui_ready 1 False [chat_row])
    \<and> (GDefault, Listen FeedIncoming 1) \<in> set (tu_jobs (tui_ready 1 False [chat_row]))"
  using settings_key_ends_feeds [of _ bare_env "[]" "[]" 1 False "[chat_row]", OF refl]
  by (simp add: tui_ready_def del: tui_step.simps)

section \<open>A second Enter\<close>

text \<open>
  With outbound translation configured every plain message runs in one exclusive group, the
  sending of a message that needs no translation included. The next plain message, in
  whatever dialog, cancels it: the waiting send of the first text is gone, and no draft and
  no composer takes the text back.
\<close>

theorem second_message_drops_first:
  assumes "tv_outbound env" and "cm_source (compose_of st d) = None" and "cm_confirm (compose_of st d) \<noteq> Some v"
  shows "let st' = submit_plain env d v st
    in (\<forall>e w token. (GOutbound, SendWait e w token) \<notin> set (tu_jobs st'))
     \<and> tu_composer st' = [] \<and> cm_draft (compose_of st' d) = v
     \<and> (\<forall>e. e \<noteq> d \<longrightarrow> compose_of st' e = compose_of st e)"
proof -
  let ?s = "with_compose d (\<lambda>s. s\<lparr>cm_draft := v\<rparr>) (set_composer [] (with_compose d (\<lambda>s. s\<lparr>cm_ignore_empty := True\<rparr>) st))"
  have e: "submit_plain env d v st = run_worker GOutbound True (OutboundStart d v) ?s"
    using assms by (simp add: submit_plain_def Let_def)
  have "(GOutbound, SendWait x w token) \<notin> set (tu_jobs (run_worker GOutbound True (OutboundStart d v) ?s))" for x w token
    by (auto simp: run_worker_def cancel_group_def Let_def)
  then show ?thesis
    unfolding e Let_def by (simp add: run_worker_def cancel_group_def Let_def) (simp add: compose_of_def with_compose_def set_composer_def)
qed

lemma second_message_drops_first_witness:
  "\<exists>env st. (GOutbound, SendWait 7 [97] None) \<in> set (tu_jobs st) \<and> (GOutbound, SendWait 7 [97] None) \<notin> set (tu_jobs (submit_plain env 7 [98] st))
    \<and> cm_draft (compose_of (submit_plain env 7 [98] st) 7) = [98]"
proof -
  let ?env = "bare_env\<lparr>tv_outbound := True\<rparr>" and ?st = "await GOutbound (SendWait 7 [97] None) (tui_ready 1 False [chat_row])"
  have "(GOutbound, SendWait 7 [97] None) \<in> set (tu_jobs ?st)" by (simp add: await_def)
  moreover have "let st' = submit_plain ?env 7 [98] ?st
    in (\<forall>e w token. (GOutbound, SendWait e w token) \<notin> set (tu_jobs st'))
     \<and> tu_composer st' = [] \<and> cm_draft (compose_of st' 7) = [98] \<and> (\<forall>e. e \<noteq> 7 \<longrightarrow> compose_of st' e = compose_of ?st e)"
    by (rule second_message_drops_first) (simp_all add: compose_of_def await_def tui_ready_def new_compose_def)
  ultimately show ?thesis unfolding Let_def by blast
qed

section \<open>Translating the whole chat\<close>

text \<open>
  A whole-chat translation shows more than a page, yet leaves the cursor where the first page
  began. The next turn of the wheel therefore asks for a page that is already shown, finds
  nothing fresh, and marks the dialog exhausted: older messages are not reachable any more.
\<close>

lemma whole_translation_stops_paging:
  fixes env :: tui_env
  assumes "tu_current st = Some d" and "tu_pending st d = None" and "\<forall>m\<in>set older. m \<in> set translated"
  defines "st1 \<equiv> translate_whole_done env d (Some translated) st"
  defines "st2 \<equiv> backfill_done env d (Some older) st1"
  shows "tu_oldest st1 = tu_oldest st \<and> tu_pane st2 = tu_pane st1 \<and> maybe_backfill_history env st2 = st2"
proof -
  let ?q = "mount_page env d translated (st\<lparr>tu_pane := [], tu_index := (\<lambda>_. None)\<rparr>)"
  have p: "tu_pending ?q = tu_pending st" by (simp add: above_fields)
  have cur: "tu_current ?q = Some d" using assms(1) by (simp add: mount_fields)
  have e: "st1 = ?q\<lparr>tu_pending := (tu_pending st)(d := None), tu_pane := filter (\<lambda>r. r \<noteq> StatusRow) (tu_pane ?q)\<rparr>"
    using assms(1,2) cur unfolding st1_def by (simp add: translate_whole_done_def Let_def drain_pending_reactions_def p)
  have old: "tu_oldest st1 = tu_oldest st" unfolding e by (simp add: above_fields)
  have "tu_index ?q (ms_id m) \<noteq> None" if "m \<in> set older" for m
    unfolding above_fields(10) using that assms(3) by blast
  then have "filter (\<lambda>m. tu_index st1 (ms_id m) = None) older = []" unfolding e by (simp add: filter_empty_conv)
  then have "st2 = release_guard d (exhaust d st1)" using cur unfolding st2_def e by (simp add: backfill_done_def)
  moreover have "tu_current st1 = Some d" unfolding e using cur by simp
  ultimately show ?thesis using old by (simp add: maybe_backfill_history_def release_guard_def exhaust_def)
qed

section \<open>Smaller losses\<close>

text \<open>What arrives while the first page loads is drawn, and stays above the page that holds it too.\<close>

lemma loading_repeats_live_messages:
  "rows_exist st \<Longrightarrow> shown_ids (mount_history env d ms st) = shown_ids st @ map ms_id ms"
proof -
  assume "rows_exist st"
  then have "rows_exist (st\<lparr>tu_index := (\<lambda>_. None)\<rparr>)" "shown_ids (st\<lparr>tu_index := (\<lambda>_. None)\<rparr>) = shown_ids st"
    by (simp_all add: rows_exist_def shown_ids_def)
  with mounted(1) have "shown_ids (mount_page env d ms (st\<lparr>tu_index := (\<lambda>_. None)\<rparr>)) = shown_ids st @ map ms_id ms" by metis
  moreover have "shown_ids (exhaust d s) = shown_ids s" for s by (simp add: exhaust_def shown_ids_def)
  ultimately show ?thesis by (cases ms) (simp_all add: mount_history_def Let_def shown_fields)
qed

text \<open>A failed send in a dialog that was left replaces the draft typed there meanwhile.\<close>

lemma failed_send_replaces_draft:
  "tu_current st \<noteq> Some d \<Longrightarrow> cm_draft (compose_of (send_done g d txt Refused st) d) = txt"
  by (simp add: send_done_def restore_draft_def Let_def with_compose_def compose_of_def)

text \<open>A translation that fails replaces what was typed in the composer meanwhile.\<close>

lemma failed_translation_replaces_typing:
  "tu_current st = Some d \<Longrightarrow> tu_composer (outbound_prepared g d txt shown (status_only PrepError err) st) = txt"
  by (simp add: outbound_prepared_def status_only_def fill_composer_def Let_def with_compose_def set_composer_def)

text \<open>A backfill cancelled before it began keeps its guard, and the dialog never pages again.\<close>

lemma cancelled_backfill_keeps_guard:
  assumes "tu_current st = Some d" and "maybe_backfill_history env st \<noteq> st"
  shows "d \<in> set (tu_backfilling (cancel_group GBackfill (maybe_backfill_history env st)))
    \<or> (\<exists>i. (GBackfill, BackfillFetch d i) \<in> set (tu_jobs st))"
proof -
  obtain i where e: "maybe_backfill_history env st
      = run_worker GBackfill True (BackfillStart d i) (st\<lparr>tu_backfilling := tu_backfilling st @ [d]\<rparr>)"
    using assms by (auto simp: maybe_backfill_history_def split: if_splits option.splits)
  have f: "fetches_for d t \<longleftrightarrow> (\<exists>i. t = BackfillFetch d i)" for t by (cases t) auto
  show ?thesis unfolding e by (auto simp: run_worker_def cancel_group_def Let_def list_ex_iff f)
qed

lemma guarded_dialog_never_pages:
  "tu_current st = Some d \<Longrightarrow> d \<in> set (tu_backfilling st) \<Longrightarrow> maybe_backfill_history env st = st"
  by (simp add: maybe_backfill_history_def split: option.split)

end
