(* ===== verification/Chat_Repl.thy ===== *)
theory Chat_Repl
  imports Tui_Step
begin

text \<open>
  The chat command of \<open>src/tg_messenger/cli/main.py\<close>: the loop that reads lines and sends
  them, the picker of outbound translations, and the printers of the live streams. The lines
  still to come are a list whose end is the end of the input; the answers of the coordinator
  and of the client are functions of the number of the line they belong to. \<open>int()\<close> of the
  picker's answer (Unicode digits included) and \<open>str.lower\<close> are arguments.
\<close>

section \<open>The session\<close>

text \<open>\<open>text.split(maxsplit=n)\<close>.\<close>

fun split_max :: "nat \<Rightarrow> utext \<Rightarrow> utext list" where
  "split_max 0 s = (let s1 = dropWhile space_cp s in if s1 = [] then [] else [s1])"
| "split_max (Suc n) s =
     (let s1 = dropWhile space_cp s; w = takeWhile (\<lambda>c. \<not> space_cp c) s1
      in if s1 = [] then [] else w # split_max n (drop (length w) s1))"

declare split_max.simps [simp del]

datatype repl_call =
    ReplReact int utext
  | ReplSend utext
  | ReplVariant "string option" utext
  | ReplLang lang_command
  | ReplPrepare utext

record repl_env =
  rl_dialog :: int
  rl_kind :: "dialog_kind option"
  rl_outbound :: bool
  rl_lower :: "utext \<Rightarrow> utext"
  rl_int :: "utext \<Rightarrow> int option"
  rl_prepare :: "nat \<Rightarrow> prepare_result"
  rl_send :: "nat \<Rightarrow> send_answer"

record repl =
  rp_lines :: "utext list"
  rp_line_no :: nat
  rp_calls :: "repl_call list"
  rp_sent_ids :: "(int \<times> int) list"

definition repl_start :: "utext list \<Rightarrow> repl" where
  "repl_start ls = \<lparr>rp_lines = ls, rp_line_no = 0, rp_calls = [], rp_sent_ids = []\<rparr>"

text \<open>The one reading of the dialogs before the loop: the kind of the peer is unknown when it
  fails, and then an unknown slash command is not sent.\<close>

definition repl_kind :: "int \<Rightarrow> dialog list option \<Rightarrow> dialog_kind option" where
  "repl_kind dialog_id ds =
     (case ds of None \<Rightarrow> None | Some l \<Rightarrow> map_option dg_kind (find (\<lambda>d. dg_id d = dialog_id) l))"

datatype repl_next = NextLine | EndOfInput | ReplCrash

definition sent_ids_cap :: nat where
  "sent_ids_cap = 200"

definition repl_call :: "repl_call \<Rightarrow> repl \<Rightarrow> repl" where
  "repl_call c r = r\<lparr>rp_calls := rp_calls r @ [c]\<rparr>"

text \<open>\<open>sent_ids.append(...)\<close> on a deque with a maximal length.\<close>

definition repl_sent :: "repl_env \<Rightarrow> message \<Rightarrow> repl \<Rightarrow> repl" where
  "repl_sent env m r =
     (let ids = rp_sent_ids r @ [(rl_dialog env, ms_id m)]
      in r\<lparr>rp_sent_ids := drop (length ids - sent_ids_cap) ids\<rparr>)"

text \<open>A send and what the loop does with its answer: rights are reported and the loop goes on,
  an expired token likewise, anything else leaves the loop.\<close>

definition repl_deliver :: "repl_env \<Rightarrow> repl_call \<Rightarrow> repl \<Rightarrow> repl \<times> repl_next" where
  "repl_deliver env c r =
     (let r1 = repl_call c r
      in (case rl_send env (rp_line_no r) of
            Accepted m \<Rightarrow> (repl_sent env m r1, NextLine)
          | Refused \<Rightarrow> (r1, NextLine)
          | Expired \<Rightarrow> (case c of ReplVariant token t \<Rightarrow> (r1, NextLine) | _ \<Rightarrow> (r1, ReplCrash))
          | Broken \<Rightarrow> (r1, ReplCrash)))"

definition ascii_digits :: "utext \<Rightarrow> bool" where
  "ascii_digits s \<longleftrightarrow> s \<noteq> [] \<and> list_all (\<lambda>c. 48 \<le> c \<and> c \<le> 57) s"

definition digits_value :: "utext \<Rightarrow> int" where
  "digits_value s = foldl (\<lambda>v c. 10 * v + int (c - 48)) 0 s"

definition repl_react :: "repl_env \<Rightarrow> utext \<Rightarrow> repl \<Rightarrow> repl \<times> repl_next" where
  "repl_react env line r =
     (let parts = split_max 2 line
      in if length parts \<noteq> 3 \<or> \<not> ascii_digits (parts ! 1) then (r, NextLine)
         else (repl_call (ReplReact (digits_value (parts ! 1)) (parts ! 2)) r,
               (case rl_send env (rp_line_no r) of Accepted m \<Rightarrow> NextLine | Refused \<Rightarrow> NextLine | _ \<Rightarrow> ReplCrash)))"

definition repl_lang :: "repl_env \<Rightarrow> utext \<Rightarrow> repl \<Rightarrow> repl \<times> repl_next" where
  "repl_lang env line r =
     (let parts = split_max 1 line
      in if length parts \<noteq> 2 \<or> ustrip (parts ! 1) = [] then (r, NextLine)
         else if \<not> rl_outbound env then (r, NextLine)
         else (let v = rl_lower env (ustrip (parts ! 1))
               in (repl_call (ReplLang (if v = u ''auto'' then LangAuto else if v = u ''on'' then LangOn
                     else if v = u ''off'' then LangOff else SetLang v)) r, NextLine)))"

text \<open>Reading one more line in the middle of a flow: \<open>None\<close> at the end of the input.\<close>

definition repl_read :: "repl \<Rightarrow> (utext \<times> repl) option" where
  "repl_read r = (case rp_lines r of [] \<Rightarrow> None | l # ls \<Rightarrow> Some (l, r\<lparr>rp_lines := ls\<rparr>))"

definition confirm_send :: "repl_env \<Rightarrow> utext \<Rightarrow> repl \<Rightarrow> repl \<times> repl_next" where
  "confirm_send env line r =
     (case repl_read r of
        None \<Rightarrow> (r, EndOfInput)
      | Some (confirm, r1) \<Rightarrow>
          if rl_lower env (ustrip confirm) \<notin> {u ''y'', u ''yes''} then (r1, NextLine)
          else repl_deliver env (ReplSend line) r1)"

definition pick_variant :: "repl_env \<Rightarrow> utext \<Rightarrow> prepare_result \<Rightarrow> repl \<Rightarrow> repl \<times> repl_next" where
  "pick_variant env line res r =
     (case repl_read r of
        None \<Rightarrow> (r, EndOfInput)
      | Some (answer, r1) \<Rightarrow>
          (let choice = ustrip answer; variants = pr_variants res
           in if choice = [] \<or> choice = u ''0'' then (r1, NextLine)
              else if choice = u (str_int (int (length variants) + 1)) then repl_deliver env (ReplSend line) r1
              else (case rl_int env choice of
                      None \<Rightarrow> (r1, NextLine)
                    | Some idx \<Rightarrow>
                        if \<not> (1 \<le> idx \<and> idx \<le> int (length variants)) then (r1, NextLine)
                        else repl_deliver env (ReplVariant (pr_token res) (variants ! nat (idx - 1))) r1)))"

definition repl_text :: "repl_env \<Rightarrow> utext \<Rightarrow> repl \<Rightarrow> repl \<times> repl_next" where
  "repl_text env line r =
     (if \<not> rl_outbound env then repl_deliver env (ReplSend line) r
      else (let res = rl_prepare env (rp_line_no r); r1 = repl_call (ReplPrepare line) r
            in (case pr_status res of
                  PrepError \<Rightarrow> confirm_send env line r1
                | Ready \<Rightarrow> pick_variant env line res r1
                | _ \<Rightarrow> repl_deliver env (ReplSend line) r1)))"

definition first_word :: "utext \<Rightarrow> utext" where
  "first_word line = hd (split_max 1 line)"

definition repl_line :: "repl_env \<Rightarrow> utext \<Rightarrow> repl \<Rightarrow> repl \<times> repl_next" where
  "repl_line env line r =
     (if ustrip line = [] then (r, NextLine)
      else (let first = first_word line
            in if first = u ''/help'' then (r, NextLine)
               else if first = u ''/react'' then repl_react env line r
               else if first \<noteq> u ''/lang'' \<and> take 1 first = [47] \<and> rl_kind env \<noteq> Some Bot then (r, NextLine)
               else if first = u ''/lang'' then repl_lang env line r
               else repl_text env line r))"

lemma deliver_lines: "rp_lines (fst (repl_deliver env c r)) = rp_lines r"
  by (simp add: repl_deliver_def repl_call_def repl_sent_def Let_def split: send_answer.split repl_call.split)

lemma read_lines: "repl_read r = Some (l, r1) \<Longrightarrow> rp_lines r = l # rp_lines r1"
  by (auto simp: repl_read_def split: list.splits)

lemma call_lines [simp]: "rp_lines (repl_call c r) = rp_lines r"
  by (simp add: repl_call_def)

lemma react_lines: "rp_lines (fst (repl_react env line r)) = rp_lines r"
  by (simp add: repl_react_def Let_def)

lemma lang_lines: "rp_lines (fst (repl_lang env line r)) = rp_lines r"
  by (simp add: repl_lang_def Let_def)

lemma confirm_lines: "length (rp_lines (fst (confirm_send env line r))) \<le> length (rp_lines r)"
  by (auto simp: confirm_send_def deliver_lines dest: read_lines split: option.split)

lemma pick_lines: "length (rp_lines (fst (pick_variant env line res r))) \<le> length (rp_lines r)"
  by (auto simp: pick_variant_def deliver_lines Let_def dest: read_lines split: option.split)

lemma text_lines: "length (rp_lines (fst (repl_text env line r))) \<le> length (rp_lines r)"
  using confirm_lines [of env line "repl_call (ReplPrepare line) r"] pick_lines [of env line _ "repl_call (ReplPrepare line) r"]
  by (simp add: repl_text_def deliver_lines Let_def split: prepare_status.split)

lemma line_shrinks: "length (rp_lines (fst (repl_line env line r))) \<le> length (rp_lines r)"
  by (simp add: repl_line_def react_lines lang_lines text_lines Let_def)

lemma line_shrinks': "repl_line env line r = (r1, y) \<Longrightarrow> length (rp_lines r1) \<le> length (rp_lines r)"
  using line_shrinks [of env line r] by simp

text \<open>The loop: every round reads at least one line, so it ends with the input.\<close>

function repl_loop :: "repl_env \<Rightarrow> repl \<Rightarrow> repl \<times> repl_next" where
  "repl_loop env r =
     (case rp_lines r of
        [] \<Rightarrow> (r, EndOfInput)
      | line # rest \<Rightarrow>
          (case repl_line env line (r\<lparr>rp_lines := rest, rp_line_no := Suc (rp_line_no r)\<rparr>) of
             (r1, NextLine) \<Rightarrow> repl_loop env r1
           | (r1, next) \<Rightarrow> (r1, next)))"
  by pat_completeness auto
termination
  by (relation "measure (\<lambda>(env, r). length (rp_lines r))") (auto dest!: sym [of "(_, _)"] line_shrinks')

declare repl_loop.simps [simp del]

section \<open>The printers\<close>

datatype printed = ShownIncoming int utext | ShownOutgoing int utext | ShownReaction int utext | ShownTranslation int utext

definition max_inflight_repl :: nat where
  "max_inflight_repl = 4"

definition shown_text :: "message \<Rightarrow> utext" where
  "shown_text m = or_default (ms_text m) (u ''<media>'')"

text \<open>Printing an event, and whether its translation is started: \<open>running\<close> is the number of
  translations not yet done.\<close>

definition spawn_translation :: "bool \<Rightarrow> nat \<Rightarrow> bool" where
  "spawn_translation translator running \<longleftrightarrow> translator \<and> \<not> max_inflight_repl \<le> running"

definition print_incoming :: "int \<Rightarrow> bool \<Rightarrow> nat \<Rightarrow> incoming_event \<Rightarrow> printed option \<times> bool" where
  "print_incoming dialog_id translator running ev =
     (if ie_dialog_id ev = dialog_id
      then (Some (ShownIncoming (ms_id (ie_message ev)) (shown_text (ie_message ev))), spawn_translation translator running)
      else (None, False))"

definition print_outgoing :: "int \<Rightarrow> bool \<Rightarrow> nat \<Rightarrow> (int \<times> int) list \<Rightarrow> outgoing_event \<Rightarrow> printed option \<times> bool" where
  "print_outgoing dialog_id translator running sent_ids ev =
     (if oe_dialog_id ev = dialog_id \<and> (oe_dialog_id ev, ms_id (oe_message ev)) \<notin> set sent_ids
      then (Some (ShownOutgoing (ms_id (oe_message ev)) (shown_text (oe_message ev))), spawn_translation translator running)
      else (None, False))"

definition print_reaction :: "int \<Rightarrow> int \<Rightarrow> int \<Rightarrow> utext option \<Rightarrow> printed option" where
  "print_reaction dialog_id d message_id emoticon =
     (if d = dialog_id
      then Some (ShownReaction message_id (case emoticon of Some e \<Rightarrow> e | None \<Rightarrow> custom_reaction)) else None)"

text \<open>\<open>_picker_line\<close>: the continuation lines of a variant stand under its text.\<close>

definition picker_line :: "utext \<Rightarrow> utext \<Rightarrow> utext" where
  "picker_line marker txt =
     (let prefix = marker @ [32]
      in if 10 \<notin> set txt then prefix @ txt
         else (let parts = split_on 10 txt; indent = replicate (length prefix) 32
               in join [10] ((prefix @ hd parts) # map (\<lambda>line. indent @ line) (tl parts))))"

section \<open>What the loop sends\<close>

text \<open>A line the loop hands on as text.\<close>

definition sendable :: "repl_env \<Rightarrow> utext \<Rightarrow> bool" where
  "sendable env line \<longleftrightarrow> ustrip line \<noteq> [] \<and> first_word line \<notin> {u ''/help'', u ''/react'', u ''/lang''}
     \<and> (take 1 (first_word line) = [47] \<longrightarrow> rl_kind env = Some Bot)"

fun call_fine :: "repl_env \<Rightarrow> utext list \<Rightarrow> repl_call \<Rightarrow> bool" where
  "call_fine env ls (ReplSend t) \<longleftrightarrow> t \<in> set ls \<and> sendable env t"
| "call_fine env ls (ReplPrepare t) \<longleftrightarrow> t \<in> set ls \<and> sendable env t"
| "call_fine env ls (ReplVariant token t) \<longleftrightarrow>
     (\<exists>n. pr_status (rl_prepare env n) = Ready \<and> token = pr_token (rl_prepare env n) \<and> t \<in> set (pr_variants (rl_prepare env n)))"
| "call_fine env ls (ReplReact i e) \<longleftrightarrow>
     (\<exists>line\<in>set ls. first_word line = u ''/react'' \<and> length (split_max 2 line) = 3 \<and> ascii_digits (split_max 2 line ! 1)
        \<and> i = digits_value (split_max 2 line ! 1) \<and> e = split_max 2 line ! 2)"
| "call_fine env ls (ReplLang c) \<longleftrightarrow> (\<exists>line\<in>set ls. first_word line = u ''/lang'')"

fun sends_text :: "repl_call \<Rightarrow> bool" where
  "sends_text (ReplSend t) = True"
| "sends_text (ReplVariant token t) = True"
| "sends_text _ = False"

definition sends_made :: "repl \<Rightarrow> nat" where
  "sends_made r = length (filter sends_text (rp_calls r))"

text \<open>From one state to a later one: only fine calls, and at most so many sends, were added.\<close>

definition adds :: "repl_env \<Rightarrow> utext list \<Rightarrow> nat \<Rightarrow> repl \<Rightarrow> repl \<Rightarrow> bool" where
  "adds env ls n r r' \<longleftrightarrow>
     (\<exists>new. rp_calls r' = rp_calls r @ new \<and> list_all (call_fine env ls) new \<and> length (filter sends_text new) \<le> n)"

lemma adds_refl [simp]: "adds env ls n r r"
  by (simp add: adds_def)

lemma adds_call: "call_fine env ls c \<Longrightarrow> adds env ls (Suc 0) r (repl_call c r)" "call_fine env ls c \<Longrightarrow> \<not> sends_text c \<Longrightarrow> adds env ls 0 r (repl_call c r)"
  by (simp_all add: adds_def repl_call_def)

lemma adds_trans: "adds env ls m a b \<Longrightarrow> adds env ls n b c \<Longrightarrow> adds env ls (m + n) a c"
  by (fastforce simp: adds_def)

lemma adds_more: "adds env ls m a b \<Longrightarrow> m \<le> n \<Longrightarrow> adds env ls n a b"
  by (fastforce simp: adds_def)

lemma adds_deliver: "call_fine env ls c \<Longrightarrow> adds env ls (Suc 0) r (fst (repl_deliver env c r))"
  by (auto simp: adds_def repl_deliver_def repl_call_def repl_sent_def Let_def split: send_answer.split repl_call.split)

lemma adds_read: "repl_read r = Some (l, r1) \<Longrightarrow> adds env ls n r r1"
  by (auto simp: repl_read_def adds_def split: list.splits)

lemma adds_after_read: "repl_read r = Some (l, r1) \<Longrightarrow> adds env ls n r1 r2 \<Longrightarrow> adds env ls n r r2"
  by (auto simp: repl_read_def adds_def split: list.splits)

lemma adds_react:
  assumes "line \<in> set ls" and "first_word line = u ''/react''"
  shows "adds env ls (Suc 0) r (fst (repl_react env line r))"
proof (cases "length (split_max 2 line) = 3 \<and> ascii_digits (split_max 2 line ! 1)")
  case True
  then have "call_fine env ls (ReplReact (digits_value (split_max 2 line ! 1)) (split_max 2 line ! 2))"
    using assms by auto
  then have "adds env ls (Suc 0) r (repl_call (ReplReact (digits_value (split_max 2 line ! 1)) (split_max 2 line ! 2)) r)"
    by (rule adds_call)
  then show ?thesis using True by (simp add: repl_react_def Let_def)
next
  case False
  then show ?thesis by (auto simp: repl_react_def Let_def)
qed

lemma adds_lang: "line \<in> set ls \<Longrightarrow> first_word line = u ''/lang'' \<Longrightarrow> adds env ls (Suc 0) r (fst (repl_lang env line r))"
proof -
  assume "line \<in> set ls" "first_word line = u ''/lang''"
  then have "call_fine env ls (ReplLang c)" for c by auto
  then have "adds env ls (Suc 0) r (repl_call (ReplLang c) r)" for c by (rule adds_call)
  then show ?thesis unfolding repl_lang_def Let_def by simp
qed

lemma adds_confirm:
  assumes "line \<in> set ls" and "sendable env line"
  shows "adds env ls (Suc 0) r (fst (confirm_send env line r))"
proof (cases "repl_read r")
  case (Some p)
  then obtain answer r1 where p: "repl_read r = Some (answer, r1)" by (cases p) auto
  have "call_fine env ls (ReplSend line)" using assms by simp
  then have "adds env ls (Suc 0) r (fst (repl_deliver env (ReplSend line) r1))" by (rule adds_after_read [OF p adds_deliver])
  then show ?thesis unfolding confirm_send_def p using adds_read [OF p, of env ls "Suc 0"] by simp
qed (simp add: confirm_send_def)

lemma adds_pick:
  assumes "line \<in> set ls" and "sendable env line" and "pr_status (rl_prepare env n) = Ready"
  shows "adds env ls (Suc 0) r (fst (pick_variant env line (rl_prepare env n) r))"
proof (cases "repl_read r")
  case None
  then show ?thesis by (simp add: pick_variant_def)
next
  case (Some p)
  then obtain answer r1 where p: "repl_read r = Some (answer, r1)" by (cases p) auto
  have v: "call_fine env ls (ReplVariant (pr_token (rl_prepare env n)) (pr_variants (rl_prepare env n) ! nat (idx - 1)))"
    if "1 \<le> idx" "idx \<le> int (length (pr_variants (rl_prepare env n)))" for idx
  proof -
    have "nat (idx - 1) < length (pr_variants (rl_prepare env n))" using that by linarith
    then show ?thesis using assms(3) by auto
  qed
  have s: "call_fine env ls (ReplSend line)" using assms(1,2) by simp
  have "adds env ls (Suc 0) r (fst (repl_deliver env c r1))" if "call_fine env ls c" for c
    by (rule adds_after_read [OF p adds_deliver [OF that]])
  then show ?thesis
    unfolding pick_variant_def p Let_def using s v adds_read [OF p, of env ls "Suc 0"] by (simp split: option.split)
qed

lemma adds_text:
  assumes "line \<in> set ls" and "sendable env line"
  shows "adds env ls (Suc 0) r (fst (repl_text env line r))"
proof -
  have p: "adds env ls 0 r (repl_call (ReplPrepare line) r)" using assms by (intro adds_call) simp_all
  have s: "call_fine env ls (ReplSend line)" using assms by simp
  note after = adds_trans [OF p, of "Suc 0", simplified]
  show ?thesis
    using adds_deliver [OF s] after [OF adds_confirm [OF assms]] after [OF adds_pick [OF assms]] after [OF adds_deliver [OF s]]
    by (simp add: repl_text_def Let_def split: prepare_status.split)
qed

lemma adds_line: "line \<in> set ls \<Longrightarrow> adds env ls (Suc 0) r (fst (repl_line env line r))"
  by (auto simp: repl_line_def Let_def sendable_def intro: adds_react adds_lang adds_text)

lemma read_within: "set (rp_lines r) \<subseteq> A \<Longrightarrow> repl_read r = Some (l, r1) \<Longrightarrow> set (rp_lines r1) \<subseteq> A"
  by (auto simp: repl_read_def split: list.splits)

lemma confirm_within: "set (rp_lines (fst (confirm_send env line r))) \<subseteq> set (rp_lines r)"
  by (auto simp: confirm_send_def deliver_lines repl_read_def split: list.splits if_splits)

lemma pick_within: "set (rp_lines (fst (pick_variant env line res r))) \<subseteq> set (rp_lines r)"
  by (auto simp: pick_variant_def deliver_lines repl_read_def Let_def split: list.splits if_splits option.splits)

lemma text_within: "set (rp_lines (fst (repl_text env line r))) \<subseteq> set (rp_lines r)"
  using confirm_within [of env line "repl_call (ReplPrepare line) r"] pick_within [of env line _ "repl_call (ReplPrepare line) r"]
  by (simp add: repl_text_def deliver_lines Let_def split: prepare_status.split)

lemma line_within: "set (rp_lines (fst (repl_line env line r))) \<subseteq> set (rp_lines r)"
  by (simp add: repl_line_def react_lines lang_lines text_within Let_def)

lemma loop_adds: "set (rp_lines r) \<subseteq> set ls \<Longrightarrow> adds env ls (length (rp_lines r)) r (fst (repl_loop env r))"
proof (induction env r rule: repl_loop.induct)
  case (1 env r)
  show ?case
  proof (cases "rp_lines r")
    case Nil
    then show ?thesis by (simp add: repl_loop.simps [of env r])
  next
    case (Cons line rest)
    let ?r0 = "r\<lparr>rp_lines := rest, rp_line_no := Suc (rp_line_no r)\<rparr>"
    obtain r1 y where y: "repl_line env line ?r0 = (r1, y)" by (cases "repl_line env line ?r0")
    have one: "adds env ls (Suc 0) r r1"
      using adds_line [of line ls env ?r0] 1(2) Cons y by (simp add: adds_def)
    have len: "length (rp_lines r1) \<le> length rest" using line_shrinks' [OF y] by simp
    have "set (rp_lines r1) \<subseteq> set ls"
      using line_within [of env line ?r0] y 1(2) Cons by auto
    then have more: "y = NextLine \<Longrightarrow> adds env ls (length (rp_lines r1)) r1 (fst (repl_loop env r1))"
      using 1(1) [OF Cons y [symmetric]] by simp
    show ?thesis
    proof (cases y)
      case NextLine
      then have "adds env ls (Suc 0 + length (rp_lines r1)) r (fst (repl_loop env r1))"
        using adds_trans [OF one more] by simp
      then have "adds env ls (length (rp_lines r)) r (fst (repl_loop env r1))"
        by (rule adds_more) (simp add: Cons len)
      then show ?thesis by (simp add: repl_loop.simps [of env r] Cons y NextLine)
    next
      case EndOfInput
      then show ?thesis using adds_more [OF one, of "length (rp_lines r)"] by (simp add: repl_loop.simps [of env r] Cons y)
    next
      case ReplCrash
      then show ?thesis using adds_more [OF one, of "length (rp_lines r)"] by (simp add: repl_loop.simps [of env r] Cons y)
    qed
  qed
qed


end
