(* ===== verification/Agent_Models.thy ===== *)
theory Agent_Models
  imports Agent_Loop Translator Outbound
begin

text \<open>
  \<open>src/tg_messenger/agent/factory.py\<close>: the functions over a chat model that the agent, the
  suggester and the translators are built from. A model is a record of what its calls answer
  (\<open>None\<close>: an exception or the timeout); a structured call answers a parsed batch, a
  dictionary with what pydantic makes of it, or something else. \<open>dumps\<close> and \<open>loads\<close> are
  JSON's, \<open>lower_text\<close> is Unicode's lower case, \<open>fixed\<close> formats a float with so many decimals.
\<close>

section \<open>Models\<close>

type_synonym batch = "(int \<times> utext option) list"

datatype structured_reply = CallFailed | ParsedBatch batch | DictReply "batch option" | OtherReply

text \<open>\<open>with_structured_output(method)\<close> raises for the methods the model does not offer.\<close>

record llm =
  lm_invoke :: "utext \<Rightarrow> chat_message list \<Rightarrow> utext option"
  lm_offers :: "string \<Rightarrow> bool"
  lm_structured :: "string \<Rightarrow> utext \<Rightarrow> chat_message list \<Rightarrow> structured_reply"

section \<open>Classifying, chatting, looking\<close>

definition build_classify_prompt :: "intent_spec list \<Rightarrow> utext" where
  "build_classify_prompt intents =
     (let names = [u ''task''] @ map it_name intents @ [u ''chat'']
      in join [10]
        ([u ''You are an intent router for a Telegram assistant. Classify the user'' @ [39] @
     u ''s message and answer with EXACTLY one word:'',
          u ''- '' @ [39] @ u ''task'' @ [39] @ u '' '' @ [8212] @
     u '' the user asks to perform an action (send a message, look something up on the web, read chats, do '' @
     u ''multi-step work);'']
         @ map (\<lambda>spec. u ''- '' @ [39] @ it_name spec @ [39] @ u '' '' @ [8212] @ u '' '' @ it_description spec @ [59]) intents
         @ [u ''- '' @ [39] @ u ''chat'' @ [39] @ u '' '' @ [8212] @
     u '' casual conversation, questions, small talk (use it when nothing else fits).'',
            u ''Answer with one word: '' @ join (u '' or '') names @ [46]]))"

definition chat_system_prompt :: utext where
  "chat_system_prompt =
     u ''You are a friendly Telegram assistant. Reply briefly and naturally, in the language of the user'' @ [39] @
     u ''s message.''"

definition vision_system_prompt :: utext where
  "vision_system_prompt =
     u ''You are a friendly Telegram assistant. The user sent an image (with an optional caption). Describe '' @
     u ''or answer based on what the image shows, briefly and naturally, in the language of the user'' @ [39] @
     u ''s message (or the dialog language if there is no caption).''"

definition task_system_prompt :: utext where
  "task_system_prompt =
     u ''You are a Telegram assistant that completes the user'' @ [39] @
     u ''s task using the available tools: Telegram actions (send messages, read history, list dialogs) and '' @
     u ''web search. Plan, act, then reply to the user with a short summary of what you did, in the language '' @
     u ''of the user'' @ [39] @ u ''s message.''"

text \<open>\<open>strip().lower().strip('.!"\'')\<close>.\<close>

definition bare_answer :: "(utext \<Rightarrow> utext) \<Rightarrow> utext \<Rightarrow> utext" where
  "bare_answer lower_text t = strip_by (\<lambda>c. c \<in> {46, 33, 34, 39}) (lower_text (ustrip t))"

definition make_classifier :: "(utext \<Rightarrow> utext) \<Rightarrow> llm \<Rightarrow> intent_spec list \<Rightarrow> utext \<Rightarrow> utext option" where
  "make_classifier lower_text model intents txt =
     (case lm_invoke model (build_classify_prompt intents) [Human txt] of
        None \<Rightarrow> None
      | Some content \<Rightarrow>
          (let intent = bare_answer lower_text content
           in Some (if intent \<in> {u ''chat'', u ''task''} \<union> it_name ` set intents then intent else u ''chat'')))"

definition make_prompted_fn :: "llm \<Rightarrow> utext \<Rightarrow> chat_message list \<Rightarrow> utext option" where
  "make_prompted_fn model system_prompt messages = lm_invoke model system_prompt messages"

definition make_chat_fn :: "llm \<Rightarrow> chat_message list \<Rightarrow> utext option" where
  "make_chat_fn model = make_prompted_fn model chat_system_prompt"

definition make_vision_fn :: "llm \<Rightarrow> chat_message list \<Rightarrow> utext option" where
  "make_vision_fn model = make_prompted_fn model vision_system_prompt"

text \<open>\<open>init\<close> is \<open>init_chat_model\<close>; the deep agent over the tools is the argument \<open>agent\<close>.\<close>

definition build_orchestrator :: "(utext \<Rightarrow> utext) \<Rightarrow> (string \<Rightarrow> llm option) \<Rightarrow> (llm \<Rightarrow> utext \<Rightarrow> chat_message list \<Rightarrow> utext option)
    \<Rightarrow> agent_config \<Rightarrow> agent_models option" where
  "build_orchestrator lower_text init agent cfg =
     (case init (ac_model cfg) of
        None \<Rightarrow> None
      | Some model \<Rightarrow>
          (case (if truthy (ac_vision_model cfg) then init (the (ac_vision_model cfg)) else Some model) of
             None \<Rightarrow> None
           | Some vision_model \<Rightarrow>
               Some \<lparr>mo_classify = make_classifier lower_text model (ac_intents cfg), mo_chat = make_chat_fn model,
                     mo_task = agent model task_system_prompt, mo_vision = Some (make_vision_fn vision_model)\<rparr>))"

section \<open>Suggesting a reply\<close>

definition suggest_system_prompt :: utext where
  "suggest_system_prompt =
     u ''You are a writing assistant drafting a reply for a human to review and send in a Telegram chat. '' @ u ''Match the user'' @
     [39] @ u ''s OWN voice: tone, length and emoji habits from the style profile and their past replies. Output '' @
     u ''ONLY the draft reply text '' @ [8212] @ u '' no preamble, no quotes '' @ [8212] @
     u '' in the language of the conversation.''"

definition bullet :: "utext \<Rightarrow> utext" where
  "bullet ex = [32, 32, 8226, 32] @ ex"

definition payload_style :: "(nat \<Rightarrow> real \<Rightarrow> utext) \<Rightarrow> style_profile \<Rightarrow> utext list" where
  "payload_style fixed p =
     [[], u ''My typical style:'',
      u ''- average reply length: '' @ fixed 0 (sp_avg_length p) @ u '' chars'',
      u ''- emoji per reply: '' @ fixed 2 (sp_emoji_freq p)]
     @ (if sp_greetings p = [] then [] else [u ''- greetings I use: '' @ join (u '', '') (sp_greetings p)])
     @ (if sp_signatures p = [] then [] else [u ''- sign-offs I use: '' @ join (u '', '') (sp_signatures p)])
     @ (if sp_examples p = [] then [] else u ''- example replies of mine:'' # map bullet (sp_examples p))"

definition render_suggest_payload :: "(nat \<Rightarrow> real \<Rightarrow> utext) \<Rightarrow> context_message list \<Rightarrow> style_profile option \<Rightarrow> utext" where
  "render_suggest_payload fixed ctx profile =
     join [10]
       ([u ''Conversation so far (oldest first):'']
        @ map (\<lambda>m. (if cx_out m then u ''Me'' else u ''Them'') @ u '': '' @ cx_text m) ctx
        @ (case profile of None \<Rightarrow> [] | Some p \<Rightarrow> payload_style fixed p)
        @ [[], u ''Draft my next reply:''])"

definition make_suggest_fn :: "(nat \<Rightarrow> real \<Rightarrow> utext) \<Rightarrow> llm \<Rightarrow> suggest_fn" where
  "make_suggest_fn fixed model ctx profile =
     map_option ustrip (lm_invoke model suggest_system_prompt [Human (render_suggest_payload fixed ctx profile)])"

text \<open>\<open>make_suggest_fn_factory().build\<close>: every failure is the ValueError of the settings form.\<close>

definition suggest_fn_factory :: "(nat \<Rightarrow> real \<Rightarrow> utext) \<Rightarrow> (string \<Rightarrow> llm option) \<Rightarrow> string \<Rightarrow> suggest_fn option" where
  "suggest_fn_factory fixed init model_name =
     (if strip model_name = [] then None else map_option (make_suggest_fn fixed) (init (strip model_name)))"

definition build_suggester :: "(nat \<Rightarrow> real \<Rightarrow> utext) \<Rightarrow> (string \<Rightarrow> llm option) \<Rightarrow> agent_config \<Rightarrow> suggester option" where
  "build_suggester fixed init cfg =
     map_option (\<lambda>model. new_suggester (make_suggest_fn fixed model) (ac_suggest_history_limit cfg) (Some (suggest_fn_factory fixed init)))
       (init (or_default (ac_suggest_model cfg) (ac_model cfg)))"

section \<open>Translating a history\<close>

definition translate_system_prompt :: utext where
  "translate_system_prompt =
     u ''Translate Telegram messages into the target language. Return a JSON object {'' @ [34] @ u ''items'' @ [34] @ u '': [{'' @
     [34] @ u ''id'' @ [34] @ u '': number, '' @ [34] @ u ''translation'' @ [34] @
     u '': string|null}]} with one entry per input message. Use null for translation when a message is '' @
     u ''already in the target language or should not be translated.'' @ [10] @ u ''Detect each message'' @ [39] @
     u ''s source language. If '' @ [34] @ u ''only_langs'' @ [34] @
     u '' is a non-empty list, translate ONLY messages whose source language is one of those codes and '' @
     u ''return null for every other message. Otherwise, return null for any message whose source language '' @ u ''is in '' @
     [34] @ u ''skip_langs'' @ [34] @ u ''. Language codes are ISO 639-1 (e.g. ru, en, es).''"

definition translate_payload :: "payload \<Rightarrow> string \<Rightarrow> string list \<Rightarrow> string list \<Rightarrow> json" where
  "translate_payload messages target_lang skip_langs only_langs =
     JObj [(''target_lang'', JStr target_lang), (''skip_langs'', JList (map JStr skip_langs)),
           (''only_langs'', JList (map JStr only_langs)),
           (''messages'', JList (map (\<lambda>(i, t). JObj [(''id'', JInt i), (''text'', JText t)]) messages))]"

definition structured_translate :: "(json \<Rightarrow> utext) \<Rightarrow> llm \<Rightarrow> string \<Rightarrow> json \<Rightarrow> batch option" where
  "structured_translate dumps model m payload =
     (case lm_structured model m translate_system_prompt [Human (dumps payload)] of
        CallFailed \<Rightarrow> None
      | ParsedBatch b \<Rightarrow> Some b
      | DictReply b \<Rightarrow> b
      | OtherReply \<Rightarrow> None)"

text \<open>\<open>_batch_to_map\<close>: the last item with an id counts.\<close>

definition batch_to_map :: "batch \<Rightarrow> (int, utext option) odict" where
  "batch_to_map b = foldl (\<lambda>d (i, t). od_set i t d) [] b"

definition probe_payload :: json where
  "probe_payload = translate_payload [(1, u ''hola'')] ''en'' [] []"

definition probe_structured_method :: "(json \<Rightarrow> utext) \<Rightarrow> llm \<Rightarrow> string" where
  "probe_structured_method dumps model =
     (if \<not> lm_offers model ''json_schema'' then ''json_mode''
      else (case structured_translate dumps model ''json_schema'' probe_payload of
              None \<Rightarrow> ''json_mode''
            | Some b \<Rightarrow> if b = [] then ''json_mode'' else ''json_schema''))"

definition with_fallback_method :: "(json \<Rightarrow> utext) \<Rightarrow> llm \<Rightarrow> string \<Rightarrow> string option \<Rightarrow> json \<Rightarrow> batch option" where
  "with_fallback_method dumps model primary fallback payload =
     (let b = structured_translate dumps model primary payload
      in case fallback of
           None \<Rightarrow> b
         | Some m \<Rightarrow> if b = None \<or> b = Some [] then structured_translate dumps model m payload else b)"

definition fallback_of :: "string \<Rightarrow> string option" where
  "fallback_of m = (if m = ''json_schema'' then Some ''json_mode'' else None)"

definition run_translate :: "(json \<Rightarrow> utext) \<Rightarrow> llm \<Rightarrow> string \<Rightarrow> payload \<Rightarrow> string \<Rightarrow> string list \<Rightarrow> string list \<Rightarrow> (int, utext option) odict" where
  "run_translate dumps model m messages target_lang skip_langs only_langs =
     (case with_fallback_method dumps model m (fallback_of m) (translate_payload messages target_lang skip_langs only_langs) of
        None \<Rightarrow> [] | Some b \<Rightarrow> batch_to_map b)"

definition can_make :: "llm \<Rightarrow> string \<Rightarrow> bool" where
  "can_make model m \<longleftrightarrow> lm_offers model m \<and> (m = ''json_schema'' \<longrightarrow> lm_offers model ''json_mode'')"

text \<open>The answer as the Translator looks it up: \<open>translated.get(id)\<close>.\<close>

definition make_translate_fn :: "(json \<Rightarrow> utext) \<Rightarrow> llm \<Rightarrow> string \<Rightarrow> translate_fn option" where
  "make_translate_fn dumps model m =
     (if can_make model m
      then Some (\<lambda>messages target skip only.
        Some (\<lambda>i. case od_get (run_translate dumps model m messages target skip only) i of None \<Rightarrow> None | Some t \<Rightarrow> t))
      else None)"

section \<open>The method of a model\<close>

text \<open>What the storage does: whether it can be read, whether it can be written.\<close>

type_synonym kv_health = "bool \<times> bool"

definition resolve_translate_method :: "(json \<Rightarrow> utext) \<Rightarrow> kv_health \<Rightarrow> string \<Rightarrow> llm \<Rightarrow> lang_store \<Rightarrow> string option \<times> lang_store" where
  "resolve_translate_method dumps health name model s =
     (if \<not> fst health then (None, s)
      else (case get_cached_method name s of
              Some m \<Rightarrow> (Some m, s)
            | None \<Rightarrow>
                (let m = probe_structured_method dumps model
                 in (Some m, if snd health then snd (set_cached_method name m s) else s))))"

text \<open>
  \<open>make_self_probing_translate_fn\<close>, one call at a time: \<open>st\<close> is the method of the function kept
  in the closure. The answer is the translations, None an exception.
\<close>

definition self_probing_translate :: "(json \<Rightarrow> utext) \<Rightarrow> kv_health \<Rightarrow> string \<Rightarrow> llm \<Rightarrow> payload \<Rightarrow> string \<Rightarrow> string list \<Rightarrow> string list
    \<Rightarrow> string option \<times> lang_store \<Rightarrow> (int, utext option) odict option \<times> string option \<times> lang_store" where
  "self_probing_translate dumps health name model messages target skip only state =
     (case state of
        (Some m, s) \<Rightarrow> (Some (run_translate dumps model m messages target skip only), Some m, s)
      | (None, s) \<Rightarrow>
          (case resolve_translate_method dumps health name model s of
             (None, s1) \<Rightarrow> (None, None, s1)
           | (Some m, s1) \<Rightarrow>
               if can_make model m then (Some (run_translate dumps model m messages target skip only), Some m, s1)
               else (None, None, s1)))"

section \<open>Outbound translation\<close>

definition outbound_variants_system_prompt :: utext where
  "outbound_variants_system_prompt =
     u ''Translate the user'' @ [39] @
     u ''s draft into the target language. Produce up to 3 alternative translations in the user'' @ [39] @
     u ''s own voice, using their style profile and recent context. Output ONLY a JSON array of strings.''"

text \<open>A fenced block, by \<open>re.fullmatch\<close> with DOTALL and IGNORECASE: what stands between the
  fences, without the word json. Ignoring case, the letter s also matches U+017F.\<close>

definition json_word :: "utext \<Rightarrow> bool" where
  "json_word w \<longleftrightarrow> list_all2 (\<lambda>c alts. c \<in> alts) w [{106, 74}, {115, 83, 383}, {111, 79}, {110, 78}]"

definition strip_json_fence :: "utext \<Rightarrow> utext" where
  "strip_json_fence t =
     (let raw = ustrip t; fence = [96, 96, 96]; body = take (length raw - 6) (drop 3 raw)
      in if 6 \<le> length raw \<and> take 3 raw = fence \<and> drop (length raw - 3) raw = fence
         then ustrip (if json_word (take 4 body) then drop 4 body else body) else raw)"

definition style_lines :: "(nat \<Rightarrow> real \<Rightarrow> utext) \<Rightarrow> style_profile option \<Rightarrow> utext list" where
  "style_lines fixed profile =
     (case profile of
        None \<Rightarrow> [u ''No stored style profile.'']
      | Some p \<Rightarrow>
          [u ''average reply length: '' @ fixed 0 (sp_avg_length p) @ u '' chars'', u ''emoji per reply: '' @ fixed 2 (sp_emoji_freq p)]
          @ (if sp_greetings p = [] then [] else [u ''greetings: '' @ join (u '', '') (sp_greetings p)])
          @ (if sp_signatures p = [] then [] else [u ''sign-offs: '' @ join (u '', '') (sp_signatures p)])
          @ (if sp_examples p = [] then [] else u ''example replies:'' # map (\<lambda>ex. u ''- '' @ ex) (sp_examples p)))"

definition variants_payload :: "(nat \<Rightarrow> real \<Rightarrow> utext) \<Rightarrow> utext \<Rightarrow> string \<Rightarrow> style_profile option \<Rightarrow> context_message list \<Rightarrow> json" where
  "variants_payload fixed draft target_lang profile ctx =
     JObj [(''target_lang'', JStr target_lang), (''draft'', JText draft),
           (''style_profile'', JList (map JText (style_lines fixed profile))),
           (''context'', JList (map (\<lambda>m. JObj [(''out'', JBool (cx_out m)), (''text'', JText (cx_text m))]) ctx))]"

text \<open>An answer that is no JSON list is a ValueError; items that are no strings are dropped.\<close>

definition make_outbound_variants_fn :: "(nat \<Rightarrow> real \<Rightarrow> utext) \<Rightarrow> (json \<Rightarrow> utext) \<Rightarrow> (utext \<Rightarrow> json option) \<Rightarrow> llm \<Rightarrow> variants_fn" where
  "make_outbound_variants_fn fixed dumps loads model draft target_lang profile ctx =
     (case lm_invoke model outbound_variants_system_prompt [Human (dumps (variants_payload fixed draft target_lang profile ctx))] of
        None \<Rightarrow> None
      | Some content \<Rightarrow>
          (case loads (strip_json_fence content) of
             Some (JList items) \<Rightarrow> Some (map Some (List.map_filter json_text items))
           | _ \<Rightarrow> None))"

definition detect_lang_system_prompt :: utext where
  "detect_lang_system_prompt =
     u ''Detect the dominant language of these Telegram messages. Answer with ONLY one of: ''
     @ join (u '', '') (map u supported_langs) @ u ''. If none apply, answer null.''"

definition make_detect_lang_fn :: "(utext \<Rightarrow> utext) \<Rightarrow> llm \<Rightarrow> utext list \<Rightarrow> string option option" where
  "make_detect_lang_fn lower_text model texts =
     (case lm_invoke model detect_lang_system_prompt [Human (join [10] (take 10 texts))] of
        None \<Rightarrow> None
      | Some content \<Rightarrow>
          (let code = bare_answer lower_text content
           in Some (find (\<lambda>l. u l = lower_text (ustrip code)) supported_langs)))"

section \<open>What the functions promise\<close>

lemma classifier_routes: "make_classifier lower_text model intents txt = Some i \<Longrightarrow> i \<in> set (graph_routes intents)"
  by (auto simp: make_classifier_def graph_routes_def Let_def split: option.splits if_splits)

lemma probed_method: "probe_structured_method dumps model \<in> set structured_methods"
  by (simp add: probe_structured_method_def structured_methods_def split: option.split)

lemma cached_method_known: "get_cached_method name s = Some m \<Longrightarrow> m \<in> set structured_methods"
  by (simp add: get_cached_method_def split: option.splits kv_value.splits if_splits)

lemma get_set_method: "m \<in> set structured_methods \<Longrightarrow> get_cached_method name (snd (set_cached_method name m s)) = Some m"
  by (simp add: get_cached_method_def set_cached_method_def)

lemma resolved_method: "resolve_translate_method dumps h name model s = (Some m, s') \<Longrightarrow> m \<in> set structured_methods"
  by (auto simp: resolve_translate_method_def Let_def probed_method cached_method_known split: if_splits option.splits)

lemma resolved_stays:
  assumes "resolve_translate_method dumps (True, True) name model s = (r, s')"
  shows "\<exists>m. r = Some m \<and> get_cached_method name s' = Some m"
proof (cases "get_cached_method name s")
  case None
  then have "r = Some (probe_structured_method dumps model)" "s' = snd (set_cached_method name (probe_structured_method dumps model) s)"
    using assms by (auto simp: resolve_translate_method_def Let_def)
  then show ?thesis by (simp add: get_set_method [OF probed_method])
next
  case (Some m)
  then have "r = Some m" "s' = s" using assms by (simp_all add: resolve_translate_method_def)
  then show ?thesis using Some by simp
qed

text \<open>A probe that fails for a moment settles the model on the lenient method.\<close>

lemma failed_probe_sticks:
  assumes "get_cached_method name s = None" and "lm_structured model ''json_schema'' translate_system_prompt [Human (dumps probe_payload)] = CallFailed"
    and "resolve_translate_method dumps (True, True) name model s = (r, s')"
  shows "resolve_translate_method dumps h name model' s' = (if fst h then Some ''json_mode'' else None, s')"
proof -
  have p: "probe_structured_method dumps model = ''json_mode''"
    using assms(2) by (simp add: probe_structured_method_def structured_translate_def)
  have "get_cached_method name s' = Some ''json_mode''"
    using assms(1,3) get_set_method [OF probed_method, of name dumps model s] by (auto simp: resolve_translate_method_def p Let_def)
  then show ?thesis by (simp add: resolve_translate_method_def)
qed

text \<open>The calls of translators for one model, over restarts of the process, with the number
  of probes.\<close>

datatype probe_event = UseTranslator llm payload string "string list" "string list" | NewTranslator

fun probe_event_step :: "(json \<Rightarrow> utext) \<Rightarrow> string \<Rightarrow> probe_event \<Rightarrow> string option \<times> lang_store \<times> nat \<Rightarrow> string option \<times> lang_store \<times> nat" where
  "probe_event_step dumps name (UseTranslator model messages target skip only) (st, s, n) =
     (case self_probing_translate dumps (True, True) name model messages target skip only (st, s) of
        (r, st', s') \<Rightarrow> (st', s', if st = None \<and> get_cached_method name s = None then Suc n else n))"
| "probe_event_step dumps name NewTranslator (st, s, n) = (None, s, n)"

definition probe_inv :: "string \<Rightarrow> string option \<times> lang_store \<times> nat \<Rightarrow> bool" where
  "probe_inv name x \<longleftrightarrow> (case x of (st, s, n) \<Rightarrow>
     n \<le> 1 \<and> (get_cached_method name s = None \<longrightarrow> st = None \<and> n = 0) \<and> (\<forall>m. st = Some m \<longrightarrow> get_cached_method name s = Some m))"

lemma probe_inv_step: "probe_inv name x \<Longrightarrow> probe_inv name (probe_event_step dumps name e x)"
proof (cases e)
  case (UseTranslator model messages target skip only)
  assume inv: "probe_inv name x"
  obtain st s n where x: "x = (st, s, n)" by (cases x)
  show ?thesis
  proof (cases st)
    case None
    obtain r s' where res: "resolve_translate_method dumps (True, True) name model s = (r, s')" by fastforce
    obtain m where m: "r = Some m" "get_cached_method name s' = Some m" using resolved_stays [OF res] by blast
    show ?thesis using inv m by (auto simp: UseTranslator x None self_probing_translate_def res probe_inv_def)
  next
    case (Some m)
    then show ?thesis using inv by (simp add: UseTranslator x self_probing_translate_def probe_inv_def)
  qed
qed (auto simp: probe_inv_def split: prod.splits)

lemma probe_events_reach:
  "(\<lambda>x y. \<exists>e. y = probe_event_step dumps name e x)\<^sup>*\<^sup>* x (fold (probe_event_step dumps name) evs x)"
proof (induction evs arbitrary: x)
  case (Cons e evs)
  have "(\<lambda>x y. \<exists>e. y = probe_event_step dumps name e x) x (probe_event_step dumps name e x)" by blast
  from converse_rtranclp_into_rtranclp [OF this Cons.IH] show ?case by simp
qed simp

interpretation probing: inv_system "\<lambda>x y. \<exists>e. y = probe_event_step dumps name e x" "probe_inv name" for dumps name
  by unfold_locales (auto simp: probe_inv_step)

text \<open>
  A model is probed at most once: over any number of translation calls and restarts of the
  translator, with a storage that works, the structured output of a model is probed at most
  once, and every function kept in memory runs the method the storage holds, one of the two
  the code knows.
\<close>

theorem model_probed_once:
  assumes "get_cached_method name s = None" and "fold (probe_event_step dumps name) evs (None, s, 0) = (st, s', probes)"
  shows "probes \<le> 1 \<and> (\<forall>m. st = Some m \<longrightarrow> get_cached_method name s' = Some m \<and> m \<in> set structured_methods)"
proof -
  have "probe_inv name (None, s, 0)" using assms(1) by (simp add: probe_inv_def)
  then have "probe_inv name (st, s', probes)" using probing.reach_keeps [OF probe_events_reach] assms(2) by metis
  then show ?thesis using cached_method_known by (auto simp: probe_inv_def)
qed

section \<open>A failed call\<close>

text \<open>Every structured call of the model fails: an outage, a timeout, a wrong key.\<close>

definition model_down :: "llm \<Rightarrow> bool" where
  "model_down model \<longleftrightarrow> (\<forall>m p ms. lm_structured model m p ms = CallFailed)"

lemma down_answers_nothing: "model_down model \<Longrightarrow> run_translate dumps model m messages target skip only = []"
  by (simp add: model_down_def run_translate_def with_fallback_method_def structured_translate_def Let_def split: option.split)

lemma down_fn:
  assumes "model_down model" and "make_translate_fn dumps model m = Some fn"
  shows "fn messages target skip only = Some (\<lambda>_. None)"
  using assms by (auto simp: make_translate_fn_def down_answers_nothing split: if_splits)

lemma asked_pending:
  assumes "translate_history env loads L fn fate ms s = (seen, Some p, s')" and "get_user_lang env s = Some target"
  obtains sk on res pend s1 v where "prepare_all L fate target ms s = (res, pend, s1)"
    and "\<not> nat (get_max_messages env s1) < length pend \<Longrightarrow>
      p = payload_of pend \<and> translate_pending fn fate pend target sk on s1 = (v, s') \<and> seen = map (fill_in v) res"
proof -
  obtain sk on where so: "resolve_skip_only loads env (Some target) s = (sk, on)" by (metis prod.exhaust)
  obtain res pend s1 where prep: "prepare_all L fate target ms s = (res, pend, s1)" by (metis prod_cases3)
  obtain v s2 where tp: "translate_pending fn fate pend target sk on s1 = (v, s2)" by (metis prod.exhaust)
  show thesis
  proof (rule that [OF prep])
    assume "\<not> nat (get_max_messages env s1) < length pend"
    then show "p = payload_of pend \<and> translate_pending fn fate pend target sk on s1 = (v, s') \<and> seen = map (fill_in v) res"
      using assms so prep tp by (auto simp: translate_history_def Let_def split: if_splits)
  qed
qed


text \<open>One incoming message, a target language, a model that is down.\<close>

definition down_llm :: llm where
  "down_llm = \<lparr>lm_invoke = (\<lambda>_ _. None), lm_offers = (\<lambda>_. True), lm_structured = (\<lambda>_ _ _. CallFailed)\<rparr>"

lemma down_down: "model_down down_llm" "can_make down_llm m" "probe_structured_method dumps down_llm = ''json_mode''"
  by (simp_all add: model_down_def down_llm_def can_make_def probe_structured_method_def structured_translate_def)

lemma model_probed_once_witness:
  "case fold (probe_event_step (\<lambda>_. []) ''m'') [UseTranslator down_llm [] ''en'' [] [], NewTranslator, UseTranslator down_llm [] ''en'' [] []]
      (None, empty_lang_store, 0) of (st, s', probes) \<Rightarrow> probes \<le> 1 \<and> st = Some ''json_mode''"
proof -
  have g: "get_cached_method ''m'' empty_lang_store = None" by (simp add: get_cached_method_def empty_lang_store_def kv_get_def od_simps)
  let ?e = "[UseTranslator down_llm [] ''en'' [] [], NewTranslator, UseTranslator down_llm [] ''en'' [] []]"
  let ?s = "snd (set_cached_method ''m'' ''json_mode'' empty_lang_store)"
  have k: "get_cached_method ''m'' ?s = Some ''json_mode''"
    using get_set_method [OF probed_method, of "''m''" "\<lambda>_. []" down_llm empty_lang_store] by (simp add: down_down)
  have r: "fold (probe_event_step (\<lambda>_. []) ''m'') ?e (None, empty_lang_store, 0) = (Some ''json_mode'', ?s, 1)"
    by (simp add: self_probing_translate_def resolve_translate_method_def g k down_down Let_def)
  show ?thesis unfolding r using model_probed_once [OF g r] by simp
qed


end
