(* ===== verification/Cli_Commands.thy ===== *)
theory Cli_Commands
  imports Client_Contract Config_Files Web_Render Suggest
begin

text \<open>
  The commands of the command line that talk to Telegram: \<open>_run\<close> and \<open>_with_client\<close> of
  \<open>src/tg_messenger/cli/main.py\<close>, and \<open>cli/commands/message.py\<close>, \<open>username.py\<close> and the suggest
  command of \<open>agent.py\<close>. A command is a coroutine of theory Client with the lines it prints;
  what it prints on the error channel is left out. Arguments click has already converted are
  numbers; what a local file check, a confirmation and the message store answer are arguments.
\<close>

section \<open>Running a command\<close>

datatype click_message =
    NotADialog string | BadIds | ForMeUnsupported | MediaExclusive | NothingToSend | FileMissing string
  | LogInFirst string | Aborted | NameTaken string | DmOnly
  | Says utext | FloodNotice string int | Unexpected client_error

datatype cli_error = Click click_message | Failed client_error

type_synonym ('w, 'a) cli = "'w cstate \<times> utext list \<Rightarrow> (cli_error, 'a) result \<times> 'w cstate \<times> utext list"

definition call :: "('w, 'a) coro \<Rightarrow> ('w, 'a) cli" where
  "call m x = (case x of (s, out) \<Rightarrow>
     (case m s of (Inl e, s') \<Rightarrow> (Inl (Failed e), s', out) | (Inr y, s') \<Rightarrow> (Inr y, s', out)))"

definition give :: "'a \<Rightarrow> ('w, 'a) cli" where
  "give y x = (Inr y, x)"

definition stop :: "click_message \<Rightarrow> ('w, 'a) cli" where
  "stop msg x = (Inl (Click msg), x)"

definition echo :: "utext \<Rightarrow> ('w, unit) cli" where
  "echo line x = (case x of (s, out) \<Rightarrow> (Inr (), s, out @ [line]))"

definition bind :: "('w, 'a) cli \<Rightarrow> ('a \<Rightarrow> ('w, 'b) cli) \<Rightarrow> ('w, 'b) cli" where
  "bind m f x = (case m x of (Inl e, x') \<Rightarrow> (Inl e, x') | (Inr y, x') \<Rightarrow> f y x')"

text \<open>\<open>finally\<close>: an exception of the clean-up replaces the outcome.\<close>

definition finally_do :: "('w, 'a) cli \<Rightarrow> ('w, unit) cli \<Rightarrow> ('w, 'a) cli" where
  "finally_do m c x = (case m x of (r, x1) \<Rightarrow> (case c x1 of (Inl e, x2) \<Rightarrow> (Inl e, x2) | (Inr _, x2) \<Rightarrow> (r, x2)))"

text \<open>\<open>_run\<close>: each exception becomes a message for the user; a cancellation is not an Exception.
  \<open>unauthorized\<close> tells the exceptions of Telethon's class UnauthorizedError.\<close>

definition run_error :: "(client_error \<Rightarrow> bool) \<Rightarrow> string \<Rightarrow> cli_error \<Rightarrow> cli_error" where
  "run_error unauthorized session e =
     (case e of
        Click msg \<Rightarrow> Click msg
      | Failed (MissingCredentials t) \<Rightarrow> Click (Says t)
      | Failed (HandledFloodWait op n) \<Rightarrow> Click (FloodNotice op n)
      | Failed (DeleteValidation t) \<Rightarrow> Click (Says t)
      | Failed (SendForbidden t) \<Rightarrow> Click (Says t)
      | Failed Cancelled \<Rightarrow> Failed Cancelled
      | Failed ce \<Rightarrow> Click (if unauthorized ce then LogInFirst session else Unexpected ce))"

definition run :: "(client_error \<Rightarrow> bool) \<Rightarrow> string \<Rightarrow> ('w, 'a) cli \<Rightarrow> ('w, 'a) cli" where
  "run unauthorized session m x = (case m x of (Inl e, x') \<Rightarrow> (Inl (run_error unauthorized session e), x') | r \<Rightarrow> r)"

definition ensure_authorized :: "'w telethon \<Rightarrow> string \<Rightarrow> ('w, unit) cli" where
  "ensure_authorized t session =
     bind (call (is_authorized t)) (\<lambda>r. if as_bool r then give () else stop (LogInFirst session))"

definition with_client :: "'w telethon \<Rightarrow> string \<Rightarrow> ('w, 'a) cli \<Rightarrow> ('w, 'a) cli" where
  "with_client t session fn =
     bind (call (connect t)) (\<lambda>_.
       finally_do (bind (ensure_authorized t session) (\<lambda>_. fn)) (call (disconnect t)))"

record 'w cli_env =
  ce_tl :: "'w telethon"
  ce_unauthorized :: "client_error \<Rightarrow> bool"
  ce_option :: string
  ce_session :: string

text \<open>The profile in use, and the value of the option --session: the login hint of an
  authorization that fails in the middle names the latter.\<close>

definition run_with_client :: "'w cli_env \<Rightarrow> ('w, 'a) cli \<Rightarrow> ('w, 'a) cli" where
  "run_with_client env fn = run (ce_unauthorized env) (ce_option env) (with_client (ce_tl env) (ce_session env) fn)"

section \<open>The commands\<close>

definition at_name :: "string \<Rightarrow> bool" where
  "at_name v \<longleftrightarrow> take 1 v = ''@''"

definition numeric_dialog_id :: "string \<Rightarrow> int option" where
  "numeric_dialog_id v = parse_int v"

definition dialog_arg :: "'w telethon \<Rightarrow> string \<Rightarrow> ('w, int) cli" where
  "dialog_arg t v =
     (if at_name v then bind (call (resolve_username t v)) (\<lambda>d. give (dg_id d))
      else (case numeric_dialog_id v of None \<Rightarrow> stop (NotADialog v) | Some i \<Rightarrow> give i))"

fun echo_all :: "utext list \<Rightarrow> ('w, unit) cli" where
  "echo_all [] = give ()"
| "echo_all (l # ls) = bind (echo l) (\<lambda>_. echo_all ls)"

definition dialog_line :: "bool \<Rightarrow> dialog \<Rightarrow> utext" where
  "dialog_line groups d =
     u (str_int (dg_id d)) @ [9] @ u (dg_title d)
     @ (if truthy (dg_username d) then u '' @'' @ u (the (dg_username d)) else [])
     @ (if groups then u '' ['' @ u (kind_text (dg_kind d)) @ u '']'' else [])
     @ (if dg_unread d \<noteq> 0 then u '' ('' @ u (str_int (dg_unread d)) @ u '' unread)'' else [])"

definition dialogs_command :: "'w cli_env \<Rightarrow> nat \<Rightarrow> bool \<Rightarrow> string option \<Rightarrow> int option \<Rightarrow> ('w, unit) cli" where
  "dialogs_command env tsk groups find_name limit =
     (let t = ce_tl env;
          fast_resolve = (case find_name of None \<Rightarrow> False | Some f \<Rightarrow> at_name f \<and> \<not> groups)
      in bind (run_with_client env
           (if fast_resolve then bind (call (resolve_username t (the find_name))) (\<lambda>d. give [d])
            else if groups then call (group_dialogs t tsk limit)
            else call (dialogs t tsk True limit)))
         (\<lambda>items. echo_all (map (dialog_line groups)
            (if find_name \<noteq> None \<and> \<not> fast_resolve then filter_dialogs items (the find_name) else items))))"

definition search_command :: "'w cli_env \<Rightarrow> nat \<Rightarrow> string \<Rightarrow> utext \<Rightarrow> int \<Rightarrow> ('w, unit) cli" where
  "search_command env tsk dialog_id q limit =
     bind (run_with_client env
       (bind (dialog_arg (ce_tl env) dialog_id) (\<lambda>peer. call (search_messages (ce_tl env) tsk peer q limit))))
     (\<lambda>messages. if messages = [] then echo (u ''No matching messages.'') else echo_all (map message_line messages))"

text \<open>\<open>hist\<close> is the message store's history over this client, \<open>translated\<close> what the optional
  translator makes of it; a directory is given where media are downloaded.\<close>

definition shown_lines :: "message \<Rightarrow> utext list" where
  "shown_lines m =
     message_line m # (case ms_translated_text m of
        None \<Rightarrow> [] | Some t \<Rightarrow> if t = [] then [] else [[32, 32, 8627, 32] @ t])"

text \<open>\<open>os.path.join\<close> of a directory and a relative name.\<close>

definition path_join :: "string \<Rightarrow> string \<Rightarrow> string" where
  "path_join dir name = (if dir = [] \<or> last dir = CHR ''/'' then dir @ name else dir @ ''/'' @ name)"

fun print_history :: "'w telethon \<Rightarrow> nat \<Rightarrow> (message \<Rightarrow> bool) \<Rightarrow> string option \<Rightarrow> int \<Rightarrow> message list \<Rightarrow> ('w, unit) cli" where
  "print_history t tsk downloadable dir peer [] = give ()"
| "print_history t tsk downloadable dir peer (m # ms) =
     bind (echo_all (shown_lines m)) (\<lambda>_.
     bind (if truthy dir \<and> downloadable m
           then bind (call (download_message_media t tsk peer (ms_id m)
                  (path_join (the dir) (str_int peer @ ''_'' @ str_int (ms_id m)))))
                (\<lambda>saved. if truthy saved then echo (u ''  saved: '' @ u (the saved)) else give ())
           else give ()) (\<lambda>_.
     print_history t tsk downloadable dir peer ms))"

definition can_download :: "message \<Rightarrow> bool" where
  "can_download m = (case ms_media m of None \<Rightarrow> False | Some r \<Rightarrow> mr_downloadable r)"

definition read_command :: "'w cli_env \<Rightarrow> nat \<Rightarrow> (int \<Rightarrow> ('w, message list) coro) \<Rightarrow> (message list \<Rightarrow> message list)
    \<Rightarrow> string \<Rightarrow> string option \<Rightarrow> ('w, unit) cli" where
  "read_command env tsk hist translated dialog_id dir =
     run_with_client env
       (bind (dialog_arg (ce_tl env) dialog_id) (\<lambda>peer.
        bind (call (hist peer)) (\<lambda>messages.
          if messages = [] then echo (u ''No messages.'')
          else print_history (ce_tl env) tsk can_download dir peer (translated messages))))"

definition sent_line :: "message \<Rightarrow> utext" where
  "sent_line m = u ''sent. [id='' @ u (str_int (ms_id m)) @ u '']''"

definition send_command :: "'w cli_env \<Rightarrow> nat \<Rightarrow> string \<Rightarrow> utext option \<Rightarrow> string option \<Rightarrow> utext option \<Rightarrow> bool \<Rightarrow> bool \<Rightarrow> bool
    \<Rightarrow> int option \<Rightarrow> ('w, unit) cli" where
  "send_command env tsk dialog_id body file_path caption voice video_note as_file reply_to x =
     (let t = ce_tl env
      in if 1 < length (filter id [voice, video_note, as_file]) then stop MediaExclusive x
         else if \<not> truthy file_path \<and> \<not> truthy body then stop NothingToSend x
         else if truthy file_path \<and> \<not> tl_is_file t (the file_path) (st_world (fst x)) then stop (FileMissing (the file_path)) x
         else bind (run_with_client env
                (bind (dialog_arg t dialog_id) (\<lambda>peer.
                   if truthy file_path
                   then call (send_media t tsk peer (the file_path) (if truthy caption then caption else body) voice video_note as_file)
                   else call (send_text t tsk peer (or_default body []) reply_to None))))
              (\<lambda>m. echo (sent_line m)) x)"

definition react_command :: "'w cli_env \<Rightarrow> nat \<Rightarrow> string \<Rightarrow> int \<Rightarrow> utext \<Rightarrow> ('w, unit) cli" where
  "react_command env tsk dialog_id message_id emoticon =
     bind (run_with_client env
       (bind (dialog_arg (ce_tl env) dialog_id) (\<lambda>peer. call (send_reaction (ce_tl env) tsk peer message_id emoticon))))
     (\<lambda>_. echo (u ''reacted to [id='' @ u (str_int message_id) @ u ''].''))"

definition forward_command :: "'w cli_env \<Rightarrow> nat \<Rightarrow> string \<Rightarrow> string \<Rightarrow> string \<Rightarrow> ('w, unit) cli" where
  "forward_command env tsk from_peer ids to_peer =
     (case parse_ids ids of
        None \<Rightarrow> stop BadIds
      | Some message_ids \<Rightarrow>
          bind (run_with_client env
            (bind (dialog_arg (ce_tl env) from_peer) (\<lambda>src.
             bind (dialog_arg (ce_tl env) to_peer) (\<lambda>dst. call (forward (ce_tl env) tsk src message_ids dst)))))
          (\<lambda>ms. echo (u ''forwarded '' @ u (str_int (int (length ms))) @ u '' of '' @ u (str_int (int (length message_ids)))
             @ u '' to '' @ u to_peer @ u ''.'')))"

definition edit_command :: "'w cli_env \<Rightarrow> nat \<Rightarrow> string \<Rightarrow> int \<Rightarrow> utext \<Rightarrow> ('w, unit) cli" where
  "edit_command env tsk dialog_id message_id body =
     bind (run_with_client env
       (bind (dialog_arg (ce_tl env) dialog_id) (\<lambda>peer. call (edit_text (ce_tl env) tsk peer message_id body))))
     (\<lambda>_. echo (u ''edited. [id='' @ u (str_int message_id) @ u '']''))"

definition scope_text :: "bool \<Rightarrow> utext" where
  "scope_text for_me = (if for_me then u ''for me'' else u ''for everyone'')"

text \<open>\<open>confirmed\<close> is the answer to the confirmation, asked where --yes is missing.\<close>

definition delete_command :: "'w cli_env \<Rightarrow> nat \<Rightarrow> string \<Rightarrow> string \<Rightarrow> bool \<Rightarrow> bool \<Rightarrow> bool \<Rightarrow> ('w, unit) cli" where
  "delete_command env tsk dialog_id ids for_me yes confirmed =
     (let t = ce_tl env;
          go = (\<lambda>message_ids.
            if \<not> yes \<and> \<not> confirmed then stop Aborted
            else bind (run_with_client env
                   (bind (dialog_arg t dialog_id) (\<lambda>peer.
                      if for_me \<and> is_channel_or_megagroup_id peer then stop ForMeUnsupported
                      else call (delete_messages t tsk peer message_ids (\<not> for_me)))))
                 (\<lambda>_. echo (u ''deleted '' @ u (str_int (int (length message_ids))) @ u '' message(s) '' @ scope_text for_me
                    @ u '' in '' @ u dialog_id @ u ''.'')))
      in case parse_ids ids of
           None \<Rightarrow> stop BadIds
         | Some message_ids \<Rightarrow>
             if for_me \<and> \<not> at_name dialog_id
             then (case numeric_dialog_id dialog_id of
                     None \<Rightarrow> stop (NotADialog dialog_id)
                   | Some i \<Rightarrow> if is_channel_or_megagroup_id i then stop ForMeUnsupported else go message_ids)
             else go message_ids)"

definition mark_read_command :: "'w cli_env \<Rightarrow> nat \<Rightarrow> string \<Rightarrow> ('w, unit) cli" where
  "mark_read_command env tsk dialog_id =
     bind (run_with_client env
       (bind (dialog_arg (ce_tl env) dialog_id) (\<lambda>peer. call (mark_read (ce_tl env) tsk peer None))))
     (\<lambda>_. echo (u ''marked read.''))"

text \<open>The user name: a ValueError of either call is shown as it is.\<close>

fun value_text :: "client_error \<Rightarrow> utext option" where
  "value_text (ValueErr t) = Some t"
| "value_text (SendForbidden t) = Some t"
| "value_text (DeleteValidation t) = Some t"
| "value_text (MissingCredentials t) = Some t"
| "value_text _ = None"

definition value_errors_shown :: "('w, 'a) cli \<Rightarrow> ('w, 'a) cli" where
  "value_errors_shown m x =
     (case m x of
        (Inl (Failed e), x') \<Rightarrow> (Inl (case value_text e of Some t \<Rightarrow> Click (Says t) | None \<Rightarrow> Failed e), x')
      | r \<Rightarrow> r)"

definition username_set_command :: "'w cli_env \<Rightarrow> string \<Rightarrow> ('w, unit) cli" where
  "username_set_command env name =
     bind (run_with_client env
       (value_errors_shown
         (bind (call (check_username (ce_tl env) name)) (\<lambda>available.
            if \<not> available then stop (NameTaken name) else call (set_username (ce_tl env) name)))))
     (\<lambda>_. echo (u ''username set to @'' @ u name @ u ''.''))"

definition username_clear_command :: "'w cli_env \<Rightarrow> ('w, unit) cli" where
  "username_clear_command env =
     bind (run_with_client env (call (clear_username (ce_tl env)))) (\<lambda>_. echo (u ''username cleared.''))"

text \<open>The suggest command: \<open>draft\<close> and \<open>learned\<close> are the suggester's two operations over this
  client, the latter with the number of examples in the profile.\<close>

definition ensure_dm_dialog :: "'w telethon \<Rightarrow> nat \<Rightarrow> int \<Rightarrow> ('w, unit) cli" where
  "ensure_dm_dialog t tsk dialog_id =
     bind (call (dialogs t tsk True None)) (\<lambda>ds. if dialog_id \<in> dg_id ` set ds then give () else stop DmOnly)"

definition suggest_command :: "'w cli_env \<Rightarrow> nat \<Rightarrow> (int \<Rightarrow> ('w, utext) coro) \<Rightarrow> (int \<Rightarrow> ('w, nat) coro) \<Rightarrow> int \<Rightarrow> bool \<Rightarrow> bool \<Rightarrow> ('w, unit) cli" where
  "suggest_command env tsk draft learned dialog_id do_send do_learn =
     run_with_client env
       (bind (ensure_dm_dialog (ce_tl env) tsk dialog_id) (\<lambda>_.
          if do_learn
          then bind (call (learned dialog_id)) (\<lambda>n.
                 echo (u ''learned style profile for '' @ u (str_int dialog_id) @ u '' ('' @ u (str_int (int n)) @ u '' examples).''))
          else bind (call (draft dialog_id)) (\<lambda>body.
                 if do_send then bind (call (send_text (ce_tl env) tsk dialog_id body None None)) (\<lambda>_. echo (u ''sent.''))
                 else echo body)))"

section \<open>What a command asks of Telegram\<close>

text \<open>From one state to a later one, every request made was permitted.\<close>

definition asks :: "(tl_request \<Rightarrow> bool) \<Rightarrow> 'w cstate \<Rightarrow> 'w cstate \<Rightarrow> bool" where
  "asks perm s s' \<longleftrightarrow> (\<exists>l. st_trace s' = st_trace s @ l \<and> (\<forall>q r. Rpc q r \<in> set l \<longrightarrow> is_read q \<or> perm q))"

lemma asks_same: "st_trace s' = st_trace s \<Longrightarrow> asks perm s s'"
  by (simp add: asks_def)

lemma asks_trans: "asks perm s1 s2 \<Longrightarrow> asks perm s2 s3 \<Longrightarrow> asks perm s1 s3"
  unfolding asks_def by (elim exE conjE, rule_tac x = "l @ la" in exI) auto

lemma asks_resume: "(\<And>q r. ef = Rpc q r \<Longrightarrow> is_read q \<or> perm q) \<Longrightarrow> asks perm s (resume t ef w s)"
  unfolding asks_def resume_def by (rule exI [of _ "ef # map Arrived (tl_arrives t w)"]) auto

interpretation asking: await_relation "asks perm" "\<lambda>q. is_read q \<or> perm q" for perm
proof unfold_locales
  fix s :: "'w cstate" and w as c t and q :: tl_request and r
  show "asks perm s s" by (rule asks_same) simp
  show "asks perm s (slept w as s)"
    unfolding asks_def slept_def by (rule exI [of _ "map Arrived as"]) auto
  show "asks perm s (store_cache put_dialogs c s)" by (rule asks_same) (simp add: store_cache_def)
  show "is_read q \<or> perm q \<Longrightarrow> asks perm s (resume t (Rpc q r) w s)" by (rule asks_resume) auto
  show "asks perm s (resume t (Paged q r) w s)" by (rule asks_resume) simp
qed (auto intro: asks_trans)

named_theorems keeps_asking "coroutines that make only permitted requests"

lemmas [keeps_asking] = asking.keeps_pure asking.keeps_warm asking.keeps_dialogs asking.keeps_collect asking.keeps_retry

lemma asking_trace: "(\<And>s. st_trace (snd (m s)) = st_trace s) \<Longrightarrow> asking.keeps perm m"
  by (simp add: asking.keeps_def asks_same)

lemma asking_on_client [keeps_asking]: "asking.keeps perm (on_client f)"
  by (rule asking_trace) (simp add: on_client_def)

lemma asking_finish [keeps_asking]: "asking.keeps perm (finish_write ps f r)"
  by (rule asking_trace) (rule trace_finish)

lemma asks_wait: "asks perm s (resume t Bucket w s)" "asks perm s (resume t (Gate c) w s)"
  by (rule asks_resume, simp)+

lemma asking_bucket [keeps_asking]: "asking.keeps perm (bucket_acquire t)"
  by (simp add: asking.keeps_def bucket_acquire_def asks_wait)

lemma asking_gate [keeps_asking]: "asking.keeps perm (gate_acquire t gop)"
  by (simp add: asking.keeps_def gate_acquire_def asks_wait asks_same Let_def)

lemma asking_same_snd: "asking.keeps perm m \<Longrightarrow> (\<And>s. snd (m' s) = snd (m s)) \<Longrightarrow> asking.keeps perm m'"
  by (simp add: asking.keeps_def)

lemma asking_forbid [keeps_asking]: "asking.keeps perm m \<Longrightarrow> asking.keeps perm (forbid m)"
  by (simp add: asking.keeps_def snd_forbid)

lemma asking_retried: "retry_ok t \<Longrightarrow> perm q \<Longrightarrow> asking.keeps perm (retried t op q)"
  by (simp add: asking.keeps_retried)

lemma asking_gated: "retry_ok t \<Longrightarrow> perm q \<Longrightarrow> asking.keeps perm (run_gated t op gop q)"
  unfolding run_gated_def by (intro asking.keeps_retry asking.keeps_seq asking_gate asking.keeps_rpc) simp_all

lemma asking_rpc: "perm q \<Longrightarrow> asking.keeps perm (rpc t q)"
  by (simp add: asking.keeps_rpc)

text \<open>The operations of the client.\<close>

lemma asking_send_text: "retry_ok t \<Longrightarrow> perm (SendMessage peer body reply_to sched) \<Longrightarrow> asking.keeps perm (send_text t tsk peer body reply_to sched)"
  unfolding send_text_def by (intro asking.keeps_seq keeps_asking asking_gated)

lemma asking_send_media:
  "retry_ok t \<Longrightarrow> perm (SendFile peer path caption voice video doc) \<Longrightarrow> asking.keeps perm (send_media t tsk peer path caption voice video doc)"
proof -
  assume t: "retry_ok t" "perm (SendFile peer path caption voice video doc)"
  then have "asking.keeps perm (seq (bucket_acquire t) (\<lambda>_. seq (warm_entity t tsk peer) (\<lambda>_.
      seq (forbid (run_gated t ''send_media'' ''telegram_publish_files'' (SendFile peer path caption voice video doc)))
        (finish_write [peer] (sent_message peer)))))"
    by (intro asking.keeps_seq keeps_asking asking_gated)
  then show ?thesis by (simp add: asking.keeps_def send_media_def raise_def asks_same)
qed

lemma asking_forward: "retry_ok t \<Longrightarrow> perm (ForwardMessages dst ids src) \<Longrightarrow> asking.keeps perm (forward t tsk src ids dst)"
  unfolding forward_def by (intro asking.keeps_seq keeps_asking asking_gated)

lemma asking_edit: "retry_ok t \<Longrightarrow> perm (EditMessage peer mid body) \<Longrightarrow> asking.keeps perm (edit_text t tsk peer mid body)"
  unfolding edit_text_def by (intro asking.keeps_seq keeps_asking asking_gated)

lemma asking_reaction:
  "retry_ok t \<Longrightarrow> perm (SendReaction peer mid (filter (\<lambda>c. c \<noteq> 65039) e)) \<Longrightarrow> asking.keeps perm (send_reaction t tsk peer mid e)"
  unfolding send_reaction_def by (intro asking.keeps_seq keeps_asking asking_retried)

lemma asking_delete: "retry_ok t \<Longrightarrow> perm (DeleteMessages peer ids revoke) \<Longrightarrow> asking.keeps perm (delete_messages t tsk peer ids revoke)"
  unfolding delete_messages_def validate_delete_messages_def Let_def
  by (auto intro!: asking.keeps_seq keeps_asking asking_retried)

lemma asking_mark_read: "retry_ok t \<Longrightarrow> perm (ReadAcknowledge peer mid) \<Longrightarrow> asking.keeps perm (mark_read t tsk peer mid)"
  unfolding mark_read_def by (intro asking.keeps_seq keeps_asking asking_retried)

lemma asking_search: "retry_ok t \<Longrightarrow> asking.keeps perm (search_messages t tsk peer q limit)"
  unfolding search_messages_def by (intro asking.keeps_seq keeps_asking)

lemma asking_resolve: "retry_ok t \<Longrightarrow> perm (GetEntityByName v) \<Longrightarrow> asking.keeps perm (resolve_username t v)"
  unfolding resolve_username_def by (intro asking.keeps_seq keeps_asking asking_retried)

section \<open>What a command does\<close>

text \<open>The same with a permission that may point to what the stretch has asked before. A bigger
  stretch permits more.\<close>

type_synonym permission_of = "effect list \<Rightarrow> tl_request \<Rightarrow> bool"

definition growing :: "permission_of \<Rightarrow> bool" where
  "growing P \<longleftrightarrow> (\<forall>l l' q. set l \<subseteq> set l' \<and> P l q \<longrightarrow> P l' q)"

definition acts :: "permission_of \<Rightarrow> ('w, 'a) cli \<Rightarrow> bool" where
  "acts P m \<longleftrightarrow> (\<forall>s out. \<exists>l. st_trace (fst (snd (m (s, out)))) = st_trace s @ l
     \<and> (\<forall>q r. Rpc q r \<in> set l \<longrightarrow> is_read q \<or> P l q))"

lemma growingD: "growing P \<Longrightarrow> P l q \<Longrightarrow> set l \<subseteq> set l' \<Longrightarrow> P l' q"
  by (auto simp: growing_def)

lemma acts_call: "asking.keeps perm m \<Longrightarrow> (\<And>l q. perm q \<Longrightarrow> P l q) \<Longrightarrow> acts P (call m)"
proof -
  assume m: "asking.keeps perm m" and P: "\<And>l q. perm q \<Longrightarrow> P l q"
  have "st_trace (fst (snd (call m (s, out)))) = st_trace (snd (m s))" for s out
    by (simp add: call_def split: prod.split sum.split)
  then show ?thesis using m P unfolding acts_def asking.keeps_def asks_def by metis
qed

lemma acts_pure: "acts P (give y)" "acts P (stop msg)" "acts P (echo line)"
  by (simp_all add: acts_def give_def stop_def echo_def)

text \<open>The second part may use what the first one found out.\<close>

lemma acts_bind_known:
  assumes m: "\<And>s out. \<exists>l. st_trace (fst (snd (m (s, out)))) = st_trace s @ l \<and> (\<forall>q r. Rpc q r \<in> set l \<longrightarrow> is_read q \<or> P l q)
      \<and> (\<forall>y x'. m (s, out) = (Inr y, x') \<longrightarrow> K y l)"
    and f: "\<And>y. acts (Q y) (f y)" and Q: "\<And>y l1 l2 q. K y l1 \<Longrightarrow> Q y l2 q \<Longrightarrow> P (l1 @ l2) q" and P: "growing P"
  shows "acts P (bind m f)"
  unfolding acts_def
proof (intro allI)
  fix s :: "'a cstate" and out
  obtain l where l: "st_trace (fst (snd (m (s, out)))) = st_trace s @ l" "\<forall>q r. Rpc q r \<in> set l \<longrightarrow> is_read q \<or> P l q"
    "\<forall>y x'. m (s, out) = (Inr y, x') \<longrightarrow> K y l" using m by blast
  show "\<exists>l. st_trace (fst (snd (bind m f (s, out)))) = st_trace s @ l \<and> (\<forall>q r. Rpc q r \<in> set l \<longrightarrow> is_read q \<or> P l q)"
  proof (cases "fst (m (s, out))")
    case (Inl e)
    then show ?thesis using l by (auto simp: bind_def split: prod.split sum.split)
  next
    case (Inr y)
    obtain s1 out1 where r: "m (s, out) = (Inr y, s1, out1)" using Inr by (cases "m (s, out)") auto
    obtain l2 where l2: "st_trace (fst (snd (f y (s1, out1)))) = st_trace s1 @ l2" "\<forall>q r. Rpc q r \<in> set l2 \<longrightarrow> is_read q \<or> Q y l2 q"
      using f [of y] unfolding acts_def by blast
    have "\<forall>q r. Rpc q r \<in> set (l @ l2) \<longrightarrow> is_read q \<or> P (l @ l2) q"
      using l(2,3) l2(2) r Q growingD [OF P, of l _ "l @ l2"] by (auto; blast)
    moreover have "st_trace (fst (snd (bind m f (s, out)))) = st_trace s @ l @ l2"
      using l(1) l2(1) by (simp add: bind_def r)
    ultimately show ?thesis by blast
  qed
qed

lemma acts_bind: "growing P \<Longrightarrow> acts P m \<Longrightarrow> (\<And>y. acts P (f y)) \<Longrightarrow> acts P (bind m f)"
  by (rule acts_bind_known [where K = "\<lambda>_ _. True" and Q = "\<lambda>_. P"])
    (auto simp: acts_def intro: growingD)

lemma acts_same_trace:
  assumes "acts P m" and "\<And>x. fst (snd (m' x)) = fst (snd (m x))"
  shows "acts P m'"
  using assms by (simp add: acts_def)

lemma acts_run: "acts P m \<Longrightarrow> acts P (run f session m)"
  by (erule acts_same_trace) (auto simp: run_def split: prod.split sum.split)

lemma acts_values: "acts P m \<Longrightarrow> acts P (value_errors_shown m)"
  by (erule acts_same_trace) (auto simp: value_errors_shown_def split: prod.split sum.split cli_error.split)

lemma acts_finally: "growing P \<Longrightarrow> acts P m \<Longrightarrow> acts P c \<Longrightarrow> acts P (finally_do m c)"
proof -
  assume P: "growing P" and "acts P m" "acts P c"
  then have "acts P (bind (\<lambda>x. (Inr (fst (m x)), snd (m x))) (\<lambda>r. bind c (\<lambda>_ x. (r, x))))"
    by (intro acts_bind P) (simp_all add: acts_def)
  then show ?thesis
    by (rule acts_same_trace) (auto simp: bind_def finally_do_def split: prod.split sum.split)
qed

lemma acts_echo_all: "growing P \<Longrightarrow> acts P (echo_all ls)"
  by (induction ls) (simp_all add: acts_pure acts_bind)

text \<open>Opening, checking and closing the connection.\<close>

definition lifecycle :: "tl_request \<Rightarrow> bool" where
  "lifecycle q \<longleftrightarrow> q \<in> {Connect, IsAuthorized, Disconnect}"

lemma acts_with_client:
  assumes t: "retry_ok t" and P: "growing P" and L: "\<And>l q. lifecycle q \<Longrightarrow> P l q" and fn: "acts P fn"
  shows "acts P (with_client t session fn)"
proof -
  have "asking.keeps lifecycle (connect t)" "asking.keeps lifecycle (is_authorized t)" "asking.keeps lifecycle (disconnect t)"
    unfolding connect_def is_authorized_def disconnect_def
    by (auto intro!: asking.keeps_seq keeps_asking asking_retried asking_rpc t simp: lifecycle_def)
  then show ?thesis
    unfolding with_client_def ensure_authorized_def
    by (intro acts_bind acts_finally acts_call [where P = P, OF _ L] P fn) (auto intro: acts_pure)
qed

text \<open>Which dialog an argument means, given what Telegram answered.\<close>

definition addressed :: "string \<Rightarrow> int \<Rightarrow> effect list \<Rightarrow> bool" where
  "addressed v peer l \<longleftrightarrow>
     (if at_name v then \<exists>e. Rpc (GetEntityByName v) (Inr (REntity e)) \<in> set l \<and> en_marked_id e = peer
      else numeric_dialog_id v = Some peer)"

lemma addressed_grows: "addressed v peer l \<Longrightarrow> set l \<subseteq> set l' \<Longrightarrow> addressed v peer l'"
  by (auto simp: addressed_def split: if_splits)

lemma addressed_append: "addressed v peer l1 \<Longrightarrow> addressed v peer (l1 @ l2)" "addressed v peer l2 \<Longrightarrow> addressed v peer (l1 @ l2)"
  by (auto intro: addressed_grows)

lemma resolve_trace:
  assumes t: "retry_ok t" and "resolve_username t v s = (Inr d, s')"
  shows "\<exists>l e. st_trace s' = st_trace s @ l \<and> Rpc (GetEntityByName v) (Inr (REntity e)) \<in> set l \<and> en_marked_id e = dg_id d
    \<and> (\<forall>q r. Rpc q r \<in> set l \<longrightarrow> is_read q \<or> q = GetEntityByName v)"
proof -
  obtain r e where r: "retried t ''resolve_username'' (GetEntityByName v) s = (Inr r, s')" and e: "as_entity r = Inr e"
    and d: "dg_id d = en_marked_id e"
    using assms(2) by (auto simp: resolve_username_def seq_def lift_def ret_def split: prod.splits sum.splits)
  have "asking.keeps (\<lambda>q. q = GetEntityByName v) (rpc t (GetEntityByName v))" by (rule asking_rpc) simp
  from asking.retry_last [OF t this r [unfolded retried_def]] obtain s1
    where s1: "asks (\<lambda>q. q = GetEntityByName v) s s1" and x: "rpc t (GetEntityByName v) s1 = (Inr r, s')" .
  obtain l where l: "st_trace s1 = st_trace s @ l" "\<forall>q r. Rpc q r \<in> set l \<longrightarrow> is_read q \<or> q = GetEntityByName v"
    using s1 by (auto simp: asks_def)
  obtain as where "st_trace s' = st_trace s1 @ Rpc (GetEntityByName v) (Inr r) # map Arrived as"
    using x by (auto simp: rpc_def trace_resume split: prod.splits)
  moreover have "r = REntity e" using e by (cases r) simp_all
  ultimately show ?thesis using l d
    by (intro exI [of _ "l @ Rpc (GetEntityByName v) (Inr r) # map Arrived as"] exI [of _ e]) auto
qed

text \<open>A command on one dialog: what follows may name the dialog that was meant.\<close>

lemma acts_dialog_arg:
  assumes t: "retry_ok t" and P: "growing P" and G: "\<And>l. at_name v \<Longrightarrow> P l (GetEntityByName v)"
    and f: "\<And>peer. acts (Q peer) (f peer)"
    and Q: "\<And>peer l1 l2 q. addressed v peer l1 \<Longrightarrow> Q peer l2 q \<Longrightarrow> P (l1 @ l2) q"
  shows "acts P (bind (dialog_arg t v) f)"
proof (rule acts_bind_known [where K = "\<lambda>peer. addressed v peer", OF _ f Q P])
  fix s :: "'a cstate" and out
  show "\<exists>l. st_trace (fst (snd (dialog_arg t v (s, out)))) = st_trace s @ l \<and> (\<forall>q r. Rpc q r \<in> set l \<longrightarrow> is_read q \<or> P l q)
      \<and> (\<forall>y x'. dialog_arg t v (s, out) = (Inr y, x') \<longrightarrow> addressed v y l)"
  proof (cases "at_name v")
    case False
    then show ?thesis
      by (intro exI [of _ "[]"]) (auto simp: dialog_arg_def stop_def give_def addressed_def split: option.splits)
  next
    case True
    obtain r s1 where r: "resolve_username t v s = (r, s1)" by (cases "resolve_username t v s")
    show ?thesis
    proof (cases r)
      case (Inl e)
      have "asking.keeps (\<lambda>q. q = GetEntityByName v) (resolve_username t v)" by (rule asking_resolve [OF t]) simp
      then have "asks (\<lambda>q. q = GetEntityByName v) s s1" using asking.keepsD r by blast
      then show ?thesis using True r Inl G
        by (auto simp: dialog_arg_def bind_def call_def asks_def)
    next
      case (Inr d)
      obtain l e where l: "st_trace s1 = st_trace s @ l" "Rpc (GetEntityByName v) (Inr (REntity e)) \<in> set l" "en_marked_id e = dg_id d"
        "\<forall>q r. Rpc q r \<in> set l \<longrightarrow> is_read q \<or> q = GetEntityByName v"
        using resolve_trace [OF t] r Inr by blast
      show ?thesis using True r Inr G l
        by (intro exI [of _ l]) (auto simp: dialog_arg_def bind_def call_def give_def addressed_def)
    qed
  qed
qed

section \<open>Every command\<close>

datatype cli_command =
    DialogsCmd bool "string option" "int option"
  | SearchCmd string utext int
  | SendCmd string "utext option" "string option" "utext option" bool bool bool "int option"
  | ReactCmd string int utext
  | ForwardCmd string string string
  | EditCmd string int utext
  | DeleteCmd string string bool bool bool
  | MarkReadCmd string
  | UsernameSetCmd string
  | UsernameClearCmd

fun run_command :: "'w cli_env \<Rightarrow> nat \<Rightarrow> cli_command \<Rightarrow> ('w, unit) cli" where
  "run_command env tsk (DialogsCmd groups find_name limit) = dialogs_command env tsk groups find_name limit"
| "run_command env tsk (SearchCmd v q limit) = search_command env tsk v q limit"
| "run_command env tsk (SendCmd v body path caption voice video doc reply_to) =
     send_command env tsk v body path caption voice video doc reply_to"
| "run_command env tsk (ReactCmd v i e) = react_command env tsk v i e"
| "run_command env tsk (ForwardCmd v ids w) = forward_command env tsk v ids w"
| "run_command env tsk (EditCmd v i body) = edit_command env tsk v i body"
| "run_command env tsk (DeleteCmd v ids for_me yes confirmed) = delete_command env tsk v ids for_me yes confirmed"
| "run_command env tsk (MarkReadCmd v) = mark_read_command env tsk v"
| "run_command env tsk (UsernameSetCmd name) = username_set_command env name"
| "run_command env tsk UsernameClearCmd = username_clear_command env"

text \<open>The requests the words of a command stand for.\<close>

definition named :: "string \<Rightarrow> tl_request \<Rightarrow> bool" where
  "named v q \<longleftrightarrow> at_name v \<and> q = GetEntityByName v"

fun asked :: "cli_command \<Rightarrow> permission_of" where
  "asked (DialogsCmd groups find_name limit) l q \<longleftrightarrow> \<not> groups \<and> (\<exists>f. find_name = Some f \<and> named f q)"
| "asked (SearchCmd v query limit) l q \<longleftrightarrow> named v q"
| "asked (SendCmd v body path caption voice video doc reply_to) l q \<longleftrightarrow> named v q \<or>
     (\<exists>peer. addressed v peer l \<and>
        (if truthy path then q = SendFile peer (the path) (if truthy caption then caption else body) voice video doc
         else truthy body \<and> q = SendMessage peer (the body) reply_to None))"
| "asked (ReactCmd v i e) l q \<longleftrightarrow> named v q \<or> (\<exists>peer. addressed v peer l \<and> q = SendReaction peer i (filter (\<lambda>c. c \<noteq> 65039) e))"
| "asked (ForwardCmd v ids w) l q \<longleftrightarrow> named v q \<or> named w q \<or>
     (\<exists>src dst is. addressed v src l \<and> addressed w dst l \<and> parse_ids ids = Some is \<and> q = ForwardMessages dst is src)"
| "asked (EditCmd v i body) l q \<longleftrightarrow> named v q \<or> (\<exists>peer. addressed v peer l \<and> q = EditMessage peer i body)"
| "asked (DeleteCmd v ids for_me yes confirmed) l q \<longleftrightarrow> (yes \<or> confirmed) \<and> (named v q \<or>
     (\<exists>peer is. addressed v peer l \<and> parse_ids ids = Some is \<and> \<not> (for_me \<and> is_channel_or_megagroup_id peer)
        \<and> q = DeleteMessages peer is (\<not> for_me)))"
| "asked (MarkReadCmd v) l q \<longleftrightarrow> named v q \<or> (\<exists>peer. addressed v peer l \<and> q = ReadAcknowledge peer None)"
| "asked (UsernameSetCmd name) l q \<longleftrightarrow> q = CheckUsername name \<or> q = UpdateUsername name"
| "asked UsernameClearCmd l q \<longleftrightarrow> q = UpdateUsername []"

definition permits :: "cli_command \<Rightarrow> permission_of" where
  "permits cmd l q \<longleftrightarrow> lifecycle q \<or> asked cmd l q"

lemma growing_permits: "growing (permits cmd)"
  unfolding growing_def permits_def
  by (cases cmd) (auto split: if_splits; blast intro: addressed_grows)+

lemma permits_lifecycle: "lifecycle q \<Longrightarrow> permits cmd l q"
  by (simp add: permits_def)

lemma acts_client:
  "retry_ok (ce_tl env) \<Longrightarrow> acts (permits cmd) fn \<Longrightarrow> acts (permits cmd) (run_with_client env fn)"
  unfolding run_with_client_def by (intro acts_run acts_with_client growing_permits permits_lifecycle)

lemma acts_then: "retry_ok (ce_tl env) \<Longrightarrow> acts (permits cmd) fn \<Longrightarrow> (\<And>y. acts (permits cmd) (f y)) \<Longrightarrow>
  acts (permits cmd) (bind (run_with_client env fn) f)"
  by (intro acts_bind growing_permits acts_client)

lemma growing_const: "growing (\<lambda>_. perm)"
  by (simp add: growing_def)

text \<open>An operation on the dialog an argument means.\<close>

lemma acts_on_dialog:
  assumes "retry_ok t" and "\<And>l. at_name v \<Longrightarrow> asked cmd l (GetEntityByName v)"
    and "\<And>peer. asking.keeps (perm peer) (f peer)"
    and "\<And>peer l q. addressed v peer l \<Longrightarrow> perm peer q \<Longrightarrow> asked cmd l q"
  shows "acts (permits cmd) (bind (dialog_arg t v) (\<lambda>peer. call (f peer)))"
proof (rule acts_dialog_arg [OF assms(1) growing_permits, where Q = "\<lambda>peer _. perm peer"])
  show "permits cmd l (GetEntityByName v)" if "at_name v" for l using assms(2) that by (simp add: permits_def)
  show "acts (\<lambda>_. perm peer) (call (f peer))" for peer by (rule acts_call [OF assms(3)])
  show "permits cmd (l1 @ l2) q" if "addressed v peer l1" "perm peer q" for peer l1 l2 q
    using assms(4) [of peer "l1 @ l2" q] that addressed_grows [of v peer l1 "l1 @ l2"] by (simp add: permits_def)
qed

lemma asking_group_dialogs: "retry_ok t \<Longrightarrow> asking.keeps perm (group_dialogs t tsk limit)"
  by (simp add: group_dialogs_def dialogs_full_def asking.keeps_seq asking.keeps_pure asking.keeps_dialogs_cache asking.keeps_fetch_dialogs)

lemma acts_dialogs: "retry_ok (ce_tl env) \<Longrightarrow> acts (permits (DialogsCmd groups find_name limit)) (dialogs_command env tsk groups find_name limit)"
  unfolding dialogs_command_def Let_def
proof (intro acts_then)
  let ?P = "permits (DialogsCmd groups find_name limit)"
  assume t: "retry_ok (ce_tl env)"
  show "acts ?P (echo_all ls)" for ls by (rule acts_echo_all [OF growing_permits])
  have g: "acts ?P (call (group_dialogs (ce_tl env) tsk limit))" "acts ?P (call (dialogs (ce_tl env) tsk True limit))"
    using t by (auto intro: acts_call [where perm = "\<lambda>_. False"] asking_group_dialogs keeps_asking)
  have n: "acts ?P (bind (call (resolve_username (ce_tl env) f)) (\<lambda>d. give [d]))"
    if "find_name = Some f" "at_name f" "\<not> groups" for f
    by (intro acts_bind growing_permits acts_call [OF asking_resolve [OF t, where perm = "\<lambda>q. q = GetEntityByName f"]] acts_pure)
      (auto simp: permits_def named_def that)
  show "acts ?P (if case find_name of None \<Rightarrow> False | Some f \<Rightarrow> at_name f \<and> \<not> groups
      then bind (call (resolve_username (ce_tl env) (the find_name))) (\<lambda>d. give [d])
      else if groups then call (group_dialogs (ce_tl env) tsk limit) else call (dialogs (ce_tl env) tsk True limit))"
    using g n by (auto split: option.split)
qed

lemma acts_search: "retry_ok (ce_tl env) \<Longrightarrow> acts (permits (SearchCmd v q limit)) (search_command env tsk v q limit)"
  unfolding search_command_def
  by (intro acts_then acts_on_dialog [where perm = "\<lambda>_ _. False"] asking_search)
    (auto intro: acts_echo_all growing_permits acts_pure simp: named_def)

lemma acts_react: "retry_ok (ce_tl env) \<Longrightarrow> acts (permits (ReactCmd v i e)) (react_command env tsk v i e)"
  unfolding react_command_def
  by (intro acts_then acts_pure
      acts_on_dialog [where perm = "\<lambda>peer q. q = SendReaction peer i (filter (\<lambda>c. c \<noteq> 65039) e)"] asking_reaction)
    (auto simp: named_def)

lemma acts_edit: "retry_ok (ce_tl env) \<Longrightarrow> acts (permits (EditCmd v i body)) (edit_command env tsk v i body)"
  unfolding edit_command_def
  by (intro acts_then acts_pure acts_on_dialog [where perm = "\<lambda>peer q. q = EditMessage peer i body"] asking_edit)
    (auto simp: named_def)

lemma acts_mark_read: "retry_ok (ce_tl env) \<Longrightarrow> acts (permits (MarkReadCmd v)) (mark_read_command env tsk v)"
  unfolding mark_read_command_def
  by (intro acts_then acts_pure acts_on_dialog [where perm = "\<lambda>peer q. q = ReadAcknowledge peer None"] asking_mark_read)
    (auto simp: named_def)

lemma truthy_text: "truthy b \<Longrightarrow> or_default b d = the b"
  by (cases b) (auto simp: truthy_def or_default_def)

lemma acts_send: "retry_ok (ce_tl env) \<Longrightarrow>
  acts (permits (SendCmd v body path caption voice video doc reply_to)) (send_command env tsk v body path caption voice video doc reply_to)"
proof -
  let ?P = "permits (SendCmd v body path caption voice video doc reply_to)"
  let ?op = "\<lambda>peer. if truthy path then send_media (ce_tl env) tsk peer (the path) (if truthy caption then caption else body) voice video doc
    else send_text (ce_tl env) tsk peer (or_default body []) reply_to None"
  let ?perm = "\<lambda>peer q. if truthy path then q = SendFile peer (the path) (if truthy caption then caption else body) voice video doc
    else q = SendMessage peer (or_default body []) reply_to None"
  let ?go = "bind (run_with_client env (bind (dialog_arg (ce_tl env) v) (\<lambda>peer. call (?op peer)))) (\<lambda>m. echo (sent_line m))"
  assume t: "retry_ok (ce_tl env)"
  have go: "acts ?P ?go" if "truthy path \<or> truthy body"
  proof (intro acts_then acts_pure t acts_on_dialog [where perm = ?perm])
    show "asking.keeps (?perm peer) (?op peer)" for peer
      using t by (auto intro: asking_send_media asking_send_text)
    show "asked (SendCmd v body path caption voice video doc reply_to) l q" if "addressed v peer l" "?perm peer q" for peer l q
      using that \<open>truthy path \<or> truthy body\<close> truthy_text [of body] by (cases "truthy path") auto
  qed (simp add: named_def)
  have same: "call (if b then m1 else m2) = (if b then call m1 else call m2)" for b and m1 m2 :: "('a, message) coro" by simp
  have "\<exists>l. st_trace (fst (snd (send_command env tsk v body path caption voice video doc reply_to (s, out)))) = st_trace s @ l
    \<and> (\<forall>q r. Rpc q r \<in> set l \<longrightarrow> is_read q \<or> ?P l q)" for s out
  proof -
    consider (exclusive) "1 < length (filter id [voice, video, doc])"
      | (blank) "\<not> 1 < length (filter id [voice, video, doc])" "\<not> truthy path \<and> \<not> truthy body"
      | (missing) "\<not> 1 < length (filter id [voice, video, doc])" "\<not> (\<not> truthy path \<and> \<not> truthy body)"
          "truthy path \<and> \<not> tl_is_file (ce_tl env) (the path) (st_world (fst (s, out)))"
      | (fine) "\<not> 1 < length (filter id [voice, video, doc])" "\<not> (\<not> truthy path \<and> \<not> truthy body)"
          "\<not> (truthy path \<and> \<not> tl_is_file (ce_tl env) (the path) (st_world (fst (s, out))))" by blast
    then show ?thesis
    proof cases
      case fine
      then show ?thesis using go unfolding send_command_def Let_def if_not_P [OF fine(1)] if_not_P [OF fine(2)] if_not_P [OF fine(3)] same acts_def
        by blast
    next
      case exclusive
      then show ?thesis unfolding send_command_def Let_def if_P [OF exclusive] stop_def by simp
    next
      case blank
      then show ?thesis unfolding send_command_def Let_def if_not_P [OF blank(1)] if_P [OF blank(2)] stop_def by simp
    next
      case missing
      then show ?thesis unfolding send_command_def Let_def if_not_P [OF missing(1)] if_not_P [OF missing(2)] if_P [OF missing(3)] stop_def
        by simp
    qed
  qed
  then show ?thesis unfolding acts_def by blast
qed

lemma acts_forward: "retry_ok (ce_tl env) \<Longrightarrow> acts (permits (ForwardCmd v ids w)) (forward_command env tsk v ids w)"
proof (cases "parse_ids ids")
  case None
  then show ?thesis by (simp add: forward_command_def acts_pure)
next
  case (Some mids)
  assume t: "retry_ok (ce_tl env)"
  let ?Q = "\<lambda>src l q. named w q \<or> (\<exists>dst. addressed w dst l \<and> q = ForwardMessages dst mids src)"
  have Q: "growing (?Q src)" for src by (auto simp: growing_def dest: addressed_grows)
  have inner: "acts (?Q src) (bind (dialog_arg (ce_tl env) w) (\<lambda>dst. call (forward (ce_tl env) tsk src mids dst)))" for src
  proof (rule acts_dialog_arg [OF t Q, where Q = "\<lambda>dst _ q. q = ForwardMessages dst mids src"])
    show "acts (\<lambda>_ q. q = ForwardMessages dst mids src) (call (forward (ce_tl env) tsk src mids dst))" for dst
      by (rule acts_call [OF asking_forward [OF t, where perm = "\<lambda>q. q = ForwardMessages dst mids src"]]) simp_all
  qed (auto simp: named_def intro: addressed_append)
  have "acts (permits (ForwardCmd v ids w)) (bind (dialog_arg (ce_tl env) v) (\<lambda>src.
      bind (dialog_arg (ce_tl env) w) (\<lambda>dst. call (forward (ce_tl env) tsk src mids dst))))"
  proof (rule acts_dialog_arg [OF t growing_permits _ inner])
    show "permits (ForwardCmd v ids w) (l1 @ l2) q" if "addressed v src l1" "?Q src l2 q" for src l1 l2 q
      using that addressed_grows [of v src l1 "l1 @ l2"] addressed_grows [of w _ l2 "l1 @ l2"]
      by (auto simp: permits_def Some)
  qed (simp add: permits_def named_def)
  then show ?thesis unfolding forward_command_def Some option.case by (intro acts_then t acts_pure)
qed

lemma acts_delete: "retry_ok (ce_tl env) \<Longrightarrow> acts (permits (DeleteCmd v ids for_me yes confirmed)) (delete_command env tsk v ids for_me yes confirmed)"
proof -
  let ?P = "permits (DeleteCmd v ids for_me yes confirmed)"
  assume t: "retry_ok (ce_tl env)"
  have "acts ?P (bind (dialog_arg (ce_tl env) v) (\<lambda>peer. if for_me \<and> is_channel_or_megagroup_id peer then stop ForMeUnsupported
      else call (delete_messages (ce_tl env) tsk peer mids (\<not> for_me))))"
    if "parse_ids ids = Some mids" "yes \<or> confirmed" for mids
  proof (rule acts_dialog_arg [OF t growing_permits, where
        Q = "\<lambda>peer _ q. \<not> (for_me \<and> is_channel_or_megagroup_id peer) \<and> q = DeleteMessages peer mids (\<not> for_me)"])
    show "acts (\<lambda>_ q. \<not> (for_me \<and> is_channel_or_megagroup_id peer) \<and> q = DeleteMessages peer mids (\<not> for_me))
        (if for_me \<and> is_channel_or_megagroup_id peer then stop ForMeUnsupported else call (delete_messages (ce_tl env) tsk peer mids (\<not> for_me)))" for peer
      using acts_call [OF asking_delete [OF t, where perm = "\<lambda>q. q = DeleteMessages peer mids (\<not> for_me)"]]
      by (auto simp: acts_pure)
  qed (use that in \<open>auto simp: permits_def named_def intro: addressed_append\<close>)
  then show ?thesis
    unfolding delete_command_def Let_def using t
    by (auto intro!: acts_then acts_pure split: option.split)
qed

lemma acts_username: "retry_ok (ce_tl env) \<Longrightarrow> acts (permits (UsernameSetCmd name)) (username_set_command env name)"
  "retry_ok (ce_tl env) \<Longrightarrow> acts (permits UsernameClearCmd) (username_clear_command env)"
proof -
  assume t: "retry_ok (ce_tl env)"
  have c: "asking.keeps (\<lambda>q. q = CheckUsername name) (check_username (ce_tl env) name)"
    by (rule asking_same_snd [OF asking_retried [OF t, of "\<lambda>q. q = CheckUsername name" "CheckUsername name" "''check_username''"]])
      (auto simp: check_username_def split: prod.split sum.split client_error.split)
  have s: "asking.keeps (\<lambda>q. q = UpdateUsername name) (set_username (ce_tl env) name)"
    by (rule asking_same_snd [OF asking_retried [OF t, of "\<lambda>q. q = UpdateUsername name" "UpdateUsername name" "''set_username''"]])
      (auto simp: set_username_def split: prod.split sum.split client_error.split)
  show "acts (permits (UsernameSetCmd name)) (username_set_command env name)"
    unfolding username_set_command_def
    by (intro acts_then t acts_pure acts_values acts_bind growing_permits acts_call [OF c])
      (auto intro: acts_pure acts_call [OF s] simp: permits_def)
  have d: "asking.keeps (\<lambda>q. q = UpdateUsername []) (clear_username (ce_tl env))"
    unfolding clear_username_def by (intro asking.keeps_seq keeps_asking asking_retried t) simp
  show "acts (permits UsernameClearCmd) (username_clear_command env)"
    unfolding username_clear_command_def
    by (intro acts_then t acts_pure acts_call [OF d]) (simp add: permits_def)
qed


definition demo_env :: "demo_world cli_env" where
  "demo_env = \<lparr>ce_tl = demo_tl False, ce_unauthorized = (\<lambda>_. False), ce_option = ''default'', ce_session = ''default''\<rparr>"

definition demo_day :: demo_world where
  "demo_day = [Inr RUnit, Inr (RBool True), Inr RUnit, Inr (RMsg (demo_raw 5 7)), Inr RUnit]"


text \<open>Once connected, a command ends by disconnecting, however it ended.\<close>

lemma with_client_disconnects:
  assumes "connect t s = (Inr y, s1)"
  shows "\<exists>l r as. st_trace (fst (snd (with_client t session fn (s, out)))) = l @ Rpc Disconnect r # map Arrived as"
proof -
  have "\<exists>l r as. st_trace (fst (snd (finally_do m (call (disconnect t)) x))) = l @ Rpc Disconnect r # map Arrived as" for m :: "('a, 'b) cli" and x
  proof -
    obtain r1 s1 out1 where m: "m x = (r1, s1, out1)" by (cases "m x") auto
    obtain r w where c: "tl_call t Disconnect (st_world s1) = (r, w)" by (cases "tl_call t Disconnect (st_world s1)")
    show ?thesis
      by (cases r) (auto simp: finally_do_def m call_def disconnect_def seq_def rpc_def c ret_def trace_resume)
  qed
  then show ?thesis using assms by (simp add: with_client_def bind_def call_def)
qed

end
