(* ===== verification/Cli_Settings.thy ===== *)
theory Cli_Settings
  imports Agent_Models Session_Store Config_Files Client_Map Ghostwrite Heartbeat Moderation Login Translator Web_Render
begin

text \<open>
  The commands of the command line that work on local state: languages
  (\<open>cli/commands/message.py\<close>), ghostwrite dialogs, heartbeat plans, moderation rules, profiles,
  the API credentials and the address guard of the web server (the other files of
  \<open>cli/commands\<close>), and the suggester wrapper of \<open>cli/main.py\<close>. Each command gives its exit (an
  error, or the lines it prints) and the new state; the storage works. Prompts, confirmations
  and the outcome of Telegram's log-out are arguments.
\<close>

section \<open>Languages\<close>

datatype command_error =
    Exclusive | BadLanguage | NoTemplate | NoSchedule | BothSchedules | BadTime | EveryoneRefused | NotNumeric
  | BadRule | NoSuchRule | UnsafeName | NoSession | Declined | BadApiId | EmptyApiHash | OpenAddress
  | NoFactoryUrl | SettingFailed

type_synonym 's command = "(command_error, utext list) result \<times> 's"

text \<open>Codes and lists are checked before the storage is opened; each setter drops the
  translations. \<open>parse_lang_codes\<close> gives lists the setters accept.\<close>

definition parsed_list :: "string option \<Rightarrow> (command_error, string list option) result" where
  "parsed_list v =
     (case v of None \<Rightarrow> Inr None
      | Some t \<Rightarrow> (case parse_lang_codes (Some t) of Inl e \<Rightarrow> Inl BadLanguage | Inr ls \<Rightarrow> Inr (Some ls)))"

definition outcome :: "utext list \<Rightarrow> (setting_error, unit) result \<times> lang_store \<Rightarrow> lang_store command" where
  "outcome out r = (case r of (Inl e, s) \<Rightarrow> (Inl SettingFailed, s) | (Inr _, s) \<Rightarrow> (Inr out, s))"

definition lang_lines :: "environ \<Rightarrow> (string \<Rightarrow> kv_value option) \<Rightarrow> lang_store \<Rightarrow> utext list" where
  "lang_lines env loads s =
     (let stored = (case kv_get user_lang_key s of None \<Rightarrow> False | Some v \<Rightarrow> py_truthy v);
          source = (if stored then ''kv'' else if truthy (env ''TG_USER_LANG'') then ''env'' else ''unset'');
          shown = (\<lambda>ls. if ls = [] then ''-'' else join '', '' ls)
      in [u (or_default (get_user_lang env s) ''unset'') @ [9] @ u source,
          u ''mode'' @ [9] @ u (get_translate_mode env s),
          u ''known'' @ [9] @ u (shown (get_known_langs loads s)),
          u ''unknown'' @ [9] @ u (shown (get_unknown_langs loads s))])"

definition lang_command :: "(string list \<Rightarrow> string) \<Rightarrow> (string \<Rightarrow> kv_value option) \<Rightarrow> environ \<Rightarrow> string option \<Rightarrow> bool \<Rightarrow> string option
    \<Rightarrow> string option \<Rightarrow> string option \<Rightarrow> lang_store \<Rightarrow> lang_store command" where
  "lang_command dumps loads env code clear mode known unknown s =
     (if clear \<and> code \<noteq> None then (Inl Exclusive, s)
      else (case (case code of None \<Rightarrow> Inr None | Some c \<Rightarrow> map_sum (\<lambda>_. BadLanguage) Some (validate_supported_lang_code c)) of
              Inl e \<Rightarrow> (Inl e, s)
            | Inr language \<Rightarrow>
                (case (parsed_list known, parsed_list unknown) of
                   (Inl e, _) \<Rightarrow> (Inl e, s)
                 | (_, Inl e) \<Rightarrow> (Inl e, s)
                 | (Inr knowns, Inr unknowns) \<Rightarrow>
                     if clear
                     then outcome [u ''language override cleared.''] (after (set_user_lang None s) (set_translate_mode (Some ''off'')))
                     else if language \<noteq> None \<or> mode \<noteq> None \<or> knowns \<noteq> None \<or> unknowns \<noteq> None
                     then outcome [u ''translation settings updated.'']
                       (after (case language of None \<Rightarrow> (Inr (), s) | Some l \<Rightarrow> set_user_lang (Some l) s)
                         (\<lambda>s. after (case knowns of None \<Rightarrow> (Inr (), s) | Some ls \<Rightarrow> set_known_langs dumps (Inr ls) s)
                           (\<lambda>s. after (case unknowns of None \<Rightarrow> (Inr (), s) | Some ls \<Rightarrow> set_unknown_langs dumps (Inr ls) s)
                             (\<lambda>s. case mode of None \<Rightarrow> (Inr (), s) | Some m \<Rightarrow> set_translate_mode (Some m) s))))
                     else (Inr (lang_lines env loads s), s))))"

definition dialog_lang_line :: "(kv_value \<Rightarrow> dialog_lang option) \<Rightarrow> int \<Rightarrow> lang_store \<Rightarrow> utext option" where
  "dialog_lang_line validate dialog_id s =
     (let outbound = u ''outbound='' @ u (if is_outbound_enabled dialog_id s then ''on'' else ''off'')
      in map_option (\<lambda>info. u (str_int dialog_id) @ [9] @
           (case info of
              None \<Rightarrow> u ''lang=unset'' @ [9]
            | Some dl \<Rightarrow> u ''lang='' @ u (dl_lang dl) @ [9] @ u ''source='' @ u (case dl_source dl of Auto \<Rightarrow> ''auto'' | Manual \<Rightarrow> ''manual'') @ [9])
           @ outbound) (get_dialog_lang validate dialog_id s))"

definition dialog_lang_command :: "(kv_value \<Rightarrow> dialog_lang option) \<Rightarrow> int \<Rightarrow> string option \<Rightarrow> bool \<Rightarrow> bool \<Rightarrow> bool \<Rightarrow> lang_store \<Rightarrow> lang_store command" where
  "dialog_lang_command validate dialog_id code auto turn_on turn_off s =
     (if code \<noteq> None \<and> auto then (Inl Exclusive, s)
      else if turn_on \<and> turn_off then (Inl Exclusive, s)
      else (case (case code of None \<Rightarrow> Inr None | Some c \<Rightarrow> map_sum (\<lambda>_. BadLanguage) Some (validate_supported_lang_code c)) of
              Inl e \<Rightarrow> (Inl e, s)
            | Inr language \<Rightarrow>
                (case after (case language of None \<Rightarrow> (Inr (), s) | Some l \<Rightarrow> set_dialog_lang dialog_id (Some l) Manual None s)
                   (\<lambda>s. if auto then set_dialog_lang dialog_id None Manual None s else (Inr (), s)) of
                   (Inl e, s1) \<Rightarrow> (Inl SettingFailed, s1)
                 | (Inr _, s1) \<Rightarrow>
                     (let s2 = (if turn_on then set_outbound_enabled dialog_id True s1 else s1);
                          s3 = (if turn_off then set_outbound_enabled dialog_id False s2 else s2)
                      in (case dialog_lang_line validate dialog_id s3 of None \<Rightarrow> (Inl SettingFailed, s3) | Some l \<Rightarrow> (Inr [l], s3))))))"

section \<open>Ghostwrite dialogs, plans and rules\<close>

definition ghostwrite_enable :: "string \<Rightarrow> gw_table \<Rightarrow> gw_table command" where
  "ghostwrite_enable dialog_id t =
     (if strip dialog_id = ''*'' then (Inl EveryoneRefused, t)
      else (case parse_int dialog_id of
              None \<Rightarrow> (Inl NotNumeric, t)
            | Some d \<Rightarrow> (Inr [u ''ghostwrite enabled for dialog '' @ u (str_int d) @ [46]], enable_dialog d t)))"

definition ghostwrite_disable :: "int \<Rightarrow> gw_table \<Rightarrow> gw_table command" where
  "ghostwrite_disable d t = (Inr [u ''ghostwrite disabled for dialog '' @ u (str_int d) @ [46]], disable_dialog d t)"

definition ghostwrite_list :: "gw_table \<Rightarrow> gw_table command" where
  "ghostwrite_list t =
     (Inr (if list_enabled t = [] then [u ''No dialogs enabled.''] else map (\<lambda>d. u (str_int d)) (list_enabled t)), t)"

definition ghostwrite_pause_all :: "gw_table \<Rightarrow> gw_table command" where
  "ghostwrite_pause_all t = (Inr [u ''ghostwrite paused for all enabled dialogs.''], pause_all t)"

definition ghostwrite_resume :: "int \<Rightarrow> gw_table \<Rightarrow> gw_table command" where
  "ghostwrite_resume d t = (Inr [u ''ghostwrite resumed for dialog '' @ u (str_int d) @ [46]], resume_dialog d t)"

text \<open>A one-shot ping is a scheduled send (its time is the result), a recurring one a stored
  plan. Click has checked the ranges of the options; \<open>show_hours\<close> formats a float.\<close>

datatype planned = OneShot int utext instant | Stored "utext list"

definition new_plan :: "int \<Rightarrow> utext list \<Rightarrow> real \<Rightarrow> real \<Rightarrow> int option \<Rightarrow> int option \<Rightarrow> int \<Rightarrow> plan" where
  "new_plan peer templates interval_hours jitter quiet_start quiet_end max_per_day =
     \<lparr>hb_peer = peer, hb_templates = templates, hb_interval_hours = interval_hours, hb_jitter_minutes = jitter,
      hb_quiet_start = quiet_start, hb_quiet_end = quiet_end, hb_enabled = True, hb_last_ping_at = None,
      hb_max_per_day = max_per_day, hb_pings_today = 0, hb_day_start = None, hb_next_jitter_sec = None\<rparr>"

definition heartbeat_plan_command :: "(real \<Rightarrow> utext) \<Rightarrow> instant \<Rightarrow> int \<Rightarrow> string option \<Rightarrow> real option \<Rightarrow> utext list \<Rightarrow> real
    \<Rightarrow> int option \<Rightarrow> int option \<Rightarrow> int \<Rightarrow> plan_table \<Rightarrow> (command_error, planned) result \<times> plan_table" where
  "heartbeat_plan_command show_hours now peer at_text interval_hours templates jitter quiet_start quiet_end max_per_day t =
     (if templates = [] then (Inl NoTemplate, t)
      else (case (at_text, interval_hours) of
              (None, None) \<Rightarrow> (Inl NoSchedule, t)
            | (Some a, Some h) \<Rightarrow> (Inl BothSchedules, t)
            | (Some a, None) \<Rightarrow> (case parse_at a now of None \<Rightarrow> (Inl BadTime, t) | Some moment \<Rightarrow> (Inr (OneShot peer (hd templates) moment), t))
            | (None, Some h) \<Rightarrow>
                (Inr (Stored [u ''heartbeat plan stored for peer '' @ u (str_int peer) @ u '' (every '' @ show_hours h @ u ''h).'']),
                 add_plan (new_plan peer templates h jitter quiet_start quiet_end max_per_day) t)))"

definition heartbeat_list_command :: "(real \<Rightarrow> utext) \<Rightarrow> (utext list \<Rightarrow> utext) \<Rightarrow> plan_table \<Rightarrow> plan_table command" where
  "heartbeat_list_command show_hours show_list t =
     (let plans = list_plans False t
      in (Inr (if plans = [] then [u ''No plans.'']
               else map (\<lambda>p. u (str_int (hb_peer p)) @ [9] @ u ''every '' @ show_hours (hb_interval_hours p) @ u ''h'' @ [9]
                  @ u ''['' @ u (if hb_enabled p then ''on'' else ''off'') @ u '']'' @ [9] @ show_list (hb_templates p)) plans), t))"

definition heartbeat_remove_command :: "int \<Rightarrow> plan_table \<Rightarrow> plan_table command" where
  "heartbeat_remove_command peer t = (Inr [u ''heartbeat plan removed for peer '' @ u (str_int peer) @ [46]], remove_plan peer t)"

text \<open>\<open>parsed\<close> is what pydantic makes of the rule file.\<close>

definition rules_add_command :: "moderation_rule option \<Rightarrow> rules_table \<Rightarrow> rules_table command" where
  "rules_add_command parsed t =
     (case parsed of
        None \<Rightarrow> (Inl BadRule, t)
      | Some r \<Rightarrow> (Inr [u ''rule '' @ [39] @ u (mr_name r) @ [39] @ u '' added for chat '' @ u (str_int (mr_chat_id r)) @ [46]], add_rule r t))"

definition rules_list_command :: "int option \<Rightarrow> rules_table \<Rightarrow> rules_table command" where
  "rules_list_command chat t =
     (let rules = list_rules chat t
      in (Inr (if rules = [] then [u ''No rules.'']
               else map (\<lambda>r. u (str_int (mr_chat_id r)) @ [9] @ u (mr_name r) @ [9] @ u ''['' @ u (if mr_enabled r then ''on'' else ''off'')
                  @ u '']'') rules), t))"

definition rules_remove_command :: "int \<Rightarrow> string \<Rightarrow> rules_table \<Rightarrow> rules_table command" where
  "rules_remove_command chat name t =
     (case remove_rule chat name t of
        (deleted, t') \<Rightarrow>
          if deleted = 0 then (Inl NoSuchRule, t')
          else (Inr [u ''rule '' @ [39] @ u name @ [39] @ u '' removed from chat '' @ u (str_int chat) @ [46]], t'))"

section \<open>Profiles and credentials\<close>

definition profiles_command :: "cipher \<Rightarrow> string option \<Rightarrow> files \<Rightarrow> files command" where
  "profiles_command ci key fs =
     (Inr (if list_profiles fs = [] then [u ''No profiles yet '' @ [8212] @ u '' run: tg-messenger --profile NAME login'']
           else map (\<lambda>name. u name @ [32] @ (if is_valid_profile ci key name fs then 10003 # u '' ok'' else 10007 # u '' broken''))
                  (list_profiles fs)), fs)"

definition again_line :: "string \<Rightarrow> utext" where
  "again_line name = u ''To use it again, log in fresh: tg-messenger --profile '' @ u name @ u '' login''"

text \<open>The name in quotes is Python's \<open>repr\<close> of a safe name.\<close>

definition quoted_name :: "string \<Rightarrow> utext" where
  "quoted_name name = [39] @ u name @ [39]"

definition profiles_remove_command :: "string \<Rightarrow> bool \<Rightarrow> bool \<Rightarrow> files \<Rightarrow> files command" where
  "profiles_remove_command name yes confirmed fs =
     (if \<not> is_safe_profile_name name then (Inl UnsafeName, fs)
      else if od_get fs (path_for name) = None then (Inl NoSession, fs)
      else if \<not> yes \<and> \<not> confirmed then (Inl Declined, fs)
      else (Inr [u ''profile '' @ quoted_name name @ u '' removed.'', again_line name], snd (delete_session name fs)))"

text \<open>\<open>told\<close>: Telegram confirmed the log-out; any exception is reported and the local file
  goes all the same.\<close>

definition logout_command :: "string \<Rightarrow> bool \<Rightarrow> bool \<Rightarrow> bool \<Rightarrow> files \<Rightarrow> files command" where
  "logout_command session yes confirmed told fs =
     (if od_get fs (path_for session) = None then (Inl NoSession, fs)
      else if \<not> yes \<and> \<not> confirmed then (Inl Declined, fs)
      else (Inr ((if told then [u ''logged out of Telegram.''] else [])
                 @ [u ''session file removed for profile '' @ quoted_name session @ [46], again_line session]),
            snd (delete_session session fs)))"

text \<open>\<open>prompt_and_save_api_creds\<close>; each value is the option or the answer to the prompt.\<close>

definition save_api_creds :: "string \<Rightarrow> string \<Rightarrow> string \<Rightarrow> string \<Rightarrow> files \<Rightarrow> (command_error, string \<times> string) result \<times> files" where
  "save_api_creds pid env_name api_id api_hash fs =
     (let i = strip api_id; h = strip api_hash
      in if i = [] \<or> \<not> list_all is_dec i \<or> dec_value i = 0 then (Inl BadApiId, fs)
         else if h = [] then (Inl EmptyApiHash, fs)
         else (Inr (i, h), write_env_values pid env_name [(''TG_API_ID'', i), (''TG_API_HASH'', h)] fs))"

text \<open>\<open>serve\<close>: an open address needs a password or the flag.\<close>

definition local_hosts :: "string list" where
  "local_hosts = [''127.0.0.1'', ''localhost'', ''::1'']"

definition may_serve :: "string \<Rightarrow> environ \<Rightarrow> bool \<Rightarrow> bool" where
  "may_serve host env insecure \<longleftrightarrow> \<not> (host \<notin> set local_hosts \<and> \<not> truthy (env ''TG_WEB_PASS'') \<and> \<not> insecure)"

text \<open>The task types of the worker.\<close>

definition worker_types :: "string \<Rightarrow> string list" where
  "worker_types types = filter (\<lambda>t. t \<noteq> []) (map strip (split_on (CHR '','') types))"

definition delivery_message :: "code_delivery \<Rightarrow> utext" where
  "delivery_message d =
     (case cd_kind d of
        App \<Rightarrow> u ''Code sent to your Telegram app '' @ [8212] @ u '' check devices where you are already logged in.''
      | Sms \<Rightarrow> u ''Code sent via SMS.''
      | Call \<Rightarrow> u ''You will get a phone call with the code.''
      | UnknownKind \<Rightarrow> u ''Code sent '' @ [8212] @ u '' check your Telegram app and SMS.'')
     @ (case cd_next d of
          Some k \<Rightarrow> u '' No code? Press Enter at the prompt to resend via '' @ u (delivery_kind_text k)
            @ (case cd_timeout d of None \<Rightarrow> [] | Some s \<Rightarrow> if s = 0 then [] else u '' (available in ~'' @ u (str_int s) @ u ''s)'') @ [46]
        | None \<Rightarrow>
            if cd_kind d = App
            then u '' This is the only delivery channel for this number '' @ [8212] @ u '' check the '' @ [39] @ u ''Telegram'' @ [39]
              @ u '' service chat (sender 777000) on your logged-in devices. Press Enter to send the code again.''
            else [])"

section \<open>The suggester of the long-running processes\<close>

text \<open>\<open>_StorageBackedSuggester\<close>, the storage it opens lazily included.\<close>

record backed =
  sb_suggester :: suggester
  sb_store :: lang_store
  sb_connected :: bool

text \<open>The second part of the first connection: until it has run, other calls find the storage
  connected and use the default model.\<close>

definition apply_stored_model :: "backed \<Rightarrow> backed" where
  "apply_stored_model b =
     (if \<not> supports_model_swap (sb_suggester b) then b
      else (case kv_get suggest_model_key (sb_store b) of
              None \<Rightarrow> b
            | Some v \<Rightarrow>
                if \<not> py_truthy v then b
                else (case Suggest.build_suggest_fn (py_str v) (sb_suggester b) of
                        None \<Rightarrow> b
                      | Some f \<Rightarrow> b\<lparr>sb_suggester := set_suggest_fn f (sb_suggester b)\<rparr>)))"

definition ensure_connected :: "backed \<Rightarrow> backed" where
  "ensure_connected b = (if sb_connected b then b else apply_stored_model (b\<lparr>sb_connected := True\<rparr>))"

definition backed_suggest :: "client_history \<Rightarrow> (int, style_profile) odict \<Rightarrow> int \<Rightarrow> backed \<Rightarrow> utext option \<times> fetches \<times> backed" where
  "backed_suggest client profiles dialog_id b =
     (let b1 = ensure_connected b
      in (case suggest (sb_suggester b1) client (Some \<lparr>sg_kv = sb_store b1, sg_profiles = profiles\<rparr>) dialog_id of
            (r, f) \<Rightarrow> (r, f, b1)))"

text \<open>False: a ValueError, and nothing is changed but the connection.\<close>

definition save_settings :: "bool \<Rightarrow> kv_value \<Rightarrow> string option \<Rightarrow> backed \<Rightarrow> bool \<times> backed" where
  "save_settings enabled history model b =
     (let b1 = ensure_connected b; su = sb_suggester b1; swap = supports_model_swap su
      in (case coerce_history history of
            None \<Rightarrow> (False, b1)
          | Some h \<Rightarrow>
              if truthy model \<and> swap \<and> Suggest.build_suggest_fn (the model) su = None then (False, b1)
              else (let s' = snd (set_suggest_settings enabled (VInt h) model (sb_store b1))
                    in (True, b1\<lparr>sb_store := s',
                         sb_suggester :=
                           (if truthy model \<and> swap then set_suggest_fn (the (Suggest.build_suggest_fn (the model) su)) su
                            else if \<not> truthy model \<and> swap then reset_suggest_fn su else su)\<rparr>))))"

definition backed_close :: "backed \<Rightarrow> backed" where
  "backed_close b = b\<lparr>sb_connected := False\<rparr>"

definition fresh_backed :: "(nat \<Rightarrow> real \<Rightarrow> utext) \<Rightarrow> (string \<Rightarrow> llm option) \<Rightarrow> llm \<Rightarrow> int \<Rightarrow> lang_store \<Rightarrow> backed" where
  "fresh_backed fixed init model limit s =
     \<lparr>sb_suggester = new_suggester (make_suggest_fn fixed model) limit (Some (suggest_fn_factory fixed init)),
      sb_store = s, sb_connected = False\<rparr>"

section \<open>Live settings and stored settings\<close>

datatype backed_op = SaveSettings bool kv_value "string option" | AskDraft client_history "(int, style_profile) odict" int | CloseIt

fun backed_step :: "backed_op \<Rightarrow> backed \<Rightarrow> backed" where
  "backed_step (SaveSettings enabled history model) b = snd (save_settings enabled history model b)"
| "backed_step (AskDraft client profiles dialog_id) b = snd (snd (backed_suggest client profiles dialog_id b))"
| "backed_step CloseIt b = backed_close b"

text \<open>The function the stored override stands for.\<close>

definition stored_fn :: "suggest_fn \<Rightarrow> (string \<Rightarrow> suggest_fn option) \<Rightarrow> lang_store \<Rightarrow> suggest_fn" where
  "stored_fn dflt factory s =
     (case kv_get suggest_model_key s of
        None \<Rightarrow> dflt
      | Some v \<Rightarrow> if \<not> py_truthy v then dflt else (case factory (py_str v) of None \<Rightarrow> dflt | Some f \<Rightarrow> f))"

definition backed_inv :: "suggest_fn \<Rightarrow> (string \<Rightarrow> suggest_fn option) \<Rightarrow> backed \<Rightarrow> bool" where
  "backed_inv dflt factory b \<longleftrightarrow>
     su_default_fn (sb_suggester b) = dflt \<and> su_factory (sb_suggester b) = Some factory
     \<and> (su_fn (sb_suggester b) = stored_fn dflt factory (sb_store b)
        \<or> \<not> sb_connected b \<and> su_fn (sb_suggester b) = dflt)"

lemma connected_inv:
  assumes "backed_inv dflt factory b"
  shows "backed_inv dflt factory (ensure_connected b)"
    and "su_fn (sb_suggester (ensure_connected b)) = stored_fn dflt factory (sb_store b)"
    and "sb_store (ensure_connected b) = sb_store b" and "sb_connected (ensure_connected b)"
  using assms
  by (auto simp: backed_inv_def ensure_connected_def apply_stored_model_def stored_fn_def supports_model_swap_def
      Suggest.build_suggest_fn_def set_suggest_fn_def split: option.splits if_splits)

text \<open>A factory that ignores blanks around the name, as the code's does.\<close>

definition blank_blind :: "(string \<Rightarrow> suggest_fn option) \<Rightarrow> bool" where
  "blank_blind factory \<longleftrightarrow> (\<forall>m. factory (strip m) = factory m) \<and> factory [] = None"

lemma factory_blank_blind: "blank_blind (suggest_fn_factory fixed init)"
  by (simp add: blank_blind_def suggest_fn_factory_def str_simps)

lemma saved_model:
  assumes "set_suggest_settings enabled (VInt h) model s = (True, s')"
  shows "kv_get suggest_model_key s' = (if strip (or_default model []) = [] then None else Some (VStr (strip (or_default model []))))"
  using assms by (auto simp: set_suggest_settings_def Let_def suggest_model_key_def suggest_history_key_def suggest_enabled_key_def
      split: option.splits if_splits)

lemma save_inv:
  assumes b: "backed_inv dflt factory b" and f: "blank_blind factory"
  shows "backed_inv dflt factory (snd (save_settings enabled history model b))"
proof -
  let ?b = "ensure_connected b"
  have b1: "su_default_fn (sb_suggester ?b) = dflt" "su_factory (sb_suggester ?b) = Some factory"
    using connected_inv(1) [OF b] by (simp_all add: backed_inv_def)
  show ?thesis
  proof (cases "coerce_history history")
    case None
    then show ?thesis using connected_inv(1) [OF b] by (simp add: save_settings_def Let_def)
  next
    case (Some h)
    have "coerce_history (VInt h) = Some h" using Some by (auto simp: coerce_history_def split: option.splits if_splits)
    then obtain s' where s': "set_suggest_settings enabled (VInt h) model (sb_store ?b) = (True, s')"
      by (simp add: set_suggest_settings_def Let_def)
    note key = saved_model [OF s']
    show ?thesis
    proof (cases "truthy model")
      case False
      then have "or_default model [] = []" by (auto simp: truthy_def or_default_def split: option.split)
      then have "stored_fn dflt factory s' = dflt" using key by (simp add: stored_fn_def str_simps strip_by_def lstrip_by_def rstrip_by_def)
      then show ?thesis using b1 False Some s'
        by (simp add: save_settings_def Let_def supports_model_swap_def reset_suggest_fn_def backed_inv_def)
    next
      case True
      then obtain m where m: "model = Some m" "m \<noteq> []" by (auto simp: truthy_def)
      show ?thesis
      proof (cases "factory m")
        case None
        then show ?thesis using connected_inv(1) [OF b] True m Some b1
          by (simp add: save_settings_def Let_def Suggest.build_suggest_fn_def supports_model_swap_def)
      next
        case (Some g)
        have "strip m \<noteq> []" using f Some by (metis blank_blind_def option.distinct(1))
        moreover have "factory (strip m) = Some g" using f Some by (simp add: blank_blind_def)
        ultimately have "stored_fn dflt factory s' = g" using key m by (simp add: stored_fn_def or_default_def)
        then show ?thesis using b1 True m Some s' \<open>coerce_history history = Some h\<close>
          by (simp add: save_settings_def Let_def supports_model_swap_def set_suggest_fn_def Suggest.build_suggest_fn_def backed_inv_def)
      qed
    qed
  qed
qed

lemma close_inv: "backed_inv dflt factory b \<Longrightarrow> backed_inv dflt factory (backed_close b)"
  by (auto simp: backed_close_def backed_inv_def)

lemma suggest_state: "snd (snd (backed_suggest client profiles dialog_id b)) = ensure_connected b"
  by (simp add: backed_suggest_def Let_def split: prod.split)

lemma backed_inv_step: "backed_inv dflt factory b \<Longrightarrow> blank_blind factory \<Longrightarrow> backed_inv dflt factory (backed_step op b)"
  by (cases op) (simp_all add: save_inv suggest_state connected_inv(1) close_inv)

interpretation backing: inv_system "\<lambda>x y. \<exists>op. y = backed_step op x" "backed_inv dflt (suggest_fn_factory fixed init)"
  for dflt fixed init
  by unfold_locales (use backed_inv_step factory_blank_blind in blast)

lemma backed_run: "(\<lambda>x y. \<exists>op. y = backed_step op x)\<^sup>*\<^sup>* b (fold backed_step ops b)"
proof (induction ops arbitrary: b)
  case (Cons op ops)
  have "(\<lambda>x y. \<exists>op. y = backed_step op x) b (backed_step op b)" by blast
  from converse_rtranclp_into_rtranclp [OF this Cons.IH] show ?case by simp
qed simp

text \<open>
  The live suggester and the stored settings agree: after any run of settings saved (valid or
  not), drafts asked and closings, from any stored settings, the function that writes the
  next draft is the one a fresh process would use on what is stored then.
\<close>

theorem live_settings_match_restart:
  "let b = fold backed_step ops (fresh_backed fixed init model limit s)
   in su_fn (sb_suggester (ensure_connected b)) = su_fn (sb_suggester (ensure_connected (fresh_backed fixed init model limit (sb_store b))))"
proof -
  let ?d = "make_suggest_fn fixed model" and ?f = "suggest_fn_factory fixed init"
  have fresh: "backed_inv ?d ?f (fresh_backed fixed init model limit s)" for s
    by (simp add: fresh_backed_def new_suggester_def backed_inv_def)
  have "backed_inv ?d ?f (fold backed_step ops (fresh_backed fixed init model limit s))"
    by (rule backing.reach_keeps [OF backed_run fresh])
  then show ?thesis using connected_inv(2) [OF fresh] by (simp add: Let_def connected_inv(2)) (simp add: fresh_backed_def)
qed

section \<open>Logging out\<close>

text \<open>After a confirmed log-out, or removal, the profile's session is gone from the disk, whatever
  Telegram answered, and no other profile's file changed.\<close>

lemma logout_removes_session:
  assumes "logout_command session yes confirmed told fs = (Inr out, fs')" and "od_wf fs"
  shows "od_get fs' (path_for session) = None \<and> (\<forall>k. k \<noteq> path_for session \<longrightarrow> od_get fs' k = od_get fs k) \<and> (yes \<or> confirmed)"
  using assms by (auto simp: logout_command_def delete_session_def fs_simps od_simps split: if_splits)

end
