(* ===== verification/Web_Pages.thy ===== *)
theory Web_Pages
  imports Cli_Commands Cli_Settings Web_Routes
begin

text \<open>
  The pages of \<open>src/tg_messenger/web/app.py\<close> that only read (dialogs, search, history, the JSON
  surface of the pane, the forms of the settings), the settings form of the suggester, and the
  pages of the login wizard. The reading pages are coroutines over the client; history through
  the message store and the translation are arguments. A template is the card it is filled with.
\<close>

section \<open>Reading pages\<close>

datatype page =
    Html utext
  | DialogsJson "dialog list"
  | MessagesJson "message list"
  | HealthJson string
  | LoginCard "utext option"
  | Answer response

text \<open>The handlers of the application for what a route lets escape.\<close>

definition error_page :: "(client_error \<Rightarrow> bool) \<Rightarrow> (string \<Rightarrow> int \<Rightarrow> utext) \<Rightarrow> client_error \<Rightarrow> response" where
  "error_page unauthorized flood_text e =
     (case e of
        HandledFloodWait op n \<Rightarrow> ErrorText (flood_text op n) 503
      | SendForbidden t \<Rightarrow> ErrorText t 403
      | _ \<Rightarrow> if unauthorized e then Redirect ''/tg-login'' 302 else Unhandled)"

text \<open>\<open>_dialog_kind\<close>: a lookup that fails reads as an unknown kind.\<close>

definition dialog_kind_for :: "'w telethon \<Rightarrow> nat \<Rightarrow> int \<Rightarrow> ('w, dialog_kind option) coro" where
  "dialog_kind_for t tsk dialog_id s =
     (case dialogs t tsk False None s of
        (Inl Cancelled, s') \<Rightarrow> (Inl Cancelled, s')
      | (Inl _, s') \<Rightarrow> (Inr None, s')
      | (Inr ds, s') \<Rightarrow> (Inr (map_option dg_kind (List.find (\<lambda>d. dg_id d = dialog_id) ds)), s'))"

definition bubbles :: "bool \<Rightarrow> message list \<Rightarrow> utext" where
  "bubbles is_group ms = concat (map (\<lambda>m. message_div m (is_group \<and> \<not> ms_out m)) ms)"

definition with_authors :: "'w telethon \<Rightarrow> nat \<Rightarrow> int \<Rightarrow> message list \<Rightarrow> ('w, page) coro" where
  "with_authors t tsk dialog_id items =
     seq (dialog_kind_for t tsk dialog_id) (\<lambda>k. ret (Html (bubbles (k = Some Group) items)))"

definition dialogs_page :: "'w telethon \<Rightarrow> nat \<Rightarrow> string \<Rightarrow> string \<Rightarrow> ('w, page) coro" where
  "dialogs_page t tsk tab q =
     seq (if tab = ''groups'' then group_dialogs t tsk None else dialogs t tsk True None)
       (\<lambda>items. ret (Html (concat (map dialog_li (filter_dialogs items q)))))"

definition search_page :: "'w telethon \<Rightarrow> nat \<Rightarrow> int \<Rightarrow> utext \<Rightarrow> ('w, page) coro" where
  "search_page t tsk dialog_id q = seq (search_messages t tsk dialog_id q 20) (with_authors t tsk dialog_id)"

definition messages_page :: "'w telethon \<Rightarrow> nat \<Rightarrow> (int \<Rightarrow> ('w, message list) coro) option \<Rightarrow> (message list \<Rightarrow> ('w, message list) coro)
    \<Rightarrow> int \<Rightarrow> ('w, page) coro" where
  "messages_page t tsk hist_opt translated dialog_id =
     seq (case hist_opt of None \<Rightarrow> history t tsk dialog_id 50 0 False | Some hist \<Rightarrow> hist dialog_id) (\<lambda>items.
     seq (translated items) (with_authors t tsk dialog_id))"

definition api_health :: "string \<Rightarrow> ('w, page) coro" where
  "api_health session_name = ret (HealthJson session_name)"

definition api_dialogs :: "'w telethon \<Rightarrow> nat \<Rightarrow> string \<Rightarrow> int \<Rightarrow> ('w, page) coro" where
  "api_dialogs t tsk tab limit =
     seq (if tab = ''groups'' then group_dialogs t tsk (Some (min limit 500)) else dialogs t tsk True (Some (min limit 500)))
       (\<lambda>items. ret (DialogsJson items))"

definition api_messages :: "'w telethon \<Rightarrow> nat \<Rightarrow> int \<Rightarrow> int \<Rightarrow> bool \<Rightarrow> ('w, page) coro" where
  "api_messages t tsk dialog_id limit fresh =
     seq (history t tsk dialog_id (min limit 200) 0 fresh) (\<lambda>items. ret (MessagesJson items))"

definition profiles_page :: "string \<Rightarrow> files \<Rightarrow> ('w, page) coro" where
  "profiles_page session_name fs =
     ret (Html (concat (map (\<lambda>n. profile_li (u n) (n = session_name)) (list_profiles fs))))"

datatype 'w get_route =
    GetDialogs string string
  | GetSearch int utext
  | GetMessages "(int \<Rightarrow> ('w, message list) coro) option" "message list \<Rightarrow> ('w, message list) coro" int
  | GetHealth string
  | ApiDialogs string int
  | ApiMessages int int bool
  | GetProfiles string files

fun get_page :: "'w telethon \<Rightarrow> nat \<Rightarrow> 'w get_route \<Rightarrow> ('w, page) coro" where
  "get_page t tsk (GetDialogs tab q) = dialogs_page t tsk tab q"
| "get_page t tsk (GetSearch d q) = search_page t tsk d q"
| "get_page t tsk (GetMessages hist translated d) = messages_page t tsk hist translated d"
| "get_page t tsk (GetHealth session_name) = api_health session_name"
| "get_page t tsk (ApiDialogs tab limit) = api_dialogs t tsk tab limit"
| "get_page t tsk (ApiMessages d limit fresh) = api_messages t tsk d limit fresh"
| "get_page t tsk (GetProfiles session_name fs) = profiles_page session_name fs"

definition respond :: "(client_error \<Rightarrow> bool) \<Rightarrow> (string \<Rightarrow> int \<Rightarrow> utext) \<Rightarrow> ('w, page) coro \<Rightarrow> 'w cstate \<Rightarrow> page \<times> 'w cstate" where
  "respond unauthorized flood_text m s =
     (case m s of (Inl e, s') \<Rightarrow> (Answer (error_page unauthorized flood_text e), s') | (Inr p, s') \<Rightarrow> (p, s'))"

section \<open>Settings pages\<close>

definition csrf_attribute :: utext where
  "csrf_attribute = u ''hx-headers='' @ [39] @ u ''{\"x-tg-messenger-csrf\": \"1\"}'' @ [39] @ [62]"

text \<open>\<open>lang\<close> is the target language when a translator is wired.\<close>

definition lang_settings_page :: "string option option \<Rightarrow> response" where
  "lang_settings_page lang =
     (case lang of
        None \<Rightarrow> ErrorText (u ''Translation is not configured.'') 503
      | Some l \<Rightarrow> Fragment
          (u ''<form lang=\"en\" hx-post=\"/settings/lang\" hx-swap=\"outerHTML\" '' @ csrf_attribute
           @ u ''<input name=\"code\" value=\"'' @ html_escape (u (or_default l [])) @ u ''\" placeholder=\"Language\">''
           @ u ''<button type=\"submit\">Save</button></form>'') 200)"

definition suggest_settings_form :: "suggest_settings \<Rightarrow> utext" where
  "suggest_settings_form g =
     u ''<form id=\"suggest-settings\" lang=\"en\" hx-post=\"/settings/suggest\" hx-swap=\"outerHTML\" '' @ csrf_attribute
     @ u ''<label><input type=\"checkbox\" name=\"enabled\" value=\"1\"'' @ (if gs_enabled g then u '' checked'' else [])
     @ u ''> Suggest replies</label>''
     @ u ''<input name=\"history\" value=\"'' @ html_escape (u (str_int (gs_history g))) @ u ''\" placeholder=\"History limit\">''
     @ u ''<input name=\"model\" value=\"'' @ html_escape (u (or_default (gs_model g) []))
     @ u ''\" placeholder=\"Model (optional override)\">''
     @ u ''<button type=\"submit\">Save</button></form>''"

definition suggest_missing :: response where
  "suggest_missing = ErrorText (u ''Suggest is not configured '' @ [8212] @ u '' needs the [agent] extra and TG_AGENT_MODEL.'') 503"

definition settings_shown :: "backed \<Rightarrow> response" where
  "settings_shown b = (case get_suggest_settings default_history_limit (sb_store b) of
     None \<Rightarrow> Unhandled | Some g \<Rightarrow> Fragment (suggest_settings_form g) 200)"

definition suggest_settings_page :: "backed option \<Rightarrow> response \<times> backed option" where
  "suggest_settings_page wired =
     (case wired of None \<Rightarrow> (suggest_missing, None) | Some b \<Rightarrow> (settings_shown (ensure_connected b), Some (ensure_connected b)))"

text \<open>\<open>why\<close> is the text of the ValueError that refused the settings.\<close>

definition suggest_settings_update :: "utext \<Rightarrow> request \<Rightarrow> utext \<Rightarrow> string \<Rightarrow> string \<Rightarrow> backed option \<Rightarrow> response \<times> backed option" where
  "suggest_settings_update why rq enabled hist model wired =
     (case same_origin_error rq of
        Some e \<Rightarrow> (e, wired)
      | None \<Rightarrow> (case wired of
          None \<Rightarrow> (suggest_missing, None)
        | Some b \<Rightarrow> (case parse_int (strip hist) of
            None \<Rightarrow> (ErrorText (u ''History limit must be an integer.'') 400, Some b)
          | Some h \<Rightarrow>
              (case save_settings (ustrip enabled \<noteq> []) (VInt h) (if strip model = [] then None else Some (strip model)) b of
                 (False, b1) \<Rightarrow> (ErrorText why 400, Some b1)
               | (True, b1) \<Rightarrow> (settings_shown b1, Some b1)))))"

section \<open>The login pages\<close>

text \<open>The wizard's words for its errors are an argument; each POST is split at its await.\<close>

definition card_for :: "login_session \<Rightarrow> utext option" where
  "card_for s = (case ls_state s of
     Code \<Rightarrow> Some (tg_login_code_fragment (ls_delivery s) None)
   | Password \<Rightarrow> Some (tg_login_password_fragment None)
   | _ \<Rightarrow> None)"

definition tg_login_form :: "login_session \<Rightarrow> page \<times> login_session" where
  "tg_login_form s = (LoginCard (card_for (login_reset s)), login_reset s)"

datatype 'a awaiting = Now 'a | Later

text \<open>A LoginError is answered by the card of the step; a call out of order is a RuntimeError,
  and \<open>other\<close> is what the handlers of the application answer to anything else.\<close>

definition login_failed :: "response \<Rightarrow> (login_error \<Rightarrow> page) \<Rightarrow> login_error \<Rightarrow> page" where
  "login_failed other answered e = (case e of BadOrder \<Rightarrow> Answer Unhandled | OtherError \<Rightarrow> Answer other | _ \<Rightarrow> answered e)"

definition phone_error :: "(login_error \<Rightarrow> utext) \<Rightarrow> login_error \<Rightarrow> page" where
  "phone_error say e = Html (tg_login_phone_fragment (say e))"

definition code_error :: "(login_error \<Rightarrow> utext) \<Rightarrow> login_session \<Rightarrow> login_error \<Rightarrow> page" where
  "code_error say s e = Html (tg_login_code_fragment (ls_delivery s) (Some (say e)))"

definition password_error :: "(login_error \<Rightarrow> utext) \<Rightarrow> login_error \<Rightarrow> page" where
  "password_error say e = Html (tg_login_password_fragment (Some (say e)))"

definition phone_begin :: "response \<Rightarrow> (login_error \<Rightarrow> utext) \<Rightarrow> login_session \<Rightarrow> page awaiting \<times> login_session" where
  "phone_begin other say s = (case submit_phone_start s of
     Inl e \<Rightarrow> (Now (login_failed other (phone_error say) e), s) | Inr s' \<Rightarrow> (Later, s'))"

definition phone_finish :: "response \<Rightarrow> (login_error \<Rightarrow> utext) \<Rightarrow> string \<Rightarrow> send_outcome \<Rightarrow> login_session \<Rightarrow> page \<times> login_session" where
  "phone_finish other say phone out s = (case submit_phone_end (strip phone) out s of
     (Inl e, s') \<Rightarrow> (login_failed other (phone_error say) e, s')
   | (Inr d, s') \<Rightarrow> (Html (tg_login_code_fragment (Some d) None), s'))"

definition resend_begin :: "response \<Rightarrow> (login_error \<Rightarrow> utext) \<Rightarrow> login_session \<Rightarrow> page awaiting" where
  "resend_begin other say s = (case resend_start s of Inl e \<Rightarrow> Now (login_failed other (code_error say s) e) | Inr _ \<Rightarrow> Later)"

definition resend_finish :: "response \<Rightarrow> (login_error \<Rightarrow> utext) \<Rightarrow> bool \<Rightarrow> resend_outcome \<Rightarrow> login_session \<Rightarrow> page \<times> login_session" where
  "resend_finish other say same_flow out s = (case resend_end same_flow out s of
     (Inl e, s') \<Rightarrow> (login_failed other (code_error say s') e, s')
   | (Inr d, s') \<Rightarrow> (Html (tg_login_code_fragment (Some d) None), s'))"

definition code_begin :: "response \<Rightarrow> (login_error \<Rightarrow> utext) \<Rightarrow> login_session \<Rightarrow> page awaiting" where
  "code_begin other say s = (case submit_code_start s of Inl e \<Rightarrow> Now (login_failed other (code_error say s) e) | Inr _ \<Rightarrow> Later)"

text \<open>The flag says that the session is saved, best effort, before the redirect.\<close>

definition go_home :: page where
  "go_home = Answer (Redirect ''/'' 302)"

definition code_finish :: "response \<Rightarrow> (login_error \<Rightarrow> utext) \<Rightarrow> code_outcome \<Rightarrow> login_session \<Rightarrow> page \<times> bool \<times> login_session" where
  "code_finish other say out s = (case submit_code_end out s of
     (Inl e, s') \<Rightarrow> (login_failed other (code_error say s') e, False, s')
   | (Inr _, s') \<Rightarrow>
       if ls_state s' = Password then (Html (tg_login_password_fragment None), False, s') else (go_home, True, s'))"

definition password_begin :: "response \<Rightarrow> (login_error \<Rightarrow> utext) \<Rightarrow> login_session \<Rightarrow> page awaiting" where
  "password_begin other say s = (case submit_password_start s of
     Inl e \<Rightarrow> Now (login_failed other (password_error say) e) | Inr _ \<Rightarrow> Later)"

definition password_finish :: "response \<Rightarrow> (login_error \<Rightarrow> utext) \<Rightarrow> password_outcome \<Rightarrow> login_session \<Rightarrow> page \<times> bool \<times> login_session" where
  "password_finish other say out s = (case submit_password_end out s of
     (Inl e, s') \<Rightarrow> (login_failed other (password_error say) e, False, s')
   | (Inr _, s') \<Rightarrow> (go_home, True, s'))"

section \<open>Reading pages only read\<close>

lemma asking_cached:
  assumes "asking.keeps perm fetch"
  shows "asking.keeps perm (cached_fetch get put t tsk key fetch)"
proof -
  have st: "st_trace (store_cache put c s) = st_trace s" for c and s :: "'a cstate" by (simp add: store_cache_def)
  have step: "asks perm s s' \<Longrightarrow> asks perm s (store_cache put c s')" for c and s s' :: "'a cstate"
    by (simp add: asks_def st)
  have "asks perm s (snd (cached_fetch get put t tsk key fetch s))" for s
  proof (cases "gof_enter (tl_now t (st_world s)) key (get (st_client s))")
    case (Pair hit c)
    let ?s1 = "store_cache put c s"
    let ?s2 = "if fst (lk (get (st_client s)) key) = None then ?s1 else lock_wait t ?s1"
    have r1: "asks perm s ?s1" by (rule asks_same) (rule st)
    have r2: "asks perm s ?s2" using r1 asking.R_lock_wait [of perm ?s1 t] asks_trans by auto
    obtain lr c2 where l: "gof_locked tsk (tl_now t (st_world ?s2)) key (get (st_client ?s2)) = (lr, c2)" by fastforce
    obtain fr s3 where f: "fetch (store_cache put c2 ?s2) = (fr, s3)" by fastforce
    have r3: "asks perm s s3" using step [OF r2] asking.keepsD [OF assms f] asks_trans by blast
    have "snd (cached_fetch get put t tsk key fetch s) \<in>
        {?s1, store_cache put c2 ?s2} \<union> range (\<lambda>d. store_cache put d s3)"
      using Pair l f by (cases hit; cases lr; cases fr) (auto simp: cached_fetch_def Let_def)
    then show ?thesis using r1 step [OF r2] step [OF r3] by auto
  qed
  then show ?thesis by (simp add: asking.keeps_def)
qed

lemma asking_history: "retry_ok t \<Longrightarrow> asking.keeps perm (history t tsk d limit offset_id fresh)"
  by (simp add: history_def asking.keeps_fetch_history asking_cached)

lemma asking_kind: "retry_ok t \<Longrightarrow> asking.keeps perm (dialog_kind_for t tsk d)"
  by (rule asking_same_snd [OF asking.keeps_dialogs [where t = t and perm = perm and tsk = tsk and dm = False and limit = None]])
    (auto simp: dialog_kind_for_def split: prod.split sum.split client_error.split)

lemma asking_authors: "retry_ok t \<Longrightarrow> asking.keeps perm (with_authors t tsk d items)"
  unfolding with_authors_def by (intro asking.keeps_seq asking_kind asking.keeps_pure)

text \<open>What the reading pages are given over the client reads only, too.\<close>

fun given_reads :: "'w get_route \<Rightarrow> bool" where
  "given_reads (GetMessages hist translated d) \<longleftrightarrow>
     (\<forall>h. hist = Some h \<longrightarrow> (\<forall>d. asking.keeps (\<lambda>_. False) (h d))) \<and> (\<forall>ms. asking.keeps (\<lambda>_. False) (translated ms))"
| "given_reads _ \<longleftrightarrow> True"



section \<open>The wizard and its pages\<close>

text \<open>What a step answers is the card of the step the wizard is at then, which a reload shows
  again, unless the step failed outside the wizard.\<close>

definition shows_step :: "response \<Rightarrow> page \<Rightarrow> login_session \<Rightarrow> bool" where
  "shows_step other pg s \<longleftrightarrow> pg = Answer other \<or> (case ls_state s of
     Phone \<Rightarrow> \<exists>err. pg = Html (tg_login_phone_fragment err)
   | Code \<Rightarrow> \<exists>err. pg = Html (tg_login_code_fragment (ls_delivery s) err)
   | Password \<Rightarrow> \<exists>err. pg = Html (tg_login_password_fragment err)
   | Done \<Rightarrow> pg = go_home
   | Sending \<Rightarrow> False)"

lemmas step_pages = shows_step_def login_failed_def phone_error_def code_error_def password_error_def

lemma phone_shows_step: "phone_finish other say p out s = (pg, s') \<Longrightarrow> shows_step other pg s'"
  by (cases out) (fastforce simp: phone_finish_def submit_phone_end_def flow_send_code_def step_pages split: prod.splits)+

lemma resend_shows_step: "ls_state s = Code \<Longrightarrow> resend_finish other say same out s = (pg, s') \<Longrightarrow> shows_step other pg s'"
  by (cases out) (auto simp: resend_finish_def resend_end_def bind_sent_def step_pages)

lemma code_shows_step: "ls_state s = Code \<Longrightarrow> code_finish other say out s = (pg, saved, s') \<Longrightarrow>
    shows_step other pg s' \<and> (saved \<longleftrightarrow> ls_state s' = Done)"
  by (cases out) (auto simp: code_finish_def submit_code_end_def step_pages)

lemma password_shows_step: "ls_state s = Password \<Longrightarrow> password_finish other say out s = (pg, saved, s') \<Longrightarrow>
    shows_step other pg s' \<and> (saved \<longleftrightarrow> ls_state s' = Done)"
  by (cases out) (auto simp: password_finish_def submit_password_end_def step_pages)

lemma reload_shows_step: "ls_state s \<in> {Code, Password} \<Longrightarrow>
    \<exists>pg. tg_login_form s = (LoginCard (Some pg), s) \<and> shows_step other (Html pg) s"
  by (auto simp: tg_login_form_def card_for_def shows_step_def login_reset_def)

end
