(* ===== verification/Tui_Settings.thy ===== *)
theory Tui_Settings
  imports Cli_Settings
begin

text \<open>
  The settings modal of the terminal interface (\<open>src/tg_messenger/tui/settings.py\<close>): the
  translation card and the suggester card as forms loaded from the storage and saved to it, and
  the accounts as a list over the session files. A toast is its text and whether it is an error.
  The model a name stands for (\<open>init\<close>), the state a storage that raises is left in
  (\<open>raised\<close>) and the answer of the login screen are arguments; a save runs to its end.
\<close>

datatype toast = Info utext | Warning utext | Failure utext

section \<open>The translation card\<close>

record translate_form =
  tf_mode :: "string option"
  tf_target :: string
  tf_known :: string
  tf_unknown :: string
  tf_model :: string
  tf_max :: string

record translate_card =
  tk_form :: translate_form
  tk_mode :: "string option"
  tk_model :: string

definition translate_mode_labels :: "(string \<times> utext) list" where
  "translate_mode_labels =
     [(''off'', u ''Off '' @ [8212] @ u '' do not translate''),
      (''all_unknown'', u ''All unknown languages (except my languages)''),
      (''skip_known'', u ''Except known languages (see below)''),
      (''only_unknown'', u ''Only specified languages (see below)'')]"

text \<open>\<open>get_settings\<close> that raises is None; a mode without a button leaves the buttons alone.\<close>

definition load_translate :: "lang_settings option \<Rightarrow> translate_card \<Rightarrow> translate_card" where
  "load_translate settings c =
     (case settings of
        None \<Rightarrow> c
      | Some g \<Rightarrow>
          (let mode = (if lg_mode g = [] then ''off'' else lg_mode g)
           in \<lparr>tk_form =
                 \<lparr>tf_mode = (if mode \<in> set (map fst translate_mode_labels) then Some mode else tf_mode (tk_form c)),
                  tf_target = or_default (lg_target g) [], tf_known = join '', '' (lg_known g),
                  tf_unknown = join '', '' (lg_unknown g), tf_model = or_default (lg_model g) [],
                  tf_max = (if lg_max_messages g \<noteq> 0 then str_int (lg_max_messages g) else [])\<rparr>,
               tk_mode = Some mode, tk_model = or_default (lg_model g) []\<rparr>))"

definition selected_mode :: "translate_form \<Rightarrow> string" where
  "selected_mode f = (case tf_mode f of Some m \<Rightarrow> m | None \<Rightarrow> ''off'')"

text \<open>Whether a change of the buttons, or Enter in a field, saves.\<close>

definition radio_saves :: "translate_card \<Rightarrow> bool" where
  "radio_saves c \<longleftrightarrow> Some (selected_mode (tk_form c)) \<noteq> tk_mode c"

definition translate_field_saves :: "string \<Rightarrow> bool" where
  "translate_field_saves field \<longleftrightarrow> field \<in> {''target-lang'', ''known-langs'', ''unknown-langs'', ''translate-model'', ''translate-max''}"

definition card_max_messages :: "string \<Rightarrow> (utext, int option) result" where
  "card_max_messages raw =
     (if raw = [] then Inr None
      else (case parse_int raw of
              None \<Rightarrow> Inl (u ''Message count: enter a number'')
            | Some n \<Rightarrow> if n < 1 then Inl (u ''Message count: must be '' @ [8805] @ u '' 1'') else Inr (Some n)))"

definition bad_code_text :: "string \<Rightarrow> utext" where
  "bad_code_text raw = u ''invalid language code: '' @ u raw"

definition card_langs :: "string \<Rightarrow> (utext, string list) result" where
  "card_langs field = map_sum bad_code_text id (parse_lang_codes (Some field))"

text \<open>The fields are checked in this order; the first bad one is reported.\<close>

definition check_form :: "translate_form \<Rightarrow> (utext, string option \<times> string list \<times> string list \<times> int option) result" where
  "check_form f =
     (case (if strip (tf_target f) = [] then Inr None
            else map_sum u Some (validate_supported_lang_code (strip (tf_target f)))) of
        Inl e \<Rightarrow> Inl e
      | Inr target \<Rightarrow>
     (case card_langs (tf_known f) of
        Inl e \<Rightarrow> Inl e
      | Inr known \<Rightarrow>
     (case card_langs (tf_unknown f) of
        Inl e \<Rightarrow> Inl e
      | Inr unknown \<Rightarrow> map_sum id (\<lambda>cap. (target, known, unknown, cap)) (card_max_messages (strip (tf_max f))))))"

definition build_translator_with_probe :: "(json \<Rightarrow> utext) \<Rightarrow> (string \<Rightarrow> llm option) \<Rightarrow> kv_health \<Rightarrow> string \<Rightarrow> lang_store
    \<Rightarrow> bool \<times> lang_store" where
  "build_translator_with_probe jdumps init health name s =
     (case init name of
        None \<Rightarrow> (False, s)
      | Some model \<Rightarrow> (case resolve_translate_method jdumps health name model s of (r, s1) \<Rightarrow> (r \<noteq> None, s1)))"

text \<open>The card's surroundings: whether the agent extra is installed, the environment, the JSON
  of the lists and of the probe, the models, the health of the storage.\<close>

record card_env =
  cv_agent :: bool
  cv_env :: environ
  cv_dumps :: "string list \<Rightarrow> string"
  cv_json :: "json \<Rightarrow> utext"
  cv_init :: "string \<Rightarrow> llm option"
  cv_health :: kv_health
  cv_raised :: "lang_store option"

definition validate_model :: "card_env \<Rightarrow> string \<Rightarrow> lang_store \<Rightarrow> bool \<times> toast list \<times> lang_store" where
  "validate_model v model s =
     (let saving = Info (u ''Saving model'' @ [8230]);
          target = (if model \<noteq> [] then Some model else translate_model_from_env (cv_env v))
      in if \<not> cv_agent v then (False, [saving, Failure (u ''Translator unavailable (install the [agent] extra)'')], s)
         else (case target of
                 None \<Rightarrow> (False, [saving, Failure (u ''Translation model is not set'')], s)
               | Some name \<Rightarrow>
                   (case build_translator_with_probe (cv_json v) (cv_init v) (cv_health v) name s of
                      (False, s1) \<Rightarrow> (False, [saving, Failure (u ''Could not apply model '' @ [8212] @ u '' check the name/key'')], s1)
                    | (True, s1) \<Rightarrow> (True, [saving], s1))))"

fun setting_error_text :: "string \<Rightarrow> setting_error \<Rightarrow> utext" where
  "setting_error_text x InvalidMode = u ''invalid translate mode: '' @ u x"
| "setting_error_text x InvalidLang = u ''invalid language code''"
| "setting_error_text x InvalidMethod = u ''invalid structured method: '' @ u x"
| "setting_error_text x InvalidCount = u ''max messages must be >= 1''"

text \<open>The result says whether a new translator is handed to the application.\<close>

definition commit_card :: "card_env \<Rightarrow> bool \<Rightarrow> string option \<times> string list \<times> string list \<times> int option \<Rightarrow> translate_card \<Rightarrow> lang_store
    \<Rightarrow> toast list \<times> bool \<times> translate_card \<times> lang_store" where
  "commit_card v model_changed checked c s =
     (case (cv_raised v, checked) of
        (Some s', _) \<Rightarrow> ([Failure (u ''Could not save translation settings'')], False, c, s')
      | (None, target, known, unknown, cap) \<Rightarrow>
          (let mode = selected_mode (tk_form c); model = strip (tf_model (tk_form c))
           in (case set_settings (cv_dumps v) mode target (Some (Inr known)) (Some (Inr unknown)) None cap s of
                 (Inl e, s1) \<Rightarrow> ([Failure (setting_error_text mode e)], False, c, s1)
               | (Inr _, s1) \<Rightarrow>
                   if model_changed
                   then ([Info (u ''Model saved '' @ [8212] @ u '' check translation in the chat'')], True,
                         c\<lparr>tk_mode := Some mode, tk_model := model\<rparr>,
                         set_translate_model (if model = [] then None else Some model) s1)
                   else ([Info (u ''Translation settings saved'')], False, c\<lparr>tk_mode := Some mode\<rparr>, s1))))"

definition save_card :: "card_env \<Rightarrow> translate_card \<Rightarrow> lang_store \<Rightarrow> toast list \<times> bool \<times> translate_card \<times> lang_store" where
  "save_card v c s =
     (case check_form (tk_form c) of
        Inl e \<Rightarrow> ([Failure e], False, c, s)
      | Inr checked \<Rightarrow>
          (let model = strip (tf_model (tk_form c))
           in if model \<noteq> tk_model c
              then (case validate_model v model s of
                      (False, ts, s1) \<Rightarrow> (ts, False, c, s1)
                    | (True, ts, s1) \<Rightarrow> (case commit_card v True checked c s1 of (ts', r) \<Rightarrow> (ts @ ts', r)))
              else commit_card v False checked c s))"

section \<open>A form is saved whole or not at all\<close>

lemma validate_codes: "\<forall>l\<in>set ls. code_ok l \<Longrightarrow> validate_all ls = Inr ls"
  by (induction ls) (auto simp: code_ok_def validate_supported_lang_code_def)

lemma dedup_distinct: "distinct xs \<Longrightarrow> dedup xs = xs"
  by (induction xs) (auto simp: filter_id_conv)

lemma supported_ok: "l \<in> set supported_langs \<Longrightarrow> code_ok l"
  by (simp add: code_ok_def clean_of_supported)

text \<open>What a checked form consists of.\<close>

definition checked_ok :: "string option \<times> string list \<times> string list \<times> int option \<Rightarrow> bool" where
  "checked_ok ch \<longleftrightarrow> (case ch of (target, known, unknown, cap) \<Rightarrow>
     (\<forall>l. target = Some l \<longrightarrow> code_ok l \<and> l \<noteq> []) \<and> distinct known \<and> distinct unknown
     \<and> (\<forall>l\<in>set known \<union> set unknown. code_ok l) \<and> (\<forall>n. cap = Some n \<longrightarrow> 1 \<le> n))"

lemma card_langs_ok: "card_langs field = Inr ls \<Longrightarrow> distinct ls \<and> (\<forall>l\<in>set ls. code_ok l)"
  using parse_lang_codes_correct [of field]
  by (auto simp: card_langs_def intro: supported_ok split: sum.splits)

lemma check_form_ok: "check_form f = Inr ch \<Longrightarrow> checked_ok ch"
proof -
  assume h: "check_form f = Inr ch"
  have t: "code_ok l \<and> l \<noteq> []" if "clean_supported_lang_code (Some x) = Some l" for x l
    using clean_code_ok [OF that] clean_supported [OF that] by (auto simp: supported_langs_def)
  show ?thesis using h
    by (auto simp: check_form_def checked_ok_def card_max_messages_def validate_supported_lang_code_def
        dest: t card_langs_ok split: if_splits sum.splits option.splits)
qed

definition settings_stored :: "(string list \<Rightarrow> string) \<Rightarrow> string \<Rightarrow> string option \<times> string list \<times> string list \<times> int option
    \<Rightarrow> lang_store \<Rightarrow> lang_store" where
  "settings_stored dumps mode ch s = (case ch of (target, known, unknown, cap) \<Rightarrow>
     (let s1 = (case target of None \<Rightarrow> s | Some l \<Rightarrow> drop_translations (kv_put user_lang_key (VStr l) s));
          s2 = drop_translations (kv_put known_langs_key (VStr (dumps known)) s1);
          s3 = drop_translations (kv_put unknown_langs_key (VStr (dumps unknown)) s2);
          s4 = (case cap of None \<Rightarrow> s3 | Some n \<Rightarrow> kv_put max_messages_key (VInt n) s3)
      in drop_translations (kv_put translate_mode_key (VStr mode) s4)))"

text \<open>The setters cannot refuse what the card has checked.\<close>

lemma set_settings_accepts:
  assumes "checked_ok (target, known, unknown, cap)" and "mode \<in> set translate_modes"
  shows "set_settings dumps mode target (Some (Inr known)) (Some (Inr unknown)) None cap s
    = (Inr (), settings_stored dumps mode (target, known, unknown, cap) s)"
proof -
  have l: "code_list (Inr known) = Inr known" "code_list (Inr unknown) = Inr unknown" "dedup known = known" "dedup unknown = unknown"
    using assms(1) by (auto simp: code_list_def checked_ok_def validate_codes dedup_distinct)
  have t: "(case target of None \<Rightarrow> (Inr (), s) | Some t \<Rightarrow> set_user_lang (if t = [] then None else Some t) s)
      = (Inr (), case target of None \<Rightarrow> s | Some l \<Rightarrow> drop_translations (kv_put user_lang_key (VStr l) s))"
    using assms(1) by (auto simp: checked_ok_def code_ok_def set_user_lang_def validate_supported_lang_code_def split: option.split)
  have c: "\<not> (case cap of None \<Rightarrow> False | Some n \<Rightarrow> n < 1)"
    using assms(1) by (auto simp: checked_ok_def split: option.split)
  have m: "(case cap of None \<Rightarrow> (Inr (), x) | Some n \<Rightarrow> set_max_messages (Some n) x)
      = (Inr (), case cap of None \<Rightarrow> x | Some n \<Rightarrow> kv_put max_messages_key (VInt n) x)" for x
    using c by (auto simp: set_max_messages_def split: option.split)
  show ?thesis using assms(2) c
    by (simp add: set_settings_def t after_def set_known_langs_def set_unknown_langs_def set_lang_list_def l m
        set_translate_mode_def settings_stored_def Let_def)
qed

lemma stored_keys:
  "kv_get user_lang_key (settings_stored dumps mode (target, known, unknown, cap) s) =
     (case target of None \<Rightarrow> kv_get user_lang_key s | Some l \<Rightarrow> Some (VStr l))"
  "kv_get known_langs_key (settings_stored dumps mode (target, known, unknown, cap) s) = Some (VStr (dumps known))"
  "kv_get unknown_langs_key (settings_stored dumps mode (target, known, unknown, cap) s) = Some (VStr (dumps unknown))"
  "kv_get max_messages_key (settings_stored dumps mode (target, known, unknown, cap) s) =
     (case cap of None \<Rightarrow> kv_get max_messages_key s | Some n \<Rightarrow> Some (VInt n))"
  "kv_get translate_mode_key (settings_stored dumps mode (target, known, unknown, cap) s) = Some (VStr mode)"
  "kv_get translate_model_key (settings_stored dumps mode (target, known, unknown, cap) s) = kv_get translate_model_key s"
  by (auto simp: settings_stored_def Let_def key_defs split: option.split)

lemma model_keys:
  "key \<noteq> translate_model_key \<Longrightarrow> kv_get key (set_translate_model name s) = kv_get key s"
  "kv_get translate_model_key (set_translate_model name s) =
     (case name of None \<Rightarrow> None | Some n \<Rightarrow> if strip n = [] then None else Some (VStr (strip n)))"
  by (auto simp: set_translate_model_def split: option.split)

text \<open>Probing a model stores at most the method of that model.\<close>

definition same_settings :: "lang_store \<Rightarrow> lang_store \<Rightarrow> bool" where
  "same_settings s s' \<longleftrightarrow> ls_msgs s' = ls_msgs s \<and> (\<forall>k. k \<notin> range method_key \<longrightarrow> kv_get k s' = kv_get k s)"

lemma probe_same: "validate_model v model s = (r, ts, s') \<Longrightarrow> same_settings s s'"
  by (auto simp: validate_model_def build_translator_with_probe_def resolve_translate_method_def set_cached_method_def
      same_settings_def Let_def split: if_splits option.splits prod.splits bool.splits)

lemma setting_keys_no_method: "key \<in> {user_lang_key, known_langs_key, unknown_langs_key, max_messages_key, translate_mode_key, translate_model_key}
    \<Longrightarrow> key \<notin> range method_key"
  by (auto simp: key_defs method_key_def)

lemma same_settings_reads:
  assumes "same_settings s s'"
  shows "get_user_lang env s' = get_user_lang env s" and "get_max_messages env s' = get_max_messages env s"
    and "get_translate_model env s' = get_translate_model env s"
  using assms setting_keys_no_method
  by (simp_all add: same_settings_def get_user_lang_def get_max_messages_def get_translate_model_def)

text \<open>What the translator reads after a form was stored.\<close>

definition reads_as :: "(string \<Rightarrow> kv_value option) \<Rightarrow> environ \<Rightarrow> string \<Rightarrow> string option \<times> string list \<times> string list \<times> int option
    \<Rightarrow> lang_store \<Rightarrow> lang_store \<Rightarrow> bool" where
  "reads_as loads env mode ch s s' \<longleftrightarrow> (case ch of (target, known, unknown, cap) \<Rightarrow>
     (let g = get_settings loads env s'
      in lg_mode g = mode \<and> lg_known g = known \<and> lg_unknown g = unknown
         \<and> lg_target g = (case target of None \<Rightarrow> get_user_lang env s | Some l \<Rightarrow> Some l)
         \<and> lg_max_messages g = (case cap of None \<Rightarrow> get_max_messages env s | Some n \<Rightarrow> n)))"

lemma reads_as_same: "same_settings s s1 \<Longrightarrow> reads_as loads env mode ch s1 s' = reads_as loads env mode ch s s'"
  using same_settings_reads [of s s1 env] by (cases ch) (auto simp: reads_as_def Let_def split: option.split)

lemma stored_reads:
  assumes "checked_ok ch" and "codec_ok dumps loads" and "mode \<in> set translate_modes"
    and "\<And>k. k \<noteq> translate_model_key \<Longrightarrow> kv_get k s' = kv_get k (settings_stored dumps mode ch s)"
  shows "reads_as loads env mode ch s s'"
proof -
  obtain target known unknown cap where ch: "ch = (target, known, unknown, cap)" by (cases ch) blast
  have n: "user_lang_key \<noteq> translate_model_key" "known_langs_key \<noteq> translate_model_key" "unknown_langs_key \<noteq> translate_model_key"
    "max_messages_key \<noteq> translate_model_key" "translate_mode_key \<noteq> translate_model_key" by (simp_all add: key_defs)
  note g = stored_keys [of dumps mode target known unknown cap s, folded ch, folded n [THEN assms(4)]]
  have o: "\<forall>l\<in>set known. code_ok l" "\<forall>l\<in>set unknown. code_ok l" "dedup known = known" "dedup unknown = unknown"
    using assms(1) by (auto simp: checked_ok_def ch dedup_distinct)
  have "get_known_langs loads s' = known" "get_unknown_langs loads s' = unknown"
    using lang_list_roundtrip [OF assms(2) _ o(1), of known_langs_key s'] lang_list_roundtrip [OF assms(2) _ o(2), of unknown_langs_key s'] g o
    by (simp_all add: get_known_langs_def get_unknown_langs_def)
  moreover have "get_translate_mode env s' = mode" using g(5) assms(3) by (simp add: get_translate_mode_def)
  moreover have "get_user_lang env s' = (case target of None \<Rightarrow> get_user_lang env s | Some l \<Rightarrow> Some l)"
    using g(1) assms(1) by (auto simp: get_user_lang_def checked_ok_def ch code_ok_def split: option.split)
  moreover have "get_max_messages env s' = (case cap of None \<Rightarrow> get_max_messages env s | Some k \<Rightarrow> k)"
  proof (cases cap)
    case (Some k)
    have "strip (str_int k) \<noteq> []" using parse_str_int [of k] by (auto simp: parse_int_def)
    then show ?thesis using g(4) Some assms(1) by (auto simp: get_max_messages_def checked_ok_def ch)
  qed (use g(4) in \<open>simp add: get_max_messages_def\<close>)
  ultimately show ?thesis by (simp add: reads_as_def ch get_settings_def)
qed

lemma commit_reads:
  assumes "checked_ok ch" and "codec_ok (cv_dumps v) loads" and "selected_mode (tk_form c) \<in> set translate_modes" and "cv_raised v = None"
    and "commit_card v changed ch c s = (ts, adopted, c', s')"
  shows "(\<forall>t. Failure t \<notin> set ts) \<and> adopted = changed \<and> tk_mode c' = Some (selected_mode (tk_form c)) \<and> tk_form c' = tk_form c
    \<and> reads_as loads env (selected_mode (tk_form c)) ch s s'
    \<and> get_translate_model env s' =
        (if changed then (let m = strip (tf_model (tk_form c)) in if m = [] then translate_model_from_env env else Some m)
         else get_translate_model env s)"
proof -
  obtain target known unknown cap where ch: "ch = (target, known, unknown, cap)" by (cases ch) blast
  let ?mode = "selected_mode (tk_form c)" and ?m = "strip (tf_model (tk_form c))"
  let ?s1 = "settings_stored (cv_dumps v) ?mode ch s"
  have s': "s' = (if changed then set_translate_model (if ?m = [] then None else Some ?m) ?s1 else ?s1)"
    and r: "(\<forall>t. Failure t \<notin> set ts) \<and> adopted = changed \<and> tk_mode c' = Some ?mode \<and> tk_form c' = tk_form c"
    using assms(4,5) set_settings_accepts [OF assms(1) [unfolded ch] assms(3)]
    by (auto simp: commit_card_def ch Let_def split: if_splits)
  have "k \<noteq> translate_model_key \<Longrightarrow> kv_get k s' = kv_get k ?s1" for k by (simp add: s' model_keys(1))
  from stored_reads [OF assms(1,2,3) this] have w: "reads_as loads env ?mode ch s s'" .
  have "get_translate_model env s' = (if changed then (if ?m = [] then translate_model_from_env env else Some ?m) else get_translate_model env s)"
    by (simp add: s' get_translate_model_def model_keys(2) stored_keys(6) ch str_simps)
  then show ?thesis using r w by (simp add: Let_def)
qed


text \<open>Opened on stored settings, the form can be saved as it stands.\<close>

lemma words_blank: "\<forall>c\<in>set b. p c \<Longrightarrow> words_acc p [] (b @ s) = words_acc p [] s"
  by (induction b) auto

lemma words_join_blanks:
  assumes "\<forall>w\<in>set ws. w \<noteq> [] \<and> (\<forall>c\<in>set w. \<not> p c)" and "p c" and "\<forall>d\<in>set b. p d"
  shows "words_by p (join (c # b) ws) = ws"
  using assms(1)
proof (induction "c # b" ws rule: join.induct)
  case (2 x)
  then show ?case using words_word [of x p] by simp
next
  case (3 x y xs)
  have x: "x \<noteq> []" "\<And>c. c \<in> set x \<Longrightarrow> \<not> p c" using "3.prems" by auto
  have "words_acc p [] (x @ (c # b) @ join (c # b) (y # xs)) = x # words_acc p [] (b @ join (c # b) (y # xs))"
    using words_acc_word [of x p "[]" "(c # b) @ join (c # b) (y # xs)"] x assms(2) by simp
  with 3 words_blank [OF assms(3)] show ?case by (simp add: words_by_def)
qed (simp add: words_by_def)

lemma shown_langs_parse:
  assumes "distinct ls" and "set ls \<subseteq> set supported_langs"
  shows "card_langs (join '', '' ls) = Inr ls"
proof -
  let ?f = "\<lambda>c. if c = CHR '','' then CHR '' '' else c"
  have "map ?f (join '', '' ls) = join [CHR '' '', CHR '' ''] (map (map ?f) ls)"
    by (induction "'', ''" ls rule: join.induct) auto
  moreover have "map (map ?f) ls = ls"
    using assms(2) supported_no_space by (intro map_idI) (auto intro!: map_idI)
  moreover have "\<forall>w\<in>set ls. w \<noteq> [] \<and> (\<forall>c\<in>set w. \<not> is_space c)"
    using assms(2) supported_no_space by blast
  then have "words_by is_space (join [CHR '' '', CHR '' ''] ls) = ls"
    by (rule words_join_blanks) (simp_all add: is_space_def space_cp_def)
  ultimately have "lang_tokens (join '', '' ls) = ls" by (simp add: lang_tokens_def)
  moreover have "parse_langs_loop [] ls = Inr ls" using parse_langs_loop_supported [of ls "[]"] assms by simp
  ultimately show ?thesis by (auto simp: card_langs_def parse_lang_codes_def lang_tokens_def words_by_def)
qed

lemma opened_form_checks:
  "check_form (tk_form (load_translate (Some (get_settings loads env s)) c)) =
     Inr (get_user_lang env s, get_known_langs loads s, get_unknown_langs loads s, Some (get_max_messages env s))"
proof -
  have cl: "l \<in> set supported_langs" if "clean_supported_lang_code c = Some l" for c l
    using that clean_supported by (cases c) (auto simp: clean_supported_lang_code_def [of None])
  have "\<exists>c. get_user_lang env s = clean_supported_lang_code c" by (auto simp: get_user_lang_def split: option.split)
  then have l: "l \<in> set supported_langs" if "get_user_lang env s = Some l" for l using cl that by metis
  have t: "strip l = l \<and> l \<noteq> [] \<and> clean_supported_lang_code (Some l) = Some l" if "get_user_lang env s = Some l" for l
    using l [OF that] supported_no_space [of l] clean_of_supported [of l] by (auto intro: strip_by_none)
  have m: "1 \<le> get_max_messages env s"
    by (auto simp: get_max_messages_def default_max_messages_def Let_def split: option.split)
  have s: "strip (str_int k) \<noteq> []" "parse_int (strip (str_int k)) = Some k" for k :: int
    using parse_str_int [of k] by (auto simp: parse_int_def str_simps)
  show ?thesis using t m lang_list_sound
    by (auto simp: check_form_def load_translate_def get_settings_def Let_def get_known_langs_def get_unknown_langs_def
        shown_langs_parse card_max_messages_def s parse_str_int or_default_def validate_supported_lang_code_def split: option.splits)
qed

definition demo_card_env :: card_env where
  "demo_card_env = \<lparr>cv_agent = True, cv_env = (\<lambda>_. None), cv_dumps = toy_dumps, cv_json = (\<lambda>_. []), cv_init = (\<lambda>_. None),
     cv_health = (True, True), cv_raised = None\<rparr>"

text \<open>The form as it opens on an empty storage, saved as it stands.\<close>

definition demo_card :: translate_card where
  "demo_card = load_translate (Some (get_settings toy_loads (\<lambda>_. None) empty_lang_store))
     \<lparr>tk_form = \<lparr>tf_mode = None, tf_target = [], tf_known = [], tf_unknown = [], tf_model = [], tf_max = []\<rparr>, tk_mode = None, tk_model = []\<rparr>"


section \<open>The suggester card\<close>

record suggest_card =
  sc_enabled :: bool
  sc_history :: string
  sc_model :: string
  sc_applied_model :: string
  sc_applied_enabled :: bool

definition default_suggest_history :: int where "default_suggest_history = 30"

definition load_suggest :: "suggest_settings option \<Rightarrow> suggest_card \<Rightarrow> suggest_card" where
  "load_suggest settings c =
     (case settings of
        None \<Rightarrow> c
      | Some g \<Rightarrow> \<lparr>sc_enabled = gs_enabled g, sc_history = (if gs_history g = 0 then [] else str_int (gs_history g)),
          sc_model = or_default (gs_model g) [], sc_applied_model = or_default (gs_model g) [], sc_applied_enabled = gs_enabled g\<rparr>)"

definition switch_saves :: "suggest_card \<Rightarrow> bool" where
  "switch_saves c \<longleftrightarrow> sc_enabled c \<noteq> sc_applied_enabled c"

definition suggest_field_saves :: "string \<Rightarrow> bool" where
  "suggest_field_saves field \<longleftrightarrow> field \<in> {''suggest-history'', ''suggest-model''}"

text \<open>\<open>why\<close> is the text of the ValueError that refuses the settings.\<close>

definition save_suggest_card :: "utext \<Rightarrow> backed option \<Rightarrow> suggest_card \<Rightarrow> backed \<Rightarrow> toast list \<times> suggest_card \<times> backed" where
  "save_suggest_card why raised c b =
     (let raw = strip (sc_history c); model = strip (sc_model c)
      in (case (if raw = [] then Some default_suggest_history else parse_int raw) of
            None \<Rightarrow> ([Failure (u ''Context: enter a number'')], c, b)
          | Some h \<Rightarrow>
              (let checking = (if model \<noteq> sc_applied_model c \<and> model \<noteq> [] then [Info (u ''Checking suggester model'' @ [8230])] else [])
               in (case raised of
                     Some b' \<Rightarrow> (checking @ [Failure (u ''Could not save suggester settings'')], c, b')
                   | None \<Rightarrow>
                       (case save_settings (sc_enabled c) (VInt h) (if model = [] then None else Some model) b of
                          (False, b1) \<Rightarrow> (checking @ [Failure why], c, b1)
                        | (True, b1) \<Rightarrow> (checking @ [Info (u ''Suggester settings saved'')],
                            c\<lparr>sc_applied_model := model, sc_applied_enabled := sc_enabled c\<rparr>, b1))))))"

section \<open>The accounts\<close>

record accounts =
  ac_profiles :: "string list"
  ac_active :: string
  ac_field :: string
  ac_files :: files

definition open_accounts :: "string list \<Rightarrow> string \<Rightarrow> files \<Rightarrow> accounts" where
  "open_accounts profiles active fs =
     \<lparr>ac_profiles = profiles, ac_active = sanitize_profile_name active, ac_field = [], ac_files = fs\<rparr>"

definition account_line :: "accounts \<Rightarrow> string \<Rightarrow> utext" where
  "account_line a p = u p @ (if p = ac_active a then u ''  (current)'' else [])"

definition quoted :: "string \<Rightarrow> utext" where
  "quoted p = [8220] @ u p @ [8221]"

definition select_account :: "accounts \<Rightarrow> string \<Rightarrow> toast" where
  "select_account a p =
     Info (if p = ac_active a then quoted p @ u '' is already the current profile''
           else u ''Switching to '' @ quoted p @ u '': restart the application'')"

text \<open>The name to add (None: nothing is started), and what is said instead.\<close>

definition add_account_check :: "accounts \<Rightarrow> toast list \<times> string option" where
  "add_account_check a =
     (let name = strip (ac_field a)
      in if name = [] then ([], None)
         else if \<not> is_safe_profile_name name
         then ([Failure (u ''Invalid profile name: '' @ u name @ u '' (letters, numbers, _.- only)'')], None)
         else if name \<in> set (list_profiles (ac_files a)) then ([Failure (u ''Profile already exists: '' @ u name)], None)
         else ([], Some name))"

text \<open>How the new client and its login screen end: an exception, the screen closed, or signed in
  with this session string.\<close>

datatype signing_in = AddRaises | Closed | SignedIn string

record vault =
  va_links :: bool
  va_cipher :: cipher
  va_key :: "string option"
  va_rnd :: string

definition add_account :: "vault \<Rightarrow> signing_in \<Rightarrow> string \<Rightarrow> accounts \<Rightarrow> toast list \<times> accounts" where
  "add_account v how name a =
     (case how of
        AddRaises \<Rightarrow> ([Failure (u ''Could not add profile: '' @ u name)], a)
      | Closed \<Rightarrow> ([], a)
      | SignedIn session \<Rightarrow>
          (case save_if_absent (va_links v) (va_cipher v) (va_key v) (va_rnd v) name session (ac_files a) of
             (Inl _, fs) \<Rightarrow> ([Failure (u ''Profile already exists: '' @ u name)], a\<lparr>ac_files := fs\<rparr>)
           | (Inr _, fs) \<Rightarrow> ([Info (u ''Profile added: '' @ u name)],
               a\<lparr>ac_files := fs, ac_field := [],
                 ac_profiles := (if list_profiles fs = [] then ac_profiles a @ [name] else list_profiles fs)\<rparr>)))"

definition remove_account_check :: "accounts \<Rightarrow> string option \<Rightarrow> toast list \<times> string option" where
  "remove_account_check a highlighted =
     (case highlighted of
        None \<Rightarrow> ([Warning (u ''Select a profile in the list before removing it'')], None)
      | Some p \<Rightarrow> if p = ac_active a then ([Warning (u ''The current profile cannot be removed'')], None) else ([], Some p))"

definition confirm_remove :: "bool \<Rightarrow> bool \<Rightarrow> string \<Rightarrow> accounts \<Rightarrow> toast list \<times> accounts" where
  "confirm_remove confirmed raises p a =
     (if \<not> confirmed then ([], a)
      else if raises then ([Failure (u ''Could not remove profile: '' @ u p)], a)
      else (let fs = snd (delete_session p (ac_files a))
            in ([Info (u ''Profile removed: '' @ u p)], a\<lparr>ac_files := fs, ac_profiles := list_profiles fs\<rparr>)))"

text \<open>A run of the screen; \<open>Elsewhere\<close> is another process that logs a new profile in, which may
  happen between the check of a name and its save.\<close>

datatype account_op =
    TypeName string
  | Add signing_in "(string \<times> string) list"
  | Remove "string option" bool bool
  | Elsewhere string string

definition elsewhere :: "string \<times> string \<Rightarrow> files \<Rightarrow> files" where
  "elsewhere p fs = (case p of (name, content) \<Rightarrow> if od_get fs (path_for name) = None then od_set (path_for name) content fs else fs)"

fun account_step :: "vault \<Rightarrow> account_op \<Rightarrow> accounts \<Rightarrow> accounts" where
  "account_step v (TypeName t) a = a\<lparr>ac_field := t\<rparr>"
| "account_step v (Add how meanwhile) a =
     (case add_account_check a of
        (_, None) \<Rightarrow> a
      | (_, Some name) \<Rightarrow> snd (add_account v how name (a\<lparr>ac_files := fold elsewhere meanwhile (ac_files a)\<rparr>)))"
| "account_step v (Remove highlighted confirmed raises) a =
     (case highlighted of
        Some p \<Rightarrow> if p \<notin> set (ac_profiles a) then a
                  else (case remove_account_check a (Some p) of (_, None) \<Rightarrow> a | (_, Some q) \<Rightarrow> snd (confirm_remove confirmed raises q a))
      | None \<Rightarrow> a)"
| "account_step v (Elsewhere name content) a = a\<lparr>ac_files := elsewhere (name, content) (ac_files a)\<rparr>"

lemma path_stem: "profile_stem (path_for name) = Some (sanitize_profile_name name)"
proof -
  have "suffix ''.session'' (path_for name)" by (auto simp: path_for_def suffix_def)
  then show ?thesis using sanitize_cases [of name] by (simp add: profile_stem_def path_for_def)
qed

text \<open>Every session file in the directory is named by a profile name.\<close>

definition canonical :: "files \<Rightarrow> bool" where
  "canonical fs \<longleftrightarrow> (\<forall>f p. od_get fs f \<noteq> None \<longrightarrow> profile_stem f = Some p \<longrightarrow> is_safe_profile_name p)"

lemma listed: "p \<in> set (list_profiles fs) \<longleftrightarrow> (\<exists>f. od_get fs f \<noteq> None \<and> profile_stem f = Some p)"
proof -
  have "p \<in> set (List.map_filter g xs) \<longleftrightarrow> (\<exists>x\<in>set xs. g x = Some p)" for g :: "string \<Rightarrow> string option" and xs
    by (induction xs) (auto simp: List.map_filter_simps split: option.split)
  moreover have "f \<in> set (od_keys fs) \<longleftrightarrow> od_get fs f \<noteq> None" for f using od_mem [of f fs] by auto
  ultimately show ?thesis unfolding list_profiles_def by blast
qed

lemma save_absent_get:
  "od_get (snd (save_if_absent links ci key rnd name s fs)) m =
     (if m = temp_name rnd (path_for name) then None
      else if m = path_for name \<and> od_get fs m = None then Some (stored_session ci key s) else od_get fs m)"
proof -
  let ?tmp = "temp_name rnd (path_for name)"
  let ?fs1 = "fs_run ([FCreate ?tmp] @ map (FAppend ?tmp) (stored_session ci key s) @ [FSync ?tmp]) fs"
  have g: "od_get ?fs1 m = (if m = ?tmp then Some (stored_session ci key s) else od_get fs m)" for m
    by (simp add: fs_simps append_run)
  show ?thesis using path_not_temp [of name rnd "path_for name"]
    by (auto simp: save_if_absent_def Let_def g fs_exec_get od_simps simp del: append_Cons append_Nil)
qed

lemma temp_no_profile: "profile_stem (temp_name rnd p) = None"
proof -
  have "\<not> suffix ''.session'' (temp_name rnd p)"
  proof
    assume "suffix ''.session'' (temp_name rnd p)"
    then have "last (temp_name rnd p) = CHR ''n''" by (auto simp: suffix_def)
    then show False by (simp add: temp_name_def)
  qed
  then show ?thesis by (simp add: profile_stem_def)
qed

lemma safe_sanitized: "is_safe_profile_name (sanitize_profile_name name)"
  using profile_names_safe [of name] by blast

section \<open>No account is lost\<close>

definition accounts_ok :: "accounts \<Rightarrow> bool" where
  "accounts_ok a \<longleftrightarrow> canonical (ac_files a) \<and> (\<forall>p\<in>set (ac_profiles a). is_safe_profile_name p) \<and> is_safe_profile_name (ac_active a)"

lemma canonical_elsewhere: "canonical fs \<Longrightarrow> canonical (elsewhere p fs)"
  by (auto simp: canonical_def elsewhere_def od_simps path_stem safe_sanitized split: prod.split if_splits)

lemma canonical_elsewheres: "canonical fs \<Longrightarrow> canonical (fold elsewhere ps fs)"
  by (induction ps arbitrary: fs) (simp_all add: canonical_elsewhere)

lemma canonical_save: "canonical fs \<Longrightarrow> canonical (snd (save_if_absent links ci key rnd name s fs))"
  by (auto simp: canonical_def save_absent_get path_stem safe_sanitized split: if_splits)

lemma canonical_delete: "canonical fs \<Longrightarrow> canonical (snd (delete_session name fs))"
  by (auto simp: canonical_def delete_session_def fs_simps od_simps split: if_splits)

lemma canonical_listed: "canonical fs \<Longrightarrow> \<forall>p\<in>set (list_profiles fs). is_safe_profile_name p"
  unfolding canonical_def Ball_def listed by blast

lemma check_add_safe: "add_account_check a = (ts, Some name) \<Longrightarrow> is_safe_profile_name name"
  by (auto simp: add_account_check_def Let_def split: if_splits)

lemma add_ok:
  assumes "accounts_ok a" and "is_safe_profile_name name"
  shows "accounts_ok (snd (add_account v how name a))"
proof (cases how)
  case (SignedIn session)
  let ?r = "save_if_absent (va_links v) (va_cipher v) (va_key v) (va_rnd v) name session (ac_files a)"
  have "canonical (snd ?r)" using assms(1) by (intro canonical_save) (simp add: accounts_ok_def)
  then show ?thesis using SignedIn assms canonical_listed
    by (cases ?r; cases "fst ?r") (auto simp: add_account_def accounts_ok_def)
qed (use assms(1) in \<open>simp_all add: add_account_def\<close>)

lemma remove_ok: "accounts_ok a \<Longrightarrow> accounts_ok (snd (confirm_remove confirmed raises p a))"
  using canonical_delete [of "ac_files a" p] canonical_listed [of "snd (delete_session p (ac_files a))"]
  by (auto simp: confirm_remove_def accounts_ok_def Let_def)

lemma account_step_ok: "accounts_ok a \<Longrightarrow> accounts_ok (account_step v op a) \<and> ac_active (account_step v op a) = ac_active a"
proof (cases op)
  case (Add how meanwhile)
  assume a: "accounts_ok a"
  let ?a = "a\<lparr>ac_files := fold elsewhere meanwhile (ac_files a)\<rparr>"
  have "accounts_ok ?a" using a canonical_elsewheres by (simp add: accounts_ok_def)
  moreover have "ac_active (snd (add_account v how name a)) = ac_active a" for name a
    by (auto simp: add_account_def split: signing_in.split prod.split sum.split)
  ultimately show ?thesis using a add_ok check_add_safe Add by (auto split: prod.split option.split)
next
  case (Remove highlighted confirmed raises)
  moreover have "ac_active (snd (confirm_remove confirmed raises p a)) = ac_active a" for p
    by (simp add: confirm_remove_def Let_def)
  moreover assume "accounts_ok a"
  ultimately show ?thesis using remove_ok by (auto split: prod.split option.split)
qed (auto simp: accounts_ok_def canonical_elsewhere)

lemma elsewhere_keeps: "od_get fs f = Some c \<Longrightarrow> od_get (elsewhere p fs) f = Some c"
  by (auto simp: elsewhere_def od_simps split: prod.split)

lemma elsewheres_keep: "od_get fs f = Some c \<Longrightarrow> od_get (fold elsewhere ps fs) f = Some c"
  by (induction ps arbitrary: fs) (simp_all add: elsewhere_keeps)

lemma add_keeps: "od_get (ac_files a) (path_for p) = Some c \<Longrightarrow> od_get (ac_files (snd (add_account v how name a))) (path_for p) = Some c"
proof (cases how)
  case (SignedIn session)
  assume h: "od_get (ac_files a) (path_for p) = Some c"
  let ?r = "save_if_absent (va_links v) (va_cipher v) (va_key v) (va_rnd v) name session (ac_files a)"
  have "od_get (snd ?r) (path_for p) = Some c" using h path_not_temp [of p] by (simp add: save_absent_get)
  then show ?thesis using SignedIn by (cases ?r; cases "fst ?r") (auto simp: add_account_def)
qed (simp_all add: add_account_def)

text \<open>The only step that takes a session away is a confirmed removal of that profile.\<close>

lemma account_step_keeps:
  assumes "accounts_ok a" and "od_get (ac_files a) (path_for p) = Some c"
  shows "od_get (ac_files (account_step v op a)) (path_for p) = Some c
    \<or> op = Remove (Some (sanitize_profile_name p)) True False \<and> sanitize_profile_name p \<noteq> ac_active a"
proof (cases op)
  case (Add how meanwhile)
  have "od_get (fold elsewhere meanwhile (ac_files a)) (path_for p) = Some c" by (rule elsewheres_keep [OF assms(2)])
  then show ?thesis using Add assms(2) by (auto intro!: add_keeps split: prod.split option.split)
next
  case (Remove highlighted confirmed raises)
  show ?thesis
  proof (cases "highlighted = Some (sanitize_profile_name p) \<and> confirmed \<and> \<not> raises")
    case True
    then show ?thesis using Remove assms(2)
      by (auto simp: remove_account_check_def)
  next
    case False
    have safe: "sanitize_profile_name q = q" if "q \<in> set (ac_profiles a)" for q
      using assms(1) that by (auto simp: accounts_ok_def is_safe_profile_name_def)
    have "od_get (ac_files (snd (confirm_remove confirmed raises q a))) (path_for p) = Some c" if "highlighted = Some q" "q \<in> set (ac_profiles a)" for q
      using that False assms(2) safe [OF that(2)]
      by (auto simp: confirm_remove_def delete_session_def Let_def fs_simps od_simps path_for_inj)
    then show ?thesis using Remove assms(2) by (auto simp: remove_account_check_def split: option.split)
  qed
qed (use assms(2) in \<open>simp_all add: elsewhere_keeps\<close>)



end
