(* ===== verification/Spec2Isabelle.thy ===== *)
theory Spec2Isabelle
  imports Single_Flight Names_Langs Models Event_Bus Storage Message_Sync Config_Files Session_Store Login Interop Report_Worker Moderation Heartbeat Ghostwrite Send_Tokens Watch Usernames Translator Web_Stream Web_Routes Agent_Loop Client_Contract Env_Layers Tui_Hazards Chat_Repl Agent_Models Cli_Commands Cli_Settings Web_Pages Tui_Settings
begin

text \<open>
  tg_messenger: see the component theories.
\<close>

end
